(* ===== verification/Prelude.thy ===== *)
theory Prelude imports Main "HOL-Library.Monad_Syntax" begin

text \<open>
  Shared vocabulary of the Excubitor development: the JavaScript values that cross an untyped
  boundary, the string and array operations of the standard library that several components
  use, and lists that hold at most one element per key.

  A JavaScript string is a \<^typ>\<open>string\<close> here: a list of code units below 256. The few places
  where larger code units matter (the truncation of JSON strings) use lists of 16 bit words.
  A time stamp or a duration in milliseconds is an \<^typ>\<open>int\<close>.
\<close>

named_theorems state_defs \<open>definitions of the state transformers, for unfolding a handler\<close>
named_theorems inv_intros \<open>preservation of a component's invariant by its operations\<close>

type_synonym ms = int
type_synonym pid = nat
type_synonym code = string

section \<open>Untyped values\<close>

text \<open>
  The value behind a TypeScript \<open>unknown\<close>, as far as the code tells values apart with
  \<open>typeof\<close>, \<open>===\<close> and \<open>Number.isInteger\<close>. A finite number is exact; \<open>JNonFinite\<close> stands for
  NaN and the infinities, \<open>JOther\<close> for objects, arrays and functions.
\<close>

datatype jsval =
    JUndef
  | JNull
  | JBool bool
  | JInt int
  | JFrac
  | JNonFinite
  | JStr string
  | JOther

text \<open>\<open>positiveInteger\<close>, and the two comparisons of a health document with what was expected.\<close>

definition positive_integer :: "jsval \<Rightarrow> pid option" where
  "positive_integer v = (case v of JInt n \<Rightarrow> (if n > 0 then Some (nat n) else None) | _ \<Rightarrow> None)"

definition js_eq_pid :: "jsval \<Rightarrow> pid option \<Rightarrow> bool" where
  "js_eq_pid v p = (case p of None \<Rightarrow> v = JUndef | Some n \<Rightarrow> v = JInt (int n))"

definition js_eq_token :: "jsval \<Rightarrow> string option \<Rightarrow> bool" where
  "js_eq_token v t = (case t of None \<Rightarrow> v = JNull | Some s \<Rightarrow> v = JStr s)"

lemma js_eq_pid_simps [simp]:
  "js_eq_pid v None \<longleftrightarrow> v = JUndef"
  "js_eq_pid v (Some n) \<longleftrightarrow> v = JInt (int n)"
  by (simp_all add: js_eq_pid_def)

lemma js_eq_token_simps [simp]:
  "js_eq_token v None \<longleftrightarrow> v = JNull"
  "js_eq_token v (Some s) \<longleftrightarrow> v = JStr s"
  by (simp_all add: js_eq_token_def)

lemma positive_integer_Some [simp]: "positive_integer v = Some p \<longleftrightarrow> 0 < p \<and> v = JInt (int p)"
  by (auto simp: positive_integer_def split: jsval.splits)

section \<open>Strings\<close>

definition is_space :: "char \<Rightarrow> bool" where
  "is_space c = (let n = of_char c :: nat in (9 \<le> n \<and> n \<le> 13) \<or> n = 32 \<or> n = 160)"

definition is_digit :: "char \<Rightarrow> bool" where
  "is_digit c = (let n = of_char c :: nat in 48 \<le> n \<and> n \<le> 57)"

definition js_trim :: "string \<Rightarrow> string" where
  "js_trim s = rev (dropWhile is_space (rev (dropWhile is_space s)))"

definition digits_value :: "string \<Rightarrow> nat" where
  "digits_value s = foldl (\<lambda>v c. 10 * v + (of_char c - 48)) 0 s"

definition to_lower_char :: "char \<Rightarrow> char" where
  "to_lower_char c =
     (let n = of_char c :: nat in
      if (65 \<le> n \<and> n \<le> 90) \<or> (192 \<le> n \<and> n \<le> 222 \<and> n \<noteq> 215) then char_of (n + 32) else c)"

definition js_lower :: "string \<Rightarrow> string" where
  "js_lower s = map to_lower_char s"

section \<open>Arrays\<close>

text \<open>
  \<open>xs.slice(-n)\<close>. The last \<open>n\<close> elements, except that \<open>-0\<close> is \<open>0\<close>: with \<open>n = 0\<close> the whole
  array is returned.
\<close>

definition slice_last :: "nat \<Rightarrow> 'a list \<Rightarrow> 'a list" where
  "slice_last n xs = (if n = 0 then xs else drop (length xs - n) xs)"

lemma length_slice_last [simp]: "0 < n \<Longrightarrow> length (slice_last n xs) = min n (length xs)"
  by (simp add: slice_last_def)

lemma set_slice_last: "set (slice_last n xs) \<subseteq> set xs"
  by (simp add: slice_last_def set_drop_subset)

lemma slice_last_snoc:
  "0 < n \<Longrightarrow> slice_last n (xs @ [x]) = slice_last (n - 1) xs @ [x] \<or> slice_last n (xs @ [x]) = [x]"
  by (cases n) (auto simp: slice_last_def)

lemma in_slice_last_snoc [simp]: "0 < n \<Longrightarrow> x \<in> set (slice_last n (xs @ [x]))"
  by (auto simp: slice_last_def)

lemma slice_last_short [simp]: "length xs \<le> n \<Longrightarrow> slice_last n xs = xs"
  by (simp add: slice_last_def)

lemma distinct_slice_last: "distinct (map f xs) \<Longrightarrow> distinct (map f (slice_last n xs))"
  by (simp add: slice_last_def drop_map [symmetric])

section \<open>Lists with one element per key\<close>

text \<open>
  An array searched with \<open>find\<close> by a key and updated in place at the position found, or
  extended at the end: the shape of the operation log, and of every insertion-ordered \<open>Map\<close>.
\<close>

fun upsert :: "('a \<Rightarrow> 'k) \<Rightarrow> 'a \<Rightarrow> 'a list \<Rightarrow> 'a list" where
  "upsert key y [] = [y]"
| "upsert key y (x # xs) = (if key x = key y then y # xs else x # upsert key y xs)"

definition find_key :: "('a \<Rightarrow> 'k) \<Rightarrow> 'k \<Rightarrow> 'a list \<Rightarrow> 'a option" where
  "find_key key k xs = find (\<lambda>x. key x = k) xs"

lemma find_key_Nil [simp]: "find_key key k [] = None"
  by (simp add: find_key_def)

lemma find_key_Cons [simp]:
  "find_key key k (x # xs) = (if key x = k then Some x else find_key key k xs)"
  by (simp add: find_key_def)

lemma find_key_append:
  "find_key key k (xs @ ys) = (case find_key key k xs of None \<Rightarrow> find_key key k ys | Some x \<Rightarrow> Some x)"
  by (induction xs) auto

lemma find_key_None: "find_key key k xs = None \<longleftrightarrow> k \<notin> key ` set xs"
  by (induction xs) auto

lemma find_key_SomeD: "find_key key k xs = Some x \<Longrightarrow> x \<in> set xs \<and> key x = k"
  by (induction xs) (auto split: if_splits)

lemma find_key_distinct:
  "distinct (map key xs) \<Longrightarrow> x \<in> set xs \<Longrightarrow> find_key key (key x) xs = Some x"
  by (induction xs) auto

lemma find_key_upsert:
  "find_key key k (upsert key y xs) = (if k = key y then Some y else find_key key k xs)"
  by (induction xs) auto

lemma key_set_upsert [simp]: "key ` set (upsert key y xs) = insert (key y) (key ` set xs)"
  by (induction xs) auto

lemma distinct_upsert: "distinct (map key xs) \<Longrightarrow> distinct (map key (upsert key y xs))"
proof (induction xs)
  case (Cons x xs)
  have "key x \<notin> key ` set (upsert key y xs)" if "key x \<noteq> key y"
    using that Cons.prems by simp
  with Cons show ?case by auto
qed simp

lemma set_upsert_subset: "set (upsert key y xs) \<subseteq> insert y (set xs)"
  by (induction xs) auto

lemma upsert_fresh: "key y \<notin> key ` set xs \<Longrightarrow> upsert key y xs = xs @ [y]"
  by (induction xs) auto

lemma length_upsert: "length (upsert key y xs) \<le> Suc (length xs)"
  by (induction xs) auto

lemma filter_same_length: "length (filter P xs) = length xs \<Longrightarrow> filter P xs = xs"
  by (metis filter_True length_filter_less less_irrefl)

end
