(* ===== verification/Protocol.thy ===== *)
theory Protocol imports Prelude "HOL-Library.Word" begin

text \<open>
  The local-control protocol (\<open>src/local-control/protocol.ts\<close>): requests and their schema,
  results, statuses, responses, and the truncation that keeps a response inside one
  newline-delimited frame. A text that may hold any JavaScript string is a list of UTF-16 code
  units (\<open>ustr\<close>); identifiers are restricted to ASCII by the schema and are \<open>string\<close>s.
\<close>

section \<open>Requests\<close>

datatype action = Start | Stop | Restart | Status | KillPort | ClaudePortFix
datatype dispatch_mode = Execute | Prepare | Commit
datatype target = Service (target_code: code) | Excubitor

type_synonym ustr = "16 word list"

record parameters =
  par_port :: "int option"
  par_prompt :: "ustr option"

record request =
  operation_id :: string
  req_target :: target
  req_action :: action
  req_actor :: string
  req_dispatch :: dispatch_mode
  req_parameters :: "parameters option"

definition max_line_bytes :: nat where "max_line_bytes = 65536"
definition output_json_bytes :: nat where "output_json_bytes = 24576"
definition command_json_bytes :: nat where "command_json_bytes = 4096"
definition error_json_bytes :: nat where "error_json_bytes = 4096"

text \<open>The character class \<open>[A-Za-z0-9._:-]\<close> of an operation id.\<close>

definition id_char :: "char \<Rightarrow> bool" where
  "id_char c =
     (let n = of_char c :: nat in
      (65 \<le> n \<and> n \<le> 90) \<or> (97 \<le> n \<and> n \<le> 122) \<or> is_digit c
      \<or> c = CHR ''.'' \<or> c = CHR ''_'' \<or> c = CHR '':'' \<or> c = CHR ''-'')"

definition operation_id_ok :: "string \<Rightarrow> bool" where
  "operation_id_ok s \<longleftrightarrow> 1 \<le> length s \<and> length s \<le> 128 \<and> list_all id_char s"

definition target_ok :: "target \<Rightarrow> bool" where
  "target_ok t = (case t of Service c \<Rightarrow> 1 \<le> length c \<and> length c \<le> 128 | Excubitor \<Rightarrow> True)"

definition emergency :: "action \<Rightarrow> bool" where
  "emergency a \<longleftrightarrow> a = KillPort \<or> a = ClaudePortFix"

text \<open>The schema, with the two cross-field refinements at the end.\<close>

definition request_schema :: "request \<Rightarrow> bool" where
  "request_schema r \<longleftrightarrow>
     operation_id_ok (operation_id r)
     \<and> target_ok (req_target r)
     \<and> 1 \<le> length (req_actor r) \<and> length (req_actor r) \<le> 256
     \<and> (case req_parameters r of None \<Rightarrow> True
        | Some p \<Rightarrow>
            (case par_port p of None \<Rightarrow> True | Some n \<Rightarrow> 1 \<le> n \<and> n \<le> 65535)
            \<and> (case par_prompt p of None \<Rightarrow> True | Some t \<Rightarrow> length t \<le> 4096))
     \<and> \<not> (req_target r = Excubitor \<and> emergency (req_action r))
     \<and> \<not> (\<not> emergency (req_action r) \<and> req_parameters r \<noteq> None)"

definition target_key :: "target \<Rightarrow> string" where
  "target_key t = (case t of Service c \<Rightarrow> ''service:'' @ c | Excubitor \<Rightarrow> ''excubitor'')"

lemma target_key_inj: "target_key t = target_key t' \<longleftrightarrow> t = t'"
  by (cases t; cases t') (auto simp: target_key_def)

section \<open>The length of a string in JSON\<close>

definition high_surrogate :: "16 word \<Rightarrow> bool" where
  "high_surrogate u \<longleftrightarrow> 0xD800 \<le> u \<and> u \<le> 0xDBFF"

definition low_surrogate :: "16 word \<Rightarrow> bool" where
  "low_surrogate u \<longleftrightarrow> 0xDC00 \<le> u \<and> u \<le> 0xDFFF"

lemma surrogates_disjoint [simp]: "high_surrogate u \<Longrightarrow> \<not> low_surrogate u"
  by (auto simp: high_surrogate_def low_surrogate_def word_le_nat_alt)

text \<open>
  Bytes of one code unit that is no surrogate, in the UTF-8 encoding of \<open>JSON.stringify\<close>: two
  for the short escapes, six for the other controls, else the UTF-8 length.
\<close>

definition unit_bytes :: "16 word \<Rightarrow> nat" where
  "unit_bytes u =
     (if u = 0x22 \<or> u = 0x5C then 2
      else if u = 8 \<or> u = 9 \<or> u = 10 \<or> u = 12 \<or> u = 13 then 2
      else if u < 0x20 then 6
      else if u < 0x80 then 1
      else if u < 0x800 then 2
      else 3)"

text \<open>A surrogate pair is one four-byte character, a lone surrogate is escaped (six bytes).\<close>

fun json_bytes :: "ustr \<Rightarrow> nat" where
  "json_bytes [] = 0"
| "json_bytes [u] = (if high_surrogate u \<or> low_surrogate u then 6 else unit_bytes u)"
| "json_bytes (u # v # us) =
     (if high_surrogate u \<and> low_surrogate v then 4 + json_bytes us
      else (if high_surrogate u \<or> low_surrogate u then 6 else unit_bytes u) + json_bytes (v # us))"

definition json_string_bytes :: "ustr \<Rightarrow> nat" where
  "json_string_bytes s = 2 + json_bytes s"

lemma json_bytes_snoc_high:
  "high_surrogate h \<Longrightarrow> json_bytes (us @ [h]) = json_bytes us + 6"
proof (induction us rule: json_bytes.induct)
  case (3 u v us)
  then show ?case by (cases us) auto
qed auto

text \<open>Well-formed UTF-16: surrogates come in pairs.\<close>

fun utf16_wf :: "ustr \<Rightarrow> bool" where
  "utf16_wf [] = True"
| "utf16_wf [u] = (\<not> high_surrogate u \<and> \<not> low_surrogate u)"
| "utf16_wf (u # v # us) =
     (if high_surrogate u then low_surrogate v \<and> utf16_wf us
      else \<not> low_surrogate u \<and> utf16_wf (v # us))"

section \<open>Truncation by binary search\<close>

function trunc_search :: "ustr \<Rightarrow> nat \<Rightarrow> nat \<Rightarrow> nat \<Rightarrow> nat" where
  "trunc_search body maxBytes low high =
     (if low < high
      then let middle = (low + high + 1) div 2
           in if json_string_bytes (take middle body) \<le> maxBytes
              then trunc_search body maxBytes middle high
              else trunc_search body maxBytes low (middle - 1)
      else low)"
  by pat_completeness auto
termination
  by (relation "measure (\<lambda>(body, maxBytes, low, high). high - low)") (auto simp: Let_def)

declare trunc_search.simps [simp del]

definition cut_high :: "ustr \<Rightarrow> ustr" where
  "cut_high w = (if w \<noteq> [] \<and> high_surrogate (last w) then butlast w else w)"

definition truncate_json :: "ustr \<Rightarrow> nat \<Rightarrow> ustr \<times> bool" where
  "truncate_json body maxBytes =
     (if json_string_bytes body \<le> maxBytes then (body, False)
      else (cut_high (take (trunc_search body maxBytes 0 (length body)) body), True))"

text \<open>
  The length of a prefix in JSON is not monotone (a pair is shorter than its lone half), yet the
  search keeps: the prefix of length \<open>low\<close> fits, and the one just above \<open>high\<close> does not.
\<close>

lemma trunc_search_inv:
  assumes "low \<le> high" "high \<le> length body"
    and "json_string_bytes (take low body) \<le> maxBytes"
    and "high = length body \<or> \<not> json_string_bytes (take (Suc high) body) \<le> maxBytes"
  shows "trunc_search body maxBytes low high \<le> length body
       \<and> json_string_bytes (take (trunc_search body maxBytes low high) body) \<le> maxBytes
       \<and> (trunc_search body maxBytes low high = length body
          \<or> \<not> json_string_bytes (take (Suc (trunc_search body maxBytes low high)) body) \<le> maxBytes)"
  using assms
proof (induction body maxBytes low high rule: trunc_search.induct)
  case (1 body maxBytes low high)
  show ?case
  proof (cases "low < high")
    case False
    with "1.prems" show ?thesis by (subst (1 2 3 4) trunc_search.simps) auto
  next
    case True
    define middle where "middle = (low + high + 1) div 2"
    have m: "low < middle" "middle \<le> high" using True by (auto simp: middle_def)
    then have sm: "Suc (middle - 1) = middle" by simp
    show ?thesis
    proof (cases "json_string_bytes (take middle body) \<le> maxBytes")
      case fits: True
      have "trunc_search body maxBytes low high = trunc_search body maxBytes middle high"
        using True fits by (subst trunc_search.simps) (simp add: Let_def middle_def)
      then show ?thesis using "1.IH"(1) [OF True middle_def fits] m fits "1.prems" by auto
    next
      case nofit: False
      have "trunc_search body maxBytes low high = trunc_search body maxBytes low (middle - 1)"
        using True nofit by (subst trunc_search.simps) (simp add: Let_def middle_def)
      then show ?thesis
        using "1.IH"(2) [OF True middle_def nofit] m nofit "1.prems" sm by auto
    qed
  qed
qed

lemma trunc_search_fits:
  assumes "2 \<le> maxBytes"
  shows "json_string_bytes (take (trunc_search body maxBytes 0 (length body)) body) \<le> maxBytes"
  using trunc_search_inv [of 0 "length body" body maxBytes] assms
  by (simp add: json_string_bytes_def)

lemma cut_high_bytes: "json_string_bytes (cut_high w) \<le> json_string_bytes w"
proof (cases "w \<noteq> [] \<and> high_surrogate (last w)")
  case True
  then have "json_bytes w = json_bytes (butlast w) + 6"
    using json_bytes_snoc_high [of "last w" "butlast w"] by simp
  with True show ?thesis by (simp add: cut_high_def json_string_bytes_def)
qed (auto simp: cut_high_def)

lemma truncate_json_fits:
  "2 \<le> maxBytes \<Longrightarrow> json_string_bytes (fst (truncate_json body maxBytes)) \<le> maxBytes"
  using trunc_search_fits [of maxBytes body] cut_high_bytes order_trans
  by (fastforce simp: truncate_json_def)

lemma cut_high_take_wf: "utf16_wf s \<Longrightarrow> utf16_wf (cut_high (take n s))"
proof (induction s arbitrary: n rule: utf16_wf.induct)
  case (2 u)
  then show ?case by (cases n) (auto simp: cut_high_def)
next
  case (3 u v us)
  consider (a) "n = 0" | (b) "n = 1" | (c) m where "n = Suc (Suc m)"
    by (metis One_nat_def not0_implies_Suc)
  then show ?case
  proof cases
    case c
    show ?thesis
    proof (cases "high_surrogate u")
      case True
      with 3 have "utf16_wf (cut_high (take m us))" "low_surrogate v" by auto
      moreover have "\<not> high_surrogate v" using \<open>low_surrogate v\<close> surrogates_disjoint by blast
      ultimately show ?thesis using True c
        by (cases "take m us") (auto simp: cut_high_def)
    next
      case False
      with 3 have IH: "utf16_wf (cut_high (take (Suc m) (v # us)))" and u: "\<not> low_surrogate u"
        by (metis utf16_wf.simps(3))+
      have "cut_high (take n (u # v # us)) = u # cut_high (take (Suc m) (v # us))"
        using c by (simp add: cut_high_def)
      moreover have "utf16_wf (u # w)" if "utf16_wf w" for w
        using that False u by (cases w) auto
      ultimately show ?thesis using IH by simp
    qed
  qed (use 3 in \<open>auto simp: cut_high_def split: if_splits\<close>)
qed (simp add: cut_high_def)

lemma truncate_json_wf: "utf16_wf body \<Longrightarrow> utf16_wf (fst (truncate_json body maxBytes))"
  by (simp add: truncate_json_def cut_high_take_wf)

section \<open>Results and statuses\<close>

record control_result =
  cr_ok :: bool
  cr_stdout :: ustr
  cr_stderr :: ustr
  cr_exit_code :: int
  cr_command :: ustr
  cr_stdout_truncated :: "bool option"
  cr_stderr_truncated :: "bool option"
  cr_command_truncated :: "bool option"

definition boundControlResult :: "control_result \<Rightarrow> control_result" where
  "boundControlResult r =
     (let stdout = truncate_json (cr_stdout r) output_json_bytes;
          stderr = truncate_json (cr_stderr r) output_json_bytes;
          command = truncate_json (cr_command r) command_json_bytes
      in r\<lparr>cr_stdout := fst stdout, cr_stderr := fst stderr, cr_command := fst command,
           cr_stdout_truncated := (if snd stdout then Some True else cr_stdout_truncated r),
           cr_stderr_truncated := (if snd stderr then Some True else cr_stderr_truncated r),
           cr_command_truncated := (if snd command then Some True else cr_command_truncated r)\<rparr>)"

record emergency_result =
  er_ok :: bool
  er_action :: action
  er_code :: code
  er_port :: "int option"
  er_pids :: "pid list"
  er_stdout :: ustr
  er_stderr :: ustr
  er_prompt :: "ustr option"
  er_stdout_truncated :: "bool option"
  er_stderr_truncated :: "bool option"
  er_prompt_truncated :: "bool option"

definition boundEmergencyResult :: "emergency_result \<Rightarrow> emergency_result" where
  "boundEmergencyResult r =
     (let stdout = truncate_json (er_stdout r) output_json_bytes;
          stderr = truncate_json (er_stderr r) output_json_bytes;
          prompt = map_option (\<lambda>p. truncate_json p command_json_bytes) (er_prompt r)
      in r\<lparr>er_stdout := fst stdout, er_stderr := fst stderr,
           er_prompt := (case prompt of Some p \<Rightarrow> Some (fst p) | None \<Rightarrow> er_prompt r),
           er_stdout_truncated := (if snd stdout then Some True else er_stdout_truncated r),
           er_stderr_truncated := (if snd stderr then Some True else er_stderr_truncated r),
           er_prompt_truncated :=
             (case prompt of Some (_, True) \<Rightarrow> Some True | _ \<Rightarrow> er_prompt_truncated r)\<rparr>)"

datatype service_state = SsRunning | SsStopped | SsUnknown

record service_status =
  ss_code :: code
  ss_runtime :: string
  ss_state :: service_state
  ss_running :: "bool option"
  ss_pid :: "pid option"

datatype backend_state = BStopped | BStarting | BRunning | BStopping | BRestarting | BCrashed
datatype desired_state = DesiredRunning | DesiredStopped

record excubitor_status =
  es_state :: backend_state
  es_desired_state :: desired_state
  es_pid :: "pid option"
  es_restart_count :: nat
  es_last_exit_code :: "int option"
  es_last_signal :: "string option"
  es_last_error :: "string option"
  es_instance_token :: "string option"
  es_last_startup_ms :: "ms option"

datatype completed_payload =
    ControlResult control_result
  | ServiceStatus service_status
  | ExcubitorStatus excubitor_status
  | EmergencyResult emergency_result

section \<open>Responses\<close>

datatype error_code =
    SUPERVISOR_START_FAILED | SUPERVISOR_CLOSING | OPERATION_FAILED | PREPARE_NOT_SUPPORTED
  | COMMIT_NOT_SUPPORTED | OPERATION_ID_CONFLICT | OPERATION_NOT_PREPARED | SERVICE_NOT_FOUND
  | SERVICE_DISABLED | EMERGENCY_FAILED | CONTROL_FAILED | INTERRUPTED
  | INVALID_JSON | INVALID_REQUEST | FRAME_TOO_LARGE | INTERNAL_ERROR

text \<open>The three shapes of the response union; \<open>ok\<close> and \<open>state\<close> are the constructor.\<close>

datatype response =
    Accepted (rsp_operation: string) (accepted_key: string)
  | Completed (rsp_operation: string) completed_payload
  | Failed (rsp_operation: string) (rsp_code: error_code) (rsp_message: ustr)
      "completed_payload option"

definition response_ok :: "response \<Rightarrow> bool" where
  "response_ok r = (case r of Failed _ _ _ _ \<Rightarrow> False | _ \<Rightarrow> True)"

definition is_accepted :: "response \<Rightarrow> bool" where
  "is_accepted r = (case r of Accepted _ _ \<Rightarrow> True | _ \<Rightarrow> False)"

lemma is_accepted_simps [simp]:
  "is_accepted (Accepted i k)" "\<not> is_accepted (Completed i p)" "\<not> is_accepted (Failed i c m q)"
  by (simp_all add: is_accepted_def)

definition units :: "string \<Rightarrow> ustr" where
  "units s = map (\<lambda>c. of_nat (of_char c)) s"

definition failedResponse ::
  "string \<Rightarrow> error_code \<Rightarrow> ustr \<Rightarrow> completed_payload option \<Rightarrow> response" where
  "failedResponse operationId errorCode message payload =
     (let bounded = fst (truncate_json message error_json_bytes)
      in Failed operationId errorCode
           (if bounded = [] then units ''local-control operation failed'' else bounded) payload)"

definition acceptedResponse :: "request \<Rightarrow> string \<Rightarrow> response" where
  "acceptedResponse r key = Accepted (operation_id r) key"

definition completedResponse :: "string \<Rightarrow> completed_payload \<Rightarrow> response" where
  "completedResponse operationId payload = Completed operationId payload"

lemma failedResponse_simps [simp]:
  "\<not> is_accepted (failedResponse i c m p)"
  "rsp_operation (failedResponse i c m p) = i"
  "rsp_code (failedResponse i c m p) = c"
  "\<not> response_ok (failedResponse i c m p)"
  by (simp_all add: failedResponse_def Let_def response_ok_def)

section \<open>The size of a control response on the wire\<close>

text \<open>
  The bytes of \<open>JSON.stringify\<close> for the responses of a start, stop or restart of a service.
  Property names and literals are counted as written; a number is its decimal digits.
\<close>

function dec_digits :: "nat \<Rightarrow> nat" where
  "dec_digits n = (if n < 10 then 1 else 1 + dec_digits (n div 10))"
  by pat_completeness auto
termination
  by (relation "measure id") auto

declare dec_digits.simps [simp del]

definition int_bytes :: "int \<Rightarrow> nat" where
  "int_bytes i = (if i < 0 then 1 else 0) + dec_digits (nat \<bar>i\<bar>)"

definition bool_bytes :: "bool \<Rightarrow> nat" where
  "bool_bytes b = (if b then 4 else 5)"

definition opt_flag_bytes :: "nat \<Rightarrow> bool option \<Rightarrow> nat" where
  "opt_flag_bytes key f = (case f of None \<Rightarrow> 0 | Some b \<Rightarrow> 1 + (key + 3) + bool_bytes b)"

text \<open>An object member \<open>"key":\<close> takes the length of the key and three bytes.\<close>

definition control_result_bytes :: "control_result \<Rightarrow> nat" where
  "control_result_bytes r =
     2 + (2 + 3) + bool_bytes (cr_ok r)
       + 1 + (6 + 3) + json_string_bytes (cr_stdout r)
       + 1 + (6 + 3) + json_string_bytes (cr_stderr r)
       + 1 + (9 + 3) + int_bytes (cr_exit_code r)
       + 1 + (7 + 3) + json_string_bytes (cr_command r)
       + opt_flag_bytes 16 (cr_stdout_truncated r)
       + opt_flag_bytes 16 (cr_stderr_truncated r)
       + opt_flag_bytes 17 (cr_command_truncated r)"

definition control_payload_bytes :: "control_result \<Rightarrow> nat" where
  "control_payload_bytes r =
     2 + (4 + 3) + (14 + 2) + 1 + (5 + 3) + control_result_bytes r"

fun error_code_name :: "error_code \<Rightarrow> string" where
  "error_code_name SUPERVISOR_START_FAILED = ''SUPERVISOR_START_FAILED''"
| "error_code_name SUPERVISOR_CLOSING = ''SUPERVISOR_CLOSING''"
| "error_code_name OPERATION_FAILED = ''OPERATION_FAILED''"
| "error_code_name PREPARE_NOT_SUPPORTED = ''PREPARE_NOT_SUPPORTED''"
| "error_code_name COMMIT_NOT_SUPPORTED = ''COMMIT_NOT_SUPPORTED''"
| "error_code_name OPERATION_ID_CONFLICT = ''OPERATION_ID_CONFLICT''"
| "error_code_name OPERATION_NOT_PREPARED = ''OPERATION_NOT_PREPARED''"
| "error_code_name SERVICE_NOT_FOUND = ''SERVICE_NOT_FOUND''"
| "error_code_name SERVICE_DISABLED = ''SERVICE_DISABLED''"
| "error_code_name EMERGENCY_FAILED = ''EMERGENCY_FAILED''"
| "error_code_name CONTROL_FAILED = ''CONTROL_FAILED''"
| "error_code_name INTERRUPTED = ''INTERRUPTED''"
| "error_code_name INVALID_JSON = ''INVALID_JSON''"
| "error_code_name INVALID_REQUEST = ''INVALID_REQUEST''"
| "error_code_name FRAME_TOO_LARGE = ''FRAME_TOO_LARGE''"
| "error_code_name INTERNAL_ERROR = ''INTERNAL_ERROR''"

definition error_code_bytes :: "error_code \<Rightarrow> nat" where
  "error_code_bytes c = length (error_code_name c) + 2"

definition state_bytes :: "response \<Rightarrow> nat" where
  "state_bytes rsp = (case rsp of Accepted _ _ \<Rightarrow> 10 | Completed _ _ \<Rightarrow> 11 | Failed _ _ _ _ \<Rightarrow> 8)"

text \<open>The whole frame, with the line feed that ends it.\<close>

definition control_frame_bytes :: "response \<Rightarrow> nat" where
  "control_frame_bytes rsp =
     (let envelope = 2 + (16 + 3) + 1 + 1 + (12 + 3) + (length (rsp_operation rsp) + 2)
                     + 1 + (2 + 3) + bool_bytes (response_ok rsp) + 1 + (5 + 3) + state_bytes rsp + 1
      in case rsp of
           Completed _ (ControlResult r) \<Rightarrow> envelope + 1 + (7 + 3) + control_payload_bytes r
         | Failed _ c m (Some (ControlResult r)) \<Rightarrow>
             envelope + 1 + (7 + 3) + control_payload_bytes r
             + 1 + (5 + 3) + 2 + (4 + 3) + error_code_bytes c + 1 + (7 + 3) + json_string_bytes m
         | _ \<Rightarrow> envelope)"

lemma dec_digits_bound: "0 < k \<Longrightarrow> n < 10 ^ k \<Longrightarrow> dec_digits n \<le> k"
proof (induction k arbitrary: n)
  case (Suc k)
  show ?case
  proof (cases "n < 10")
    case True
    then show ?thesis by (subst dec_digits.simps) simp
  next
    case False
    then have "k \<noteq> 0" using Suc.prems(2) by (cases k) auto
    moreover have "n div 10 < 10 ^ k" using Suc.prems(2) by (auto simp: div_less_iff_less_mult)
    ultimately have "dec_digits (n div 10) \<le> k" by (intro Suc.IH) auto
    with False show ?thesis by (subst dec_digits.simps) simp
  qed
qed simp

lemma int_bytes_bound:
  assumes "\<bar>i\<bar> \<le> 9007199254740991"
  shows "int_bytes i \<le> 17"
proof -
  have "nat \<bar>i\<bar> < 10 ^ 16" using assms by (simp add: nat_less_iff)
  then have "dec_digits (nat \<bar>i\<bar>) \<le> 16" by (intro dec_digits_bound) auto
  then show ?thesis by (auto simp: int_bytes_def)
qed

lemma error_code_bytes_bound: "error_code_bytes c \<le> 25"
  by (cases c) (simp_all add: error_code_bytes_def)

lemma opt_flag_bytes_bound: "opt_flag_bytes key f \<le> key + 9"
  by (auto simp: opt_flag_bytes_def bool_bytes_def split: option.splits)

lemma bound_sizes: "2 \<le> output_json_bytes" "2 \<le> command_json_bytes" "2 \<le> error_json_bytes"
  by (simp_all add: output_json_bytes_def command_json_bytes_def error_json_bytes_def)

lemma boundControlResult_fields:
  "json_string_bytes (cr_stdout (boundControlResult r)) \<le> output_json_bytes"
  "json_string_bytes (cr_stderr (boundControlResult r)) \<le> output_json_bytes"
  "json_string_bytes (cr_command (boundControlResult r)) \<le> command_json_bytes"
  by (simp_all add: boundControlResult_def Let_def truncate_json_fits bound_sizes)

lemma boundControlResult_rest [simp]:
  "cr_ok (boundControlResult r) = cr_ok r"
  "cr_exit_code (boundControlResult r) = cr_exit_code r"
  by (simp_all add: boundControlResult_def Let_def)

lemma control_result_bytes_bound:
  assumes "\<bar>cr_exit_code r\<bar> \<le> 9007199254740991"
  shows "control_payload_bytes (boundControlResult r) \<le> 53490"
proof -
  define b where "b = boundControlResult r"
  have "int_bytes (cr_exit_code b) \<le> 17" using assms by (simp add: int_bytes_bound b_def)
  moreover have "json_string_bytes (cr_stdout b) \<le> 24576" "json_string_bytes (cr_stderr b) \<le> 24576"
    "json_string_bytes (cr_command b) \<le> 4096"
    using boundControlResult_fields [of r]
    by (simp_all add: output_json_bytes_def command_json_bytes_def b_def)
  moreover have "bool_bytes (cr_ok b) \<le> 5" by (simp add: bool_bytes_def)
  moreover note opt_flag_bytes_bound [of 16 "cr_stdout_truncated b"]
    opt_flag_bytes_bound [of 16 "cr_stderr_truncated b"]
    opt_flag_bytes_bound [of 17 "cr_command_truncated b"]
  ultimately show ?thesis
    unfolding control_payload_bytes_def control_result_bytes_def b_def [symmetric] by linarith
qed

lemma failedResponse_message:
  "json_string_bytes (rsp_message (failedResponse i c m p)) \<le> error_json_bytes"
  "rsp_message (failedResponse i c m p) \<noteq> []"
proof -
  have "json_string_bytes (units ''local-control operation failed'') \<le> error_json_bytes"
    by code_simp
  then show "json_string_bytes (rsp_message (failedResponse i c m p)) \<le> error_json_bytes"
    using truncate_json_fits [OF bound_sizes(3), of m]
    by (simp add: failedResponse_def Let_def)
  show "rsp_message (failedResponse i c m p) \<noteq> []"
    by (simp add: failedResponse_def Let_def units_def)
qed

section \<open>Properties\<close>

lemma cut_high_prefix: "\<exists>n. cut_high w = take n w"
  by (cases "w = []") (auto simp: cut_high_def butlast_conv_take intro: exI [of _ "length w"])

text \<open>
  Truncation keeps a prefix whose JSON encoding fits the limit, reports exactly whether the
  text was too long, and never splits a surrogate pair of a well-formed text.
\<close>

theorem truncation_sound:
  assumes "2 \<le> maxBytes" "utf16_wf body"
  shows "json_string_bytes (fst (truncate_json body maxBytes)) \<le> maxBytes
    \<and> (\<exists>n. fst (truncate_json body maxBytes) = take n body)
    \<and> utf16_wf (fst (truncate_json body maxBytes))
    \<and> snd (truncate_json body maxBytes) = (maxBytes < json_string_bytes body)"
proof (intro conjI)
  obtain n where "cut_high (take (trunc_search body maxBytes 0 (length body)) body) =
      take n (take (trunc_search body maxBytes 0 (length body)) body)"
    using cut_high_prefix by blast
  then show "\<exists>n. fst (truncate_json body maxBytes) = take n body"
    by (auto simp: truncate_json_def intro: exI [of _ "length body"])
  show "json_string_bytes (fst (truncate_json body maxBytes)) \<le> maxBytes"
    using assms(1) by (rule truncate_json_fits)
  show "utf16_wf (fst (truncate_json body maxBytes))" using assms(2) by (rule truncate_json_wf)
  show "snd (truncate_json body maxBytes) = (maxBytes < json_string_bytes body)"
    by (auto simp: truncate_json_def)
qed

theorem truncation_sound_witness:
  "json_string_bytes (fst (truncate_json [97, 0xD83D, 0xDE00, 98] 7)) \<le> 7
   \<and> utf16_wf (fst (truncate_json [97, 0xD83D, 0xDE00, 98] 7))"
  using truncation_sound [of 7 "[97, 0xD83D, 0xDE00, 98]"]
  by (simp add: high_surrogate_def low_surrogate_def)

end
