(* ===== verification/Execution.thy ===== *)
theory Execution imports Protocol begin

text \<open>
  The effects behind an accepted operation (\<open>executeService\<close>, \<open>executeExcubitor\<close> and the
  try/catch of \<open>executeRecorded\<close> in \<open>src/local-control/supervisor.ts\<close>), and the classes of
  runtimes (\<open>src/catalog/runtime-kind.ts\<close>). What the catalog, the control manager and the backend
  answer is an argument (\<open>world\<close>); an answer is a value or the message of a thrown error.
\<close>

section \<open>Runtimes\<close>

definition isLocalProcessRuntime :: "string \<Rightarrow> bool" where
  "isLocalProcessRuntime runtime \<longleftrightarrow>
     runtime \<in> set [''node'', ''python'', ''dev-process-md'', ''app'']"

definition isCommandRuntime :: "string \<Rightarrow> bool" where
  "isCommandRuntime runtime \<longleftrightarrow> runtime \<in> set [''node'', ''python'']"

definition isDockerRuntime :: "string \<Rightarrow> bool" where
  "isDockerRuntime runtime \<longleftrightarrow> runtime \<in> set [''docker'', ''docker-compose'']"

lemma command_runtime_local: "isCommandRuntime r \<Longrightarrow> isLocalProcessRuntime r"
  by (auto simp: isCommandRuntime_def isLocalProcessRuntime_def)

lemma docker_runtime_not_local: "isDockerRuntime r \<Longrightarrow> \<not> isLocalProcessRuntime r"
  by (auto simp: isDockerRuntime_def isLocalProcessRuntime_def)

section \<open>The collaborators\<close>

record catalog_service =
  cs_code :: code
  cs_runtime :: string
  cs_disabled :: bool

record world =
  w_refresh_error :: "ustr option"
  w_service :: "code \<Rightarrow> catalog_service option"
  w_android_status :: "code \<Rightarrow> ustr + service_status"
  w_validate :: "code \<Rightarrow> ustr + bool"
  w_managed_pid :: "code \<Rightarrow> pid option"
  w_emergency :: "code \<Rightarrow> action \<Rightarrow> ustr option \<Rightarrow> int option \<Rightarrow> ustr + emergency_result"
  w_control :: "code \<Rightarrow> action \<Rightarrow> string \<Rightarrow> ustr + control_result"
  w_backend_start :: "ustr + excubitor_status"
  w_backend_stop :: "ustr + excubitor_status"
  w_backend_restart :: "ustr + excubitor_status"
  w_backend_status :: excubitor_status

fun action_name :: "action \<Rightarrow> string" where
  "action_name Start = ''start''"
| "action_name Stop = ''stop''"
| "action_name Restart = ''restart''"
| "action_name Status = ''status''"
| "action_name KillPort = ''kill-port''"
| "action_name ClaudePortFix = ''claude-port-fix''"

text \<open>What an execution leaves: the services marked stopped, and the response or the thrown error.\<close>

type_synonym 'a effect = "code list \<times> (ustr + 'a)"

section \<open>Operations on a service\<close>

definition serviceStatus :: "world \<Rightarrow> code \<Rightarrow> string \<Rightarrow> ustr + service_status" where
  "serviceStatus w c runtime =
     (if \<not> isLocalProcessRuntime runtime
      then Inr \<lparr>ss_code = c, ss_runtime = runtime, ss_state = SsUnknown, ss_running = None, ss_pid = None\<rparr>
      else case w_validate w c of
             Inl e \<Rightarrow> Inl e
           | Inr managed \<Rightarrow>
               Inr \<lparr>ss_code = c, ss_runtime = runtime,
                    ss_state = (if managed then SsRunning else SsStopped),
                    ss_running = Some managed, ss_pid = w_managed_pid w c\<rparr>)"

text \<open>The failure text of a result: its stderr, or a sentence when that is empty.\<close>

definition failure_text :: "ustr \<Rightarrow> code \<Rightarrow> action \<Rightarrow> ustr" where
  "failure_text err c a =
     (if err \<noteq> [] then err else units (''service '' @ c @ '' '' @ action_name a @ '' failed''))"

definition execute_emergency :: "world \<Rightarrow> request \<Rightarrow> catalog_service \<Rightarrow> response effect" where
  "execute_emergency w r svc =
     (if cs_runtime svc = ''android''
      then ([], Inr (failedResponse (operation_id r) OPERATION_FAILED
              (units ''Host port operations do not apply to Android services'') None))
      else
        let stopped = [cs_code svc];
            outcome = w_emergency w (cs_code svc) (req_action r)
              (case req_parameters r of None \<Rightarrow> None | Some p \<Rightarrow> par_prompt p)
              (case req_parameters r of None \<Rightarrow> None | Some p \<Rightarrow> par_port p)
        in case outcome of
             Inl e \<Rightarrow> (stopped, Inl e)
           | Inr raw \<Rightarrow>
               (let result = boundEmergencyResult raw
                in (stopped, Inr
                     (if er_ok result then completedResponse (operation_id r) (EmergencyResult result)
                      else failedResponse (operation_id r) EMERGENCY_FAILED
                             (failure_text (er_stderr result) (cs_code svc) (req_action r))
                             (Some (EmergencyResult result))))))"

definition execute_control :: "world \<Rightarrow> request \<Rightarrow> catalog_service \<Rightarrow> response effect" where
  "execute_control w r svc =
     (case w_control w (cs_code svc) (req_action r) (req_actor r) of
        Inl e \<Rightarrow> ([], Inl e)
      | Inr raw \<Rightarrow>
          (let result = boundControlResult raw
           in ([], Inr
                (if cr_ok result then completedResponse (operation_id r) (ControlResult result)
                 else failedResponse (operation_id r) CONTROL_FAILED
                        (failure_text (cr_stderr result) (cs_code svc) (req_action r))
                        (Some (ControlResult result))))))"

definition executeService :: "world \<Rightarrow> request \<Rightarrow> response effect" where
  "executeService w r =
     (case req_target r of
        Excubitor \<Rightarrow> ([], Inl (units ''service request expected''))
      | Service c \<Rightarrow>
          (case w_refresh_error w of
             Some e \<Rightarrow> ([], Inl e)
           | None \<Rightarrow>
              (case w_service w c of
                 None \<Rightarrow> ([], Inr (failedResponse (operation_id r) SERVICE_NOT_FOUND
                            (units (''service '' @ c @ '' is not in the catalog'')) None))
               | Some svc \<Rightarrow>
                  if req_action r = Status then
                    (case (if cs_runtime svc = ''android'' then w_android_status w (cs_code svc)
                           else serviceStatus w (cs_code svc) (cs_runtime svc)) of
                       Inl e \<Rightarrow> ([], Inl e)
                     | Inr st \<Rightarrow> ([], Inr (completedResponse (operation_id r) (ServiceStatus st))))
                  else if cs_disabled svc \<and> req_action r \<noteq> Stop then
                    ([], Inr (failedResponse (operation_id r) SERVICE_DISABLED
                           (units (''service '' @ cs_code svc @ '' is disabled'')) None))
                  else if emergency (req_action r) then execute_emergency w r svc
                  else execute_control w r svc)))"

section \<open>Operations on Excubitor itself\<close>

definition executeExcubitor :: "world \<Rightarrow> request \<Rightarrow> response effect" where
  "executeExcubitor w r =
     (if req_target r \<noteq> Excubitor then ([], Inl (units ''Excubitor request expected''))
      else
        let outcome = (case req_action r of
              Start \<Rightarrow> w_backend_start w
            | Stop \<Rightarrow> w_backend_stop w
            | Restart \<Rightarrow> w_backend_restart w
            | Status \<Rightarrow> Inr (w_backend_status w)
            | a \<Rightarrow> Inl (units (''action '' @ action_name a @ '' is invalid for Excubitor'')))
        in ([], case outcome of
                  Inl e \<Rightarrow> Inl e
                | Inr st \<Rightarrow> Inr (completedResponse (operation_id r) (ExcubitorStatus st))))"

definition execute :: "world \<Rightarrow> request \<Rightarrow> response effect" where
  "execute w r =
     (case req_target r of Service _ \<Rightarrow> executeService w r | Excubitor \<Rightarrow> executeExcubitor w r)"

text \<open>A thrown error becomes a failed response.\<close>

definition caught :: "request \<Rightarrow> response effect \<Rightarrow> response" where
  "caught r eff = (case snd eff of
      Inl e \<Rightarrow> failedResponse (operation_id r) OPERATION_FAILED e None
    | Inr rsp \<Rightarrow> rsp)"

definition execute_response :: "world \<Rightarrow> request \<Rightarrow> response" where
  "execute_response w r = caught r (execute w r)"

lemmas execute_defs = execute_response_def caught_def execute_def executeService_def
  executeExcubitor_def execute_emergency_def execute_control_def completedResponse_def Let_def

section \<open>Every execution settles its operation\<close>

lemma execute_response_settled [simp]: "\<not> is_accepted (execute_response w r)"
  by (auto simp: execute_defs split: target.splits option.splits sum.splits action.splits)

lemma execute_response_id [simp]: "rsp_operation (execute_response w r) = operation_id r"
  by (auto simp: execute_defs split: target.splits option.splits sum.splits action.splits)

lemma execute_stops_only_emergencies:
  "c \<in> set (fst (execute w r)) \<Longrightarrow> emergency (req_action r)"
  by (auto simp: execute_def executeService_def executeExcubitor_def execute_emergency_def
      execute_control_def Let_def split: target.splits option.splits sum.splits if_splits)

lemma execute_disabled:
  assumes "req_target r = Service c" "w_refresh_error w = None" "w_service w c = Some svc"
    and "cs_disabled svc" "req_action r \<noteq> Stop" "req_action r \<noteq> Status"
  shows "fst (execute w r) = [] \<and> rsp_code (execute_response w r) = SERVICE_DISABLED"
  using assms by (simp add: execute_response_def caught_def execute_def executeService_def)

section \<open>Every control response fits in one frame\<close>

text \<open>A start, stop or restart of a service answers one of these.\<close>

lemma execute_control_frame:
  assumes "length (operation_id r) \<le> 128"
    and exit: "\<And>a c raw. w_control w c a (req_actor r) = Inr raw \<Longrightarrow> \<bar>cr_exit_code raw\<bar> \<le> 9007199254740991"
    and "snd (execute_control w r svc) = Inr rsp"
  shows "control_frame_bytes rsp \<le> max_line_bytes"
proof (cases "w_control w (cs_code svc) (req_action r) (req_actor r)")
  case (Inr raw)
  let ?b = "boundControlResult raw"
  let ?m = "failure_text (cr_stderr ?b) (cs_code svc) (req_action r)"
  have pay: "control_payload_bytes ?b \<le> 53490"
    using exit [OF Inr] by (rule control_result_bytes_bound)
  have msg: "json_string_bytes (rsp_message (failedResponse (operation_id r) CONTROL_FAILED ?m
      (Some (ControlResult ?b)))) \<le> 4096"
    using failedResponse_message(1) by (simp add: error_json_bytes_def)
  have code: "error_code_bytes CONTROL_FAILED \<le> 25" by (rule error_code_bytes_bound)
  show ?thesis
  proof (cases "cr_ok raw")
    case True
    then have "rsp = Completed (operation_id r) (ControlResult ?b)"
      using assms(3) Inr by (simp add: execute_control_def Let_def completedResponse_def)
    then show ?thesis using pay assms(1)
      by (simp add: control_frame_bytes_def Let_def max_line_bytes_def state_bytes_def bool_bytes_def
          response_ok_def)
  next
    case False
    then have "rsp = failedResponse (operation_id r) CONTROL_FAILED ?m (Some (ControlResult ?b))"
      using assms(3) Inr by (simp add: execute_control_def Let_def)
    then show ?thesis using pay msg code assms(1)
      by (simp add: control_frame_bytes_def Let_def max_line_bytes_def state_bytes_def bool_bytes_def
          failedResponse_def response_ok_def)
  qed
qed (use assms(3) in \<open>simp add: execute_control_def\<close>)

section \<open>Properties\<close>

text \<open>
  C29. The answer to a start, stop or restart of a service fits into one protocol line, whatever
  the command printed: its whole JSON frame, escapes and line feed counted, is at most 65536 bytes.
\<close>

theorem control_response_fits_line:
  assumes "operation_id_ok (operation_id r)"
    and "\<And>a c raw. w_control w c a (req_actor r) = Inr raw \<Longrightarrow> \<bar>cr_exit_code raw\<bar> \<le> 9007199254740991"
    and "snd (execute_control w r svc) = Inr rsp"
  shows "control_frame_bytes rsp \<le> max_line_bytes"
  using assms by (intro execute_control_frame) (auto simp: operation_id_ok_def)

definition example_world :: world where
  "example_world =
     \<lparr>w_refresh_error = None,
      w_service = (\<lambda>c. if c = ''api'' then Some \<lparr>cs_code = ''api'', cs_runtime = ''node'', cs_disabled = False\<rparr> else None),
      w_android_status = (\<lambda>_. Inl []), w_validate = (\<lambda>_. Inr True), w_managed_pid = (\<lambda>_. Some 41),
      w_emergency = (\<lambda>_ _ _ _. Inl []),
      w_control = (\<lambda>_ _ _. Inr \<lparr>cr_ok = True, cr_stdout = units ''spawned'', cr_stderr = [], cr_exit_code = 0,
          cr_command = units ''spawn'', cr_stdout_truncated = None, cr_stderr_truncated = None,
          cr_command_truncated = None\<rparr>),
      w_backend_start = Inl [], w_backend_stop = Inl [], w_backend_restart = Inl [],
      w_backend_status = \<lparr>es_state = BRunning, es_desired_state = DesiredRunning, es_pid = Some 7,
          es_restart_count = 0, es_last_exit_code = None, es_last_signal = None, es_last_error = None,
          es_instance_token = None, es_last_startup_ms = None\<rparr>\<rparr>"

definition example_request :: request where
  "example_request = \<lparr>operation_id = ''op-1'', req_target = Service ''api'', req_action = Start,
     req_actor = ''cli'', req_dispatch = Execute, req_parameters = None\<rparr>"

theorem control_response_fits_line_witness:
  "\<exists>rsp. snd (execute_control example_world example_request
         \<lparr>cs_code = ''api'', cs_runtime = ''node'', cs_disabled = False\<rparr>) = Inr rsp
      \<and> control_frame_bytes rsp \<le> max_line_bytes"
proof -
  let ?svc = "\<lparr>cs_code = ''api'', cs_runtime = ''node'', cs_disabled = False\<rparr>"
  obtain rsp where rsp: "snd (execute_control example_world example_request ?svc) = Inr rsp"
    by (simp add: execute_control_def example_world_def Let_def)
  have "operation_id_ok (operation_id example_request)"
    by (simp add: example_request_def operation_id_ok_def id_char_def Let_def is_digit_def)
  then have "control_frame_bytes rsp \<le> max_line_bytes"
    by (rule control_response_fits_line [OF _ _ rsp]) (auto simp: example_world_def)
  with rsp show ?thesis by blast
qed

text \<open>
  Only the two emergency actions cancel the recovery of a service; everything else leaves its
  desired state alone, and every execution ends in a completed or failed response for its own
  operation id.
\<close>

theorem execution_settles:
  "\<not> is_accepted (execute_response w r) \<and> rsp_operation (execute_response w r) = operation_id r
   \<and> (fst (execute w r) = [] \<or> emergency (req_action r))"
  using execute_stops_only_emergencies [of _ w r] by (cases "fst (execute w r)") auto

end
