(* ===== verification/State_Store.thy ===== *)
theory State_Store imports Protocol begin

text \<open>
  The durable operation log of the supervisor (\<open>src/local-control/state-store.ts\<close>). The store
  keeps the state in memory and writes it to a file after every change; a write may fail, and
  what happens to the memory copy then depends on the kind of change. The outcome of a write is
  an argument of the operations, the file is a component of the state.
\<close>

section \<open>State\<close>

record op_record =
  rec_operation_id :: string
  rec_target_key :: string
  rec_action :: action
  rec_actor :: string
  rec_dispatch :: dispatch_mode
  rec_accepted_at :: string
  rec_completed_at :: "string option"
  rec_response :: response

record persisted =
  sup_pid :: pid
  sup_started_at :: string
  ps_excubitor :: "excubitor_status option"
  ps_operations :: "op_record list"

record identity =
  id_pid :: pid
  id_started_at :: string

record store =
  st_memory :: "persisted option"
  st_disk :: "persisted option"
  st_max_operations :: nat

datatype store_error = NotInitialized | WasNotAccepted string | WriteFailed | Unreadable

definition default_max_operations :: nat where "default_max_operations = 100"

definition new_store :: "persisted option \<Rightarrow> nat option \<Rightarrow> store" where
  "new_store disk maxOperations =
     \<lparr>st_memory = None, st_disk = disk,
      st_max_operations = (case maxOperations of None \<Rightarrow> default_max_operations | Some n \<Rightarrow> n)\<rparr>"

abbreviation find_op :: "string \<Rightarrow> op_record list \<Rightarrow> op_record option" where
  "find_op \<equiv> find_key rec_operation_id"

section \<open>Operations\<close>

text \<open>\<open>update\<close>: the change is applied to a copy, written, and installed. A thrown mutator leaves
  everything as it was; a failed write installs the copy only when asked to.\<close>

definition store_update ::
  "(persisted \<Rightarrow> store_error + persisted) \<Rightarrow> bool \<Rightarrow> bool \<Rightarrow> store \<Rightarrow> store \<times> store_error option" where
  "store_update mutator commitOnPersistFailure written st =
     (case st_memory st of
        None \<Rightarrow> (st, Some NotInitialized)
      | Some state \<Rightarrow>
          (case mutator state of
             Inl e \<Rightarrow> (st, Some e)
           | Inr next' \<Rightarrow>
               if written then (st\<lparr>st_memory := Some next', st_disk := Some next'\<rparr>, None)
               else if commitOnPersistFailure then (st\<lparr>st_memory := Some next'\<rparr>, Some WriteFailed)
               else (st, Some WriteFailed)))"

definition interrupted :: "string \<Rightarrow> op_record \<Rightarrow> op_record" where
  "interrupted startedAt r =
     (if \<not> is_accepted (rec_response r) then r
      else r\<lparr>rec_completed_at := Some startedAt,
             rec_response := failedResponse (rec_operation_id r) INTERRUPTED
               (units ''supervisor restarted before the deferred operation completed'') None\<rparr>)"

text \<open>Reading the file fails on anything but its absence (\<open>readable\<close>).\<close>

definition store_initialize :: "identity \<Rightarrow> bool \<Rightarrow> bool \<Rightarrow> store \<Rightarrow> store \<times> store_error option" where
  "store_initialize ident readable written st =
     (if st_disk st \<noteq> None \<and> \<not> readable then (st, Some Unreadable)
      else
        let existing = (case st_disk st of None \<Rightarrow> [] | Some d \<Rightarrow> ps_operations d);
            operations = map (interrupted (id_started_at ident)) existing;
            state = \<lparr>sup_pid = id_pid ident, sup_started_at = id_started_at ident,
                     ps_excubitor = (case st_disk st of None \<Rightarrow> None | Some d \<Rightarrow> ps_excubitor d),
                     ps_operations = slice_last (st_max_operations st) operations\<rparr>
        in if written then (st\<lparr>st_memory := Some state, st_disk := Some state\<rparr>, None)
           else (st\<lparr>st_memory := Some state\<rparr>, Some WriteFailed))"

definition getOperation :: "string \<Rightarrow> store \<Rightarrow> op_record option" where
  "getOperation i st = (case st_memory st of None \<Rightarrow> None | Some s \<Rightarrow> find_op i (ps_operations s))"

definition excubitorStatus :: "store \<Rightarrow> excubitor_status option" where
  "excubitorStatus st = (case st_memory st of None \<Rightarrow> None | Some s \<Rightarrow> ps_excubitor s)"

definition recordAccepted :: "op_record \<Rightarrow> bool \<Rightarrow> store \<Rightarrow> store \<times> store_error option" where
  "recordAccepted r written st =
     store_update (\<lambda>s. Inr (s\<lparr>ps_operations :=
         slice_last (st_max_operations st) (upsert rec_operation_id r (ps_operations s))\<rparr>))
       False written st"

text \<open>The found record is changed in place; its position in the log stays.\<close>

fun update_op :: "string \<Rightarrow> (op_record \<Rightarrow> op_record) \<Rightarrow> op_record list \<Rightarrow> op_record list" where
  "update_op i f [] = []"
| "update_op i f (r # rs) = (if rec_operation_id r = i then f r # rs else r # update_op i f rs)"

definition recordCompleted ::
  "string \<Rightarrow> string \<Rightarrow> response \<Rightarrow> bool \<Rightarrow> store \<Rightarrow> store \<times> store_error option" where
  "recordCompleted i completedAt rsp written st =
     store_update
       (\<lambda>s. case find_op i (ps_operations s) of
              None \<Rightarrow> Inl (WasNotAccepted i)
            | Some _ \<Rightarrow> Inr (s\<lparr>ps_operations := update_op i
                 (\<lambda>r. r\<lparr>rec_completed_at := Some completedAt, rec_response := rsp\<rparr>) (ps_operations s)\<rparr>))
       True written st"

definition recordExcubitor :: "excubitor_status \<Rightarrow> bool \<Rightarrow> store \<Rightarrow> store \<times> store_error option" where
  "recordExcubitor status written st =
     store_update (\<lambda>s. Inr (s\<lparr>ps_excubitor := Some status\<rparr>)) True written st"

lemmas store_ops = store_update_def recordAccepted_def recordCompleted_def recordExcubitor_def
  store_initialize_def

section \<open>Invariant: bounded, one record per operation\<close>

definition log_ok :: "nat \<Rightarrow> op_record list \<Rightarrow> bool" where
  "log_ok n ops \<longleftrightarrow> distinct (map rec_operation_id ops) \<and> length ops \<le> n"

definition persisted_ok :: "nat \<Rightarrow> persisted option \<Rightarrow> bool" where
  "persisted_ok n p = (case p of None \<Rightarrow> True | Some s \<Rightarrow> log_ok n (ps_operations s))"

definition store_inv :: "store \<Rightarrow> bool" where
  "store_inv st \<longleftrightarrow> 0 < st_max_operations st
     \<and> persisted_ok (st_max_operations st) (st_memory st)
     \<and> persisted_ok (st_max_operations st) (st_disk st)"

lemma persisted_ok_simps [simp]:
  "persisted_ok n None" "persisted_ok n (Some s) = log_ok n (ps_operations s)"
  by (simp_all add: persisted_ok_def)

lemma log_ok_accept:
  "0 < n \<Longrightarrow> log_ok n ops \<Longrightarrow> log_ok n (slice_last n (upsert rec_operation_id r ops))"
  by (simp add: log_ok_def distinct_slice_last distinct_upsert)

lemma update_op_ids:
  "(\<And>r. rec_operation_id (f r) = rec_operation_id r) \<Longrightarrow>
   map rec_operation_id (update_op i f ops) = map rec_operation_id ops"
  by (induction ops) auto

lemma length_update_op: "length (update_op i f ops) = length ops"
  by (induction ops) auto

lemma find_update_op:
  "(\<And>r. rec_operation_id (f r) = rec_operation_id r) \<Longrightarrow>
   find_op k (update_op i f ops) =
     (if k = i then map_option f (find_op i ops) else find_op k ops)"
  by (induction ops) auto

lemma log_ok_update:
  "(\<And>r. rec_operation_id (f r) = rec_operation_id r) \<Longrightarrow>
   log_ok n (update_op i f ops) = log_ok n ops"
  by (simp add: log_ok_def update_op_ids length_update_op)

lemma interrupted_id [simp]: "rec_operation_id (interrupted t r) = rec_operation_id r"
  by (simp add: interrupted_def)

lemma interrupted_settled [simp]: "\<not> is_accepted (rec_response (interrupted t r))"
  by (simp add: interrupted_def)

lemma log_ok_initialize:
  "0 < n \<Longrightarrow> log_ok m ops \<Longrightarrow> log_ok n (slice_last n (map (interrupted t) ops))"
  by (simp add: log_ok_def distinct_slice_last comp_def)

lemma recordAccepted_inv [inv_intros]: "store_inv st \<Longrightarrow> store_inv (fst (recordAccepted r w st))"
  by (auto simp: store_inv_def store_ops log_ok_accept split: option.splits)

lemma recordCompleted_inv [inv_intros]:
  "store_inv st \<Longrightarrow> store_inv (fst (recordCompleted i t rsp w st))"
  by (auto simp: store_inv_def store_ops log_ok_update split: option.splits sum.splits)

lemma recordExcubitor_inv [inv_intros]: "store_inv st \<Longrightarrow> store_inv (fst (recordExcubitor s w st))"
  by (auto simp: store_inv_def store_ops split: option.splits)

lemma store_initialize_inv [inv_intros]:
  "store_inv st \<Longrightarrow> store_inv (fst (store_initialize ident rd w st))"
  by (auto simp: store_inv_def store_ops Let_def log_ok_initialize log_ok_def [of _ "[]"]
      split: option.splits)

section \<open>What a reader of the log sees\<close>

lemma getOperation_accept_written:
  assumes "snd (recordAccepted r w st) = None" "0 < st_max_operations st"
    and "find_op (rec_operation_id r) (case st_memory st of None \<Rightarrow> [] | Some s \<Rightarrow> ps_operations s) = None"
  shows "getOperation (rec_operation_id r) (fst (recordAccepted r w st)) = Some r"
proof -
  obtain s where s: "st_memory st = Some s" and w: "w"
    using assms(1) by (auto simp: store_ops split: option.splits if_splits)
  have fresh: "rec_operation_id r \<notin> rec_operation_id ` set (ps_operations s)"
    using assms(3) s by (simp add: find_key_None)
  have "find_op (rec_operation_id r) (slice_last (st_max_operations st) (ps_operations s @ [r])) = Some r"
  proof -
    have "slice_last (st_max_operations st) (ps_operations s @ [r]) =
        drop (Suc (length (ps_operations s)) - st_max_operations st) (ps_operations s) @ [r]"
      using assms(2) by (simp add: slice_last_def)
    moreover have "rec_operation_id r \<notin> rec_operation_id ` set (drop k (ps_operations s))" for k
      using fresh set_drop_subset by fastforce
    ultimately show ?thesis by (simp add: find_key_append find_key_None [THEN iffD2])
  qed
  then show ?thesis using s w fresh by (simp add: store_ops getOperation_def upsert_fresh)
qed

lemma getOperation_accept_other:
  assumes "k \<noteq> rec_operation_id r"
    and "length (case st_memory st of None \<Rightarrow> [] | Some s \<Rightarrow> ps_operations s) < st_max_operations st"
  shows "getOperation k (fst (recordAccepted r w st)) = getOperation k st"
proof (cases "st_memory st")
  case (Some s)
  then have "length (upsert rec_operation_id r (ps_operations s)) \<le> st_max_operations st"
    using assms(2) length_upsert [of rec_operation_id r "ps_operations s"] by simp
  then show ?thesis using Some assms(1)
    by (simp add: store_ops getOperation_def find_key_upsert)
qed (simp add: store_ops)

lemma getOperation_accept_failed:
  "snd (recordAccepted r w st) \<noteq> None \<Longrightarrow> fst (recordAccepted r w st) = st"
  by (auto simp: store_ops split: option.splits if_splits)

lemma getOperation_completed:
  "getOperation k (fst (recordCompleted i t rsp w st)) =
     (if k = i
      then map_option (\<lambda>r. r\<lparr>rec_completed_at := Some t, rec_response := rsp\<rparr>) (getOperation i st)
      else getOperation k st)"
  by (auto simp: store_ops getOperation_def find_update_op split: option.splits)

lemma getOperation_recordExcubitor [simp]:
  "getOperation k (fst (recordExcubitor s w st)) = getOperation k st"
  by (auto simp: store_ops getOperation_def split: option.splits)

lemma store_initialize_settled:
  assumes "st_memory (fst (store_initialize ident rd w st)) = Some s"
    and "snd (store_initialize ident rd w st) \<noteq> Some Unreadable"
    and "r \<in> set (ps_operations s)"
  shows "\<not> is_accepted (rec_response r)"
proof -
  have "ps_operations s = slice_last (st_max_operations st) (map (interrupted (id_started_at ident))
      (case st_disk st of None \<Rightarrow> [] | Some d \<Rightarrow> ps_operations d))"
    using assms(1,2) by (auto simp: store_ops Let_def split: if_splits)
  then have "r \<in> set (map (interrupted (id_started_at ident))
      (case st_disk st of None \<Rightarrow> [] | Some d \<Rightarrow> ps_operations d))"
    using assms(3) set_slice_last by fastforce
  then show ?thesis by auto
qed

section \<open>The interface the supervisor relies on\<close>

text \<open>
  A later view of the log: nothing known is lost, an operation keeps the dispatch mode it was
  accepted with, and a settled operation stays settled.
\<close>

definition log_le :: "(string \<Rightarrow> op_record option) \<Rightarrow> (string \<Rightarrow> op_record option) \<Rightarrow> bool" where
  "log_le g g' \<longleftrightarrow> (\<forall>k p. g k = Some p \<longrightarrow>
     (\<exists>p'. g' k = Some p' \<and> rec_dispatch p' = rec_dispatch p
       \<and> (\<not> is_accepted (rec_response p) \<longrightarrow> \<not> is_accepted (rec_response p'))))"

lemma log_le_refl [simp]: "log_le g g"
  by (simp add: log_le_def)

lemma log_le_trans: "log_le f g \<Longrightarrow> log_le g h \<Longrightarrow> log_le f h"
  by (unfold log_le_def) metis

lemma log_leD:
  "log_le g g' \<Longrightarrow> g k = Some p \<Longrightarrow>
   \<exists>p'. g' k = Some p' \<and> rec_dispatch p' = rec_dispatch p
      \<and> (\<not> is_accepted (rec_response p) \<longrightarrow> \<not> is_accepted (rec_response p'))"
  by (simp add: log_le_def)

text \<open>
  What a client may assume of an operation log: a written acceptance is visible and, while there
  is room, displaces nothing; a failed one changes nothing; a completion changes its own record.
\<close>

locale operation_log =
  fixes get :: "string \<Rightarrow> 's \<Rightarrow> op_record option"
    and accept :: "op_record \<Rightarrow> bool \<Rightarrow> 's \<Rightarrow> 's \<times> 'e option"
    and complete :: "string \<Rightarrow> string \<Rightarrow> response \<Rightarrow> bool \<Rightarrow> 's \<Rightarrow> 's \<times> 'e option"
    and room :: "'s \<Rightarrow> bool"
  assumes accepted: "snd (accept r w s) = None \<Longrightarrow> room s \<Longrightarrow> get (rec_operation_id r) s = None
      \<Longrightarrow> get k (fst (accept r w s)) = (if k = rec_operation_id r then Some r else get k s)"
    and refused: "snd (accept r w s) \<noteq> None \<Longrightarrow> fst (accept r w s) = s"
    and completed: "get k (fst (complete i t rsp w s)) =
      (if k = i
       then map_option (\<lambda>r. r\<lparr>rec_completed_at := Some t, rec_response := rsp\<rparr>) (get i s)
       else get k s)"
begin

lemma accept_log_le:
  assumes "room s" "get (rec_operation_id r) s = None"
  shows "log_le (\<lambda>k. get k s) (\<lambda>k. get k (fst (accept r w s)))"
proof (cases "snd (accept r w s)")
  case None
  then show ?thesis using assms by (auto simp: log_le_def accepted)
qed (simp add: refused)

lemma complete_log_le:
  assumes "\<not> is_accepted rsp"
  shows "log_le (\<lambda>k. get k s) (\<lambda>k. get k (fst (complete i t rsp w s)))"
  using assms by (auto simp: log_le_def completed)

lemma complete_settles:
  assumes "get i s = Some p" "\<not> is_accepted rsp"
  shows "\<exists>p'. get i (fst (complete i t rsp w s)) = Some p' \<and> rec_dispatch p' = rec_dispatch p
     \<and> \<not> is_accepted (rec_response p')"
  using assms by (simp add: completed)

lemma complete_known: "get k (fst (complete i t rsp w s)) = None \<longleftrightarrow> get k s = None"
  by (simp add: completed)

end

definition log_length :: "store \<Rightarrow> nat" where
  "log_length st = (case st_memory st of None \<Rightarrow> 0 | Some s \<Rightarrow> length (ps_operations s))"

definition log_room :: "store \<Rightarrow> bool" where
  "log_room st \<longleftrightarrow> log_length st < st_max_operations st"

lemma getOperation_accept:
  assumes "snd (recordAccepted r w st) = None" "log_room st" "getOperation (rec_operation_id r) st = None"
  shows "getOperation k (fst (recordAccepted r w st)) =
     (if k = rec_operation_id r then Some r else getOperation k st)"
proof (cases "st_memory st")
  case (Some s)
  have pos: "0 < st_max_operations st" using assms(2) by (simp add: log_room_def)
  have fresh: "find_op (rec_operation_id r) (ps_operations s) = None"
    using assms(3) Some by (simp add: getOperation_def)
  show ?thesis
  proof (cases "k = rec_operation_id r")
    case True
    then show ?thesis using getOperation_accept_written [OF assms(1) pos] Some fresh by simp
  next
    case False
    then show ?thesis using getOperation_accept_other [of k r st w] assms(2) Some
      by (simp add: log_room_def log_length_def)
  qed
qed (use assms in \<open>simp add: store_ops\<close>)

interpretation oplog: operation_log getOperation recordAccepted recordCompleted log_room
  by unfold_locales (rule getOperation_accept getOperation_accept_failed getOperation_completed; assumption)+

lemma log_length_ops [simp]:
  "log_length (fst (recordCompleted i t rsp w st)) = log_length st"
  "log_length (fst (recordExcubitor x w st)) = log_length st"
  by (auto simp: log_length_def store_ops length_update_op split: option.splits)

lemma log_length_accept:
  "0 < st_max_operations st \<Longrightarrow>
   log_length (fst (recordAccepted r w st)) \<le> Suc (log_length st)"
  by (auto simp: log_length_def store_ops length_upsert intro: min.coboundedI2 split: option.splits)

lemma max_operations_ops [simp]:
  "st_max_operations (fst (recordAccepted r w st)) = st_max_operations st"
  "st_max_operations (fst (recordCompleted i t rsp w st)) = st_max_operations st"
  "st_max_operations (fst (recordExcubitor x w st)) = st_max_operations st"
  by (auto simp: store_ops split: option.splits)

section \<open>Properties\<close>

text \<open>
  After a restart of the supervisor the log holds no unfinished operation: what the previous
  process left accepted is settled as interrupted, and the log stays bounded with one record per
  operation id.
\<close>

theorem restart_settles_operations:
  assumes "store_inv st" "snd (store_initialize ident rd w st) \<noteq> Some Unreadable"
    and "st_memory (fst (store_initialize ident rd w st)) = Some s"
  shows "store_inv (fst (store_initialize ident rd w st))
    \<and> list_all (\<lambda>r. \<not> is_accepted (rec_response r)) (ps_operations s)"
  using store_initialize_inv [OF assms(1)] store_initialize_settled [OF assms(3,2)]
  by (auto simp: list_all_iff)

definition example_record :: op_record where
  "example_record = \<lparr>rec_operation_id = ''op-1'', rec_target_key = ''excubitor'', rec_action = Restart,
     rec_actor = ''cli'', rec_dispatch = Prepare, rec_accepted_at = ''t0'', rec_completed_at = None,
     rec_response = Accepted ''op-1'' ''excubitor''\<rparr>"

definition example_disk :: persisted where
  "example_disk = \<lparr>sup_pid = 5, sup_started_at = ''t0'', ps_excubitor = None,
     ps_operations = [example_record]\<rparr>"

theorem restart_settles_operations_witness:
  "list_all (\<lambda>r. \<not> is_accepted (rec_response r))
     (ps_operations (the (st_memory (fst (store_initialize \<lparr>id_pid = 6, id_started_at = ''t1''\<rparr> True True
        (new_store (Some example_disk) None))))))"
  using restart_settles_operations [of "new_store (Some example_disk) None" "\<lparr>id_pid = 6, id_started_at = ''t1''\<rparr>"
      True True "the (st_memory (fst (store_initialize \<lparr>id_pid = 6, id_started_at = ''t1''\<rparr> True True
        (new_store (Some example_disk) None))))"]
  by (simp add: store_inv_def new_store_def default_max_operations_def log_ok_def example_disk_def
      store_initialize_def Let_def)

end
