(* ===== verification/Target_Queue.thy ===== *)
theory Target_Queue imports Prelude begin

text \<open>
  \<open>TargetOperationQueue\<close> (\<open>src/local-control/target-queue.ts\<close>): operations on one target run one
  at a time, built from promise chains. \<open>run\<close> chains the operation behind the tail of its target
  and becomes the tail; a settled tail removes itself from the table if it still is the tail. A
  job is one call of \<open>run\<close>; its identity is its position in the list of jobs. The event loop
  chooses which enabled continuation runs next, so the queue is a step relation.
\<close>

section \<open>The promise chains\<close>

datatype job_status = JobWaiting | JobRunning | JobSettled

record job =
  job_key :: string
  job_prior :: "nat option"
  job_status :: job_status

record pqueue =
  pq_jobs :: "job list"
  pq_tails :: "string \<rightharpoonup> nat"

definition pq_empty :: pqueue where
  "pq_empty = \<lparr>pq_jobs = [], pq_tails = Map.empty\<rparr>"

text \<open>\<open>run\<close>: the prior promise is the tail of the target, or an already resolved one.\<close>

definition pq_run :: "string \<Rightarrow> pqueue \<Rightarrow> pqueue" where
  "pq_run k q =
     q\<lparr>pq_jobs := pq_jobs q @ [\<lparr>job_key = k, job_prior = pq_tails q k, job_status = JobWaiting\<rparr>],
       pq_tails := (pq_tails q)(k \<mapsto> length (pq_jobs q))\<rparr>"

definition pq_status :: "pqueue \<Rightarrow> nat \<Rightarrow> job_status option" where
  "pq_status q i = (if i < length (pq_jobs q) then Some (job_status (pq_jobs q ! i)) else None)"

definition pq_set_status :: "nat \<Rightarrow> job_status \<Rightarrow> pqueue \<Rightarrow> pqueue" where
  "pq_set_status i s q = q\<lparr>pq_jobs := (pq_jobs q)[i := (pq_jobs q ! i)\<lparr>job_status := s\<rparr>]\<rparr>"

definition pq_can_start :: "pqueue \<Rightarrow> nat \<Rightarrow> bool" where
  "pq_can_start q i \<longleftrightarrow> pq_status q i = Some JobWaiting
     \<and> (case job_prior (pq_jobs q ! i) of None \<Rightarrow> True | Some p \<Rightarrow> pq_status q p = Some JobSettled)"

text \<open>The \<open>finally\<close> of a settled tail.\<close>

definition pq_cleanup :: "nat \<Rightarrow> pqueue \<Rightarrow> pqueue" where
  "pq_cleanup i q =
     (let k = job_key (pq_jobs q ! i)
      in if pq_tails q k = Some i then q\<lparr>pq_tails := (pq_tails q)(k := None)\<rparr> else q)"

text \<open>\<open>drain\<close> returns when no target has a tail.\<close>

definition pq_drained :: "pqueue \<Rightarrow> bool" where
  "pq_drained q \<longleftrightarrow> dom (pq_tails q) = {}"

inductive pq_step :: "pqueue \<Rightarrow> pqueue \<Rightarrow> bool" where
  run: "pq_step q (pq_run k q)"
| start: "pq_can_start q i \<Longrightarrow> pq_step q (pq_set_status i JobRunning q)"
| settle: "pq_status q i = Some JobRunning \<Longrightarrow> pq_step q (pq_set_status i JobSettled q)"
| cleanup: "pq_status q i = Some JobSettled \<Longrightarrow> pq_step q (pq_cleanup i q)"

inductive_cases pq_stepE: "pq_step q q'"

inductive pq_reachable :: "pqueue \<Rightarrow> bool" where
  init: "pq_reachable pq_empty"
| step: "pq_reachable q \<Longrightarrow> pq_step q q' \<Longrightarrow> pq_reachable q'"

section \<open>The invariant of the chains\<close>

text \<open>Two jobs in the order of their calls, for the same target.\<close>

definition before :: "pqueue \<Rightarrow> nat \<Rightarrow> nat \<Rightarrow> bool" where
  "before q j i \<longleftrightarrow> j < i \<and> i < length (pq_jobs q) \<and> job_key (pq_jobs q ! j) = job_key (pq_jobs q ! i)"

definition settled :: "pqueue \<Rightarrow> nat \<Rightarrow> bool" where
  "settled q i \<longleftrightarrow> pq_status q i = Some JobSettled"

definition tails_ok :: "pqueue \<Rightarrow> bool" where
  "tails_ok q \<longleftrightarrow>
     (\<forall>k t. pq_tails q k = Some t \<longrightarrow> t < length (pq_jobs q) \<and> job_key (pq_jobs q ! t) = k
        \<and> (\<forall>i < length (pq_jobs q). job_key (pq_jobs q ! i) = k \<longrightarrow> i \<le> t))
   \<and> (\<forall>i < length (pq_jobs q). pq_tails q (job_key (pq_jobs q ! i)) = None \<longrightarrow> settled q i)"

definition chains_ok :: "pqueue \<Rightarrow> bool" where
  "chains_ok q \<longleftrightarrow>
     (\<forall>i < length (pq_jobs q). case job_prior (pq_jobs q ! i) of
          None \<Rightarrow> (\<forall>j. before q j i \<longrightarrow> settled q j)
        | Some p \<Rightarrow> before q p i \<and> (\<forall>j. before q j i \<longrightarrow> j \<le> p))"

definition order_ok :: "pqueue \<Rightarrow> bool" where
  "order_ok q \<longleftrightarrow>
     (\<forall>i j. before q j i \<longrightarrow> pq_status q i \<noteq> Some JobWaiting \<longrightarrow> settled q j)"

definition pq_inv :: "pqueue \<Rightarrow> bool" where
  "pq_inv q \<longleftrightarrow> tails_ok q \<and> chains_ok q \<and> order_ok q"

lemma pq_inv_empty: "pq_inv pq_empty"
  by (simp add: pq_inv_def tails_ok_def chains_ok_def order_ok_def before_def pq_empty_def)

text \<open>A change of a status leaves keys, priors and tails alone.\<close>

lemma set_status_length [simp]:
  "length (pq_jobs (pq_set_status i s q)) = length (pq_jobs q)"
  by (simp add: pq_set_status_def)

lemma set_status_tails [simp]: "pq_tails (pq_set_status i s q) = pq_tails q"
  by (simp add: pq_set_status_def)

lemma set_status_key [simp]:
  "job_key (pq_jobs (pq_set_status i s q) ! j) = job_key (pq_jobs q ! j)"
  by (cases "j = i"; cases "i < length (pq_jobs q)") (simp_all add: pq_set_status_def list_update_beyond)

lemma set_status_prior [simp]:
  "job_prior (pq_jobs (pq_set_status i s q) ! j) = job_prior (pq_jobs q ! j)"
  by (cases "j = i"; cases "i < length (pq_jobs q)") (simp_all add: pq_set_status_def list_update_beyond)

lemma set_status_before [simp]: "before (pq_set_status i s q) = before q"
  by (simp add: before_def fun_eq_iff)

lemma status_set_status:
  "pq_status (pq_set_status i s q) j =
     (if j = i \<and> i < length (pq_jobs q) then Some s else pq_status q j)"
  by (simp add: pq_status_def pq_set_status_def nth_list_update)

lemma status_bound: "pq_status q i = Some s \<Longrightarrow> i < length (pq_jobs q)"
  by (simp add: pq_status_def split: if_splits)

lemma can_start_predecessors:
  assumes "pq_inv q" "pq_can_start q i" "before q j i"
  shows "settled q j"
proof -
  have i: "i < length (pq_jobs q)" using assms(3) by (simp add: before_def)
  show ?thesis
  proof (cases "job_prior (pq_jobs q ! i)")
    case None
    then show ?thesis using assms i by (auto simp: pq_inv_def chains_ok_def)
  next
    case (Some p)
    then have p: "before q p i" "j \<le> p" "pq_status q p = Some JobSettled"
      using assms i by (auto simp: pq_inv_def chains_ok_def pq_can_start_def)
    show ?thesis
    proof (cases "j = p")
      case False
      then have "before q j p" using p assms(3) by (auto simp: before_def)
      then show ?thesis using assms(1) p(3) by (auto simp: pq_inv_def order_ok_def)
    qed (use p in \<open>simp add: settled_def\<close>)
  qed
qed

text \<open>Raising a status keeps the invariant when all predecessors have settled.\<close>

lemma set_status_inv:
  assumes inv: "pq_inv q" and i: "i < length (pq_jobs q)"
    and pre: "\<And>j. before q j i \<Longrightarrow> settled q j"
    and up: "pq_status q i \<noteq> Some JobSettled" "s \<noteq> JobWaiting"
  shows "pq_inv (pq_set_status i s q)"
proof -
  have mono: "settled (pq_set_status i s q) j" if "settled q j" for j
    using that up by (auto simp: settled_def status_set_status)
  have "tails_ok (pq_set_status i s q)"
    using inv mono by (auto simp: pq_inv_def tails_ok_def)
  moreover have "chains_ok (pq_set_status i s q)"
    using inv mono by (fastforce simp: pq_inv_def chains_ok_def split: option.splits)
  moreover have "order_ok (pq_set_status i s q)"
    using inv mono pre by (auto simp: pq_inv_def order_ok_def status_set_status split: if_splits)
  ultimately show ?thesis by (simp add: pq_inv_def)
qed

lemma run_simps [simp]:
  "length (pq_jobs (pq_run k q)) = Suc (length (pq_jobs q))"
  "i < length (pq_jobs q) \<Longrightarrow> pq_jobs (pq_run k q) ! i = pq_jobs q ! i"
  "pq_jobs (pq_run k q) ! length (pq_jobs q) =
     \<lparr>job_key = k, job_prior = pq_tails q k, job_status = JobWaiting\<rparr>"
  "pq_tails (pq_run k q) = (pq_tails q)(k \<mapsto> length (pq_jobs q))"
  by (simp_all add: pq_run_def nth_append)

lemma run_status:
  "pq_status (pq_run k q) i = (if i = length (pq_jobs q) then Some JobWaiting else pq_status q i)"
  by (auto simp: pq_status_def less_Suc_eq)

lemma run_before:
  "before (pq_run k q) j i \<longleftrightarrow>
     (if i = length (pq_jobs q) then j < i \<and> job_key (pq_jobs q ! j) = k else before q j i)"
  by (auto simp: before_def less_Suc_eq)

lemma run_settled: "settled q j \<Longrightarrow> settled (pq_run k q) j"
  by (auto simp: settled_def run_status dest: status_bound)

lemma run_inv:
  assumes "pq_inv q"
  shows "pq_inv (pq_run k q)"
proof -
  have "tails_ok (pq_run k q)"
    using assms run_settled by (fastforce simp: pq_inv_def tails_ok_def less_Suc_eq split: if_splits)
  moreover have "chains_ok (pq_run k q)"
    unfolding chains_ok_def
  proof (intro allI impI)
    fix i assume "i < length (pq_jobs (pq_run k q))"
    then consider (old) "i < length (pq_jobs q)" | (new) "i = length (pq_jobs q)"
      by fastforce
    then show "case job_prior (pq_jobs (pq_run k q) ! i) of
          None \<Rightarrow> (\<forall>j. before (pq_run k q) j i \<longrightarrow> settled (pq_run k q) j)
        | Some p \<Rightarrow> before (pq_run k q) p i \<and> (\<forall>j. before (pq_run k q) j i \<longrightarrow> j \<le> p)"
    proof cases
      case old
      then show ?thesis using assms run_settled
        by (fastforce simp: pq_inv_def chains_ok_def run_before split: option.splits)
    next
      case new
      then show ?thesis using assms run_settled
        by (auto simp: pq_inv_def tails_ok_def run_before split: option.splits)
    qed
  qed
  moreover have "order_ok (pq_run k q)"
    using assms run_settled
    by (auto simp: pq_inv_def order_ok_def run_before run_status split: if_splits)
  ultimately show ?thesis by (simp add: pq_inv_def)
qed

lemma cleanup_jobs [simp]: "pq_jobs (pq_cleanup i q) = pq_jobs q"
  by (simp add: pq_cleanup_def Let_def)

lemma cleanup_status [simp]: "pq_status (pq_cleanup i q) j = pq_status q j"
  by (simp add: pq_status_def)

lemma cleanup_before [simp]: "before (pq_cleanup i q) j k = before q j k"
  by (simp add: before_def)

lemma cleanup_settled [simp]: "settled (pq_cleanup i q) j = settled q j"
  by (simp add: settled_def)

lemma cleanup_tails:
  "pq_tails (pq_cleanup i q) k =
     (if k = job_key (pq_jobs q ! i) \<and> pq_tails q k = Some i then None else pq_tails q k)"
  by (cases "pq_tails q (job_key (pq_jobs q ! i)) = Some i") (auto simp: pq_cleanup_def Let_def)

lemma tails_ok_max:
  "tails_ok q \<Longrightarrow> pq_tails q k = Some t \<Longrightarrow> i < length (pq_jobs q) \<Longrightarrow> job_key (pq_jobs q ! i) = k \<Longrightarrow> i \<le> t"
  by (simp add: tails_ok_def)

lemma tails_ok_bound: "tails_ok q \<Longrightarrow> pq_tails q k = Some t \<Longrightarrow> t < length (pq_jobs q)"
  by (simp add: tails_ok_def)

lemma cleanup_inv:
  assumes "pq_inv q" "settled q i"
  shows "pq_inv (pq_cleanup i q)"
proof -
  have tails: "tails_ok q" and order: "order_ok q" using assms(1) by (simp_all add: pq_inv_def)
  have all: "settled q j" if "j < length (pq_jobs q)" "job_key (pq_jobs q ! j) = job_key (pq_jobs q ! i)"
    "pq_tails q (job_key (pq_jobs q ! i)) = Some i" for j
  proof (cases "j = i")
    case False
    then have "before q j i"
      using that tails_ok_max [OF tails that(3) that(1,2)] tails_ok_bound [OF tails that(3)]
      by (simp add: before_def)
    then show ?thesis using order assms(2) by (simp add: order_ok_def settled_def)
  qed (use assms in simp)
  have "settled q j" if "j < length (pq_jobs q)" "pq_tails (pq_cleanup i q) (job_key (pq_jobs q ! j)) = None" for j
  proof (cases "pq_tails q (job_key (pq_jobs q ! j)) = None")
    case True
    with tails that(1) show ?thesis by (simp add: tails_ok_def)
  next
    case False
    with that show ?thesis by (intro all) (simp_all add: cleanup_tails split: if_splits)
  qed
  then have "tails_ok (pq_cleanup i q)"
    using tails by (simp add: tails_ok_def) (simp add: cleanup_tails)
  moreover have "chains_ok (pq_cleanup i q)" "order_ok (pq_cleanup i q)"
    using assms(1)
    by (simp_all add: pq_inv_def chains_ok_def order_ok_def cong: option.case_cong)
  ultimately show ?thesis by (simp add: pq_inv_def)
qed

lemma pq_step_inv: "pq_step q q' \<Longrightarrow> pq_inv q \<Longrightarrow> pq_inv q'"
proof (induction rule: pq_step.induct)
  case (start q i)
  then show ?case
    by (intro set_status_inv) (auto simp: pq_can_start_def dest: status_bound can_start_predecessors)
next
  case (settle q i)
  then show ?case
    by (intro set_status_inv) (auto simp: pq_inv_def order_ok_def dest: status_bound)
next
  case (cleanup q i)
  then show ?case by (simp add: cleanup_inv settled_def)
qed (rule run_inv)

lemma pq_reachable_inv: "pq_reachable q \<Longrightarrow> pq_inv q"
  by (induction rule: pq_reachable.induct) (auto intro: pq_inv_empty pq_step_inv)

section \<open>What the queue promises\<close>

lemma pq_inv_fifo:
  "pq_inv q \<Longrightarrow> before q j i \<Longrightarrow> pq_status q i \<noteq> Some JobWaiting \<Longrightarrow> pq_status q j = Some JobSettled"
  by (auto simp: pq_inv_def order_ok_def settled_def)

lemma pq_inv_exclusive:
  assumes "pq_inv q" "pq_status q i = Some JobRunning" "pq_status q j = Some JobRunning"
    and "job_key (pq_jobs q ! i) = job_key (pq_jobs q ! j)"
  shows "i = j"
proof (rule ccontr)
  assume "i \<noteq> j"
  then have "before q i j \<or> before q j i"
    using assms status_bound by (fastforce simp: before_def)
  then show False using assms pq_inv_fifo by fastforce
qed

lemma pq_inv_drained:
  "pq_inv q \<Longrightarrow> pq_drained q \<Longrightarrow> i < length (pq_jobs q) \<Longrightarrow> pq_status q i = Some JobSettled"
  by (auto simp: pq_inv_def tails_ok_def pq_drained_def settled_def)

text \<open>
  No operation is stuck: the first unsettled job of a target either runs or can start.
\<close>

lemma pq_progress:
  assumes "pq_inv q" "i < length (pq_jobs q)" "\<And>j. before q j i \<Longrightarrow> settled q j" "\<not> settled q i"
  shows "pq_status q i = Some JobRunning \<or> pq_can_start q i"
proof (cases "pq_status q i")
  case (Some s)
  have "case job_prior (pq_jobs q ! i) of None \<Rightarrow> True | Some p \<Rightarrow> pq_status q p = Some JobSettled"
    using assms by (auto simp: pq_inv_def chains_ok_def settled_def split: option.splits)
  with Some assms(4) show ?thesis by (cases s) (auto simp: pq_can_start_def settled_def)
qed (use assms in \<open>simp add: pq_status_def\<close>)

section \<open>Properties\<close>

text \<open>
  In every reachable state of the queue, a job runs or has run only after every job queued
  before it on the same target has settled; so jobs of one target never overlap and keep the order
  of their calls, and a drained queue has settled everything.
\<close>

theorem queue_serial:
  assumes "pq_reachable q" "i < length (pq_jobs q)"
  shows "(pq_status q i = Some JobWaiting \<or> (\<forall>j. before q j i \<longrightarrow> pq_status q j = Some JobSettled))
    \<and> (pq_drained q \<longrightarrow> pq_status q i = Some JobSettled)"
proof -
  have inv: "pq_inv q" using assms(1) by (rule pq_reachable_inv)
  show ?thesis using pq_inv_fifo [OF inv] pq_inv_drained [OF inv _ assms(2)] by auto
qed

lemma pq_reachable_run: "pq_reachable q \<Longrightarrow> pq_reachable (pq_run k q)"
  by (erule pq_reachable.step) (rule pq_step.run)

definition example_queue :: pqueue where
  "example_queue = pq_set_status 0 JobSettled (pq_set_status 0 JobRunning (pq_run ''a'' (pq_run ''a'' pq_empty)))"

lemma example_queue_reachable: "pq_reachable (pq_set_status 1 JobRunning example_queue)"
proof -
  let ?q = "pq_run ''a'' (pq_run ''a'' pq_empty)"
  have "pq_reachable ?q" by (auto intro: pq_reachable_run pq_reachable.init)
  then have "pq_reachable (pq_set_status 0 JobRunning ?q)"
    by (rule pq_reachable.step) (rule pq_step.start,
      simp add: pq_can_start_def pq_status_def pq_run_def pq_empty_def)
  then have "pq_reachable example_queue" unfolding example_queue_def
    by (rule pq_reachable.step) (rule pq_step.settle,
      simp add: pq_status_def pq_run_def pq_empty_def pq_set_status_def)
  then show ?thesis
    by (rule pq_reachable.step) (rule pq_step.start,
      simp add: example_queue_def pq_can_start_def pq_status_def pq_run_def pq_empty_def pq_set_status_def)
qed

theorem queue_serial_witness:
  "pq_status (pq_set_status 1 JobRunning example_queue) 1 = Some JobRunning
   \<and> pq_status (pq_set_status 1 JobRunning example_queue) 0 = Some JobSettled"
proof -
  let ?q = "pq_set_status 1 JobRunning example_queue"
  have len: "length (pq_jobs ?q) = 2" by (simp add: example_queue_def pq_run_def pq_empty_def)
  have run: "pq_status ?q 1 = Some JobRunning" by (simp add: status_set_status example_queue_def)
  have "before ?q 0 1" by (simp add: before_def example_queue_def pq_run_def pq_empty_def)
  then show ?thesis using queue_serial [OF example_queue_reachable, of 1] len run by auto
qed

text \<open>
  The queue cannot get stuck: in every reachable state, the first unsettled job of a target
  is running or may start.
\<close>

theorem queue_progress:
  assumes "pq_reachable q" "i < length (pq_jobs q)" "pq_status q i \<noteq> Some JobSettled"
    and "\<And>j. before q j i \<Longrightarrow> pq_status q j = Some JobSettled"
  shows "pq_status q i = Some JobRunning \<or> pq_can_start q i"
  using pq_progress [OF pq_reachable_inv [OF assms(1)] assms(2)] assms(3,4) by (simp add: settled_def)

theorem queue_progress_witness:
  "pq_can_start (pq_run ''b'' pq_empty) 0"
proof -
  have "pq_reachable (pq_run ''b'' pq_empty)" by (auto intro: pq_reachable_run pq_reachable.init)
  then have "pq_status (pq_run ''b'' pq_empty) 0 = Some JobRunning \<or> pq_can_start (pq_run ''b'' pq_empty) 0"
    by (rule queue_progress) (simp_all add: run_status before_def, simp_all add: pq_empty_def)
  then show ?thesis by (simp add: run_status pq_empty_def)
qed

end
