(* ===== verification/Supervisor.thy ===== *)
theory Supervisor imports Execution State_Store Target_Queue begin

text \<open>
  The dispatch of the supervisor (\<open>LocalControlSupervisor\<close> in \<open>src/local-control/supervisor.ts\<close>)
  between \<open>start\<close> and \<open>close\<close>: admission, replay of known operations, acceptance in the durable
  log, serial execution per target, and the prepare/commit protocol of deferred operations. Every
  synchronous stretch of code between two awaits is a function; the event loop's choice of the
  next continuation is a step relation.
\<close>

section \<open>State\<close>

text \<open>How far the promise of an admitted operation has come.\<close>

datatype phase =
    Accepting request
  | InQueue nat
  | Answered response
  | Rejected

record inflight_entry =
  if_target_key :: string
  if_action :: action
  if_dispatch :: dispatch_mode
  if_phase :: phase

text \<open>What a job of the target queue does. The reaper of adopted processes queues its own jobs.\<close>

datatype task_kind =
    ExecTask request
  | DeferredTask request
  | StatusTask request
  | ReaperTask

datatype progress = NotBegun | Executing | Recorded response | Skipped | Read

record task =
  tk_kind :: task_kind
  tk_progress :: progress
  tk_released :: bool

record supervisor =
  sv_startup_error :: "ustr option"
  sv_closing :: bool
  sv_daily :: bool
  sv_store :: store
  sv_inflight :: "string \<rightharpoonup> inflight_entry"
  sv_committed :: "string set"
  sv_queue :: pqueue
  sv_tasks :: "task list"
  sv_waiting :: "request list"
  sv_after_reply :: "request list"
  sv_accepted :: "string list"

text \<open>\<open>sv_accepted\<close> is a ghost: the ids whose acceptance was written, in order.\<close>

definition new_supervisor :: "store \<Rightarrow> supervisor" where
  "new_supervisor st =
     \<lparr>sv_startup_error = None, sv_closing = False, sv_daily = False, sv_store = st,
      sv_inflight = Map.empty, sv_committed = {}, sv_queue = pq_empty, sv_tasks = [],
      sv_waiting = [], sv_after_reply = [], sv_accepted = []\<rparr>"

section \<open>Dispatch\<close>

text \<open>The answer of \<open>dispatch\<close>, or the promise the caller waits for.\<close>

datatype outcome =
    Reply response
  | ReplyThen response request
  | WaitCatalog
  | WaitInflight string
  | WaitStatus nat

definition isDeferredExcubitorOperation :: "request \<Rightarrow> bool" where
  "isDeferredExcubitorOperation r \<longleftrightarrow>
     req_target r = Excubitor \<and> (req_action r = Restart \<or> req_action r = Stop)"

definition fail :: "request \<Rightarrow> error_code \<Rightarrow> string \<Rightarrow> outcome" where
  "fail r c m = Reply (failedResponse (operation_id r) c (units m) None)"

definition closing_reply :: "request \<Rightarrow> outcome" where
  "closing_reply r = fail r SUPERVISOR_CLOSING ''local-control supervisor is closing''"

definition op_get :: "supervisor \<Rightarrow> string \<Rightarrow> op_record option" where
  "op_get s i = getOperation i (sv_store s)"

text \<open>\<open>commitDeferred\<close>. The continuation \<open>afterReply\<close> is queued with the reply.\<close>

definition commitDeferred :: "request \<Rightarrow> string \<Rightarrow> supervisor \<Rightarrow> outcome" where
  "commitDeferred r key s =
     (if \<not> isDeferredExcubitorOperation r
      then fail r COMMIT_NOT_SUPPORTED ''commit is supported only for Excubitor stop/restart''
      else case op_get s (operation_id r) of
             None \<Rightarrow> fail r OPERATION_NOT_PREPARED ''operation was not prepared''
           | Some p \<Rightarrow>
               if rec_target_key p \<noteq> key \<or> rec_action p \<noteq> req_action r
               then fail r OPERATION_ID_CONFLICT ''prepared operation target/action does not match commit''
               else if rec_dispatch p \<noteq> Prepare
               then fail r OPERATION_NOT_PREPARED ''operation was not prepared''
               else if \<not> is_accepted (rec_response p) then Reply (rec_response p)
               else ReplyThen (rec_response p) r)"

definition mismatch :: "request \<Rightarrow> string \<Rightarrow> string \<Rightarrow> action \<Rightarrow> dispatch_mode \<Rightarrow> bool" where
  "mismatch r key k a d \<longleftrightarrow> k \<noteq> key \<or> a \<noteq> req_action r \<or> d \<noteq> req_dispatch r"

text \<open>A call of \<open>operations.run\<close>: the new job gets the next position of the queue.\<close>

definition enqueue :: "string \<Rightarrow> task_kind \<Rightarrow> supervisor \<Rightarrow> supervisor" where
  "enqueue key t s =
     s\<lparr>sv_queue := pq_run key (sv_queue s),
       sv_tasks := sv_tasks s @ [\<lparr>tk_kind = t, tk_progress = NotBegun, tk_released = False\<rparr>]\<rparr>"

text \<open>From the target key to the end of \<open>dispatch\<close>.\<close>

definition dispatch_body :: "world \<Rightarrow> request \<Rightarrow> supervisor \<Rightarrow> outcome \<times> supervisor" where
  "dispatch_body w r s =
     (let key = target_key (req_target r) in
      if req_dispatch r = Commit then (commitDeferred r key s, s)
      else if req_dispatch r = Prepare \<and> \<not> isDeferredExcubitorOperation r
      then (fail r PREPARE_NOT_SUPPORTED ''prepare is supported only for Excubitor stop/restart'', s)
      else if req_action r = Status then
        (if req_target r = Excubitor then (Reply (execute_response w r), s)
         else (WaitStatus (length (sv_tasks s)), enqueue key (StatusTask r) s))
      else case op_get s (operation_id r) of
        Some p \<Rightarrow>
          (if mismatch r key (rec_target_key p) (rec_action p) (rec_dispatch p)
           then fail r OPERATION_ID_CONFLICT
                  ''operation id was already used for a different target or action''
           else Reply (rec_response p), s)
      | None \<Rightarrow>
        (case sv_inflight s (operation_id r) of
           Some e \<Rightarrow>
             (if mismatch r key (if_target_key e) (if_action e) (if_dispatch e)
              then fail r OPERATION_ID_CONFLICT
                     ''operation id is in use by a different target or action''
              else WaitInflight (operation_id r), s)
         | None \<Rightarrow>
             (WaitInflight (operation_id r),
              s\<lparr>sv_inflight := (sv_inflight s)(operation_id r \<mapsto>
                  \<lparr>if_target_key = key, if_action = req_action r, if_dispatch = req_dispatch r,
                   if_phase = Accepting r\<rparr>)\<rparr>)))"

text \<open>\<open>dispatch\<close> up to its second await: a service request waits for the catalog.\<close>

definition dispatch :: "world \<Rightarrow> request \<Rightarrow> supervisor \<Rightarrow> outcome \<times> supervisor" where
  "dispatch w r s =
     (case sv_startup_error s of
        Some e \<Rightarrow> (Reply (failedResponse (operation_id r) SUPERVISOR_START_FAILED e None), s)
      | None \<Rightarrow>
          if sv_closing s then (closing_reply r, s)
          else if req_action r \<noteq> Status \<and> sv_daily s
          then (fail r OPERATION_FAILED
                  ''Daily repository update is active; retry after it finishes'', s)
          else if req_target r \<noteq> Excubitor
          then (WaitCatalog, s\<lparr>sv_waiting := sv_waiting s @ [r]\<rparr>)
          else dispatch_body w r s)"

text \<open>The catalog is ready: a second look at \<open>closing\<close>, then the rest.\<close>

definition dispatch_resume :: "world \<Rightarrow> request \<Rightarrow> supervisor \<Rightarrow> outcome \<times> supervisor" where
  "dispatch_resume w r s =
     (let s' = s\<lparr>sv_waiting := remove1 r (sv_waiting s)\<rparr>
      in if sv_closing s' then (closing_reply r, s') else dispatch_body w r s')"

text \<open>The reply is sent and its continuation, if any, becomes runnable.\<close>

definition reply :: "outcome \<times> supervisor \<Rightarrow> supervisor" where
  "reply os = (case fst os of
      ReplyThen _ r \<Rightarrow> (snd os)\<lparr>sv_after_reply := sv_after_reply (snd os) @ [r]\<rparr>
    | _ \<Rightarrow> snd os)"

section \<open>Acceptance\<close>

definition accepted_record :: "request \<Rightarrow> string \<Rightarrow> op_record" where
  "accepted_record r now =
     (let key = target_key (req_target r)
      in \<lparr>rec_operation_id = operation_id r, rec_target_key = key, rec_action = req_action r,
          rec_actor = req_actor r, rec_dispatch = req_dispatch r, rec_accepted_at = now,
          rec_completed_at = None, rec_response = acceptedResponse r key\<rparr>)"

definition set_phase :: "string \<Rightarrow> phase \<Rightarrow> supervisor \<Rightarrow> supervisor" where
  "set_phase i p s =
     s\<lparr>sv_inflight := (sv_inflight s)(i := map_option (\<lambda>e. e\<lparr>if_phase := p\<rparr>) (sv_inflight s i))\<rparr>"

text \<open>
  \<open>beginDispatch\<close> after \<open>recordAccepted\<close>: a failed write rejects the promise, a prepared operation
  answers, anything else enters the queue of its target.
\<close>

definition accept :: "request \<Rightarrow> string \<Rightarrow> bool \<Rightarrow> supervisor \<Rightarrow> supervisor" where
  "accept r now written s =
     (let key = target_key (req_target r);
          result = recordAccepted (accepted_record r now) written (sv_store s)
      in case snd result of
           Some _ \<Rightarrow> set_phase (operation_id r) Rejected s
         | None \<Rightarrow>
             (let s' = s\<lparr>sv_store := fst result, sv_accepted := sv_accepted s @ [operation_id r]\<rparr>
              in if isDeferredExcubitorOperation r \<and> req_dispatch r = Prepare
                 then set_phase (operation_id r) (Answered (acceptedResponse r key)) s'
                 else enqueue key (ExecTask r)
                        (set_phase (operation_id r) (InQueue (length (sv_tasks s'))) s')))"

section \<open>Deferred execution\<close>

text \<open>
  \<open>afterReply\<close> up to its await. The claim on the operation is dropped at once when the record is
  gone or settled, so only the enqueuing branch keeps it.
\<close>

definition afterReply :: "request \<Rightarrow> supervisor \<Rightarrow> supervisor" where
  "afterReply r s0 =
     (let s = s0\<lparr>sv_after_reply := remove1 r (sv_after_reply s0)\<rparr> in
      if sv_closing s then s
      else if operation_id r \<in> sv_committed s then s
      else case op_get s (operation_id r) of
             None \<Rightarrow> s
           | Some p \<Rightarrow>
               if \<not> is_accepted (rec_response p) then s
               else enqueue (target_key (req_target r)) (DeferredTask r)
                      (s\<lparr>sv_committed := insert (operation_id r) (sv_committed s)\<rparr>))"

section \<open>Jobs\<close>

definition set_task :: "nat \<Rightarrow> (task \<Rightarrow> task) \<Rightarrow> supervisor \<Rightarrow> supervisor" where
  "set_task i f s = s\<lparr>sv_tasks := (sv_tasks s)[i := f (sv_tasks s ! i)]\<rparr>"

definition task_at :: "supervisor \<Rightarrow> nat \<Rightarrow> task option" where
  "task_at s i = (if i < length (sv_tasks s) then Some (sv_tasks s ! i) else None)"

text \<open>The job is called: a deferred one looks at \<open>closing\<close> again.\<close>

definition start_progress :: "supervisor \<Rightarrow> task_kind \<Rightarrow> progress" where
  "start_progress s t = (case t of
      DeferredTask _ \<Rightarrow> if sv_closing s then Skipped else Executing
    | ExecTask _ \<Rightarrow> Executing
    | _ \<Rightarrow> Read)"

definition start_job :: "nat \<Rightarrow> supervisor \<Rightarrow> supervisor" where
  "start_job i s =
     set_task i (\<lambda>t. t\<lparr>tk_progress := start_progress s (tk_kind t)\<rparr>)
       (s\<lparr>sv_queue := pq_set_status i JobRunning (sv_queue s)\<rparr>)"

text \<open>\<open>executeRecorded\<close> after the effect: the response is recorded, a failed write is only logged.\<close>

definition record_job :: "nat \<Rightarrow> string \<Rightarrow> string \<Rightarrow> response \<Rightarrow> bool \<Rightarrow> supervisor \<Rightarrow> supervisor" where
  "record_job i x now rsp written s =
     set_task i (\<lambda>t. t\<lparr>tk_progress := Recorded rsp\<rparr>)
       (s\<lparr>sv_store := fst (recordCompleted x now rsp written (sv_store s))\<rparr>)"

definition settle_job :: "nat \<Rightarrow> supervisor \<Rightarrow> supervisor" where
  "settle_job i s =
     (let s' = s\<lparr>sv_queue := pq_set_status i JobSettled (sv_queue s)\<rparr> in
      case task_at s i of
        None \<Rightarrow> s'
      | Some t \<Rightarrow>
          (case (tk_kind t, tk_progress t) of
             (ExecTask r, Recorded rsp) \<Rightarrow> set_phase (operation_id r) (Answered rsp) s'
           | _ \<Rightarrow> s'))"

text \<open>The \<open>finally\<close> of \<open>afterReply\<close>.\<close>

definition release :: "nat \<Rightarrow> request \<Rightarrow> supervisor \<Rightarrow> supervisor" where
  "release i r s =
     set_task i (\<lambda>t. t\<lparr>tk_released := True\<rparr>)
       (s\<lparr>sv_committed := sv_committed s - {operation_id r}\<rparr>)"

definition forget :: "string \<Rightarrow> supervisor \<Rightarrow> supervisor" where
  "forget i s = s\<lparr>sv_inflight := (sv_inflight s)(i := None)\<rparr>"

text \<open>The operation a task executes.\<close>

definition task_request :: "task \<Rightarrow> request option" where
  "task_request t = (case tk_kind t of ExecTask r \<Rightarrow> Some r | DeferredTask r \<Rightarrow> Some r | _ \<Rightarrow> None)"

definition task_id :: "task \<Rightarrow> string option" where
  "task_id t = map_option operation_id (task_request t)"

section \<open>Steps\<close>

inductive sv_step :: "supervisor \<Rightarrow> supervisor \<Rightarrow> bool" where
  dispatch: "sv_step s (reply (dispatch w r s))"
| resume: "r \<in> set (sv_waiting s) \<Longrightarrow> sv_step s (reply (dispatch_resume w r s))"
| accept: "map_option if_phase (sv_inflight s i) = Some (Accepting r)
    \<Longrightarrow> sv_step s (accept r now written s)"
| forget: "map_option if_phase (sv_inflight s i) = Some p \<Longrightarrow> p = Rejected \<or> (\<exists>rsp. p = Answered rsp)
    \<Longrightarrow> sv_step s (forget i s)"
| after: "r \<in> set (sv_after_reply s) \<Longrightarrow> sv_step s (afterReply r s)"
| start: "task_at s i = Some t \<Longrightarrow> pq_can_start (sv_queue s) i \<Longrightarrow> sv_step s (start_job i s)"
| recorded: "task_at s i = Some t \<Longrightarrow> tk_progress t = Executing \<Longrightarrow> task_request t = Some r
    \<Longrightarrow> rsp = execute_response w r \<Longrightarrow> sv_step s (record_job i (operation_id r) now rsp written s)"
| settle: "task_at s i = Some t \<Longrightarrow> pq_status (sv_queue s) i = Some JobRunning
    \<Longrightarrow> tk_progress t \<noteq> Executing \<Longrightarrow> sv_step s (settle_job i s)"
| release: "task_at s i = Some t \<Longrightarrow> tk_kind t = DeferredTask r \<Longrightarrow> \<not> tk_released t
    \<Longrightarrow> pq_status (sv_queue s) i = Some JobSettled \<Longrightarrow> sv_step s (release i r s)"
| cleanup: "pq_status (sv_queue s) i = Some JobSettled
    \<Longrightarrow> sv_step s (s\<lparr>sv_queue := pq_cleanup i (sv_queue s)\<rparr>)"
| reaper: "sv_step s (enqueue key ReaperTask s)"
| backend_status: "sv_step s (s\<lparr>sv_store := fst (recordExcubitor st written (sv_store s))\<rparr>)"
| daily: "sv_step s (s\<lparr>sv_daily := b\<rparr>)"
| close: "sv_step s (s\<lparr>sv_closing := True\<rparr>)"

inductive sv_reachable :: "store \<Rightarrow> supervisor \<Rightarrow> bool" for st0 where
  init: "sv_reachable st0 (new_supervisor st0)"
| step: "sv_reachable st0 s \<Longrightarrow> sv_step s s' \<Longrightarrow> sv_reachable st0 s'"

end
