(* ===== verification/Supervisor_Once.thy ===== *)
theory Supervisor_Once imports Supervisor begin

text \<open>
  The safety of the supervisor's dispatch (\<open>src/local-control/supervisor.ts\<close>): an operation id
  is executed at most once, whatever retries, commits, failed writes and interleavings the event
  loop sees, as long as the log has room for the accepted operations.
\<close>

section \<open>Executions and claims\<close>

definition begun :: "progress \<Rightarrow> bool" where
  "begun p = (case p of Executing \<Rightarrow> True | Recorded _ \<Rightarrow> True | _ \<Rightarrow> False)"

definition executions :: "string \<Rightarrow> supervisor \<Rightarrow> nat" where
  "executions x s = length (filter (\<lambda>t. task_id t = Some x \<and> begun (tk_progress t)) (sv_tasks s))"

text \<open>Counting in lists that are extended and updated.\<close>

definition occ :: "('a \<Rightarrow> bool) \<Rightarrow> 'a list \<Rightarrow> nat" where
  "occ P ts = length (filter P ts)"

lemma occ_simps [simp]:
  "occ P [] = 0" "occ P (t # ts) = (if P t then 1 else 0) + occ P ts"
  "occ P (ts @ us) = occ P ts + occ P us"
  by (simp_all add: occ_def)

lemma occ_zero: "occ P ts = 0 \<longleftrightarrow> (\<forall>t \<in> set ts. \<not> P t)"
  by (simp add: occ_def filter_empty_conv)

lemma occ_mono: "(\<And>t. P t \<Longrightarrow> Q t) \<Longrightarrow> occ P ts \<le> occ Q ts"
  by (induction ts) (auto simp: trans_le_add2)

lemma occ_update_le:
  "i < length ts \<Longrightarrow> (P t' \<Longrightarrow> P (ts ! i)) \<Longrightarrow> occ P (ts[i := t']) \<le> occ P ts"
proof (induction ts arbitrary: i)
  case (Cons t ts)
  then show ?case by (cases i) auto
qed simp

text \<open>The only element with a property loses it.\<close>

lemma occ_update_zero:
  "i < length ts \<Longrightarrow> occ P ts \<le> 1 \<Longrightarrow> P (ts ! i) \<Longrightarrow> \<not> P t' \<Longrightarrow> occ P (ts[i := t']) = 0"
proof (induction ts arbitrary: i)
  case (Cons t ts)
  show ?case
  proof (cases i)
    case 0
    with Cons.prems show ?thesis by simp
  next
    case (Suc j)
    have "occ P ts \<noteq> 0" using Cons.prems Suc by (auto simp: occ_zero)
    then show ?thesis using Cons Suc by (auto split: if_splits)
  qed
qed simp

text \<open>Jobs that have executed the operation or still may, and jobs that hold its commit.\<close>

definition claim :: "string \<Rightarrow> task \<Rightarrow> bool" where
  "claim x t \<longleftrightarrow> task_id t = Some x \<and> tk_progress t \<noteq> Skipped"

definition holder :: "string \<Rightarrow> task \<Rightarrow> bool" where
  "holder x t \<longleftrightarrow> (\<exists>r. tk_kind t = DeferredTask r \<and> operation_id r = x) \<and> \<not> tk_released t"

lemma executions_le_claims: "executions x s \<le> occ (claim x) (sv_tasks s)"
proof -
  have "executions x s = occ (\<lambda>t. task_id t = Some x \<and> begun (tk_progress t)) (sv_tasks s)"
    by (simp add: executions_def occ_def)
  also have "\<dots> \<le> occ (claim x) (sv_tasks s)"
    by (rule occ_mono) (auto simp: claim_def begun_def)
  finally show ?thesis .
qed

section \<open>The invariant\<close>

definition settled_in :: "supervisor \<Rightarrow> string \<Rightarrow> bool" where
  "settled_in s x \<longleftrightarrow> (\<exists>p. op_get s x = Some p \<and> \<not> is_accepted (rec_response p))"

definition mode_is :: "supervisor \<Rightarrow> string \<Rightarrow> (dispatch_mode \<Rightarrow> bool) \<Rightarrow> bool" where
  "mode_is s x P \<longleftrightarrow> (\<exists>p. op_get s x = Some p \<and> P (rec_dispatch p))"

definition recorded :: "progress \<Rightarrow> bool" where
  "recorded p = (case p of Recorded _ \<Rightarrow> True | _ \<Rightarrow> False)"

definition task_ok :: "supervisor \<Rightarrow> task \<Rightarrow> bool" where
  "task_ok s t = (case tk_kind t of
      ExecTask r \<Rightarrow> mode_is s (operation_id r) (\<lambda>d. d \<noteq> Prepare) \<and> tk_progress t \<notin> {Skipped, Read}
        \<and> (recorded (tk_progress t) \<longrightarrow> settled_in s (operation_id r))
    | DeferredTask r \<Rightarrow> mode_is s (operation_id r) (\<lambda>d. d = Prepare) \<and> tk_progress t \<noteq> Read
        \<and> (recorded (tk_progress t) \<longrightarrow> settled_in s (operation_id r))
        \<and> (if tk_released t then recorded (tk_progress t) \<or> tk_progress t = Skipped
           else operation_id r \<in> sv_committed s)
    | _ \<Rightarrow> True)"

definition queue_link :: "supervisor \<Rightarrow> bool" where
  "queue_link s \<longleftrightarrow> length (pq_jobs (sv_queue s)) = length (sv_tasks s)
     \<and> (\<forall>i < length (sv_tasks s).
          (pq_status (sv_queue s) i = Some JobWaiting \<longleftrightarrow> tk_progress (sv_tasks s ! i) = NotBegun)
        \<and> (pq_status (sv_queue s) i = Some JobSettled \<longrightarrow> tk_progress (sv_tasks s ! i) \<noteq> Executing))"

definition entry_ok :: "supervisor \<Rightarrow> string \<Rightarrow> bool" where
  "entry_ok s i = (case map_option if_phase (sv_inflight s i) of
      Some (Accepting r) \<Rightarrow> operation_id r = i \<and> op_get s i = None
        \<and> (req_dispatch r = Prepare \<longrightarrow> isDeferredExcubitorOperation r)
    | _ \<Rightarrow> True)"

definition once_inv :: "supervisor \<Rightarrow> bool" where
  "once_inv s \<longleftrightarrow> queue_link s \<and> pq_inv (sv_queue s)
     \<and> (\<forall>t \<in> set (sv_tasks s). task_ok s t)
     \<and> (\<forall>r \<in> set (sv_after_reply s). mode_is s (operation_id r) (\<lambda>d. d = Prepare))
     \<and> (\<forall>i. entry_ok s i)
     \<and> (\<forall>x. occ (claim x) (sv_tasks s) \<le> 1 \<and> occ (holder x) (sv_tasks s) \<le> 1)"

lemma once_invI:
  assumes "queue_link s" "pq_inv (sv_queue s)" "\<And>t. t \<in> set (sv_tasks s) \<Longrightarrow> task_ok s t"
    and "\<And>r. r \<in> set (sv_after_reply s) \<Longrightarrow> mode_is s (operation_id r) (\<lambda>d. d = Prepare)"
    and "\<And>i. entry_ok s i" "\<And>x. occ (claim x) (sv_tasks s) \<le> 1"
    and "\<And>x. occ (holder x) (sv_tasks s) \<le> 1"
  shows "once_inv s"
  using assms by (simp add: once_inv_def)

lemma once_invD:
  assumes "once_inv s"
  shows "queue_link s" "pq_inv (sv_queue s)" "t \<in> set (sv_tasks s) \<Longrightarrow> task_ok s t"
    and "r \<in> set (sv_after_reply s) \<Longrightarrow> mode_is s (operation_id r) (\<lambda>d. d = Prepare)"
    and "entry_ok s i" "occ (claim x) (sv_tasks s) \<le> 1" "occ (holder x) (sv_tasks s) \<le> 1"
  using assms by (auto simp: once_inv_def)

lemma op_get_fun: "op_get s = (\<lambda>i. getOperation i (sv_store s))"
  by (simp add: fun_eq_iff op_get_def)

section \<open>A later log keeps what the invariant says of it\<close>

definition later :: "supervisor \<Rightarrow> supervisor \<Rightarrow> bool" where
  "later s s' \<longleftrightarrow> log_le (op_get s) (op_get s') \<and> sv_committed s \<subseteq> sv_committed s'"

lemma later_mode: "later s s' \<Longrightarrow> mode_is s x P \<Longrightarrow> mode_is s' x P"
  unfolding later_def mode_is_def using log_leD by metis

lemma later_settled: "later s s' \<Longrightarrow> settled_in s x \<Longrightarrow> settled_in s' x"
  unfolding later_def settled_in_def using log_leD by metis

lemma later_task: "later s s' \<Longrightarrow> task_ok s t \<Longrightarrow> task_ok s' t"
  using later_mode [of s s'] later_settled [of s s']
  by (auto simp: task_ok_def later_def split: task_kind.splits if_splits)

lemma entry_ok_same:
  "op_get s' i = None \<longleftrightarrow> op_get s i = None \<Longrightarrow> sv_inflight s' i = sv_inflight s i
   \<Longrightarrow> entry_ok s' i = entry_ok s i"
  by (simp add: entry_ok_def split: option.splits phase.splits)

text \<open>A step that leaves tasks, queue and inflight entries alone.\<close>

lemma once_inv_frame:
  assumes "once_inv s" "later s s'" "sv_tasks s' = sv_tasks s" "sv_queue s' = sv_queue s"
    and "sv_inflight s' = sv_inflight s" "set (sv_after_reply s') \<subseteq> set (sv_after_reply s)"
    and "\<And>i. op_get s' i = None \<longleftrightarrow> op_get s i = None"
  shows "once_inv s'"
proof (rule once_invI)
  show "queue_link s'" using once_invD(1) [OF assms(1)] assms by (simp add: queue_link_def)
  show "pq_inv (sv_queue s')" using once_invD(2) [OF assms(1)] assms by simp
  show "task_ok s' t" if "t \<in> set (sv_tasks s')" for t
    using that once_invD(3) [OF assms(1)] assms later_task by simp
  show "mode_is s' (operation_id r) (\<lambda>d. d = Prepare)" if "r \<in> set (sv_after_reply s')" for r
    using that once_invD(4) [OF assms(1)] assms later_mode by blast
  show "entry_ok s' i" for i
    using once_invD(5) [OF assms(1), of i] entry_ok_same [of s' i s] assms by simp
  show "occ (claim x) (sv_tasks s') \<le> 1" "occ (holder x) (sv_tasks s') \<le> 1" for x
    using once_invD(6,7) [OF assms(1)] assms by simp_all
qed

text \<open>Enqueuing a job whose operation has no claim.\<close>

lemma queue_link_enqueue:
  assumes "queue_link s"
  shows "queue_link (enqueue key k s)"
proof -
  have len: "length (pq_jobs (sv_queue s)) = length (sv_tasks s)" using assms by (simp add: queue_link_def)
  show ?thesis using assms
    by (auto simp: queue_link_def enqueue_def run_status len nth_append less_Suc_eq)
qed

lemma enqueue_simps [simp]:
  "op_get (enqueue key k s) = op_get s"
  "sv_store (enqueue key k s) = sv_store s"
  "sv_inflight (enqueue key k s) = sv_inflight s"
  "sv_committed (enqueue key k s) = sv_committed s"
  "sv_after_reply (enqueue key k s) = sv_after_reply s"
  "sv_accepted (enqueue key k s) = sv_accepted s"
  by (simp_all add: enqueue_def op_get_fun)

lemma enqueue_entry [simp]: "entry_ok (enqueue key k s) i = entry_ok s i"
  by (rule entry_ok_same) simp_all

lemma once_inv_enqueue:
  assumes inv: "once_inv s"
    and ok: "task_ok s \<lparr>tk_kind = k, tk_progress = NotBegun, tk_released = False\<rparr>"
    and free: "\<And>r. k = ExecTask r \<or> k = DeferredTask r
      \<Longrightarrow> occ (claim (operation_id r)) (sv_tasks s) = 0 \<and> occ (holder (operation_id r)) (sv_tasks s) = 0"
  shows "once_inv (enqueue key k s)"
proof (rule once_invI)
  let ?s = "enqueue key k s"
  have later: "later s ?s" by (simp add: later_def enqueue_def op_get_fun)
  show "queue_link ?s" using once_invD(1) [OF inv] by (rule queue_link_enqueue)
  show "pq_inv (sv_queue ?s)" using once_invD(2) [OF inv] by (simp add: enqueue_def run_inv)
  show "task_ok ?s t" if "t \<in> set (sv_tasks ?s)" for t
    using that ok once_invD(3) [OF inv] later_task [OF later] by (auto simp: enqueue_def)
  show "mode_is ?s (operation_id r) (\<lambda>d. d = Prepare)" if "r \<in> set (sv_after_reply ?s)" for r
    using that once_invD(4) [OF inv] later_mode [OF later] by (simp add: enqueue_def)
  show "entry_ok ?s i" for i
    using once_invD(5) [OF inv] by simp
  have "occ (claim x) (sv_tasks ?s) \<le> 1 \<and> occ (holder x) (sv_tasks ?s) \<le> 1" for x
  proof (cases "\<exists>r. (k = ExecTask r \<or> k = DeferredTask r) \<and> operation_id r = x")
    case True
    then obtain r where "k = ExecTask r \<or> k = DeferredTask r" "operation_id r = x" by auto
    then have "occ (claim x) (sv_tasks s) = 0" "occ (holder x) (sv_tasks s) = 0" using free [of r] by auto
    then show ?thesis by (simp add: enqueue_def)
  next
    case False
    then have "\<not> claim x \<lparr>tk_kind = k, tk_progress = NotBegun, tk_released = False\<rparr>"
      "\<not> holder x \<lparr>tk_kind = k, tk_progress = NotBegun, tk_released = False\<rparr>"
      by (cases k; auto simp: claim_def holder_def task_id_def task_request_def)+
    then show ?thesis using once_invD(6,7) [OF inv, of x] by (simp add: enqueue_def)
  qed
  then show "occ (claim x) (sv_tasks ?s) \<le> 1" "occ (holder x) (sv_tasks ?s) \<le> 1" for x by auto
qed

text \<open>A change of the inflight table.\<close>

lemma once_inv_inflight:
  assumes "once_inv s" "\<And>i. entry_ok (s\<lparr>sv_inflight := m\<rparr>) i"
  shows "once_inv (s\<lparr>sv_inflight := m\<rparr>)"
proof -
  have later: "later s (s\<lparr>sv_inflight := m\<rparr>)" by (simp add: later_def op_get_fun)
  have "task_ok (s\<lparr>sv_inflight := m\<rparr>) t" if "t \<in> set (sv_tasks s)" for t
    using once_invD(3) [OF assms(1) that] later_task [OF later] by simp
  moreover have "mode_is (s\<lparr>sv_inflight := m\<rparr>) (operation_id r) (\<lambda>d. d = Prepare)"
    if "r \<in> set (sv_after_reply s)" for r
    using once_invD(4) [OF assms(1) that] later_mode [OF later] by simp
  ultimately show ?thesis
    using once_invD [OF assms(1)] assms(2) by (intro once_invI) (simp_all add: queue_link_def)
qed

lemma once_inv_set_phase:
  assumes "once_inv s" "\<And>r. p \<noteq> Accepting r"
  shows "once_inv (set_phase i p s)"
proof -
  have "entry_ok (set_phase i p s) k" for k
  proof (cases "k = i \<and> sv_inflight s i \<noteq> None")
    case True
    then show ?thesis using assms(2) by (cases p) (auto simp: entry_ok_def set_phase_def)
  next
    case False
    then have "entry_ok (set_phase i p s) k = entry_ok s k"
      by (intro entry_ok_same) (auto simp: set_phase_def op_get_fun)
    then show ?thesis using once_invD(5) [OF assms(1)] by simp
  qed
  then show ?thesis using once_inv_inflight [OF assms(1)] by (simp add: set_phase_def)
qed

lemma set_phase_simps [simp]:
  "op_get (set_phase i p s) = op_get s"
  "sv_store (set_phase i p s) = sv_store s"
  "sv_accepted (set_phase i p s) = sv_accepted s"
  "sv_tasks (set_phase i p s) = sv_tasks s"
  "sv_committed (set_phase i p s) = sv_committed s"
  by (simp_all add: set_phase_def op_get_fun)

text \<open>A change of one task.\<close>

lemma once_inv_task:
  assumes inv: "once_inv s" and t: "task_at s i = Some t"
    and tasks: "sv_tasks s' = (sv_tasks s)[i := t']"
    and kind: "tk_kind t' = tk_kind t" "tk_progress t = Skipped \<Longrightarrow> tk_progress t' = Skipped"
      "tk_released t \<Longrightarrow> tk_released t'"
    and later: "log_le (op_get s) (op_get s')" "\<And>i. op_get s' i = None \<longleftrightarrow> op_get s i = None"
    and frame: "sv_inflight s' = sv_inflight s" "sv_after_reply s' = sv_after_reply s"
    and queue: "queue_link s'" "pq_inv (sv_queue s')"
    and others: "\<And>u. u \<in> set (sv_tasks s') \<Longrightarrow> task_ok s u \<or> u = t' \<Longrightarrow> task_ok s' u"
  shows "once_inv s'"
proof (rule once_invI)
  have i: "i < length (sv_tasks s)" "t = sv_tasks s ! i"
    using t by (auto simp: task_at_def split: if_splits)
  show "queue_link s'" "pq_inv (sv_queue s')" by (rule queue)+
  show "task_ok s' u" if "u \<in> set (sv_tasks s')" for u
    using that others [of u] once_invD(3) [OF inv] set_update_subset_insert [of "sv_tasks s" i t']
    by (auto simp: tasks)
  show "mode_is s' (operation_id r) (\<lambda>d. d = Prepare)" if "r \<in> set (sv_after_reply s')" for r
    using that once_invD(4) [OF inv, of r] log_leD [OF later(1)] frame
    by (fastforce simp: mode_is_def)
  show "entry_ok s' k" for k
    using once_invD(5) [OF inv, of k] entry_ok_same [of s' k s] later(2) frame(1) by simp
  have "occ (claim x) (sv_tasks s') \<le> occ (claim x) (sv_tasks s)" for x
    unfolding tasks using i kind
    by (intro occ_update_le) (auto simp: claim_def task_id_def task_request_def)
  moreover have "occ (holder x) (sv_tasks s') \<le> occ (holder x) (sv_tasks s)" for x
    unfolding tasks using i kind by (intro occ_update_le) (auto simp: holder_def)
  ultimately show "occ (claim x) (sv_tasks s') \<le> 1" "occ (holder x) (sv_tasks s') \<le> 1" for x
    using once_invD(6,7) [OF inv, of x] order_trans by blast+
qed

section \<open>Every step keeps the invariant\<close>

lemma dispatch_body_inv:
  assumes inv: "once_inv s"
  shows "once_inv (snd (dispatch_body w r s))"
proof -
  let ?key = "target_key (req_target r)"
  have status: "once_inv (enqueue ?key (StatusTask r) s)"
    using inv by (rule once_inv_enqueue) (simp_all add: task_ok_def)
  have admit: "once_inv (s\<lparr>sv_inflight := (sv_inflight s)(operation_id r \<mapsto>
        \<lparr>if_target_key = ?key, if_action = req_action r, if_dispatch = req_dispatch r,
         if_phase = Accepting r\<rparr>)\<rparr>)" (is "once_inv ?s")
    if "op_get s (operation_id r) = None"
      "req_dispatch r = Prepare \<Longrightarrow> isDeferredExcubitorOperation r"
  proof (rule once_inv_inflight [OF inv])
    fix i
    show "entry_ok ?s i"
    proof (cases "i = operation_id r")
      case True
      with that show ?thesis by (simp add: entry_ok_def op_get_fun)
    next
      case False
      then have "entry_ok ?s i = entry_ok s i" by (intro entry_ok_same) (simp_all add: op_get_fun)
      with once_invD(5) [OF inv] show ?thesis by simp
    qed
  qed
  show ?thesis using inv status admit
    by (auto simp: dispatch_body_def Let_def split: option.splits)
qed

lemma commit_reply:
  "fst (dispatch_body w r s) = ReplyThen rsp r' \<Longrightarrow>
   r' = r \<and> snd (dispatch_body w r s) = s \<and> mode_is s (operation_id r) (\<lambda>d. d = Prepare)"
  by (auto simp: dispatch_body_def Let_def commitDeferred_def fail_def mode_is_def
      split: option.splits if_splits)

lemma reply_body_inv:
  assumes "once_inv s"
  shows "once_inv (reply (dispatch_body w r s))"
proof (cases "fst (dispatch_body w r s)")
  case (ReplyThen rsp r')
  let ?s = "s\<lparr>sv_after_reply := sv_after_reply s @ [r]\<rparr>"
  have "reply (dispatch_body w r s) = ?s" and m: "mode_is s (operation_id r) (\<lambda>d. d = Prepare)"
    using commit_reply [OF ReplyThen] ReplyThen by (simp_all add: reply_def)
  moreover have "once_inv ?s"
  proof (rule once_invI)
    have later: "later s ?s" by (simp add: later_def op_get_fun)
    show "queue_link ?s" "pq_inv (sv_queue ?s)" "\<And>x. occ (claim x) (sv_tasks ?s) \<le> 1"
      "\<And>x. occ (holder x) (sv_tasks ?s) \<le> 1"
      using once_invD(1,2,6,7) [OF assms] by (simp_all add: queue_link_def)
    show "task_ok ?s t" if "t \<in> set (sv_tasks ?s)" for t
      using once_invD(3) [OF assms] that later_task [OF later] by simp
    show "mode_is ?s (operation_id q) (\<lambda>d. d = Prepare)" if "q \<in> set (sv_after_reply ?s)" for q
      using once_invD(4) [OF assms] that m later_mode [OF later] by auto
    show "entry_ok ?s i" for i
      using once_invD(5) [OF assms, of i] entry_ok_same [of ?s i s] by (simp add: op_get_fun)
  qed
  ultimately show ?thesis by simp
qed (use dispatch_body_inv [OF assms] in \<open>simp_all add: reply_def\<close>)

lemma waiting_inv: "once_inv s \<Longrightarrow> once_inv (s\<lparr>sv_waiting := ws\<rparr>)"
  by (erule once_inv_frame) (simp_all add: later_def op_get_fun)

lemma dispatch_inv: "once_inv s \<Longrightarrow> once_inv (reply (dispatch w r s))"
  using reply_body_inv [of s w r] waiting_inv [of s]
  by (auto simp: dispatch_def fail_def closing_reply_def reply_def split: option.splits)

lemma dispatch_resume_inv: "once_inv s \<Longrightarrow> once_inv (reply (dispatch_resume w r s))"
  using reply_body_inv [OF waiting_inv, of s w r] waiting_inv [of s]
  by (simp add: dispatch_resume_def Let_def fail_def closing_reply_def reply_def)

lemma unknown_free:
  assumes "once_inv s" "op_get s x = None"
  shows "occ (claim x) (sv_tasks s) = 0 \<and> occ (holder x) (sv_tasks s) = 0"
proof -
  have "task_id t \<noteq> Some x" if "t \<in> set (sv_tasks s)" for t
    using once_invD(3) [OF assms(1) that] assms(2)
    by (auto simp: task_ok_def mode_is_def task_id_def task_request_def split: task_kind.splits)
  then show ?thesis
    by (auto simp: occ_zero claim_def holder_def task_id_def task_request_def)
qed

lemma accept_inv:
  assumes inv: "once_inv s" and e: "map_option if_phase (sv_inflight s i) = Some (Accepting r)"
    and room: "snd (recordAccepted (accepted_record r now) w (sv_store s)) = None \<Longrightarrow> log_room (sv_store s)"
  shows "once_inv (accept r now w s)"
proof -
  let ?rec = "accepted_record r now"
  let ?res = "recordAccepted ?rec w (sv_store s)"
  have id: "rec_operation_id ?rec = operation_id r" by (simp add: accepted_record_def Let_def)
  have i: "operation_id r = i" "op_get s i = None"
    and prep: "req_dispatch r = Prepare \<Longrightarrow> isDeferredExcubitorOperation r"
    using once_invD(5) [OF inv, of i] e by (auto simp: entry_ok_def)
  show ?thesis
  proof (cases "snd ?res")
    case (Some err)
    then show ?thesis using once_inv_set_phase [OF inv] by (simp add: accept_def Let_def)
  next
    case None
    let ?s1 = "\<lambda>p. set_phase i p s"
    let ?s2 = "\<lambda>p. (?s1 p)\<lparr>sv_store := fst ?res, sv_accepted := sv_accepted s @ [i]\<rparr>"
    have get: "getOperation k (fst ?res) = (if k = i then Some ?rec else getOperation k (sv_store s))" for k
      using oplog.accepted [OF None room [OF None]] i id by (simp add: op_get_def)
    have free: "occ (claim i) (sv_tasks s) = 0 \<and> occ (holder i) (sv_tasks s) = 0"
      using unknown_free [OF inv i(2)] .
    have inv2: "once_inv (?s2 p)" if p: "\<And>q. p \<noteq> Accepting q" for p
    proof (rule once_invI)
      have inv1: "once_inv (?s1 p)" using once_inv_set_phase [OF inv p] .
      have "log_le (\<lambda>k. getOperation k (sv_store s)) (\<lambda>k. getOperation k (fst ?res))"
        using i id by (intro oplog.accept_log_le room [OF None]) (simp_all add: op_get_def)
      then have later: "later (?s1 p) (?s2 p)" by (simp add: later_def op_get_fun)
      show "queue_link (?s2 p)" "pq_inv (sv_queue (?s2 p))" "occ (claim x) (sv_tasks (?s2 p)) \<le> 1"
        "occ (holder x) (sv_tasks (?s2 p)) \<le> 1" for x
        using once_invD(1,2,6,7) [OF inv1] by (simp_all add: queue_link_def)
      show "task_ok (?s2 p) t" if "t \<in> set (sv_tasks (?s2 p))" for t
        using once_invD(3) [OF inv1, of t] that later_task [OF later] by simp
      show "mode_is (?s2 p) (operation_id q) (\<lambda>d. d = Prepare)" if "q \<in> set (sv_after_reply (?s2 p))" for q
        using once_invD(4) [OF inv1, of q] that later_mode [OF later] by simp
      show "entry_ok (?s2 p) k" for k
      proof (cases "k = i")
        case True
        then show ?thesis using e p by (cases p) (auto simp: entry_ok_def set_phase_def)
      next
        case False
        then have "entry_ok (?s2 p) k = entry_ok (?s1 p) k"
          by (intro entry_ok_same) (simp_all add: op_get_fun get)
        then show ?thesis using once_invD(5) [OF inv1] by simp
      qed
    qed
    have comm: "set_phase i p (s\<lparr>sv_store := fst ?res, sv_accepted := sv_accepted s @ [i]\<rparr>) = ?s2 p" for p
      by (simp add: set_phase_def)
    show ?thesis
    proof (cases "isDeferredExcubitorOperation r \<and> req_dispatch r = Prepare")
      case True
      then show ?thesis using inv2 [of "Answered (acceptedResponse r (target_key (req_target r)))"] None i(1)
        by (simp add: accept_def Let_def comm)
    next
      case False
      then have "req_dispatch r \<noteq> Prepare" using prep by blast
      then have "rec_dispatch ?rec \<noteq> Prepare" by (simp add: accepted_record_def Let_def)
      then have "mode_is (?s2 p) i (\<lambda>d. d \<noteq> Prepare)" for p by (simp add: mode_is_def op_get_fun get)
      then have "once_inv (enqueue (target_key (req_target r)) (ExecTask r) (?s2 (InQueue n)))" for n
        using free i(1)
        by (intro once_inv_enqueue [OF inv2]) (auto simp: task_ok_def recorded_def)
      then show ?thesis using False None i(1) by (auto simp: accept_def Let_def comm)
    qed
  qed
qed

lemma afterReply_inv:
  assumes inv: "once_inv s0" and r: "r \<in> set (sv_after_reply s0)"
  shows "once_inv (afterReply r s0)"
proof -
  define s where "s = s0\<lparr>sv_after_reply := remove1 r (sv_after_reply s0)\<rparr>"
  let ?x = "operation_id r"
  have inv1: "once_inv s" unfolding s_def
    using inv set_remove1_subset [of r "sv_after_reply s0"]
    by (rule_tac once_inv_frame) (auto simp: later_def op_get_fun)
  have mode: "mode_is s ?x (\<lambda>d. d = Prepare)"
    using once_invD(4) [OF inv r] by (simp add: s_def mode_is_def op_get_fun)
  show ?thesis
  proof (cases "sv_closing s \<or> ?x \<in> sv_committed s \<or> op_get s ?x = None \<or> settled_in s ?x")
    case True
    then have "afterReply r s0 = s"
      by (auto simp: afterReply_def s_def [symmetric] Let_def settled_in_def split: option.splits)
    with inv1 show ?thesis by simp
  next
    case False
    let ?s = "s\<lparr>sv_committed := insert ?x (sv_committed s)\<rparr>"
    have eq: "afterReply r s0 = enqueue (target_key (req_target r)) (DeferredTask r) ?s"
      using False by (auto simp: afterReply_def s_def [symmetric] Let_def settled_in_def split: option.splits)
    have "\<not> claim ?x t \<and> \<not> holder ?x t" if "t \<in> set (sv_tasks s)" for t
      using once_invD(3) [OF inv1 that] False mode
      by (auto simp: task_ok_def claim_def holder_def task_id_def task_request_def mode_is_def
          split: task_kind.splits if_splits)
    then have free: "occ (claim ?x) (sv_tasks s) = 0 \<and> occ (holder ?x) (sv_tasks s) = 0"
      by (simp add: occ_zero)
    have "once_inv ?s"
    proof (rule once_inv_frame [OF inv1])
      show "later s ?s" by (auto simp: later_def op_get_fun)
    qed (simp_all add: op_get_fun)
    then show ?thesis unfolding eq using free mode
      by (intro once_inv_enqueue) (auto simp: task_ok_def recorded_def mode_is_def op_get_fun)
  qed
qed

text \<open>Jobs.\<close>

lemma task_at_iff: "task_at s i = Some t \<longleftrightarrow> i < length (sv_tasks s) \<and> t = sv_tasks s ! i"
  by (auto simp: task_at_def)

lemma status_cases:
  assumes "queue_link s" "task_at s i = Some t"
  obtains st where "pq_status (sv_queue s) i = Some st"
  using assms by (auto simp: queue_link_def task_at_iff pq_status_def)

lemma start_inv:
  assumes inv: "once_inv s" and t: "task_at s i = Some t" and c: "pq_can_start (sv_queue s) i"
  shows "once_inv (start_job i s)"
proof (rule once_inv_task [OF inv t])
  let ?s = "start_job i s"
  let ?t = "t\<lparr>tk_progress := start_progress s (tk_kind t)\<rparr>"
  have i: "i < length (sv_tasks s)" "sv_tasks s ! i = t" using t by (auto simp: task_at_iff)
  have link: "queue_link s" using once_invD(1) [OF inv] .
  have notbegun: "tk_progress t = NotBegun"
    using link c i by (auto simp: queue_link_def pq_can_start_def)
  show "sv_tasks ?s = (sv_tasks s)[i := ?t]" using i by (simp add: start_job_def set_task_def)
  show "tk_progress t = Skipped \<Longrightarrow> tk_progress ?t = Skipped" using notbegun by simp
  show "log_le (op_get s) (op_get ?s)" "\<And>i. op_get ?s i = None \<longleftrightarrow> op_get s i = None"
    by (simp_all add: start_job_def set_task_def op_get_fun)
  show "sv_inflight ?s = sv_inflight s" "sv_after_reply ?s = sv_after_reply s"
    by (simp_all add: start_job_def set_task_def)
  have "start_progress s (tk_kind t) \<noteq> NotBegun"
    by (auto simp: start_progress_def split: task_kind.splits)
  then show "queue_link ?s" using link i
    by (auto simp: queue_link_def start_job_def set_task_def status_set_status nth_list_update)
  show "pq_inv (sv_queue ?s)"
    using pq_step_inv [OF pq_step.start [OF c]] once_invD(2) [OF inv]
    by (simp add: start_job_def set_task_def)
  have later: "later s ?s" by (simp add: later_def start_job_def set_task_def op_get_fun)
  have tok: "task_ok s t" using once_invD(3) [OF inv] i by (metis nth_mem)
  have "task_ok s ?t" using tok notbegun
    by (auto simp: task_ok_def start_progress_def recorded_def split: task_kind.splits)
  then show "task_ok ?s u" if "task_ok s u \<or> u = ?t" for u
    using that later_task [OF later] by auto
qed simp_all

lemma record_inv:
  assumes inv: "once_inv s" and t: "task_at s i = Some t" and p: "tk_progress t = Executing"
    and r: "task_request t = Some r" and rsp: "\<not> is_accepted rsp"
  shows "once_inv (record_job i (operation_id r) now rsp w s)"
proof (rule once_inv_task [OF inv t])
  let ?s = "record_job i (operation_id r) now rsp w s"
  let ?t = "t\<lparr>tk_progress := Recorded rsp\<rparr>"
  have i: "i < length (sv_tasks s)" "sv_tasks s ! i = t" using t by (auto simp: task_at_iff)
  have get: "op_get ?s = (\<lambda>k. getOperation k (fst (recordCompleted (operation_id r) now rsp w (sv_store s))))"
    by (simp add: op_get_fun record_job_def set_task_def)
  show "sv_tasks ?s = (sv_tasks s)[i := ?t]" using i by (simp add: record_job_def set_task_def)
  show "tk_progress t = Skipped \<Longrightarrow> tk_progress ?t = Skipped" using p by simp
  show le: "log_le (op_get s) (op_get ?s)"
    unfolding get op_get_fun [of s] using rsp by (rule oplog.complete_log_le)
  show "op_get ?s k = None \<longleftrightarrow> op_get s k = None" for k
    unfolding get op_get_fun [of s] by (rule oplog.complete_known)
  show "sv_inflight ?s = sv_inflight s" "sv_after_reply ?s = sv_after_reply s"
    by (simp_all add: record_job_def set_task_def)
  show "queue_link ?s" using once_invD(1) [OF inv] i p
    by (auto simp: queue_link_def record_job_def set_task_def nth_list_update)
  show "pq_inv (sv_queue ?s)" using once_invD(2) [OF inv] by (simp add: record_job_def set_task_def)
  have later: "later s ?s" using le by (simp add: later_def record_job_def set_task_def)
  have tok: "task_ok s t" using once_invD(3) [OF inv] i by (metis nth_mem)
  have known: "\<exists>p. getOperation (operation_id r) (sv_store s) = Some p"
    using tok r by (auto simp: task_ok_def task_request_def mode_is_def op_get_fun split: task_kind.splits)
  then have settled: "settled_in ?s (operation_id r)"
    using oplog.complete_settles [OF _ rsp] by (fastforce simp: settled_in_def get)
  have "task_ok ?s ?t"
    using later_task [OF later tok] settled r p
    by (auto simp: task_ok_def task_request_def recorded_def split: task_kind.splits if_splits)
  then show "task_ok ?s u" if "task_ok s u \<or> u = ?t" for u
    using that later_task [OF later] by auto
qed simp_all

lemma queue_inv:
  assumes inv: "once_inv s" and q: "pq_inv q" "queue_link (s\<lparr>sv_queue := q\<rparr>)"
  shows "once_inv (s\<lparr>sv_queue := q\<rparr>)"
proof (rule once_invI)
  let ?s = "s\<lparr>sv_queue := q\<rparr>"
  have later: "later s ?s" by (simp add: later_def op_get_fun)
  show "queue_link ?s" "pq_inv (sv_queue ?s)" "occ (claim x) (sv_tasks ?s) \<le> 1"
    "occ (holder x) (sv_tasks ?s) \<le> 1" for x
    using q once_invD(6,7) [OF inv] by simp_all
  show "task_ok ?s t" if "t \<in> set (sv_tasks ?s)" for t
    using once_invD(3) [OF inv, of t] that later_task [OF later] by simp
  show "mode_is ?s (operation_id r) (\<lambda>d. d = Prepare)" if "r \<in> set (sv_after_reply ?s)" for r
    using once_invD(4) [OF inv, of r] that later_mode [OF later] by simp
  show "entry_ok ?s k" for k
    using once_invD(5) [OF inv, of k] entry_ok_same [of ?s k s] by (simp add: op_get_fun)
qed

lemma settle_inv:
  assumes inv: "once_inv s" and t: "task_at s i = Some t"
    and run: "pq_status (sv_queue s) i = Some JobRunning" and p: "tk_progress t \<noteq> Executing"
  shows "once_inv (settle_job i s)"
proof -
  have i: "i < length (sv_tasks s)" "sv_tasks s ! i = t" using t by (auto simp: task_at_iff)
  have link: "queue_link s" and pq: "pq_inv (sv_queue s)" using once_invD(1,2) [OF inv] .
  let ?q = "pq_set_status i JobSettled (sv_queue s)"
  have "tk_progress t \<noteq> NotBegun" using link run i by (auto simp: queue_link_def)
  then have "queue_link (s\<lparr>sv_queue := ?q\<rparr>)" using link i p
    by (auto simp: queue_link_def status_set_status)
  moreover have "pq_inv ?q" using pq_step_inv [OF pq_step.settle [OF run] pq] .
  ultimately have "once_inv (s\<lparr>sv_queue := ?q\<rparr>)" using queue_inv [OF inv] by simp
  then show ?thesis using once_inv_set_phase
    by (auto simp: settle_job_def t Let_def split: task_kind.splits progress.splits)
qed

lemma cleanup_inv':
  assumes inv: "once_inv s" and st: "pq_status (sv_queue s) i = Some JobSettled"
  shows "once_inv (s\<lparr>sv_queue := pq_cleanup i (sv_queue s)\<rparr>)"
  using once_invD(1,2) [OF inv] st
  by (intro queue_inv [OF inv] pq_step_inv [OF pq_step.cleanup]) (auto simp: queue_link_def)

lemma release_inv:
  assumes inv: "once_inv s" and t: "task_at s i = Some t" and k: "tk_kind t = DeferredTask r"
    and unreleased: "\<not> tk_released t" and st: "pq_status (sv_queue s) i = Some JobSettled"
  shows "once_inv (release i r s)"
proof (rule once_inv_task [OF inv t])
  let ?s = "release i r s" and ?t = "t\<lparr>tk_released := True\<rparr>" and ?x = "operation_id r"
  have i: "i < length (sv_tasks s)" "sv_tasks s ! i = t" using t by (auto simp: task_at_iff)
  show tasks: "sv_tasks ?s = (sv_tasks s)[i := ?t]" using i by (simp add: release_def set_task_def)
  show "log_le (op_get s) (op_get ?s)" "op_get ?s k = None \<longleftrightarrow> op_get s k = None" for k
    by (simp_all add: release_def set_task_def op_get_fun)
  show "sv_inflight ?s = sv_inflight s" "sv_after_reply ?s = sv_after_reply s"
    by (simp_all add: release_def set_task_def)
  have link: "queue_link s" using once_invD(1) [OF inv] .
  then show "queue_link ?s" using i
    by (auto simp: queue_link_def release_def set_task_def nth_list_update)
  show "pq_inv (sv_queue ?s)" using once_invD(2) [OF inv] by (simp add: release_def set_task_def)
  have "holder ?x t" using k unreleased by (simp add: holder_def)
  then have "occ (holder ?x) (sv_tasks ?s) = 0"
    unfolding tasks using i once_invD(7) [OF inv] by (intro occ_update_zero) (auto simp: holder_def)
  then have none: "\<not> holder ?x u" if "u \<in> set (sv_tasks ?s)" for u using that by (simp add: occ_zero)
  have tok: "task_ok s t" using once_invD(3) [OF inv] i by (metis nth_mem)
  have "tk_progress t \<noteq> NotBegun" "tk_progress t \<noteq> Executing"
    using link st i by (auto simp: queue_link_def)
  then have "recorded (tk_progress t) \<or> tk_progress t = Skipped"
    using tok k by (auto simp: task_ok_def recorded_def split: progress.splits)
  then have tok': "task_ok ?s ?t" using tok k
    by (auto simp: task_ok_def mode_is_def settled_in_def release_def set_task_def op_get_fun)
  show "task_ok ?s u" if "u \<in> set (sv_tasks ?s)" "task_ok s u \<or> u = ?t" for u
  proof (cases "u = ?t")
    case False
    then have "task_ok s u" using that by simp
    then show ?thesis using none [OF that(1)]
      by (auto simp: task_ok_def mode_is_def settled_in_def release_def set_task_def op_get_fun
          holder_def split: task_kind.splits if_splits)
  qed (use tok' in simp)
qed simp_all

text \<open>The number of written acceptances grows by at most one, and then there was room.\<close>

lemma step_inv:
  assumes "sv_step s s'" "once_inv s"
    and "length (sv_accepted s) < length (sv_accepted s') \<Longrightarrow> log_room (sv_store s)"
  shows "once_inv s'"
  using assms
proof (cases rule: sv_step.cases)
  case (accept i r now w)
  have "log_room (sv_store s)" if "snd (recordAccepted (accepted_record r now) w (sv_store s)) = None"
    using that assms(3) accept(1) by (simp add: accept_def Let_def split: if_splits)
  then show ?thesis unfolding accept(1) by (rule accept_inv [OF assms(2) accept(2)])
next
  case (forget i p)
  have "entry_ok (s\<lparr>sv_inflight := (sv_inflight s)(i := None)\<rparr>) k" for k
  proof (cases "k = i")
    case False
    then have "entry_ok (s\<lparr>sv_inflight := (sv_inflight s)(i := None)\<rparr>) k = entry_ok s k"
      by (intro entry_ok_same) (simp_all add: op_get_fun)
    then show ?thesis using once_invD(5) [OF assms(2)] by simp
  qed (simp add: entry_ok_def)
  then show ?thesis using once_inv_inflight [OF assms(2)] forget by (simp add: forget_def)
next
  case (reaper key)
  have "once_inv (enqueue key ReaperTask s)"
    using assms(2) by (rule once_inv_enqueue) (simp_all add: task_ok_def)
  then show ?thesis using reaper by simp
next
  case (backend_status st w)
  have "once_inv (s\<lparr>sv_store := fst (recordExcubitor st w (sv_store s))\<rparr>)"
    using assms(2) by (rule once_inv_frame) (simp_all add: later_def op_get_fun)
  then show ?thesis using backend_status by simp
next
  case (daily b)
  have "once_inv (s\<lparr>sv_daily := b\<rparr>)"
    using assms(2) by (rule once_inv_frame) (simp_all add: later_def op_get_fun)
  then show ?thesis using daily by simp
next
  case close
  have "once_inv (s\<lparr>sv_closing := True\<rparr>)"
    using assms(2) by (rule once_inv_frame) (simp_all add: later_def op_get_fun)
  then show ?thesis using close by simp
qed (auto intro: dispatch_inv dispatch_resume_inv afterReply_inv start_inv record_inv settle_inv
      release_inv cleanup_inv')

section \<open>Reachable states\<close>

lemma once_inv_init: "once_inv (new_supervisor st)"
  by (intro once_invI) (simp_all add: new_supervisor_def queue_link_def pq_inv_empty entry_ok_def,
      simp add: pq_empty_def)

lemma dispatch_body_frame:
  "sv_store (snd (dispatch_body w r s)) = sv_store s \<and> sv_accepted (snd (dispatch_body w r s)) = sv_accepted s"
  by (auto simp: dispatch_body_def Let_def split: option.splits)

lemma reply_frame [simp]:
  "sv_store (reply o') = sv_store (snd o')" "sv_accepted (reply o') = sv_accepted (snd o')"
  by (simp_all add: reply_def split: outcome.splits)

lemma step_log:
  assumes "sv_step s s'" "0 < st_max_operations (sv_store s)"
  shows "st_max_operations (sv_store s') = st_max_operations (sv_store s)
    \<and> ((log_length (sv_store s') \<le> log_length (sv_store s) \<and> sv_accepted s' = sv_accepted s)
       \<or> (log_length (sv_store s') \<le> Suc (log_length (sv_store s))
          \<and> length (sv_accepted s') = Suc (length (sv_accepted s))))"
  using assms
proof (cases rule: sv_step.cases)
  case (accept i r now w)
  then show ?thesis using log_length_accept [OF assms(2), of "accepted_record r now" w]
    by (simp add: accept_def Let_def split: option.splits)
qed (auto simp: dispatch_def dispatch_resume_def Let_def dispatch_body_frame forget_def afterReply_def
      start_job_def set_task_def record_job_def settle_job_def release_def
      split: option.splits task_kind.splits progress.splits)

lemma reachable_log:
  assumes "sv_reachable st0 s" "0 < st_max_operations st0"
  shows "st_max_operations (sv_store s) = st_max_operations st0
    \<and> log_length (sv_store s) \<le> log_length st0 + length (sv_accepted s)"
  using assms
proof (induction rule: sv_reachable.induct)
  case (step s s')
  then show ?case using step_log [OF step.hyps(2)] by auto
qed (simp add: new_supervisor_def)

lemma reachable_once:
  assumes "sv_reachable st0 s" "0 < st_max_operations st0"
    and "log_length st0 + length (sv_accepted s) \<le> st_max_operations st0"
  shows "once_inv s"
  using assms
proof (induction rule: sv_reachable.induct)
  case (step s s')
  note log = reachable_log [OF step.hyps(1) step.prems(1)]
  have grow: "length (sv_accepted s) \<le> length (sv_accepted s')"
    using step_log [OF step.hyps(2)] log step.prems(1) by auto
  have "once_inv s" using step.IH step.prems grow by simp
  moreover have "log_room (sv_store s)" if "length (sv_accepted s) < length (sv_accepted s')"
    using that log step.prems by (simp add: log_room_def)
  ultimately show ?case using step_inv [OF step.hyps(2)] by blast
qed (rule once_inv_init)

lemma once_inv_executions: "once_inv s \<Longrightarrow> executions x s \<le> 1"
  using executions_le_claims [of x s] once_invD(6) [of s x] by simp

section \<open>The queue is always sound\<close>

definition keys_ok :: "supervisor \<Rightarrow> bool" where
  "keys_ok s \<longleftrightarrow> (\<forall>i < length (sv_tasks s). \<forall>r. task_request (sv_tasks s ! i) = Some r
      \<longrightarrow> job_key (pq_jobs (sv_queue s) ! i) = target_key (req_target r))"

definition queue_sound :: "supervisor \<Rightarrow> bool" where
  "queue_sound s \<longleftrightarrow> queue_link s \<and> pq_inv (sv_queue s) \<and> keys_ok s"

lemma queue_sound_frame:
  "sv_tasks s' = sv_tasks s \<Longrightarrow> sv_queue s' = sv_queue s \<Longrightarrow> queue_sound s' = queue_sound s"
  by (simp add: queue_sound_def queue_link_def keys_ok_def)

lemma queue_sound_same:
  "queue_sound s \<Longrightarrow> sv_tasks s' = sv_tasks s \<Longrightarrow> sv_queue s' = sv_queue s \<Longrightarrow> queue_sound s'"
  using queue_sound_frame by blast

lemma queue_sound_enqueue:
  assumes "queue_sound s" "\<And>r. k = ExecTask r \<or> k = DeferredTask r \<Longrightarrow> key = target_key (req_target r)"
  shows "queue_sound (enqueue key k s)"
proof -
  have len: "length (pq_jobs (sv_queue s)) = length (sv_tasks s)"
    using assms(1) by (simp add: queue_sound_def queue_link_def)
  have "task_request \<lparr>tk_kind = k, tk_progress = NotBegun, tk_released = False\<rparr> = Some r
      \<Longrightarrow> key = target_key (req_target r)" for r
    using assms(2) [of r] by (auto simp: task_request_def split: task_kind.splits)
  then have "keys_ok (enqueue key k s)" using assms(1) len
    by (auto simp: queue_sound_def keys_ok_def enqueue_def nth_append less_Suc_eq pq_run_def)
  then show ?thesis using assms(1) queue_link_enqueue run_inv
    by (auto simp: queue_sound_def enqueue_def)
qed

lemma queue_sound_jobs:
  assumes "queue_sound s" "pq_inv q" "length (pq_jobs q) = length (pq_jobs (sv_queue s))"
    and "\<And>i. job_key (pq_jobs q ! i) = job_key (pq_jobs (sv_queue s) ! i)"
    and "queue_link (s\<lparr>sv_queue := q, sv_tasks := ts\<rparr>)" "length ts = length (sv_tasks s)"
    and "\<And>i. i < length ts \<Longrightarrow> task_request (ts ! i) = task_request (sv_tasks s ! i)"
  shows "queue_sound (s\<lparr>sv_queue := q, sv_tasks := ts\<rparr>)"
  using assms by (simp add: queue_sound_def keys_ok_def)

lemma dispatch_body_queue:
  "queue_sound s \<Longrightarrow> queue_sound (snd (dispatch_body w r s))"
  using queue_sound_enqueue [of s "StatusTask r" "target_key (req_target r)"]
  by (auto simp: dispatch_body_def Let_def intro: queue_sound_same split: option.splits)

lemma reply_queue: "queue_sound (reply o') = queue_sound (snd o')"
  by (rule queue_sound_frame) (simp_all add: reply_def split: outcome.splits)

lemma step_queue_sound:
  assumes "sv_step s s'" "queue_sound s"
  shows "queue_sound s'"
  using assms
proof (cases rule: sv_step.cases)
  case (dispatch w r)
  then show ?thesis using assms(2) dispatch_body_queue
    by (auto simp: dispatch_def reply_queue intro: queue_sound_same split: option.splits)
next
  case (resume r w)
  have "queue_sound (s\<lparr>sv_waiting := remove1 r (sv_waiting s)\<rparr>)"
    using assms(2) by (rule queue_sound_same) simp_all
  then show ?thesis using resume dispatch_body_queue by (simp add: dispatch_resume_def Let_def reply_queue)
next
  case (accept i r now w)
  let ?rec = "recordAccepted (accepted_record r now) w (sv_store s)"
  have "queue_sound (set_phase x p s)" "queue_sound (set_phase x p (s\<lparr>sv_store := a, sv_accepted := b\<rparr>))" for x p a b
    using assms(2) by (auto simp: set_phase_def intro: queue_sound_same)
  then show ?thesis unfolding accept(1)
    by (auto simp: accept_def Let_def intro!: queue_sound_enqueue split: option.splits)
next
  case (after r)
  have "queue_sound (s\<lparr>sv_after_reply := a\<rparr>)" "queue_sound (s\<lparr>sv_after_reply := a, sv_committed := b\<rparr>)" for a b
    using assms(2) by (auto intro: queue_sound_same)
  then show ?thesis unfolding after(1)
    by (auto simp: afterReply_def Let_def intro!: queue_sound_enqueue split: option.splits)
next
  case (start i t)
  let ?ts = "(sv_tasks s)[i := t\<lparr>tk_progress := start_progress s (tk_kind t)\<rparr>]"
  have i: "i < length (sv_tasks s)" "sv_tasks s ! i = t" using start(2) by (auto simp: task_at_iff)
  have np: "start_progress s (tk_kind t) \<noteq> NotBegun"
    by (auto simp: start_progress_def split: task_kind.splits)
  have "queue_sound (s\<lparr>sv_queue := pq_set_status i JobRunning (sv_queue s), sv_tasks := ?ts\<rparr>)"
  proof (rule queue_sound_jobs [OF assms(2)])
    show "pq_inv (pq_set_status i JobRunning (sv_queue s))"
      using pq_step_inv [OF pq_step.start [OF start(3)]] assms(2) by (simp add: queue_sound_def)
    show "queue_link (s\<lparr>sv_queue := pq_set_status i JobRunning (sv_queue s), sv_tasks := ?ts\<rparr>)"
      using assms(2) i np by (auto simp: queue_sound_def queue_link_def status_set_status nth_list_update)
  qed (use i in \<open>auto simp: nth_list_update task_request_def\<close>)
  then show ?thesis unfolding start(1) by (rule back_subst [where P = queue_sound])
      (simp add: start_job_def set_task_def i)
next
  case (recorded i t r rsp w now written)
  let ?ts = "(sv_tasks s)[i := t\<lparr>tk_progress := Recorded rsp\<rparr>]"
  have i: "i < length (sv_tasks s)" "sv_tasks s ! i = t" using recorded(2) by (auto simp: task_at_iff)
  have "queue_sound (s\<lparr>sv_queue := sv_queue s, sv_tasks := ?ts\<rparr>)"
  proof (rule queue_sound_jobs [OF assms(2)])
    show "queue_link (s\<lparr>sv_queue := sv_queue s, sv_tasks := ?ts\<rparr>)"
      using assms(2) i recorded(3) by (auto simp: queue_sound_def queue_link_def nth_list_update)
  qed (use i assms(2) in \<open>auto simp: nth_list_update task_request_def queue_sound_def\<close>)
  then show ?thesis unfolding recorded(1)
    by (subst queue_sound_frame [where s = "s\<lparr>sv_queue := sv_queue s, sv_tasks := ?ts\<rparr>"])
      (simp_all add: record_job_def set_task_def i)
next
  case (settle i t)
  have i: "i < length (sv_tasks s)" "sv_tasks s ! i = t" using settle(2) by (auto simp: task_at_iff)
  have "queue_sound (s\<lparr>sv_queue := pq_set_status i JobSettled (sv_queue s), sv_tasks := sv_tasks s\<rparr>)"
  proof (rule queue_sound_jobs [OF assms(2)])
    show "pq_inv (pq_set_status i JobSettled (sv_queue s))"
      using pq_step_inv [OF pq_step.settle [OF settle(3)]] assms(2) by (simp add: queue_sound_def)
    have "tk_progress t \<noteq> NotBegun" using settle(3) assms(2) i by (auto simp: queue_sound_def queue_link_def)
    then show "queue_link (s\<lparr>sv_queue := pq_set_status i JobSettled (sv_queue s), sv_tasks := sv_tasks s\<rparr>)"
      using assms(2) i settle(4) by (auto simp: queue_sound_def queue_link_def status_set_status)
  qed simp_all
  then show ?thesis unfolding settle(1)
    by (subst queue_sound_frame [where s = "s\<lparr>sv_queue := pq_set_status i JobSettled (sv_queue s), sv_tasks := sv_tasks s\<rparr>"])
      (simp_all add: settle_job_def Let_def set_phase_def split: option.splits task_kind.splits progress.splits)
next
  case (release i t r)
  let ?ts = "(sv_tasks s)[i := t\<lparr>tk_released := True\<rparr>]"
  have i: "i < length (sv_tasks s)" "sv_tasks s ! i = t" using release(2) by (auto simp: task_at_iff)
  have "queue_sound (s\<lparr>sv_queue := sv_queue s, sv_tasks := ?ts\<rparr>)"
  proof (rule queue_sound_jobs [OF assms(2)])
    show "queue_link (s\<lparr>sv_queue := sv_queue s, sv_tasks := ?ts\<rparr>)"
      using assms(2) i by (auto simp: queue_sound_def queue_link_def nth_list_update)
  qed (use i assms(2) in \<open>auto simp: nth_list_update task_request_def queue_sound_def\<close>)
  then show ?thesis unfolding release(1)
    by (subst queue_sound_frame [where s = "s\<lparr>sv_queue := sv_queue s, sv_tasks := ?ts\<rparr>"])
      (simp_all add: release_def set_task_def i)
next
  case (cleanup i)
  have "queue_sound (s\<lparr>sv_queue := pq_cleanup i (sv_queue s), sv_tasks := sv_tasks s\<rparr>)"
    by (rule queue_sound_jobs [OF assms(2)])
      (use assms(2) pq_step_inv [OF pq_step.cleanup [OF cleanup(2)]] in
        \<open>auto simp: queue_sound_def queue_link_def\<close>)
  then show ?thesis unfolding cleanup(1) by simp
next
  case (reaper key)
  then show ?thesis using queue_sound_enqueue [OF assms(2), of ReaperTask key] by simp
qed (use assms(2) in \<open>auto simp: forget_def intro: queue_sound_same\<close>)

lemma reachable_queue_sound: "sv_reachable st0 s \<Longrightarrow> queue_sound s"
proof (induction rule: sv_reachable.induct)
  case init
  have "queue_link (new_supervisor st0)" "pq_inv (sv_queue (new_supervisor st0))"
    using once_invD(1,2) [OF once_inv_init] by blast+
  then show ?case by (simp add: queue_sound_def keys_ok_def new_supervisor_def)
qed (rule step_queue_sound)

lemma queue_sound_exclusive:
  assumes "queue_sound s" "task_at s i = Some t" "task_at s j = Some u"
    and "tk_progress t = Executing" "tk_progress u = Executing"
    and "task_request t = Some r" "task_request u = Some q" "req_target r = req_target q"
  shows "i = j"
proof -
  have run: "pq_status (sv_queue s) k = Some JobRunning" if v: "task_at s k = Some v" "tk_progress v = Executing" for k v
  proof -
    have "queue_link s" using assms(1) by (simp add: queue_sound_def)
    then obtain st where "pq_status (sv_queue s) k = Some st" by (rule status_cases [OF _ v(1)])
    then show ?thesis using v assms(1)
      by (cases st) (auto simp: queue_sound_def queue_link_def task_at_iff)
  qed
  have "job_key (pq_jobs (sv_queue s) ! i) = job_key (pq_jobs (sv_queue s) ! j)"
    using assms by (auto simp: queue_sound_def keys_ok_def task_at_iff)
  then show ?thesis
    using pq_inv_exclusive [of "sv_queue s" i j] run assms by (auto simp: queue_sound_def)
qed

section \<open>Durability\<close>

text \<open>The file lists the same operations as the memory copy.\<close>

definition synced :: "store \<Rightarrow> bool" where
  "synced st \<longleftrightarrow> (\<exists>m d. st_memory st = Some m \<and> st_disk st = Some d
     \<and> map rec_operation_id (ps_operations m) = map rec_operation_id (ps_operations d))"

definition durable :: "store \<Rightarrow> string \<Rightarrow> bool" where
  "durable st x \<longleftrightarrow> (\<exists>d. st_disk st = Some d \<and> find_op x (ps_operations d) \<noteq> None)"

lemma synced_ops [inv_intros]:
  "synced st \<Longrightarrow> synced (fst (recordAccepted r w st))"
  "synced st \<Longrightarrow> synced (fst (recordCompleted i t rsp w st))"
  "synced st \<Longrightarrow> synced (fst (recordExcubitor x w st))"
  by (auto simp: synced_def store_ops update_op_ids split: option.splits)

lemma synced_initialize:
  "snd (store_initialize ident rd w st) = None \<Longrightarrow> synced (fst (store_initialize ident rd w st))"
  by (auto simp: synced_def store_initialize_def Let_def split: if_splits)

lemma synced_durable:
  assumes "synced st" "getOperation x st = Some p"
  shows "durable st x"
proof -
  obtain m d where md: "st_memory st = Some m" "st_disk st = Some d"
    "map rec_operation_id (ps_operations m) = map rec_operation_id (ps_operations d)"
    using assms(1) by (auto simp: synced_def)
  have "x \<in> set (map rec_operation_id (ps_operations m))"
    using assms(2) md(1) by (auto simp: getOperation_def dest: find_key_SomeD)
  then show ?thesis using md by (auto simp: durable_def find_key_None)
qed

lemma step_synced: "sv_step s s' \<Longrightarrow> synced (sv_store s) \<Longrightarrow> synced (sv_store s')"
  by (cases rule: sv_step.cases, assumption)
    (auto simp: dispatch_def dispatch_resume_def Let_def dispatch_body_frame forget_def afterReply_def
      start_job_def set_task_def record_job_def settle_job_def release_def accept_def
      intro: inv_intros split: option.splits task_kind.splits progress.splits)

lemma reachable_synced: "sv_reachable st0 s \<Longrightarrow> synced st0 \<Longrightarrow> synced (sv_store s)"
  by (induction rule: sv_reachable.induct) (auto simp: new_supervisor_def intro: step_synced)

lemma begun_known:
  assumes "once_inv s" "task_at s i = Some t" "task_request t = Some r"
  shows "\<exists>p. getOperation (operation_id r) (sv_store s) = Some p"
proof -
  have "task_ok s t" using once_invD(3) [OF assms(1)] assms(2) by (auto simp: task_at_iff)
  then show ?thesis using assms(3)
    by (auto simp: task_ok_def task_request_def mode_is_def op_get_def split: task_kind.splits)
qed

end
