(* ===== verification/Supervisor_Properties.thy ===== *)
theory Supervisor_Properties imports Supervisor_Once begin

text \<open>
  What the dispatch of the supervisor (\<open>src/local-control/supervisor.ts\<close>) guarantees to its
  clients: the properties over every reachable state and over single requests, with a run that
  reaches a state with an executing operation.
\<close>

section \<open>A run of the supervisor\<close>

definition run_store :: store where
  "run_store = fst (store_initialize \<lparr>id_pid = 6, id_started_at = ''t0''\<rparr> True True (new_store None None))"

definition run_request :: request where
  "run_request = \<lparr>operation_id = ''op-1'', req_target = Excubitor, req_action = Start,
     req_actor = ''cli'', req_dispatch = Execute, req_parameters = None\<rparr>"

definition run1 :: supervisor where
  "run1 = reply (dispatch example_world run_request (new_supervisor run_store))"

definition run2 :: supervisor where
  "run2 = accept run_request ''t1'' True run1"

definition run3 :: supervisor where
  "run3 = start_job 0 run2"

lemma run1_facts:
  "sv_inflight run1 = [''op-1'' \<mapsto> \<lparr>if_target_key = ''excubitor'', if_action = Start, if_dispatch = Execute,
      if_phase = Accepting run_request\<rparr>]"
  "sv_store run1 = run_store" "sv_tasks run1 = []" "sv_accepted run1 = []" "sv_queue run1 = pq_empty"
  "sv_closing run1 = False"
  by (simp_all add: run1_def reply_def dispatch_def dispatch_body_def new_supervisor_def run_request_def
      op_get_def run_store_def store_initialize_def new_store_def getOperation_def Let_def
      target_key_def default_max_operations_def isDeferredExcubitorOperation_def slice_last_def)

lemma run2_facts:
  "sv_tasks run2 = [\<lparr>tk_kind = ExecTask run_request, tk_progress = NotBegun, tk_released = False\<rparr>]"
  "sv_queue run2 = pq_run ''excubitor'' pq_empty" "sv_accepted run2 = [''op-1'']"
proof -
  have ok: "snd (recordAccepted (accepted_record run_request ''t1'') True run_store) = None"
    by (simp add: recordAccepted_def store_update_def run_store_def store_initialize_def new_store_def Let_def)
  show "sv_tasks run2 = [\<lparr>tk_kind = ExecTask run_request, tk_progress = NotBegun, tk_released = False\<rparr>]"
    "sv_queue run2 = pq_run ''excubitor'' pq_empty" "sv_accepted run2 = [''op-1'']"
    by (simp_all add: run2_def accept_def Let_def run1_facts ok enqueue_def set_phase_def
        isDeferredExcubitorOperation_def)
      (simp_all add: run_request_def target_key_def)
qed

lemma run_reachable: "sv_reachable run_store run3"
proof -
  have "sv_reachable run_store run1" unfolding run1_def
    by (rule sv_reachable.step [OF sv_reachable.init]) (rule sv_step.dispatch)
  then have "sv_reachable run_store run2"
    by (rule sv_reachable.step)
      (unfold run2_def, rule sv_step.accept [where i = "''op-1''"], simp add: run1_facts)
  then show ?thesis
    by (rule sv_reachable.step)
      (unfold run3_def, rule sv_step.start, simp add: task_at_def run2_facts,
        simp add: run2_facts pq_can_start_def run_status pq_run_def pq_empty_def pq_status_def)
qed

lemma run3_facts:
  "sv_tasks run3 = [\<lparr>tk_kind = ExecTask run_request, tk_progress = Executing, tk_released = False\<rparr>]"
  "sv_accepted run3 = [''op-1'']"
  by (simp_all add: run3_def start_job_def set_task_def start_progress_def run2_facts)

lemma run_store_facts:
  "st_max_operations run_store = 100" "log_length run_store = 0" "synced run_store"
  by (simp_all add: run_store_def store_initialize_def new_store_def Let_def log_length_def synced_def
      default_max_operations_def)

section \<open>Properties\<close>

text \<open>
  C1. An operation is executed at most once. In every state the supervisor can reach from its
  start, through any interleaving of requests, retries, prepares, commits, failed writes of the
  log, backend restarts and reaper jobs, an operation id has begun to execute at most once, as
  long as the operations accepted so far fit into the log.
\<close>

theorem operation_executes_at_most_once:
  assumes "sv_reachable st0 s" "0 < st_max_operations st0"
    and "log_length st0 + length (sv_accepted s) \<le> st_max_operations st0"
  shows "executions x s \<le> 1"
  by (rule once_inv_executions) (rule reachable_once [OF assms])

theorem operation_executes_at_most_once_witness:
  "executions ''op-1'' run3 = 1"
proof -
  have "executions ''op-1'' run3 \<le> 1"
    by (rule operation_executes_at_most_once [OF run_reachable]) (simp_all add: run_store_facts run3_facts)
  moreover have "executions ''op-1'' run3 \<noteq> 0"
    by (simp add: executions_def run3_facts task_id_def task_request_def begun_def run_request_def)
  ultimately show ?thesis by simp
qed



text \<open>
  C4. Two operations on the same target never execute at the same time.
\<close>

theorem target_operations_exclusive:
  assumes "sv_reachable st0 s" "task_at s i = Some t" "task_at s j = Some u"
    and "tk_progress t = Executing" "tk_progress u = Executing"
    and "task_request t = Some r" "task_request u = Some q" "req_target r = req_target q"
  shows "i = j"
  by (rule queue_sound_exclusive [OF reachable_queue_sound [OF assms(1)] assms(2-8)])

theorem target_operations_exclusive_witness:
  "{j. \<exists>u q. task_at run3 j = Some u \<and> tk_progress u = Executing \<and> task_request u = Some q
     \<and> req_target q = Excubitor} = {0}" (is "?S = _")
proof -
  have t: "task_at run3 0 = Some (sv_tasks run3 ! 0)" "tk_progress (sv_tasks run3 ! 0) = Executing"
    "task_request (sv_tasks run3 ! 0) = Some run_request"
    by (simp_all add: run3_facts task_at_def task_request_def)
  have r: "req_target run_request = Excubitor" by (simp add: run_request_def)
  have "j = 0" if "j \<in> ?S" for j
    using target_operations_exclusive [OF run_reachable _ t(1) _ t(2) _ t(3), of j] r that by auto
  moreover have "0 \<in> ?S" using t r by blast
  ultimately show ?thesis by blast
qed



text \<open>
  While the supervisor closes, a request of any kind is refused and changes nothing, and a
  prepared operation whose job is called then is skipped.
\<close>

theorem closing_admits_nothing:
  assumes "sv_closing s" "sv_startup_error s = None"
  shows "dispatch w r s = (closing_reply r, s) \<and> start_progress s (DeferredTask q) = Skipped"
  using assms by (simp add: dispatch_def start_progress_def)

theorem closing_admits_nothing_witness:
  "dispatch example_world run_request ((new_supervisor run_store)\<lparr>sv_closing := True\<rparr>)
     = (closing_reply run_request, (new_supervisor run_store)\<lparr>sv_closing := True\<rparr>)"
  using closing_admits_nothing [of "(new_supervisor run_store)\<lparr>sv_closing := True\<rparr>" example_world run_request]
  by (simp add: new_supervisor_def)

end
