(* ===== verification/Line_Framer.thy ===== *)
theory Line_Framer imports Protocol "HOL-Library.Sublist" begin

text \<open>
  The framing of the local-control socket (\<open>src/local-control/line-framer.ts\<close>): chunks of text
  are cut into lines at line feeds, a carriage return before the feed and empty lines are
  dropped, and a line or a remainder above the byte limit is an error. The buffered remainder is
  passed explicitly; after an error the server closes the socket, so the framer is not used again.
\<close>

section \<open>UTF-8 lengths\<close>

text \<open>\<open>Buffer.byteLength(s, 'utf8')\<close>: a lone surrogate becomes U+FFFD (three bytes).\<close>

definition utf8_unit :: "16 word \<Rightarrow> nat" where
  "utf8_unit u = (if u < 0x80 then 1 else if u < 0x800 then 2 else 3)"

fun utf8_bytes :: "ustr \<Rightarrow> nat" where
  "utf8_bytes [] = 0"
| "utf8_bytes [u] = utf8_unit u"
| "utf8_bytes (u # v # us) =
     (if high_surrogate u \<and> low_surrogate v then 4 + utf8_bytes us
      else utf8_unit u + utf8_bytes (v # us))"

lemma utf8_unit_bounds: "1 \<le> utf8_unit u" "utf8_unit u \<le> 3"
  by (simp_all add: utf8_unit_def)

lemma utf8_unit_high: "high_surrogate u \<Longrightarrow> utf8_unit u = 3"
  by (auto simp: utf8_unit_def high_surrogate_def word_le_nat_alt word_less_nat_alt)

lemma utf8_bytes_prefix: "utf8_bytes xs \<le> utf8_bytes (xs @ ys)"
proof (induction xs rule: utf8_bytes.induct)
  case (2 u)
  then show ?case using utf8_unit_bounds(2) [of u] by (cases ys) (auto simp: utf8_unit_high)
qed auto

section \<open>The framer\<close>

abbreviation LF :: "16 word" where "LF \<equiv> 10"
abbreviation CR :: "16 word" where "CR \<equiv> 13"

definition strip_cr :: "ustr \<Rightarrow> ustr" where
  "strip_cr raw = (if raw \<noteq> [] \<and> last raw = CR then butlast raw else raw)"

text \<open>The two-part result: the remainder that stays buffered, and the error or the lines.\<close>

datatype line_too_long = LineTooLong

lemma dropWhile_tl_shorter: "x \<in> set xs \<Longrightarrow> length (dropWhile P xs) - Suc 0 < length xs"
  using length_dropWhile_le [of P xs] by (cases xs) (auto simp del: dropWhile.simps)

function frame_loop :: "nat \<Rightarrow> ustr \<Rightarrow> ustr list \<Rightarrow> ustr \<times> (line_too_long + ustr list)" where
  "frame_loop maxBytes pending ls =
     (if LF \<in> set pending
      then let raw = takeWhile (\<lambda>u. u \<noteq> LF) pending;
               pending' = tl (dropWhile (\<lambda>u. u \<noteq> LF) pending)
           in if utf8_bytes raw > maxBytes then (pending', Inl LineTooLong)
              else let line = strip_cr raw
                   in frame_loop maxBytes pending' (if line \<noteq> [] then ls @ [line] else ls)
      else if utf8_bytes pending > maxBytes then (pending, Inl LineTooLong)
      else (pending, Inr ls))"
  by pat_completeness auto

termination
  by (relation "measure (\<lambda>(maxBytes, pending, ls). length pending)")
    (auto simp: Let_def dropWhile_tl_shorter)

declare frame_loop.simps [simp del]

definition framer_push :: "nat \<Rightarrow> ustr \<Rightarrow> ustr \<Rightarrow> ustr \<times> (line_too_long + ustr list)" where
  "framer_push maxBytes pending chunk = frame_loop maxBytes (pending @ chunk) []"

text \<open>
  A socket's chunks one after the other: the remainder, the frames that were delivered, and whether an error ended
  it. The frames of a chunk that ends in an error are not delivered, those of the chunks before it were.
\<close>

fun framer_run :: "nat \<Rightarrow> ustr \<Rightarrow> ustr list \<Rightarrow> ustr \<times> ustr list \<times> bool" where
  "framer_run maxBytes pending [] = (pending, [], False)"
| "framer_run maxBytes pending (c # cs) =
     (case framer_push maxBytes pending c of
        (pending', Inl e) \<Rightarrow> (pending', [], True)
      | (pending', Inr ls) \<Rightarrow> (case framer_run maxBytes pending' cs of (pending'', ls', failed) \<Rightarrow> (pending'', ls @ ls', failed)))"



definition after_lines :: "ustr list \<Rightarrow> line_too_long + ustr list \<Rightarrow> line_too_long + ustr list" where
  "after_lines ls r = (case r of Inl e \<Rightarrow> Inl e | Inr ls' \<Rightarrow> Inr (ls @ ls'))"

lemma after_lines_simps [simp]:
  "after_lines ls (Inl e) = Inl e"
  "after_lines ls (Inr ls') = Inr (ls @ ls')"
  "after_lines [] r = r"
  "after_lines xs (after_lines ys r) = after_lines (xs @ ys) r"
  by (auto simp: after_lines_def split: sum.splits)

lemma frame_loop_no_LF:
  "LF \<notin> set p \<Longrightarrow>
   frame_loop m p ls = (if utf8_bytes p > m then (p, Inl LineTooLong) else (p, Inr ls))"
  by (subst frame_loop.simps) simp

definition emitted :: "ustr \<Rightarrow> ustr list" where
  "emitted raw = (if strip_cr raw \<noteq> [] then [strip_cr raw] else [])"

lemma frame_loop_line:
  assumes "LF \<notin> set raw"
  shows "frame_loop m (raw @ LF # p) ls =
     (if utf8_bytes raw > m then (p, Inl LineTooLong) else frame_loop m p (ls @ emitted raw))"
proof -
  have "takeWhile (\<lambda>u. u \<noteq> LF) (raw @ LF # p) = raw"
    "dropWhile (\<lambda>u. u \<noteq> LF) (raw @ LF # p) = LF # p"
    using assms by (induction raw) auto
  then show ?thesis by (subst frame_loop.simps) (simp add: Let_def emitted_def)
qed

text \<open>Every buffer is a sequence of terminated lines and an unterminated rest.\<close>

lemma split_first_LF:
  assumes "LF \<in> set p"
  obtains raw rest where "p = raw @ LF # rest" "LF \<notin> set raw"
  using split_list_first [OF assms] that by blast

lemma frame_loop_acc:
  "frame_loop m p ls = (fst (frame_loop m p []), after_lines ls (snd (frame_loop m p [])))"
proof (induction "length p" arbitrary: p ls rule: less_induct)
  case less
  show ?case
  proof (cases "LF \<in> set p")
    case True
    then obtain raw rest where p: "p = raw @ LF # rest" "LF \<notin> set raw" by (rule split_first_LF)
    have IH: "frame_loop m rest xs =
        (fst (frame_loop m rest []), after_lines xs (snd (frame_loop m rest [])))" for xs
      by (rule less.hyps) (simp add: p)
    show ?thesis
      using p IH [of "ls @ emitted raw"] IH [of "emitted raw"]
      by (simp add: frame_loop_line)
  qed (simp add: frame_loop_no_LF)
qed

lemma frame_loop_rest_bounded:
  "frame_loop m p ls = (p', Inr ls') \<Longrightarrow> LF \<notin> set p' \<and> utf8_bytes p' \<le> m"
proof (induction "length p" arbitrary: p ls rule: less_induct)
  case less
  show ?case
  proof (cases "LF \<in> set p")
    case True
    then obtain raw rest where p: "p = raw @ LF # rest" "LF \<notin> set raw" by (rule split_first_LF)
    with less.prems have "frame_loop m rest (ls @ emitted raw) = (p', Inr ls')"
      by (simp add: frame_loop_line split: if_splits)
    then show ?thesis using less.hyps [of rest] p by simp
  qed (use less.prems in \<open>auto simp: frame_loop_no_LF split: if_splits\<close>)
qed

text \<open>
  How a text is cut into chunks does not matter: the loop on \<open>p @ c\<close> is the loop on \<open>p\<close>
  followed by the loop on what it left and \<open>c\<close>, errors included.
\<close>

lemma frame_loop_too_long:
  assumes "LF \<notin> set p" "utf8_bytes p > m"
  shows "snd (frame_loop m (p @ c) []) = Inl LineTooLong"
proof (cases "LF \<in> set c")
  case True
  then obtain raw rest where c: "c = raw @ LF # rest" "LF \<notin> set raw" by (rule split_first_LF)
  have "utf8_bytes (p @ raw) > m" using utf8_bytes_prefix [of p raw] assms by linarith
  then show ?thesis using frame_loop_line [of "p @ raw" m rest "[]"] c assms by simp
next
  case False
  have "utf8_bytes (p @ c) > m" using utf8_bytes_prefix [of p c] assms by linarith
  then show ?thesis using frame_loop_no_LF [of "p @ c" m] False assms by simp
qed

lemma frame_loop_append:
  "snd (frame_loop m (p @ c) []) =
     (case snd (frame_loop m p []) of
        Inl e \<Rightarrow> Inl e
      | Inr ls \<Rightarrow> after_lines ls (snd (frame_loop m (fst (frame_loop m p []) @ c) [])))"
proof (induction "length p" arbitrary: p rule: less_induct)
  case less
  show ?case
  proof (cases "LF \<in> set p")
    case True
    then obtain raw rest where p: "p = raw @ LF # rest" "LF \<notin> set raw" by (rule split_first_LF)
    show ?thesis
    proof (cases "utf8_bytes raw > m")
      case False
      have "snd (frame_loop m (p @ c) []) =
          after_lines (emitted raw) (snd (frame_loop m (rest @ c) []))"
        using p False frame_loop_acc [of m "rest @ c" "emitted raw"] by (simp add: frame_loop_line)
      moreover have "frame_loop m p [] =
          (fst (frame_loop m rest []), after_lines (emitted raw) (snd (frame_loop m rest [])))"
        using p False frame_loop_acc [of m rest "emitted raw"] by (simp add: frame_loop_line)
      moreover note less [of rest]
      ultimately show ?thesis using p
        by (cases "snd (frame_loop m rest [])") simp_all
    qed (use p in \<open>simp add: frame_loop_line\<close>)
  next
    case False
    then show ?thesis
      by (cases "utf8_bytes p > m")
        (simp_all add: frame_loop_no_LF frame_loop_too_long)
  qed
qed

lemma framer_run_concat:
  "cs \<noteq> [] \<Longrightarrow> (case snd (framer_push m p (concat cs)) of
     Inl e \<Rightarrow> snd (snd (framer_run m p cs)) | Inr ls \<Rightarrow> snd (framer_run m p cs) = (ls, False))"
proof (induction cs arbitrary: p)
  case (Cons c cs)
  obtain q r where qr: "frame_loop m (p @ c) [] = (q, r)" by fastforce
  show ?case
  proof (cases cs)
    case Nil
    with qr show ?thesis by (auto simp: framer_push_def split: sum.splits)
  next
    case (Cons c' cs')
    have "snd (framer_push m p (concat (c # cs))) =
      (case r of Inl e \<Rightarrow> Inl e
         | Inr ls \<Rightarrow> after_lines ls (snd (framer_push m q (concat cs))))"
      using frame_loop_append [of m "p @ c" "concat cs"]
      by (cases r) (simp_all add: framer_push_def qr)
    moreover have "case snd (framer_push m q (concat cs)) of
        Inl e \<Rightarrow> snd (snd (framer_run m q cs)) | Inr ls \<Rightarrow> snd (framer_run m q cs) = (ls, False)"
      using Cons.IH Cons by simp
    ultimately show ?thesis
      by (cases r; cases "snd (framer_push m q (concat cs))") (auto simp: framer_push_def qr split: prod.splits)
  qed
qed simp







section \<open>Frames survive the wire\<close>

text \<open>What the server and the client write: one line of text, then a line feed.\<close>

definition frame_ok :: "nat \<Rightarrow> ustr \<Rightarrow> bool" where
  "frame_ok m f \<longleftrightarrow> f \<noteq> [] \<and> LF \<notin> set f \<and> last f \<noteq> CR \<and> utf8_bytes f \<le> m"

definition encode_frames :: "ustr list \<Rightarrow> ustr" where
  "encode_frames fs = concat (map (\<lambda>f. f @ [LF]) fs)"

lemma frame_loop_encoded:
  "list_all (frame_ok m) fs \<Longrightarrow> frame_loop m (encode_frames fs) ls = ([], Inr (ls @ fs))"
proof (induction fs arbitrary: ls)
  case Nil
  then show ?case by (simp add: encode_frames_def frame_loop_no_LF)
next
  case (Cons f fs)
  then have "emitted f = [f]" "LF \<notin> set f" "utf8_bytes f \<le> m"
    by (auto simp: frame_ok_def strip_cr_def emitted_def)
  with Cons show ?case
    using frame_loop_line [of f m "encode_frames fs" ls] by (simp add: encode_frames_def)
qed

section \<open>Properties\<close>



text \<open>
  C35. Frames that fit survive the wire: written one per line and cut into any chunks, they are
  read back unchanged and in order.
\<close>

theorem frames_round_trip:
  assumes "list_all (frame_ok m) fs" "cs \<noteq> []" "concat cs = encode_frames fs"
  shows "snd (framer_run m [] cs) = (fs, False)"
  using framer_run_concat [OF assms(2), of m "[]"] frame_loop_encoded [OF assms(1), of "[]"] assms(3)
  by (simp add: framer_push_def)

theorem frames_round_trip_witness:
  "snd (framer_run 8 [] [[97, 98], [10, 99, 10]]) = ([[97, 98], [99]], False)"
  by (rule frames_round_trip) (simp_all add: frame_ok_def encode_frames_def utf8_unit_def)

end
