(* ===== verification/Backend_Readiness.thy ===== *)
theory Backend_Readiness imports Prelude begin

text \<open>
  The readiness wait of the Excubitor backend: how the supervisor chooses the timeout
  (\<open>src/local-control/backend-readiness-timeout.ts\<close>), how it decides to wait, extend or give up
  (\<open>backend-readiness-decision.ts\<close>), and the polling loop \<open>waitForHealth\<close> of
  \<open>excubitor-backend.ts\<close>. What the clock, the child process and the HTTP probe answer at each
  round of the loop is an observation, so a run of the loop is a function of the observations.
\<close>

section \<open>The timeout\<close>

datatype timeout_source = FromEnv | FromConfig | FromDefault

text \<open>Why a source was passed over: its value is unusable, or the config store was unreadable.\<close>

datatype ignored_detail = NotAnIntegerInRange jsval | StoreUnreadable string

record ignored_timeout =
  ig_source :: timeout_source
  ig_detail :: ignored_detail

record timeout_resolution =
  res_value :: int
  res_source :: timeout_source
  res_ignored :: "ignored_timeout list"

definition default_timeout_ms :: int where "default_timeout_ms = 90000"
definition min_timeout_ms :: int where "min_timeout_ms = 10000"
definition max_timeout_ms :: int where "max_timeout_ms = 600000"
definition max_safe_integer :: int where "max_safe_integer = 9007199254740991"

text \<open>
  The value of a string of digits is exact below the largest safe integer, and above it the
  code rejects the rounded number as well.
\<close>

definition parse_timeout_ms :: "jsval \<Rightarrow> int option" where
  "parse_timeout_ms raw =
     (let value = (case raw of
          JInt n \<Rightarrow> Some n
        | JStr s \<Rightarrow>
            (let t = js_trim s in
             if t \<noteq> [] \<and> list_all is_digit t then Some (int (digits_value t)) else None)
        | _ \<Rightarrow> None)
      in case value of
           None \<Rightarrow> None
         | Some v \<Rightarrow>
             if \<not> (\<bar>v\<bar> \<le> max_safe_integer) then None
             else if min_timeout_ms \<le> v \<and> v \<le> max_timeout_ms then Some v else None)"

definition resolve_readiness_timeout :: "string option \<Rightarrow> jsval \<Rightarrow> timeout_resolution" where
  "resolve_readiness_timeout env configured =
     (let envRaw = (case env of None \<Rightarrow> [] | Some e \<Rightarrow> js_trim e);
          fromEnv = (if envRaw = [] then None else parse_timeout_ms (JStr envRaw));
          ignored1 = (if envRaw \<noteq> [] \<and> fromEnv = None
                      then [\<lparr>ig_source = FromEnv, ig_detail = NotAnIntegerInRange (JStr envRaw)\<rparr>]
                      else [])
      in case fromEnv of
           Some v \<Rightarrow> \<lparr>res_value = v, res_source = FromEnv, res_ignored = []\<rparr>
         | None \<Rightarrow>
             if configured = JNull \<or> configured = JUndef
             then \<lparr>res_value = default_timeout_ms, res_source = FromDefault, res_ignored = ignored1\<rparr>
             else (case parse_timeout_ms configured of
                     Some v \<Rightarrow> \<lparr>res_value = v, res_source = FromConfig, res_ignored = ignored1\<rparr>
                   | None \<Rightarrow>
                       \<lparr>res_value = default_timeout_ms, res_source = FromDefault,
                        res_ignored = ignored1 @
                          [\<lparr>ig_source = FromConfig, ig_detail = NotAnIntegerInRange configured\<rparr>]\<rparr>))"

text \<open>Reading the config store may throw; the value then counts as unset.\<close>

definition load_readiness_timeout :: "string option \<Rightarrow> string + jsval \<Rightarrow> timeout_resolution" where
  "load_readiness_timeout env readConfigured =
     (case readConfigured of
        Inr configured \<Rightarrow> resolve_readiness_timeout env configured
      | Inl message \<Rightarrow>
          (let resolution = resolve_readiness_timeout env JNull
           in resolution\<lparr>res_ignored := res_ignored resolution @
                [\<lparr>ig_source = FromConfig, ig_detail = StoreUnreadable message\<rparr>]\<rparr>))"

definition timeout_in_range :: "int \<Rightarrow> bool" where
  "timeout_in_range v \<longleftrightarrow> min_timeout_ms \<le> v \<and> v \<le> max_timeout_ms"

lemma parse_timeout_ms_range: "parse_timeout_ms raw = Some v \<Longrightarrow> timeout_in_range v"
  by (auto simp: parse_timeout_ms_def timeout_in_range_def Let_def split: option.splits if_splits)

lemma resolve_timeout_range: "timeout_in_range (res_value (resolve_readiness_timeout env configured))"
  by (auto simp: resolve_readiness_timeout_def Let_def timeout_in_range_def default_timeout_ms_def
      min_timeout_ms_def max_timeout_ms_def split: option.splits
      dest!: parse_timeout_ms_range)

lemma load_timeout_range: "timeout_in_range (res_value (load_readiness_timeout env conf))"
  by (cases conf) (simp_all add: load_readiness_timeout_def Let_def resolve_timeout_range)

section \<open>The decision\<close>

datatype readiness_decision = DWait | DExtend | DExited | DTimeout

record decision_input =
  elapsedMs :: ms
  timeoutMs :: ms
  processAlive :: bool
  extended :: bool

definition readinessDecision :: "decision_input \<Rightarrow> readiness_decision" where
  "readinessDecision i =
     (if \<not> processAlive i then DExited
      else let deadlineMs = (if extended i then timeoutMs i * 2 else timeoutMs i)
           in if elapsedMs i < deadlineMs then DWait
              else if extended i then DTimeout else DExtend)"

section \<open>The polling loop\<close>

text \<open>What one round sees: the clock, whether the child is still ours and alive, the answer.\<close>

datatype health_answer =
    HealthJson (h_pid: jsval) (h_token: jsval)
  | HttpStatus nat
  | FetchFailed string

datatype wait_reason = NoResponseYet | IdentityMismatch | BadStatus nat | FetchError string

record wait_obs =
  ob_elapsed :: ms
  ob_alive :: bool
  ob_token :: "string option"
  ob_answer :: health_answer

datatype wait_result =
    WaitReady
  | WaitExited wait_reason
  | WaitTimedOut ms wait_reason
  | WaitPending bool wait_reason

text \<open>The one event the loop reports while it runs.\<close>

datatype wait_event = Extended (ev_pid: "pid option") (ev_timeout: ms) (ev_reason: wait_reason)

definition answer_matches :: "pid option \<Rightarrow> string option \<Rightarrow> health_answer \<Rightarrow> bool" where
  "answer_matches childPid token a =
     (case a of HealthJson p t \<Rightarrow> js_eq_pid p childPid \<and> js_eq_token t token | _ \<Rightarrow> False)"

definition answer_reason :: "health_answer \<Rightarrow> wait_reason" where
  "answer_reason a = (case a of HealthJson _ _ \<Rightarrow> IdentityMismatch
                               | HttpStatus s \<Rightarrow> BadStatus s
                               | FetchFailed m \<Rightarrow> FetchError m)"

text \<open>One pass through the body of \<open>while (true)\<close> per observation; \<open>WaitPending\<close> when they run out.\<close>

fun wait_loop :: "ms \<Rightarrow> pid option \<Rightarrow> bool \<Rightarrow> wait_reason \<Rightarrow> wait_obs list \<Rightarrow> wait_event list \<times> wait_result" where
  "wait_loop timeout childPid ext lastError [] = ([], WaitPending ext lastError)"
| "wait_loop timeout childPid ext lastError (ob # obs) =
     (let decision = readinessDecision
            \<lparr>elapsedMs = ob_elapsed ob, timeoutMs = timeout, processAlive = ob_alive ob, extended = ext\<rparr>
      in case decision of
           DExited \<Rightarrow> ([], WaitExited lastError)
         | DTimeout \<Rightarrow> ([], WaitTimedOut (timeout * 2) lastError)
         | _ \<Rightarrow>
             (let ext' = (ext \<or> decision = DExtend);
                  ev = (if decision = DExtend then [Extended childPid timeout lastError] else []);
                  rest = (if answer_matches childPid (ob_token ob) (ob_answer ob) then ([], WaitReady)
                          else wait_loop timeout childPid ext' (answer_reason (ob_answer ob)) obs)
              in (ev @ fst rest, snd rest)))"

text \<open>\<open>waitForHealth\<close>: an unusable port is an error before the first round (\<open>None\<close>).\<close>

definition waitForHealth ::
  "int option \<Rightarrow> ms \<Rightarrow> pid option \<Rightarrow> wait_obs list \<Rightarrow> (wait_event list \<times> wait_result) option" where
  "waitForHealth rawPort timeout childPid obs =
     (case rawPort of
        None \<Rightarrow> None
      | Some p \<Rightarrow> if p \<le> 0 \<or> p > 65535 then None
                   else Some (wait_loop timeout childPid False NoResponseYet obs))"

lemma wait_loop_timed_out:
  assumes "snd (wait_loop timeout childPid ext err obs) = WaitTimedOut d r"
  shows "d = 2 * timeout \<and> (\<exists>ob \<in> set obs. ob_alive ob \<and> 2 * timeout \<le> ob_elapsed ob)"
  using assms
proof (induction timeout childPid ext err obs rule: wait_loop.induct)
  case (2 timeout childPid ext err ob obs)
  show ?case
  proof (cases "readinessDecision \<lparr>elapsedMs = ob_elapsed ob, timeoutMs = timeout,
                   processAlive = ob_alive ob, extended = ext\<rparr>")
    case DTimeout
    then have "ob_alive ob" and "2 * timeout \<le> ob_elapsed ob"
      by (auto simp: readinessDecision_def Let_def split: if_splits)
    with DTimeout "2.prems" show ?thesis by auto
  qed (use 2 in \<open>auto simp: Let_def split: if_splits\<close>)
qed simp

lemma wait_loop_ready:
  assumes "snd (wait_loop timeout childPid ext err obs) = WaitReady"
  shows "\<exists>ob \<in> set obs. ob_alive ob \<and> answer_matches childPid (ob_token ob) (ob_answer ob)"
  using assms
proof (induction timeout childPid ext err obs rule: wait_loop.induct)
  case (2 timeout childPid ext err ob obs)
  show ?case
  proof (cases "readinessDecision \<lparr>elapsedMs = ob_elapsed ob, timeoutMs = timeout,
                   processAlive = ob_alive ob, extended = ext\<rparr>")
    case DWait
    then have "ob_alive ob" by (auto simp: readinessDecision_def split: if_splits)
    with 2 DWait show ?thesis by (auto simp: Let_def split: if_splits)
  next
    case DExtend
    then have "ob_alive ob" by (auto simp: readinessDecision_def split: if_splits)
    with 2 DExtend show ?thesis by (auto simp: Let_def split: if_splits)
  qed (use 2 in \<open>auto simp: Let_def\<close>)
qed simp

lemma wait_loop_extends_once:
  "length (fst (wait_loop timeout childPid ext err obs)) \<le> (if ext then 0 else 1)"
proof (induction timeout childPid ext err obs rule: wait_loop.induct)
  case (2 timeout childPid ext err ob obs)
  then show ?case
    by (auto simp: Let_def readinessDecision_def split: readiness_decision.splits if_splits)
qed simp

text \<open>Once two rounds have seen the clock at or past the second deadline, the loop has returned.\<close>

lemma wait_loop_extended_returns:
  assumes "\<exists>ob \<in> set obs. 2 * timeout \<le> ob_elapsed ob"
  shows "\<not> (\<exists>e r. snd (wait_loop timeout childPid True err obs) = WaitPending e r)"
  using assms
proof (induction obs arbitrary: err)
  case (Cons ob obs)
  then show ?case
    by (auto simp: Let_def readinessDecision_def split: readiness_decision.splits if_splits)
qed simp

lemma wait_loop_returns:
  assumes "0 \<le> timeout" "obs = xs @ ob1 # ob2 # ys"
    and "2 * timeout \<le> ob_elapsed ob1" "2 * timeout \<le> ob_elapsed ob2"
  shows "\<not> (\<exists>e r. snd (wait_loop timeout childPid ext err obs) = WaitPending e r)"
  using assms
proof (induction xs arbitrary: obs ext err)
  case Nil
  have "timeout \<le> ob_elapsed ob1" using Nil by linarith
  with Nil show ?case
    by (auto simp: Let_def readinessDecision_def wait_loop_extended_returns
        split: readiness_decision.splits if_splits)
next
  case (Cons x xs)
  then show ?case
    by (auto simp: Let_def readinessDecision_def split: readiness_decision.splits if_splits)
qed

section \<open>Properties\<close>

text \<open>
  Whatever the environment variable and the configuration file hold, unreadable included, the
  readiness timeout in force is between ten seconds and ten minutes.
\<close>

theorem readiness_timeout_bounded:
  "timeout_in_range (res_value (load_readiness_timeout env conf))"
  by (rule load_timeout_range)

text \<open>
  The verdict of the health poll is justified by what it saw: ready only after an answer of a
  live child with the expected pid and instance token, timed out only while the child is alive
  and twice the timeout has passed; and the deadline is extended at most once.
\<close>

theorem health_wait_verdict:
  assumes "waitForHealth port timeout childPid obs = Some (events, verdict)"
  shows "length events \<le> 1
    \<and> (verdict = WaitReady \<longrightarrow>
         (\<exists>ob \<in> set obs. ob_alive ob \<and> answer_matches childPid (ob_token ob) (ob_answer ob)))
    \<and> (\<forall>d r. verdict = WaitTimedOut d r \<longrightarrow>
         d = 2 * timeout \<and> (\<exists>ob \<in> set obs. ob_alive ob \<and> 2 * timeout \<le> ob_elapsed ob))"
proof -
  have ev: "events = fst (wait_loop timeout childPid False NoResponseYet obs)"
    and v: "verdict = snd (wait_loop timeout childPid False NoResponseYet obs)"
    using assms by (auto simp: waitForHealth_def split: option.splits if_splits)
  show ?thesis unfolding ev v
    using wait_loop_extends_once [of timeout childPid False NoResponseYet obs]
      wait_loop_ready [of timeout childPid False NoResponseYet obs]
      wait_loop_timed_out [of timeout childPid False NoResponseYet obs]
    by auto
qed

theorem health_wait_verdict_witness:
  "\<exists>ob \<in> set [\<lparr>ob_elapsed = 0, ob_alive = True, ob_token = Some ''t'', ob_answer = HealthJson (JInt 7) (JStr ''t'')\<rparr>].
     ob_alive ob \<and> answer_matches (Some 7) (ob_token ob) (ob_answer ob)"
  using health_wait_verdict [of "Some 17332" 90000 "Some 7"
      "[\<lparr>ob_elapsed = 0, ob_alive = True, ob_token = Some ''t'', ob_answer = HealthJson (JInt 7) (JStr ''t'')\<rparr>]"
      "[]" WaitReady]
  by (simp add: waitForHealth_def readinessDecision_def answer_matches_def js_eq_pid_def js_eq_token_def)

text \<open>
  The poll ends: once two rounds have looked at a clock at or past twice the timeout, a
  verdict has been given.
\<close>

theorem health_wait_ends:
  assumes "0 \<le> timeout" "obs = xs @ ob1 # ob2 # ys"
    and "2 * timeout \<le> ob_elapsed ob1" "2 * timeout \<le> ob_elapsed ob2"
  shows "\<nexists>events ext reason. waitForHealth port timeout childPid obs = Some (events, WaitPending ext reason)"
  using wait_loop_returns [OF assms, of childPid False NoResponseYet]
  by (auto simp: waitForHealth_def split: option.splits if_splits)

theorem health_wait_ends_witness:
  "\<nexists>events ext reason. waitForHealth (Some 17332) 10 (Some 7)
     [\<lparr>ob_elapsed = 20, ob_alive = True, ob_token = None, ob_answer = HttpStatus 500\<rparr>,
      \<lparr>ob_elapsed = 21, ob_alive = True, ob_token = None, ob_answer = HttpStatus 500\<rparr>]
     = Some (events, WaitPending ext reason)"
  using health_wait_ends [of 10 _ "[]"
      "\<lparr>ob_elapsed = 20, ob_alive = True, ob_token = None, ob_answer = HttpStatus 500\<rparr>"
      "\<lparr>ob_elapsed = 21, ob_alive = True, ob_token = None, ob_answer = HttpStatus 500\<rparr>"
      "[]" "Some 17332" "Some 7"]
  by simp

end
