(* ===== verification/Async.thy ===== *)
theory Async imports Main begin

text \<open>
  Asynchronous TypeScript functions as programs. A program runs synchronously on the state of its
  object until it awaits something; every continuation is started later with the answer, on the
  state the object has then, so what other handlers did in between is visible. A synchronous
  stretch reads the outside world (clock, process table, random values) as one snapshot \<open>'o\<close>.
  Errors are values: a program returns \<open>Inl\<close> the thrown error or \<open>Inr\<close> its result.

  The second half is a logic for the safety of such programs under interference: an invariant,
  assertions that other handlers keep, and a guarantee every stretch of code satisfies.
\<close>

section \<open>Programs\<close>

datatype ('s, 'o, 'q, 'a, 'e, 'r) prog =
    Return "'e + 'r"
  | Await 'q "'a \<Rightarrow> 'o \<Rightarrow> 's \<Rightarrow> 's \<times> ('s, 'o, 'q, 'a, 'e, 'r) prog"

type_synonym ('s, 'o, 'q, 'a, 'e, 'r) async =
  "'o \<Rightarrow> 's \<Rightarrow> 's \<times> ('s, 'o, 'q, 'a, 'e, 'r) prog"

primrec after :: "('s, 'o, 'q, 'a, 'e, 'r) prog \<Rightarrow> ('e + 'r \<Rightarrow> ('s, 'o, 'q, 'a, 'f, 't) async)
    \<Rightarrow> ('s, 'o, 'q, 'a, 'f, 't) async" where
  "after (Return r) f = f r"
| "after (Await q k) f = (\<lambda>_ s. (s, Await q (\<lambda>a o' s'.
     (\<lambda>(t, g). g o' t) (map_prod id (\<lambda>p. after p f) (k a o' s')))))"

lemma after_Await [simp]:
  "after (Await q k) f o1 s = (s, Await q (\<lambda>a o' s'. after (snd (k a o' s')) f o' (fst (k a o' s'))))"
  by (simp add: fun_eq_iff split_beta)

declare after.simps(2) [simp del]

definition attempt :: "('s, 'o, 'q, 'a, 'e, 'r) async \<Rightarrow> ('e + 'r \<Rightarrow> ('s, 'o, 'q, 'a, 'f, 't) async)
    \<Rightarrow> ('s, 'o, 'q, 'a, 'f, 't) async" where
  "attempt m f o' s = after (snd (m o' s)) f o' (fst (m o' s))"

definition ret :: "'r \<Rightarrow> ('s, 'o, 'q, 'a, 'e, 'r) async" where
  "ret x o' s = (s, Return (Inr x))"

definition throw :: "'e \<Rightarrow> ('s, 'o, 'q, 'a, 'e, 'r) async" where
  "throw e o' s = (s, Return (Inl e))"

definition result :: "'e + 'r \<Rightarrow> ('s, 'o, 'q, 'a, 'e, 'r) async" where
  "result r o' s = (s, Return r)"

text \<open>Sequence, and \<open>try\<close> with its \<open>catch\<close>.\<close>

definition bind :: "('s, 'o, 'q, 'a, 'e, 'r) async \<Rightarrow> ('r \<Rightarrow> ('s, 'o, 'q, 'a, 'e, 't) async)
    \<Rightarrow> ('s, 'o, 'q, 'a, 'e, 't) async" where
  "bind m f = attempt m (\<lambda>r. case r of Inl e \<Rightarrow> throw e | Inr x \<Rightarrow> f x)"

definition try_catch :: "('s, 'o, 'q, 'a, 'e, 'r) async \<Rightarrow> ('e \<Rightarrow> ('s, 'o, 'q, 'a, 'f, 'r) async)
    \<Rightarrow> ('s, 'o, 'q, 'a, 'f, 'r) async" where
  "try_catch m h = attempt m (\<lambda>r. case r of Inl e \<Rightarrow> h e | Inr x \<Rightarrow> ret x)"

definition await :: "'q \<Rightarrow> ('s, 'o, 'q, 'a, 'e, 'a) async" where
  "await q o' s = (s, Await q (\<lambda>a _ s'. (s', Return (Inr a))))"

text \<open>Reading the state and the snapshot of the world, and changing the state.\<close>

definition look :: "('o \<Rightarrow> 's \<Rightarrow> ('s, 'o, 'q, 'a, 'e, 'r) async) \<Rightarrow> ('s, 'o, 'q, 'a, 'e, 'r) async" where
  "look f o' s = f o' s o' s"

definition modify :: "('s \<Rightarrow> 's) \<Rightarrow> ('s, 'o, 'q, 'a, 'e, unit) async" where
  "modify f o' s = (f s, Return (Inr ()))"

definition andThen :: "('s, 'o, 'q, 'a, 'e, 'x) async \<Rightarrow> ('s, 'o, 'q, 'a, 'e, 'r) async
    \<Rightarrow> ('s, 'o, 'q, 'a, 'e, 'r) async" where
  "andThen m n = bind m (\<lambda>_. n)"

text \<open>
  Awaiting the call of another async function: the caller goes on in a later turn of the event
  loop, after other handlers that were ready.
\<close>

definition call :: "'q \<Rightarrow> ('s, 'o, 'q, 'a, 'e, 'r) async \<Rightarrow> ('s, 'o, 'q, 'a, 'e, 'r) async" where
  "call turn m = attempt m (\<lambda>r. attempt (await turn) (\<lambda>_ :: 'e + 'a. result r))"

text \<open>
  The states and waiting programs a run of \<open>m\<close> reaches: a resumption gets an answer that \<open>fits\<close>, and
  before it other handlers change the state as \<open>rely\<close> says. \<open>answering\<close> runs it on given answers.
\<close>

inductive reaches :: "('s \<Rightarrow> 's \<Rightarrow> bool) \<Rightarrow> ('q \<Rightarrow> 'a \<Rightarrow> 's \<Rightarrow> bool) \<Rightarrow> ('s \<Rightarrow> bool) \<Rightarrow> ('s, 'o, 'q, 'a, 'e, 'r) async
    \<Rightarrow> 's \<Rightarrow> ('s, 'o, 'q, 'a, 'e, 'r) prog \<Rightarrow> bool" for others fits initial m where
  starts: "initial s0 \<Longrightarrow> m w s0 = (s, p) \<Longrightarrow> reaches others fits initial m s p"
| resumes: "reaches others fits initial m s (Await q k) \<Longrightarrow> fits q a s \<Longrightarrow> k a w s = (s', p)
    \<Longrightarrow> reaches others fits initial m s' p"
| interferes: "reaches others fits initial m s p \<Longrightarrow> others s s' \<Longrightarrow> reaches others fits initial m s' p"

fun answering :: "'a list \<Rightarrow> 'o \<Rightarrow> 's \<times> ('s, 'o, 'q, 'a, 'e, 'r) prog \<Rightarrow> 's \<times> ('s, 'o, 'q, 'a, 'e, 'r) prog" where
  "answering (a # as) w (s, Await q k) = answering as w (k a w s)"
| "answering as w (s, p) = (s, p)"

lemma reaches_answering:
  assumes "reaches others (\<lambda>_ _ _. True) initial m (fst sp) (snd sp)"
  shows "reaches others (\<lambda>_ _ _. True) initial m (fst (answering as w sp)) (snd (answering as w sp))"
  using assms
proof (induction as w sp rule: answering.induct)
  case (1 a as w s q k)
  from 1(2) have "reaches others (\<lambda>_ _ _. True) initial m s (Await q k)" by simp
  from reaches.resumes [OF this TrueI] have "reaches others (\<lambda>_ _ _. True) initial m (fst (k a w s)) (snd (k a w s))"
    by (metis prod.collapse)
  then show ?case using 1(1) by simp
qed simp_all

lemma reaches_run:
  "initial s0 \<Longrightarrow> reaches others (\<lambda>_ _ _. True) initial m (fst (answering as w (m w s0))) (snd (answering as w (m w s0)))"
  by (rule reaches_answering) (rule reaches.starts, assumption, simp)

text \<open>
  A server: handlers start at any time, run concurrently and go on in any order; between their
  stretches the environment changes the state.
\<close>

inductive serves :: "('s \<Rightarrow> 's \<Rightarrow> bool) \<Rightarrow> ('q \<Rightarrow> 'a \<Rightarrow> 's \<Rightarrow> bool) \<Rightarrow> ('s \<Rightarrow> bool) \<Rightarrow> ('s, 'o, 'q, 'a, 'e, 'r) async set
    \<Rightarrow> 's \<Rightarrow> ('s, 'o, 'q, 'a, 'e, 'r) prog list \<Rightarrow> bool" for env fits initial handlers where
  idle: "initial s \<Longrightarrow> serves env fits initial handlers s []"
| arrives: "serves env fits initial handlers s ts \<Longrightarrow> m \<in> handlers \<Longrightarrow> m w s = (s', p)
    \<Longrightarrow> serves env fits initial handlers s' (ts @ [p])"
| goes_on: "serves env fits initial handlers s ts \<Longrightarrow> i < length ts \<Longrightarrow> ts ! i = Await q k \<Longrightarrow> fits q a s
    \<Longrightarrow> k a w s = (s', p) \<Longrightarrow> serves env fits initial handlers s' (ts[i := p])"
| changes: "serves env fits initial handlers s ts \<Longrightarrow> env s s' \<Longrightarrow> serves env fits initial handlers s' ts"

lemma serves_answering:
  assumes "serves env (\<lambda>_ _ _. True) initial handlers (fst sp) (ts @ [snd sp])"
  shows "serves env (\<lambda>_ _ _. True) initial handlers (fst (answering as w sp)) (ts @ [snd (answering as w sp)])"
  using assms
proof (induction as w sp rule: answering.induct)
  case (1 a as w s q k)
  obtain s' p where step: "k a w s = (s', p)" by fastforce
  have "serves env (\<lambda>_ _ _. True) initial handlers s (ts @ [Await q k])" using 1(2) by simp
  from serves.goes_on [OF this, of "length ts" q k a w s' p] step
  have "serves env (\<lambda>_ _ _. True) initial handlers s' (ts @ [p])" by simp
  then show ?case using 1(1) step by simp
qed simp_all

lemma serves_run:
  assumes "serves env (\<lambda>_ _ _. True) initial handlers s ts" "m \<in> handlers"
  shows "\<exists>ts'. serves env (\<lambda>_ _ _. True) initial handlers (fst (answering as w (m w s))) ts'"
proof -
  obtain s' p where step: "m w s = (s', p)" by fastforce
  from serves.arrives [OF assms step] have "serves env (\<lambda>_ _ _. True) initial handlers (fst (m w s)) (ts @ [snd (m w s)])"
    by (simp add: step)
  from serves_answering [OF this] show ?thesis by (rule exI)
qed

text \<open>A postcondition for the result and one for a thrown error.\<close>

definition on_result :: "('r \<Rightarrow> 's \<Rightarrow> bool) \<Rightarrow> ('s \<Rightarrow> bool) \<Rightarrow> 'e + 'r \<Rightarrow> 's \<Rightarrow> bool" where
  "on_result Q E r s = (case r of Inl _ \<Rightarrow> E s | Inr x \<Rightarrow> Q x s)"

lemma on_result_simps [simp]: "on_result Q E (Inl e) = E" "on_result Q E (Inr x) = Q x"
  by (simp_all add: on_result_def fun_eq_iff)

section \<open>Safety under interference\<close>

text \<open>
  \<open>inv\<close> holds whenever a handler may run, \<open>rely\<close> relates the states between which other handlers
  ran, \<open>guar\<close> is what every stretch of the program itself does, \<open>fits\<close> says which answers a query
  can get in a state, and \<open>allowed\<close> in which state a query may be issued.
\<close>

locale async_safety =
  fixes inv :: "'s \<Rightarrow> bool"
    and rely :: "'s \<Rightarrow> 's \<Rightarrow> bool"
    and guar :: "'s \<Rightarrow> 's \<Rightarrow> bool"
    and fits :: "'q \<Rightarrow> 'a \<Rightarrow> 's \<Rightarrow> bool"
    and allowed :: "'q \<Rightarrow> 's \<Rightarrow> bool"
  assumes guar_refl: "guar s s"
    and guar_trans: "guar s t \<Longrightarrow> guar t u \<Longrightarrow> guar s u"
begin

definition stable :: "('s \<Rightarrow> bool) \<Rightarrow> bool" where
  "stable L \<longleftrightarrow> (\<forall>s s'. inv s \<longrightarrow> L s \<longrightarrow> rely s s' \<longrightarrow> L s')"

text \<open>
  A waiting program is safe: its query may be issued, and from every state that the stable
  assertion \<open>L\<close> and the invariant describe, the next stretch keeps the invariant.
\<close>

inductive safe :: "('e + 'r \<Rightarrow> 's \<Rightarrow> bool) \<Rightarrow> ('s \<Rightarrow> bool) \<Rightarrow> ('s, 'o, 'q, 'a, 'e, 'r) prog \<Rightarrow> bool"
  for Q where
  Return: "(\<And>s. L s \<Longrightarrow> Q r s) \<Longrightarrow> safe Q L (Return r)"
| Await: "stable L \<Longrightarrow> (\<And>s. inv s \<Longrightarrow> L s \<Longrightarrow> allowed q s) \<Longrightarrow>
    (\<And>a o' s. inv s \<Longrightarrow> L s \<Longrightarrow> fits q a s \<Longrightarrow>
       inv (fst (k a o' s)) \<and> guar s (fst (k a o' s))
       \<and> (\<exists>L'. L' (fst (k a o' s)) \<and> safe Q L' (snd (k a o' s))))
    \<Longrightarrow> safe Q L (Await q k)"

inductive_cases safe_AwaitE: "safe Q L (Await q k)"
inductive_cases safe_ReturnE: "safe Q L (Return r)"

text \<open>A stretch of code from a state: it keeps invariant and guarantee and leaves a safe program.\<close>

definition good :: "('e + 'r \<Rightarrow> 's \<Rightarrow> bool) \<Rightarrow> 's \<Rightarrow> 's \<times> ('s, 'o, 'q, 'a, 'e, 'r) prog \<Rightarrow> bool" where
  "good Q s sp \<longleftrightarrow> inv (fst sp) \<and> guar s (fst sp) \<and> (\<exists>L. L (fst sp) \<and> safe Q L (snd sp))"

lemma safe_AwaitI:
  "stable L \<Longrightarrow> (\<And>s. inv s \<Longrightarrow> L s \<Longrightarrow> allowed q s) \<Longrightarrow>
   (\<And>a o' s. inv s \<Longrightarrow> L s \<Longrightarrow> fits q a s \<Longrightarrow> good Q s (k a o' s)) \<Longrightarrow> safe Q L (Await q k)"
  by (rule safe.Await) (auto simp: good_def)

lemma safe_AwaitD:
  assumes "safe Q L (Await q k)"
  shows "stable L" "inv s \<Longrightarrow> L s \<Longrightarrow> allowed q s"
    "inv s \<Longrightarrow> L s \<Longrightarrow> fits q a s \<Longrightarrow> good Q s (k a o' s)"
  using assms by (auto elim!: safe_AwaitE simp: good_def)

definition triple :: "('s \<Rightarrow> bool) \<Rightarrow> ('s, 'o, 'q, 'a, 'e, 'r) async \<Rightarrow> ('e + 'r \<Rightarrow> 's \<Rightarrow> bool) \<Rightarrow> bool"
where
  "triple P m Q \<longleftrightarrow> (\<forall>o' s. inv s \<longrightarrow> P s \<longrightarrow> good Q s (m o' s))"

lemma tripleI: "(\<And>o' s. inv s \<Longrightarrow> P s \<Longrightarrow> good Q s (m o' s)) \<Longrightarrow> triple P m Q"
  by (simp add: triple_def)

lemma tripleD: "triple P m Q \<Longrightarrow> inv s \<Longrightarrow> P s \<Longrightarrow> good Q s (m o' s)"
  by (simp add: triple_def)

lemma good_guar: "guar s t \<Longrightarrow> good Q t sp \<Longrightarrow> good Q s sp"
  by (auto simp: good_def intro: guar_trans)

lemma good_Return [simp]: "good Q s (t, Return r) \<longleftrightarrow> inv t \<and> guar s t \<and> Q r t"
  by (auto simp: good_def elim!: safe_ReturnE intro: safe.Return exI [of _ "\<lambda>u. u = t"])

lemma triple_pre: "triple P' m Q \<Longrightarrow> (\<And>s. inv s \<Longrightarrow> P s \<Longrightarrow> P' s) \<Longrightarrow> triple P m Q"
  by (simp add: triple_def)

lemma safe_post:
  assumes "safe Q L p" and weaker: "\<And>r s. Q r s \<Longrightarrow> Q' r s"
  shows "safe Q' L p"
  using assms(1)
proof (induction rule: safe.induct)
  case (Return L r)
  then show ?case by (intro safe.Return weaker)
next
  case (Await L q k)
  show ?case
  proof (rule safe_AwaitI)
    show "stable L" by fact
    show "allowed q s" if "inv s" "L s" for s by (rule Await.hyps(2) [OF that])
    fix a o' s assume "inv s" "L s" "fits q a s"
    from Await.IH [OF this, of o'] show "good Q' s (k a o' s)" unfolding good_def by blast
  qed
qed

lemma triple_post:
  assumes m: "triple P m Q" and w: "\<And>r s. Q r s \<Longrightarrow> Q' r s"
  shows "triple P m Q'"
proof (rule tripleI)
  fix o' s assume t: "inv s" "P s"
  from tripleD [OF m t] obtain L where
    "inv (fst (m o' s))" "guar s (fst (m o' s))" "L (fst (m o' s))" "safe Q L (snd (m o' s))"
    by (auto simp: good_def)
  moreover from this(4) have "safe Q' L (snd (m o' s))" by (rule safe_post) (rule w)
  ultimately show "good Q' s (m o' s)" by (auto simp: good_def)
qed

text \<open>Sequencing: what the first program ensures is what the continuation may assume.\<close>

lemma safe_after:
  assumes "safe Q L p" "\<And>r. triple (Q r) (f r) R" "inv s" "L s"
  shows "good R s (after p f o' s)"
  using assms(1,3,4)
proof (induction arbitrary: s o' rule: safe.induct)
  case (Return L r)
  then show ?case using tripleD [OF assms(2), of s r o'] by simp
next
  case (Await L q k)
  have "safe R L (Await q (\<lambda>a o' s'. after (snd (k a o' s')) f o' (fst (k a o' s'))))"
  proof (rule safe_AwaitI)
    show "stable L" by fact
    show "allowed q s" if "inv s" "L s" for s by (rule Await.hyps(2) [OF that])
    fix a o' s assume "inv s" "L s" "fits q a s"
    from Await.IH [OF this, of o']
    show "good R s (after (snd (k a o' s)) f o' (fst (k a o' s)))"
      by (auto intro: good_guar)
  qed
  then show ?case using Await.prems guar_refl by (auto simp: good_def)
qed

lemma triple_attempt:
  assumes "triple P m Q" "\<And>r. triple (Q r) (f r) R"
  shows "triple P (attempt m f) R"
proof (rule tripleI)
  fix o' s assume "inv s" "P s"
  from tripleD [OF assms(1) this] obtain L where
    l: "inv (fst (m o' s))" "guar s (fst (m o' s))" "L (fst (m o' s))" "safe Q L (snd (m o' s))"
    by (auto simp: good_def)
  show "good R s (attempt m f o' s)"
    unfolding attempt_def using good_guar [OF l(2) safe_after [OF l(4) assms(2) l(1,3)]] .
qed

lemma triple_ret: "(\<And>s. inv s \<Longrightarrow> P s \<Longrightarrow> Q (Inr x) s) \<Longrightarrow> triple P (ret x) Q"
  by (rule tripleI) (simp add: ret_def guar_refl)

lemma triple_throw: "(\<And>s. inv s \<Longrightarrow> P s \<Longrightarrow> Q (Inl e) s) \<Longrightarrow> triple P (throw e) Q"
  by (rule tripleI) (simp add: throw_def guar_refl)

lemma triple_bind:
  assumes "triple P m Q" "\<And>x. triple (Q (Inr x)) (f x) R"
    and "\<And>e s. inv s \<Longrightarrow> Q (Inl e) s \<Longrightarrow> R (Inl e) s"
  shows "triple P (bind m f) R"
  unfolding bind_def
proof (rule triple_attempt [OF assms(1)])
  fix r show "triple (Q r) (case r of Inl e \<Rightarrow> throw e | Inr x \<Rightarrow> f x) R"
    using assms(2,3) by (cases r) (auto intro: triple_throw)
qed

lemma triple_try:
  assumes "triple P m Q" "\<And>e. triple (Q (Inl e)) (h e) R"
    and "\<And>x s. inv s \<Longrightarrow> Q (Inr x) s \<Longrightarrow> R (Inr x) s"
  shows "triple P (try_catch m h) R"
  unfolding try_catch_def
proof (rule triple_attempt [OF assms(1)])
  fix r show "triple (Q r) (case r of Inl e \<Rightarrow> h e | Inr x \<Rightarrow> ret x) R"
    using assms(2,3) by (cases r) (auto intro: triple_ret)
qed

lemma triple_andThen:
  "triple P m Q \<Longrightarrow> (\<And>x. triple (Q (Inr x)) n R) \<Longrightarrow>
   (\<And>e s. inv s \<Longrightarrow> Q (Inl e) s \<Longrightarrow> R (Inl e) s) \<Longrightarrow> triple P (andThen m n) R"
  unfolding andThen_def by (rule triple_bind)

lemma triple_modify:
  "(\<And>s. inv s \<Longrightarrow> P s \<Longrightarrow> inv (f s) \<and> guar s (f s) \<and> Q (Inr ()) (f s)) \<Longrightarrow> triple P (modify f) Q"
  by (rule tripleI) (simp add: modify_def)

lemma triple_look:
  "(\<And>o' s. triple (\<lambda>t. P t \<and> t = s) (f o' s) Q) \<Longrightarrow> triple P (look f) Q"
  by (rule tripleI) (simp add: look_def triple_def)

text \<open>Awaiting: only a stable assertion survives.\<close>

lemma triple_await:
  assumes "stable L" "\<And>s. inv s \<Longrightarrow> P s \<Longrightarrow> L s" "\<And>s. inv s \<Longrightarrow> L s \<Longrightarrow> allowed q s"
    and "\<And>a s. inv s \<Longrightarrow> L s \<Longrightarrow> fits q a s \<Longrightarrow> Q (Inr a) s"
  shows "triple P (await q) Q"
proof (rule tripleI)
  fix o' s assume s: "inv s" "P s"
  have "safe Q L (Await q (\<lambda>a _ s'. (s', Return (Inr a))))"
    using assms(1,3,4) by (intro safe_AwaitI) (simp_all add: guar_refl)
  then show "good Q s (await q o' s)"
    using s assms(2) guar_refl by (auto simp: await_def good_def)
qed

lemma triple_result: "(\<And>s. inv s \<Longrightarrow> P s \<Longrightarrow> Q r s) \<Longrightarrow> triple P (result r) Q"
  by (rule tripleI) (simp add: result_def guar_refl)

lemma triple_call:
  assumes "triple P m Q" "\<And>r. stable (Q r)" "\<And>s. inv s \<Longrightarrow> allowed turn s"
  shows "triple P (call turn m) Q"
  unfolding call_def
proof (rule triple_attempt [OF assms(1)])
  fix r show "triple (Q r) (attempt (await turn) (\<lambda>_ :: 'e + 'a. result r)) Q"
    by (rule triple_attempt [where Q = "\<lambda>_. Q r"])
      (rule triple_await [OF assms(2)], simp_all add: assms(3) triple_result)
qed

lemma triple_if:
  "(b \<Longrightarrow> triple P m Q) \<Longrightarrow> (\<not> b \<Longrightarrow> triple P n Q) \<Longrightarrow> triple P (if b then m else n) Q"
  by simp

lemma triple_case_option:
  "(x = None \<Longrightarrow> triple P m Q) \<Longrightarrow> (\<And>y. x = Some y \<Longrightarrow> triple P (n y) Q)
   \<Longrightarrow> triple P (case x of None \<Rightarrow> m | Some y \<Rightarrow> n y) Q"
  by (cases x) auto

text \<open>Sequencing with a postcondition for results and one for errors.\<close>

lemma seq_bind:
  "triple P m (on_result Q E) \<Longrightarrow> (\<And>x. triple (Q x) (f x) (on_result R E)) \<Longrightarrow> triple P (bind m f) (on_result R E)"
  by (rule triple_bind [where Q = "on_result Q E"]) simp_all

lemma seq_andThen:
  "triple P m (on_result (\<lambda>_. Q) E) \<Longrightarrow> triple Q n (on_result R E) \<Longrightarrow> triple P (andThen m n) (on_result R E)"
  by (rule triple_andThen [where Q = "on_result (\<lambda>_. Q) E"]) simp_all

lemma seq_ret: "(\<And>s. inv s \<Longrightarrow> P s \<Longrightarrow> Q x s) \<Longrightarrow> triple P (ret x) (on_result Q E)"
  by (rule triple_ret) simp

lemma seq_throw: "(\<And>s. inv s \<Longrightarrow> P s \<Longrightarrow> E s) \<Longrightarrow> triple P (throw e) (on_result Q E)"
  by (rule triple_throw) simp

lemma seq_modify:
  "(\<And>s. inv s \<Longrightarrow> P s \<Longrightarrow> inv (f s) \<and> guar s (f s) \<and> Q () (f s)) \<Longrightarrow> triple P (modify f) (on_result Q E)"
  by (rule triple_modify) simp

lemma seq_try:
  "triple P m (on_result Q E) \<Longrightarrow> (\<And>e. triple E (h e) (on_result Q F)) \<Longrightarrow> triple P (try_catch m h) (on_result Q F)"
  by (rule triple_try [where Q = "on_result Q E"]) simp_all

lemma seq_attempt:
  "triple P m (on_result Q E) \<Longrightarrow> (\<And>x. triple (Q x) (f (Inr x)) R) \<Longrightarrow> (\<And>e. triple E (f (Inl e)) R) \<Longrightarrow> triple P (attempt m f) R"
  by (rule triple_attempt [where Q = "on_result Q E"], assumption, case_tac r) simp_all

lemma seq_look: "(\<And>o' s. triple (\<lambda>t. P t \<and> t = s) (f o' s) Q) \<Longrightarrow> triple P (look f) Q"
  by (rule triple_look)

lemma seq_post:
  "triple P m (on_result Q E) \<Longrightarrow> (\<And>x s. Q x s \<Longrightarrow> Q' x s) \<Longrightarrow> (\<And>s. E s \<Longrightarrow> E' s) \<Longrightarrow> triple P m (on_result Q' E')"
  by (erule triple_post) (auto simp: on_result_def split: sum.splits)

text \<open>
  Programs that are safe from every state the invariant describes, with nothing to remember: the
  rules are syntax directed.
\<close>

definition ok :: "('s, 'o, 'q, 'a, 'e, 'r) async \<Rightarrow> bool" where
  "ok m \<longleftrightarrow> triple (\<lambda>_. True) m (\<lambda>_ _. True)"

lemma ok_triple: "ok m \<Longrightarrow> triple P m (\<lambda>_ _. True)"
  unfolding ok_def by (erule triple_pre) simp

lemma stable_True [simp]: "stable (\<lambda>_. True)"
  by (simp add: stable_def)

lemma ok_ret: "ok (ret x)"
  unfolding ok_def by (rule triple_ret) simp

lemma ok_throw: "ok (throw e)"
  unfolding ok_def by (rule triple_throw) simp

lemma ok_bind: "ok m \<Longrightarrow> (\<And>x. ok (f x)) \<Longrightarrow> ok (bind m f)"
  unfolding ok_def by (rule triple_bind)

lemma ok_andThen: "ok m \<Longrightarrow> ok n \<Longrightarrow> ok (andThen m n)"
  unfolding ok_def by (rule triple_andThen)

lemma ok_attempt: "ok m \<Longrightarrow> (\<And>r. ok (f r)) \<Longrightarrow> ok (attempt m f)"
  unfolding ok_def by (rule triple_attempt)

lemma ok_try: "ok m \<Longrightarrow> (\<And>e. ok (h e)) \<Longrightarrow> ok (try_catch m h)"
  unfolding ok_def by (rule triple_try)

lemma ok_look: "(\<And>o' s. ok (f o' s)) \<Longrightarrow> ok (look f)"
  unfolding ok_def by (rule triple_look) (blast intro: triple_pre)

lemma ok_modify: "(\<And>s. inv s \<Longrightarrow> inv (f s) \<and> guar s (f s)) \<Longrightarrow> ok (modify f)"
  unfolding ok_def by (rule triple_modify) simp

lemma ok_await: "(\<And>s. allowed q s) \<Longrightarrow> ok (await q)"
  unfolding ok_def by (rule triple_await [where L = "\<lambda>_. True"]) simp_all

lemma ok_call: "ok m \<Longrightarrow> (\<And>s. allowed turn s) \<Longrightarrow> ok (call turn m)"
  unfolding ok_def by (rule triple_call) simp_all

lemma ok_if: "(b \<Longrightarrow> ok m) \<Longrightarrow> (\<not> b \<Longrightarrow> ok n) \<Longrightarrow> ok (if b then m else n)"
  by simp

lemma ok_case_option: "ok m \<Longrightarrow> (\<And>y. x = Some y \<Longrightarrow> ok (n y)) \<Longrightarrow> ok (case x of None \<Rightarrow> m | Some y \<Rightarrow> n y)"
  by (cases x) auto

lemma ok_case_sum: "(\<And>e. ok (m e)) \<Longrightarrow> (\<And>y. ok (n y)) \<Longrightarrow> ok (case x of Inl e \<Rightarrow> m e | Inr y \<Rightarrow> n y)"
  by (cases x) auto

lemma ok_case_prod: "(\<And>a b. ok (f a b)) \<Longrightarrow> ok (case x of (a, b) \<Rightarrow> f a b)"
  by (cases x) auto

lemma ok_let: "ok (f x) \<Longrightarrow> ok (let y = x in f y)"
  by simp

lemmas ok_rules = ok_ret ok_throw ok_bind ok_andThen ok_attempt ok_try ok_look ok_await ok_call ok_if
  ok_case_option ok_case_sum ok_case_prod ok_let

text \<open>Programs that keep an assertion which other handlers keep as well.\<close>

definition keeps :: "('s \<Rightarrow> bool) \<Rightarrow> ('s, 'o, 'q, 'a, 'e, 'r) async \<Rightarrow> bool" where
  "keeps L m \<longleftrightarrow> triple L m (\<lambda>_. L)"

lemma keeps_triple: "keeps L m \<Longrightarrow> triple L m (\<lambda>_. L)"
  by (simp add: keeps_def)

lemma keeps_start:
  assumes "keeps L m" "\<And>s. inv s \<Longrightarrow> P s \<Longrightarrow> L s"
  shows "triple P m (\<lambda>_ _. True)"
proof (rule triple_pre)
  show "triple L m (\<lambda>_ _. True)" by (rule triple_post [OF assms(1) [unfolded keeps_def]]) simp
qed (rule assms(2))

lemma keeps_conseq:
  "keeps L m \<Longrightarrow> (\<And>s. inv s \<Longrightarrow> P s \<Longrightarrow> L s) \<Longrightarrow> (\<And>r s. L s \<Longrightarrow> Q r s) \<Longrightarrow> triple P m Q"
  unfolding keeps_def by (rule triple_pre [OF triple_post])

lemma keeps_ret: "keeps L (ret x)"
  unfolding keeps_def by (rule triple_ret)

lemma keeps_throw: "keeps L (throw e)"
  unfolding keeps_def by (rule triple_throw)

lemma keeps_result: "keeps L (result r)"
  unfolding keeps_def by (rule triple_result)

lemma keeps_bind: "keeps L m \<Longrightarrow> (\<And>x. keeps L (f x)) \<Longrightarrow> keeps L (bind m f)"
  unfolding keeps_def by (rule triple_bind)

lemma keeps_andThen: "keeps L m \<Longrightarrow> keeps L n \<Longrightarrow> keeps L (andThen m n)"
  unfolding keeps_def by (rule triple_andThen)

lemma keeps_attempt: "keeps L m \<Longrightarrow> (\<And>r. keeps L (f r)) \<Longrightarrow> keeps L (attempt m f)"
  unfolding keeps_def by (rule triple_attempt)

lemma keeps_look: "(\<And>o' s. keeps L (f o' s)) \<Longrightarrow> keeps L (look f)"
  unfolding keeps_def by (rule triple_look) (blast intro: triple_pre)

lemma keeps_look_at:
  assumes "\<And>o' s. inv s \<Longrightarrow> L s \<Longrightarrow> triple (\<lambda>t. L t \<and> t = s) (f o' s) (\<lambda>_. L)"
  shows "keeps L (look f)"
  unfolding keeps_def
proof (rule tripleI)
  fix o' s assume s: "inv s" "L s"
  from tripleD [OF assms [OF s] s(1)] s(2) show "good (\<lambda>_. L) s (look f o' s)" by (simp add: look_def)
qed

lemma keeps_modify: "(\<And>s. inv s \<Longrightarrow> L s \<Longrightarrow> inv (f s) \<and> guar s (f s) \<and> L (f s)) \<Longrightarrow> keeps L (modify f)"
  unfolding keeps_def by (rule triple_modify) simp

lemma keeps_await: "stable L \<Longrightarrow> (\<And>s. inv s \<Longrightarrow> L s \<Longrightarrow> allowed q s) \<Longrightarrow> keeps L (await q)"
  unfolding keeps_def by (rule triple_await [where L = L]) simp_all

lemma keeps_call: "keeps L m \<Longrightarrow> stable L \<Longrightarrow> (\<And>s. inv s \<Longrightarrow> allowed turn s) \<Longrightarrow> keeps L (call turn m)"
  unfolding keeps_def by (rule triple_call) simp_all

lemma keeps_if: "(b \<Longrightarrow> keeps L m) \<Longrightarrow> (\<not> b \<Longrightarrow> keeps L n) \<Longrightarrow> keeps L (if b then m else n)"
  by simp

lemma keeps_case_option: "keeps L m \<Longrightarrow> (\<And>y. x = Some y \<Longrightarrow> keeps L (n y)) \<Longrightarrow> keeps L (case x of None \<Rightarrow> m | Some y \<Rightarrow> n y)"
  by (cases x) auto

lemma keeps_case_sum: "(\<And>e. keeps L (m e)) \<Longrightarrow> (\<And>y. keeps L (n y)) \<Longrightarrow> keeps L (case x of Inl e \<Rightarrow> m e | Inr y \<Rightarrow> n y)"
  by (cases x) auto

lemma keeps_case_prod: "(\<And>a b. keeps L (f a b)) \<Longrightarrow> keeps L (case x of (a, b) \<Rightarrow> f a b)"
  by (cases x) auto

lemma keeps_let: "keeps L (f x) \<Longrightarrow> keeps L (let y = x in f y)"
  by simp

lemmas keeps_rules = keeps_ret keeps_throw keeps_result keeps_bind keeps_andThen keeps_attempt keeps_look
  keeps_await keeps_call keeps_if keeps_case_option keeps_case_sum keeps_case_prod keeps_let

text \<open>A safe program stays safe while other handlers run, and goes on safely when answered.\<close>

definition waiting :: "'s \<Rightarrow> ('s, 'o, 'q, 'a, 'e, 'r) prog \<Rightarrow> bool" where
  "waiting s p \<longleftrightarrow> (\<exists>L. L s \<and> safe (\<lambda>_ _. True) L p)"

lemma waiting_rely:
  assumes "waiting s p" "inv s" "rely s s'"
  shows "waiting s' p"
proof (cases p)
  case (Return r)
  then show ?thesis by (auto simp: waiting_def intro!: exI [of _ "\<lambda>_. True"] safe.Return)
next
  case (Await q k)
  then obtain L where L: "L s" and safe: "safe (\<lambda>_ _. True) L (Await q k)"
    using assms(1) by (auto simp: waiting_def)
  have "stable L" using safe by (rule safe_AwaitD)
  then have "L s'" using L assms(2,3) by (simp add: stable_def)
  with safe Await show ?thesis by (auto simp: waiting_def)
qed

lemma waiting_resume:
  assumes "waiting s (Await q k)" "inv s" "fits q a s" "k a w s = (s', p)"
  shows "inv s' \<and> guar s s' \<and> waiting s' p"
proof -
  obtain L where L: "L s" and safe: "safe (\<lambda>_ _. True) L (Await q k)"
    using assms(1) by (auto simp: waiting_def)
  have "good (\<lambda>_ _. True) s (k a w s)" by (rule safe_AwaitD(3) [OF safe assms(2) L assms(3)])
  then show ?thesis using assms(4) by (auto simp: good_def waiting_def)
qed

lemma waiting_allowed:
  assumes "waiting s (Await q k)" "inv s"
  shows "allowed q s"
proof -
  obtain L where L: "L s" and safe: "safe (\<lambda>_ _. True) L (Await q k)"
    using assms(1) by (auto simp: waiting_def)
  show ?thesis by (rule safe_AwaitD(2) [OF safe assms(2) L])
qed

lemma waiting_start:
  assumes "triple P m (\<lambda>_ _. True)" "inv s" "P s" "m w s = (s', p)"
  shows "inv s' \<and> guar s s' \<and> waiting s' p"
  using tripleD [OF assms(1-3), of w] assms(4) by (auto simp: good_def waiting_def)

lemma reaches_waiting:
  assumes run: "reaches others fits initial m s p" and m: "triple P m (\<lambda>_ _. True)"
    and start: "\<And>s. initial s \<Longrightarrow> inv s \<and> P s"
    and others: "\<And>s s'. inv s \<Longrightarrow> others s s' \<Longrightarrow> inv s' \<and> rely s s'"
  shows "inv s \<and> waiting s p"
  using run
proof (induction rule: reaches.induct)
  case (starts s0 w s p)
  then have "inv s0" "P s0" using start by blast+
  then show ?case using waiting_start [OF m _ _ starts(2)] by blast
next
  case (resumes s q k a w s' p)
  then have "waiting s (Await q k)" "inv s" by blast+
  from waiting_resume [OF this resumes(2,3)] show ?case by blast
next
  case (interferes s p s')
  then show ?case using others waiting_rely by blast
qed

lemma reaches_guar:
  assumes "reaches others fits initial m s (Await q k)" "triple P m (\<lambda>_ _. True)"
    "\<And>s. initial s \<Longrightarrow> inv s \<and> P s" "\<And>s s'. inv s \<Longrightarrow> others s s' \<Longrightarrow> inv s' \<and> rely s s'" "fits q a s"
  shows "guar s (fst (k a w s))"
proof -
  obtain s' p where step: "k a w s = (s', p)" by fastforce
  have "waiting s (Await q k)" "inv s" using reaches_waiting [OF assms(1-4)] by blast+
  from waiting_resume [OF this assms(5) step] step show ?thesis by simp
qed

text \<open>A run without interference: what is proved of the result holds where it returns.\<close>

lemma reaches_safe:
  assumes run: "reaches (\<lambda>_ _. False) fits initial m s p" and m: "triple P m Q"
    and start: "\<And>s. initial s \<Longrightarrow> inv s \<and> P s"
  shows "inv s \<and> (\<exists>L. L s \<and> safe Q L p)"
  using run
proof (induction rule: reaches.induct)
  case (starts s0 w s p)
  then have "inv s0" "P s0" using start by blast+
  from tripleD [OF m this, of w] show ?case by (simp add: starts(2) good_def)
next
  case (resumes s q k a w s' p)
  then obtain L where L: "L s" and safe: "safe Q L (Await q k)" and "inv s" by blast
  have "good Q s (k a w s)" by (rule safe_AwaitD(3) [OF safe \<open>inv s\<close> L resumes(2)])
  then show ?case by (simp add: resumes(3) good_def)
qed simp

lemma reaches_allowed:
  assumes "reaches (\<lambda>_ _. False) fits initial m s (Await q k)" "triple P m Q" "\<And>s. initial s \<Longrightarrow> inv s \<and> P s"
  shows "allowed q s"
  using reaches_safe [OF assms] safe_AwaitD(2) by blast

lemma reaches_result:
  assumes "reaches (\<lambda>_ _. False) fits initial m s (Return r)" "triple P m Q" "\<And>s. initial s \<Longrightarrow> inv s \<and> P s"
  shows "Q r s"
  using reaches_safe [OF assms] by (auto elim: safe_ReturnE)

lemma serves_safe:
  assumes run: "serves env fits initial handlers s ts" and m: "\<And>m. m \<in> handlers \<Longrightarrow> ok m"
    and start: "\<And>s. initial s \<Longrightarrow> inv s" and env: "\<And>s s'. inv s \<Longrightarrow> env s s' \<Longrightarrow> inv s' \<and> rely s s'"
    and others: "\<And>s s'. guar s s' \<Longrightarrow> rely s s'"
  shows "inv s \<and> (\<forall>p \<in> set ts. waiting s p)"
  using run
proof (induction rule: serves.induct)
  case (idle s)
  then show ?case using start by simp
next
  case (arrives s ts m w s' p)
  have new: "inv s' \<and> guar s s' \<and> waiting s' p"
    using waiting_start [OF m [OF arrives(2), unfolded ok_def] _ TrueI arrives(3)] arrives.IH by blast
  then have "waiting s' u" if "u \<in> set ts" for u
    using waiting_rely [of s u s'] arrives.IH others that by blast
  then show ?case using new by auto
next
  case (goes_on s ts i q k a w s' p)
  have "inv s" "waiting s (Await q k)" using goes_on.IH goes_on(2,3) by (metis nth_mem)+
  then have new: "inv s' \<and> guar s s' \<and> waiting s' p"
    using waiting_resume [of s q k a w s' p, OF _ _ goes_on(4,5)] by blast
  then have "waiting s' u" if "u \<in> set ts" for u
    using waiting_rely [of s u s'] goes_on.IH others that by blast
  then show ?case using new set_update_subset_insert [of ts i p] by blast
next
  case (changes s ts s')
  then show ?case using env [of s s'] waiting_rely by blast
qed

end

end
