(* ===== verification/Backend.thy ===== *)
theory Backend imports Protocol Async begin

text \<open>
  The controller of the Excubitor backend process (\<open>ExcubitorBackendController\<close> in
  \<open>src/local-control/excubitor-backend.ts\<close>): it spawns the backend or adopts one that survived a
  supervisor restart, watches its health, restarts it after a crash with a growing delay, and
  stops it. Lifecycle operations are serialised by a queue; health checks, exit events and timers
  interleave with them at every await. Handlers are asynchronous programs over the controller's
  fields; the text of an error message is replaced by a constructor with its arguments.
\<close>

section \<open>State\<close>

datatype backend_error =
    EnvError string
  | PersistedUnverified pid
  | StoppedUnverified pid
  | RefuseReplace "pid option"
  | RefuseStop pid
  | PreviousAlive
  | PortServed jsval
  | ReservationFailed backend_error
  | ExitedEarly
  | KillError
  | CleanupFailed backend_error backend_error
  | SignalFailed "pid option"
  | ForceFailed "pid option"
  | ExitTimeout ms
  | HealthFailed nat
  | AdoptedFailed pid nat
  | CleanupAfter "backend_error option" backend_error
  | NullError

record backend_status =
  bs_state :: backend_state
  bs_desired_state :: desired_state
  bs_pid :: "pid option"
  bs_restart_count :: nat
  bs_last_exit_code :: "int option"
  bs_last_signal :: "string option"
  bs_last_error :: "backend_error option"
  bs_instance_token :: "string option"
  bs_last_startup_ms :: "ms option"

record backend_options =
  opt_spawn_given :: bool
  opt_restart_base :: ms
  opt_restart_max :: ms
  opt_stop_timeout :: ms
  opt_force_timeout :: ms
  opt_adopted_threshold :: nat
  opt_health_threshold :: nat

definition default_options :: backend_options where
  "default_options = \<lparr>opt_spawn_given = False, opt_restart_base = 1000, opt_restart_max = 30000,
     opt_stop_timeout = 10000, opt_force_timeout = 2000, opt_adopted_threshold = 3,
     opt_health_threshold = 3\<rparr>"

text \<open>The lifecycle operations that wait in the queue.\<close>

datatype lifecycle_op =
    OpRecover "backend_status option"
  | OpStart
  | OpTimerStart
  | OpStop
  | OpRestart
  | OpPreserve
  | OpUnhealthy nat string nat nat
  | OpStopAdopted pid string nat

text \<open>A child process is the position at which it was spawned.\<close>

record child_proc =
  cp_pid :: "pid option"
  cp_exited :: bool

record backend =
  be_options :: backend_options
  be_child :: "nat option"
  be_adopted_pid :: "pid option"
  be_adopted_monitor :: "nat option"
  be_adopted_failures :: nat
  be_owned_monitor :: "(nat \<times> string \<times> nat) option"
  be_owned_failures :: nat
  be_token :: "string option"
  be_state :: backend_state
  be_desired :: desired_state
  be_restart_count :: nat
  be_last_exit_code :: "int option"
  be_last_signal :: "string option"
  be_last_error :: "backend_error option"
  be_last_startup :: "ms option"
  be_restart_timer :: "ms option"
  be_generation :: nat
  be_preserving :: bool
  be_lifecycle :: "lifecycle_op list"
  be_procs :: "child_proc list"
  be_verified :: "(pid \<times> string) set"
  be_lost :: "nat set"

text \<open>
  Two ghosts: \<open>be_verified\<close> has the pids a health answer has identified, with the token, and \<open>be_lost\<close>
  the children let go because the operating system refused to signal them.
\<close>

definition new_backend :: "backend_options \<Rightarrow> backend" where
  "new_backend options =
     \<lparr>be_options = options, be_child = None, be_adopted_pid = None, be_adopted_monitor = None,
      be_adopted_failures = 0, be_owned_monitor = None, be_owned_failures = 0, be_token = None,
      be_state = BStopped, be_desired = DesiredStopped, be_restart_count = 0, be_last_exit_code = None,
      be_last_signal = None, be_last_error = None, be_last_startup = None, be_restart_timer = None,
      be_generation = 0, be_preserving = False, be_lifecycle = [], be_procs = [], be_verified = {}, be_lost = {}\<rparr>"

definition child_pid :: "backend \<Rightarrow> nat \<Rightarrow> pid option" where
  "child_pid s c = (if c < length (be_procs s) then cp_pid (be_procs s ! c) else None)"

definition exited :: "backend \<Rightarrow> nat \<Rightarrow> bool" where
  "exited s c \<longleftrightarrow> \<not> (c < length (be_procs s) \<and> \<not> cp_exited (be_procs s ! c))"

definition status :: "backend \<Rightarrow> backend_status" where
  "status s =
     \<lparr>bs_state = be_state s, bs_desired_state = be_desired s,
      bs_pid = (case (case be_child s of None \<Rightarrow> None | Some c \<Rightarrow> child_pid s c) of
                  Some p \<Rightarrow> Some p | None \<Rightarrow> be_adopted_pid s),
      bs_restart_count = be_restart_count s, bs_last_exit_code = be_last_exit_code s,
      bs_last_signal = be_last_signal s, bs_last_error = be_last_error s,
      bs_instance_token = be_token s, bs_last_startup_ms = be_last_startup s\<rparr>"

text \<open>JavaScript truth of a pid and of a token.\<close>

definition truthy_pid :: "pid option \<Rightarrow> pid option" where
  "truthy_pid p = (case p of Some 0 \<Rightarrow> None | _ \<Rightarrow> p)"

definition truthy_token :: "string option \<Rightarrow> string option" where
  "truthy_token t = (case t of Some [] \<Rightarrow> None | _ \<Rightarrow> t)"

section \<open>Synchronous methods\<close>

definition cancelRestart :: "backend \<Rightarrow> backend" where
  "cancelRestart s = s\<lparr>be_restart_timer := None\<rparr>"

definition cancelOwnedMonitor :: "backend \<Rightarrow> backend" where
  "cancelOwnedMonitor s =
     s\<lparr>be_owned_monitor := None, be_owned_failures := 0, be_generation := be_generation s + 1\<rparr>"

definition cancelAdoptedMonitor :: "backend \<Rightarrow> backend" where
  "cancelAdoptedMonitor s = s\<lparr>be_adopted_monitor := None, be_generation := be_generation s + 1\<rparr>"

definition clearAdopted :: "backend \<Rightarrow> backend" where
  "clearAdopted s =
     (cancelAdoptedMonitor s)\<lparr>be_adopted_pid := None, be_token := None, be_adopted_failures := 0\<rparr>"

definition startAdoptedMonitor :: "backend \<Rightarrow> backend" where
  "startAdoptedMonitor s =
     (let s1 = (cancelAdoptedMonitor s)\<lparr>be_adopted_failures := 0\<rparr>;
          generation = be_generation s1 + 1
      in s1\<lparr>be_generation := generation, be_adopted_monitor := Some generation\<rparr>)"

definition startOwnedMonitor :: "nat \<Rightarrow> string \<Rightarrow> backend \<Rightarrow> backend" where
  "startOwnedMonitor child token s =
     (let s1 = (cancelOwnedMonitor s)\<lparr>be_owned_failures := 0\<rparr>;
          generation = be_generation s1 + 1
      in s1\<lparr>be_generation := generation, be_owned_monitor := Some (child, token, generation)\<rparr>)"

definition restart_delay :: "backend_options \<Rightarrow> nat \<Rightarrow> ms" where
  "restart_delay options count =
     min (opt_restart_max options) (opt_restart_base options * 2 ^ (count - 1))"

definition scheduleRestart :: "backend \<Rightarrow> backend" where
  "scheduleRestart s =
     (if be_preserving s \<or> be_desired s \<noteq> DesiredRunning \<or> be_restart_timer s \<noteq> None then s
      else s\<lparr>be_restart_timer := Some (restart_delay (be_options s) (be_restart_count s))\<rparr>)"

definition handleSpawnError :: "nat \<Rightarrow> backend_error \<Rightarrow> backend \<Rightarrow> backend" where
  "handleSpawnError child err s =
     (if be_child s \<noteq> Some child then s
      else scheduleRestart ((cancelOwnedMonitor s)
             \<lparr>be_child := None, be_token := None, be_state := BCrashed,
              be_restart_count := be_restart_count s + 1, be_last_error := Some err\<rparr>))"

definition handleExit :: "nat \<Rightarrow> int option \<Rightarrow> string option \<Rightarrow> backend \<Rightarrow> backend" where
  "handleExit child exitCode signal s =
     (if be_child s \<noteq> Some child then s
      else
        let s1 = (cancelOwnedMonitor s)\<lparr>be_child := None, be_token := None,
                    be_last_exit_code := exitCode, be_last_signal := signal\<rparr>;
            s2 = (if be_desired s1 = DesiredRunning
                  then s1\<lparr>be_state := BCrashed, be_restart_count := be_restart_count s1 + 1\<rparr>
                  else s1\<lparr>be_state := BStopped\<rparr>)
        in scheduleRestart s2)"

lemmas sync_defs [state_defs] = cancelRestart_def cancelOwnedMonitor_def cancelAdoptedMonitor_def
  clearAdopted_def startAdoptedMonitor_def startOwnedMonitor_def scheduleRestart_def
  handleSpawnError_def handleExit_def

section \<open>What is awaited\<close>

datatype query =
    Persist backend_status
  | Probe
  | WaitIdentity "pid option" string
  | TerminateAdopted pid
  | WaitSpawn nat
  | WaitReady nat
  | WaitExit nat ms
  | WaitLifecycle
  | Turn

datatype answer =
    Written "backend_error option"
  | Health "(jsval \<times> jsval) option"
  | Identity "pid option"
  | Terminated "backend_error option"
  | Spawned "backend_error option"
  | BecameReady "backend_error option"
  | Exited bool
  | Turned

text \<open>
  What a synchronous stretch reads from the world. \<open>ChildProcess.kill\<close> sends the signal, or answers false because
  there is no such process, or emits an \<open>error\<close> event before it answers false (for \<open>EPERM\<close>).
\<close>

datatype kill_result = KillSent | KillGone | KillRefused

record os =
  os_alive :: "pid \<Rightarrow> bool"
  os_uuid :: string
  os_spawn :: "backend_error + pid option"
  os_sigterm :: kill_result
  os_sigkill :: kill_result
  os_now :: ms

type_synonym 'r act = "(backend, os, query, answer, backend_error, 'r) async"
type_synonym 'r running = "(backend, os, query, answer, backend_error, 'r) prog"

definition emitStatus :: "unit act" where
  "emitStatus = look (\<lambda>_ s. bind (await (Persist (status s)))
     (\<lambda>a. case a of Written (Some e) \<Rightarrow> throw e | _ \<Rightarrow> ret ()))"

definition return_status :: "backend_status act" where
  "return_status = look (\<lambda>_ s. ret (status s))"

definition throw_last_error :: "'r act" where
  "throw_last_error = look (\<lambda>_ s. throw (case be_last_error s of Some e \<Rightarrow> e | None \<Rightarrow> NullError))"

definition readHealthIdentity :: "(jsval \<times> jsval) option act" where
  "readHealthIdentity = bind (await Probe) (\<lambda>a. case a of Health h \<Rightarrow> ret h | _ \<Rightarrow> ret None)"

text \<open>\<open>matchesHealthIdentity\<close>, noting the verified identity.\<close>

definition matchesHealthIdentity :: "pid \<Rightarrow> string \<Rightarrow> bool act" where
  "matchesHealthIdentity p token = bind (call Turn readHealthIdentity)
     (\<lambda>health. if health = Some (JInt (int p), JStr token)
               then andThen (modify (\<lambda>s. s\<lparr>be_verified := insert (p, token) (be_verified s)\<rparr>)) (ret True)
               else ret False)"

text \<open>
  One round of \<open>waitForPersistedIdentity\<close> sees the health answer, the process table and whether
  the deadline has passed; \<open>None\<close> while it still polls.
\<close>

record identity_obs =
  io_health :: "(jsval \<times> jsval) option"
  io_alive :: "pid \<Rightarrow> bool"
  io_late :: bool

fun persisted_identity :: "pid option \<Rightarrow> string \<Rightarrow> identity_obs list \<Rightarrow> pid option option" where
  "persisted_identity expected token [] = None"
| "persisted_identity expected token (ob # obs) =
     (let healthPid = (case io_health ob of None \<Rightarrow> None | Some (p, _) \<Rightarrow> positive_integer p);
          tokenMatches = (case io_health ob of None \<Rightarrow> False | Some (_, t) \<Rightarrow> t = JStr token)
      in if healthPid \<noteq> None \<and> tokenMatches
            \<and> (expected = None \<or> healthPid = expected) \<and> io_alive ob (the healthPid)
         then Some healthPid
         else if expected \<noteq> None \<and> \<not> io_alive ob (the expected) then Some None
         else if io_late ob then Some None
         else persisted_identity expected token obs)"

definition waitForPersistedIdentity :: "pid option \<Rightarrow> string \<Rightarrow> pid option act" where
  "waitForPersistedIdentity expected token = bind (await (WaitIdentity expected token))
     (\<lambda>a. case a of
        Identity (Some p) \<Rightarrow>
          andThen (modify (\<lambda>s. s\<lparr>be_verified := insert (p, token) (be_verified s)\<rparr>)) (ret (Some p))
      | _ \<Rightarrow> ret None)"

text \<open>The listener of the event is the one for failed spawns: a child that lives is dropped like one that never started.\<close>

definition kill_refused :: "nat \<Rightarrow> backend \<Rightarrow> backend" where
  "kill_refused c s = handleSpawnError c KillError (if be_child s = Some c then s\<lparr>be_lost := insert c (be_lost s)\<rparr> else s)"

definition kill_event :: "nat \<Rightarrow> kill_result \<Rightarrow> unit act" where
  "kill_event c r = (if r = KillRefused then modify (kill_refused c) else ret ())"

definition terminateChild :: "nat \<Rightarrow> unit act" where
  "terminateChild c = look (\<lambda>o1 s.
     if exited s c then ret ()
     else andThen (kill_event c (os_sigterm o1))
       (if os_sigterm o1 \<noteq> KillSent then throw (SignalFailed (child_pid s c))
        else bind (await (WaitExit c (opt_stop_timeout (be_options s)))) (\<lambda>a.
          if a = Exited True then ret ()
          else look (\<lambda>o2 s2. andThen (kill_event c (os_sigkill o2))
            (if os_sigkill o2 \<noteq> KillSent \<and> \<not> exited s2 c then throw (ForceFailed (child_pid s2 c))
             else bind (await (WaitExit c (opt_force_timeout (be_options s2)))) (\<lambda>b.
               if b = Exited True then ret () else throw (ExitTimeout (opt_force_timeout (be_options s2)))))))))"

end
