(* ===== verification/Backend_Lifecycle.thy ===== *)
theory Backend_Lifecycle imports Backend begin

text \<open>
  The lifecycle operations and health checks of the backend controller
  (\<open>src/local-control/excubitor-backend.ts\<close>) as programs, and the machine that runs them: one
  lifecycle operation at a time from the queue, at most one check of each monitor, and between
  any two awaits exit events, timers and calls from outside.
\<close>

section \<open>Adoption and recovery\<close>

definition acceptAdoptedIdentity :: "pid \<Rightarrow> string \<Rightarrow> backend_status \<Rightarrow> unit act" where
  "acceptAdoptedIdentity p token previous =
     andThen (modify (\<lambda>s. s\<lparr>be_child := None, be_adopted_pid := Some p, be_token := Some token,
        be_desired := DesiredRunning, be_state := BRunning, be_restart_count := bs_restart_count previous,
        be_last_startup := (if bs_state previous = BRunning then bs_last_startup_ms previous else None),
        be_last_error := None\<rparr>))
     (andThen emitStatus (modify startAdoptedMonitor))"

definition adoptInternal :: "backend_status option \<Rightarrow> bool act" where
  "adoptInternal previous =
     (case previous of
        None \<Rightarrow> ret False
      | Some prev \<Rightarrow>
          (case (truthy_pid (bs_pid prev), truthy_token (bs_instance_token prev)) of
             (Some p, Some token) \<Rightarrow>
               look (\<lambda>o1 s. if \<not> os_alive o1 p then ret False
                 else bind (call Turn (matchesHealthIdentity p token)) (\<lambda>matches.
                   if \<not> matches then ret False
                   else andThen (call Turn (acceptAdoptedIdentity p token prev)) (ret True)))
           | _ \<Rightarrow> ret False))"

text \<open>The persisted backend is alive but unverified: keep it, watch it, refuse to replace it.\<close>

definition keep_unverified :: "(backend \<Rightarrow> backend) \<Rightarrow> 'r act" where
  "keep_unverified change =
     andThen (modify change) (andThen emitStatus (andThen (modify startAdoptedMonitor) throw_last_error))"

definition recoverPersistedRunning :: "backend_status \<Rightarrow> bool act" where
  "recoverPersistedRunning previous =
     (case truthy_token (bs_instance_token previous) of
        None \<Rightarrow> ret False
      | Some token \<Rightarrow>
          (let expected = bs_pid previous in
           look (\<lambda>o1 _. 
             let candidateAlive = (case expected of None \<Rightarrow> False | Some p \<Rightarrow> os_alive o1 p)
             in if \<not> candidateAlive \<and> \<not> (bs_state previous = BStarting \<and> expected = None) then ret False
                else bind (call Turn (waitForPersistedIdentity expected token)) (\<lambda>recovered.
                  case recovered of
                    Some p \<Rightarrow> andThen (call Turn (acceptAdoptedIdentity p token previous)) (ret True)
                  | None \<Rightarrow> look (\<lambda>o2 _. case expected of
                      Some p \<Rightarrow> if os_alive o2 p
                        then keep_unverified (\<lambda>s. s\<lparr>be_adopted_pid := Some p, be_token := Some token,
                               be_desired := DesiredRunning, be_state := BCrashed,
                               be_restart_count := bs_restart_count previous,
                               be_last_error := Some (PersistedUnverified p)\<rparr>)
                        else andThen (modify (\<lambda>s. s\<lparr>be_token := None\<rparr>)) (ret False)
                    | None \<Rightarrow> andThen (modify (\<lambda>s. s\<lparr>be_token := None\<rparr>)) (ret False))))))"

text \<open>A failed termination leaves the error, persists it and rethrows.\<close>

definition crash_and_throw :: "backend_error \<Rightarrow> 'r act" where
  "crash_and_throw e =
     andThen (modify (\<lambda>s. s\<lparr>be_state := BCrashed, be_last_error := Some e\<rparr>)) (andThen emitStatus (throw e))"

definition terminateAdopted :: "pid \<Rightarrow> unit act" where
  "terminateAdopted p = bind (await (TerminateAdopted p))
     (\<lambda>a. case a of Terminated (Some e) \<Rightarrow> throw e | _ \<Rightarrow> ret ())"

definition finish_stopped :: "backend_status act" where
  "finish_stopped =
     andThen (modify (\<lambda>s. s\<lparr>be_state := BStopped, be_token := None\<rparr>)) (andThen emitStatus return_status)"

definition recoverStopped :: "backend_status \<Rightarrow> backend_status act" where
  "recoverStopped previous =
     andThen (modify (\<lambda>s. (clearAdopted (cancelOwnedMonitor (cancelRestart (s\<lparr>be_desired := DesiredStopped\<rparr>))))
        \<lparr>be_restart_count := bs_restart_count previous, be_last_exit_code := bs_last_exit_code previous,
         be_last_signal := bs_last_signal previous, be_last_error := bs_last_error previous,
         be_last_startup := bs_last_startup_ms previous\<rparr>))
     (case (truthy_pid (bs_pid previous), truthy_token (bs_instance_token previous)) of
        (Some p, Some token) \<Rightarrow>
          look (\<lambda>o1 _. if \<not> os_alive o1 p then finish_stopped
            else bind (call Turn (waitForPersistedIdentity (Some p) token)) (\<lambda>recovered.
              look (\<lambda>o2 _. case recovered of
                None \<Rightarrow> if os_alive o2 p
                  then keep_unverified (\<lambda>s. s\<lparr>be_adopted_pid := Some p, be_token := Some token,
                         be_state := BCrashed, be_last_error := Some (StoppedUnverified p)\<rparr>)
                  else finish_stopped
              | Some q \<Rightarrow>
                  andThen (modify (\<lambda>s. s\<lparr>be_adopted_pid := Some q, be_token := Some token, be_state := BStopping\<rparr>))
                  (andThen emitStatus
                  (andThen (try_catch (terminateAdopted q) crash_and_throw)
                  (andThen (modify clearAdopted) finish_stopped))))))
      | _ \<Rightarrow> finish_stopped)"

section \<open>Start\<close>

definition reservation_failed :: "backend_error \<Rightarrow> 'r act" where
  "reservation_failed e =
     andThen (modify (\<lambda>s. scheduleRestart (s\<lparr>be_state := BCrashed,
        be_restart_count := be_restart_count s + 1, be_last_error := Some (ReservationFailed e),
        be_token := None\<rparr>))) (throw e)"

definition spawn_failed :: "backend_error \<Rightarrow> 'r act" where
  "spawn_failed e =
     andThen (modify (\<lambda>s. scheduleRestart (s\<lparr>be_state := BCrashed,
        be_restart_count := be_restart_count s + 1, be_last_error := Some e, be_token := None\<rparr>))) (throw e)"

definition await_ready :: "nat \<Rightarrow> string \<Rightarrow> ms \<Rightarrow> backend_status act" where
  "await_ready c token spawnedAt = look (\<lambda>_ s0.
     andThen (if child_pid s0 c = None
              then bind (await (WaitSpawn c)) (\<lambda>a. case a of Spawned (Some e) \<Rightarrow> throw e | _ \<Rightarrow> ret ())
              else ret ())
     (andThen emitStatus
     (andThen (bind (await (WaitReady c)) (\<lambda>a. case a of BecameReady (Some e) \<Rightarrow> throw e | _ \<Rightarrow> ret ()))
     (look (\<lambda>o1 s. if be_child s \<noteq> Some c then throw ExitedEarly
        else andThen (modify (\<lambda>s. startOwnedMonitor c token (s\<lparr>be_state := BRunning, be_restart_count := 0,
               be_last_error := None, be_last_startup := Some (max 0 (os_now o1 - spawnedAt))\<rparr>)))
             (andThen emitStatus return_status))))))"

definition not_ready :: "nat \<Rightarrow> backend_error \<Rightarrow> 'r act" where
  "not_ready c e = andThen (modify (\<lambda>s. s\<lparr>be_last_error := Some e\<rparr>))
     (look (\<lambda>_ s. if be_child s = Some c
        then attempt (call Turn (terminateChild c)) (\<lambda>r. case r of
               Inr _ \<Rightarrow> throw e
             | Inl te \<Rightarrow> andThen (modify (\<lambda>s. scheduleRestart (s\<lparr>be_state := BCrashed,
                            be_last_error := Some (CleanupFailed e te)\<rparr>))) (throw e))
        else throw e))"

definition spawn_child :: "string \<Rightarrow> backend_status act" where
  "spawn_child token = look (\<lambda>o1 s. case os_spawn o1 of
      Inl e \<Rightarrow> spawn_failed e
    | Inr p \<Rightarrow>
        (let c = length (be_procs s) in
         andThen (modify (\<lambda>s. s\<lparr>be_procs := be_procs s @ [\<lparr>cp_pid = p, cp_exited = False\<rparr>],
                              be_child := Some c\<rparr>))
           (try_catch (await_ready c token (os_now o1)) (not_ready c))))"

definition launch :: "backend_status act" where
  "launch = look (\<lambda>o1 _.
     let token = os_uuid o1 in
     andThen (modify (\<lambda>s. s\<lparr>be_state := BStarting, be_token := Some token\<rparr>))
       (attempt emitStatus (\<lambda>r. case r of
          Inl e \<Rightarrow> reservation_failed e
        | Inr _ \<Rightarrow> spawn_child token)))"

definition start_new :: "backend_status act" where
  "start_new = look (\<lambda>_ s.
     if opt_spawn_given (be_options s) then launch
     else bind (call Turn readHealthIdentity) (\<lambda>occupant. case occupant of
            None \<Rightarrow> launch
          | Some (p, _) \<Rightarrow>
              andThen (modify (\<lambda>s. s\<lparr>be_state := BCrashed, be_last_error := Some (PortServed p)\<rparr>))
                (andThen emitStatus throw_last_error)))"

definition start_owned :: "backend_status act" where
  "start_owned = look (\<lambda>_ s. case be_child s of
      None \<Rightarrow> start_new
    | Some c \<Rightarrow>
        if be_state s = BRunning \<or> be_state s = BStarting then return_status
        else andThen (call Turn (terminateChild c))
               (look (\<lambda>_ s2. if be_child s2 \<noteq> None then throw PreviousAlive else start_new)))"

definition start_adopted :: "pid \<Rightarrow> backend_status act" where
  "start_adopted p = look (\<lambda>_ s. case truthy_token (be_token s) of
      None \<Rightarrow> throw (RefuseReplace (be_adopted_pid s))
    | Some token \<Rightarrow> bind (call Turn (matchesHealthIdentity p token)) (\<lambda>matches.
        if matches then
          andThen (modify (\<lambda>s. s\<lparr>be_state := BRunning, be_last_error := None\<rparr>))
            (andThen emitStatus (andThen (modify startAdoptedMonitor) return_status))
        else look (\<lambda>_ s2. throw (RefuseReplace (be_adopted_pid s2)))))"

definition startInternal :: "backend_status act" where
  "startInternal =
     andThen (modify (\<lambda>s. cancelRestart (s\<lparr>be_desired := DesiredRunning\<rparr>)))
     (look (\<lambda>o1 s. case truthy_pid (be_adopted_pid s) of
        None \<Rightarrow> start_owned
      | Some p \<Rightarrow> if os_alive o1 p then start_adopted p
                  else andThen (modify clearAdopted) start_owned))"

section \<open>Stop, restart, preservation\<close>

definition stop_adopted :: "pid \<Rightarrow> string option \<Rightarrow> backend_status act" where
  "stop_adopted p token = (case truthy_token token of
      None \<Rightarrow> throw (RefuseStop p)
    | Some t \<Rightarrow> bind (call Turn (matchesHealthIdentity p t)) (\<lambda>matches.
        if \<not> matches then throw (RefuseStop p)
        else andThen (terminateAdopted p)
          (andThen (modify (\<lambda>s. (clearAdopted s)\<lparr>be_state := BStopped\<rparr>))
             (andThen emitStatus return_status))))"

definition stop_child :: "backend_status act" where
  "stop_child = look (\<lambda>_ s. case be_child s of
      None \<Rightarrow> andThen (modify (\<lambda>s. s\<lparr>be_state := BStopped\<rparr>)) (andThen emitStatus return_status)
    | Some c \<Rightarrow>
        andThen (modify (\<lambda>s. s\<lparr>be_state := BStopping\<rparr>))
        (andThen emitStatus
        (andThen (try_catch (call Turn (terminateChild c)) crash_and_throw)
        (andThen (modify (\<lambda>s. s\<lparr>be_child := (if be_child s = Some c then None else be_child s),
                               be_state := BStopped\<rparr>))
        (andThen emitStatus return_status)))))"

definition stopInternal :: "backend_status act" where
  "stopInternal =
     andThen (modify (\<lambda>s. cancelOwnedMonitor (cancelRestart (s\<lparr>be_desired := DesiredStopped\<rparr>))))
     (look (\<lambda>_ s. case truthy_pid (be_adopted_pid s) of
        None \<Rightarrow> stop_child
      | Some p \<Rightarrow>
          (let token = be_token s in
           andThen (modify (\<lambda>s. s\<lparr>be_state := BStopping\<rparr>))
             (andThen emitStatus (try_catch (stop_adopted p token) crash_and_throw)))))"

definition restart_op :: "backend_status act" where
  "restart_op =
     andThen (modify (\<lambda>s. s\<lparr>be_state := BRestarting\<rparr>))
       (andThen emitStatus (andThen (call Turn stopInternal) startInternal))"

definition preserve_op :: "backend_status act" where
  "preserve_op =
     andThen (modify (\<lambda>s. cancelAdoptedMonitor (cancelOwnedMonitor (cancelRestart s))))
       (andThen emitStatus return_status)"

definition recover_op :: "backend_status option \<Rightarrow> backend_status act" where
  "recover_op previous =
     (case previous of
        Some prev \<Rightarrow>
          if bs_desired_state prev = DesiredStopped then recoverStopped prev
          else bind (call Turn (adoptInternal previous)) (\<lambda>adopted.
            if adopted then return_status
            else bind (call Turn (recoverPersistedRunning prev)) (\<lambda>recovered.
              if recovered then return_status else startInternal))
      | None \<Rightarrow> bind (call Turn (adoptInternal previous)) (\<lambda>adopted.
            if adopted then return_status else startInternal))"

section \<open>Health checks\<close>

definition enqueue_op :: "lifecycle_op \<Rightarrow> backend \<Rightarrow> backend" where
  "enqueue_op op s = s\<lparr>be_lifecycle := be_lifecycle s @ [op]\<rparr>"

definition run_lifecycle :: "lifecycle_op \<Rightarrow> unit act" where
  "run_lifecycle op = andThen (modify (enqueue_op op)) (andThen (await WaitLifecycle) (ret ()))"

definition owned_current :: "nat \<Rightarrow> string \<Rightarrow> nat \<Rightarrow> backend \<Rightarrow> bool" where
  "owned_current c token generation s \<longleftrightarrow>
     \<not> be_preserving s \<and> generation = be_generation s
     \<and> be_child s = Some c \<and> be_token s = Some token \<and> be_state s = BRunning"

definition checkOwnedHealth :: "nat \<Rightarrow> string \<Rightarrow> nat \<Rightarrow> unit act" where
  "checkOwnedHealth c token generation = look (\<lambda>_ s0.
     if \<not> owned_current c token generation s0 then ret ()
     else bind (case child_pid s0 c of None \<Rightarrow> ret False
                | Some p \<Rightarrow> call Turn (matchesHealthIdentity p token)) (\<lambda>matches.
       look (\<lambda>_ s.
         if \<not> owned_current c token generation s then ret ()
         else if matches then modify (\<lambda>s. s\<lparr>be_owned_failures := 0\<rparr>)
         else
           (let failures = be_owned_failures s + 1 in
            if failures < opt_health_threshold (be_options s)
            then modify (\<lambda>s. s\<lparr>be_owned_failures := failures\<rparr>)
            else andThen (modify (\<lambda>s. s\<lparr>be_owned_failures := failures, be_owned_monitor := None\<rparr>))
                   (run_lifecycle (OpUnhealthy c token generation failures))))))"

definition unhealthy_op :: "nat \<Rightarrow> string \<Rightarrow> nat \<Rightarrow> nat \<Rightarrow> backend_status act" where
  "unhealthy_op c token generation failures = look (\<lambda>_ s.
     if be_preserving s \<or> generation \<noteq> be_generation s \<or> be_child s \<noteq> Some c \<or> be_token s \<noteq> Some token
        \<or> be_desired s \<noteq> DesiredRunning
     then return_status
     else
       andThen (modify (\<lambda>s. s\<lparr>be_state := BCrashed, be_last_error := Some (HealthFailed failures)\<rparr>))
       (andThen emitStatus
       (attempt (call Turn (terminateChild c)) (\<lambda>r. case r of
           Inr _ \<Rightarrow> return_status
         | Inl e \<Rightarrow>
             andThen (modify (\<lambda>s. s\<lparr>be_last_error := Some (CleanupAfter (be_last_error s) e),
                                   be_restart_count := be_restart_count s + 1\<rparr>))
               (andThen emitStatus (andThen (modify scheduleRestart) return_status))))))"

text \<open>The adopted backend answered as itself.\<close>

definition adopted_identified :: "pid \<Rightarrow> string \<Rightarrow> nat \<Rightarrow> unit act" where
  "adopted_identified p token generation =
     andThen (modify (\<lambda>s. s\<lparr>be_adopted_failures := 0\<rparr>))
     (look (\<lambda>_ s.
        if be_desired s = DesiredStopped then run_lifecycle (OpStopAdopted p token generation)
        else if be_state s \<noteq> BRunning \<and> be_desired s = DesiredRunning
        then andThen (modify (\<lambda>s. s\<lparr>be_state := BRunning, be_last_error := None\<rparr>)) emitStatus
        else ret ()))"

text \<open>It is alive but did not answer as itself.\<close>

definition adopted_unidentified :: "pid \<Rightarrow> unit act" where
  "adopted_unidentified p =
     andThen (modify (\<lambda>s. s\<lparr>be_adopted_failures := be_adopted_failures s + 1\<rparr>))
     (look (\<lambda>_ s.
        if be_adopted_failures s < opt_adopted_threshold (be_options s) then ret ()
        else andThen (modify (\<lambda>s. s\<lparr>be_state := BCrashed,
                be_last_error := Some (AdoptedFailed p (be_adopted_failures s))\<rparr>)) emitStatus))"

text \<open>It is gone.\<close>

definition adopted_gone :: "unit act" where
  "adopted_gone =
     andThen (modify clearAdopted)
     (look (\<lambda>_ s.
        if be_desired s = DesiredRunning
        then andThen (modify (\<lambda>s. s\<lparr>be_state := BCrashed, be_restart_count := be_restart_count s + 1\<rparr>))
               (andThen emitStatus (modify scheduleRestart))
        else andThen (modify (\<lambda>s. s\<lparr>be_state := BStopped, be_last_error := None\<rparr>)) emitStatus))"

definition checkAdoptedIdentity :: "nat \<Rightarrow> unit act" where
  "checkAdoptedIdentity generation = look (\<lambda>o1 s0.
     if be_preserving s0 \<or> generation \<noteq> be_generation s0 then ret ()
     else case (truthy_pid (be_adopted_pid s0), truthy_token (be_token s0)) of
       (Some p, Some token) \<Rightarrow>
         (let alive = os_alive o1 p in
          bind (if alive then call Turn (matchesHealthIdentity p token) else ret False) (\<lambda>matches.
            look (\<lambda>_ s.
              if be_preserving s \<or> generation \<noteq> be_generation s then ret ()
              else if be_adopted_pid s \<noteq> Some p \<or> be_token s \<noteq> Some token then ret ()
              else if matches then adopted_identified p token generation
              else if alive then adopted_unidentified p
              else adopted_gone)))
     | _ \<Rightarrow> ret ())"

definition stop_adopted_op :: "pid \<Rightarrow> string \<Rightarrow> nat \<Rightarrow> backend_status act" where
  "stop_adopted_op p token generation = look (\<lambda>_ s.
     if be_preserving s \<or> generation \<noteq> be_generation s \<or> be_adopted_pid s \<noteq> Some p
        \<or> be_token s \<noteq> Some token \<or> be_desired s \<noteq> DesiredStopped
     then return_status
     else
       andThen (modify (\<lambda>s. s\<lparr>be_state := BStopping\<rparr>))
       (andThen emitStatus
       (try_catch
          (andThen (terminateAdopted p)
            (andThen (modify (\<lambda>s. (clearAdopted s)\<lparr>be_state := BStopped, be_last_error := None\<rparr>))
              (andThen emitStatus return_status)))
          (\<lambda>e. andThen (modify (\<lambda>s. s\<lparr>be_state := BCrashed, be_last_error := Some e\<rparr>))
                 (andThen emitStatus return_status)))))"

fun lifecycle_program :: "lifecycle_op \<Rightarrow> backend_status act" where
  "lifecycle_program (OpRecover previous) = recover_op previous"
| "lifecycle_program OpStart = startInternal"
| "lifecycle_program OpTimerStart = startInternal"
| "lifecycle_program OpStop = stopInternal"
| "lifecycle_program OpRestart = restart_op"
| "lifecycle_program OpPreserve = preserve_op"
| "lifecycle_program (OpUnhealthy c token generation failures) = unhealthy_op c token generation failures"
| "lifecycle_program (OpStopAdopted p token generation) = stop_adopted_op p token generation"

end
