(* ===== verification/Backend_Safety.thy ===== *)
theory Backend_Safety imports Backend_Lifecycle begin

text \<open>
  Safety of the backend controller (\<open>src/local-control/excubitor-backend.ts\<close>) under every
  interleaving: the machine that schedules its programs, the invariant of its fields, and the two
  instances of the logic of asynchronous programs, one for lifecycle operations and one for the
  health checks that run beside them.
\<close>

section \<open>The machine\<close>

record machine =
  mc_backend :: backend
  mc_running :: "(lifecycle_op \<times> backend_status running) option"
  mc_owned :: "unit running option"
  mc_adopted :: "unit running option"
  mc_failed :: nat

text \<open>Which answers a query can get.\<close>

definition fits :: "query \<Rightarrow> answer \<Rightarrow> backend \<Rightarrow> bool" where
  "fits q a s = (case (q, a) of
      (Persist _, Written _) \<Rightarrow> True
    | (Probe, Health _) \<Rightarrow> True
    | (WaitIdentity expected token, Identity r) \<Rightarrow> \<exists>obs. persisted_identity expected token obs = Some r
    | (TerminateAdopted _, Terminated _) \<Rightarrow> True
    | (WaitSpawn _, Spawned _) \<Rightarrow> True
    | (WaitReady _, BecameReady _) \<Rightarrow> True
    | (WaitExit c _, Exited b) \<Rightarrow> b \<longrightarrow> exited s c
    | (WaitLifecycle, Turned) \<Rightarrow> True
    | (Turn, Turned) \<Rightarrow> True
    | _ \<Rightarrow> False)"

definition mark_exited :: "nat \<Rightarrow> backend \<Rightarrow> backend" where
  "mark_exited c s = s\<lparr>be_procs := (be_procs s)[c := (be_procs s ! c)\<lparr>cp_exited := True\<rparr>]\<rparr>"

definition request_start :: "backend \<Rightarrow> backend" where
  "request_start s = enqueue_op OpStart (s\<lparr>be_preserving := False\<rparr>)"

definition request_preserve :: "backend \<Rightarrow> backend" where
  "request_preserve s =
     enqueue_op OpPreserve (s\<lparr>be_preserving := True, be_generation := be_generation s + 1\<rparr>)"

definition timer_fires :: "backend \<Rightarrow> backend" where
  "timer_fires s = enqueue_op OpTimerStart (s\<lparr>be_restart_timer := None, be_preserving := False\<rparr>)"

definition finish_op :: "lifecycle_op \<Rightarrow> backend_error + backend_status \<Rightarrow> machine \<Rightarrow> machine" where
  "finish_op op r m = m\<lparr>mc_running := None,
     mc_failed := mc_failed m + (if op = OpTimerStart \<and> (\<exists>e. r = Inl e) then 1 else 0)\<rparr>"

inductive mc_step :: "machine \<Rightarrow> machine \<Rightarrow> bool" where
  start: "mc_step m (m\<lparr>mc_backend := request_start (mc_backend m)\<rparr>)"
| stop: "mc_step m (m\<lparr>mc_backend := enqueue_op OpStop (mc_backend m)\<rparr>)"
| restart: "mc_step m (m\<lparr>mc_backend := enqueue_op OpRestart (mc_backend m)\<rparr>)"
| preserve: "mc_step m (m\<lparr>mc_backend := request_preserve (mc_backend m)\<rparr>)"
| begin_op: "mc_running m = None \<Longrightarrow> be_lifecycle (mc_backend m) = op # ops \<Longrightarrow>
    lifecycle_program op w ((mc_backend m)\<lparr>be_lifecycle := ops\<rparr>) = (s, p) \<Longrightarrow>
    mc_step m (m\<lparr>mc_backend := s, mc_running := Some (op, p)\<rparr>)"
| resume: "mc_running m = Some (op, Await q k) \<Longrightarrow> fits q a (mc_backend m) \<Longrightarrow>
    k a w (mc_backend m) = (s, p) \<Longrightarrow> mc_step m (m\<lparr>mc_backend := s, mc_running := Some (op, p)\<rparr>)"
| finish: "mc_running m = Some (op, Return r) \<Longrightarrow> mc_step m (finish_op op r m)"
| retry: "mc_failed m = Suc n \<Longrightarrow>
    mc_step m (m\<lparr>mc_backend := scheduleRestart (mc_backend m), mc_failed := n\<rparr>)"
| timer: "be_restart_timer (mc_backend m) = Some d \<Longrightarrow>
    mc_step m (m\<lparr>mc_backend := timer_fires (mc_backend m)\<rparr>)"
| owned_tick: "mc_owned m = None \<Longrightarrow> be_owned_monitor (mc_backend m) = Some (c, token, generation) \<Longrightarrow>
    checkOwnedHealth c token generation w (mc_backend m) = (s, q) \<Longrightarrow>
    mc_step m (m\<lparr>mc_backend := s, mc_owned := Some q\<rparr>)"
| owned_resume: "mc_owned m = Some (Await q k) \<Longrightarrow> fits q a (mc_backend m) \<Longrightarrow>
    k a w (mc_backend m) = (s, p) \<Longrightarrow> mc_step m (m\<lparr>mc_backend := s, mc_owned := Some p\<rparr>)"
| owned_finish: "mc_owned m = Some (Return r) \<Longrightarrow> mc_step m (m\<lparr>mc_owned := None\<rparr>)"
| adopted_tick: "mc_adopted m = None \<Longrightarrow> be_adopted_monitor (mc_backend m) = Some generation \<Longrightarrow>
    checkAdoptedIdentity generation w (mc_backend m) = (s, q) \<Longrightarrow>
    mc_step m (m\<lparr>mc_backend := s, mc_adopted := Some q\<rparr>)"
| adopted_resume: "mc_adopted m = Some (Await q k) \<Longrightarrow> fits q a (mc_backend m) \<Longrightarrow>
    k a w (mc_backend m) = (s, p) \<Longrightarrow> mc_step m (m\<lparr>mc_backend := s, mc_adopted := Some p\<rparr>)"
| adopted_finish: "mc_adopted m = Some (Return r) \<Longrightarrow> mc_step m (m\<lparr>mc_adopted := None\<rparr>)"
| exits: "\<not> exited (mc_backend m) c \<Longrightarrow>
    mc_step m (m\<lparr>mc_backend := handleExit c code sig (mark_exited c (mc_backend m))\<rparr>)"
| spawn_error: "\<not> exited (mc_backend m) c \<Longrightarrow> child_pid (mc_backend m) c = None \<Longrightarrow>
    mc_step m (m\<lparr>mc_backend := handleSpawnError c e (mark_exited c (mc_backend m))\<rparr>)"

text \<open>The supervisor's first call is \<open>recover\<close>; the schema admits only positive pids.\<close>

definition valid_previous :: "backend_status option \<Rightarrow> bool" where
  "valid_previous previous = (case previous of None \<Rightarrow> True | Some prev \<Rightarrow> bs_pid prev \<noteq> Some 0)"

inductive mc_reachable :: "backend_options \<Rightarrow> machine \<Rightarrow> bool" for options where
  init: "valid_previous previous \<Longrightarrow> recover_op previous w (new_backend options) = (s, p) \<Longrightarrow>
    mc_reachable options \<lparr>mc_backend = s, mc_running = Some (OpRecover previous, p), mc_owned = None,
      mc_adopted = None, mc_failed = 0\<rparr>"
| step: "mc_reachable options m \<Longrightarrow> mc_step m m' \<Longrightarrow> mc_reachable options m'"

section \<open>The invariant\<close>

definition backend_inv :: "backend \<Rightarrow> bool" where
  "backend_inv s \<longleftrightarrow>
     (\<forall>c. \<not> exited s c \<longrightarrow> be_child s = Some c \<or> c \<in> be_lost s)
     \<and> (be_adopted_pid s \<noteq> None \<longrightarrow> be_child s = None)
     \<and> be_adopted_pid s \<noteq> Some 0
     \<and> (\<forall>d. be_restart_timer s = Some d \<longrightarrow> be_desired s = DesiredRunning \<and> d \<le> opt_restart_max (be_options s))
     \<and> (\<forall>p t g. OpStopAdopted p t g \<in> set (be_lifecycle s) \<longrightarrow> (p, t) \<in> be_verified s)
     \<and> (\<forall>prev. OpRecover prev \<notin> set (be_lifecycle s))"

text \<open>What handlers beside the lifecycle operations do: they may only let go of a process.\<close>

definition beside :: "backend \<Rightarrow> backend \<Rightarrow> bool" where
  "beside s s' \<longleftrightarrow>
     (be_child s' = be_child s \<or> be_child s' = None)
     \<and> (be_adopted_pid s' = be_adopted_pid s \<or> be_adopted_pid s' = None)
     \<and> length (be_procs s') = length (be_procs s) \<and> (\<forall>c. exited s c \<longrightarrow> exited s' c)
     \<and> be_verified s \<subseteq> be_verified s'"

definition lifecycle_guar :: "backend \<Rightarrow> backend \<Rightarrow> bool" where
  "lifecycle_guar s s' \<longleftrightarrow> be_verified s \<subseteq> be_verified s'"

definition allowed :: "query \<Rightarrow> backend \<Rightarrow> bool" where
  "allowed q s = (case q of TerminateAdopted p \<Rightarrow> \<exists>t. (p, t) \<in> be_verified s | _ \<Rightarrow> True)"

lemma allowed_simps [simp]:
  "allowed (Persist st) s" "allowed Probe s" "allowed (WaitIdentity e t) s" "allowed (WaitSpawn c) s"
  "allowed (WaitReady c) s" "allowed (WaitExit c d) s" "allowed WaitLifecycle s" "allowed Turn s"
  "allowed (TerminateAdopted p) s \<longleftrightarrow> (\<exists>t. (p, t) \<in> be_verified s)"
  by (simp_all add: allowed_def)

lemma beside_refl [simp]: "beside s s"
  by (simp add: beside_def)

lemma beside_trans: "beside s t \<Longrightarrow> beside t u \<Longrightarrow> beside s u"
  by (auto simp: beside_def)

interpretation lc: async_safety backend_inv beside lifecycle_guar fits allowed
  by unfold_locales (auto simp: lifecycle_guar_def)

interpretation mon: async_safety backend_inv lifecycle_guar beside fits allowed
  by unfold_locales (auto intro: beside_trans)

section \<open>The synchronous methods keep the invariant\<close>

lemma exited_fields [simp]:
  "exited (s\<lparr>be_child := a\<rparr>) c = exited s c" "exited (s\<lparr>be_state := b\<rparr>) c = exited s c"
  "exited (s\<lparr>be_restart_timer := d\<rparr>) c = exited s c" "exited (s\<lparr>be_lifecycle := l\<rparr>) c = exited s c"
  "exited (s\<lparr>be_adopted_pid := ap\<rparr>) c = exited s c" "exited (s\<lparr>be_token := tk\<rparr>) c = exited s c"
  "exited (s\<lparr>be_desired := ds\<rparr>) c = exited s c" "exited (s\<lparr>be_restart_count := n\<rparr>) c = exited s c"
  "exited (s\<lparr>be_last_error := e\<rparr>) c = exited s c" "exited (s\<lparr>be_last_startup := ls\<rparr>) c = exited s c"
  "exited (s\<lparr>be_owned_monitor := om\<rparr>) c = exited s c" "exited (s\<lparr>be_owned_failures := n\<rparr>) c = exited s c"
  "exited (s\<lparr>be_adopted_monitor := am\<rparr>) c = exited s c" "exited (s\<lparr>be_adopted_failures := n\<rparr>) c = exited s c"
  "exited (s\<lparr>be_generation := n\<rparr>) c = exited s c" "exited (s\<lparr>be_preserving := pr\<rparr>) c = exited s c"
  "exited (s\<lparr>be_verified := v\<rparr>) c = exited s c" "exited (s\<lparr>be_last_exit_code := ec\<rparr>) c = exited s c"
  "exited (s\<lparr>be_last_signal := sg\<rparr>) c = exited s c" "exited (s\<lparr>be_lost := lo\<rparr>) c = exited s c"
  by (simp_all add: exited_def)

lemma restart_delay_max: "restart_delay options n \<le> opt_restart_max options"
  by (simp add: restart_delay_def)

lemma scheduleRestart_fields [simp]:
  "be_child (scheduleRestart s) = be_child s" "be_adopted_pid (scheduleRestart s) = be_adopted_pid s"
  "be_procs (scheduleRestart s) = be_procs s" "be_verified (scheduleRestart s) = be_verified s"
  "be_lifecycle (scheduleRestart s) = be_lifecycle s" "be_desired (scheduleRestart s) = be_desired s"
  "be_lost (scheduleRestart s) = be_lost s" "be_options (scheduleRestart s) = be_options s" "exited (scheduleRestart s) c = exited s c"
  by (simp_all add: scheduleRestart_def)

lemma scheduleRestart_timer:
  "be_restart_timer (scheduleRestart s) = Some d \<Longrightarrow>
   be_restart_timer s = Some d \<or> (be_desired s = DesiredRunning \<and> d \<le> opt_restart_max (be_options s))"
  by (auto simp: scheduleRestart_def restart_delay_max split: if_splits)

lemma scheduleRestart_inv: "backend_inv s \<Longrightarrow> backend_inv (scheduleRestart s)"
  using scheduleRestart_timer [of s] by (auto simp: backend_inv_def)

lemma scheduleRestart_beside [simp]: "beside s (scheduleRestart s)"
  by (simp add: beside_def)

text \<open>Fields the invariant does not mention.\<close>

lemma inv_fields [simp]:
  "backend_inv (s\<lparr>be_state := b\<rparr>) = backend_inv s" "backend_inv (s\<lparr>be_token := tk\<rparr>) = backend_inv s"
  "backend_inv (s\<lparr>be_restart_count := n\<rparr>) = backend_inv s" "backend_inv (s\<lparr>be_last_error := e\<rparr>) = backend_inv s"
  "backend_inv (s\<lparr>be_last_startup := ls\<rparr>) = backend_inv s" "backend_inv (s\<lparr>be_owned_monitor := om\<rparr>) = backend_inv s"
  "backend_inv (s\<lparr>be_owned_failures := n\<rparr>) = backend_inv s" "backend_inv (s\<lparr>be_adopted_monitor := am\<rparr>) = backend_inv s"
  "backend_inv (s\<lparr>be_adopted_failures := n\<rparr>) = backend_inv s" "backend_inv (s\<lparr>be_generation := n\<rparr>) = backend_inv s"
  "backend_inv (s\<lparr>be_preserving := pr\<rparr>) = backend_inv s" "backend_inv (s\<lparr>be_last_exit_code := ec\<rparr>) = backend_inv s"
  "backend_inv (s\<lparr>be_last_signal := sg\<rparr>) = backend_inv s"
  by (simp_all add: backend_inv_def)

lemma inv_cancelRestart [simp]: "backend_inv s \<Longrightarrow> backend_inv (s\<lparr>be_restart_timer := None\<rparr>)"
  by (simp add: backend_inv_def)

lemma inv_clear_adopted [simp]: "backend_inv s \<Longrightarrow> backend_inv (s\<lparr>be_adopted_pid := None\<rparr>)"
  by (simp add: backend_inv_def)

lemma inv_verified [simp]: "backend_inv s \<Longrightarrow> backend_inv (s\<lparr>be_verified := insert v (be_verified s)\<rparr>)"
  by (simp add: backend_inv_def)

lemma inv_stop [simp]:
  "backend_inv s \<Longrightarrow> backend_inv (s\<lparr>be_restart_timer := None, be_desired := x\<rparr>)"
  by (simp add: backend_inv_def)

lemma beside_fields [simp]:
  "beside s (s\<lparr>be_state := b\<rparr>)" "beside s (s\<lparr>be_last_error := e\<rparr>)" "beside s (s\<lparr>be_owned_failures := n\<rparr>)"
  "beside s (s\<lparr>be_adopted_failures := n\<rparr>)" "beside s (s\<lparr>be_lifecycle := l\<rparr>)"
  by (simp_all add: beside_def)

section \<open>Lifecycle operations\<close>

lemma lc_stableI: "(\<And>s s'. backend_inv s \<Longrightarrow> L s \<Longrightarrow> beside s s' \<Longrightarrow> L s') \<Longrightarrow> lc.stable L"
  by (auto simp: lc.stable_def)

lemma guar_insert [simp]: "lifecycle_guar s (s\<lparr>be_verified := insert v (be_verified s)\<rparr>)"
  by (auto simp: lifecycle_guar_def)

lemma lc_emit: "lc.stable P \<Longrightarrow> lc.triple P emitStatus (\<lambda>_. P)"
  unfolding emitStatus_def
  by (rule lc.triple_look, rule lc.triple_bind [where Q = "\<lambda>_. P"])
    (auto intro!: lc.triple_await [where L = P] lc.triple_throw lc.triple_ret
      split: answer.split option.split)

lemma lc_health: "lc.stable P \<Longrightarrow> lc.triple P readHealthIdentity (\<lambda>_. P)"
  unfolding readHealthIdentity_def
  by (rule lc.triple_bind [where Q = "\<lambda>_. P"])
    (auto intro!: lc.triple_await [where L = P] lc.triple_ret split: answer.split)

definition verified :: "pid \<Rightarrow> string \<Rightarrow> backend \<Rightarrow> bool" where
  "verified p t s \<longleftrightarrow> (p, t) \<in> be_verified s"

text \<open>Assertions that survive both interference and a new verified identity.\<close>

definition robust :: "(backend \<Rightarrow> bool) \<Rightarrow> bool" where
  "robust P \<longleftrightarrow> lc.stable P \<and> (\<forall>s v. P s \<longrightarrow> P (s\<lparr>be_verified := insert v (be_verified s)\<rparr>))"

lemma robust_stable: "robust P \<Longrightarrow> lc.stable P"
  by (simp add: robust_def)

lemma stable_verified [simp]: "lc.stable (\<lambda>s. verified p t s)"
  by (rule lc_stableI) (auto simp: verified_def beside_def)

lemma stable_exited [simp]: "lc.stable (\<lambda>s. exited s c)"
  by (rule lc_stableI) (auto simp: beside_def)

lemma stable_conj: "lc.stable P \<Longrightarrow> lc.stable Q \<Longrightarrow> lc.stable (\<lambda>s. P s \<and> Q s)"
  by (auto simp: lc.stable_def)

lemma stable_imp: "(b \<Longrightarrow> lc.stable P) \<Longrightarrow> lc.stable (\<lambda>s. b \<longrightarrow> P s)"
  by (cases b) simp_all

lemma lc_matches:
  assumes "robust P"
  shows "lc.triple P (matchesHealthIdentity p t) (\<lambda>r s. P s \<and> (r = Inr True \<longrightarrow> verified p t s))"
  unfolding matchesHealthIdentity_def
proof (rule lc.triple_bind [where Q = "\<lambda>_. P"])
  show "lc.triple P (call Turn readHealthIdentity) (\<lambda>_. P)"
    using robust_stable [OF assms] by (intro lc.triple_call lc_health) simp_all
  show "lc.triple P (if health = Some (JInt (int p), JStr t)
           then andThen (modify (\<lambda>s. s\<lparr>be_verified := insert (p, t) (be_verified s)\<rparr>)) (ret True)
           else ret False) (\<lambda>r s. P s \<and> (r = Inr True \<longrightarrow> verified p t s))" for health
  proof (intro lc.triple_if lc.triple_andThen [where Q = "\<lambda>_ s. P s \<and> verified p t s"] lc.triple_modify)
    fix s assume "backend_inv s" "P s"
    then show "backend_inv (s\<lparr>be_verified := insert (p, t) (be_verified s)\<rparr>)
      \<and> lifecycle_guar s (s\<lparr>be_verified := insert (p, t) (be_verified s)\<rparr>)
      \<and> P (s\<lparr>be_verified := insert (p, t) (be_verified s)\<rparr>)
      \<and> verified p t (s\<lparr>be_verified := insert (p, t) (be_verified s)\<rparr>)"
      using assms by (simp add: robust_def verified_def)
  qed (auto intro: lc.triple_ret)
qed simp

lemma persisted_identity_positive:
  "persisted_identity e t obs = Some (Some p) \<Longrightarrow> 0 < p \<and> (e = None \<or> e = Some p)"
  by (induction obs) (auto simp: Let_def split: if_splits option.splits)

lemma lc_identity:
  assumes "robust P"
  shows "lc.triple P (waitForPersistedIdentity e t)
    (\<lambda>r s. P s \<and> (\<forall>p. r = Inr (Some p) \<longrightarrow> verified p t s \<and> 0 < p))"
  unfolding waitForPersistedIdentity_def
proof (rule lc.triple_bind [where Q = "\<lambda>r s. P s \<and> (\<forall>p. r = Inr (Identity (Some p)) \<longrightarrow> 0 < p)"])
  show "lc.triple P (await (WaitIdentity e t))
      (\<lambda>r s. P s \<and> (\<forall>p. r = Inr (Identity (Some p)) \<longrightarrow> 0 < p))"
    by (rule lc.triple_await [OF robust_stable [OF assms]])
      (auto simp: fits_def dest: persisted_identity_positive)
  fix a
  show "lc.triple (\<lambda>s. P s \<and> (\<forall>p. Inr a = (Inr (Identity (Some p)) :: backend_error + answer) \<longrightarrow> 0 < p))
     (case a of Identity (Some p) \<Rightarrow>
          andThen (modify (\<lambda>s. s\<lparr>be_verified := insert (p, t) (be_verified s)\<rparr>)) (ret (Some p))
      | _ \<Rightarrow> ret None)
     (\<lambda>r s. P s \<and> (\<forall>p. r = Inr (Some p) \<longrightarrow> verified p t s \<and> 0 < p))"
  proof (cases "\<exists>p. a = Identity (Some p)")
    case True
    then obtain p where a: "a = Identity (Some p)" by blast
    show ?thesis unfolding a answer.case option.case
    proof (rule lc.triple_andThen [where Q = "\<lambda>_ s. P s \<and> verified p t s \<and> 0 < p"])
      show "lc.triple (\<lambda>s. P s \<and> (\<forall>pa. Inr (Identity (Some p)) = (Inr (Identity (Some pa)) :: backend_error + answer)
           \<longrightarrow> 0 < pa)) (modify (\<lambda>s. s\<lparr>be_verified := insert (p, t) (be_verified s)\<rparr>))
           (\<lambda>_ s. P s \<and> verified p t s \<and> 0 < p)"
        using assms by (intro lc.triple_modify) (simp add: robust_def verified_def)
    qed (auto intro: lc.triple_ret)
  next
    case False
    then show ?thesis by (auto intro!: lc.triple_ret split: answer.split option.split)
  qed
qed simp

lemma kill_refused_ok: "backend_inv s \<Longrightarrow> backend_inv (kill_refused c s) \<and> beside s (kill_refused c s)"
proof (cases "be_child s = Some c")
  case True
  assume inv: "backend_inv s"
  let ?s = "(cancelOwnedMonitor (s\<lparr>be_lost := insert c (be_lost s)\<rparr>))\<lparr>be_child := None, be_token := None, be_state := BCrashed,
      be_restart_count := be_restart_count s + 1, be_last_error := Some KillError\<rparr>"
  have s: "kill_refused c s = scheduleRestart ?s" using True by (simp add: kill_refused_def handleSpawnError_def cancelOwnedMonitor_def)
  have "backend_inv ?s" using inv True by (auto simp: backend_inv_def cancelOwnedMonitor_def)
  then show ?thesis unfolding s by (auto simp: scheduleRestart_inv beside_def cancelOwnedMonitor_def)
qed (simp add: kill_refused_def handleSpawnError_def)

lemma lc_kill_event:
  assumes "lc.stable P"
  shows "lc.triple P (kill_event c r) (\<lambda>x s. P s \<and> x = Inr ())"
  unfolding kill_event_def
proof (rule lc.triple_if, rule lc.triple_modify)
  fix s assume s: "backend_inv s" "P s"
  have k: "backend_inv (kill_refused c s)" "beside s (kill_refused c s)" using kill_refused_ok [OF s(1)] by auto
  moreover have "P (kill_refused c s)" using assms s k(2) unfolding lc.stable_def by blast
  ultimately show "backend_inv (kill_refused c s) \<and> lifecycle_guar s (kill_refused c s) \<and> P (kill_refused c s) \<and> Inr () = Inr ()"
    by (simp add: beside_def lifecycle_guar_def)
qed (simp add: lc.triple_ret)

lemma lc_terminate:
  assumes "lc.stable P"
  shows "lc.triple P (terminateChild c) (\<lambda>r s. P s \<and> (r = Inr () \<longrightarrow> exited s c))"
proof -
  let ?Q = "\<lambda>(r :: backend_error + unit) s. P s \<and> (r = Inr () \<longrightarrow> exited s c)"
  have wait: "lc.triple P (await (WaitExit c d)) (\<lambda>r s. P s \<and> (r = Inr (Exited True) \<longrightarrow> exited s c))" for d
    by (rule lc.triple_await [OF assms]) (auto simp: fits_def)
  have after_event: "lc.triple (\<lambda>s. P s \<and> s = s0) (andThen (kill_event c r) m) ?Q" if "lc.triple P m ?Q" for r m s0
    by (rule lc.triple_andThen [OF lc.triple_pre [OF lc_kill_event [OF assms]]])
      (simp_all add: that)
  have fail: "lc.triple P (throw e) ?Q" for e by (rule lc.triple_throw) simp
  have waited: "lc.triple P (bind (await (WaitExit c d)) (\<lambda>a. if a = Exited True then ret () else m)) ?Q" if "lc.triple P m ?Q" for d m
    by (rule lc.triple_bind [OF wait]) (auto intro!: lc.triple_if lc.triple_ret lc.triple_pre [OF that])
  have force: "lc.triple P (look (\<lambda>o2 s2. andThen (kill_event c (os_sigkill o2))
            (if os_sigkill o2 \<noteq> KillSent \<and> \<not> exited s2 c then throw (ForceFailed (child_pid s2 c))
             else bind (await (WaitExit c (opt_force_timeout (be_options s2)))) (\<lambda>b.
               if b = Exited True then ret () else throw (ExitTimeout (opt_force_timeout (be_options s2))))))) ?Q"
    by (rule lc.triple_look, rule after_event, rule lc.triple_if [OF fail], rule waited, rule fail)
  show ?thesis unfolding terminateChild_def
    by (rule lc.triple_look, rule lc.triple_if, rule lc.triple_ret, simp, rule after_event, rule lc.triple_if [OF fail],
        rule waited, rule force)
qed

lemma lc_terminate_keep:
  assumes "lc.stable P"
  shows "lc.triple P (terminateChild c) (\<lambda>_. P)"
  by (rule lc.triple_post [OF lc_terminate [OF assms]]) simp

lemma guar_verified: "be_verified s' = be_verified s \<Longrightarrow> lifecycle_guar s s'"
  by (simp add: lifecycle_guar_def)

lemma ok_emit: "lc.ok emitStatus"
  unfolding lc.ok_def by (rule lc_emit) simp

lemma ok_status: "lc.ok return_status"
  unfolding return_status_def by (intro lc.ok_rules)

lemma ok_throw_last: "lc.ok throw_last_error"
  unfolding throw_last_error_def by (intro lc.ok_rules)

lemma ok_health: "lc.ok readHealthIdentity"
  unfolding lc.ok_def by (rule lc_health) simp

lemma robust_True [simp]: "robust (\<lambda>_. True)"
  by (simp add: robust_def)

lemma ok_matches: "lc.ok (matchesHealthIdentity p t)"
  unfolding matchesHealthIdentity_def
  by (intro lc.ok_rules ok_health lc.ok_modify) simp_all

lemma ok_terminate: "lc.ok (terminateChild c)"
  unfolding lc.ok_def by (rule lc.triple_post [OF lc_terminate]) simp_all

lemmas lc_ok = lc.ok_rules ok_emit ok_status ok_throw_last ok_health ok_matches ok_terminate

lemma ok_crash: "lc.ok (crash_and_throw e)"
  unfolding crash_and_throw_def by (intro lc_ok lc.ok_modify) (simp add: guar_verified)

lemma ok_keep_start: "lc.ok (modify startAdoptedMonitor)"
  by (intro lc.ok_modify) (simp add: startAdoptedMonitor_def cancelAdoptedMonitor_def Let_def guar_verified)

lemma ok_finish_stopped: "lc.ok finish_stopped"
  unfolding finish_stopped_def by (intro lc_ok lc.ok_modify) (simp add: guar_verified)

lemma clearAdopted_inv [simp]: "backend_inv s \<Longrightarrow> backend_inv (clearAdopted s)"
  by (simp add: clearAdopted_def cancelAdoptedMonitor_def)

lemma clearAdopted_fields [simp]:
  "be_verified (clearAdopted s) = be_verified s" "be_adopted_pid (clearAdopted s) = None"
  "be_child (clearAdopted s) = be_child s" "exited (clearAdopted s) c = exited s c"
  "be_desired (clearAdopted s) = be_desired s" "be_procs (clearAdopted s) = be_procs s"
  "be_restart_timer (clearAdopted s) = be_restart_timer s"
  by (simp_all add: clearAdopted_def cancelAdoptedMonitor_def)

text \<open>A fresh controller has no child of its own.\<close>

definition fresh :: "backend \<Rightarrow> bool" where
  "fresh s \<longleftrightarrow> be_child s = None \<and> (\<forall>c. exited s c)"

lemma robust_fresh: "robust fresh"
  unfolding robust_def by (intro conjI lc_stableI) (auto simp: fresh_def beside_def)

lemma robust_imp: "robust P \<Longrightarrow> robust (\<lambda>s. b \<longrightarrow> P s)"
  by (cases b) simp_all

lemma ok_accept:
  assumes "p \<noteq> 0"
  shows "lc.triple fresh (acceptAdoptedIdentity p t prev) (\<lambda>_ _. True)"
  unfolding acceptAdoptedIdentity_def
proof (rule lc.triple_andThen [where Q = "\<lambda>_ _. True"])
  let ?f = "\<lambda>s. s\<lparr>be_child := None, be_adopted_pid := Some p, be_token := Some t,
        be_desired := DesiredRunning, be_state := BRunning, be_restart_count := bs_restart_count prev,
        be_last_startup := (if bs_state prev = BRunning then bs_last_startup_ms prev else None),
        be_last_error := None\<rparr>"
  show "lc.triple fresh (modify ?f) (\<lambda>_ _. True)"
    using assms by (intro lc.triple_modify) (auto simp: fresh_def backend_inv_def guar_verified)
  show "lc.triple (\<lambda>_. True) (andThen emitStatus (modify startAdoptedMonitor)) (\<lambda>_ _. True)"
    unfolding lc.ok_def [symmetric] by (intro lc_ok ok_keep_start)
qed simp

lemma ok_keep:
  assumes "\<And>s. backend_inv s \<Longrightarrow> fresh s \<Longrightarrow> backend_inv (f s) \<and> be_verified (f s) = be_verified s"
  shows "lc.triple fresh (keep_unverified f) (\<lambda>_ _. True)"
  unfolding keep_unverified_def
proof (rule lc.triple_andThen [where Q = "\<lambda>_ _. True"])
  show "lc.triple fresh (modify f) (\<lambda>_ _. True)"
    using assms by (intro lc.triple_modify) (simp add: guar_verified)
  show "lc.triple (\<lambda>_. True) (andThen emitStatus (andThen (modify startAdoptedMonitor) throw_last_error))
     (\<lambda>_ _. True)"
    unfolding lc.ok_def [symmetric] by (intro lc_ok ok_keep_start)
qed simp

lemma truthy_pid_nonzero: "truthy_pid x = Some p \<Longrightarrow> p \<noteq> 0 \<and> x = Some p"
  by (auto simp: truthy_pid_def split: option.splits nat.splits)

lemma lc_adopt:
  "lc.triple fresh (adoptInternal previous) (\<lambda>r s. r = Inr False \<longrightarrow> fresh s)"
proof (cases previous)
  case None
  then show ?thesis by (auto simp: adoptInternal_def intro: lc.triple_ret)
next
  case (Some prev)
  let ?Q = "\<lambda>(r :: backend_error + bool) s. r = Inr False \<longrightarrow> fresh s"
  show ?thesis
  proof (cases "truthy_pid (bs_pid prev)"; cases "truthy_token (bs_instance_token prev)")
    fix p t assume p: "truthy_pid (bs_pid prev) = Some p" and t: "truthy_token (bs_instance_token prev) = Some t"
    have "lc.triple (\<lambda>s. fresh s \<and> s = s0) (if \<not> os_alive o1 p then ret False
        else bind (call Turn (matchesHealthIdentity p t)) (\<lambda>matches.
           if \<not> matches then ret False
           else andThen (call Turn (acceptAdoptedIdentity p t prev)) (ret True))) ?Q" for o1 s0
    proof (intro lc.triple_if lc.triple_bind [where Q = "\<lambda>_. fresh"])
      have "lc.triple fresh (matchesHealthIdentity p t) (\<lambda>_. fresh)"
        using lc.triple_post [OF lc_matches [OF robust_fresh]] by simp
      then show "lc.triple (\<lambda>s. fresh s \<and> s = s0) (call Turn (matchesHealthIdentity p t)) (\<lambda>_. fresh)"
        using robust_stable [OF robust_fresh] by (intro lc.triple_call) (auto elim: lc.triple_pre)
      have "lc.triple fresh (call Turn (acceptAdoptedIdentity p t prev)) (\<lambda>_ _. True)"
        using truthy_pid_nonzero [OF p] by (intro lc.triple_call ok_accept) simp_all
      then show "lc.triple fresh (andThen (call Turn (acceptAdoptedIdentity p t prev)) (ret True)) ?Q"
        by (rule lc.triple_andThen) (auto intro: lc.triple_ret)
    qed (auto intro: lc.triple_ret)
    then show ?thesis using p t Some unfolding adoptInternal_def by (auto intro: lc.triple_look)
  qed (use Some in \<open>auto simp: adoptInternal_def intro: lc.triple_ret\<close>)
qed

lemma lc_call_identity:
  assumes "robust P"
  shows "lc.triple P (call Turn (waitForPersistedIdentity e t))
    (\<lambda>r s. P s \<and> (\<forall>p. r = Inr (Some p) \<longrightarrow> verified p t s \<and> 0 < p))"
proof (rule lc.triple_call [OF lc_identity [OF assms]])
  fix r :: "backend_error + pid option"
  show "lc.stable (\<lambda>s. P s \<and> (\<forall>p. r = Inr (Some p) \<longrightarrow> verified p t s \<and> 0 < p))"
  proof (cases "\<exists>p. r = Inr (Some p)")
    case True
    then obtain p where "r = Inr (Some p)" by blast
    then show ?thesis using robust_stable [OF assms] stable_verified
      by (auto intro!: stable_conj) (auto simp: lc.stable_def)
  qed (use robust_stable [OF assms] in simp)
qed simp

lemma lc_recover_running:
  assumes "bs_pid prev \<noteq> Some 0"
  shows "lc.triple fresh (recoverPersistedRunning prev) (\<lambda>_ _. True)"
proof (cases "truthy_token (bs_instance_token prev)")
  case (Some t)
  have fresh_ok: "lc.triple P m (\<lambda>_ _. True)" if "lc.ok m" for P and m :: "bool act"
    using lc.ok_triple [OF that] .
  have drop_token: "lc.ok (andThen (modify (\<lambda>s. s\<lparr>be_token := None\<rparr>)) (ret False :: bool act))"
    by (intro lc_ok lc.ok_modify) (simp add: guar_verified)
  have body: "lc.triple (\<lambda>s. fresh s \<and> (\<forall>p. Inr recovered = (Inr (Some p) :: backend_error + pid option)
        \<longrightarrow> verified p t s \<and> 0 < p))
     (case recovered of
        Some p \<Rightarrow> andThen (call Turn (acceptAdoptedIdentity p t prev)) (ret True)
      | None \<Rightarrow> look (\<lambda>o2 _. case bs_pid prev of
          Some p \<Rightarrow> if os_alive o2 p
            then keep_unverified (\<lambda>s. s\<lparr>be_adopted_pid := Some p, be_token := Some t,
                   be_desired := DesiredRunning, be_state := BCrashed,
                   be_restart_count := bs_restart_count prev,
                   be_last_error := Some (PersistedUnverified p)\<rparr>)
            else andThen (modify (\<lambda>s. s\<lparr>be_token := None\<rparr>)) (ret False)
        | None \<Rightarrow> andThen (modify (\<lambda>s. s\<lparr>be_token := None\<rparr>)) (ret False))) (\<lambda>_ _. True)" for recovered
  proof (cases recovered)
    case (Some p)
    show ?thesis unfolding Some option.case
    proof (cases "p = 0")
      case False
      have "lc.triple fresh (call Turn (acceptAdoptedIdentity p t prev)) (\<lambda>_ _. True)"
        using False by (intro lc.triple_call ok_accept) simp_all
      then have "lc.triple fresh (andThen (call Turn (acceptAdoptedIdentity p t prev)) (ret True)) (\<lambda>_ _. True)"
        by (rule lc.triple_andThen) (auto intro: lc.triple_ret)
      then show "lc.triple (\<lambda>s. fresh s \<and> (\<forall>pa. Inr (Some p) = (Inr (Some pa) :: backend_error + pid option)
        \<longrightarrow> verified pa t s \<and> 0 < pa)) (andThen (call Turn (acceptAdoptedIdentity p t prev)) (ret True)) (\<lambda>_ _. True)"
        by (rule lc.triple_pre) simp
    qed (auto simp: lc.triple_def dest: spec [of _ 0])
  next
    case None
    have "lc.triple fresh (keep_unverified (\<lambda>s. s\<lparr>be_adopted_pid := Some p, be_token := Some t,
                   be_desired := DesiredRunning, be_state := BCrashed,
                   be_restart_count := bs_restart_count prev,
                   be_last_error := Some (PersistedUnverified p)\<rparr>)) (\<lambda>_ _. True)"
      if "bs_pid prev = Some p" for p
      using that assms by (intro ok_keep) (auto simp: backend_inv_def fresh_def)
    then show ?thesis unfolding None option.case
      by (intro lc.triple_look lc.triple_case_option lc.triple_if fresh_ok [OF drop_token])
        (auto elim: lc.triple_pre)
  qed
  show ?thesis unfolding recoverPersistedRunning_def Let_def Some option.case
    by (intro lc.triple_look lc.triple_if lc.triple_bind
        [OF lc.triple_pre [OF lc_call_identity [OF robust_fresh]] body] lc.triple_ret) auto
qed (auto simp: recoverPersistedRunning_def intro: lc.triple_ret)

lemma lc_terminate_adopted:
  "lc.stable P \<Longrightarrow> (\<And>s. P s \<Longrightarrow> \<exists>t. verified p t s) \<Longrightarrow> lc.triple P (terminateAdopted p) (\<lambda>_. P)"
  unfolding terminateAdopted_def
  by (rule lc.triple_bind [where Q = "\<lambda>_. P"])
    (auto simp: verified_def intro!: lc.triple_await [where L = P] lc.triple_throw lc.triple_ret
      split: answer.split option.split)

lemma ok_modify_clear: "lc.ok (modify clearAdopted)"
  by (intro lc.ok_modify) (simp add: guar_verified)

text \<open>Terminating a verified adopted process, and what follows.\<close>

lemma lc_stop_verified:
  assumes "lc.ok m" "\<And>e. lc.ok (h e)"
  shows "lc.triple (verified p t) (andThen (try_catch (terminateAdopted p) h) m) (\<lambda>_ _. True)"
proof (rule lc.triple_andThen [where Q = "\<lambda>_ _. True"])
  show "lc.triple (verified p t) (try_catch (terminateAdopted p) h) (\<lambda>_ _. True)"
  proof (rule lc.triple_try [where Q = "\<lambda>_. verified p t"])
    show "lc.triple (verified p t) (terminateAdopted p) (\<lambda>_. verified p t)"
      by (rule lc_terminate_adopted) (auto simp: stable_verified)
  qed (use assms lc.ok_triple in auto)
qed (use assms lc.ok_triple in auto)

lemma lc_recover_stopped: "lc.triple fresh (recoverStopped prev) (\<lambda>_ _. True)"
  unfolding recoverStopped_def
proof (rule lc.triple_andThen [where Q = "\<lambda>_. fresh"])
  show "lc.triple fresh (modify (\<lambda>s. (clearAdopted (cancelOwnedMonitor (cancelRestart (s\<lparr>be_desired := DesiredStopped\<rparr>))))
        \<lparr>be_restart_count := bs_restart_count prev, be_last_exit_code := bs_last_exit_code prev,
         be_last_signal := bs_last_signal prev, be_last_error := bs_last_error prev,
         be_last_startup := bs_last_startup_ms prev\<rparr>)) (\<lambda>_. fresh)"
  proof (intro lc.triple_modify, goal_cases)
    case (1 s)
    then have "backend_inv (clearAdopted (cancelOwnedMonitor (cancelRestart (s\<lparr>be_desired := DesiredStopped\<rparr>))))"
      by (intro clearAdopted_inv) (simp add: cancelOwnedMonitor_def cancelRestart_def backend_inv_def)
    with 1 show ?case
      by (auto simp: fresh_def guar_verified cancelOwnedMonitor_def cancelRestart_def)
  qed
  have fin: "lc.triple P finish_stopped (\<lambda>_ _. True)" for P using lc.ok_triple [OF ok_finish_stopped] .
  have found: "lc.triple (\<lambda>s. fresh s \<and> verified q t s \<and> 0 < q)
      (andThen (modify (\<lambda>s. s\<lparr>be_adopted_pid := Some q, be_token := Some t, be_state := BStopping\<rparr>))
         (andThen emitStatus
           (andThen (try_catch (terminateAdopted q) crash_and_throw)
             (andThen (modify clearAdopted) finish_stopped)))) (\<lambda>_ _. True)" for q t
  proof (rule lc.triple_andThen [where Q = "\<lambda>_. verified q t"])
    show "lc.triple (\<lambda>s. fresh s \<and> verified q t s \<and> 0 < q)
        (modify (\<lambda>s. s\<lparr>be_adopted_pid := Some q, be_token := Some t, be_state := BStopping\<rparr>)) (\<lambda>_. verified q t)"
      by (intro lc.triple_modify) (auto simp: fresh_def backend_inv_def verified_def guar_verified)
    show "lc.triple (verified q t) (andThen emitStatus
           (andThen (try_catch (terminateAdopted q) crash_and_throw)
             (andThen (modify clearAdopted) finish_stopped))) (\<lambda>_ _. True)"
      by (rule lc.triple_andThen [OF lc_emit lc_stop_verified])
        (auto intro: lc_ok ok_modify_clear ok_finish_stopped ok_crash simp: stable_verified)
  qed simp
  have keep: "lc.triple fresh (keep_unverified (\<lambda>s. s\<lparr>be_adopted_pid := Some p, be_token := Some t,
       be_state := BCrashed, be_last_error := Some (StoppedUnverified p)\<rparr>)) (\<lambda>_ _. True)" if "p \<noteq> 0" for p t
    using that by (intro ok_keep) (auto simp: backend_inv_def fresh_def)
  show "lc.triple fresh
     (case (truthy_pid (bs_pid prev), truthy_token (bs_instance_token prev)) of
        (Some p, Some token) \<Rightarrow>
          look (\<lambda>o1 _. if \<not> os_alive o1 p then finish_stopped
            else bind (call Turn (waitForPersistedIdentity (Some p) token)) (\<lambda>recovered.
              look (\<lambda>o2 _. case recovered of
                None \<Rightarrow> if os_alive o2 p
                  then keep_unverified (\<lambda>s. s\<lparr>be_adopted_pid := Some p, be_token := Some token,
                         be_state := BCrashed, be_last_error := Some (StoppedUnverified p)\<rparr>)
                  else finish_stopped
              | Some q \<Rightarrow>
                  andThen (modify (\<lambda>s. s\<lparr>be_adopted_pid := Some q, be_token := Some token, be_state := BStopping\<rparr>))
                  (andThen emitStatus
                  (andThen (try_catch (terminateAdopted q) crash_and_throw)
                  (andThen (modify clearAdopted) finish_stopped))))))
      | _ \<Rightarrow> finish_stopped) (\<lambda>_ _. True)"
  proof (cases "truthy_pid (bs_pid prev)"; cases "truthy_token (bs_instance_token prev)")
    fix p t assume p: "truthy_pid (bs_pid prev) = Some p" and t: "truthy_token (bs_instance_token prev) = Some t"
    have nz: "p \<noteq> 0" using truthy_pid_nonzero [OF p] by simp
    show ?thesis unfolding p t option.case prod.case
      by (intro lc.triple_look lc.triple_if fin
          lc.triple_bind [OF lc.triple_pre [OF lc_call_identity [OF robust_fresh]]] lc.triple_case_option)
        (auto intro!: lc.triple_pre [OF found] lc.triple_pre [OF keep [OF nz]])
  qed (use fin in simp_all)
qed simp

text \<open>Starting: a process is spawned only when the controller holds none.\<close>

definition no_adopted :: "backend \<Rightarrow> bool" where
  "no_adopted s \<longleftrightarrow> be_adopted_pid s = None"

definition no_backend :: "backend \<Rightarrow> bool" where
  "no_backend s \<longleftrightarrow> be_adopted_pid s = None \<and> be_child s = None"

lemma robust_no_adopted: "robust no_adopted"
  unfolding robust_def by (intro conjI lc_stableI) (auto simp: no_adopted_def beside_def)

lemma robust_no_backend: "robust no_backend"
  unfolding robust_def by (intro conjI lc_stableI) (auto simp: no_backend_def beside_def)

lemma inv_running [simp]:
  "backend_inv s \<Longrightarrow> backend_inv (s\<lparr>be_desired := x, be_restart_timer := None\<rparr>)"
  by (simp add: backend_inv_def)

lemma sched_ok:
  "(\<And>s. backend_inv s \<Longrightarrow> backend_inv (f s)) \<Longrightarrow> (\<And>s. be_verified (f s) = be_verified s) \<Longrightarrow>
   lc.ok (modify (\<lambda>s. scheduleRestart (f s)))"
  by (intro lc.ok_modify) (simp add: scheduleRestart_inv guar_verified)

lemma ok_reservation_failed: "lc.ok (reservation_failed e)"
  unfolding reservation_failed_def by (intro lc_ok sched_ok) simp_all

lemma ok_spawn_failed: "lc.ok (spawn_failed e)"
  unfolding spawn_failed_def by (intro lc_ok sched_ok) simp_all

lemma ok_not_ready: "lc.ok (not_ready c e)"
  unfolding not_ready_def
  by (intro lc_ok sched_ok lc.ok_modify) (simp_all add: guar_verified)

lemma ok_case_answer:
  "(\<And>x. lc.ok (f x)) \<Longrightarrow> (\<And>x. lc.ok (g x)) \<Longrightarrow> (\<And>x. lc.ok (h x)) \<Longrightarrow> (\<And>x. lc.ok (i x))
   \<Longrightarrow> (\<And>x. lc.ok (j x)) \<Longrightarrow> (\<And>x. lc.ok (k x)) \<Longrightarrow> (\<And>x. lc.ok (l x)) \<Longrightarrow> lc.ok m
   \<Longrightarrow> lc.ok (case a of Written x \<Rightarrow> f x | Health x \<Rightarrow> g x | Identity x \<Rightarrow> h x | Terminated x \<Rightarrow> i x
      | Spawned x \<Rightarrow> j x | BecameReady x \<Rightarrow> k x | Exited x \<Rightarrow> l x | Turned \<Rightarrow> m)"
  by (cases a) auto

lemma ok_await_ready: "lc.ok (await_ready c t n)"
  unfolding await_ready_def
  by (intro lc_ok lc.ok_modify ok_case_answer)
    (simp_all add: guar_verified startOwnedMonitor_def cancelOwnedMonitor_def Let_def)

lemma lc_spawn: "lc.triple no_backend (spawn_child t) (\<lambda>_ _. True)"
  unfolding spawn_child_def Let_def
proof (rule lc.triple_look)
  fix o1 :: os and s0
  show "lc.triple (\<lambda>s. no_backend s \<and> s = s0) (case os_spawn o1 of
      Inl e \<Rightarrow> spawn_failed e
    | Inr p \<Rightarrow>
         andThen (modify (\<lambda>s. s\<lparr>be_procs := be_procs s @ [\<lparr>cp_pid = p, cp_exited = False\<rparr>],
                              be_child := Some (length (be_procs s0))\<rparr>))
           (try_catch (await_ready (length (be_procs s0)) t (os_now o1)) (not_ready (length (be_procs s0)))))
     (\<lambda>_ _. True)"
  proof (cases "os_spawn o1")
    case (Inr p)
    have "lc.triple (\<lambda>s. no_backend s \<and> s = s0)
        (modify (\<lambda>s. s\<lparr>be_procs := be_procs s @ [\<lparr>cp_pid = p, cp_exited = False\<rparr>],
                              be_child := Some (length (be_procs s0))\<rparr>)) (\<lambda>_ _. True)"
    proof (intro lc.triple_modify, elim conjE, goal_cases)
      case (1 s)
      have "exited s0 c \<or> c \<in> be_lost s0" for c using 1 by (auto simp: backend_inv_def no_backend_def)
      with 1 show ?case
        by (auto simp: backend_inv_def no_backend_def guar_verified exited_def nth_append less_Suc_eq)
    qed
    then show ?thesis unfolding Inr sum.case
      by (rule lc.triple_andThen) (auto intro: lc.ok_triple lc.ok_try ok_await_ready ok_not_ready)
  qed (simp add: lc.ok_triple ok_spawn_failed)
qed

lemma lc_launch: "lc.triple no_backend launch (\<lambda>_ _. True)"
  unfolding launch_def Let_def
proof (rule lc.triple_look, rule lc.triple_andThen [where Q = "\<lambda>_. no_backend"])
  fix o1 :: os and s0
  show "lc.triple (\<lambda>s. no_backend s \<and> s = s0)
      (modify (\<lambda>s. s\<lparr>be_state := BStarting, be_token := Some (os_uuid o1)\<rparr>)) (\<lambda>_. no_backend)"
    by (intro lc.triple_modify) (auto simp: no_backend_def guar_verified)
  show "lc.triple no_backend (attempt emitStatus (\<lambda>r. case r of
      Inl e \<Rightarrow> reservation_failed e | Inr _ \<Rightarrow> spawn_child (os_uuid o1))) (\<lambda>_ _. True)"
  proof (rule lc.triple_attempt [OF lc_emit [OF robust_stable [OF robust_no_backend]]])
    fix r :: "backend_error + unit"
    show "lc.triple no_backend (case r of Inl e \<Rightarrow> reservation_failed e
        | Inr _ \<Rightarrow> spawn_child (os_uuid o1)) (\<lambda>_ _. True)"
      by (cases r) (simp_all add: lc_spawn lc.ok_triple ok_reservation_failed)
  qed
qed simp

lemma lc_start_new: "lc.triple no_backend start_new (\<lambda>_ _. True)"
  unfolding start_new_def
proof (rule lc.triple_look, rule lc.triple_if)
  fix o1 :: os and s0
  show "lc.triple (\<lambda>s. no_backend s \<and> s = s0) launch (\<lambda>_ _. True)"
    by (rule lc.triple_pre [OF lc_launch]) simp
  have served: "lc.ok (andThen (modify (\<lambda>s. s\<lparr>be_state := BCrashed, be_last_error := Some (PortServed p)\<rparr>))
                (andThen emitStatus (throw_last_error :: backend_status act)))" for p
    by (intro lc_ok lc.ok_modify) (simp add: guar_verified)
  have probe: "lc.triple (\<lambda>s. no_backend s \<and> s = s0) (call Turn readHealthIdentity) (\<lambda>_. no_backend)"
    using robust_stable [OF robust_no_backend]
    by (intro lc.triple_pre [OF lc.triple_call [OF lc_health]]) simp_all
  show "lc.triple (\<lambda>s. no_backend s \<and> s = s0) (bind (call Turn readHealthIdentity) (\<lambda>occupant. case occupant of
            None \<Rightarrow> launch
          | Some (p, _) \<Rightarrow>
              andThen (modify (\<lambda>s. s\<lparr>be_state := BCrashed, be_last_error := Some (PortServed p)\<rparr>))
                (andThen emitStatus throw_last_error))) (\<lambda>_ _. True)"
    by (rule lc.triple_bind [OF probe]) (auto simp: lc_launch lc.ok_triple served split: option.split)
qed

lemma lc_start_owned: "lc.triple no_adopted start_owned (\<lambda>_ _. True)"
  unfolding start_owned_def
proof (rule lc.triple_look)
  fix o1 :: os and s0
  have killed: "lc.triple (\<lambda>s. no_adopted s \<and> s = s0) (call Turn (terminateChild c)) (\<lambda>_. no_adopted)" for c
  proof (rule lc.triple_call)
    show "lc.triple (\<lambda>s. no_adopted s \<and> s = s0) (terminateChild c) (\<lambda>_. no_adopted)"
      by (rule lc.triple_pre [OF lc_terminate_keep [OF robust_stable [OF robust_no_adopted]]]) simp
  qed (simp_all add: robust_stable [OF robust_no_adopted])
  have next': "lc.triple no_adopted (look (\<lambda>_ s2. if be_child s2 \<noteq> None then throw PreviousAlive else start_new))
      (\<lambda>_ _. True)"
    by (intro lc.triple_look lc.triple_if lc.triple_throw)
      (auto intro!: lc.triple_pre [OF lc_start_new] simp: no_adopted_def no_backend_def)
  show "lc.triple (\<lambda>s. no_adopted s \<and> s = s0) (case be_child s0 of
      None \<Rightarrow> start_new
    | Some c \<Rightarrow>
        if be_state s0 = BRunning \<or> be_state s0 = BStarting then return_status
        else andThen (call Turn (terminateChild c))
               (look (\<lambda>_ s2. if be_child s2 \<noteq> None then throw PreviousAlive else start_new))) (\<lambda>_ _. True)"
    by (intro lc.triple_case_option lc.triple_if lc.triple_andThen [OF killed next'] lc.ok_triple [OF ok_status])
      (auto intro!: lc.triple_pre [OF lc_start_new] simp: no_adopted_def no_backend_def)
qed

lemma ok_start_adopted: "lc.ok (start_adopted p)"
  unfolding start_adopted_def
  by (intro lc_ok lc.ok_modify ok_keep_start) (simp_all add: guar_verified)

lemma ok_start: "lc.ok startInternal"
  unfolding startInternal_def
proof (intro lc.ok_andThen lc.ok_modify)
  fix s assume "backend_inv s"
  then show "backend_inv (cancelRestart (s\<lparr>be_desired := DesiredRunning\<rparr>))
     \<and> lifecycle_guar s (cancelRestart (s\<lparr>be_desired := DesiredRunning\<rparr>))"
    by (simp add: cancelRestart_def guar_verified)
next
  have clear: "lc.triple P (modify clearAdopted) (\<lambda>_. no_adopted)" for P
    by (intro lc.triple_modify) (simp add: guar_verified no_adopted_def)
  show "lc.ok (look (\<lambda>o1 s. case truthy_pid (be_adopted_pid s) of
        None \<Rightarrow> start_owned
      | Some p \<Rightarrow> if os_alive o1 p then start_adopted p else andThen (modify clearAdopted) start_owned))"
    unfolding lc.ok_def
  proof (intro lc.triple_look lc.triple_case_option lc.triple_if lc.ok_triple [OF ok_start_adopted])
    fix o1 :: os and s0 :: backend assume "truthy_pid (be_adopted_pid s0) = None"
    then have "lc.triple (\<lambda>t. True \<and> t = s0) start_owned (\<lambda>_ _. True)"
      by (intro lc.triple_pre [OF lc_start_owned])
        (auto simp: no_adopted_def backend_inv_def truthy_pid_def split: option.splits nat.splits)
    then show "lc.triple (\<lambda>t. True \<and> t = s0) start_owned (\<lambda>_ _. True)" .
  qed (rule lc.triple_andThen [OF clear lc_start_owned], simp)
qed

section \<open>Stopping\<close>

lemma stop_change_ok:
  "lc.ok (modify (\<lambda>s. cancelOwnedMonitor (cancelRestart (s\<lparr>be_desired := DesiredStopped\<rparr>))))"
  by (intro lc.ok_modify) (simp add: cancelOwnedMonitor_def cancelRestart_def guar_verified backend_inv_def)

lemma ok_stop_adopted: "lc.ok (stop_adopted p token)"
  unfolding stop_adopted_def
proof (intro lc.ok_case_option lc.ok_throw)
  fix t
  have fin: "lc.ok (andThen (modify (\<lambda>s. (clearAdopted s)\<lparr>be_state := BStopped\<rparr>)) (andThen emitStatus return_status))"
    by (intro lc_ok lc.ok_modify) (simp add: guar_verified)
  have m: "lc.triple (\<lambda>_. True) (call Turn (matchesHealthIdentity p t))
      (\<lambda>r s. r = Inr True \<longrightarrow> verified p t s)"
    using lc_matches [OF robust_True] by (intro lc.triple_call stable_imp) simp_all
  have stop: "lc.triple (verified p t) (andThen (terminateAdopted p)
          (andThen (modify (\<lambda>s. (clearAdopted s)\<lparr>be_state := BStopped\<rparr>)) (andThen emitStatus return_status)))
        (\<lambda>_ _. True)"
    by (rule lc.triple_andThen [OF lc_terminate_adopted]) (auto simp: stable_verified lc.ok_triple fin)
  show "lc.ok (bind (call Turn (matchesHealthIdentity p t)) (\<lambda>matches.
        if \<not> matches then throw (RefuseStop p)
        else andThen (terminateAdopted p)
          (andThen (modify (\<lambda>s. (clearAdopted s)\<lparr>be_state := BStopped\<rparr>)) (andThen emitStatus return_status))))"
    unfolding lc.ok_def
    by (intro lc.triple_bind [OF m] lc.triple_if lc.triple_throw lc.triple_pre [OF stop]) simp_all
qed

lemma ok_stop_child: "lc.ok stop_child"
  unfolding stop_child_def
proof (rule lc.ok_look, rule lc.ok_case_option)
  show "lc.ok (andThen (modify (\<lambda>s. s\<lparr>be_state := BStopped\<rparr>)) (andThen emitStatus return_status))"
    by (intro lc_ok lc.ok_modify) (simp add: guar_verified)
  fix c
  let ?drop = "\<lambda>s. s\<lparr>be_child := (if be_child s = Some c then None else be_child s), be_state := BStopped\<rparr>"
  have fin: "lc.ok (andThen emitStatus return_status)" by (intro lc_ok)
  have killed: "lc.triple (\<lambda>_. True) (try_catch (call Turn (terminateChild c)) crash_and_throw)
      (\<lambda>r s. r = Inr () \<longrightarrow> exited s c)"
  proof (rule lc.triple_try)
    show "lc.triple (\<lambda>_. True) (call Turn (terminateChild c)) (\<lambda>r s. r = Inr () \<longrightarrow> exited s c)"
      using lc_terminate [of "\<lambda>_. True" c] by (intro lc.triple_call stable_imp) simp_all
    show "lc.triple (\<lambda>s. Inl e = (Inr () :: backend_error + unit) \<longrightarrow> exited s c) (crash_and_throw e)
        (\<lambda>r s. r = Inr () \<longrightarrow> exited s c)" for e
      unfolding crash_and_throw_def
      by (rule lc.triple_andThen [where Q = "\<lambda>_ _. True"], intro lc.triple_modify, simp add: guar_verified,
          rule lc.triple_andThen [OF lc_emit], simp_all add: lc.triple_throw)
  qed simp
  have "lc.triple (\<lambda>s. exited s c) (modify ?drop) (\<lambda>_ _. True)"
    by (intro lc.triple_modify) (auto simp: backend_inv_def guar_verified)
  then have "lc.triple (\<lambda>s. exited s c) (andThen (modify ?drop) (andThen emitStatus return_status)) (\<lambda>_ _. True)"
    by (rule lc.triple_andThen) (simp_all add: lc.ok_triple fin)
  then have main: "lc.ok (andThen (try_catch (call Turn (terminateChild c)) crash_and_throw)
      (andThen (modify ?drop) (andThen emitStatus return_status)))"
    unfolding lc.ok_def by (intro lc.triple_andThen [OF killed]) simp_all
  show "lc.ok (andThen (modify (\<lambda>s. s\<lparr>be_state := BStopping\<rparr>)) (andThen emitStatus
      (andThen (try_catch (call Turn (terminateChild c)) crash_and_throw)
      (andThen (modify ?drop) (andThen emitStatus return_status)))))"
    by (intro lc.ok_andThen [OF _ lc.ok_andThen [OF ok_emit main]] lc.ok_modify) (simp add: guar_verified)
qed

lemma ok_stop: "lc.ok stopInternal"
  unfolding stopInternal_def Let_def
  by (intro lc_ok stop_change_ok ok_stop_child ok_stop_adopted ok_crash lc.ok_modify) (simp_all add: guar_verified)

lemma ok_restart: "lc.ok restart_op"
  unfolding restart_op_def
  by (intro lc_ok ok_stop ok_start lc.ok_modify) (simp_all add: guar_verified)

lemma ok_preserve: "lc.ok preserve_op"
  unfolding preserve_op_def
  by (intro lc_ok lc.ok_modify)
    (simp add: cancelAdoptedMonitor_def cancelOwnedMonitor_def cancelRestart_def guar_verified)

lemma ok_unhealthy: "lc.ok (unhealthy_op c t g n)"
  unfolding unhealthy_op_def
  by (intro lc_ok lc.ok_modify) (simp_all add: guar_verified scheduleRestart_inv)

lemma lc_stop_adopted_op: "lc.triple (verified p t) (stop_adopted_op p t g) (\<lambda>_ _. True)"
  unfolding stop_adopted_op_def
proof (intro lc.triple_look lc.triple_if lc.ok_triple [OF ok_status])
  fix s0
  have fin: "lc.ok (andThen (modify (\<lambda>s. (clearAdopted s)\<lparr>be_state := BStopped, be_last_error := None\<rparr>))
              (andThen emitStatus return_status))"
    "lc.ok (andThen (modify (\<lambda>s. s\<lparr>be_state := BCrashed, be_last_error := Some e\<rparr>)) (andThen emitStatus return_status))" for e
    by (intro lc_ok lc.ok_modify; simp add: guar_verified)+
  have stop: "lc.triple (verified p t) (andThen (terminateAdopted p)
            (andThen (modify (\<lambda>s. (clearAdopted s)\<lparr>be_state := BStopped, be_last_error := None\<rparr>))
              (andThen emitStatus return_status))) (\<lambda>_ _. True)"
    by (rule lc.triple_andThen [OF lc_terminate_adopted]) (auto simp: stable_verified lc.ok_triple fin)
  have mark: "lc.triple (\<lambda>s. verified p t s \<and> s = s0) (modify (\<lambda>s. s\<lparr>be_state := BStopping\<rparr>)) (\<lambda>_. verified p t)"
    by (intro lc.triple_modify) (simp add: verified_def guar_verified)
  show "lc.triple (\<lambda>s. verified p t s \<and> s = s0) (andThen (modify (\<lambda>s. s\<lparr>be_state := BStopping\<rparr>))
       (andThen emitStatus
       (try_catch
          (andThen (terminateAdopted p)
            (andThen (modify (\<lambda>s. (clearAdopted s)\<lparr>be_state := BStopped, be_last_error := None\<rparr>))
              (andThen emitStatus return_status)))
          (\<lambda>e. andThen (modify (\<lambda>s. s\<lparr>be_state := BCrashed, be_last_error := Some e\<rparr>))
                 (andThen emitStatus return_status))))) (\<lambda>_ _. True)"
    by (intro lc.triple_andThen [OF mark] lc.triple_andThen [OF lc_emit] lc.triple_try [OF stop])
      (simp_all add: stable_verified lc.ok_triple fin)
qed

lemma lc_recover_op:
  assumes "valid_previous previous"
  shows "lc.triple fresh (recover_op previous) (\<lambda>_ _. True)"
proof -
  have adopt: "lc.triple fresh (call Turn (adoptInternal previous)) (\<lambda>r s. r = Inr False \<longrightarrow> fresh s)"
    using lc_adopt robust_stable [OF robust_fresh] by (intro lc.triple_call stable_imp) simp_all
  have go: "lc.triple P startInternal (\<lambda>_ _. True)" "lc.triple P return_status (\<lambda>_ _. True)" for P
    using ok_start ok_status lc.ok_triple by blast+
  show ?thesis
  proof (cases previous)
    case None
    show ?thesis unfolding recover_op_def None option.case
      by (intro lc.triple_bind [OF adopt [unfolded None]] lc.triple_if go) simp_all
  next
    case (Some prev)
    have "lc.triple fresh (call Turn (recoverPersistedRunning prev)) (\<lambda>_ _. True)"
      using assms Some by (intro lc.triple_call lc_recover_running) (simp_all add: valid_previous_def)
    then have rec: "lc.triple fresh (bind (call Turn (recoverPersistedRunning prev)) (\<lambda>recovered.
              if recovered then return_status else startInternal)) (\<lambda>_ _. True)"
      by (rule lc.triple_bind) (simp_all add: go)
    show ?thesis unfolding recover_op_def Some option.case
      by (intro lc.triple_bind [OF adopt [unfolded Some]] lc.triple_if go lc.triple_pre [OF rec]
          lc_recover_stopped) simp_all
  qed
qed

section \<open>Health checks\<close>

lemma mon_emit: "mon.ok emitStatus"
  unfolding emitStatus_def mon.ok_def
  by (rule mon.triple_look, rule mon.triple_bind [where Q = "\<lambda>_ _. True"])
    (auto intro!: mon.triple_await [where L = "\<lambda>_. True"] mon.triple_throw mon.triple_ret
      split: answer.split option.split)

lemma mon_stable_verified [simp]: "mon.stable (verified p t)"
  by (auto simp: mon.stable_def verified_def lifecycle_guar_def)

lemma beside_insert [simp]: "beside s (s\<lparr>be_verified := insert v (be_verified s)\<rparr>)"
  by (auto simp: beside_def)

lemma mon_health: "mon.ok readHealthIdentity"
  unfolding readHealthIdentity_def mon.ok_def
  by (rule mon.triple_bind [where Q = "\<lambda>_ _. True"])
    (auto intro!: mon.triple_await [where L = "\<lambda>_. True"] mon.triple_ret split: answer.split)

lemma mon_stable_imp: "mon.stable P \<Longrightarrow> mon.stable (\<lambda>s. b \<longrightarrow> P s)"
  by (cases b) simp_all

lemma mon_matches:
  "mon.triple (\<lambda>_. True) (call Turn (matchesHealthIdentity p t)) (\<lambda>r s. r = Inr True \<longrightarrow> verified p t s)"
proof (rule mon.triple_call)
  show "mon.triple (\<lambda>_. True) (matchesHealthIdentity p t) (\<lambda>r s. r = Inr True \<longrightarrow> verified p t s)"
    unfolding matchesHealthIdentity_def
  proof (rule mon.triple_bind [where Q = "\<lambda>_ _. True"])
    show "mon.triple (\<lambda>_. True) (call Turn readHealthIdentity) (\<lambda>_ _. True)"
      using mon_health unfolding mon.ok_def by (rule mon.triple_call) simp_all
    show "mon.triple (\<lambda>_. True) (if health = Some (JInt (int p), JStr t)
           then andThen (modify (\<lambda>s. s\<lparr>be_verified := insert (p, t) (be_verified s)\<rparr>)) (ret True)
           else ret False) (\<lambda>r s. r = Inr True \<longrightarrow> verified p t s)" for health
      by (intro mon.triple_if mon.triple_andThen [where Q = "\<lambda>_. verified p t"] mon.triple_modify mon.triple_ret)
        (simp_all add: verified_def)
  qed simp
qed (simp_all add: mon_stable_imp)

lemma beside_same:
  "be_child s' = be_child s \<Longrightarrow> be_adopted_pid s' = be_adopted_pid s \<Longrightarrow> be_procs s' = be_procs s
   \<Longrightarrow> be_verified s' = be_verified s \<Longrightarrow> beside s s'"
  by (simp add: beside_def exited_def)

lemma beside_clear: "beside s (clearAdopted s)"
  by (simp add: beside_def)

lemma enqueue_inv:
  assumes "\<And>p t g. op = OpStopAdopted p t g \<Longrightarrow> verified p t s" "\<And>prev. op \<noteq> OpRecover prev"
    and inv: "backend_inv s"
  shows "backend_inv (enqueue_op op s)"
proof -
  have "(p, t) \<in> be_verified s" if "OpStopAdopted p t g \<in> set (be_lifecycle s @ [op])" for p t g
  proof (cases "op = OpStopAdopted p t g")
    case True
    then show ?thesis using assms(1) by (simp add: verified_def)
  next
    case False
    then have "OpStopAdopted p t g \<in> set (be_lifecycle s)" using that by auto
    then show ?thesis using inv unfolding backend_inv_def by blast
  qed
  moreover have "OpRecover prev \<notin> set (be_lifecycle s @ [op])" for prev
    using assms(2) [of prev] inv by (auto simp: backend_inv_def)
  ultimately show ?thesis using inv by (simp add: enqueue_op_def backend_inv_def)
qed

lemma enqueue_beside [simp]: "beside s (enqueue_op op s)"
  by (simp add: enqueue_op_def)

lemma mon_enqueue:
  assumes "\<And>p t g s. op = OpStopAdopted p t g \<Longrightarrow> P s \<Longrightarrow> verified p t s" "\<And>prev. op \<noteq> OpRecover prev"
  shows "mon.triple P (run_lifecycle op) (\<lambda>_ _. True)"
  unfolding run_lifecycle_def
proof (rule mon.triple_andThen [where Q = "\<lambda>_ _. True"])
  show "mon.triple P (modify (enqueue_op op)) (\<lambda>_ _. True)"
  proof (intro mon.triple_modify conjI enqueue_inv)
    fix s p t g assume "P s" "op = OpStopAdopted p t g"
    then show "verified p t s" using assms(1) by blast
  qed (simp_all add: assms(2))
  show "mon.triple (\<lambda>_. True) (andThen (await WaitLifecycle) (ret ())) (\<lambda>_ _. True)"
    unfolding mon.ok_def [symmetric] by (intro mon.ok_rules) simp
qed simp

lemma mon_owned: "mon.ok (checkOwnedHealth c t g)"
proof -
  have unhealthy: "mon.ok (run_lifecycle (OpUnhealthy c t g n))" for n
    unfolding mon.ok_def by (rule mon_enqueue) simp_all
  have matches: "mon.ok (call Turn (matchesHealthIdentity p t))" for p
    unfolding mon.ok_def by (rule mon.triple_post [OF mon_matches]) simp
  show ?thesis unfolding checkOwnedHealth_def Let_def
    by (intro mon.ok_rules mon.ok_modify matches unhealthy) (simp_all add: beside_same)
qed

lemma mon_identified: "mon.triple (verified p t) (adopted_identified p t g) (\<lambda>_ _. True)"
  unfolding adopted_identified_def
proof (rule mon.triple_andThen [where Q = "\<lambda>_. verified p t"])
  show "mon.triple (verified p t) (modify (\<lambda>s. s\<lparr>be_adopted_failures := 0\<rparr>)) (\<lambda>_. verified p t)"
    by (intro mon.triple_modify) (simp add: verified_def)
  have "mon.ok (andThen (modify (\<lambda>s. s\<lparr>be_state := BRunning, be_last_error := None\<rparr>)) emitStatus)"
    by (intro mon.ok_rules mon.ok_modify mon_emit) (simp add: beside_same)
  then show "mon.triple (verified p t) (look (\<lambda>_ s.
        if be_desired s = DesiredStopped then run_lifecycle (OpStopAdopted p t g)
        else if be_state s \<noteq> BRunning \<and> be_desired s = DesiredRunning
        then andThen (modify (\<lambda>s. s\<lparr>be_state := BRunning, be_last_error := None\<rparr>)) emitStatus
        else ret ())) (\<lambda>_ _. True)"
    by (intro mon.triple_look mon.triple_if mon_enqueue mon.ok_triple mon.ok_ret) auto
qed simp

lemma mon_unidentified: "mon.ok (adopted_unidentified p)"
  unfolding adopted_unidentified_def
  by (intro mon.ok_rules mon.ok_modify mon_emit) (simp_all add: beside_same)

lemma mon_gone: "mon.ok adopted_gone"
  unfolding adopted_gone_def
  by (intro mon.ok_rules mon.ok_modify mon_emit)
    (simp_all add: beside_same beside_clear scheduleRestart_inv)

lemma mon_adopted: "mon.ok (checkAdoptedIdentity g)"
  unfolding checkAdoptedIdentity_def
proof (intro mon.ok_look mon.ok_if mon.ok_ret)
  fix o1 :: os and s0 :: backend
  show "mon.ok (case (truthy_pid (be_adopted_pid s0), truthy_token (be_token s0)) of
       (Some p, Some token) \<Rightarrow>
         (let alive = os_alive o1 p in
          bind (if alive then call Turn (matchesHealthIdentity p token) else ret False) (\<lambda>matches.
            look (\<lambda>_ s.
              if be_preserving s \<or> g \<noteq> be_generation s then ret ()
              else if be_adopted_pid s \<noteq> Some p \<or> be_token s \<noteq> Some token then ret ()
              else if matches then adopted_identified p token g
              else if alive then adopted_unidentified p
              else adopted_gone)))
     | _ \<Rightarrow> ret ())"
  proof (cases "truthy_pid (be_adopted_pid s0)"; cases "truthy_token (be_token s0)")
    fix p t assume p: "truthy_pid (be_adopted_pid s0) = Some p" and t: "truthy_token (be_token s0) = Some t"
    have probe: "mon.triple (\<lambda>_. True) (if os_alive o1 p then call Turn (matchesHealthIdentity p t) else ret False)
        (\<lambda>r s. r = Inr True \<longrightarrow> verified p t s)"
      by (intro mon.triple_if mon_matches mon.triple_ret) simp
    have r: "mon.triple P (ret ()) (\<lambda>_ _. True)" "mon.triple P (adopted_unidentified p) (\<lambda>_ _. True)"
      "mon.triple P adopted_gone (\<lambda>_ _. True)" for P
      by (rule mon.ok_triple mon.ok_ret mon_unidentified mon_gone)+
    show ?thesis unfolding p t option.case prod.case Let_def mon.ok_def
      by (intro mon.triple_bind [OF probe] mon.triple_look mon.triple_if r mon.triple_pre [OF mon_identified])
        simp_all
  qed (simp_all add: mon.ok_ret)
qed

end
