(* ===== verification/Backend_Properties.thy ===== *)
theory Backend_Properties imports Backend_Safety begin

text \<open>
  What holds in every reachable state of the backend controller
  (\<open>src/local-control/excubitor-backend.ts\<close>), through any interleaving of lifecycle operations,
  health checks, exit events, timers and requests: at most one live backend process, termination
  of verified processes only, and restarts only while running is desired, with a bounded delay.
\<close>

section \<open>Steps outside programs\<close>

lemma request_start_ok: "backend_inv s \<Longrightarrow> backend_inv (request_start s) \<and> beside s (request_start s)"
  unfolding request_start_def
  by (intro conjI enqueue_inv) (simp_all add: beside_same enqueue_op_def)

lemma request_preserve_ok: "backend_inv s \<Longrightarrow> backend_inv (request_preserve s) \<and> beside s (request_preserve s)"
  unfolding request_preserve_def
  by (intro conjI enqueue_inv) (simp_all add: beside_same enqueue_op_def)

lemma timer_fires_ok: "backend_inv s \<Longrightarrow> backend_inv (timer_fires s) \<and> beside s (timer_fires s)"
  unfolding timer_fires_def
  by (intro conjI enqueue_inv) (simp_all add: beside_same enqueue_op_def)

lemma exited_mark: "exited (mark_exited c s) d \<longleftrightarrow> exited s d \<or> d = c"
  by (cases "d = c") (auto simp: exited_def mark_exited_def)

lemma mark_fields [simp]:
  "be_child (mark_exited c s) = be_child s" "be_adopted_pid (mark_exited c s) = be_adopted_pid s"
  "be_verified (mark_exited c s) = be_verified s" "be_lifecycle (mark_exited c s) = be_lifecycle s"
  "be_restart_timer (mark_exited c s) = be_restart_timer s" "be_desired (mark_exited c s) = be_desired s"
  "be_options (mark_exited c s) = be_options s" "be_lost (mark_exited c s) = be_lost s"
  "length (be_procs (mark_exited c s)) = length (be_procs s)"
  by (simp_all add: mark_exited_def)

lemma mark_exited_ok: "backend_inv s \<Longrightarrow> backend_inv (mark_exited c s) \<and> beside s (mark_exited c s)"
  by (auto simp: backend_inv_def beside_def exited_mark)

lemma beside_schedule [simp]: "beside s (scheduleRestart t) = beside s t"
  by (simp add: beside_def)

text \<open>Letting the exited child go.\<close>

lemma drop_child_inv:
  assumes "backend_inv s" "be_child s = Some c" "exited s c"
  shows "backend_inv (s\<lparr>be_child := None\<rparr>)"
  using assms by (auto simp: backend_inv_def)

lemma handleExit_ok:
  assumes inv: "backend_inv s" and ex: "exited s c"
  shows "backend_inv (handleExit c code sig s) \<and> beside s (handleExit c code sig s)"
proof (cases "be_child s = Some c")
  case True
  let ?s = "(cancelOwnedMonitor s)\<lparr>be_child := None, be_token := None,
                    be_last_exit_code := code, be_last_signal := sig\<rparr>"
  have "backend_inv ((cancelOwnedMonitor s)\<lparr>be_child := None\<rparr>)"
    by (rule drop_child_inv) (use inv True ex in \<open>simp_all add: cancelOwnedMonitor_def\<close>)
  then have inv1: "backend_inv ?s" by simp
  have "beside s (?s\<lparr>be_state := a, be_restart_count := b\<rparr>)" "beside s (?s\<lparr>be_state := a\<rparr>)" for a b
    by (simp_all add: beside_def cancelOwnedMonitor_def exited_def)
  then show ?thesis using True inv1
    by (simp add: handleExit_def Let_def scheduleRestart_inv)
qed (use inv in \<open>simp add: handleExit_def\<close>)

lemma handleSpawnError_ok:
  assumes inv: "backend_inv s" and ex: "exited s c"
  shows "backend_inv (handleSpawnError c e s) \<and> beside s (handleSpawnError c e s)"
proof (cases "be_child s = Some c")
  case True
  let ?s = "(cancelOwnedMonitor s)\<lparr>be_child := None, be_token := None, be_state := BCrashed,
              be_restart_count := be_restart_count s + 1, be_last_error := Some e\<rparr>"
  have "backend_inv ((cancelOwnedMonitor s)\<lparr>be_child := None\<rparr>)"
    by (rule drop_child_inv) (use inv True ex in \<open>simp_all add: cancelOwnedMonitor_def\<close>)
  then have inv1: "backend_inv ?s" by simp
  have side1: "beside s ?s" by (simp add: beside_def cancelOwnedMonitor_def exited_def)
  show ?thesis using True inv1 side1
    by (simp add: handleSpawnError_def scheduleRestart_inv)
qed (use inv in \<open>simp add: handleSpawnError_def\<close>)

section \<open>The invariant of the machine\<close>

definition machine_inv :: "machine \<Rightarrow> bool" where
  "machine_inv m \<longleftrightarrow> backend_inv (mc_backend m)
     \<and> (\<forall>op p. mc_running m = Some (op, p) \<longrightarrow> lc.waiting (mc_backend m) p)
     \<and> (\<forall>p. mc_owned m = Some p \<longrightarrow> mon.waiting (mc_backend m) p)
     \<and> (\<forall>p. mc_adopted m = Some p \<longrightarrow> mon.waiting (mc_backend m) p)"

lemma machine_invI:
  assumes "backend_inv (mc_backend m)"
    and "\<And>op p. mc_running m = Some (op, p) \<Longrightarrow> lc.waiting (mc_backend m) p"
    and "\<And>p. mc_owned m = Some p \<Longrightarrow> mon.waiting (mc_backend m) p"
    and "\<And>p. mc_adopted m = Some p \<Longrightarrow> mon.waiting (mc_backend m) p"
  shows "machine_inv m"
  using assms by (simp add: machine_inv_def)

lemma machine_invD:
  assumes "machine_inv m"
  shows "backend_inv (mc_backend m)" "mc_running m = Some (op, p) \<Longrightarrow> lc.waiting (mc_backend m) p"
    "mc_owned m = Some q \<Longrightarrow> mon.waiting (mc_backend m) q"
    "mc_adopted m = Some q \<Longrightarrow> mon.waiting (mc_backend m) q"
  using assms by (auto simp: machine_inv_def)

lemma beside_guar: "beside s s' \<Longrightarrow> lifecycle_guar s s'"
  by (simp add: beside_def lifecycle_guar_def)

text \<open>A step beside the lifecycle operation, and a step of it.\<close>

lemma machine_beside:
  assumes inv: "machine_inv m" and s: "backend_inv s" "beside (mc_backend m) s"
    and running: "mc_running m' = mc_running m" and b: "mc_backend m' = s"
    and owned: "\<And>p. mc_owned m' = Some p \<Longrightarrow> mc_owned m = Some p \<or> mon.waiting s p"
    and adopted: "\<And>p. mc_adopted m' = Some p \<Longrightarrow> mc_adopted m = Some p \<or> mon.waiting s p"
  shows "machine_inv m'"
proof (rule machine_invI)
  note D = machine_invD [OF inv]
  show "backend_inv (mc_backend m')" using s b by simp
  show "lc.waiting (mc_backend m') p" if "mc_running m' = Some (op, p)" for op p
    using lc.waiting_rely [OF D(2) D(1) s(2)] that running b by simp
  have keep: "mon.waiting s p" if "mon.waiting (mc_backend m) p" for p :: "unit running"
    using mon.waiting_rely [OF that D(1) beside_guar [OF s(2)]] .
  show "mon.waiting (mc_backend m') p" if "mc_owned m' = Some p" for p
    using owned [OF that] D(3) keep b by auto
  show "mon.waiting (mc_backend m') p" if "mc_adopted m' = Some p" for p
    using adopted [OF that] D(4) keep b by auto
qed

lemma machine_lifecycle:
  assumes inv: "machine_inv m" and s: "backend_inv s" "lifecycle_guar (mc_backend m) s" "lc.waiting s p"
  shows "machine_inv (m\<lparr>mc_backend := s, mc_running := Some (op, p)\<rparr>)"
proof -
  note D = machine_invD [OF inv]
  have keep: "mon.waiting s p" if "mon.waiting (mc_backend m) p" for p :: "unit running"
    using mon.waiting_rely [OF that D(1) s(2)] .
  show ?thesis using s keep D(3,4) by (intro machine_invI) auto
qed

lemma lifecycle_program_safe:
  assumes "\<And>prev. op \<noteq> OpRecover prev" "\<And>p t g. op = OpStopAdopted p t g \<Longrightarrow> verified p t s"
  shows "\<exists>P. P s \<and> lc.triple P (lifecycle_program op) (\<lambda>_ _. True)"
proof -
  have T: "\<exists>P. P s \<and> lc.triple P m (\<lambda>_ _. True)" if "lc.ok m" for m :: "backend_status act"
    using that unfolding lc.ok_def by (intro exI [of _ "\<lambda>_. True"]) simp
  show ?thesis
  proof (cases op)
    case (OpStopAdopted p t g)
    then show ?thesis using assms(2) lc_stop_adopted_op by (intro exI [of _ "verified p t"]) simp
  qed (use assms(1) in \<open>simp_all add: T ok_start ok_stop ok_restart ok_preserve ok_unhealthy\<close>)
qed

lemma inv_queue:
  assumes "backend_inv s" "set l \<subseteq> set (be_lifecycle s)"
  shows "backend_inv (s\<lparr>be_lifecycle := l\<rparr>)"
proof -
  have "(p, t) \<in> be_verified s" if "OpStopAdopted p t g \<in> set l" for p t g
    using assms that unfolding backend_inv_def by blast
  moreover have "OpRecover prev \<notin> set l" for prev using assms unfolding backend_inv_def by blast
  ultimately show ?thesis using assms(1) by (simp add: backend_inv_def)
qed

lemma inv_head:
  assumes "backend_inv s" "be_lifecycle s = op # ops"
  shows "op \<noteq> OpRecover prev" "op = OpStopAdopted p t g \<Longrightarrow> verified p t s"
proof -
  have "op \<in> set (be_lifecycle s)" using assms(2) by simp
  then show "op \<noteq> OpRecover prev" "op = OpStopAdopted p t g \<Longrightarrow> verified p t s"
    using assms(1) unfolding backend_inv_def verified_def by blast+
qed

lemma begin_inv:
  assumes inv: "machine_inv m" and q: "be_lifecycle (mc_backend m) = op # ops"
    and run: "lifecycle_program op w ((mc_backend m)\<lparr>be_lifecycle := ops\<rparr>) = (s, p)"
  shows "machine_inv (m\<lparr>mc_backend := s, mc_running := Some (op, p)\<rparr>)"
proof -
  let ?t = "(mc_backend m)\<lparr>be_lifecycle := ops\<rparr>"
  have b: "backend_inv (mc_backend m)" using machine_invD(1) [OF inv] .
  then have t: "backend_inv ?t" using q by (intro inv_queue) auto
  have "op \<noteq> OpRecover prev" for prev using inv_head(1) [OF b q] .
  moreover have "verified p t ?t" if "op = OpStopAdopted p t g" for p t g
    using inv_head(2) [OF b q that] by (simp add: verified_def)
  ultimately obtain P where P: "P ?t" "lc.triple P (lifecycle_program op) (\<lambda>_ _. True)"
    using lifecycle_program_safe [of op ?t] by blast
  have "backend_inv s \<and> lifecycle_guar ?t s \<and> lc.waiting s p"
    by (rule lc.waiting_start [OF P(2) t P(1) run])
  moreover from this have "lifecycle_guar (mc_backend m) s" by (simp add: lifecycle_guar_def)
  ultimately show ?thesis using machine_lifecycle [OF inv] by blast
qed

lemma machine_other:
  assumes "machine_inv m" "backend_inv s \<and> beside (mc_backend m) s"
  shows "machine_inv (m\<lparr>mc_backend := s\<rparr>)"
  by (rule machine_beside [OF assms(1), where s = s]) (use assms(2) in simp_all)

lemma machine_owned:
  assumes "machine_inv m" "backend_inv s \<and> beside (mc_backend m) s \<and> mon.waiting s p"
  shows "machine_inv (m\<lparr>mc_backend := s, mc_owned := Some p\<rparr>)"
  by (rule machine_beside [OF assms(1), where s = s]) (use assms(2) in simp_all)

lemma machine_adopted:
  assumes "machine_inv m" "backend_inv s \<and> beside (mc_backend m) s \<and> mon.waiting s p"
  shows "machine_inv (m\<lparr>mc_backend := s, mc_adopted := Some p\<rparr>)"
  by (rule machine_beside [OF assms(1), where s = s]) (use assms(2) in simp_all)

lemma machine_failed [simp]: "machine_inv (m\<lparr>mc_failed := n\<rparr>) = machine_inv m"
  by (simp add: machine_inv_def)

lemma mark_then:
  assumes "backend_inv s" "backend_inv (mark_exited c s) \<Longrightarrow> exited (mark_exited c s) c \<Longrightarrow>
      backend_inv t \<and> beside (mark_exited c s) t"
  shows "backend_inv t \<and> beside s t"
  using mark_exited_ok [OF assms(1), of c] assms(2) by (auto simp: exited_mark intro: beside_trans)

lemma step_machine_inv:
  assumes "mc_step m m'" and inv: "machine_inv m"
  shows "machine_inv m'"
proof -
  note b = machine_invD(1) [OF inv]
  show ?thesis using assms(1)
  proof (cases rule: mc_step.cases)
    case start
    show ?thesis unfolding start by (rule machine_other [OF inv request_start_ok [OF b]])
  next
    case stop
    have "backend_inv (enqueue_op OpStop (mc_backend m))" using b by (rule enqueue_inv [rotated 2]) simp_all
    then show ?thesis unfolding stop by (intro machine_other [OF inv]) simp
  next
    case restart
    have "backend_inv (enqueue_op OpRestart (mc_backend m))" using b by (rule enqueue_inv [rotated 2]) simp_all
    then show ?thesis unfolding restart by (intro machine_other [OF inv]) simp
  next
    case preserve
    show ?thesis unfolding preserve by (rule machine_other [OF inv request_preserve_ok [OF b]])
  next
    case (begin_op op ops w s p)
    show ?thesis unfolding begin_op(1) by (rule begin_inv [OF inv begin_op(3,4)])
  next
    case (resume op q k a w s p)
    have "backend_inv s \<and> lifecycle_guar (mc_backend m) s \<and> lc.waiting s p"
      by (rule lc.waiting_resume [OF machine_invD(2) [OF inv resume(2)] b resume(3,4)])
    then show ?thesis unfolding resume(1) using machine_lifecycle [OF inv] by blast
  next
    case (finish op r)
    show ?thesis unfolding finish(1) using inv by (simp add: machine_inv_def finish_op_def)
  next
    case (retry n)
    have "machine_inv (m\<lparr>mc_backend := scheduleRestart (mc_backend m)\<rparr>)"
      using scheduleRestart_inv [OF b] by (intro machine_other [OF inv]) simp
    then have "machine_inv (m\<lparr>mc_backend := scheduleRestart (mc_backend m)\<rparr>\<lparr>mc_failed := n\<rparr>)" by simp
    then show ?thesis unfolding retry(1) by simp
  next
    case (timer d)
    show ?thesis unfolding timer(1) by (rule machine_other [OF inv timer_fires_ok [OF b]])
  next
    case (owned_tick c t g w s q)
    have "backend_inv s \<and> beside (mc_backend m) s \<and> mon.waiting s q"
      by (rule mon.waiting_start [OF mon_owned [unfolded mon.ok_def] b TrueI owned_tick(4)])
    then show ?thesis unfolding owned_tick(1) by (rule machine_owned [OF inv])
  next
    case (owned_resume q k a w s p)
    have "backend_inv s \<and> beside (mc_backend m) s \<and> mon.waiting s p"
      by (rule mon.waiting_resume [OF machine_invD(3) [OF inv owned_resume(2)] b owned_resume(3,4)])
    then show ?thesis unfolding owned_resume(1) by (rule machine_owned [OF inv])
  next
    case (owned_finish r)
    show ?thesis unfolding owned_finish(1) using inv by (simp add: machine_inv_def)
  next
    case (adopted_tick g w s q)
    have "backend_inv s \<and> beside (mc_backend m) s \<and> mon.waiting s q"
      by (rule mon.waiting_start [OF mon_adopted [unfolded mon.ok_def] b TrueI adopted_tick(4)])
    then show ?thesis unfolding adopted_tick(1) by (rule machine_adopted [OF inv])
  next
    case (adopted_resume q k a w s p)
    have "backend_inv s \<and> beside (mc_backend m) s \<and> mon.waiting s p"
      by (rule mon.waiting_resume [OF machine_invD(4) [OF inv adopted_resume(2)] b adopted_resume(3,4)])
    then show ?thesis unfolding adopted_resume(1) by (rule machine_adopted [OF inv])
  next
    case (adopted_finish r)
    show ?thesis unfolding adopted_finish(1) using inv by (simp add: machine_inv_def)
  next
    case (exits c code sig)
    show ?thesis unfolding exits(1)
      by (rule machine_other [OF inv mark_then [OF b handleExit_ok]])
  next
    case (spawn_error c e)
    show ?thesis unfolding spawn_error(1)
      by (rule machine_other [OF inv mark_then [OF b handleSpawnError_ok]])
  qed
qed

lemma new_backend_fresh: "backend_inv (new_backend options) \<and> fresh (new_backend options)"
  by (simp add: backend_inv_def fresh_def new_backend_def exited_def)

lemma reachable_machine_inv: "mc_reachable options m \<Longrightarrow> machine_inv m"
proof (induction rule: mc_reachable.induct)
  case (init previous w s p)
  have "backend_inv s \<and> lifecycle_guar (new_backend options) s \<and> lc.waiting s p"
    by (rule lc.waiting_start [OF lc_recover_op [OF init(1)] _ _ init(2)])
      (use new_backend_fresh in auto)
  then show ?case by (intro machine_invI) auto
qed (blast intro: step_machine_inv)

section \<open>A run\<close>

text \<open>A first start without a persisted status: two awaits later a child process exists.\<close>

definition run_options :: backend_options where
  "run_options = default_options\<lparr>opt_spawn_given := True\<rparr>"

definition run_world :: os where
  "run_world = \<lparr>os_alive = (\<lambda>_. True), os_uuid = ''token'', os_spawn = Inr (Some 4711), os_sigterm = KillSent,
     os_sigkill = KillSent, os_now = 0\<rparr>"

definition answered :: "answer \<Rightarrow> backend \<times> backend_status running \<Rightarrow> backend \<times> backend_status running" where
  "answered a sp = (case snd sp of Await q k \<Rightarrow> k a run_world (fst sp) | Return r \<Rightarrow> sp)"

definition run_a :: "backend \<times> backend_status running" where
  "run_a = recover_op None run_world (new_backend run_options)"

definition run_b :: "backend \<times> backend_status running" where
  "run_b = answered Turned run_a"

definition run_c :: "backend \<times> backend_status running" where
  "run_c = answered (Written None) run_b"

definition machine_of :: "backend_status option \<Rightarrow> backend \<times> backend_status running \<Rightarrow> machine" where
  "machine_of prev sp = \<lparr>mc_backend = fst sp, mc_running = Some (OpRecover prev, snd sp), mc_owned = None,
     mc_adopted = None, mc_failed = 0\<rparr>"

lemmas async_defs = after.simps attempt_def bind_def andThen_def ret_def throw_def result_def await_def
  look_def modify_def call_def try_catch_def

lemma run_a_await: "\<exists>k. snd run_a = Await Turn k"
  by (simp add: run_a_def recover_op_def adoptInternal_def async_defs)

lemma run_b_await: "\<exists>k st. snd run_b = Await (Persist st) k"
  by (simp add: run_b_def answered_def run_a_def recover_op_def adoptInternal_def async_defs
      startInternal_def start_owned_def start_new_def launch_def emitStatus_def cancelRestart_def
      run_options_def default_options_def new_backend_def truthy_pid_def Let_def)

lemma run_c_state: "be_child (fst run_c) = Some 0 \<and> \<not> exited (fst run_c) 0"
  by (simp add: run_c_def run_b_def answered_def run_a_def recover_op_def adoptInternal_def async_defs
      startInternal_def start_owned_def start_new_def launch_def emitStatus_def cancelRestart_def
      run_options_def default_options_def new_backend_def truthy_pid_def Let_def spawn_child_def run_world_def
      await_ready_def child_pid_def exited_def)


lemma answered_step:
  assumes "mc_reachable options (machine_of prev sp)" "snd sp = Await q k" "fits q a (fst sp)"
  shows "mc_reachable options (machine_of prev (answered a sp))"
proof (rule mc_reachable.step [OF assms(1)])
  have "mc_step (machine_of prev sp) ((machine_of prev sp)\<lparr>mc_backend := fst (answered a sp),
      mc_running := Some (OpRecover prev, snd (answered a sp))\<rparr>)"
    using assms(2,3) by (intro mc_step.resume [where w = run_world]) (auto simp: machine_of_def answered_def)
  then show "mc_step (machine_of prev sp) (machine_of prev (answered a sp))" by (simp add: machine_of_def)
qed

lemma mc_run_reachable: "mc_reachable run_options (machine_of None run_c)"
proof -
  have a: "mc_reachable run_options (machine_of None run_a)" unfolding machine_of_def
    by (rule mc_reachable.init [where w = run_world]) (simp_all add: run_a_def valid_previous_def)
  obtain k where "snd run_a = Await Turn k" using run_a_await by blast
  then have b: "mc_reachable run_options (machine_of None run_b)"
    unfolding run_b_def by (rule answered_step [OF a]) (simp add: fits_def)
  obtain k' st where "snd run_b = Await (Persist st) k'" using run_b_await by blast
  then show ?thesis unfolding run_c_def by (rule answered_step [OF b]) (simp add: fits_def)
qed

text \<open>After a restart of the supervisor with a persisted intent to stop, an orphan is identified.\<close>

definition run_previous :: backend_status where
  "run_previous = \<lparr>bs_state = BRunning, bs_desired_state = DesiredStopped, bs_pid = Some 7,
     bs_restart_count = 0, bs_last_exit_code = None, bs_last_signal = None, bs_last_error = None,
     bs_instance_token = Some ''token'', bs_last_startup_ms = None\<rparr>"

definition orphan_a :: "backend \<times> backend_status running" where
  "orphan_a = recover_op (Some run_previous) run_world (new_backend run_options)"

definition orphan_b :: "backend \<times> backend_status running" where
  "orphan_b = answered (Identity (Some 7)) orphan_a"

definition orphan_c :: "backend \<times> backend_status running" where
  "orphan_c = answered Turned orphan_b"

definition orphan_d :: "backend \<times> backend_status running" where
  "orphan_d = answered (Written None) orphan_c"

lemmas orphan_defs = recover_op_def recoverStopped_def run_previous_def truthy_pid_def truthy_token_def
  waitForPersistedIdentity_def async_defs run_world_def answered_def clearAdopted_def cancelAdoptedMonitor_def
  cancelOwnedMonitor_def cancelRestart_def emitStatus_def terminateAdopted_def

lemma orphan_a_await: "\<exists>k. snd orphan_a = Await (WaitIdentity (Some 7) ''token'') k"
  by (simp add: orphan_a_def orphan_defs)

lemma orphan_b_await: "\<exists>k. snd orphan_b = Await Turn k"
  by (simp add: orphan_b_def orphan_a_def orphan_defs)

lemma orphan_c_await: "\<exists>k st. snd orphan_c = Await (Persist st) k"
  by (simp add: orphan_c_def orphan_b_def orphan_a_def orphan_defs)

lemma orphan_d_await: "\<exists>k. snd orphan_d = Await (TerminateAdopted 7) k"
  by (simp add: orphan_d_def orphan_c_def orphan_b_def orphan_a_def orphan_defs)

lemma orphan_reachable: "mc_reachable run_options (machine_of (Some run_previous) orphan_d)"
proof -
  have a: "mc_reachable run_options (machine_of (Some run_previous) orphan_a)" unfolding machine_of_def
    by (rule mc_reachable.init [where w = run_world]) (simp_all add: orphan_a_def valid_previous_def run_previous_def)
  obtain k where ka: "snd orphan_a = Await (WaitIdentity (Some 7) ''token'') k" using orphan_a_await by blast
  have "persisted_identity (Some 7) ''token'' [\<lparr>io_health = Some (JInt 7, JStr ''token''), io_alive = (\<lambda>_. True),
      io_late = False\<rparr>] = Some (Some 7)"
    by (simp add: positive_integer_def)
  then have "\<exists>obs. persisted_identity (Some 7) ''token'' obs = Some (Some 7)" by (rule exI)
  then have "fits (WaitIdentity (Some 7) ''token'') (Identity (Some 7)) (fst orphan_a)"
    by (simp add: fits_def)
  then have b: "mc_reachable run_options (machine_of (Some run_previous) orphan_b)"
    unfolding orphan_b_def by (rule answered_step [OF a ka])
  obtain k where "snd orphan_b = Await Turn k" using orphan_b_await by blast
  then have c: "mc_reachable run_options (machine_of (Some run_previous) orphan_c)"
    unfolding orphan_c_def by (rule answered_step [OF b]) (simp add: fits_def)
  obtain k st where "snd orphan_c = Await (Persist st) k" using orphan_c_await by blast
  then show ?thesis unfolding orphan_d_def by (rule answered_step [OF c]) (simp add: fits_def)
qed

text \<open>The first child of the run exits.\<close>

definition run_exit :: machine where
  "run_exit = (machine_of None run_c)\<lparr>mc_backend := handleExit 0 (Some 1) None (mark_exited 0 (fst run_c))\<rparr>"

lemma run_exit_reachable: "mc_reachable run_options run_exit"
  unfolding run_exit_def
  using mc_step.exits [of "machine_of None run_c" 0 "Some 1" None] run_c_state
  by (intro mc_reachable.step [OF mc_run_reachable]) (simp add: machine_of_def)

lemma run_exit_timer: "be_restart_timer (mc_backend run_exit) = Some 1000"
  by (simp add: run_exit_def machine_of_def run_c_def run_b_def answered_def run_a_def recover_op_def
      adoptInternal_def async_defs startInternal_def start_owned_def start_new_def launch_def emitStatus_def
      cancelRestart_def run_options_def default_options_def new_backend_def truthy_pid_def Let_def
      spawn_child_def run_world_def await_ready_def child_pid_def exited_def handleExit_def mark_exited_def
      cancelOwnedMonitor_def scheduleRestart_def restart_delay_def)

section \<open>Properties\<close>



text \<open>A refused signal drops a live child and, while the backend is meant to run, schedules another beside it.\<close>

theorem refused_signal_restarts_beside:
  assumes "be_child s = Some c" "\<not> exited s c" "be_desired s = DesiredRunning" "\<not> be_preserving s"
  shows "\<not> exited (kill_refused c s) c \<and> be_child (kill_refused c s) = None \<and> be_restart_timer (kill_refused c s) \<noteq> None"
  using assms by (simp add: kill_refused_def handleSpawnError_def cancelOwnedMonitor_def scheduleRestart_def exited_def)

text \<open>
  C13. No process is terminated by pid unless it proved to be the backend: whenever the controller
  asks the operating system to terminate an adopted process, that pid has answered the health
  endpoint with the instance token recorded for it.
\<close>

theorem terminates_only_verified:
  assumes "mc_reachable options m" "mc_running m = Some (op, Await (TerminateAdopted p) k)"
  shows "\<exists>token. (p, token) \<in> be_verified (mc_backend m)"
proof -
  note inv = reachable_machine_inv [OF assms(1)]
  have "allowed (TerminateAdopted p) (mc_backend m)"
    by (rule lc.waiting_allowed [OF machine_invD(2) [OF inv assms(2)] machine_invD(1) [OF inv]])
  then show ?thesis by simp
qed

theorem terminates_only_verified_witness:
  "\<exists>token. (7, token) \<in> be_verified (fst orphan_d)"
proof -
  obtain k where "snd orphan_d = Await (TerminateAdopted 7) k" using orphan_d_await by blast
  then show ?thesis using terminates_only_verified [OF orphan_reachable, of _ 7 k]
    by (simp add: machine_of_def)
qed

text \<open>
  C30. An automatic restart is pending only while the backend is meant to run, and never further
  away than the configured maximum.
\<close>

theorem restart_only_if_desired:
  assumes "mc_reachable options m" "be_restart_timer (mc_backend m) = Some d"
  shows "be_desired (mc_backend m) = DesiredRunning \<and> d \<le> opt_restart_max (be_options (mc_backend m))"
  using machine_invD(1) [OF reachable_machine_inv [OF assms(1)]] assms(2) by (simp add: backend_inv_def)

theorem restart_only_if_desired_witness:
  "be_desired (mc_backend run_exit) = DesiredRunning \<and> (1000::int) \<le> opt_restart_max (be_options (mc_backend run_exit))"
  using restart_only_if_desired [OF run_exit_reachable run_exit_timer] .

end
