(* ===== verification/Text_Tools.thy ===== *)
theory Text_Tools imports Prelude begin

text \<open>
  The string operations of the standard library that the parsers use: \<open>split\<close> and \<open>join\<close>,
  \<open>startsWith\<close> and \<open>endsWith\<close>, and \<open>toString\<close> of a number in a radix up to sixteen.
\<close>

fun split_on :: "char \<Rightarrow> string \<Rightarrow> string list" where
  "split_on c [] = [[]]"
| "split_on c (x # xs) =
     (if x = c then [] # split_on c xs
      else case split_on c xs of [] \<Rightarrow> [[x]] | p # ps \<Rightarrow> (x # p) # ps)"

fun join :: "string \<Rightarrow> string list \<Rightarrow> string" where
  "join sep [] = []"
| "join sep [x] = x"
| "join sep (x # y # xs) = x @ sep @ join sep (y # xs)"

definition starts_with :: "string \<Rightarrow> string \<Rightarrow> bool" where
  "starts_with p s \<longleftrightarrow> take (length p) s = p"

definition ends_with :: "string \<Rightarrow> string \<Rightarrow> bool" where
  "ends_with p s \<longleftrightarrow> length p \<le> length s \<and> drop (length s - length p) s = p"

definition hex_value_of :: "char \<Rightarrow> nat option" where
  "hex_value_of c =
     (let n = of_char c :: nat in
      if 48 \<le> n \<and> n \<le> 57 then Some (n - 48)
      else if 97 \<le> n \<and> n \<le> 102 then Some (n - 87)
      else if 65 \<le> n \<and> n \<le> 70 then Some (n - 55)
      else None)"

definition digit_char :: "nat \<Rightarrow> char" where
  "digit_char d = (if d < 10 then char_of (48 + d) else char_of (87 + d))"

function radix_string :: "nat \<Rightarrow> nat \<Rightarrow> string" where
  "radix_string b n = (if n < b \<or> b < 2 then [digit_char n] else radix_string b (n div b) @ [digit_char (n mod b)])"
  by pat_completeness auto
termination
  by (relation "measure snd") auto

declare radix_string.simps [simp del]

definition dec_string :: "nat \<Rightarrow> string" where "dec_string n = radix_string 10 n"
definition hex_string :: "nat \<Rightarrow> string" where "hex_string n = radix_string 16 n"

text \<open>\<open>String(n)\<close> of an integer.\<close>

definition int_string :: "int \<Rightarrow> string" where
  "int_string n = (if n < 0 then CHR ''-'' # dec_string (nat (- n)) else dec_string (nat n))"

lemma digit_char_value: "d < 10 \<Longrightarrow> (of_char (digit_char d) :: nat) = 48 + d"
  by (simp add: digit_char_def)

lemma digits_value_snoc: "digits_value (s @ [c]) = 10 * digits_value s + (of_char c - 48)"
  by (simp add: digits_value_def)

lemma digits_value_dec [simp]: "digits_value (dec_string n) = n"
  unfolding dec_string_def
proof (induction n rule: less_induct)
  case (less n)
  show ?case
  proof (cases "n < 10")
    case True
    then show ?thesis by (simp add: radix_string.simps [of 10 n] digits_value_def digit_char_value)
  next
    case False
    then show ?thesis using less [of "n div 10"]
      by (simp add: radix_string.simps [of 10 n] digits_value_snoc digit_char_value)
  qed
qed

lemma dec_string_digits: "list_all is_digit (dec_string n)"
  unfolding dec_string_def
proof (induction n rule: less_induct)
  case (less n)
  have d: "is_digit (digit_char (n mod 10))" by (simp add: is_digit_def digit_char_value)
  show ?case
  proof (cases "n < 10")
    case True
    then show ?thesis using d by (simp add: radix_string.simps [of 10 n])
  next
    case False
    then show ?thesis using less [of "n div 10"] d by (simp add: radix_string.simps [of 10 n])
  qed
qed

lemma int_string_chars: "c \<in> set (int_string n) \<Longrightarrow> is_digit c \<or> c = CHR ''-''"
  using dec_string_digits by (auto simp: int_string_def list_all_iff split: if_splits)

lemma int_string_inject: "int_string m = int_string n \<Longrightarrow> m = n"
proof -
  assume eq: "int_string m = int_string n"
  have minus: "dec_string k \<noteq> CHR ''-'' # s" for k s
    using dec_string_digits [of k] by (auto simp: is_digit_def)
  show "m = n"
  proof (cases "m < 0")
    case True
    then have "n < 0" using eq minus [of "nat n"] by (metis int_string_def)
    then have "dec_string (nat (- m)) = dec_string (nat (- n))" using eq True by (simp add: int_string_def)
    then have "nat (- m) = nat (- n)" by (metis digits_value_dec)
    then show ?thesis using True \<open>n < 0\<close> by simp
  next
    case False
    then have "\<not> n < 0" using eq minus [of "nat m"] by (metis int_string_def)
    then have "dec_string (nat m) = dec_string (nat n)" using eq False by (simp add: int_string_def)
    then have "nat m = nat n" by (metis digits_value_dec)
    then show ?thesis using False \<open>\<not> n < 0\<close> by simp
  qed
qed

lemma split_on_nonempty [simp]: "split_on c s \<noteq> []"
  by (induction s) (auto split: list.split)

lemma split_on_none: "c \<notin> set s \<Longrightarrow> split_on c s = [s]"
  by (induction s) auto

lemma split_on_append: "c \<notin> set p \<Longrightarrow> split_on c (p @ c # s) = p # split_on c s"
  by (induction p) auto

lemma join_Cons: "ps \<noteq> [] \<Longrightarrow> join sep (p # ps) = p @ sep @ join sep ps"
  by (cases ps) auto

lemma split_join: "ps \<noteq> [] \<Longrightarrow> \<forall>p \<in> set ps. c \<notin> set p \<Longrightarrow> split_on c (join [c] ps) = ps"
proof (induction ps)
  case (Cons p ps)
  then show ?case by (cases ps) (simp_all add: split_on_none split_on_append)
qed simp

lemma join_push [simp]: "join sep ((x # p) # ps) = x # join sep (p # ps)"
  by (cases ps) auto

lemma join_split: "join [c] (split_on c s) = s"
proof (induction s)
  case (Cons x s)
  then show ?case
    by (cases "split_on c s") (auto simp: join_Cons)
qed simp

lemma split_on_parts: "p \<in> set (split_on c s) \<Longrightarrow> c \<notin> set p"
  by (induction s arbitrary: p) (auto split: list.splits if_splits)

lemma starts_with_append [simp]: "starts_with p (p @ s)"
  by (simp add: starts_with_def)

lemma starts_with_iff: "starts_with p s \<longleftrightarrow> (\<exists>t. s = p @ t)"
  by (metis append_take_drop_id starts_with_append starts_with_def)

lemma ends_with_iff: "ends_with p s \<longleftrightarrow> (\<exists>t. s = t @ p)"
proof
  assume "ends_with p s"
  then show "\<exists>t. s = t @ p" by (metis append_take_drop_id ends_with_def)
qed (auto simp: ends_with_def)

end
