(* ===== verification/Domain_Rules.thy ===== *)
theory Domain_Rules imports Text_Tools begin

text \<open>
  The domain rules of the DNS filter (\<open>src/dnsfilter/domain-rules.ts\<close>): the normal form of a
  rule's domain, the set of domains with its walk over the parents of a name, and the decision. A
  rule covers its domain and everything below it, on label boundaries; the allow list wins.
\<close>

section \<open>Normal form of a domain\<close>

definition MAX_DOMAIN_LENGTH :: nat where "MAX_DOMAIN_LENGTH = 253"

definition word_char :: "char \<Rightarrow> bool" where
  "word_char c = (let n = of_char c :: nat in (97 \<le> n \<and> n \<le> 122) \<or> (48 \<le> n \<and> n \<le> 57) \<or> n = 95)"

text \<open>The regular expression \<open>LABEL\<close>.\<close>

definition label_test :: "string \<Rightarrow> bool" where
  "label_test l =
     (case l of
        [] \<Rightarrow> False
      | c # rest \<Rightarrow> word_char c \<and>
          (rest = [] \<or> (length rest \<le> 62 \<and> word_char (last rest)
             \<and> list_all (\<lambda>x. word_char x \<or> x = CHR ''-'') (butlast rest))))"

datatype domain_error = EmptyDomain | DomainTooLong | NotADomain

definition normalizeDomain :: "string \<Rightarrow> domain_error + string" where
  "normalizeDomain input =
     (let text0 = js_lower (js_trim input);
          text1 = (if starts_with ''*.'' text0 then drop 2 text0 else text0);
          text = (if ends_with ''.'' text1 then butlast text1 else text1)
      in if text = [] then Inl EmptyDomain
         else if length text > MAX_DOMAIN_LENGTH then Inl DomainTooLong
         else if \<not> list_all label_test (split_on CHR ''.'' text) then Inl NotADomain
         else Inr text)"

text \<open>The first value that cannot be read is the configuration error.\<close>

fun normalizeDomainList :: "string \<Rightarrow> string list \<Rightarrow> (string \<times> string \<times> domain_error) + string list" where
  "normalizeDomainList key [] = Inr []"
| "normalizeDomainList key (v # vs) =
     (case normalizeDomain v of
        Inl r \<Rightarrow> Inl (key, v, r)
      | Inr d \<Rightarrow> (case normalizeDomainList key vs of Inl e \<Rightarrow> Inl e | Inr ds \<Rightarrow> Inr (d # ds)))"

section \<open>Sets of domains\<close>

text \<open>What follows the first dot.\<close>

fun after_dot :: "string \<Rightarrow> string option" where
  "after_dot [] = None"
| "after_dot (c # s) = (if c = CHR ''.'' then Some s else after_dot s)"

lemma after_dot_shorter: "after_dot s = Some t \<Longrightarrow> length t < length s"
  by (induction s) (auto split: if_splits)

type_synonym domain_set = "string list"

function domain_match :: "domain_set \<Rightarrow> string \<Rightarrow> string option" where
  "domain_match ds candidate =
     (if candidate \<in> set ds then Some candidate
      else case after_dot candidate of None \<Rightarrow> None | Some parent \<Rightarrow> domain_match ds parent)"
  by pat_completeness auto
termination
  by (relation "measure (\<lambda>(ds, s). length s)") (auto dest: after_dot_shorter)

declare domain_match.simps [simp del]

section \<open>Decisions\<close>

datatype rule_source = SourceApi | SourceConfig | SourceDoh

datatype decision =
    AllowedBy string
  | AllowedByDefault
  | BlockedBy string rule_source

record rule_book =
  rb_allowed :: domain_set
  rb_blocked :: "(rule_source \<times> domain_set) list"

fun decide_blocked :: "string \<Rightarrow> (rule_source \<times> domain_set) list \<Rightarrow> decision" where
  "decide_blocked name [] = AllowedByDefault"
| "decide_blocked name ((source, ds) # rest) =
     (case domain_match ds name of Some rule \<Rightarrow> BlockedBy rule source | None \<Rightarrow> decide_blocked name rest)"

definition decide :: "string \<Rightarrow> rule_book \<Rightarrow> decision" where
  "decide name book =
     (case domain_match (rb_allowed book) name of
        Some rule \<Rightarrow> AllowedBy rule
      | None \<Rightarrow> decide_blocked name (rb_blocked book))"

section \<open>What a rule covers\<close>

text \<open>The specification: a domain covers itself and every name that ends in a dot and the domain.\<close>

definition covers :: "string \<Rightarrow> string \<Rightarrow> bool" where
  "covers d n \<longleftrightarrow> n = d \<or> (\<exists>p. n = p @ ''.'' @ d)"

lemma covers_refl [simp]: "covers d d"
  by (simp add: covers_def)

lemma covers_trans: "covers a b \<Longrightarrow> covers b c \<Longrightarrow> covers a c"
  by (auto simp: covers_def)

lemma after_dot_None: "after_dot s = None \<longleftrightarrow> CHR ''.'' \<notin> set s"
  by (induction s) auto

lemma after_dot_Some: "after_dot s = Some t \<Longrightarrow> \<exists>p. s = p @ CHR ''.'' # t \<and> CHR ''.'' \<notin> set p"
proof (induction s)
  case (Cons c s)
  show ?case
  proof (cases "c = CHR ''.''")
    case True
    with Cons.prems show ?thesis by (intro exI [of _ "[]"]) simp
  next
    case False
    with Cons obtain p where "s = p @ CHR ''.'' # t" "CHR ''.'' \<notin> set p" by auto
    with False show ?thesis by (intro exI [of _ "c # p"]) simp
  qed
qed simp

lemma covers_no_dot: "after_dot s = None \<Longrightarrow> covers d s \<longleftrightarrow> d = s"
  by (auto simp: covers_def after_dot_None)

lemma covers_parent: "after_dot s = Some t \<Longrightarrow> covers d s \<longleftrightarrow> d = s \<or> covers d t"
proof -
  assume "after_dot s = Some t"
  then obtain p where p: "s = p @ CHR ''.'' # t" "CHR ''.'' \<notin> set p" using after_dot_Some by blast
  have "covers d t" if "s = r @ CHR ''.'' # d" for r
  proof (cases "length r \<le> length p")
    case True
    from that p have "r = take (length r) p \<and> (length r < length p \<longrightarrow> p ! length r = CHR ''.'')"
      using True by (metis append_eq_append_conv_if append_eq_conv_conj nth_append nth_append_length)
    with p True that have "length r = length p" by (metis le_neq_implies_less nth_mem)
    with that p show ?thesis by simp
  next
    case False
    from that p have "drop (length p + 1) s = drop (length p + 1) r @ CHR ''.'' # d"
      using False by simp
    with p have "t = drop (length p + 1) r @ ''.'' @ d" by simp
    then show ?thesis unfolding covers_def by blast
  qed
  moreover have "covers d s" if "covers d t"
    using that p unfolding covers_def by (metis append.assoc append_Cons append_Nil)
  ultimately show ?thesis unfolding covers_def [of d s] by auto
qed

lemma domain_match_None: "domain_match ds n = None \<longleftrightarrow> (\<forall>d \<in> set ds. \<not> covers d n)"
proof (induction ds n rule: domain_match.induct)
  case (1 ds n)
  show ?case
  proof (cases "after_dot n")
    case None
    then show ?thesis by (auto simp: domain_match.simps [of ds n] covers_no_dot)
  next
    case (Some t)
    then show ?thesis
      using 1 by (auto simp: domain_match.simps [of ds n] covers_parent [OF Some])
  qed
qed

text \<open>The rule found is the longest of the set that covers the name.\<close>

lemma domain_match_Some:
  "domain_match ds n = Some d \<Longrightarrow> d \<in> set ds \<and> covers d n \<and> (\<forall>d' \<in> set ds. covers d' n \<longrightarrow> covers d' d)"
proof (induction ds n rule: domain_match.induct)
  case (1 ds n)
  show ?case
  proof (cases "n \<in> set ds")
    case True
    with "1.prems" show ?thesis by (simp add: domain_match.simps [of ds n])
  next
    case False
    with "1.prems" obtain t where t: "after_dot n = Some t" "domain_match ds t = Some d"
      by (auto simp: domain_match.simps [of ds n] split: option.splits)
    from "1.IH" [OF False t] False show ?thesis by (auto simp: covers_parent [OF t(1)])
  qed
qed


lemma decide_blocked_cases:
  "(\<exists>r s. decide_blocked n bs = BlockedBy r s) \<longleftrightarrow> (\<exists>(s, ds) \<in> set bs. \<exists>d \<in> set ds. covers d n)"
proof (induction bs)
  case (Cons x bs)
  obtain s ds where x: "x = (s, ds)" by (cases x)
  show ?case
  proof (cases "domain_match ds n")
    case None
    then have "\<forall>d \<in> set ds. \<not> covers d n" by (simp add: domain_match_None)
    with None Cons x show ?thesis by auto
  next
    case (Some d)
    with x domain_match_Some [OF Some] show ?thesis by auto
  qed
qed simp

lemma decide_blocked_not_allowed: "decide_blocked n bs \<noteq> AllowedBy r"
  by (induction n bs rule: decide_blocked.induct) (auto split: option.splits)

text \<open>The source reported is the first, in the order of the book, with a rule that covers the name.\<close>

lemma decide_blocked_first:
  "decide_blocked n bs = BlockedBy r s \<Longrightarrow>
     \<exists>before ds rest. bs = before @ (s, ds) # rest \<and> domain_match ds n = Some r
       \<and> (\<forall>(s', ds') \<in> set before. domain_match ds' n = None)"
proof (induction n bs rule: decide_blocked.induct)
  case (2 name source ds rest)
  show ?case
  proof (cases "domain_match ds name")
    case None
    with 2 obtain before ds' rest' where "rest = before @ (s, ds') # rest'" "domain_match ds' name = Some r"
        "\<forall>(s', ds') \<in> set before. domain_match ds' name = None" by auto
    with None show ?thesis
      by (intro exI [of _ "(source, ds) # before"] exI [of _ ds'] exI [of _ rest']) auto
  next
    case (Some d)
    with 2 show ?thesis by (intro exI [of _ "[]"] exI [of _ ds] exI [of _ rest]) auto
  qed
qed simp

section \<open>Normal forms\<close>

definition normal_domain :: "string \<Rightarrow> bool" where
  "normal_domain d \<longleftrightarrow> d \<noteq> [] \<and> length d \<le> MAX_DOMAIN_LENGTH \<and> list_all label_test (split_on CHR ''.'' d)"

lemma normalizeDomain_normal: "normalizeDomain s = Inr d \<Longrightarrow> normal_domain d"
  by (auto simp: normalizeDomain_def normal_domain_def Let_def split: if_splits)

definition domain_char :: "char \<Rightarrow> bool" where
  "domain_char c \<longleftrightarrow> word_char c \<or> c = CHR ''-'' \<or> c = CHR ''.''"

lemma label_test_chars: "label_test l \<Longrightarrow> c \<in> set l \<Longrightarrow> word_char c \<or> c = CHR ''-''"
proof -
  assume l: "label_test l" "c \<in> set l"
  then obtain x rest where x: "l = x # rest" by (cases l) (auto simp: label_test_def)
  show ?thesis
  proof (cases rest rule: rev_cases)
    case Nil
    with l x show ?thesis by (simp add: label_test_def)
  next
    case (snoc ys y)
    with l x show ?thesis by (auto simp: label_test_def list_all_iff)
  qed
qed

lemma set_split_on: "set s \<subseteq> insert c (\<Union> (set ` set (split_on c s)))"
proof -
  have "set (join sep ps) \<subseteq> set sep \<union> \<Union> (set ` set ps)" for sep ps
    by (induction sep ps rule: join.induct) auto
  from this [of "[c]" "split_on c s"] show ?thesis by (simp add: join_split)
qed

lemma normal_domain_chars: "normal_domain d \<Longrightarrow> c \<in> set d \<Longrightarrow> domain_char c"
  using set_split_on [of d "CHR ''.''"]
  by (fastforce simp: normal_domain_def domain_char_def list_all_iff dest: label_test_chars)

lemma domain_char_plain: "domain_char c \<Longrightarrow> \<not> is_space c \<and> to_lower_char c = c \<and> c \<noteq> CHR ''*''"
  by (auto simp: domain_char_def word_char_def is_space_def to_lower_char_def Let_def)

lemma js_trim_plain: "\<forall>c \<in> set s. \<not> is_space c \<Longrightarrow> js_trim s = s"
proof -
  have keep: "\<forall>c \<in> set xs. \<not> is_space c \<Longrightarrow> dropWhile is_space xs = xs" for xs
    by (cases xs) auto
  show "\<forall>c \<in> set s. \<not> is_space c \<Longrightarrow> js_trim s = s"
    unfolding js_trim_def by (simp add: keep)
qed

lemma js_lower_plain: "(\<And>c. c \<in> set s \<Longrightarrow> to_lower_char c = c) \<Longrightarrow> js_lower s = s"
  by (simp add: js_lower_def map_idI)

lemma split_on_snoc_sep: "split_on c (s @ [c]) = split_on c s @ [[]]"
  by (induction s) (auto split: list.splits)

lemma normalizeDomain_id: "normal_domain d \<Longrightarrow> normalizeDomain d = Inr d"
proof -
  assume d: "normal_domain d"
  have plain: "\<not> is_space c" "to_lower_char c = c" "c \<noteq> CHR ''*''" if "c \<in> set d" for c
    using normal_domain_chars [OF d that] domain_char_plain by auto
  have "js_lower (js_trim d) = d" using plain by (simp add: js_trim_plain js_lower_plain)
  moreover have "\<not> starts_with ''*.'' d"
    using plain(3) [of "CHR ''*''"] by (auto simp: starts_with_iff)
  moreover have "\<not> ends_with ''.'' d"
  proof
    assume "ends_with ''.'' d"
    then obtain p where "d = p @ ''.''" by (auto simp: ends_with_iff)
    then have "[] \<in> set (split_on CHR ''.'' d)" using split_on_snoc_sep by simp
    with d show False by (auto simp: normal_domain_def list_all_iff label_test_def)
  qed
  ultimately show ?thesis
    using d by (simp add: normalizeDomain_def normal_domain_def Let_def)
qed

lemma decide_blocked_iff:
  "(\<exists>r s. decide n book = BlockedBy r s) \<longleftrightarrow>
     {a \<in> set (rb_allowed book). covers a n} = {}
     \<and> (\<exists>(s, ds) \<in> set (rb_blocked book). {d \<in> set ds. covers d n} \<noteq> {})"
proof (cases "domain_match (rb_allowed book) n")
  case None
  then have "decide n book = decide_blocked n (rb_blocked book)" by (simp add: decide_def)
  with None decide_blocked_cases [of n "rb_blocked book"] show ?thesis
    by (auto simp: domain_match_None)
next
  case (Some r)
  then show ?thesis using domain_match_Some [OF Some] by (auto simp: decide_def)
qed

section \<open>Properties\<close>

text \<open>
  A name is blocked exactly when no allowed domain covers it and some blocked domain does,
  where a domain covers itself and its subdomains on label boundaries: \<open>example.com\<close> stops
  \<open>a.example.com\<close> but never \<open>badexample.com\<close>, and nothing a rule covers slips through.
\<close>

theorem decide_blocks_exactly:
  "(\<exists>r s. decide n book = BlockedBy r s) \<longleftrightarrow>
     {a \<in> set (rb_allowed book). covers a n} = {}
     \<and> (\<exists>(s, ds) \<in> set (rb_blocked book). {d \<in> set ds. covers d n} \<noteq> {})"
  by (rule decide_blocked_iff)

text \<open>
  The rule a decision reports is the most specific one: among the rules of the source it names
  (or of the allow list) it covers the name, and every other rule there that covers the name covers
  the reported rule too.
\<close>

theorem decide_reports_most_specific:
  assumes "decide n book = BlockedBy r s"
  shows "\<exists>ds. (s, ds) \<in> set (rb_blocked book) \<and> r \<in> set ds \<and> covers r n
           \<and> (\<forall>d \<in> set ds. covers d n \<longrightarrow> covers d r)"
proof -
  have "decide_blocked n (rb_blocked book) = BlockedBy r s"
    using assms by (auto simp: decide_def split: option.splits)
  from decide_blocked_first [OF this] obtain before ds rest where
    "rb_blocked book = before @ (s, ds) # rest" "domain_match ds n = Some r" by blast
  with domain_match_Some [of ds n r] show ?thesis by auto
qed

definition example_book :: rule_book where
  "example_book = \<lparr>rb_allowed = [''ok.ads.tv''], rb_blocked = [(SourceApi, [''tv'', ''ads.tv''])]\<rparr>"

lemma decide_reports_most_specific_witness:
  "decide ''x.ads.tv'' example_book = BlockedBy ''ads.tv'' SourceApi
     \<and> decide ''y.ok.ads.tv'' example_book = AllowedBy ''ok.ads.tv''
     \<and> ''ads.tv'' \<in> set [''tv'', ''ads.tv''] \<and> covers ''tv'' ''ads.tv''"
proof -
  have d: "decide ''x.ads.tv'' example_book = BlockedBy ''ads.tv'' SourceApi" by code_simp
  from decide_reports_most_specific [OF d]
  have "covers ''tv'' ''ads.tv''"
    by (auto simp: example_book_def covers_def)
  with d show ?thesis by (simp add: example_book_def decide_def domain_match.simps)
qed

text \<open>
  C40. A rule's domain is stored in normal form: between 1 and 253 characters, every label of one
  to 63 letters, digits, hyphens and underscores with no hyphen at an end, and normalizing it again
  changes nothing.
\<close>

theorem normalizeDomain_normal_form:
  assumes "normalizeDomain input = Inr d"
  shows "d \<noteq> [] \<and> length d \<le> 253 \<and> list_all label_test (split_on CHR ''.'' d) \<and> normalizeDomain d = Inr d"
  using normalizeDomain_normal [OF assms] normalizeDomain_id
  by (auto simp: normal_domain_def MAX_DOMAIN_LENGTH_def)

lemma normalizeDomain_normal_form_witness:
  "normalizeDomain '' *.Ads.tv. '' = Inr ''ads.tv'' \<and> normalizeDomain ''ads.tv'' = Inr ''ads.tv''"
proof -
  have n: "normalizeDomain '' *.Ads.tv. '' = Inr ''ads.tv''" by code_simp
  from normalizeDomain_normal_form [OF n] n show ?thesis by simp
qed

end
