(* ===== verification/File_Backed.thy ===== *)
theory File_Backed imports Prelude begin

text \<open>
  What the two services over a registry with a file have in common
  (\<open>src/dnsfilter/rule-service.ts\<close>, \<open>src/netwatch/block-service.ts\<close>): the registry is changed in
  memory, its rendering is written, and a failed write restores the snapshot taken before. The
  calls of a service are queued one behind the other, so each runs on the state its predecessor left.
\<close>

datatype registry_health = HealthOk | HealthFailed string

text \<open>A persistence attempt: written, or failed with a message (the file is then as it was).\<close>

datatype persist_outcome = Written | WriteFails string

datatype overview_state = OverviewOk | OverviewDisabled | OverviewFailed

definition run_calls :: "('c \<Rightarrow> 's \<Rightarrow> 's \<times> 'r) \<Rightarrow> 'c list \<Rightarrow> 's \<Rightarrow> 's" where
  "run_calls step cs s = foldl (\<lambda>s c. fst (step c s)) s cs"

lemma run_calls_Nil [simp]: "run_calls step [] s = s"
  by (simp add: run_calls_def)

lemma run_calls_Cons [simp]: "run_calls step (c # cs) s = run_calls step cs (fst (step c s))"
  by (simp add: run_calls_def)

lemma run_calls_inv:
  "I s \<Longrightarrow> (\<And>c s. c \<in> set cs \<Longrightarrow> I s \<Longrightarrow> I (fst (step c s))) \<Longrightarrow> I (run_calls step cs s)"
  by (induction cs arbitrary: s) auto

locale file_backed =
  fixes entries :: "'s \<Rightarrow> 'e list"
    and stored :: "'s \<Rightarrow> 'd"
    and image :: "'e list \<Rightarrow> 'd"
    and commit :: "persist_outcome \<Rightarrow> 'e list \<Rightarrow> 'e \<Rightarrow> 's \<Rightarrow> 's \<times> 'r"
    and sweep :: "persist_outcome \<Rightarrow> 'e list \<Rightarrow> 's \<Rightarrow> 's"
    and accepted :: "'r \<Rightarrow> bool"
  assumes commit_written:
      "entries (fst (commit Written before e s)) = entries s"
      "stored (fst (commit Written before e s)) = image (entries s)"
      "accepted (snd (commit Written before e s))"
    and commit_failed:
      "entries (fst (commit (WriteFails m) before e s)) = before"
      "stored (fst (commit (WriteFails m) before e s)) = stored s"
      "\<not> accepted (snd (commit (WriteFails m) before e s))"
    and sweep_written:
      "entries (sweep Written before s) = entries s"
      "stored (sweep Written before s) = image (entries s)"
    and sweep_failed:
      "entries (sweep (WriteFails m) before s) = before"
      "stored (sweep (WriteFails m) before s) = stored s"
begin

definition synced :: "'s \<Rightarrow> bool" where
  "synced s \<longleftrightarrow> stored s = image (entries s)"

text \<open>Memory and file agree after a commit whatever the disk does, if they agreed before the change.\<close>

lemma commit_synced:
  assumes "stored s = image before"
  shows "synced (fst (commit w before e s))"
  using assms by (cases w) (simp_all add: synced_def commit_written commit_failed)

lemma sweep_synced:
  assumes "stored s = image before"
  shows "synced (sweep w before s)"
  using assms by (cases w) (simp_all add: synced_def sweep_written sweep_failed)

lemma commit_refused:
  assumes "\<not> accepted (snd (commit w before e s))"
  shows "entries (fst (commit w before e s)) = before \<and> stored (fst (commit w before e s)) = stored s"
  using assms by (cases w) (simp_all add: commit_written commit_failed)

lemma commit_accepted:
  assumes "accepted (snd (commit w before e s))"
  shows "entries (fst (commit w before e s)) = entries s \<and> stored (fst (commit w before e s)) = image (entries s)"
  using assms by (cases w) (simp_all add: commit_written commit_failed)

lemma commit_entries_cases: "entries (fst (commit w before e s)) \<in> {before, entries s}"
  by (cases w) (simp_all add: commit_written commit_failed)

lemma sweep_entries_cases: "entries (sweep w before s) \<in> {before, entries s}"
  by (cases w) (simp_all add: sweep_written sweep_failed)

text \<open>A property of lists of entries that holds before and after the change holds after the commit.\<close>

lemma commit_good:
  assumes "stored s = image before" "good before" "good (entries s)"
  shows "synced (fst (commit w before e s)) \<and> good (entries (fst (commit w before e s)))"
  using commit_synced [OF assms(1)] commit_entries_cases [of w before e s] assms(2,3) by auto

lemma sweep_good:
  assumes "stored s = image before" "good before" "good (entries s)"
  shows "synced (sweep w before s) \<and> good (entries (sweep w before s))"
  using sweep_synced [OF assms(1)] sweep_entries_cases [of w before s] assms(2,3) by auto

end

end
