(* ===== verification/Rule_Service.thy ===== *)
theory Rule_Service imports Domain_Rules File_Backed "HOL-Library.Option_ord" "HOL-Library.Product_Lexorder" begin

text \<open>
  The registered block rules of the DNS filter: the registry (\<open>src/dnsfilter/rule-registry.ts\<close>)
  and the service that changes it and its file together (\<open>src/dnsfilter/rule-service.ts\<close>). The
  text of the file is a parameter: \<open>encode\<close> stands for \<open>JSON.stringify\<close> with its ISO time
  stamps, \<open>decode\<close> for \<open>JSON.parse\<close> and the zod schema; \<open>uuid\<close> is what \<open>randomUUID\<close> returned.
\<close>

section \<open>The registry\<close>

record rule_entry =
  re_id :: string
  re_domain :: string
  re_reason :: string
  re_createdBy :: string
  re_createdAtMs :: ms
  re_expiresAtMs :: "ms option"

record rules_document =
  rd_format :: string
  rd_version :: nat
  rd_rules :: "rule_entry list"

definition RULES_FILE_FORMAT :: string where
  "RULES_FILE_FORMAT = ''excubitor-dns-filter-rules''"

record rule_registry =
  rr_entries :: "rule_entry list"
  rr_health :: registry_health
  rr_revision :: nat

datatype add_rule_result =
    RuleAdded rule_entry
  | RuleDuplicate rule_entry
  | RulesFull nat

definition rule_active :: "rule_entry \<Rightarrow> ms \<Rightarrow> bool" where
  "rule_active e nowMs = (case re_expiresAtMs e of None \<Rightarrow> True | Some t \<Rightarrow> t > nowMs)"

text \<open>\<open>None\<close> is a missing file.\<close>

definition rules_load :: "('text \<Rightarrow> string + rules_document) \<Rightarrow> 'text option \<Rightarrow> rule_registry \<Rightarrow> rule_registry" where
  "rules_load decode text r =
     (let r = r\<lparr>rr_revision := rr_revision r + 1\<rparr> in
      case text of
        None \<Rightarrow> r\<lparr>rr_entries := [], rr_health := HealthOk\<rparr>
      | Some t \<Rightarrow> (case decode t of
            Inr doc \<Rightarrow> r\<lparr>rr_entries := rd_rules doc, rr_health := HealthOk\<rparr>
          | Inl m \<Rightarrow> r\<lparr>rr_entries := [], rr_health := HealthFailed m\<rparr>))"

definition rules_fail :: "string \<Rightarrow> rule_registry \<Rightarrow> rule_registry" where
  "rules_fail reason r =
     r\<lparr>rr_revision := rr_revision r + 1, rr_entries := [], rr_health := HealthFailed reason\<rparr>"

text \<open>
  The comparison of \<open>list\<close> puts the rules without a term first, then the terms in order, and
  equal terms in order of creation; \<open>None\<close> is below every \<open>Some\<close>.
\<close>

definition rules_list :: "rule_registry \<Rightarrow> ms \<Rightarrow> rule_entry list" where
  "rules_list r nowMs =
     sort_key (\<lambda>e. (re_expiresAtMs e, re_createdAtMs e)) (filter (\<lambda>e. rule_active e nowMs) (rr_entries r))"

definition rules_add ::
  "string \<Rightarrow> string \<Rightarrow> string \<Rightarrow> string \<Rightarrow> ms \<Rightarrow> ms option \<Rightarrow> nat \<Rightarrow> rule_registry \<Rightarrow> rule_registry \<times> add_rule_result" where
  "rules_add uuid domain reason createdBy nowMs ttlMs maxEntries r =
     (let current = rules_list r nowMs in
      case find (\<lambda>e. re_domain e = domain) current of
        Some existing \<Rightarrow> (r, RuleDuplicate existing)
      | None \<Rightarrow>
          if length current \<ge> maxEntries then (r, RulesFull maxEntries)
          else
            let entry = \<lparr>re_id = uuid, re_domain = domain, re_reason = reason, re_createdBy = createdBy,
                         re_createdAtMs = nowMs, re_expiresAtMs = map_option (\<lambda>t. nowMs + t) ttlMs\<rparr>
            in (r\<lparr>rr_entries := current @ [entry], rr_revision := rr_revision r + 1\<rparr>, RuleAdded entry))"

definition rules_remove :: "string \<Rightarrow> rule_registry \<Rightarrow> rule_registry \<times> rule_entry option" where
  "rules_remove ident r =
     (case find (\<lambda>e. re_id e = ident) (rr_entries r) of
        None \<Rightarrow> (r, None)
      | Some target \<Rightarrow>
          (r\<lparr>rr_entries := filter (\<lambda>e. re_id e \<noteq> ident) (rr_entries r), rr_revision := rr_revision r + 1\<rparr>,
           Some target))"

definition rules_expire :: "ms \<Rightarrow> rule_registry \<Rightarrow> rule_registry \<times> bool" where
  "rules_expire nowMs r =
     (let kept = filter (\<lambda>e. rule_active e nowMs) (rr_entries r); r' = r\<lparr>rr_entries := kept\<rparr> in
      if length kept = length (rr_entries r) then (r', False)
      else (r'\<lparr>rr_revision := rr_revision r + 1\<rparr>, True))"

definition rules_restore :: "rule_entry list \<Rightarrow> rule_registry \<Rightarrow> rule_registry" where
  "rules_restore es r = r\<lparr>rr_entries := es, rr_revision := rr_revision r + 1\<rparr>"

definition rules_image :: "(rules_document \<Rightarrow> 'text) \<Rightarrow> rule_entry list \<Rightarrow> 'text" where
  "rules_image encode es = encode \<lparr>rd_format = RULES_FILE_FORMAT, rd_version = 1, rd_rules = es\<rparr>"

definition rules_render :: "(rules_document \<Rightarrow> 'text) \<Rightarrow> rule_registry \<Rightarrow> 'text" where
  "rules_render encode r = rules_image encode (rr_entries r)"

section \<open>The service\<close>

record rule_limits =
  rl_maxRules :: nat
  rl_maxTtlMs :: ms
  rl_allowed :: domain_set

record add_rule_input =
  ar_domain :: string
  ar_reason :: string
  ar_ttlMinutes :: jsval
  ar_actor :: string

datatype rule_failure =
    RfBadTtl ms
  | RfBadDomain domain_error
  | RfAllowed string
  | RfDuplicate rule_entry
  | RfFull nat
  | RfNotFound
  | RfDisabled "string option"
  | RfUnreadable string
  | RfNotWritten string

fun rule_failure_status :: "rule_failure \<Rightarrow> nat" where
  "rule_failure_status (RfBadTtl _) = 400"
| "rule_failure_status (RfBadDomain _) = 400"
| "rule_failure_status (RfAllowed _) = 409"
| "rule_failure_status (RfDuplicate _) = 409"
| "rule_failure_status (RfFull _) = 409"
| "rule_failure_status RfNotFound = 404"
| "rule_failure_status (RfDisabled _) = 503"
| "rule_failure_status (RfUnreadable _) = 503"
| "rule_failure_status (RfNotWritten _) = 503"

type_synonym limits_now = "rule_limits option \<times> string option"

record 'text rule_state =
  rs_registry :: rule_registry
  rs_file :: 'text

definition check_ttl :: "jsval \<Rightarrow> ms \<Rightarrow> ms + ms option" where
  "check_ttl ttlMinutes maxTtlMs =
     (case ttlMinutes of
        JUndef \<Rightarrow> Inr None
      | JInt n \<Rightarrow> (if n * 60000 \<le> 0 \<or> n * 60000 > maxTtlMs then Inl maxTtlMs else Inr (Some (n * 60000)))
      | _ \<Rightarrow> Inl maxTtlMs)"

definition checkAddInput :: "add_rule_input \<Rightarrow> rule_limits \<Rightarrow> rule_failure + (string \<times> ms option)" where
  "checkAddInput input limits =
     (case check_ttl (ar_ttlMinutes input) (rl_maxTtlMs limits) of
        Inl m \<Rightarrow> Inl (RfBadTtl m)
      | Inr ttlMs \<Rightarrow>
          (case normalizeDomain (ar_domain input) of
             Inl e \<Rightarrow> Inl (RfBadDomain e)
           | Inr domain \<Rightarrow>
               (case domain_match (rl_allowed limits) domain of
                  Some a \<Rightarrow> Inl (RfAllowed a)
                | None \<Rightarrow> Inr (domain, ttlMs))))"

definition rules_ready :: "limits_now \<Rightarrow> 'text rule_state \<Rightarrow> rule_failure + rule_limits" where
  "rules_ready lims s =
     (case fst lims of
        None \<Rightarrow> Inl (RfDisabled (snd lims))
      | Some l \<Rightarrow> (case rr_health (rs_registry s) of HealthFailed m \<Rightarrow> Inl (RfUnreadable m) | HealthOk \<Rightarrow> Inr l))"

definition rules_commit ::
  "(rules_document \<Rightarrow> 'text) \<Rightarrow> persist_outcome \<Rightarrow> rule_entry list \<Rightarrow> rule_entry \<Rightarrow> 'text rule_state
    \<Rightarrow> 'text rule_state \<times> (rule_failure + rule_entry)" where
  "rules_commit encode w before entry s =
     (case w of
        Written \<Rightarrow> (s\<lparr>rs_file := rules_render encode (rs_registry s)\<rparr>, Inr entry)
      | WriteFails m \<Rightarrow> (s\<lparr>rs_registry := rules_restore before (rs_registry s)\<rparr>, Inl (RfNotWritten m)))"

definition service_add ::
  "(rules_document \<Rightarrow> 'text) \<Rightarrow> limits_now \<Rightarrow> string \<Rightarrow> ms \<Rightarrow> persist_outcome \<Rightarrow> add_rule_input \<Rightarrow> 'text rule_state
    \<Rightarrow> 'text rule_state \<times> (rule_failure + rule_entry)" where
  "service_add encode lims uuid nowMs w input s =
     (case rules_ready lims s of
        Inl f \<Rightarrow> (s, Inl f)
      | Inr limits \<Rightarrow>
          (case checkAddInput input limits of
             Inl f \<Rightarrow> (s, Inl f)
           | Inr (domain, ttlMs) \<Rightarrow>
               let before = rr_entries (rs_registry s);
                   (r', added) = rules_add uuid domain (ar_reason input) (ar_actor input) nowMs ttlMs
                                   (rl_maxRules limits) (rs_registry s);
                   s' = s\<lparr>rs_registry := r'\<rparr>
               in (case added of
                     RuleDuplicate e \<Rightarrow> (s', Inl (RfDuplicate e))
                   | RulesFull n \<Rightarrow> (s', Inl (RfFull n))
                   | RuleAdded e \<Rightarrow> rules_commit encode w before e s')))"

definition service_remove ::
  "(rules_document \<Rightarrow> 'text) \<Rightarrow> limits_now \<Rightarrow> persist_outcome \<Rightarrow> string \<Rightarrow> 'text rule_state
    \<Rightarrow> 'text rule_state \<times> (rule_failure + rule_entry)" where
  "service_remove encode lims w ident s =
     (case rules_ready lims s of
        Inl f \<Rightarrow> (s, Inl f)
      | Inr limits \<Rightarrow>
          let before = rr_entries (rs_registry s);
              (r', removed) = rules_remove ident (rs_registry s);
              s' = s\<lparr>rs_registry := r'\<rparr>
          in (case removed of
                None \<Rightarrow> (s', Inl RfNotFound)
              | Some e \<Rightarrow> rules_commit encode w before e s'))"

text \<open>The write of \<open>expire\<close>: a failure restores the snapshot and is thrown on.\<close>

definition rules_sweep ::
  "(rules_document \<Rightarrow> 'text) \<Rightarrow> persist_outcome \<Rightarrow> rule_entry list \<Rightarrow> 'text rule_state \<Rightarrow> 'text rule_state" where
  "rules_sweep encode w before s =
     (case w of
        Written \<Rightarrow> s\<lparr>rs_file := rules_render encode (rs_registry s)\<rparr>
      | WriteFails m \<Rightarrow> s\<lparr>rs_registry := rules_restore before (rs_registry s)\<rparr>)"

definition service_expire ::
  "(rules_document \<Rightarrow> 'text) \<Rightarrow> limits_now \<Rightarrow> ms \<Rightarrow> persist_outcome \<Rightarrow> 'text rule_state
    \<Rightarrow> 'text rule_state \<times> (string + unit)" where
  "service_expire encode lims nowMs w s =
     (case rules_ready lims s of
        Inl f \<Rightarrow> (s, Inr ())
      | Inr limits \<Rightarrow>
          let before = rr_entries (rs_registry s);
              (r', changed) = rules_expire nowMs (rs_registry s);
              s' = s\<lparr>rs_registry := r'\<rparr>
          in if \<not> changed then (s', Inr ())
             else (rules_sweep encode w before s', case w of Written \<Rightarrow> Inr () | WriteFails m \<Rightarrow> Inl m))"

definition rules_overview :: "limits_now \<Rightarrow> ms \<Rightarrow> 'text rule_state \<Rightarrow> overview_state \<times> string option \<times> rule_entry list" where
  "rules_overview lims nowMs s =
     (case fst lims of
        None \<Rightarrow> (OverviewDisabled, snd lims, rules_list (rs_registry s) nowMs)
      | Some _ \<Rightarrow>
          (case rr_health (rs_registry s) of
             HealthFailed m \<Rightarrow> (OverviewFailed, Some m, rules_list (rs_registry s) nowMs)
           | HealthOk \<Rightarrow> (OverviewOk, None, rules_list (rs_registry s) nowMs)))"

text \<open>A call with the settings, the clock, the identifier and the disk it meets.\<close>

datatype rule_call =
    CallAdd limits_now string ms persist_outcome add_rule_input
  | CallRemove limits_now persist_outcome string
  | CallExpire limits_now ms persist_outcome

fun rule_call_step ::
  "(rules_document \<Rightarrow> 'text) \<Rightarrow> rule_call \<Rightarrow> 'text rule_state \<Rightarrow> 'text rule_state \<times> bool" where
  "rule_call_step encode (CallAdd lims uuid nowMs w input) s =
     (let (s', res) = service_add encode lims uuid nowMs w input s in (s', case res of Inl _ \<Rightarrow> False | Inr _ \<Rightarrow> True))"
| "rule_call_step encode (CallRemove lims w ident) s =
     (let (s', res) = service_remove encode lims w ident s in (s', case res of Inl _ \<Rightarrow> False | Inr _ \<Rightarrow> True))"
| "rule_call_step encode (CallExpire lims nowMs w) s =
     (let (s', res) = service_expire encode lims nowMs w s in (s', case res of Inl _ \<Rightarrow> False | Inr _ \<Rightarrow> True))"


section \<open>The shared contract\<close>

definition rule_accepted :: "rule_failure + 'a \<Rightarrow> bool" where
  "rule_accepted r = (case r of Inl _ \<Rightarrow> False | Inr _ \<Rightarrow> True)"

abbreviation service_entries :: "'text rule_state \<Rightarrow> rule_entry list" where
  "service_entries s \<equiv> rr_entries (rs_registry s)"

interpretation rules: file_backed service_entries rs_file "rules_image encode" "rules_commit encode"
    "rules_sweep encode" rule_accepted
  for encode :: "rules_document \<Rightarrow> 'text"
  by unfold_locales
    (simp_all add: rules_commit_def rules_sweep_def rules_render_def rules_restore_def rule_accepted_def)

section \<open>Operations on the list of rules\<close>

lemma set_rules_list: "set (rules_list r nowMs) = {e \<in> set (rr_entries r). rule_active e nowMs}"
  by (auto simp: rules_list_def)

lemma distinct_rules_list: "distinct (map f (rr_entries r)) \<Longrightarrow> distinct (map f (rules_list r nowMs))"
  by (auto simp: rules_list_def distinct_map intro: inj_on_subset)

lemma distinct_filter_map: "distinct (map f xs) \<Longrightarrow> distinct (map f (filter P xs))"
  by (rule distinct_map_filter)

definition good_rules :: "rule_entry list \<Rightarrow> bool" where
  "good_rules es \<longleftrightarrow> distinct (map re_domain es) \<and> (\<forall>e \<in> set es. normal_domain (re_domain e))"

lemma good_rules_filter [intro]: "good_rules es \<Longrightarrow> good_rules (filter P es)"
  by (auto simp: good_rules_def distinct_filter_map)

lemma rules_add_added:
  assumes "rules_add uuid d reason actor nowMs ttl limit r = (r', RuleAdded e)"
  shows "rr_entries r' = rules_list r nowMs @ [e]" "re_domain e = d" "re_id e = uuid"
    "d \<notin> re_domain ` set (rules_list r nowMs)" "length (rules_list r nowMs) < limit"
    "re_expiresAtMs e = map_option (\<lambda>t. nowMs + t) ttl" "rr_health r' = rr_health r"
    "rr_revision r' = rr_revision r + 1"
  using assms by (auto simp: rules_add_def Let_def find_None_iff split: option.splits if_splits)

lemma rules_add_refused:
  "rules_add uuid d reason actor nowMs ttl limit r = (r', res) \<Longrightarrow> \<forall>e. res \<noteq> RuleAdded e \<Longrightarrow> r' = r"
  by (auto simp: rules_add_def Let_def split: option.splits if_splits)

lemma good_rules_add:
  assumes "rules_add uuid d reason actor nowMs ttl limit r = (r', RuleAdded e)"
    and "good_rules (rr_entries r)" "normal_domain d"
  shows "good_rules (rr_entries r')"
  using rules_add_added [OF assms(1)] assms(2,3) distinct_rules_list [of re_domain r nowMs]
  by (auto simp: good_rules_def set_rules_list)

lemma rules_remove_entries:
  "rules_remove i r = (r', Some e) \<Longrightarrow>
     rr_entries r' = filter (\<lambda>e. re_id e \<noteq> i) (rr_entries r) \<and> e \<in> set (rr_entries r) \<and> re_id e = i"
  by (auto simp: rules_remove_def find_Some_iff split: option.splits)

lemma rules_remove_none: "rules_remove i r = (r', None) \<Longrightarrow> r' = r"
  by (auto simp: rules_remove_def split: option.splits)

lemma rules_expire_entries: "rr_entries (fst (rules_expire nowMs r)) = filter (\<lambda>e. rule_active e nowMs) (rr_entries r)"
  by (simp add: rules_expire_def Let_def)

lemma rules_expire_unchanged: "\<not> snd (rules_expire nowMs r) \<Longrightarrow> fst (rules_expire nowMs r) = r"
  by (auto simp: rules_expire_def Let_def filter_same_length split: if_splits)


section \<open>The service keeps memory and file together\<close>

definition service_ok :: "(rules_document \<Rightarrow> 'text) \<Rightarrow> 'text rule_state \<Rightarrow> bool" where
  "service_ok encode s \<longleftrightarrow> rs_file s = rules_image encode (service_entries s) \<and> good_rules (service_entries s)"

lemma service_ok_commit:
  assumes "service_ok encode s" "good_rules (rr_entries r')"
  shows "service_ok encode (fst (rules_commit encode w (service_entries s) e (s\<lparr>rs_registry := r'\<rparr>)))"
proof -
  let ?t = "fst (rules_commit encode w (service_entries s) e (s\<lparr>rs_registry := r'\<rparr>))"
  have "rules.synced encode ?t"
    using assms(1) by (intro rules.commit_synced) (simp add: service_ok_def)
  moreover have "good_rules (service_entries ?t)"
    using rules.commit_entries_cases [of encode w "service_entries s" e "s\<lparr>rs_registry := r'\<rparr>"] assms
    by (auto simp: service_ok_def)
  ultimately show ?thesis by (simp add: service_ok_def rules.synced_def)
qed

lemma checkAddInput_normal: "checkAddInput input limits = Inr (d, ttl) \<Longrightarrow> normal_domain d \<and> domain_match (rl_allowed limits) d = None"
  by (auto simp: checkAddInput_def normalizeDomain_normal split: sum.splits option.splits)

text \<open>Every call either refuses and leaves the state alone, or ends in the commit of a change.\<close>

lemma service_add_cases:
  obtains (refused) f where "service_add encode lims uuid nowMs w input s = (s, Inl f)"
  | (change) d ttl limits r' e where
      "rules_ready lims s = Inr limits" "checkAddInput input limits = Inr (d, ttl)"
      "rules_add uuid d (ar_reason input) (ar_actor input) nowMs ttl (rl_maxRules limits) (rs_registry s) = (r', RuleAdded e)"
      "service_add encode lims uuid nowMs w input s
         = rules_commit encode w (service_entries s) e (s\<lparr>rs_registry := r'\<rparr>)"
proof (cases "rules_ready lims s")
  case (Inl f)
  then show ?thesis using refused by (simp add: service_add_def)
next
  case ready: (Inr limits)
  show ?thesis
  proof (cases "checkAddInput input limits")
    case (Inl f)
    with ready show ?thesis using refused by (simp add: service_add_def)
  next
    case (Inr x)
    obtain d ttl where x: "x = (d, ttl)" by (cases x)
    obtain r' res where add: "rules_add uuid d (ar_reason input) (ar_actor input) nowMs ttl (rl_maxRules limits)
        (rs_registry s) = (r', res)" by fastforce
    show ?thesis
    proof (cases res)
      case (RuleAdded e)
      with ready Inr x add show ?thesis
        by (intro change [of limits d ttl r' e]) (simp_all add: service_add_def Let_def)
    qed (use ready Inr x add rules_add_refused [OF add] refused in \<open>auto simp: service_add_def Let_def\<close>)
  qed
qed

lemma service_remove_cases:
  obtains (refused) f where "service_remove encode lims w ident s = (s, Inl f)"
  | (change) r' e where
      "rules_remove ident (rs_registry s) = (r', Some e)"
      "service_remove encode lims w ident s
         = rules_commit encode w (service_entries s) e (s\<lparr>rs_registry := r'\<rparr>)"
proof (cases "rules_ready lims s")
  case (Inl f)
  then show ?thesis using refused by (simp add: service_remove_def)
next
  case ready: (Inr limits)
  obtain r' res where rem: "rules_remove ident (rs_registry s) = (r', res)" by fastforce
  show ?thesis
  proof (cases res)
    case (Some e)
    with ready rem show ?thesis by (intro change [of r' e]) (simp_all add: service_remove_def Let_def)
  next
    case None
    with ready rem rules_remove_none [OF rem [unfolded None]] show ?thesis
      using refused by (simp add: service_remove_def Let_def)
  qed
qed

lemma service_expire_cases:
  obtains (same) x where "service_expire encode lims nowMs w s = (s, x)"
  | (change) "service_expire encode lims nowMs w s
      = (rules_sweep encode w (service_entries s) (s\<lparr>rs_registry := fst (rules_expire nowMs (rs_registry s))\<rparr>),
         case w of Written \<Rightarrow> Inr () | WriteFails m \<Rightarrow> Inl m)"
proof (cases "rules_ready lims s")
  case (Inl f)
  then show ?thesis using same by (simp add: service_expire_def)
next
  case (Inr limits)
  then show ?thesis
    using same change rules_expire_unchanged [of nowMs "rs_registry s"]
    by (cases "snd (rules_expire nowMs (rs_registry s))")
      (auto simp: service_expire_def Let_def split_def)
qed

lemma service_add_ok: "service_ok encode s \<Longrightarrow> service_ok encode (fst (service_add encode lims uuid nowMs w input s))"
proof (cases rule: service_add_cases [of encode lims uuid nowMs w input s])
  case (change d ttl limits r' e)
  assume ok: "service_ok encode s"
  have "good_rules (rr_entries r')"
    by (rule good_rules_add [OF change(3)]) (use ok checkAddInput_normal [OF change(2)] in \<open>auto simp: service_ok_def\<close>)
  with ok change(4) show ?thesis by (simp add: service_ok_commit)
qed simp

lemma service_remove_ok: "service_ok encode s \<Longrightarrow> service_ok encode (fst (service_remove encode lims w ident s))"
proof (cases rule: service_remove_cases [of encode lims w ident s])
  case (change r' e)
  assume ok: "service_ok encode s"
  then have "good_rules (rr_entries r')"
    using rules_remove_entries [OF change(1)] by (auto simp: service_ok_def)
  with ok change(2) show ?thesis by (simp add: service_ok_commit)
qed simp

lemma service_expire_ok: "service_ok encode s \<Longrightarrow> service_ok encode (fst (service_expire encode lims nowMs w s))"
proof (cases rule: service_expire_cases [of encode lims nowMs w s])
  case change
  let ?u = "s\<lparr>rs_registry := fst (rules_expire nowMs (rs_registry s))\<rparr>"
  assume ok: "service_ok encode s"
  have "rules.synced encode (rules_sweep encode w (service_entries s) ?u)"
    using ok by (intro rules.sweep_synced) (simp add: service_ok_def)
  moreover have "good_rules (service_entries (rules_sweep encode w (service_entries s) ?u))"
    using rules.sweep_entries_cases [of encode w "service_entries s" ?u] ok
    by (auto simp: service_ok_def rules_expire_entries)
  ultimately show ?thesis using change by (simp add: service_ok_def rules.synced_def)
qed simp

lemma rule_call_ok: "service_ok encode s \<Longrightarrow> service_ok encode (fst (rule_call_step encode c s))"
  by (cases c) (auto simp: Let_def split_def service_add_ok service_remove_ok service_expire_ok)

text \<open>
  Whatever the sequence of additions, removals and expiries, and whichever of the writes fail,
  the file always holds exactly the rules in memory: loading it into a new registry (a restart)
  gives those rules back. They never contain a domain twice, and every domain is in normal form.
\<close>

theorem rules_survive_restart:
  assumes "rs_file s = rules_image encode (service_entries s)" "good_rules (service_entries s)"
    and codec: "\<And>doc. decode (encode doc) = Inr doc"
  shows "let t = run_calls (rule_call_step encode) calls s in
      rr_entries (rules_load decode (Some (rs_file t)) fresh) = service_entries t
      \<and> distinct (map re_domain (service_entries t))
      \<and> list_all (\<lambda>e. normalizeDomain (re_domain e) = Inr (re_domain e)) (service_entries t)"
proof -
  define t where "t = run_calls (rule_call_step encode) calls s"
  have "service_ok encode t"
    unfolding t_def by (rule run_calls_inv) (use assms(1,2) rule_call_ok in \<open>auto simp: service_ok_def\<close>)
  then have t: "rs_file t = rules_image encode (service_entries t)" "good_rules (service_entries t)"
    by (simp_all add: service_ok_def)
  have "rr_entries (rules_load decode (Some (rs_file t)) fresh) = service_entries t"
    by (simp add: t(1) rules_load_def rules_image_def codec)
  moreover have "list_all (\<lambda>e. normalizeDomain (re_domain e) = Inr (re_domain e)) (service_entries t)"
    using t(2) by (simp add: good_rules_def list_all_iff normalizeDomain_id)
  ultimately show ?thesis
    unfolding t_def [symmetric] Let_def using t(2) by (simp add: good_rules_def)
qed

definition empty_rules :: "rules_document rule_state" where
  "empty_rules = \<lparr>rs_registry = \<lparr>rr_entries = [], rr_health = HealthOk, rr_revision = 0\<rparr>,
     rs_file = rules_image (\<lambda>d. d) []\<rparr>"

definition example_limits :: limits_now where
  "example_limits = (Some \<lparr>rl_maxRules = 2, rl_maxTtlMs = 3600000, rl_allowed = [''ok.tv'']\<rparr>, None)"

definition example_calls :: "rule_call list" where
  "example_calls =
     [CallAdd example_limits ''u1'' 0 Written \<lparr>ar_domain = ''Ads.tv.'', ar_reason = [], ar_ttlMinutes = JInt 1, ar_actor = []\<rparr>,
      CallAdd example_limits ''u2'' 1 (WriteFails []) \<lparr>ar_domain = ''b.tv'', ar_reason = [], ar_ttlMinutes = JUndef, ar_actor = []\<rparr>,
      CallAdd example_limits ''u3'' 2 Written \<lparr>ar_domain = ''*.c.tv'', ar_reason = [], ar_ttlMinutes = JUndef, ar_actor = []\<rparr>]"

lemma rules_survive_restart_witness:
  "\<exists>t. t = run_calls (rule_call_step (\<lambda>d. d)) example_calls empty_rules
     \<and> map re_domain (service_entries t) = [''ads.tv'', ''c.tv'']
     \<and> rr_entries (rules_load Inr (Some (rs_file t)) (rs_registry empty_rules)) = service_entries t"
proof -
  have "map re_domain (service_entries (run_calls (rule_call_step (\<lambda>d. d)) example_calls empty_rules)) = [''ads.tv'', ''c.tv'']"
    by code_simp
  with rules_survive_restart [of empty_rules "\<lambda>d. d" Inr example_calls "rs_registry empty_rules"] show ?thesis
    by (simp add: empty_rules_def good_rules_def Let_def)
qed

text \<open>
  A refused or failed call changes neither the rules in memory nor the file, and an accepted
  addition takes effect: the new rule is in the file, it stays within the limit on the number of
  rules, no allowed domain covers it, and its domain is found among the active rules.
\<close>

theorem service_add_all_or_nothing:
  assumes "service_add encode lims uuid nowMs w input s = (s', res)"
  shows "(\<exists>f. res = Inl f \<and> service_entries s' = service_entries s \<and> rs_file s' = rs_file s)
    \<or> (\<exists>e limits. res = Inr e \<and> fst lims = Some limits
        \<and> rs_file s' = rules_image encode (service_entries s')
        \<and> length (service_entries s') \<le> rl_maxRules limits
        \<and> domain_match (rl_allowed limits) (re_domain e) = None
        \<and> service_entries s' = rules_list (rs_registry s) nowMs @ [e])"
proof (cases rule: service_add_cases [of encode lims uuid nowMs w input s])
  case (refused f)
  with assms have "s' = s" "res = Inl f" by simp_all
  then show ?thesis by simp
next
  case (change d ttl limits r' e)
  have eq: "(s', res) = rules_commit encode w (service_entries s) e (s\<lparr>rs_registry := r'\<rparr>)"
    using assms change(4) by simp
  have lims: "fst lims = Some limits"
    using change(1) by (auto simp: rules_ready_def split: option.splits registry_health.splits)
  show ?thesis
  proof (cases w)
    case Written
    with eq have "s' = s\<lparr>rs_registry := r', rs_file := rules_image encode (rr_entries r')\<rparr>" "res = Inr e"
      by (simp_all add: rules_commit_def rules_render_def)
    with lims rules_add_added(1,2,5) [OF change(3)] checkAddInput_normal [OF change(2)]
    show ?thesis by simp
  next
    case (WriteFails m)
    with eq show ?thesis by (simp add: rules_commit_def rules_restore_def)
  qed
qed

lemma service_add_all_or_nothing_witness:
  "\<exists>s' f. service_add (\<lambda>d. d) example_limits ''u'' 0 (WriteFails ''disk'')
      \<lparr>ar_domain = ''a.tv'', ar_reason = [], ar_ttlMinutes = JUndef, ar_actor = []\<rparr> empty_rules = (s', Inl f)
    \<and> service_entries s' = [] \<and> f = RfNotWritten ''disk''"
proof -
  let ?r = "service_add (\<lambda>d. d) example_limits ''u'' 0 (WriteFails ''disk'')
      \<lparr>ar_domain = ''a.tv'', ar_reason = [], ar_ttlMinutes = JUndef, ar_actor = []\<rparr> empty_rules"
  have f: "snd ?r = Inl (RfNotWritten ''disk'')" by code_simp
  from service_add_all_or_nothing [OF prod.collapse [symmetric], of "\<lambda>d. d" example_limits "''u''" 0
      "WriteFails ''disk''" "\<lparr>ar_domain = ''a.tv'', ar_reason = [], ar_ttlMinutes = JUndef, ar_actor = []\<rparr>" empty_rules] f
  have "service_entries (fst ?r) = []" by (auto simp: empty_rules_def)
  with f show ?thesis by (metis prod.collapse)
qed

end
