(* ===== verification/Bounded_History.thy ===== *)
theory Bounded_History imports Prelude begin

text \<open>
  Buffers that keep the newest entries up to a capacity: what the ring of DNS queries and the rings
  of log lines promise to their readers. \<open>hist\<close> abstracts a buffer to the list of its entries,
  oldest first.
\<close>

lemma slice_last_snoc_slice: "slice_last n (slice_last n xs @ [x]) = slice_last n (xs @ [x])"
proof (cases "length xs \<le> n")
  case False
  then have "Suc (length xs - n) = length xs - (n - 1)" if "0 < n" using that by simp
  with False show ?thesis by (cases n) (auto simp: slice_last_def)
qed simp

lemma slice_last_append_slice: "0 < n \<Longrightarrow> slice_last n (slice_last n xs @ ys) = slice_last n (xs @ ys)"
proof (cases "length xs \<le> n")
  case False
  moreover have "n + length ys - n = length ys" "length xs - n + length ys = length xs + length ys - n"
    using False by simp_all
  ultimately show ?thesis
    by (auto simp: slice_last_def add.commute intro!: arg_cong2 [where f = drop])
qed simp

lemma take_rev_slice_last: "0 < n \<Longrightarrow> rev (take n (rev xs)) = slice_last n xs"
  by (simp add: slice_last_def rev_take)

lemma slice_last_slice_last: "0 < n \<Longrightarrow> 0 < m \<Longrightarrow> slice_last n (slice_last m xs) = slice_last (min n m) xs"
  by (auto simp: slice_last_def min_def intro!: arg_cong2 [where f = drop])

locale bounded_push =
  fixes push :: "'e \<Rightarrow> 's \<Rightarrow> 's"
    and hist :: "'s \<Rightarrow> 'e list"
    and capacity :: "'s \<Rightarrow> nat"
    and inv :: "'s \<Rightarrow> bool"
  assumes capacity_pos: "inv s \<Longrightarrow> 0 < capacity s"
    and hist_push: "inv s \<Longrightarrow> hist (push e s) = slice_last (capacity s) (hist s @ [e])"
    and capacity_push: "inv s \<Longrightarrow> capacity (push e s) = capacity s"
    and inv_push: "inv s \<Longrightarrow> inv (push e s)"
    and hist_bound: "inv s \<Longrightarrow> length (hist s) \<le> capacity s"
begin

definition pushes :: "'e list \<Rightarrow> 's \<Rightarrow> 's" where
  "pushes es s = foldl (\<lambda>s e. push e s) s es"

lemma pushes_simps [simp]: "pushes [] s = s" "pushes (e # es) s = pushes es (push e s)"
  by (simp_all add: pushes_def)

lemma inv_pushes: "inv s \<Longrightarrow> inv (pushes es s) \<and> capacity (pushes es s) = capacity s"
  by (induction es arbitrary: s) (simp_all add: inv_push capacity_push)

text \<open>After any pushes the buffer holds exactly the newest entries, in order.\<close>

lemma hist_pushes: "inv s \<Longrightarrow> hist (pushes es s) = slice_last (capacity s) (hist s @ es)"
proof (induction es arbitrary: s)
  case Nil
  then show ?case by (simp add: hist_bound)
next
  case (Cons e es)
  then show ?case
    by (simp add: hist_push capacity_push inv_push slice_last_append_slice capacity_pos)
qed

end

locale bounded_history = bounded_push +
  fixes resize :: "nat \<Rightarrow> 'b \<Rightarrow> 'b"
  assumes hist_resize: "inv s \<Longrightarrow> 0 < n \<Longrightarrow> hist (resize n s) = slice_last n (hist s)"
    and capacity_resize: "inv s \<Longrightarrow> 0 < n \<Longrightarrow> capacity (resize n s) = n"
    and inv_resize: "inv s \<Longrightarrow> 0 < n \<Longrightarrow> inv (resize n s)"
begin

lemma hist_resize_pushes:
  "inv s \<Longrightarrow> 0 < n \<Longrightarrow> hist (resize n (pushes es s)) = slice_last (min n (capacity s)) (hist s @ es)"
  by (simp add: hist_resize inv_pushes hist_pushes slice_last_slice_last capacity_pos)

end

end
