(* ===== verification/Log_Ring.thy ===== *)
theory Log_Ring imports Bounded_History Text_Tools begin

text \<open>
  The recent log lines (\<open>src/log/ring-buffer.ts\<close>): a circular buffer, one for all lines and one
  for each service, and the level inferred from a line.
\<close>

section \<open>Circular buffers\<close>

text \<open>\<open>None\<close> is a place of the array that was never written (\<open>undefined\<close>).\<close>

record 'a circular =
  cb_entries :: "'a option list"
  cb_start :: nat
  cb_count :: nat
  cb_capacity :: nat

definition new_circular :: "nat \<Rightarrow> 'a circular" where
  "new_circular cap = \<lparr>cb_entries = replicate cap None, cb_start = 0, cb_count = 0, cb_capacity = cap\<rparr>"

definition cb_push :: "'a \<Rightarrow> 'a circular \<Rightarrow> 'a circular" where
  "cb_push x b =
     (if cb_count b < cb_capacity b then
        b\<lparr>cb_entries := (cb_entries b)[(cb_start b + cb_count b) mod cb_capacity b := Some x],
          cb_count := cb_count b + 1\<rparr>
      else
        b\<lparr>cb_entries := (cb_entries b)[cb_start b := Some x],
          cb_start := (cb_start b + 1) mod cb_capacity b\<rparr>)"

text \<open>The loop from \<open>offset = count - 1\<close> down to zero.\<close>

fun newest_loop :: "'a circular \<Rightarrow> nat \<Rightarrow> 'a list \<Rightarrow> 'a list" where
  "newest_loop b 0 acc = acc"
| "newest_loop b (Suc offset) acc =
     newest_loop b offset
       (case cb_entries b ! ((cb_start b + offset) mod cb_capacity b) of None \<Rightarrow> acc | Some x \<Rightarrow> acc @ [x])"

definition newestFirst :: "'a circular \<Rightarrow> 'a list" where
  "newestFirst b = newest_loop b (cb_count b) []"

definition cb_resize :: "nat \<Rightarrow> 'a circular \<Rightarrow> 'a circular" where
  "cb_resize cap b =
     (let kept = rev (take cap (newestFirst b)) in
      foldl (\<lambda>b x. cb_push x b)
        (b\<lparr>cb_capacity := cap, cb_entries := replicate cap None, cb_start := 0, cb_count := 0\<rparr>) kept)"

section \<open>Levels\<close>

datatype channel = Stdout | Stderr
datatype log_level = LTrace | LDebug | LInfo | LWarn | LError | LFatal

record log_line =
  ll_code :: string
  ll_channel :: channel
  ll_ts :: ms
  ll_line :: string

definition regex_word_char :: "char \<Rightarrow> bool" where
  "regex_word_char c =
     (let n = of_char c :: nat in (97 \<le> n \<and> n \<le> 122) \<or> (65 \<le> n \<and> n \<le> 90) \<or> (48 \<le> n \<and> n \<le> 57) \<or> n = 95)"

text \<open>\<open>/\\b(w1|w2|...)\\b/.test(s)\<close> for words of letters; \<open>boundary\<close> tells whether a word may start here.\<close>

definition word_here :: "string \<Rightarrow> string \<Rightarrow> bool" where
  "word_here w s \<longleftrightarrow> starts_with w s \<and> (case drop (length w) s of [] \<Rightarrow> True | c # _ \<Rightarrow> \<not> regex_word_char c)"

fun has_word :: "string list \<Rightarrow> bool \<Rightarrow> string \<Rightarrow> bool" where
  "has_word ws boundary [] = False"
| "has_word ws boundary (c # s) =
     ((boundary \<and> list_ex (\<lambda>w. word_here w (c # s)) ws) \<or> has_word ws (\<not> regex_word_char c) s)"

definition inferLevel :: "log_line \<Rightarrow> log_level option" where
  "inferLevel line =
     (if ll_channel line = Stderr then Some LError
      else
        let value = js_lower (ll_line line) in
        if has_word [''fatal''] True value then Some LFatal
        else if has_word [''error'', ''err'', ''exception'', ''traceback''] True value then Some LError
        else if has_word [''warn'', ''warning''] True value then Some LWarn
        else if has_word [''info''] True value then Some LInfo
        else if has_word [''debug''] True value then Some LDebug
        else if has_word [''trace''] True value then Some LTrace
        else None)"

section \<open>The buffers of all services\<close>

record buffered_line =
  bl_id :: nat
  bl_code :: string
  bl_channel :: channel
  bl_ts :: ms
  bl_level :: "log_level option"
  bl_line :: string

record ring_config =
  rg_perService :: nat
  rg_global :: nat

record log_ring =
  lr_perService :: "(string \<times> buffered_line circular) list"
  lr_global :: "buffered_line circular"
  lr_nextId :: nat
  lr_config :: ring_config

text \<open>\<open>validateConfig\<close>, for integer settings.\<close>

datatype config_error = PerServiceNotPositive | GlobalNotPositive

definition validateConfig :: "int \<Rightarrow> int \<Rightarrow> config_error + ring_config" where
  "validateConfig perService glob =
     (if perService \<le> 0 then Inl PerServiceNotPositive
      else if glob \<le> 0 then Inl GlobalNotPositive
      else Inr \<lparr>rg_perService = nat perService, rg_global = nat glob\<rparr>)"

definition new_log_ring :: "int \<Rightarrow> int \<Rightarrow> config_error + log_ring" where
  "new_log_ring perService glob =
     (case validateConfig perService glob of
        Inl e \<Rightarrow> Inl e
      | Inr c \<Rightarrow> Inr \<lparr>lr_perService = [], lr_global = new_circular (rg_global c), lr_nextId = 1, lr_config = c\<rparr>)"

definition ring_configure :: "int \<Rightarrow> int \<Rightarrow> log_ring \<Rightarrow> config_error + log_ring" where
  "ring_configure perService glob r =
     (case validateConfig perService glob of
        Inl e \<Rightarrow> Inl e
      | Inr c \<Rightarrow> Inr (r\<lparr>lr_config := c, lr_global := cb_resize (rg_global c) (lr_global r),
          lr_perService := map (\<lambda>(k, b). (k, cb_resize (rg_perService c) b)) (lr_perService r)\<rparr>))"

definition ring_append :: "log_line \<Rightarrow> log_ring \<Rightarrow> log_ring \<times> buffered_line" where
  "ring_append line r =
     (let buffered = \<lparr>bl_id = lr_nextId r, bl_code = ll_code line, bl_channel = ll_channel line,
            bl_ts = ll_ts line, bl_level = inferLevel line, bl_line = ll_line line\<rparr>;
          r = r\<lparr>lr_nextId := lr_nextId r + 1, lr_global := cb_push buffered (lr_global r)\<rparr>;
          lines = (case map_of (lr_perService r) (ll_code line) of
                     Some b \<Rightarrow> b | None \<Rightarrow> new_circular (rg_perService (lr_config r)))
      in (r\<lparr>lr_perService := upsert fst (ll_code line, cb_push buffered lines) (lr_perService r)\<rparr>, buffered))"

text \<open>
  \<open>recent\<close>: the limit is tested after a push, so a match is returned even for limit zero.
\<close>

fun recent_global_loop :: "string set option \<Rightarrow> nat \<Rightarrow> buffered_line list \<Rightarrow> buffered_line list \<Rightarrow> buffered_line list" where
  "recent_global_loop codes limit [] result = result"
| "recent_global_loop codes limit (l # ls) result =
     (if (case codes of None \<Rightarrow> False | Some cs \<Rightarrow> bl_code l \<notin> cs) then recent_global_loop codes limit ls result
      else if length (result @ [l]) \<ge> limit then result @ [l]
      else recent_global_loop codes limit ls (result @ [l]))"

definition ring_recent :: "string set option \<Rightarrow> nat \<Rightarrow> log_ring \<Rightarrow> buffered_line list" where
  "ring_recent codes limit r = recent_global_loop codes limit (newestFirst (lr_global r)) []"

definition recentForService :: "string \<Rightarrow> nat \<Rightarrow> log_ring \<Rightarrow> buffered_line list" where
  "recentForService code limit r =
     (case map_of (lr_perService r) code of None \<Rightarrow> [] | Some b \<Rightarrow> take limit (newestFirst b))"

definition ring_clear :: "log_ring \<Rightarrow> log_ring" where
  "ring_clear r = r\<lparr>lr_perService := [], lr_global := new_circular (rg_global (lr_config r)), lr_nextId := 1\<rparr>"


section \<open>A circular buffer keeps the newest entries\<close>

definition cb_at :: "'a circular \<Rightarrow> nat \<Rightarrow> 'a option" where
  "cb_at b i = cb_entries b ! ((cb_start b + i) mod cb_capacity b)"

definition cb_hist :: "'a circular \<Rightarrow> 'a list" where
  "cb_hist b = map (\<lambda>i. the (cb_at b i)) [0..<cb_count b]"

definition cb_inv :: "'a circular \<Rightarrow> bool" where
  "cb_inv b \<longleftrightarrow> 0 < cb_capacity b \<and> length (cb_entries b) = cb_capacity b \<and> cb_count b \<le> cb_capacity b
     \<and> cb_start b < cb_capacity b \<and> (cb_count b < cb_capacity b \<longrightarrow> cb_start b = 0)
     \<and> (\<forall>i < cb_count b. cb_at b i \<noteq> None)"

lemma cb_new [simp]:
  "0 < cap \<Longrightarrow> cb_inv (new_circular cap)" "cb_hist (new_circular cap) = []" "cb_capacity (new_circular cap) = cap"
  by (simp_all add: cb_inv_def cb_hist_def new_circular_def)

lemma cb_capacity_push [simp]: "cb_capacity (cb_push x b) = cb_capacity b"
  by (simp add: cb_push_def)

lemma cb_at_push:
  assumes "cb_inv b" "i < cb_count (cb_push x b)"
  shows "cb_at (cb_push x b) i =
    (if cb_count b < cb_capacity b then (if i = cb_count b then Some x else cb_at b i)
     else (if Suc i = cb_capacity b then Some x else cb_at b (Suc i)))"
proof (cases "cb_count b < cb_capacity b")
  case True
  with assms have "cb_start b = 0" "i \<le> cb_count b" by (auto simp: cb_inv_def cb_push_def)
  with True assms(1) show ?thesis by (auto simp: cb_at_def cb_push_def cb_inv_def)
next
  case False
  with assms have full: "cb_count b = cb_capacity b" "i < cb_capacity b" "cb_start b < cb_capacity b"
      "length (cb_entries b) = cb_capacity b" "0 < cb_capacity b"
    by (auto simp: cb_inv_def cb_push_def)
  have place: "((cb_start b + 1) mod cb_capacity b + i) mod cb_capacity b = (cb_start b + Suc i) mod cb_capacity b"
    by (simp add: mod_add_left_eq)
  have eq: "(cb_start b + Suc i) mod cb_capacity b = cb_start b \<longleftrightarrow> Suc i = cb_capacity b"
    using full(2,3) by (auto simp: mod_if le_mod_geq)
  show ?thesis
    using False full eq place by (auto simp: cb_at_def cb_push_def nth_list_update)
qed

lemma cb_inv_push: "cb_inv b \<Longrightarrow> cb_inv (cb_push x b)"
proof -
  assume b: "cb_inv b"
  have "cb_at (cb_push x b) i \<noteq> None" if "i < cb_count (cb_push x b)" for i
    using cb_at_push [OF b that] b that by (auto simp: cb_inv_def cb_push_def split: if_splits)
  with b show ?thesis by (auto simp: cb_inv_def cb_push_def)
qed

lemma cb_hist_push:
  assumes "cb_inv b"
  shows "cb_hist (cb_push x b) = slice_last (cb_capacity b) (cb_hist b @ [x])"
proof (rule nth_equalityI)
  show "length (cb_hist (cb_push x b)) = length (slice_last (cb_capacity b) (cb_hist b @ [x]))"
    using assms by (auto simp: cb_hist_def cb_push_def slice_last_def cb_inv_def)
next
  fix i assume "i < length (cb_hist (cb_push x b))"
  then have i: "i < cb_count (cb_push x b)" by (simp add: cb_hist_def)
  show "cb_hist (cb_push x b) ! i = slice_last (cb_capacity b) (cb_hist b @ [x]) ! i"
    using cb_at_push [OF assms i] i assms
    by (auto simp: cb_hist_def cb_push_def slice_last_def cb_inv_def nth_append split: if_splits)
qed

lemma cb_hist_bound: "cb_inv b \<Longrightarrow> length (cb_hist b) \<le> cb_capacity b"
  by (simp add: cb_hist_def cb_inv_def)

interpretation circ: bounded_push cb_push cb_hist cb_capacity cb_inv
  by unfold_locales (auto simp: cb_hist_push cb_inv_push cb_hist_bound, simp add: cb_inv_def)

lemma newest_loop_hist:
  "\<forall>i < n. cb_at b i \<noteq> None \<Longrightarrow> newest_loop b n acc = acc @ rev (map (\<lambda>i. the (cb_at b i)) [0..<n])"
  by (induction b n acc rule: newest_loop.induct) (auto simp: cb_at_def split: option.splits)

lemma newestFirst_hist: "cb_inv b \<Longrightarrow> newestFirst b = rev (cb_hist b)"
  by (simp add: newestFirst_def cb_hist_def cb_inv_def newest_loop_hist)

lemma cb_resize_pushes:
  "cb_resize cap b = circ.pushes (rev (take cap (newestFirst b))) (new_circular cap)"
  by (cases b) (simp add: cb_resize_def circ.pushes_def new_circular_def Let_def)

lemma cb_resize_laws:
  assumes "cb_inv b" "0 < cap"
  shows "cb_hist (cb_resize cap b) = slice_last cap (cb_hist b)" "cb_inv (cb_resize cap b)"
    "cb_capacity (cb_resize cap b) = cap"
  using assms
  by (simp_all add: cb_resize_pushes circ.hist_pushes circ.inv_pushes newestFirst_hist take_rev_slice_last)

interpretation circ: bounded_history cb_push cb_hist cb_capacity cb_inv cb_resize
  by unfold_locales (simp_all add: cb_resize_laws)


section \<open>What a reader of the log sees\<close>

text \<open>The lines appended, with the ids they get from \<open>n\<close> on.\<close>

fun buffered_from :: "nat \<Rightarrow> log_line list \<Rightarrow> buffered_line list" where
  "buffered_from n [] = []"
| "buffered_from n (l # ls) =
     \<lparr>bl_id = n, bl_code = ll_code l, bl_channel = ll_channel l, bl_ts = ll_ts l,
      bl_level = inferLevel l, bl_line = ll_line l\<rparr> # buffered_from (n + 1) ls"

lemma length_buffered_from [simp]: "length (buffered_from n ls) = length ls"
  by (induction n ls rule: buffered_from.induct) simp_all

lemma buffered_from_snoc:
  "buffered_from n (ls @ [l]) = buffered_from n ls @ buffered_from (n + length ls) [l]"
  by (induction n ls rule: buffered_from.induct) simp_all

lemma buffered_from_ids: "map bl_id (buffered_from n ls) = [n..<n + length ls]"
  by (induction n ls rule: buffered_from.induct) (simp_all add: upt_conv_Cons del: upt_Suc)

definition ring_after :: "log_line list \<Rightarrow> log_ring \<Rightarrow> log_ring" where
  "ring_after ls r = foldl (\<lambda>r l. fst (ring_append l r)) r ls"

definition of_code :: "string \<Rightarrow> buffered_line list \<Rightarrow> buffered_line list" where
  "of_code code bs = filter (\<lambda>b. bl_code b = code) bs"

definition ring_holds :: "ring_config \<Rightarrow> buffered_line list \<Rightarrow> log_ring \<Rightarrow> bool" where
  "ring_holds c bs r \<longleftrightarrow> lr_config r = c \<and> lr_nextId r = length bs + 1
     \<and> cb_inv (lr_global r) \<and> cb_capacity (lr_global r) = rg_global c
     \<and> cb_hist (lr_global r) = slice_last (rg_global c) bs
     \<and> (\<forall>code. case map_of (lr_perService r) code of
          None \<Rightarrow> of_code code bs = []
        | Some b \<Rightarrow> cb_inv b \<and> cb_capacity b = rg_perService c
            \<and> cb_hist b = slice_last (rg_perService c) (of_code code bs))"

lemma map_of_upsert: "map_of (upsert fst (k, v) xs) k' = (if k' = k then Some v else map_of xs k')"
  by (induction xs) auto

lemma ring_holds_append:
  assumes "ring_holds c bs r" "0 < rg_perService c"
  shows "ring_holds c (bs @ buffered_from (length bs + 1) [l]) (fst (ring_append l r))"
proof -
  define x where "x = hd (buffered_from (length bs + 1) [l])"
  define lines where "lines = (case map_of (lr_perService r) (ll_code l) of
      Some b \<Rightarrow> b | None \<Rightarrow> new_circular (rg_perService c))"
  have x: "buffered_from (length bs + 1) [l] = [x]" "bl_code x = ll_code l" by (simp_all add: x_def)
  have step: "fst (ring_append l r) = r\<lparr>lr_nextId := length bs + 2, lr_global := cb_push x (lr_global r),
      lr_perService := upsert fst (ll_code l, cb_push x lines) (lr_perService r)\<rparr>"
    using assms(1) by (simp add: ring_append_def Let_def ring_holds_def x_def lines_def cong: option.case_cong)
  have lines: "cb_inv lines \<and> cb_capacity lines = rg_perService c
      \<and> cb_hist lines = slice_last (rg_perService c) (of_code (ll_code l) bs)"
    using assms by (cases "map_of (lr_perService r) (ll_code l)")
      (auto simp: ring_holds_def lines_def dest!: spec [of _ "ll_code l"])
  have new: "of_code code (bs @ [x]) = (if code = ll_code l then of_code code bs @ [x] else of_code code bs)" for code
    using x by (simp add: of_code_def)
  have glob: "cb_inv (cb_push x (lr_global r)) \<and> cb_capacity (cb_push x (lr_global r)) = rg_global c
      \<and> cb_hist (cb_push x (lr_global r)) = slice_last (rg_global c) (bs @ [x])"
    using assms(1) by (simp add: ring_holds_def cb_inv_push cb_hist_push slice_last_snoc_slice)
  have mine: "cb_inv (cb_push x lines) \<and> cb_capacity (cb_push x lines) = rg_perService c
      \<and> cb_hist (cb_push x lines) = slice_last (rg_perService c) (of_code (ll_code l) bs @ [x])"
    using lines by (simp add: cb_inv_push cb_hist_push slice_last_snoc_slice)
  show ?thesis
    unfolding x(1) step
    using assms(1) glob mine by (simp add: ring_holds_def new map_of_upsert cong: option.case_cong)
qed

lemma ring_holds_after:
  assumes "0 < rg_perService c"
  shows "ring_holds c bs r \<Longrightarrow> ring_holds c (bs @ buffered_from (length bs + 1) ls) (ring_after ls r)"
proof (induction ls arbitrary: bs r)
  case Nil
  then show ?case by (simp add: ring_after_def)
next
  case (Cons l ls)
  from Cons.IH [OF ring_holds_append [OF Cons.prems assms, of l]] show ?case
    by (simp add: ring_after_def)
qed

lemma ring_holds_new:
  "new_log_ring p g = Inr r \<Longrightarrow> ring_holds (lr_config r) [] r \<and> 0 < rg_perService (lr_config r)
     \<and> lr_config r = \<lparr>rg_perService = nat p, rg_global = nat g\<rparr>"
  by (auto simp: new_log_ring_def validateConfig_def ring_holds_def of_code_def split: if_splits)

lemma recent_global_loop_eq:
  "length result < limit \<Longrightarrow>
   recent_global_loop codes limit ls result
     = result @ take (limit - length result) (filter (\<lambda>l. case codes of None \<Rightarrow> True | Some cs \<Rightarrow> bl_code l \<in> cs) ls)"
proof (induction codes limit ls result rule: recent_global_loop.induct)
  case (2 codes limit l ls result)
  then show ?case by (cases "Suc (length result) = limit") (auto split: option.splits simp: take_Cons')
qed simp

text \<open>
  A reader gets exactly the newest lines. After any lines are appended to a new buffer,
  the lines of a service are the newest \<open>limit\<close> among its last \<open>perService\<close> lines, whatever the
  other services wrote; the global view holds the newest matching ones among the last \<open>global\<close>
  lines; and the ids are the consecutive numbers from one on.
\<close>

theorem log_ring_newest_lines:
  assumes "new_log_ring p g = Inr r" "0 < limit"
  shows "let bs = buffered_from 1 ls in
     recentForService code n (ring_after ls r) = take n (rev (slice_last (nat p) (of_code code bs)))
     \<and> ring_recent codes limit (ring_after ls r)
         = take limit (filter (\<lambda>l. case codes of None \<Rightarrow> True | Some cs \<Rightarrow> bl_code l \<in> cs)
             (rev (slice_last (nat g) bs)))
     \<and> map bl_id bs = [1..<1 + length ls]"
proof -
  define c where "c = lr_config r"
  have c: "0 < rg_perService c" "c = \<lparr>rg_perService = nat p, rg_global = nat g\<rparr>"
    using ring_holds_new [OF assms(1)] unfolding c_def by blast+
  have h: "ring_holds c (buffered_from 1 ls) (ring_after ls r)"
  proof -
    have "ring_holds c [] r" using ring_holds_new [OF assms(1)] unfolding c_def by blast
    from ring_holds_after [OF c(1) this, of ls] show ?thesis by simp
  qed
  have service: "recentForService code n (ring_after ls r)
      = take n (rev (slice_last (nat p) (of_code code (buffered_from 1 ls))))"
  proof -
    have "case map_of (lr_perService (ring_after ls r)) code of
        None \<Rightarrow> of_code code (buffered_from 1 ls) = []
      | Some b \<Rightarrow> cb_inv b \<and> cb_hist b = slice_last (nat p) (of_code code (buffered_from 1 ls))"
    proof -
      from h have "\<forall>code. case map_of (lr_perService (ring_after ls r)) code of
          None \<Rightarrow> of_code code (buffered_from 1 ls) = []
        | Some b \<Rightarrow> cb_inv b \<and> cb_capacity b = rg_perService c
            \<and> cb_hist b = slice_last (rg_perService c) (of_code code (buffered_from 1 ls))"
        unfolding ring_holds_def by blast
      from spec [OF this, of code] c(2) show ?thesis
        by (cases "map_of (lr_perService (ring_after ls r)) code") simp_all
    qed
    then show ?thesis
      by (cases "map_of (lr_perService (ring_after ls r)) code")
        (simp_all add: recentForService_def newestFirst_hist slice_last_def)
  qed
  have glob: "newestFirst (lr_global (ring_after ls r)) = rev (slice_last (nat g) (buffered_from 1 ls))"
    using h c by (simp add: ring_holds_def newestFirst_hist)
  show ?thesis
    using service assms(2) by (simp add: Let_def ring_recent_def glob recent_global_loop_eq buffered_from_ids)
qed

definition example_line :: "string \<Rightarrow> string \<Rightarrow> log_line" where
  "example_line c t = \<lparr>ll_code = c, ll_channel = Stdout, ll_ts = 0, ll_line = t\<rparr>"

lemma log_ring_newest_lines_witness:
  "\<exists>r. new_log_ring 2 3 = Inr r
     \<and> map bl_line (recentForService ''a'' 9 (ring_after (map (example_line ''a'') [''x'', ''an error!'', ''y'']) r)) = [''y'', ''an error!'']
     \<and> inferLevel (example_line ''a'' ''an error!'') = Some LError \<and> inferLevel (example_line ''a'' ''terror'') = None"
proof -
  obtain r where r: "new_log_ring 2 3 = Inr r" by (simp add: new_log_ring_def validateConfig_def)
  have level: "inferLevel (example_line ''a'' ''an error!'') = Some LError" "inferLevel (example_line ''a'' ''terror'') = None"
    by code_simp+
  have lines: "map bl_line (recentForService ''a'' 9 (ring_after (map (example_line ''a'') [''x'', ''an error!'', ''y'']) r)) = [''y'', ''an error!'']"
  proof -
    let ?ls = "map (example_line ''a'') [''x'', ''an error!'', ''y'']"
    from log_ring_newest_lines [OF r, of 1 ?ls "''a''" 9 None]
    have seen: "recentForService ''a'' 9 (ring_after ?ls r) = take 9 (rev (slice_last (nat 2) (of_code ''a'' (buffered_from 1 ?ls))))"
      unfolding Let_def using zero_less_one by blast
    show ?thesis
      unfolding seen by (simp add: slice_last_def of_code_def example_line_def)
  qed
  show ?thesis
    by (intro exI [of _ r] conjI r lines level)
qed

end
