(* ===== verification/Dns_Message.thy ===== *)
theory Dns_Message imports Text_Tools "HOL-Library.Word" begin

text \<open>
  DNS messages (\<open>src/dnsfilter/dns-message.ts\<close>): the query of a client, the answers the filter
  makes itself, and the check of an upstream answer against the query it answers. A buffer is a
  list of bytes. Every read of the source is guarded by a length check; \<open>u16\<close> reads zero where
  Node would throw, and the guards are in the definitions as in the source.
\<close>

unbundle bit_operations_syntax

type_synonym buffer = "8 word list"

definition HEADER_BYTES :: nat where "HEADER_BYTES = 12"
definition MAX_NAME_BYTES :: nat where "MAX_NAME_BYTES = 255"
definition MAX_POINTER_HOPS :: nat where "MAX_POINTER_HOPS = 32"
definition NOERROR :: "16 word" where "NOERROR = 0"
definition FORMERR :: "16 word" where "FORMERR = 1"
definition SERVFAIL :: "16 word" where "SERVFAIL = 2"
definition NXDOMAIN :: "16 word" where "NXDOMAIN = 3"
definition NOTIMP :: "16 word" where "NOTIMP = 4"
definition TYPE_A :: "16 word" where "TYPE_A = 1"
definition TYPE_AAAA :: "16 word" where "TYPE_AAAA = 28"

definition byte_at :: "buffer \<Rightarrow> nat \<Rightarrow> 8 word" where
  "byte_at b i = (if i < length b then b ! i else 0)"

definition u16 :: "buffer \<Rightarrow> nat \<Rightarrow> 16 word" where
  "u16 b i = push_bit 8 (ucast (byte_at b i)) OR ucast (byte_at b (i + 1))"

definition put16 :: "16 word \<Rightarrow> nat \<Rightarrow> buffer \<Rightarrow> buffer" where
  "put16 w i b = b[i := ucast (drop_bit 8 w), i + 1 := ucast w]"

definition latin1 :: "buffer \<Rightarrow> string" where
  "latin1 b = map (\<lambda>x. char_of (unat x)) b"

section \<open>Names\<close>

text \<open>
  The loop of \<open>readName\<close>: a label moves on in the message and counts against 255 bytes, a
  compression pointer jumps and counts against 32 hops.
\<close>

function read_name :: "buffer \<Rightarrow> bool \<Rightarrow> nat \<Rightarrow> nat option \<Rightarrow> nat \<Rightarrow> nat \<Rightarrow> string list \<Rightarrow> (string \<times> nat) option" where
  "read_name b allowPointers offset end' bytes hops labels =
     (if hops > MAX_POINTER_HOPS then None
      else if offset \<ge> length b then None
      else
        let len = b ! offset in
        if len = 0 then
          Some (js_lower (join ''.'' labels), case end' of Some e \<Rightarrow> e | None \<Rightarrow> offset + 1)
        else if len AND 0xC0 = 0xC0 then
          (if \<not> allowPointers \<or> offset + 1 \<ge> length b then None
           else read_name b allowPointers (unat (len AND 0x3F) * 256 + unat (b ! (offset + 1)))
                  (case end' of Some e \<Rightarrow> Some e | None \<Rightarrow> Some (offset + 2)) bytes (hops + 1) labels)
        else if len AND 0xC0 \<noteq> 0 then None
        else if offset + 1 + unat len > length b then None
        else if bytes + unat len + 1 > MAX_NAME_BYTES then None
        else read_name b allowPointers (offset + 1 + unat len) end' (bytes + unat len + 1) hops
               (labels @ [latin1 (take (unat len) (drop (offset + 1) b))]))"
  by pat_completeness auto
termination
  by (relation "measures [\<lambda>(b, p, offset, e, bytes, hops, labels). MAX_POINTER_HOPS + 1 - hops,
        \<lambda>(b, p, offset, e, bytes, hops, labels). MAX_NAME_BYTES - bytes]") auto

declare read_name.simps [simp del]

definition readName :: "buffer \<Rightarrow> nat \<Rightarrow> bool \<Rightarrow> (string \<times> nat) option" where
  "readName b start allowPointers = read_name b allowPointers start None 0 0 []"

section \<open>Queries and the answers of the filter\<close>

record dns_query =
  q_id :: "16 word"
  q_opcode :: "16 word"
  q_name :: string
  q_type :: "16 word"
  q_class :: "16 word"
  q_end :: nat

datatype bad_reason =
    ShorterThanHeader | NotAQuery | NotOneQuestion | UnreadableQuestion
  | WrongId | NotAResponse | OtherQuestion | UnreadableAnswer | TruncatedAnswer

text \<open>\<open>QueryBad\<close> carries the id when the header could be read.\<close>

datatype query_parse = QueryOk dns_query | QueryBad "16 word option" bad_reason

definition parseQuery :: "buffer \<Rightarrow> query_parse" where
  "parseQuery b =
     (if length b < HEADER_BYTES then QueryBad None ShorterThanHeader
      else
        let ident = u16 b 0; flags = u16 b 2 in
        if flags AND 0x8000 \<noteq> 0 then QueryBad None NotAQuery
        else
          let opcode = drop_bit 11 flags AND 0x0F in
          if u16 b 4 \<noteq> 1 then QueryBad (Some ident) NotOneQuestion
          else case readName b HEADER_BYTES False of
            None \<Rightarrow> QueryBad (Some ident) UnreadableQuestion
          | Some (name, e) \<Rightarrow>
              if e + 4 > length b then QueryBad (Some ident) UnreadableQuestion
              else QueryOk \<lparr>q_id = ident, q_opcode = opcode, q_name = name, q_type = u16 b e,
                            q_class = u16 b (e + 2), q_end = e + 4\<rparr>)"

definition response_flags :: "16 word \<Rightarrow> 16 word \<Rightarrow> 16 word" where
  "response_flags requestFlags rcode =
     0x8000 OR (requestFlags AND 0x7800) OR (requestFlags AND 0x0100) OR 0x0080 OR rcode"

definition buildResponse :: "buffer \<Rightarrow> dns_query \<Rightarrow> 16 word \<Rightarrow> buffer" where
  "buildResponse request q rcode =
     put16 0 10 (put16 0 8 (put16 0 6 (put16 1 4
       (put16 (response_flags (u16 request 2) rcode) 2 (take (q_end q) request)))))"

definition buildHeaderOnlyResponse :: "16 word \<Rightarrow> 16 word \<Rightarrow> buffer" where
  "buildHeaderOnlyResponse ident rcode =
     put16 (0x8000 OR 0x0080 OR rcode) 2 (put16 ident 0 (replicate HEADER_BYTES 0))"

section \<open>Addresses\<close>

text \<open>The longest run of zero groups, if it has at least two; the first one wins.\<close>

function best_zero_run :: "string list \<Rightarrow> nat \<Rightarrow> (nat \<times> nat) option \<Rightarrow> (nat \<times> nat) option" where
  "best_zero_run groups index best =
     (if index \<ge> length groups then best
      else if groups ! index \<noteq> ''0'' then best_zero_run groups (index + 1) best
      else
        let n = length (takeWhile (\<lambda>g. g = ''0'') (drop index groups)) in
        best_zero_run groups (index + max 1 n)
          (if n > (case best of None \<Rightarrow> 0 | Some (_, m) \<Rightarrow> m) \<and> n \<ge> 2 then Some (index, n) else best))"
  by pat_completeness auto
termination
  by (relation "measure (\<lambda>(groups, index, best). length groups - index)") auto

declare best_zero_run.simps [simp del]

definition formatIpv6 :: "buffer \<Rightarrow> nat \<Rightarrow> string" where
  "formatIpv6 b offset =
     (let groups = map (\<lambda>index. hex_string (unat (u16 b (offset + index * 2)))) [0..<8]
      in case best_zero_run groups 0 None of
           None \<Rightarrow> join '':'' groups
         | Some (start, len) \<Rightarrow>
             join '':'' (take start groups) @ ''::'' @ join '':'' (drop (start + len) groups))"

definition formatIpv4 :: "buffer \<Rightarrow> nat \<Rightarrow> string" where
  "formatIpv4 b data = join ''.'' (map (\<lambda>x. dec_string (unat x)) (take 4 (drop data b)))"

section \<open>Upstream answers\<close>

record upstream_answer =
  ua_rcode :: "16 word"
  ua_addresses :: "string list"

text \<open>The loop over the answer section.\<close>

fun read_answers :: "nat \<Rightarrow> buffer \<Rightarrow> nat \<Rightarrow> string list \<Rightarrow> bad_reason + string list" where
  "read_answers 0 b offset addresses = Inr addresses"
| "read_answers (Suc n) b offset addresses =
     (case readName b offset True of
        None \<Rightarrow> Inl UnreadableAnswer
      | Some (_, e) \<Rightarrow>
          if e + 10 > length b then Inl UnreadableAnswer
          else
            let type = u16 b e; len = unat (u16 b (e + 8)); data = e + 10 in
            if data + len > length b then Inl TruncatedAnswer
            else read_answers n b (data + len)
              (addresses @ (if type = TYPE_A \<and> len = 4 then [formatIpv4 b data] else [])
                         @ (if type = TYPE_AAAA \<and> len = 16 then [formatIpv6 b data] else [])))"

definition parseUpstreamResponse :: "buffer \<Rightarrow> dns_query \<Rightarrow> bad_reason + upstream_answer" where
  "parseUpstreamResponse b q =
     (if length b < HEADER_BYTES then Inl ShorterThanHeader
      else if u16 b 0 \<noteq> q_id q then Inl WrongId
      else
        let flags = u16 b 2 in
        if flags AND 0x8000 = 0 then Inl NotAResponse
        else if u16 b 4 \<noteq> 1 then Inl NotOneQuestion
        else case readName b HEADER_BYTES True of
          None \<Rightarrow> Inl UnreadableQuestion
        | Some (name, e) \<Rightarrow>
            if e + 4 > length b then Inl UnreadableQuestion
            else if name \<noteq> q_name q \<or> u16 b e \<noteq> q_type q \<or> u16 b (e + 2) \<noteq> q_class q
            then Inl OtherQuestion
            else case read_answers (unat (u16 b 6)) b (e + 4) [] of
                   Inl r \<Rightarrow> Inl r
                 | Inr addresses \<Rightarrow> Inr \<lparr>ua_rcode = flags AND 0x000F, ua_addresses = addresses\<rparr>)"

definition typeName :: "16 word \<Rightarrow> string" where
  "typeName t =
     (case map_of [(1, ''A''), (2, ''NS''), (5, ''CNAME''), (6, ''SOA''), (12, ''PTR''), (15, ''MX''),
                   (16, ''TXT''), (28, ''AAAA''), (33, ''SRV''), (64, ''SVCB''), (65, ''HTTPS''), (255, ''ANY'')] t of
        Some n \<Rightarrow> n
      | None \<Rightarrow> ''TYPE'' @ dec_string (unat t))"


section \<open>Reading names\<close>

lemma js_lower_length [simp]: "length (js_lower s) = length s"
  by (simp add: js_lower_def)

lemma latin1_length [simp]: "length (latin1 b) = length b"
  by (simp add: latin1_def)

text \<open>
  A name read without pointers lies between its start and the returned end, inside the buffer, and
  any buffer with the same bytes there yields the same name, whether pointers are allowed or not.
\<close>

lemma read_name_direct:
  assumes "read_name b False offset None bytes hops labels = Some (n, e)"
  shows "offset < e \<and> e \<le> length b"
    and "length b' \<ge> e \<Longrightarrow> (\<And>i. offset \<le> i \<Longrightarrow> i < e \<Longrightarrow> b' ! i = b ! i)
           \<Longrightarrow> read_name b' p offset None bytes hops labels = Some (n, e)"
proof -
  have "offset < e \<and> e \<le> length b \<and> (\<forall>b' p. length b' \<ge> e \<longrightarrow> (\<forall>i. offset \<le> i \<longrightarrow> i < e \<longrightarrow> b' ! i = b ! i)
      \<longrightarrow> read_name b' p offset None bytes hops labels = Some (n, e))"
    using assms
  proof (induction b "False" offset "None :: nat option" bytes hops labels rule: read_name.induct)
    case (1 b offset bytes hops labels)
    let ?len = "b ! offset" and ?next = "offset + 1 + unat (b ! offset)"
    from "1.prems" have guards: "\<not> hops > MAX_POINTER_HOPS" "offset < length b" "?len AND 0xC0 \<noteq> 0xC0 \<or> ?len = 0"
      by (simp_all add: read_name.simps [of b False] Let_def split: if_splits)
    show ?case
    proof (cases "?len = 0")
      case True
      then show ?thesis
        using "1.prems" guards
        by (auto simp: read_name.simps [of b False] read_name.simps [of _ _ _ None bytes hops labels])
    next
      case False
      from "1.prems" guards False have rest: "?len AND 0xC0 = 0" "?next \<le> length b"
          "\<not> bytes + unat ?len + 1 > MAX_NAME_BYTES"
        and rec: "read_name b False ?next None (bytes + unat ?len + 1) hops
            (labels @ [latin1 (take (unat ?len) (drop (offset + 1) b))]) = Some (n, e)"
        by (simp_all add: read_name.simps [of b False offset] Let_def split: if_splits)
      from "1.hyps"(2) [OF _ _ refl _ _ _ _ _ rec] guards rest False
      have IH: "?next < e" "e \<le> length b"
        and copy: "\<And>b' p. length b' \<ge> e \<Longrightarrow> \<forall>i. ?next \<le> i \<longrightarrow> i < e \<longrightarrow> b' ! i = b ! i \<Longrightarrow>
            read_name b' p ?next None (bytes + unat ?len + 1) hops
            (labels @ [latin1 (take (unat ?len) (drop (offset + 1) b))]) = Some (n, e)"
        by auto
      show ?thesis
      proof (intro conjI allI impI)
        fix b' :: buffer and p
        assume len: "length b' \<ge> e" and same: "\<forall>i. offset \<le> i \<longrightarrow> i < e \<longrightarrow> b' ! i = b ! i"
        have at: "b' ! offset = ?len" using same IH by simp
        have label: "take (unat ?len) (drop (offset + 1) b') = take (unat ?len) (drop (offset + 1) b)"
          by (rule nth_equalityI) (use same IH len rest in \<open>auto simp: min_def split: if_splits\<close>)
        show "read_name b' p offset None bytes hops labels = Some (n, e)"
          using guards rest False IH len same copy [OF len]
          by (simp add: read_name.simps [of b' p offset] at label [simplified] Let_def)
      qed (use IH in auto)
    qed
  qed
  then show "offset < e \<and> e \<le> length b"
    and "length b' \<ge> e \<Longrightarrow> (\<And>i. offset \<le> i \<Longrightarrow> i < e \<Longrightarrow> b' ! i = b ! i)
           \<Longrightarrow> read_name b' p offset None bytes hops labels = Some (n, e)"
    by blast+
qed


definition name_bytes :: "string list \<Rightarrow> nat" where
  "name_bytes labels = sum_list (map (\<lambda>l. length l + 1) labels)"

lemma length_join: "length (join [c] labels) = name_bytes labels - 1"
proof (induction labels)
  case (Cons l labels)
  then show ?case by (cases labels) (auto simp: name_bytes_def)
qed (simp add: name_bytes_def)

text \<open>The end never lies beyond the buffer, and a name never has more than 254 characters.\<close>

lemma read_name_bounds:
  assumes "read_name b p offset end' bytes hops labels = Some (n, e)"
    and "case end' of None \<Rightarrow> True | Some x \<Rightarrow> x \<le> length b"
    and "name_bytes labels = bytes" "bytes \<le> MAX_NAME_BYTES"
  shows "e \<le> length b \<and> length n < MAX_NAME_BYTES"
  using assms
proof (induction b p offset end' bytes hops labels rule: read_name.induct)
  case (1 b p offset end' bytes hops labels)
  note step = "1.prems"(1) [unfolded read_name.simps [of b p offset end' bytes hops labels] Let_def]
  show ?case
  proof (cases "b ! offset = 0")
    case True
    then show ?thesis
      using step "1.prems"(2-4)
      by (auto simp: length_join MAX_NAME_BYTES_def split: if_splits option.splits)
  next
    case False
    show ?thesis
    proof (cases "b ! offset AND 0xC0 = 0xC0")
      case True
      with False step "1.prems"(2-4) show ?thesis
        by (intro "1.IH"(1)) (auto split: if_splits option.splits)
    next
      case other: False
      with False step "1.prems"(2-4) show ?thesis
        by (intro "1.IH"(2)) (auto simp: name_bytes_def split: if_splits)
    qed
  qed
qed

section \<open>Reading and writing sixteen bits\<close>

lemma u16_bytes: "push_bit 8 (ucast (ucast (drop_bit 8 w) :: 8 word)) OR ucast (ucast w :: 8 word) = (w :: 16 word)"
  by (rule bit_word_eqI) (auto simp: bit_simps)

lemma length_put16 [simp]: "length (put16 w i b) = length b"
  by (simp add: put16_def)

lemma u16_put16_same [simp]: "i + 1 < length b \<Longrightarrow> u16 (put16 w i b) i = w"
  by (simp add: u16_def put16_def byte_at_def u16_bytes)

lemma u16_put16_other [simp]: "j + 1 < i \<or> i + 1 < j \<Longrightarrow> u16 (put16 w i b) j = u16 b j"
  by (auto simp: u16_def put16_def byte_at_def)

lemma put16_nth_other [simp]: "j < i \<or> i + 1 < j \<Longrightarrow> put16 w i b ! j = b ! j"
  by (auto simp: put16_def)

lemma u16_take [simp]: "j + 1 < n \<Longrightarrow> u16 (take n b) j = u16 b j"
  by (auto simp: u16_def byte_at_def)

section \<open>Queries, answers and their agreement\<close>

lemma parseQuery_ok:
  assumes "parseQuery b = QueryOk q"
  shows "\<exists>e. readName b HEADER_BYTES False = Some (q_name q, e) \<and> q_end q = e + 4 \<and> HEADER_BYTES < e
      \<and> e + 4 \<le> length b \<and> q_type q = u16 b e \<and> q_class q = u16 b (e + 2)
      \<and> q_id q = u16 b 0 \<and> u16 b 4 = 1 \<and> u16 b 2 AND 0x8000 = 0 \<and> q_opcode q = drop_bit 11 (u16 b 2) AND 0x0F"
  using assms
  by (auto simp: parseQuery_def Let_def readName_def split: if_splits option.splits
      dest: read_name_direct(1))

lemma length_buildResponse: "parseQuery b = QueryOk q \<Longrightarrow> length (buildResponse b q rc) = q_end q"
  by (auto simp: buildResponse_def min_def dest!: parseQuery_ok)

text \<open>The response copies the question, so it reads back as a response to the same query.\<close>

lemma buildResponse_name:
  assumes "parseQuery b = QueryOk q" "readName b HEADER_BYTES False = Some (q_name q, e)"
  shows "readName (buildResponse b q rc) HEADER_BYTES p = Some (q_name q, e)"
proof -
  from parseQuery_ok [OF assms(1)] assms(2) have e: "q_end q = e + 4" "e + 4 \<le> length b" by auto
  have len: "length (buildResponse b q rc) = e + 4" using length_buildResponse [OF assms(1)] e by simp
  show ?thesis
    unfolding readName_def
  proof (rule read_name_direct(2) [OF assms(2) [unfolded readName_def]])
    fix i assume "HEADER_BYTES \<le> i" "i < e"
    then show "buildResponse b q rc ! i = b ! i"
      using e by (simp add: buildResponse_def HEADER_BYTES_def)
  qed (use len in simp)
qed

lemma response_flags_bits:
  "response_flags f rc AND 0x8000 \<noteq> 0"
  "response_flags f rc AND 0x000F = rc AND 0x000F"
proof -
  have "bit (response_flags f rc AND 0x8000) 15"
    by (simp add: response_flags_def bit_simps)
  then show "response_flags f rc AND 0x8000 \<noteq> 0" by (metis bit_0_eq bot_apply bot_bool_def)
  show "response_flags f rc AND 0x000F = rc AND 0x000F"
    by (simp add: response_flags_def bit.conj_disj_distrib2 and.assoc)
qed


lemma buildResponse_accepted:
  assumes "parseQuery request = QueryOk q"
  shows "parseUpstreamResponse (buildResponse request q rcode) q
    = Inr \<lparr>ua_rcode = rcode AND 0x000F, ua_addresses = []\<rparr>"
proof -
  from parseQuery_ok [OF assms] obtain e where
    q: "readName request HEADER_BYTES False = Some (q_name q, e)" "q_end q = e + 4" "HEADER_BYTES < e"
      "e + 4 \<le> length request" "q_type q = u16 request e" "q_class q = u16 request (e + 2)"
      "q_id q = u16 request 0" by blast
  let ?r = "buildResponse request q rcode"
  have len: "length ?r = e + 4" using length_buildResponse [OF assms] q by simp
  have fields: "u16 ?r 0 = q_id q" "u16 ?r 2 = response_flags (u16 request 2) rcode" "u16 ?r 4 = 1"
      "u16 ?r 6 = 0" "u16 ?r e = q_type q" "u16 ?r (e + 2) = q_class q"
    using q by (simp_all add: buildResponse_def HEADER_BYTES_def)
  show ?thesis
    using q(3) by (simp add: parseUpstreamResponse_def Let_def len fields fields [simplified]
        response_flags_bits buildResponse_name [OF assms q(1)])
qed

text \<open>
  An answer the filter makes itself (refusal, block or failure) is always accepted by its own
  check of upstream answers: it carries the id and the question of the query, is marked as a
  response, has no answer records, and its response code is the one asked for.
\<close>

theorem own_answer_roundtrip:
  assumes "parseQuery request = QueryOk q"
  shows "parseUpstreamResponse (buildResponse request q rcode) q
    = Inr \<lparr>ua_rcode = rcode AND 0x000F, ua_addresses = []\<rparr>"
  using assms by (rule buildResponse_accepted)

definition example_query :: buffer where
  "example_query = [0x12, 0x34, 1, 0, 0, 1, 0, 0, 0, 0, 0, 0, 1, 0x41, 2, 0x74, 0x76, 0, 0, 1, 0, 1]"

lemma example_query_parsed:
  "parseQuery example_query = QueryOk \<lparr>q_id = 0x1234, q_opcode = 0, q_name = ''a.tv'', q_type = 1, q_class = 1, q_end = 22\<rparr>"
  by code_simp

lemma own_answer_roundtrip_witness:
  "\<exists>q. parseQuery example_query = QueryOk q \<and> q_name q = ''a.tv''
     \<and> parseUpstreamResponse (buildResponse example_query q NXDOMAIN) q = Inr \<lparr>ua_rcode = NXDOMAIN, ua_addresses = []\<rparr>"
  using own_answer_roundtrip [OF example_query_parsed, of NXDOMAIN] example_query_parsed
  by (auto simp: NXDOMAIN_def)

text \<open>
  Reading a name always ends (compression loops included) and stays inside the packet: the end
  it reports is never beyond the buffer, and a name never has more than 254 characters.
\<close>

theorem readName_within_packet:
  assumes "readName b start allowPointers = Some (name, e)"
  shows "e \<le> length b \<and> length name \<le> 254"
  using read_name_bounds [OF assms [unfolded readName_def]]
  by (simp add: name_bytes_def MAX_NAME_BYTES_def)

lemma readName_within_packet_witness:
  "readName [1, 0x41, 0xC0, 0] 0 True = None \<and> readName ([0xC0, 2, 1, 0x42, 0]) 0 True = Some (''b'', 2)
     \<and> (2 :: nat) \<le> 5 \<and> length ''b'' \<le> 254"
proof -
  have loop: "readName [1, 0x41, 0xC0, 0] 0 True = None" by code_simp
  have jump: "readName [0xC0, 2, 1, 0x42, 0] 0 True = Some (''b'', 2)" by code_simp
  from readName_within_packet [OF jump] loop jump show ?thesis by simp
qed

end
