(* ===== verification/Query_Log.thy ===== *)
theory Query_Log imports Bounded_History Dns_Message begin

text \<open>
  The recent queries of the DNS filter (\<open>src/dnsfilter/query-log.ts\<close>): an array used as a ring
  once it is full, and the counters.
\<close>

datatype query_action = QAllowed | QBlocked | QFailed | QRefused
datatype transport = Udp | Tcp

text \<open>The texts of \<open>detail\<close>, by the place that makes them.\<close>

datatype query_detail =
    OpcodeNotRelayed "16 word"
  | TooManyInFlight nat
  | BadUpstreamAnswer bad_reason
  | UpstreamFailed string

record query_record =
  qr_atMs :: ms
  qr_client :: string
  qr_transport :: transport
  qr_name :: string
  qr_type :: string
  qr_action :: query_action
  qr_rule :: "string option"
  qr_source :: "string option"
  qr_rcode :: "16 word option"
  qr_detail :: "query_detail option"
  qr_elapsedMs :: ms

record query_counters =
  qc_total :: nat
  qc_allowed :: nat
  qc_blocked :: nat
  qc_failed :: nat
  qc_refused :: nat
  qc_malformed :: nat

record query_log =
  ql_records :: "query_record list"
  ql_next :: nat
  ql_counters :: query_counters
  ql_capacity :: nat

definition new_query_log :: "nat \<Rightarrow> query_log" where
  "new_query_log cap = \<lparr>ql_records = [], ql_next = 0,
     ql_counters = \<lparr>qc_total = 0, qc_allowed = 0, qc_blocked = 0, qc_failed = 0, qc_refused = 0, qc_malformed = 0\<rparr>,
     ql_capacity = cap\<rparr>"

fun count_action :: "query_action \<Rightarrow> query_counters \<Rightarrow> query_counters" where
  "count_action QAllowed c = c\<lparr>qc_allowed := qc_allowed c + 1\<rparr>"
| "count_action QBlocked c = c\<lparr>qc_blocked := qc_blocked c + 1\<rparr>"
| "count_action QFailed c = c\<lparr>qc_failed := qc_failed c + 1\<rparr>"
| "count_action QRefused c = c\<lparr>qc_refused := qc_refused c + 1\<rparr>"

definition log_add :: "query_record \<Rightarrow> query_log \<Rightarrow> query_log" where
  "log_add r q =
     (let c = ql_counters q\<lparr>qc_total := qc_total (ql_counters q) + 1\<rparr>;
          q = q\<lparr>ql_counters := count_action (qr_action r) c\<rparr>;
          q = (if length (ql_records q) < ql_capacity q then q\<lparr>ql_records := ql_records q @ [r]\<rparr>
               else q\<lparr>ql_records := (ql_records q)[ql_next q := r]\<rparr>)
      in q\<lparr>ql_next := (ql_next q + 1) mod ql_capacity q\<rparr>)"

text \<open>\<open>count\<close>, for \<open>'refused'\<close> and \<open>'malformed'\<close>.\<close>

definition log_count_refused :: "query_log \<Rightarrow> query_log" where
  "log_count_refused q =
     (let c = ql_counters q in
      q\<lparr>ql_counters := c\<lparr>qc_total := qc_total c + 1, qc_refused := qc_refused c + 1\<rparr>\<rparr>)"

definition log_count_malformed :: "query_log \<Rightarrow> query_log" where
  "log_count_malformed q =
     (let c = ql_counters q in
      q\<lparr>ql_counters := c\<lparr>qc_total := qc_total c + 1, qc_malformed := qc_malformed c + 1\<rparr>\<rparr>)"

text \<open>The loop of \<open>recent\<close>: \<open>fuel\<close> counts the indices up to the number of records.\<close>

fun recent_loop :: "query_log \<Rightarrow> nat \<Rightarrow> (query_record \<Rightarrow> bool) \<Rightarrow> nat \<Rightarrow> nat \<Rightarrow> query_record list \<Rightarrow> query_record list" where
  "recent_loop q limit keep 0 index ordered = ordered"
| "recent_loop q limit keep (Suc fuel) index ordered =
     (if length ordered < limit then
        (let size = length (ql_records q); r = ql_records q ! ((ql_next q + size * 2 - index) mod size) in
         recent_loop q limit keep fuel (index + 1) (if keep r then ordered @ [r] else ordered))
      else ordered)"

definition log_recent :: "query_log \<Rightarrow> nat \<Rightarrow> (query_record \<Rightarrow> bool) \<Rightarrow> query_record list" where
  "log_recent q limit keep = recent_loop q limit keep (length (ql_records q)) 1 []"

definition log_resize :: "nat \<Rightarrow> query_log \<Rightarrow> query_log" where
  "log_resize cap q =
     (if cap = ql_capacity q then q
      else
        let kept = rev (log_recent q cap (\<lambda>_. True)) in
        q\<lparr>ql_records := kept, ql_next := length kept mod cap, ql_capacity := cap\<rparr>)"

section \<open>The ring as a history\<close>

definition log_history :: "query_log \<Rightarrow> query_record list" where
  "log_history q =
     (if length (ql_records q) < ql_capacity q then ql_records q
      else drop (ql_next q) (ql_records q) @ take (ql_next q) (ql_records q))"

definition log_inv :: "query_log \<Rightarrow> bool" where
  "log_inv q \<longleftrightarrow> 0 < ql_capacity q \<and> length (ql_records q) \<le> ql_capacity q \<and> ql_next q < ql_capacity q
     \<and> (length (ql_records q) < ql_capacity q \<longrightarrow> ql_next q = length (ql_records q))"

lemma log_history_length [simp]: "log_inv q \<Longrightarrow> length (log_history q) = length (ql_records q)"
  by (simp add: log_history_def log_inv_def)

lemma log_inv_new [simp]: "0 < cap \<Longrightarrow> log_inv (new_query_log cap)"
  by (simp add: log_inv_def new_query_log_def)

lemma log_add_fields [simp]:
  "ql_capacity (log_add r q) = ql_capacity q"
  "ql_next (log_add r q) = (ql_next q + 1) mod ql_capacity q"
  "ql_records (log_add r q) = (if length (ql_records q) < ql_capacity q then ql_records q @ [r]
     else (ql_records q)[ql_next q := r])"
  by (simp_all add: log_add_def Let_def)

lemma log_inv_add: "log_inv q \<Longrightarrow> log_inv (log_add r q)"
  by (auto simp: log_inv_def)

lemma log_history_add:
  assumes "log_inv q"
  shows "log_history (log_add r q) = slice_last (ql_capacity q) (log_history q @ [r])"
proof (cases "length (ql_records q) < ql_capacity q")
  case True
  with assms have "ql_next q = length (ql_records q)" by (simp add: log_inv_def)
  with True show ?thesis
    by (cases "Suc (length (ql_records q)) = ql_capacity q")
      (auto simp: log_history_def slice_last_def)
next
  case False
  with assms have full: "length (ql_records q) = ql_capacity q" "ql_next q < length (ql_records q)"
    by (auto simp: log_inv_def)
  let ?xs = "ql_records q" and ?n = "ql_next q"
  have last: "slice_last (ql_capacity q) (log_history q @ [r]) = drop (Suc ?n) ?xs @ take ?n ?xs @ [r]"
    using full by (simp add: slice_last_def log_history_def)
  show ?thesis
  proof (cases "Suc ?n < length ?xs")
    case True
    with full have "log_history (log_add r q) = drop (Suc ?n) (?xs[?n := r]) @ take (Suc ?n) (?xs[?n := r])"
      by (simp add: log_history_def)
    also have "\<dots> = drop (Suc ?n) ?xs @ take ?n ?xs @ [r]"
      using full by (simp add: take_Suc_conv_app_nth)
    finally show ?thesis using last by simp
  next
    case False
    with full have n: "Suc ?n = length ?xs" by simp
    with full have "log_history (log_add r q) = ?xs[?n := r]" by (simp add: log_history_def)
    also have "\<dots> = take ?n ?xs @ [r]"
      using n by (metis drop_eq_Nil lessI order_refl upd_conv_take_nth_drop)
    finally show ?thesis using last n by simp
  qed
qed

text \<open>Entry number \<open>index\<close> from the newest, as \<open>recent\<close> computes its place.\<close>

lemma log_history_nth:
  assumes "log_inv q" "1 \<le> index" "index \<le> length (ql_records q)"
  shows "ql_records q ! ((ql_next q + length (ql_records q) * 2 - index) mod length (ql_records q))
    = rev (log_history q) ! (index - 1)"
proof -
  let ?n = "length (ql_records q)"
  have rev: "rev (log_history q) ! (index - 1) = log_history q ! (?n - index)"
    using assms by (simp add: rev_nth)
  show ?thesis
  proof (cases "?n < ql_capacity q")
    case True
    with assms have "ql_next q = ?n" by (simp add: log_inv_def)
    moreover have "(?n + ?n * 2 - index) mod ?n = ?n - index"
    proof -
      have "?n + ?n * 2 - index = (?n - index) + ?n * 2" using assms by simp
      moreover have "?n - index < ?n" using assms by simp
      ultimately show ?thesis by (metis mod_less mod_mult_self2)
    qed
    ultimately show ?thesis using rev True by (simp add: log_history_def)
  next
    case False
    with assms have lt: "ql_next q < ?n" by (simp add: log_inv_def)
    have place: "(ql_next q + ?n * 2 - index) mod ?n
        = (if index \<le> ql_next q then ql_next q - index else ql_next q + ?n - index)"
    proof (cases "index \<le> ql_next q")
      case True
      then have "ql_next q + ?n * 2 - index = (ql_next q - index) + ?n * 2" by simp
      with True lt show ?thesis by (metis less_imp_diff_less mod_less mod_mult_self2)
    next
      case False
      then have "ql_next q + ?n * 2 - index = (ql_next q + ?n - index) + ?n" using assms by simp
      moreover have "ql_next q + ?n - index < ?n" using False lt assms(3) by arith
      ultimately show ?thesis using False by (metis mod_add_self2 mod_less)
    qed
    have "ql_records q ! ((ql_next q + ?n * 2 - index) mod ?n) = log_history q ! (?n - index)"
      using False lt assms(2,3) by (auto simp: place log_history_def nth_append not_less)
    with rev show ?thesis by simp
  qed
qed


lemma recent_loop_history:
  assumes "log_inv q" "fuel + index = length (ql_records q) + 1" "1 \<le> index" "length ordered \<le> limit"
  shows "recent_loop q limit keep fuel index ordered
    = take limit (ordered @ filter keep (drop (index - 1) (rev (log_history q))))"
  using assms
proof (induction q limit keep fuel index ordered rule: recent_loop.induct)
  case (1 q limit keep index ordered)
  then show ?case by simp
next
  case (2 q limit keep fuel index ordered)
  let ?xs = "rev (log_history q)"
  from 2 have inv: "log_inv q" and index: "1 \<le> index" "index \<le> length (ql_records q)" by auto
  have first: "drop (index - 1) ?xs = ?xs ! (index - 1) # drop index ?xs"
    using Cons_nth_drop_Suc [of "index - 1" ?xs] inv index by simp
  show ?case
  proof (cases "length ordered < limit")
    case True
    with 2 show ?thesis
      by (auto simp: Let_def log_history_nth [OF inv index] first [simplified] take_Cons')
  next
    case False
    with 2 show ?thesis by simp
  qed
qed


text \<open>\<open>recent\<close> filters the history from the newest on and keeps the first \<open>limit\<close> entries.\<close>

lemma log_recent_history: "log_inv q \<Longrightarrow> log_recent q limit keep = take limit (filter keep (rev (log_history q)))"
  by (simp add: log_recent_def recent_loop_history)

lemma log_resize_history:
  assumes "log_inv q" "0 < cap"
  shows "log_history (log_resize cap q) = slice_last cap (log_history q)" "log_inv (log_resize cap q)"
    "ql_capacity (log_resize cap q) = cap" "ql_counters (log_resize cap q) = ql_counters q"
proof -
  have kept: "rev (log_recent q cap (\<lambda>_. True)) = slice_last cap (log_history q)" if "cap \<noteq> ql_capacity q"
    using assms by (simp add: log_recent_history take_rev_slice_last)
  have same: "slice_last cap (log_history q) = log_history q" if "cap = ql_capacity q"
    using assms that by (simp add: log_inv_def)
  show "log_history (log_resize cap q) = slice_last cap (log_history q)"
    using kept same assms by (auto simp: log_resize_def Let_def log_history_def [of "q\<lparr>ql_records := _, ql_next := _, ql_capacity := _\<rparr>"])
  show "log_inv (log_resize cap q)"
    using kept assms by (auto simp: log_resize_def Let_def log_inv_def)
  show "ql_capacity (log_resize cap q) = cap" "ql_counters (log_resize cap q) = ql_counters q"
    by (simp_all add: log_resize_def Let_def)
qed

interpretation ring: bounded_history log_add log_history ql_capacity log_inv log_resize
  by unfold_locales
    (auto simp: log_history_add log_inv_add log_resize_history, simp_all add: log_inv_def)

section \<open>Counters\<close>

definition counters_add_up :: "query_counters \<Rightarrow> bool" where
  "counters_add_up c \<longleftrightarrow> qc_total c = qc_allowed c + qc_blocked c + qc_failed c + qc_refused c + qc_malformed c"

lemma counters_add_up_ops [simp]:
  "counters_add_up (ql_counters q) \<Longrightarrow> counters_add_up (ql_counters (log_add r q))"
  "counters_add_up (ql_counters q) \<Longrightarrow> counters_add_up (ql_counters (log_count_refused q))"
  "counters_add_up (ql_counters q) \<Longrightarrow> counters_add_up (ql_counters (log_count_malformed q))"
  by (cases "qr_action r"; auto simp: log_add_def log_count_refused_def log_count_malformed_def
      Let_def counters_add_up_def)+

text \<open>
  The query history is exactly the newest entries: after any number of queries recorded in a
  log of positive capacity, and a change of the capacity after that, \<open>recent\<close> returns, newest
  first, the queries that pass the filter among the last ones the capacities leave room for.
\<close>

theorem recent_is_newest_first:
  assumes "0 < cap" "0 < cap'"
  shows "log_recent (log_resize cap' (foldl (\<lambda>q r. log_add r q) (new_query_log cap) rs)) limit keep
    = take limit (filter keep (rev (slice_last (min cap' cap) rs)))"
proof -
  have new: "log_inv (new_query_log cap)" "ql_capacity (new_query_log cap) = cap"
      "log_history (new_query_log cap) = []"
    using assms(1) by (simp_all add: new_query_log_def log_inv_def log_history_def)
  show ?thesis
    using ring.hist_resize_pushes [OF new(1) assms(2), of rs] ring.inv_pushes [OF new(1), of rs] assms(2)
    by (simp add: log_recent_history log_resize_history new ring.pushes_def)
qed

definition example_record :: "ms \<Rightarrow> query_record" where
  "example_record t = \<lparr>qr_atMs = t, qr_client = [], qr_transport = Udp, qr_name = [], qr_type = [],
     qr_action = QAllowed, qr_rule = None, qr_source = None, qr_rcode = None, qr_detail = None, qr_elapsedMs = 0\<rparr>"

lemma recent_is_newest_first_witness:
  "map qr_atMs (log_recent (log_resize 2 (foldl (\<lambda>q r. log_add r q) (new_query_log 3) (map example_record [1, 2, 3, 4]))) 5 (\<lambda>_. True))
     = [4, 3]"
  using recent_is_newest_first [of 3 2 "map example_record [1, 2, 3, 4]" 5 "\<lambda>_. True"]
  by (simp add: slice_last_def example_record_def)

end
