(* ===== verification/Ip_Range.thy ===== *)
theory Ip_Range imports Text_Tools "HOL-Library.Word" begin

text \<open>
  Addresses and CIDR ranges as numbers (\<open>src/netwatch/cidr.ts\<close>), the endpoints of the DNS filter
  (\<open>src/dnsfilter/endpoint.ts\<close>), and the scope of an address (\<open>src/netwatch/address-scope.ts\<close>).
  \<open>is_ipv4\<close> and \<open>is_ipv6\<close> are Node's \<open>isIPv4\<close> and \<open>isIPv6\<close>. A bigint is a \<^typ>\<open>nat\<close>.
\<close>

unbundle bit_operations_syntax

section \<open>The two tests of \<open>node:net\<close>\<close>

definition octet_ok :: "string \<Rightarrow> bool" where
  "octet_ok p \<longleftrightarrow> p \<noteq> [] \<and> length p \<le> 3 \<and> list_all is_digit p \<and> digits_value p \<le> 255
     \<and> (length p = 1 \<or> hd p \<noteq> CHR ''0'')"

definition is_ipv4 :: "string \<Rightarrow> bool" where
  "is_ipv4 s = (let ps = split_on CHR ''.'' s in length ps = 4 \<and> list_all octet_ok ps)"

definition hextet_ok :: "string \<Rightarrow> bool" where
  "hextet_ok p \<longleftrightarrow> p \<noteq> [] \<and> length p \<le> 4 \<and> list_all (\<lambda>c. hex_value_of c \<noteq> None) p"

text \<open>\<open>text.split('::')\<close> at the first occurrence.\<close>

fun split_double :: "string \<Rightarrow> string \<times> string option" where
  "split_double (a # b # s) =
     (if a = CHR '':'' \<and> b = CHR '':'' then ([], Some s)
      else case split_double (b # s) of (h, t) \<Rightarrow> (a # h, t))"
| "split_double s = (s, None)"

definition groups_of :: "string \<Rightarrow> string list" where
  "groups_of s = (if s = [] then [] else split_on CHR '':'' s)"

text \<open>How many 16 bit groups the parts stand for; only the last may be an IPv4 address.\<close>

definition count_groups :: "bool \<Rightarrow> string list \<Rightarrow> nat option" where
  "count_groups v4last ps =
     (if ps = [] then Some 0
      else if list_all hextet_ok ps then Some (length ps)
      else if v4last \<and> list_all hextet_ok (butlast ps) \<and> is_ipv4 (last ps) then Some (length ps + 1)
      else None)"

definition is_ipv6_body :: "string \<Rightarrow> bool" where
  "is_ipv6_body s =
     (case split_double s of
        (h, None) \<Rightarrow> h \<noteq> [] \<and> count_groups True (groups_of h) = Some 8
      | (h, Some t) \<Rightarrow>
          (case count_groups False (groups_of h) of
             None \<Rightarrow> False
           | Some m \<Rightarrow> (case count_groups True (groups_of t) of None \<Rightarrow> False | Some n \<Rightarrow> m + n \<le> 7)))"

definition zone_char :: "char \<Rightarrow> bool" where
  "zone_char c = (let n = of_char c :: nat in
     (48 \<le> n \<and> n \<le> 57) \<or> (97 \<le> n \<and> n \<le> 122) \<or> (65 \<le> n \<and> n \<le> 90) \<or> n = 45 \<or> n = 46 \<or> n = 58)"

definition is_ipv6 :: "string \<Rightarrow> bool" where
  "is_ipv6 s =
     (let body = takeWhile (\<lambda>c. c \<noteq> CHR ''%'') s; zone = dropWhile (\<lambda>c. c \<noteq> CHR ''%'') s in
      is_ipv6_body body \<and> (zone = [] \<or> (tl zone \<noteq> [] \<and> list_all zone_char (tl zone))))"

section \<open>Addresses as numbers\<close>

definition ipv4_value :: "string \<Rightarrow> nat" where
  "ipv4_value s = foldl (\<lambda>v p. push_bit 8 v OR digits_value p) 0 (split_on CHR ''.'' s)"

definition ipv4_text :: "nat \<Rightarrow> string" where
  "ipv4_text v = join ''.'' (map (\<lambda>shift. dec_string (drop_bit shift v AND 255)) [24, 16, 8, 0])"

definition hex_value :: "string \<Rightarrow> nat" where
  "hex_value s = foldl (\<lambda>v c. v * 16 + (case hex_value_of c of None \<Rightarrow> 0 | Some d \<Rightarrow> d)) 0 s"

text \<open>The part after the last colon; on an IPv6 address it is the embedded IPv4 address if it has a dot.\<close>

definition last_part :: "string \<Rightarrow> string" where
  "last_part s = last (split_on CHR '':'' s)"

definition expand_embedded :: "string \<Rightarrow> string" where
  "expand_embedded s =
     (let p = last_part s in
      if CHR ''.'' \<in> set p then
        take (length s - length p) s @ hex_string (drop_bit 16 (ipv4_value p)) @ '':'' @ hex_string (ipv4_value p AND 0xFFFF)
      else s)"

definition ipv6_value :: "string \<Rightarrow> nat" where
  "ipv6_value s =
     (let s = expand_embedded (js_lower (takeWhile (\<lambda>c. c \<noteq> CHR ''%'') s));
          parts = (case split_double s of
                     (h, None) \<Rightarrow> groups_of h
                   | (h, Some t) \<Rightarrow>
                       groups_of h @ replicate (8 - length (groups_of h) - length (groups_of t)) ''0'' @ groups_of t)
      in foldl (\<lambda>v p. push_bit 16 v OR hex_value p) 0 parts)"

text \<open>The longest run of zero groups of length two or more; the first of equal ones.\<close>

function zero_run :: "nat list \<Rightarrow> nat \<Rightarrow> (nat \<times> nat) option \<Rightarrow> (nat \<times> nat) option" where
  "zero_run groups index best =
     (if index \<ge> length groups then best
      else if groups ! index \<noteq> 0 then zero_run groups (index + 1) best
      else
        let n = length (takeWhile (\<lambda>g. g = 0) (drop index groups)) in
        zero_run groups (index + max 1 n)
          (if n > (case best of None \<Rightarrow> 0 | Some (_, m) \<Rightarrow> m) \<and> n \<ge> 2 then Some (index, n) else best))"
  by pat_completeness auto
termination
  by (relation "measure (\<lambda>(groups, index, best). length groups - index)") auto

declare zero_run.simps [simp del]

definition ipv6_text :: "nat \<Rightarrow> string" where
  "ipv6_text v =
     (let groups = map (\<lambda>index. drop_bit ((7 - index) * 16) v AND 0xFFFF) [0..<8];
          hex = map hex_string groups
      in case zero_run groups 0 None of
           None \<Rightarrow> join '':'' hex
         | Some (start, len) \<Rightarrow> join '':'' (take start hex) @ ''::'' @ join '':'' (drop (start + len) hex))"

section \<open>Ranges\<close>

datatype ip_family = V4 | V6

record cidr =
  cr_family :: ip_family
  cr_first :: nat
  cr_last :: nat
  cr_prefix :: nat
  cr_text :: string

fun family_bits :: "ip_family \<Rightarrow> nat" where
  "family_bits V4 = 32"
| "family_bits V6 = 128"

definition cidr_family :: "string \<Rightarrow> ip_family option" where
  "cidr_family a = (if is_ipv4 a then Some V4 else if is_ipv6 a \<and> CHR ''%'' \<notin> set a then Some V6 else None)"

definition prefix_of :: "ip_family \<Rightarrow> string list \<Rightarrow> nat option" where
  "prefix_of fam rest =
     (case rest of
        [] \<Rightarrow> Some (family_bits fam)
      | p # _ \<Rightarrow> (if p \<noteq> [] \<and> length p \<le> 3 \<and> list_all is_digit p \<and> digits_value p \<le> family_bits fam
                   then Some (digits_value p) else None))"

definition make_cidr :: "ip_family \<Rightarrow> nat \<Rightarrow> nat \<Rightarrow> cidr" where
  "make_cidr fam value prefix =
     (let hostBits = family_bits fam - prefix;
          first = push_bit hostBits (drop_bit hostBits value);
          last = first OR (push_bit hostBits 1 - 1);
          base = (case fam of V4 \<Rightarrow> ipv4_text first | V6 \<Rightarrow> ipv6_text first)
      in \<lparr>cr_family = fam, cr_first = first, cr_last = last, cr_prefix = prefix,
          cr_text = base @ ''/'' @ dec_string prefix\<rparr>)"

definition address_value :: "ip_family \<Rightarrow> string \<Rightarrow> nat" where
  "address_value fam a = (case fam of V4 \<Rightarrow> ipv4_value a | V6 \<Rightarrow> ipv6_value a)"

definition parseCidr :: "string \<Rightarrow> cidr option" where
  "parseCidr input =
     (case split_on CHR ''/'' (js_trim input) of
        [] \<Rightarrow> None
      | address # rest \<Rightarrow>
          if length rest > 1 then None
          else case cidr_family address of
            None \<Rightarrow> None
          | Some fam \<Rightarrow>
              (case prefix_of fam rest of
                 None \<Rightarrow> None
               | Some prefix \<Rightarrow> Some (make_cidr fam (address_value fam address) prefix)))"

definition overlaps :: "cidr \<Rightarrow> cidr \<Rightarrow> bool" where
  "overlaps a b \<longleftrightarrow> cr_family a = cr_family b \<and> cr_first a \<le> cr_last b \<and> cr_first b \<le> cr_last a"

section \<open>Endpoints\<close>

record endpoint =
  ep_host :: string
  ep_port :: nat
  ep_family :: ip_family

datatype endpoint_error = NotAnAddress | ScopedAddress | BadPort | EmptyList | RepeatedEndpoint

definition DNS_PORT :: nat where "DNS_PORT = 53"

definition portOf :: "string \<Rightarrow> nat option" where
  "portOf s =
     (if s = [] \<or> length s > 5 \<or> \<not> list_all is_digit s then None
      else if 1 \<le> digits_value s \<and> digits_value s \<le> 65535 then Some (digits_value s) else None)"

text \<open>\<open>/^\\[([^\\]]+)\\](?::(\\d+))?$/\<close>: the host and the optional port of a bracketed address.\<close>

definition bracketed :: "string \<Rightarrow> (string \<times> string option) option" where
  "bracketed s =
     (case s of
        [] \<Rightarrow> None
      | c # rest \<Rightarrow>
          if c \<noteq> CHR ''['' then None
          else
            let host = takeWhile (\<lambda>c. c \<noteq> CHR '']'') rest; tail = dropWhile (\<lambda>c. c \<noteq> CHR '']'') rest in
            if host = [] \<or> tail = [] then None
            else (case tl tail of
                    [] \<Rightarrow> Some (host, None)
                  | d # port \<Rightarrow>
                      if d = CHR '':'' \<and> port \<noteq> [] \<and> list_all is_digit port then Some (host, Some port) else None))"

definition split_last_colon :: "string \<Rightarrow> (string \<times> string) option" where
  "split_last_colon s =
     (if CHR '':'' \<in> set s then
        let port = rev (takeWhile (\<lambda>c. c \<noteq> CHR '':'') (rev s)) in Some (take (length s - length port - 1) s, port)
      else None)"

definition endpoint_parts :: "string \<Rightarrow> string \<times> string option" where
  "endpoint_parts s =
     (case bracketed s of
        Some p \<Rightarrow> p
      | None \<Rightarrow>
          if is_ipv6 s then (s, None)
          else case split_last_colon s of None \<Rightarrow> (s, None) | Some (h, p) \<Rightarrow> (h, Some p))"

definition parseEndpoint :: "string \<Rightarrow> endpoint_error + endpoint" where
  "parseEndpoint input =
     (case endpoint_parts (js_trim input) of
        (host, portText) \<Rightarrow>
          (case (if is_ipv4 host then Some V4 else if is_ipv6 host then Some V6 else None) of
             None \<Rightarrow> Inl NotAnAddress
           | Some family \<Rightarrow>
               if family = V6 \<and> CHR ''%'' \<in> set host then Inl ScopedAddress
               else (case (case portText of None \<Rightarrow> Some DNS_PORT | Some p \<Rightarrow> portOf p) of
                       None \<Rightarrow> Inl BadPort
                     | Some port \<Rightarrow> Inr \<lparr>ep_host = js_lower host, ep_port = port, ep_family = family\<rparr>)))"

definition sameEndpoint :: "endpoint \<Rightarrow> endpoint \<Rightarrow> bool" where
  "sameEndpoint a b \<longleftrightarrow> ep_host a = ep_host b \<and> ep_port a = ep_port b"

fun parse_endpoints :: "string list \<Rightarrow> endpoint list \<Rightarrow> endpoint_error + endpoint list" where
  "parse_endpoints [] endpoints = Inr endpoints"
| "parse_endpoints (item # items) endpoints =
     (case parseEndpoint item of
        Inl e \<Rightarrow> Inl e
      | Inr ep \<Rightarrow>
          if list_ex (\<lambda>other. sameEndpoint other ep) endpoints then Inl RepeatedEndpoint
          else parse_endpoints items (endpoints @ [ep]))"

definition parseEndpointList :: "string \<Rightarrow> endpoint_error + endpoint list" where
  "parseEndpointList input =
     (let items = filter (\<lambda>i. i \<noteq> []) (map js_trim (split_on CHR '','' input)) in
      if items = [] then Inl EmptyList else parse_endpoints items [])"

definition formatEndpoint :: "endpoint \<Rightarrow> string" where
  "formatEndpoint e =
     (case ep_family e of
        V6 \<Rightarrow> ''['' @ ep_host e @ '']:'' @ dec_string (ep_port e)
      | V4 \<Rightarrow> ep_host e @ '':'' @ dec_string (ep_port e))"

definition isWildcard :: "endpoint \<Rightarrow> bool" where
  "isWildcard e \<longleftrightarrow> ep_host e = ''0.0.0.0'' \<or> ep_host e = ''::''"

section \<open>Scopes\<close>

datatype address_scope = ScUnspecified | ScLoopback | ScPrivate | ScLinkLocal | ScMulticast | ScPublic

definition ipv4_head :: "string \<Rightarrow> nat \<times> nat" where
  "ipv4_head a = (case split_on CHR ''.'' a of
      p # q # _ \<Rightarrow> (digits_value p, digits_value q) | p # _ \<Rightarrow> (digits_value p, 0) | [] \<Rightarrow> (0, 0))"

definition ipv4Scope :: "string \<Rightarrow> address_scope" where
  "ipv4Scope address =
     (case ipv4_head address of (a, b) \<Rightarrow>
        if a = 0 then ScUnspecified
        else if a = 127 then ScLoopback
        else if a = 10 then ScPrivate
        else if a = 172 \<and> b \<ge> 16 \<and> b \<le> 31 then ScPrivate
        else if a = 192 \<and> b = 168 then ScPrivate
        else if a = 100 \<and> b \<ge> 64 \<and> b \<le> 127 then ScPrivate
        else if a = 169 \<and> b = 254 then ScLinkLocal
        else if a \<ge> 224 \<and> a \<le> 239 then ScMulticast
        else if a = 255 then ScMulticast
        else ScPublic)"

text \<open>\<open>parseInt\<close> in base sixteen reads the longest prefix of digits.\<close>

definition parse_hex_prefix :: "string \<Rightarrow> nat" where
  "parse_hex_prefix s = hex_value (takeWhile (\<lambda>c. hex_value_of c \<noteq> None) s)"

definition mapped_ipv4 :: "string \<Rightarrow> string option" where
  "mapped_ipv4 lower =
     (if starts_with ''::ffff:'' lower then
        let rest = drop 7 lower; ps = split_on CHR ''.'' rest in
        if length ps = 4 \<and> list_all (\<lambda>p. p \<noteq> [] \<and> list_all is_digit p) ps then Some rest else None
      else None)"

definition ipv6Scope :: "string \<Rightarrow> address_scope" where
  "ipv6Scope address =
     (let lower = js_lower address in
      if lower = ''::'' then ScUnspecified
      else if lower = ''::1'' then ScLoopback
      else case mapped_ipv4 lower of
        Some v4 \<Rightarrow> ipv4Scope v4
      | None \<Rightarrow>
          let first = hd (split_on CHR '':'' lower);
              head = parse_hex_prefix (if first = [] then ''0'' else first) in
          if head AND 0xFFC0 = 0xFE80 then ScLinkLocal
          else if head AND 0xFE00 = 0xFC00 then ScPrivate
          else if head AND 0xFF00 = 0xFF00 then ScMulticast
          else ScPublic)"

definition addressScope :: "string \<Rightarrow> address_scope option" where
  "addressScope address =
     (if is_ipv4 address then Some (ipv4Scope address)
      else if is_ipv6 address then Some (ipv6Scope address)
      else None)"

end
