(* ===== verification/Dns_Resolver.thy ===== *)
theory Dns_Resolver imports Query_Log Domain_Rules Ip_Range begin

text \<open>
  The handling of one query by the DNS filter (\<open>src/dnsfilter/resolver.ts\<close>) with the range of
  clients it serves (\<open>src/dnsfilter/client-policy.ts\<close>). \<open>handle\<close> is cut at its one \<open>await\<close>: \<open>arrive\<close>
  runs up to the forwarding, \<open>settle\<close> from the upstream's answer on; between them other queries
  arrive and settle. \<open>onAnswer\<close> is a list of the calls made.
\<close>

section \<open>Clients\<close>

definition DEFAULT_ALLOWED_CLIENTS :: "string list" where
  "DEFAULT_ALLOWED_CLIENTS =
     [''127.0.0.0/8'', ''10.0.0.0/8'', ''172.16.0.0/12'', ''192.168.0.0/16'', ''100.64.0.0/10'', ''169.254.0.0/16'',
      ''::1/128'', ''fc00::/7'', ''fe80::/10'']"

text \<open>The text that cannot be read is the configuration error.\<close>

fun parse_ranges :: "string list \<Rightarrow> string + cidr list" where
  "parse_ranges [] = Inr []"
| "parse_ranges (t # ts) =
     (case parseCidr t of
        None \<Rightarrow> Inl t
      | Some r \<Rightarrow> (case parse_ranges ts of Inl e \<Rightarrow> Inl e | Inr rs \<Rightarrow> Inr (r # rs)))"

definition policy_build :: "string list \<Rightarrow> string + cidr list" where
  "policy_build extra = parse_ranges (DEFAULT_ALLOWED_CLIENTS @ extra)"

definition plain_address :: "string \<Rightarrow> string" where
  "plain_address a = (if starts_with ''::ffff:'' (js_lower a) \<and> CHR ''.'' \<in> set a then drop 7 a else a)"

definition policy_allows :: "cidr list \<Rightarrow> string \<Rightarrow> bool" where
  "policy_allows ranges address =
     (case parseCidr (plain_address address) of
        None \<Rightarrow> False
      | Some single \<Rightarrow> list_ex (\<lambda>range. overlaps single range) ranges)"

section \<open>The resolver\<close>

record client_info =
  ci_address :: string
  ci_transport :: transport

record pending =
  pd_packet :: buffer
  pd_query :: dns_query
  pd_decision :: decision
  pd_client :: client_info
  pd_started :: ms

record resolver =
  rv_inFlight :: nat
  rv_log :: query_log
  rv_answers :: "(string \<times> string list) list"
  rv_pending :: "pending list"

record resolver_deps =
  dp_clients :: "cidr list"
  dp_maxInFlight :: nat

datatype reply = NoReply | Reply buffer | Relayed

fun source_text :: "rule_source \<Rightarrow> string" where
  "source_text SourceApi = ''api''"
| "source_text SourceConfig = ''config''"
| "source_text SourceDoh = ''doh''"

fun decision_rule :: "decision \<Rightarrow> string option" where
  "decision_rule (AllowedBy r) = Some r"
| "decision_rule AllowedByDefault = None"
| "decision_rule (BlockedBy r s) = Some r"

fun decision_source :: "decision \<Rightarrow> string option" where
  "decision_source (AllowedBy r) = Some ''allowlist''"
| "decision_source AllowedByDefault = None"
| "decision_source (BlockedBy r s) = Some (source_text s)"

definition query_entry ::
  "client_info \<Rightarrow> dns_query \<Rightarrow> ms \<Rightarrow> ms \<Rightarrow> query_action \<Rightarrow> 16 word \<Rightarrow> string option \<Rightarrow> string option \<Rightarrow> query_detail option \<Rightarrow> query_record" where
  "query_entry client q started nowMs act rcode rule source detail =
     \<lparr>qr_atMs = started, qr_client = ci_address client, qr_transport = ci_transport client, qr_name = q_name q,
      qr_type = typeName (q_type q), qr_action = act, qr_rule = rule, qr_source = source, qr_rcode = Some rcode,
      qr_detail = detail, qr_elapsedMs = nowMs - started\<rparr>"

definition arrive ::
  "resolver_deps \<Rightarrow> rule_book \<Rightarrow> ms \<Rightarrow> ms \<Rightarrow> buffer \<Rightarrow> client_info \<Rightarrow> resolver \<Rightarrow> resolver \<times> reply" where
  "arrive deps book started nowMs packet client s =
     (if \<not> policy_allows (dp_clients deps) (ci_address client)
      then (s\<lparr>rv_log := log_count_refused (rv_log s)\<rparr>, NoReply)
      else case parseQuery packet of
        QueryBad ident reason \<Rightarrow>
          (s\<lparr>rv_log := log_count_malformed (rv_log s)\<rparr>,
           case ident of None \<Rightarrow> NoReply | Some i \<Rightarrow> Reply (buildHeaderOnlyResponse i FORMERR))
      | QueryOk q \<Rightarrow>
          if q_opcode q \<noteq> 0 then
            (s\<lparr>rv_log := log_add (query_entry client q started nowMs QFailed NOTIMP None None
                 (Some (OpcodeNotRelayed (q_opcode q)))) (rv_log s)\<rparr>,
             Reply (buildResponse packet q NOTIMP))
          else case decide (q_name q) book of
            BlockedBy rule source \<Rightarrow>
              (s\<lparr>rv_log := log_add (query_entry client q started nowMs QBlocked NXDOMAIN (Some rule)
                   (Some (source_text source)) None) (rv_log s)\<rparr>,
               Reply (buildResponse packet q NXDOMAIN))
          | decision \<Rightarrow>
              if rv_inFlight s \<ge> dp_maxInFlight deps then
                (s\<lparr>rv_log := log_add (query_entry client q started nowMs QFailed SERVFAIL None None
                     (Some (TooManyInFlight (dp_maxInFlight deps)))) (rv_log s)\<rparr>,
                 Reply (buildResponse packet q SERVFAIL))
              else
                (s\<lparr>rv_inFlight := rv_inFlight s + 1,
                   rv_pending := rv_pending s @ [\<lparr>pd_packet = packet, pd_query = q, pd_decision = decision,
                     pd_client = client, pd_started = started\<rparr>]\<rparr>, Relayed))"

text \<open>The upstream's answer, or the error of the forwarding; the \<open>finally\<close> gives the place back.\<close>

definition settle :: "ms \<Rightarrow> string + buffer \<Rightarrow> pending \<Rightarrow> resolver \<Rightarrow> resolver \<times> reply" where
  "settle nowMs outcome p s =
     (let s = s\<lparr>rv_inFlight := rv_inFlight s - 1\<rparr>;
          q = pd_query p;
          failed = (\<lambda>detail. (s\<lparr>rv_log := log_add (query_entry (pd_client p) q (pd_started p) nowMs QFailed SERVFAIL
                       None None (Some detail)) (rv_log s)\<rparr>, Reply (buildResponse (pd_packet p) q SERVFAIL)))
      in case outcome of
           Inl message \<Rightarrow> failed (UpstreamFailed message)
         | Inr response \<Rightarrow>
             (case parseUpstreamResponse response q of
                Inl reason \<Rightarrow> failed (BadUpstreamAnswer reason)
              | Inr answer \<Rightarrow>
                  (s\<lparr>rv_log := log_add (query_entry (pd_client p) q (pd_started p) nowMs QAllowed (ua_rcode answer)
                       (decision_rule (pd_decision p)) (decision_source (pd_decision p)) None) (rv_log s),
                     rv_answers := rv_answers s @
                       (if ua_rcode answer = NOERROR \<and> ua_addresses answer \<noteq> []
                        then [(q_name q, ua_addresses answer)] else [])\<rparr>,
                   Reply response)))"

datatype resolver_event =
    Arrive rule_book ms ms buffer client_info
  | Settle nat ms "string + buffer"

text \<open>\<open>Settle i\<close> settles the \<open>i\<close>-th query in flight; any order can happen.\<close>

fun resolver_step :: "resolver_deps \<Rightarrow> resolver_event \<Rightarrow> resolver \<Rightarrow> resolver \<times> reply" where
  "resolver_step deps (Arrive book started nowMs packet client) s = arrive deps book started nowMs packet client s"
| "resolver_step deps (Settle i nowMs outcome) s =
     (if i < length (rv_pending s) then
        settle nowMs outcome (rv_pending s ! i)
          (s\<lparr>rv_pending := take i (rv_pending s) @ drop (i + 1) (rv_pending s)\<rparr>)
      else (s, NoReply))"

definition resolver_run :: "resolver_deps \<Rightarrow> resolver_event list \<Rightarrow> resolver \<Rightarrow> resolver" where
  "resolver_run deps es s = foldl (\<lambda>s e. fst (resolver_step deps e s)) s es"

definition new_resolver :: "query_log \<Rightarrow> resolver" where
  "new_resolver q = \<lparr>rv_inFlight = 0, rv_log = q, rv_answers = [], rv_pending = []\<rparr>"


section \<open>The invariant of the resolver\<close>

definition pending_ok :: "pending \<Rightarrow> bool" where
  "pending_ok p \<longleftrightarrow> parseQuery (pd_packet p) = QueryOk (pd_query p) \<and> q_opcode (pd_query p) = 0
     \<and> (\<forall>r src. pd_decision p \<noteq> BlockedBy r src)"

definition resolver_inv :: "resolver_deps \<Rightarrow> resolver \<Rightarrow> bool" where
  "resolver_inv deps s \<longleftrightarrow> rv_inFlight s = length (rv_pending s) \<and> rv_inFlight s \<le> dp_maxInFlight deps
     \<and> counters_add_up (ql_counters (rv_log s)) \<and> log_inv (rv_log s) \<and> list_all pending_ok (rv_pending s)"

lemma log_inv_counts [simp]:
  "log_inv (log_count_refused q) \<longleftrightarrow> log_inv q" "log_inv (log_count_malformed q) \<longleftrightarrow> log_inv q"
  by (simp_all add: log_inv_def log_count_refused_def log_count_malformed_def Let_def)

lemma arrive_inv: "resolver_inv deps s \<Longrightarrow> resolver_inv deps (fst (arrive deps book t0 t1 packet client s))"
  by (auto simp: arrive_def resolver_inv_def pending_ok_def log_inv_add split: query_parse.splits decision.splits)

lemma resolver_settle_inv:
  "log_inv (rv_log s) \<Longrightarrow> counters_add_up (ql_counters (rv_log s)) \<Longrightarrow> rv_inFlight s = Suc (length (rv_pending s))
   \<Longrightarrow> rv_inFlight s \<le> dp_maxInFlight deps \<Longrightarrow> list_all pending_ok (rv_pending s)
   \<Longrightarrow> resolver_inv deps (fst (settle t outcome p s))"
  by (auto simp: settle_def resolver_inv_def Let_def log_inv_add split: sum.splits)

lemma resolver_step_inv: "resolver_inv deps s \<Longrightarrow> resolver_inv deps (fst (resolver_step deps e s))"
proof (cases e)
  case (Settle i t outcome)
  assume inv: "resolver_inv deps s"
  show ?thesis
  proof (cases "i < length (rv_pending s)")
    case True
    have "list_all pending_ok (take i (rv_pending s) @ drop (i + 1) (rv_pending s))"
      using inv by (auto simp: resolver_inv_def list_all_iff dest: in_set_takeD in_set_dropD)
    then have "resolver_inv deps (fst (settle t outcome (rv_pending s ! i)
        (s\<lparr>rv_pending := take i (rv_pending s) @ drop (i + 1) (rv_pending s)\<rparr>)))"
      by (intro resolver_settle_inv) (use inv True in \<open>simp_all add: resolver_inv_def\<close>)
    with True Settle show ?thesis by simp
  qed (use inv Settle in simp)
qed (simp add: arrive_inv)

lemma resolver_run_inv: "resolver_inv deps s \<Longrightarrow> resolver_inv deps (resolver_run deps es s)"
  unfolding resolver_run_def by (induction es arbitrary: s) (simp_all add: resolver_step_inv)

lemma resolver_inv_new: "0 < cap \<Longrightarrow> resolver_inv deps (new_resolver (new_query_log cap))"
  by (simp add: resolver_inv_def new_resolver_def) (simp add: new_query_log_def counters_add_up_def)

section \<open>Properties\<close>

text \<open>
  The number of queries being relayed is exact and bounded in every interleaving of arrivals
  and settlements: the counter equals the queries in flight and never passes \<open>maxInFlight\<close>, and the
  query counters add up to the total.
\<close>

theorem relays_bounded:
  assumes "0 < cap"
  shows "let s = resolver_run deps es (new_resolver (new_query_log cap)) in
     rv_inFlight s = length (rv_pending s) \<and> length (rv_pending s) \<le> dp_maxInFlight deps
     \<and> length (ql_records (rv_log s)) \<le> ql_capacity (rv_log s) \<and> counters_add_up (ql_counters (rv_log s))"
  using resolver_run_inv [OF resolver_inv_new [OF assms], of deps es]
  by (auto simp: Let_def resolver_inv_def log_inv_def)

text \<open>
  C39. A query is relayed exactly when its client is in the served range, it is a standard query with
  one readable question, no rule blocks its name (an allowed domain covers it or no blocked one
  does), and a place is free. So a blocked name never reaches the upstream server.
\<close>

theorem relayed_exactly_when_permitted:
  "snd (arrive deps book t0 t1 packet client s) = Relayed \<longleftrightarrow>
     policy_allows (dp_clients deps) (ci_address client)
     \<and> (\<exists>q. parseQuery packet = QueryOk q \<and> q_opcode q = 0
        \<and> \<not> ({a \<in> set (rb_allowed book). covers a (q_name q)} = {}
           \<and> {(src, ds) \<in> set (rb_blocked book). \<exists>d \<in> set ds. covers d (q_name q)} \<noteq> {}))
     \<and> rv_inFlight s < dp_maxInFlight deps"
proof (cases "parseQuery packet")
  case (QueryOk q)
  have "(\<exists>r src. decide (q_name q) book = BlockedBy r src) \<longleftrightarrow>
      {a \<in> set (rb_allowed book). covers a (q_name q)} = {}
         \<and> {(src, ds) \<in> set (rb_blocked book). \<exists>d \<in> set ds. covers d (q_name q)} \<noteq> {}"
    unfolding decide_blocked_iff by auto
  then show ?thesis
    using QueryOk by (cases "decide (q_name q) book") (auto simp: arrive_def)
qed (simp add: arrive_def split: option.split)

text \<open>
  The client of a relayed query gets either the upstream's bytes, and then they passed the check
  against the query (same id, same question, marked as a response), or an answer of the filter that
  passes the same check with the code for a server failure. A forged or mismatched answer is never
  passed on.
\<close>

theorem settled_reply_is_checked:
  assumes "parseQuery (pd_packet p) = QueryOk (pd_query p)"
  shows "\<exists>s' r a. settle t outcome p s = (s', Reply r) \<and> parseUpstreamResponse r (pd_query p) = Inr a
     \<and> (outcome = Inr r \<or> a = \<lparr>ua_rcode = SERVFAIL, ua_addresses = []\<rparr>)"
proof -
  have own: "parseUpstreamResponse (buildResponse (pd_packet p) (pd_query p) SERVFAIL) (pd_query p)
      = Inr \<lparr>ua_rcode = SERVFAIL, ua_addresses = []\<rparr>"
    by (simp add: buildResponse_accepted [OF assms] SERVFAIL_def)
  show ?thesis
  proof (cases outcome)
    case (Inl m)
    with own show ?thesis by (auto simp: settle_def Let_def)
  next
    case (Inr response)
    with own show ?thesis
      by (cases "parseUpstreamResponse response (pd_query p)") (auto simp: settle_def Let_def)
  qed
qed

definition example_pending :: pending where
  "example_pending = \<lparr>pd_packet = example_query,
     pd_query = \<lparr>q_id = 0x1234, q_opcode = 0, q_name = ''a.tv'', q_type = 1, q_class = 1, q_end = 22\<rparr>,
     pd_decision = AllowedByDefault, pd_client = \<lparr>ci_address = ''::1'', ci_transport = Udp\<rparr>, pd_started = 0\<rparr>"

lemma settled_reply_is_checked_witness:
  "\<exists>s' r. settle 1 (Inr [1, 2, 3]) example_pending (new_resolver (new_query_log 1)) = (s', Reply r)
     \<and> parseUpstreamResponse r (pd_query example_pending) = Inr \<lparr>ua_rcode = SERVFAIL, ua_addresses = []\<rparr>"
proof -
  have p: "parseQuery (pd_packet example_pending) = QueryOk (pd_query example_pending)"
    by (simp add: example_pending_def example_query_parsed)
  have short: "parseUpstreamResponse [1, 2, 3] (pd_query example_pending) = Inl ShorterThanHeader"
    by (simp add: parseUpstreamResponse_def HEADER_BYTES_def)
  from settled_reply_is_checked [OF p, of 1 "Inr [1, 2, 3]" "new_resolver (new_query_log 1)"] short show ?thesis by auto
qed

lemma relays_bounded_witness:
  "rv_inFlight (resolver_run \<lparr>dp_clients = [], dp_maxInFlight = 0\<rparr>
     [Arrive example_book 0 0 example_query \<lparr>ci_address = ''::1'', ci_transport = Udp\<rparr>] (new_resolver (new_query_log 1))) = 0"
  using relays_bounded [of 1 "\<lparr>dp_clients = [], dp_maxInFlight = 0\<rparr>"
      "[Arrive example_book 0 0 example_query \<lparr>ci_address = ''::1'', ci_transport = Udp\<rparr>]"]
  by (simp add: Let_def)

end
