(* ===== verification/Ip_Properties.thy ===== *)
theory Ip_Properties imports Dns_Resolver begin

text \<open>
  What a CIDR range stands for, when two ranges overlap, and how the default client range of the DNS
  filter agrees with the scopes of addresses.
\<close>

lemmas cidr_eval = parseCidr_def js_trim_def is_space_def cidr_family_def is_ipv4_def octet_ok_def is_digit_def
  digits_value_def prefix_of_def address_value_def ipv4_value_def is_ipv6_def is_ipv6_body_def groups_of_def
  count_groups_def hextet_ok_def hex_value_of_def

lemma digit_chars:
  "digit_char 0 = CHR ''0''" "digit_char 1 = CHR ''1''" "digit_char (Suc 0) = CHR ''1''" "digit_char 8 = CHR ''8''"
  by code_simp+

section \<open>A range is the set of addresses with its prefix\<close>

lemma push_drop_or_mask:
  fixes v :: nat
  shows "push_bit h (drop_bit h v) OR (push_bit h 1 - 1) = push_bit h (drop_bit h v) + (2 ^ h - 1)"
proof -
  have "push_bit h (1 :: nat) - 1 = mask h" by (simp add: push_bit_eq_mult mask_eq_exp_minus_1)
  moreover have "push_bit h (drop_bit h v) + mask h = push_bit h (drop_bit h v) OR mask h"
    by (rule disjunctive_add) (auto simp: bit_simps)
  ultimately show ?thesis by (simp add: mask_eq_exp_minus_1)
qed

lemma make_cidr_fields [simp]:
  "cr_family (make_cidr fam v p) = fam" "cr_prefix (make_cidr fam v p) = p"
  "cr_first (make_cidr fam v p) = v div 2 ^ (family_bits fam - p) * 2 ^ (family_bits fam - p)"
  "cr_last (make_cidr fam v p) = v div 2 ^ (family_bits fam - p) * 2 ^ (family_bits fam - p) + (2 ^ (family_bits fam - p) - 1)"
  unfolding make_cidr_def Let_def push_drop_or_mask
  by (simp_all add: push_bit_eq_mult drop_bit_eq_div)

lemma block_membership:
  fixes x v k :: nat
  assumes "0 < k"
  shows "v div k * k \<le> x \<and> x \<le> v div k * k + (k - 1) \<longleftrightarrow> x div k = v div k"
proof
  assume "v div k * k \<le> x \<and> x \<le> v div k * k + (k - 1)"
  with assms have "v div k * k \<le> x" "x < k + v div k * k" by auto
  then show "x div k = v div k" by (intro div_nat_eqI) (simp_all add: mult.commute)
next
  assume eq: "x div k = v div k"
  from assms have "x < k + x div k * k" by (rule dividend_less_div_times)
  with eq show "v div k * k \<le> x \<and> x \<le> v div k * k + (k - 1)"
    using div_times_less_eq_dividend [of x k] by simp
qed

lemma parseCidr_form:
  assumes "parseCidr s = Some r"
  shows "\<exists>fam v p. r = make_cidr fam v p \<and> p \<le> family_bits fam"
  using assms
  by (auto simp: parseCidr_def prefix_of_def split: list.splits if_splits option.splits)

lemma make_cidr_ordered: "cr_first (make_cidr fam v p) \<le> cr_last (make_cidr fam v p)"
  by (simp only: make_cidr_fields le_add1)

lemma overlaps_iff:
  "parseCidr s = Some a \<Longrightarrow> parseCidr t = Some b \<Longrightarrow>
     overlaps a b \<longleftrightarrow> cr_family a = cr_family b \<and> {cr_first a..cr_last a} \<inter> {cr_first b..cr_last b} \<noteq> {}"
proof -
  assume "parseCidr s = Some a" "parseCidr t = Some b"
  then have "cr_first a \<le> cr_last a" "cr_first b \<le> cr_last b"
    using parseCidr_form make_cidr_ordered by metis+
  then show ?thesis by (auto simp: overlaps_def)
qed


text \<open>
  A range is what its notation says: an address range that parses contains exactly the numbers
  that share its leading \<open>prefix\<close> bits with the address written, and two ranges overlap exactly when
  some number of the same family lies in both. Overlapping ranges are nested.
\<close>

theorem cidr_means_prefix:
  assumes "parseCidr s = Some a" "parseCidr t = Some b"
  shows "(\<exists>v. {cr_first a..cr_last a}
        = {x. x div 2 ^ (family_bits (cr_family a) - cr_prefix a) = v div 2 ^ (family_bits (cr_family a) - cr_prefix a)})
    \<and> (overlaps a b \<longleftrightarrow> cr_family a = cr_family b \<and> {cr_first a..cr_last a} \<inter> {cr_first b..cr_last b} \<noteq> {})
    \<and> (\<not> overlaps a b \<or> {cr_first a..cr_last a} \<subseteq> {cr_first b..cr_last b} \<or> {cr_first b..cr_last b} \<subseteq> {cr_first a..cr_last a})"
proof -
  obtain fam v p where a: "a = make_cidr fam v p" "p \<le> family_bits fam"
    using parseCidr_form [OF assms(1)] by blast
  obtain fam' v' p' where b: "b = make_cidr fam' v' p'" "p' \<le> family_bits fam'"
    using parseCidr_form [OF assms(2)] by blast
  have block: "{cr_first (make_cidr fam v p)..cr_last (make_cidr fam v p)}
      = {x. x div 2 ^ (family_bits fam - p) = v div 2 ^ (family_bits fam - p)}" for fam v p
    unfolding make_cidr_fields set_eq_iff atLeastAtMost_iff mem_Collect_eq
    using block_membership [of "2 ^ (family_bits fam - p)" v] zero_less_power [OF zero_less_numeral] by blast
  have coarser: "x div 2 ^ (m + n) = y div 2 ^ (m + n)" if "x div 2 ^ m = y div 2 ^ m" for x y m n :: nat
    by (simp only: power_add div_mult2_eq that)
  have nested: "{x. x div 2 ^ h = v div 2 ^ h} \<subseteq> {x. x div 2 ^ h' = v' div 2 ^ h'}
      \<or> {x. x div 2 ^ h' = v' div 2 ^ h'} \<subseteq> {x. x div 2 ^ h = v div 2 ^ h}"
    if z: "z div 2 ^ h = v div 2 ^ h" "z div 2 ^ h' = v' div 2 ^ h'" for z h h'
  proof (cases "h \<le> h'")
    case True
    then obtain n where n: "h' = h + n" by (metis le_Suc_ex)
    have "x div 2 ^ h' = v' div 2 ^ h'" if "x div 2 ^ h = v div 2 ^ h" for x
      using coarser [of x h z n] that z n by argo
    then show ?thesis by blast
  next
    case False
    then obtain n where n: "h = h' + n" by (metis le_Suc_ex nat_le_linear)
    have "x div 2 ^ h = v div 2 ^ h" if "x div 2 ^ h' = v' div 2 ^ h'" for x
      using coarser [of x h' z n] that z n by argo
    then show ?thesis by blast
  qed
  have "\<not> overlaps a b \<or> {cr_first a..cr_last a} \<subseteq> {cr_first b..cr_last b} \<or> {cr_first b..cr_last b} \<subseteq> {cr_first a..cr_last a}"
  proof (cases "overlaps a b")
    case True
    then obtain z where "z \<in> {cr_first a..cr_last a} \<inter> {cr_first b..cr_last b}"
      using overlaps_iff [OF assms] by blast
    then have "z div 2 ^ (family_bits fam - p) = v div 2 ^ (family_bits fam - p)"
        "z div 2 ^ (family_bits fam' - p') = v' div 2 ^ (family_bits fam' - p')"
      unfolding a b block by simp_all
    from nested [OF this] show ?thesis unfolding a b block by blast
  qed simp
  then show ?thesis
    using overlaps_iff [OF assms] block [of fam v p] a by (auto simp only: make_cidr_fields)
qed

lemma cidr_means_prefix_witness:
  "\<exists>a b. parseCidr ''10.1.2.3/8'' = Some a \<and> parseCidr ''10.9.0.0/16'' = Some b \<and> overlaps a b
     \<and> cr_text a = ''10.0.0.0/8'' \<and> {cr_first b..cr_last b} \<subseteq> {cr_first a..cr_last a}"
proof -
  let ?a = "make_cidr V4 167838211 8" and ?b = "make_cidr V4 168361984 16"
  have a: "parseCidr ''10.1.2.3/8'' = Some ?a" by (simp add: cidr_eval)
  have b: "parseCidr ''10.9.0.0/16'' = Some ?b" by (simp add: cidr_eval)
  have shown: "cr_text ?a = ''10.0.0.0/8''"
    by (simp add: make_cidr_def ipv4_text_def dec_string_def radix_string.simps digit_chars)
  have o: "overlaps ?a ?b" by (simp add: overlaps_def)
  from cidr_means_prefix [OF a b] o have "{cr_first ?b..cr_last ?b} \<subseteq> {cr_first ?a..cr_last ?a}" by auto
  with a b o shown show ?thesis by blast
qed


section \<open>IPv4 addresses as four octets\<close>

lemma push_or_add:
  fixes v n :: nat
  assumes "n < 2 ^ k"
  shows "push_bit k v OR n = v * 2 ^ k + n"
proof -
  have "\<not> bit n i" if "k \<le> i" for i
    using assms that by (simp add: bit_iff_odd) (metis div_less even_zero less_le_trans one_less_numeral_iff power_increasing_iff semiring_norm(76))
  then have "push_bit k v + n = push_bit k v OR n"
    by (intro disjunctive_add) (auto simp: bit_simps not_le)
  then show ?thesis by (simp add: push_bit_eq_mult)
qed

lemma is_ipv4_octets:
  assumes "is_ipv4 s"
  obtains a b c d where "a \<le> 255" "b \<le> 255" "c \<le> 255" "d \<le> 255" "ipv4_head s = (a, b)"
    "ipv4_value s = ((a * 256 + b) * 256 + c) * 256 + d"
proof -
  obtain p q r t where parts: "split_on CHR ''.'' s = [p, q, r, t]"
    using assms by (auto simp: is_ipv4_def Let_def length_Suc_conv numeral_eq_Suc)
  with assms have le: "digits_value p \<le> 255" "digits_value q \<le> 255" "digits_value r \<le> 255" "digits_value t \<le> 255"
    by (simp_all add: is_ipv4_def Let_def octet_ok_def)
  have "ipv4_value s = ((digits_value p * 256 + digits_value q) * 256 + digits_value r) * 256 + digits_value t"
    using le by (simp add: ipv4_value_def parts push_or_add)
  with le that [of "digits_value p" "digits_value q" "digits_value r" "digits_value t"] show thesis
    by (simp add: ipv4_head_def parts)
qed

lemma is_ipv4_chars:
  assumes "is_ipv4 s" "c \<in> set s"
  shows "is_digit c \<or> c = CHR ''.''"
proof (cases "c = CHR ''.''")
  case False
  with assms(2) set_split_on [of s "CHR ''.''"] obtain p where "p \<in> set (split_on CHR ''.'' s)" "c \<in> set p" by auto
  with assms(1) show ?thesis by (auto simp: is_ipv4_def Let_def list_all_iff octet_ok_def)
qed simp

lemma is_ipv4_nonempty: "is_ipv4 s \<Longrightarrow> s \<noteq> []"
  by (auto simp: is_ipv4_def)

lemma parseCidr_ipv4:
  assumes "is_ipv4 s"
  shows "parseCidr s = Some (make_cidr V4 (ipv4_value s) 32)" "plain_address s = s"
proof -
  have plain: "\<not> is_space c" "c \<noteq> CHR ''/''" "to_lower_char c \<noteq> CHR '':''" if "c \<in> set s" for c
    using is_ipv4_chars [OF assms that]
    by (auto simp: is_digit_def is_space_def to_lower_char_def Let_def)
  have "js_trim s = s" using plain by (simp add: js_trim_plain)
  moreover have "CHR ''/'' \<notin> set s" using plain(2) by blast
  ultimately show "parseCidr s = Some (make_cidr V4 (ipv4_value s) 32)"
    using assms by (simp add: parseCidr_def split_on_none cidr_family_def prefix_of_def address_value_def)
  have "hd s \<in> set s" using is_ipv4_nonempty [OF assms] by simp
  then have "\<not> starts_with ''::ffff:'' (js_lower s)"
    using plain(3) [of "hd s"] by (cases s) (auto simp: starts_with_def js_lower_def)
  then show "plain_address s = s" by (simp add: plain_address_def)
qed

section \<open>The default range of clients\<close>

lemma default_ranges:
  "policy_build [] = Inr
     [make_cidr V4 2130706432 8, make_cidr V4 167772160 8, make_cidr V4 2886729728 12, make_cidr V4 3232235520 16,
      make_cidr V4 1681915904 10, make_cidr V4 2851995648 16,
      make_cidr V6 (ipv6_value ''::1'') 128, make_cidr V6 (ipv6_value ''fc00::'') 7, make_cidr V6 (ipv6_value ''fe80::'') 10]"
  by (simp add: policy_build_def DEFAULT_ALLOWED_CLIENTS_def cidr_eval)

lemma octet_ranges:
  fixes a b c d x :: nat
  assumes "a \<le> 255" "b \<le> 255" "c \<le> 255" "d \<le> 255" "x = ((a * 256 + b) * 256 + c) * 256 + d"
  shows "2130706432 \<le> x \<and> x \<le> 2147483647 \<longleftrightarrow> a = 127"
    and "167772160 \<le> x \<and> x \<le> 184549375 \<longleftrightarrow> a = 10"
    and "2886729728 \<le> x \<and> x \<le> 2887778303 \<longleftrightarrow> a = 172 \<and> 16 \<le> b \<and> b \<le> 31"
    and "3232235520 \<le> x \<and> x \<le> 3232301055 \<longleftrightarrow> a = 192 \<and> b = 168"
    and "1681915904 \<le> x \<and> x \<le> 1686110207 \<longleftrightarrow> a = 100 \<and> 64 \<le> b \<and> b \<le> 127"
    and "2851995648 \<le> x \<and> x \<le> 2852061183 \<longleftrightarrow> a = 169 \<and> b = 254"
proof -
  show "2130706432 \<le> x \<and> x \<le> 2147483647 \<longleftrightarrow> a = 127"
    using assms by (auto; linarith)
  show "167772160 \<le> x \<and> x \<le> 184549375 \<longleftrightarrow> a = 10"
    using assms by (auto; linarith)
  show "2886729728 \<le> x \<and> x \<le> 2887778303 \<longleftrightarrow> a = 172 \<and> 16 \<le> b \<and> b \<le> 31"
    by (cases "a < 172"; cases "a > 172") (use assms in \<open>auto\<close>)
  show "3232235520 \<le> x \<and> x \<le> 3232301055 \<longleftrightarrow> a = 192 \<and> b = 168"
    by (cases "a < 192"; cases "a > 192") (use assms in \<open>auto\<close>)
  show "1681915904 \<le> x \<and> x \<le> 1686110207 \<longleftrightarrow> a = 100 \<and> 64 \<le> b \<and> b \<le> 127"
    by (cases "a < 100"; cases "a > 100") (use assms in \<open>auto\<close>)
  show "2851995648 \<le> x \<and> x \<le> 2852061183 \<longleftrightarrow> a = 169 \<and> b = 254"
    by (cases "a < 169"; cases "a > 169") (use assms in \<open>auto\<close>)
qed

text \<open>
  With the default configuration the DNS filter serves an IPv4 client exactly when its address
  is a loopback, private (the carrier-grade range included) or link-local one in the sense of the
  address scopes: no public, multicast or unspecified IPv4 address is ever answered.
\<close>

theorem default_clients_are_local:
  "is_ipv4 address \<and> (\<exists>ranges. policy_build [] = Inr ranges \<and> policy_allows ranges address)
    \<longleftrightarrow> is_ipv4 address \<and> ipv4Scope address \<in> {ScLoopback, ScPrivate, ScLinkLocal}"
proof (cases "is_ipv4 address")
  case True
  from is_ipv4_octets [OF True] obtain a b c d where o: "a \<le> 255" "b \<le> 255" "c \<le> 255" "d \<le> 255"
    and h: "ipv4_head address = (a, b)" and v: "ipv4_value address = ((a * 256 + b) * 256 + c) * 256 + d" .
  define x where "x = ipv4_value address"
  have allows: "policy_allows ranges address \<longleftrightarrow> list_ex (\<lambda>r. cr_family r = V4 \<and> cr_first r \<le> x \<and> x \<le> cr_last r) ranges" for ranges
    unfolding policy_allows_def parseCidr_ipv4 [OF True] option.case overlaps_def x_def
    by (rule arg_cong [of _ _ "\<lambda>f. list_ex f ranges"]) auto
  note bytes = octet_ranges [OF o v [folded x_def]]
  show ?thesis
    using True by (auto simp: default_ranges allows bytes ipv4Scope_def h)
qed simp

section \<open>The check for a listen address that stands for all addresses\<close>

text \<open>
  \<open>isWildcard\<close> compares the spelling: the unspecified address written out is an accepted endpoint
  with the value zero, and is not recognised.
\<close>

lemma wildcard_spelled_out:
  "\<exists>e. parseEndpoint ''[0:0:0:0:0:0:0:0]:53'' = Inr e \<and> \<not> isWildcard e \<and> ipv6_value (ep_host e) = 0"
  by (simp add: parseEndpoint_def endpoint_parts_def bracketed_def portOf_def isWildcard_def js_lower_def
      to_lower_char_def ipv6_value_def expand_embedded_def last_part_def hex_value_def cidr_eval)

end
