(* ===== verification/Process_Identity.thy ===== *)
theory Process_Identity imports Prelude begin

text \<open>
  The identity of a recorded process (\<open>src/process/identity.ts\<close>): a pid counts as ours only if its
  creation time is the one recorded, and a failed check says why. What the operating system answers
  (\<open>ps\<close>, the PowerShell query, signal zero) is input.
\<close>

definition START_TIME_TOLERANCE_MS :: ms where "START_TIME_TOLERANCE_MS = 5000"

datatype started_probe = ProbeStartedAt ms | ProbeExited | ProbeUnreadable

datatype identity_result =
    IdVerified ms
  | IdExited
  | IdUnreadable
  | IdRecycled

text \<open>Signal zero: \<open>None\<close> when the existence check itself throws.\<close>

definition probeLiveness :: "bool option \<Rightarrow> started_probe" where
  "probeLiveness alive = (case alive of Some False \<Rightarrow> ProbeExited | _ \<Rightarrow> ProbeUnreadable)"

text \<open>\<open>ps\<close>: \<open>None\<close> if it failed, else the time it printed, \<open>None\<close> if that is not a date.\<close>

definition probePosixStartedAt :: "ms option option \<Rightarrow> bool option \<Rightarrow> started_probe" where
  "probePosixStartedAt ps alive =
     (case ps of
        None \<Rightarrow> probeLiveness alive
      | Some None \<Rightarrow> ProbeUnreadable
      | Some (Some t) \<Rightarrow> ProbeStartedAt t)"

datatype windows_lookup = LookupStartedAt ms | LookupUnparsable | LookupMissing | LookupFailed

definition probeWindowsStartedAt :: "windows_lookup \<Rightarrow> bool option \<Rightarrow> started_probe" where
  "probeWindowsStartedAt lookup alive =
     (case lookup of
        LookupStartedAt t \<Rightarrow> ProbeStartedAt t
      | LookupUnparsable \<Rightarrow> ProbeUnreadable
      | LookupMissing \<Rightarrow> probeLiveness alive
      | LookupFailed \<Rightarrow> probeLiveness alive)"

text \<open>The check against the recorded time; a recorded time that is no date is \<open>None\<close>.\<close>

definition checkProcessIdentity :: "pid \<Rightarrow> ms option \<Rightarrow> ms \<Rightarrow> started_probe \<Rightarrow> identity_result" where
  "checkProcessIdentity p expected toleranceMs probe =
     (case expected of
        None \<Rightarrow> IdUnreadable
      | Some e \<Rightarrow>
          if p = 0 then IdUnreadable
          else (case probe of
                  ProbeExited \<Rightarrow> IdExited
                | ProbeUnreadable \<Rightarrow> IdUnreadable
                | ProbeStartedAt t \<Rightarrow> if \<bar>t - e\<bar> > toleranceMs then IdRecycled else IdVerified t))"

definition verifyProcessIdentity :: "pid \<Rightarrow> ms option \<Rightarrow> ms \<Rightarrow> started_probe \<Rightarrow> ms option" where
  "verifyProcessIdentity p expected toleranceMs probe =
     (case checkProcessIdentity p expected toleranceMs probe of IdVerified t \<Rightarrow> Some t | _ \<Rightarrow> None)"

definition readProcessIdentity :: "pid \<Rightarrow> started_probe \<Rightarrow> ms option" where
  "readProcessIdentity p probe = (if p = 0 then None else case probe of ProbeStartedAt t \<Rightarrow> Some t | _ \<Rightarrow> None)"

text \<open>
  The retry loop, over what each round observes: the probe and the clock after it. \<open>None\<close> while it
  still waits.
\<close>

fun wait_identity_rounds :: "ms \<Rightarrow> ms \<Rightarrow> ms \<Rightarrow> (started_probe \<times> ms) list \<Rightarrow> identity_result option" where
  "wait_identity_rounds expected toleranceMs deadline [] = None"
| "wait_identity_rounds expected toleranceMs deadline ((probe, nowMs) # rest) =
     (case probe of
        ProbeStartedAt t \<Rightarrow>
          if \<bar>t - expected\<bar> \<le> toleranceMs then Some (IdVerified t)
          else if deadline - nowMs \<le> 0 then Some IdUnreadable
          else wait_identity_rounds expected toleranceMs deadline rest
      | ProbeExited \<Rightarrow>
          if deadline - nowMs \<le> 0 then Some IdExited else wait_identity_rounds expected toleranceMs deadline rest
      | ProbeUnreadable \<Rightarrow>
          if deadline - nowMs \<le> 0 then Some IdUnreadable else wait_identity_rounds expected toleranceMs deadline rest)"

definition waitForProcessIdentityOutcome ::
  "pid \<Rightarrow> ms option \<Rightarrow> ms \<Rightarrow> ms \<Rightarrow> ms \<Rightarrow> (started_probe \<times> ms) list \<Rightarrow> identity_result option" where
  "waitForProcessIdentityOutcome p expected toleranceMs timeoutMs startMs rounds =
     (case expected of
        None \<Rightarrow> Some IdUnreadable
      | Some e \<Rightarrow> if p = 0 then Some IdUnreadable
                  else wait_identity_rounds e toleranceMs (startMs + max 0 timeoutMs) rounds)"

section \<open>What a check establishes\<close>

lemma checkProcessIdentity_verified:
  "checkProcessIdentity p e tol probe = IdVerified t \<Longrightarrow>
     0 < p \<and> probe = ProbeStartedAt t \<and> (\<exists>r. e = Some r \<and> \<bar>t - r\<bar> \<le> tol)"
  by (auto simp: checkProcessIdentity_def split: option.splits if_splits started_probe.splits)

lemma wait_identity_verified:
  "wait_identity_rounds e tol deadline obs = Some (IdVerified t) \<Longrightarrow>
     \<bar>t - e\<bar> \<le> tol \<and> (\<exists>nowMs. (ProbeStartedAt t, nowMs) \<in> set obs)"
  by (induction e tol deadline obs rule: wait_identity_rounds.induct) (auto split: if_splits started_probe.splits)

lemma wait_identity_exited:
  "wait_identity_rounds e tol deadline obs = Some IdExited \<Longrightarrow>
     \<exists>nowMs. (ProbeExited, nowMs) \<in> set obs \<and> deadline \<le> nowMs"
  by (induction e tol deadline obs rule: wait_identity_rounds.induct) (auto split: if_splits started_probe.splits)

lemma wait_identity_never_recycled: "wait_identity_rounds e tol deadline obs \<noteq> Some IdRecycled"
  by (induction e tol deadline obs rule: wait_identity_rounds.induct) (auto split: if_splits started_probe.splits)

text \<open>The loop ends with the first round at or past the deadline.\<close>

lemma wait_identity_ends:
  "\<exists>(probe, nowMs) \<in> set obs. deadline \<le> nowMs \<Longrightarrow> wait_identity_rounds e tol deadline obs \<noteq> None"
  by (induction e tol deadline obs rule: wait_identity_rounds.induct) (auto split: started_probe.splits)

text \<open>
  A check never takes a live process for a dead one and never verifies a foreign one: a pid is
  verified only if the operating system reports a creation time within the tolerance of the recorded
  one, \<open>exited\<close> is reported only if the process table answered that the pid does not exist, and the
  retry loop ends with the first round at or past its deadline.
\<close>

theorem identity_check_is_sound:
  assumes "0 < p"
  shows "(verifyProcessIdentity p (Some e) tol (probePosixStartedAt ps alive) = Some t
            \<longleftrightarrow> ps = Some (Some t) \<and> \<bar>t - e\<bar> \<le> tol)
    \<and> (checkProcessIdentity p (Some e) tol (probePosixStartedAt ps alive) = IdExited
            \<longleftrightarrow> ps = None \<and> alive = Some False)
    \<and> (checkProcessIdentity p (Some e) tol (probeWindowsStartedAt lookup alive) = IdExited
            \<longleftrightarrow> lookup \<in> {LookupMissing, LookupFailed} \<and> alive = Some False)
    \<and> ((\<exists>(probe, nowMs) \<in> set obs. startMs + max 0 timeoutMs \<le> nowMs)
            \<longrightarrow> waitForProcessIdentityOutcome p (Some e) tol timeoutMs startMs obs \<noteq> None)"
proof (intro conjI)
  show "verifyProcessIdentity p (Some e) tol (probePosixStartedAt ps alive) = Some t
      \<longleftrightarrow> ps = Some (Some t) \<and> \<bar>t - e\<bar> \<le> tol"
    using assms by (auto simp: verifyProcessIdentity_def checkProcessIdentity_def probePosixStartedAt_def
        probeLiveness_def split: option.splits bool.splits if_splits)
  show "checkProcessIdentity p (Some e) tol (probePosixStartedAt ps alive) = IdExited
      \<longleftrightarrow> ps = None \<and> alive = Some False"
    using assms by (auto simp: checkProcessIdentity_def probePosixStartedAt_def probeLiveness_def
        split: option.splits bool.splits)
  show "checkProcessIdentity p (Some e) tol (probeWindowsStartedAt lookup alive) = IdExited
      \<longleftrightarrow> lookup \<in> {LookupMissing, LookupFailed} \<and> alive = Some False"
    using assms by (cases lookup) (auto simp: checkProcessIdentity_def probeWindowsStartedAt_def probeLiveness_def
        split: option.splits bool.splits)
  show "(\<exists>(probe, nowMs) \<in> set obs. startMs + max 0 timeoutMs \<le> nowMs)
      \<longrightarrow> waitForProcessIdentityOutcome p (Some e) tol timeoutMs startMs obs \<noteq> None"
    using assms wait_identity_ends [of obs "startMs + max 0 timeoutMs" e tol]
    by (auto simp: waitForProcessIdentityOutcome_def)
qed

lemma identity_check_is_sound_witness:
  "verifyProcessIdentity 7 (Some 1000) 5000 (probePosixStartedAt (Some (Some 3000)) None) = Some 3000
     \<and> checkProcessIdentity 7 (Some 1000) 5000 (probePosixStartedAt (Some (Some 9000)) None) = IdRecycled
     \<and> waitForProcessIdentityOutcome 7 (Some 1000) 5000 100 0 [(ProbeUnreadable, 50), (ProbeUnreadable, 100)] \<noteq> None"
  using identity_check_is_sound [of 7 1000 5000 "Some (Some 3000)" None 3000 LookupMissing
      "[(ProbeUnreadable, 50), (ProbeUnreadable, 100)]" 0 100]
  by (simp add: checkProcessIdentity_def probePosixStartedAt_def)

end
