(* ===== verification/Process_Manager.thy ===== *)
theory Process_Manager imports Process_Identity Text_Tools Execution begin

text \<open>
  The state of the process manager (\<open>src/process/manager.ts\<close>) and its synchronous functions. The
  maps of the module are functions to options. A child process is a number into \<open>pm_children\<close>, which
  holds what its \<open>ManagedProcess\<close> object and its event handlers keep; a settlement object is named by
  the task that made it (a task makes at most one).
\<close>

section \<open>Services and options\<close>

datatype restart_policy = RestartNo | RestartOnFailure | RestartAlways

record service =
  sc_code :: code
  sc_runtime :: string
  sc_port :: "nat option"
  sc_start_script :: "string option"
  sc_exec :: "string option"
  sc_exec_args :: "string list option"
  sc_cwd :: "string option"
  sc_command :: "string option"
  sc_restart_policy :: restart_policy
  sc_max_restart :: nat

record spawn_options =
  po_restartPolicy :: "restart_policy option"
  po_maxRestart :: "nat option"
  po_initialRestartCount :: "nat option"
  po_expectedGeneration :: "nat option"

datatype proc_error =
    PeShutdown code
  | PeAlreadyManaged code
  | PeCanceled code
  | PeAlreadySpawned code
  | PeUnsupported string
  | PeNoExec code
  | PeNoCwd code
  | PeNoCommand code
  | PeEmptyCommand code
  | PePortHeld code nat "pid list"
  | PeNotTerminated pid
  | PeNotSignaled pid
  | PeTaskkill pid
  | PeNoPid code
  | PeStaleAdopted code pid
  | PeExitedAtOnce code pid
  | PeNotVerified code pid
  | PeBoth proc_error proc_error
  | PeExternal string

section \<open>State\<close>

datatype inst_state = IRunning | IStopped | ICrashed | IPending

record instance_row =
  ir_state :: inst_state
  ir_pid :: "pid option"
  ir_exit_code :: "int option"
  ir_started :: "ms option"

record proc_child =
  ch_code :: code
  ch_pid :: "pid option"
  ch_exited :: bool
  ch_exit_code :: "int option"
  ch_attached :: "(service \<times> spawn_options \<times> nat) option"
  ch_generation :: nat
  ch_started :: ms
  ch_intentional :: bool
  ch_terminated :: bool

record adopted_process =
  ad_pid :: pid
  ad_startedAt :: ms

record restart_timer =
  tm_service :: service
  tm_options :: spawn_options
  tm_prev :: nat
  tm_generation :: nat
  tm_delay :: ms

datatype wished_state = WantRunning | WantStopped

record pm =
  pm_win32 :: bool
  pm_processes :: "code \<Rightarrow> nat option"
  pm_reservations :: "code \<Rightarrow> nat option"
  pm_settlements :: "code \<Rightarrow> (nat \<times> nat) option"
  pm_settled :: "nat set"
  pm_failures :: "nat \<Rightarrow> proc_error option"
  pm_timers :: "code \<Rightarrow> restart_timer option"
  pm_desired :: "code \<Rightarrow> (wished_state \<times> nat) option"
  pm_enabled :: bool
  pm_adopted :: "code \<Rightarrow> adopted_process option"
  pm_children :: "proc_child list"
  pm_rows :: "code \<Rightarrow> instance_row option"
  pm_tasks_raised :: "(code \<times> proc_error option) list"
  pm_line_handlers :: "nat set"

definition new_pm :: "bool \<Rightarrow> pm" where
  "new_pm win32 = \<lparr>pm_win32 = win32, pm_processes = (\<lambda>_. None), pm_reservations = (\<lambda>_. None),
     pm_settlements = (\<lambda>_. None), pm_settled = {}, pm_failures = (\<lambda>_. None), pm_timers = (\<lambda>_. None),
     pm_desired = (\<lambda>_. None), pm_enabled = True, pm_adopted = (\<lambda>_. None), pm_children = [],
     pm_rows = (\<lambda>_. None), pm_tasks_raised = [], pm_line_handlers = {}\<rparr>"

section \<open>Desired states and restarts\<close>

definition updateDesiredState :: "code \<Rightarrow> wished_state \<Rightarrow> pm \<Rightarrow> pm \<times> nat" where
  "updateDesiredState code want s =
     (let generation = (case pm_desired s code of None \<Rightarrow> 0 | Some (_, g) \<Rightarrow> g) + 1
      in (s\<lparr>pm_timers := (pm_timers s)(code := None),
            pm_desired := (pm_desired s)(code := Some (want, generation))\<rparr>, generation))"

definition markServiceRunning :: "code \<Rightarrow> pm \<Rightarrow> pm \<times> nat" where
  "markServiceRunning code s = updateDesiredState code WantRunning s"

definition markServiceStopped :: "code \<Rightarrow> pm \<Rightarrow> pm \<times> bool" where
  "markServiceStopped code s =
     (let hadPendingWork = (pm_timers s code \<noteq> None \<or> pm_reservations s code \<noteq> None)
      in (fst (updateDesiredState code WantStopped s), hadPendingWork))"

definition cancelServiceRestart :: "code \<Rightarrow> pm \<Rightarrow> pm \<times> nat" where
  "cancelServiceRestart code s =
     updateDesiredState code (case pm_desired s code of None \<Rightarrow> WantRunning | Some (want, _) \<Rightarrow> want) s"

definition isServiceDesiredRunning :: "code \<Rightarrow> pm \<Rightarrow> bool" where
  "isServiceDesiredRunning code s = (case pm_desired s code of Some (WantRunning, _) \<Rightarrow> True | _ \<Rightarrow> False)"

definition suspendProcessRestarts :: "pm \<Rightarrow> pm" where
  "suspendProcessRestarts s =
     s\<lparr>pm_enabled := False, pm_timers := (\<lambda>_. None),
       pm_desired := (\<lambda>code. map_option (\<lambda>(want, g). (want, g + 1)) (pm_desired s code))\<rparr>"

definition resumeProcessRestarts :: "pm \<Rightarrow> pm" where
  "resumeProcessRestarts s = s\<lparr>pm_enabled := True\<rparr>"

definition isCurrentRunningGeneration :: "code \<Rightarrow> nat \<Rightarrow> pm \<Rightarrow> bool" where
  "isCurrentRunningGeneration code generation s \<longleftrightarrow>
     pm_enabled s \<and> pm_desired s code = Some (WantRunning, generation)"

definition adoptProcess :: "code \<Rightarrow> pid \<Rightarrow> ms \<Rightarrow> pm \<Rightarrow> pm" where
  "adoptProcess code p startedAt s =
     (if pm_processes s code \<noteq> None then s
      else fst (markServiceRunning code
        (s\<lparr>pm_adopted := (pm_adopted s)(code := Some \<lparr>ad_pid = p, ad_startedAt = startedAt\<rparr>)\<rparr>)))"

definition isManaged :: "code \<Rightarrow> pm \<Rightarrow> bool" where
  "isManaged code s \<longleftrightarrow> pm_processes s code \<noteq> None \<or> pm_adopted s code \<noteq> None"

definition getManagedPid :: "code \<Rightarrow> pm \<Rightarrow> pid option" where
  "getManagedPid code s =
     (case (case pm_processes s code of None \<Rightarrow> None | Some k \<Rightarrow> ch_pid (pm_children s ! k)) of
        Some p \<Rightarrow> Some p
      | None \<Rightarrow> map_option ad_pid (pm_adopted s code))"

text \<open>Line handlers are function values; a number names one.\<close>

definition registerLineHandler :: "nat \<Rightarrow> pm \<Rightarrow> pm" where
  "registerLineHandler h s = s\<lparr>pm_line_handlers := insert h (pm_line_handlers s)\<rparr>"

definition unregisterLineHandler :: "nat \<Rightarrow> pm \<Rightarrow> pm" where
  "unregisterLineHandler h s = s\<lparr>pm_line_handlers := pm_line_handlers s - {h}\<rparr>"

section \<open>Reservations\<close>

text \<open>\<open>reserveSpawn\<close> of task \<open>i\<close>; the state can have changed when it throws.\<close>

definition reserveSpawn :: "nat \<Rightarrow> code \<Rightarrow> nat option \<Rightarrow> pm \<Rightarrow> pm \<times> (proc_error + nat)" where
  "reserveSpawn i code expected s =
     (if \<not> pm_enabled s then (s, Inl (PeShutdown code))
      else if pm_processes s code \<noteq> None \<or> pm_adopted s code \<noteq> None \<or> pm_reservations s code \<noteq> None
      then (s, Inl (PeAlreadyManaged code))
      else
        let (s, generation) = (case expected of Some g \<Rightarrow> (s, g) | None \<Rightarrow> markServiceRunning code s) in
        if \<not> isCurrentRunningGeneration code generation s then (s, Inl (PeCanceled code))
        else (s\<lparr>pm_reservations := (pm_reservations s)(code := Some generation),
                pm_settlements := (pm_settlements s)(code := Some (generation, i))\<rparr>, Inr generation))"

text \<open>The \<open>finally\<close> of \<open>spawnService\<close>.\<close>

definition releaseSpawn :: "code \<Rightarrow> nat \<Rightarrow> pm \<Rightarrow> pm" where
  "releaseSpawn code generation s =
     (let s = (if pm_reservations s code = Some generation
               then s\<lparr>pm_reservations := (pm_reservations s)(code := None)\<rparr> else s)
      in case pm_settlements s code of
           Some (g, j) \<Rightarrow>
             if g = generation
             then s\<lparr>pm_settlements := (pm_settlements s)(code := None), pm_settled := insert j (pm_settled s)\<rparr>
             else s
         | None \<Rightarrow> s)"

definition retainRejectedSpawn :: "code \<Rightarrow> pid option \<Rightarrow> ms \<Rightarrow> proc_error \<Rightarrow> pm \<Rightarrow> pm" where
  "retainRejectedSpawn code p startedAt e s =
     (let s = (case pm_settlements s code of
                 Some (_, j) \<Rightarrow> s\<lparr>pm_failures := (pm_failures s)(j := Some e)\<rparr> | None \<Rightarrow> s)
      in case p of
           Some q \<Rightarrow> if q \<noteq> 0
             then s\<lparr>pm_adopted := (pm_adopted s)(code := Some \<lparr>ad_pid = q, ad_startedAt = startedAt\<rparr>)\<rparr> else s
         | None \<Rightarrow> s)"

section \<open>Signals\<close>

datatype sigcode = SigZero | SigTerm | SigKill

datatype kill_outcome = KillSent | KillNoProcess | KillDenied | KillError string

record proc_os =
  w_now :: ms
  w_db_insert :: "proc_error option"
  w_db_update :: "proc_error option"
  w_in_catalog :: "code \<Rightarrow> bool"
  w_open_log :: "proc_error option"
  w_resolve :: "proc_error option"
  w_spawn :: "proc_error + pid option"
  w_startup_env :: "proc_error option"
  w_kill :: "int \<Rightarrow> sigcode \<Rightarrow> kill_outcome"
  w_child_kill :: "nat \<Rightarrow> sigcode \<Rightarrow> bool"

definition isPidAlive :: "proc_os \<Rightarrow> pid \<Rightarrow> bool" where
  "isPidAlive w p = (case w_kill w (int p) SigZero of KillSent \<Rightarrow> True | KillDenied \<Rightarrow> True | _ \<Rightarrow> False)"

definition signalDetachedTree :: "proc_os \<Rightarrow> pid \<Rightarrow> sigcode \<Rightarrow> proc_error + bool" where
  "signalDetachedTree w p sig =
     (case w_kill w (- int p) sig of
        KillSent \<Rightarrow> Inr True
      | KillDenied \<Rightarrow> Inl (PeExternal ''EPERM'')
      | KillError m \<Rightarrow> Inl (PeExternal m)
      | KillNoProcess \<Rightarrow>
          (case w_kill w (int p) sig of
             KillSent \<Rightarrow> Inr True
           | KillDenied \<Rightarrow> Inl (PeExternal ''EPERM'')
           | KillError m \<Rightarrow> Inl (PeExternal m)
           | KillNoProcess \<Rightarrow> Inr False))"

definition isDetachedTreeAlive :: "bool \<Rightarrow> proc_os \<Rightarrow> pid \<Rightarrow> bool" where
  "isDetachedTreeAlive win32 w p =
     (if win32 then isPidAlive w p
      else case w_kill w (- int p) SigZero of
             KillSent \<Rightarrow> True | KillDenied \<Rightarrow> True | _ \<Rightarrow> isPidAlive w p)"

section \<open>Commands\<close>

text \<open>
  \<open>input.match(/(?:[^\\s"]+|"[^"]*")+/g)\<close>: runs of characters that are neither space nor quote and
  quoted pieces, glued together; a quote without a partner ends a token and is skipped.
\<close>

function command_tokens :: "string \<Rightarrow> string \<Rightarrow> string list" where
  "command_tokens cur [] = (if cur = [] then [] else [cur])"
| "command_tokens cur (c # s) =
     (if c = CHR 0x22 then
        (if CHR 0x22 \<in> set s then
           command_tokens (cur @ [c] @ takeWhile (\<lambda>x. x \<noteq> CHR 0x22) s @ [c]) (tl (dropWhile (\<lambda>x. x \<noteq> CHR 0x22) s))
         else (if cur = [] then [] else [cur]) @ command_tokens [] s)
      else if is_space c then (if cur = [] then [] else [cur]) @ command_tokens [] s
      else command_tokens (cur @ [c]) s)"
  by pat_completeness auto
termination
  by (relation "measure (\<lambda>(cur, s). length s)")
    (auto simp: less_Suc_eq_le intro: le_trans [OF diff_le_self] length_dropWhile_le)

definition strip_quotes :: "string \<Rightarrow> string" where
  "strip_quotes s =
     (let s = (case s of c # r \<Rightarrow> if c = CHR 0x22 then r else s | [] \<Rightarrow> [])
      in if s \<noteq> [] \<and> last s = CHR 0x22 then butlast s else s)"

definition splitCommand :: "string \<Rightarrow> string list" where
  "splitCommand input =
     (let tokens = command_tokens [] input in if tokens = [] then [input] else map strip_quotes tokens)"

definition truthy_text :: "string option \<Rightarrow> string option" where
  "truthy_text s = (case s of Some (c # r) \<Rightarrow> Some (c # r) | _ \<Rightarrow> None)"

definition command_parts :: "code \<Rightarrow> string \<Rightarrow> proc_error + string \<times> string list" where
  "command_parts code command =
     (case splitCommand command of
        (c # cs) # args \<Rightarrow> Inr (c # cs, args)
      | _ \<Rightarrow> Inl (PeEmptyCommand code))"

text \<open>The launch commands that need no I/O; \<open>None\<close> is the runtime \<open>dev-process-md\<close>.\<close>

datatype hot_reload_source = HotScript string | HotCommand string | HotDevProcess string

definition direct_command :: "service \<Rightarrow> (proc_error + string \<times> string list \<times> hot_reload_source) option" where
  "direct_command svc =
     (case (if sc_runtime svc \<noteq> ''app'' then truthy_text (sc_start_script svc) else None) of
        Some script \<Rightarrow> Some (Inr (script, [], HotScript script))
      | None \<Rightarrow>
          if sc_runtime svc = ''app'' then
            (case truthy_text (sc_exec svc) of
               None \<Rightarrow> Some (Inl (PeNoExec (sc_code svc)))
             | Some exe \<Rightarrow> (let args = (case sc_exec_args svc of None \<Rightarrow> [] | Some a \<Rightarrow> a)
                  in Some (Inr (exe, args, HotCommand (join '' '' (exe # args))))))
          else if isCommandRuntime (sc_runtime svc) then
            (case (truthy_text (sc_cwd svc), truthy_text (sc_command svc)) of
               (None, _) \<Rightarrow> Some (Inl (PeNoCwd (sc_code svc)))
             | (Some _, None) \<Rightarrow> Some (Inl (PeNoCommand (sc_code svc)))
             | (Some _, Some command) \<Rightarrow>
                 Some (case command_parts (sc_code svc) command of
                         Inl e \<Rightarrow> Inl e | Inr (cmd, args) \<Rightarrow> Inr (cmd, args, HotCommand command)))
          else None)"

text \<open>What a managed child inherits of the supervisor's environment.\<close>

definition inheritableSupervisorEnv :: "(string \<times> string option) list \<Rightarrow> (string \<times> string) list" where
  "inheritableSupervisorEnv env =
     map (\<lambda>(k, v). (k, the v))
       (filter (\<lambda>(k, v). v \<noteq> None \<and> k \<notin> {''INFISICAL_CLIENT_ID'', ''INFISICAL_CLIENT_SECRET''}) env)"

section \<open>The decision at an exit\<close>

definition restart_backoff :: "nat \<Rightarrow> ms" where
  "restart_backoff n = min 30000 (1000 * 2 ^ n)"

datatype exit_decision = NoRestart | RestartLimit | ScheduleRestart

definition exit_decision_of :: "service \<Rightarrow> spawn_options \<Rightarrow> int option \<Rightarrow> bool \<Rightarrow> nat \<Rightarrow> exit_decision" where
  "exit_decision_of svc opts exitCode signaled prevRestartCount =
     (let policy = (case po_restartPolicy opts of Some p \<Rightarrow> p | None \<Rightarrow> sc_restart_policy svc);
          limit = (case po_maxRestart opts of Some m \<Rightarrow> m | None \<Rightarrow> sc_max_restart svc);
          cleanExit = (exitCode = Some 0 \<and> \<not> signaled);
          shouldRestart = (policy = RestartAlways \<or> policy = RestartOnFailure \<and> \<not> cleanExit)
      in if \<not> shouldRestart then NoRestart
         else if prevRestartCount + 1 > limit then RestartLimit
         else ScheduleRestart)"

end
