(* ===== verification/Process_Programs.thy ===== *)
theory Process_Programs imports Process_Manager Async begin

text \<open>
  The asynchronous functions of the process manager (\<open>src/process/manager.ts\<close>) and the clearing of a
  declared port (\<open>src/process/port-guard.ts\<close>) as programs: what they await is a query, and between
  two awaits any other task, exit or timer may run. The first argument \<open>i\<close> of a spawning function is
  the task it runs in. Log files, the runtime version and the deployment notice leave no state here.
\<close>

datatype pquery =
    PqTurn
  | PqSleep
  | PqListeners
  | PqDevCommand string
  | PqHotReload hot_reload_source
  | PqSpawnEnv
  | PqVersion
  | PqSpawned nat
  | PqOutside
  | PqIdentity pid ms
  | PqIdentityWait pid ms
  | PqTaskkill pid
  | PqTreeExit pid
  | PqChildTreeExit nat pid
  | PqManagedExit nat pid
  | PqSettled nat
  | PqBuild
  | PqDispatch

datatype panswer =
    PaDone "proc_error option"
  | PaListeners "(nat \<times> pid list) list"
  | PaText "proc_error + string"
  | PaPid "proc_error + pid"
  | PaIdentity identity_result
  | PaBool bool

type_synonym 'r pact = "(pm, proc_os, pquery, panswer, proc_error, 'r) async"
type_synonym 'r prunning = "(pm, proc_os, pquery, panswer, proc_error, 'r) prog"

text \<open>An awaited function of another module that returns or throws.\<close>

definition external :: "pquery \<Rightarrow> unit pact" where
  "external q = bind (await q) (\<lambda>a. case a of PaDone (Some e) \<Rightarrow> throw e | _ \<Rightarrow> ret ())"

text \<open>
  The two statements of \<open>updateInstanceStatus\<close>: a first row for a service of the catalog table that has
  none, and the new state. \<open>pm_rows\<close> holds the row of a service.
\<close>

definition insert_row :: "code \<Rightarrow> pm \<Rightarrow> pm" where
  "insert_row code s =
     (case pm_rows s code of
        Some _ \<Rightarrow> s
      | None \<Rightarrow> s\<lparr>pm_rows := (pm_rows s)(code := Some \<lparr>ir_state = IPending, ir_pid = None, ir_exit_code = None, ir_started = None\<rparr>)\<rparr>)"

definition set_row :: "code \<Rightarrow> inst_state \<Rightarrow> pid option \<Rightarrow> int option \<Rightarrow> ms option \<Rightarrow> ms \<Rightarrow> pm \<Rightarrow> pm" where
  "set_row code st p exitCode startedAt nowMs s =
     (case pm_rows s code of
        None \<Rightarrow> s
      | Some r \<Rightarrow>
          (let started = (case startedAt of
                 Some t \<Rightarrow> Some t
               | None \<Rightarrow> if st = IRunning \<or> (st = IPending \<and> p \<noteq> None) then Some nowMs else ir_started r)
           in s\<lparr>pm_rows := (pm_rows s)(code := Some \<lparr>ir_state = st, ir_pid = p, ir_exit_code = exitCode, ir_started = started\<rparr>)\<rparr>))"

definition updateInstanceStatus :: "code \<Rightarrow> inst_state \<Rightarrow> pid option \<Rightarrow> int option \<Rightarrow> ms option \<Rightarrow> unit pact" where
  "updateInstanceStatus code st p exitCode startedAt =
     look (\<lambda>w _. case w_db_insert w of
        Some e \<Rightarrow> throw e
      | None \<Rightarrow>
          andThen (if w_in_catalog w code then modify (insert_row code) else ret ())
          (case w_db_update w of
             Some e \<Rightarrow> throw e
           | None \<Rightarrow> if w_in_catalog w code then modify (set_row code st p exitCode startedAt (w_now w)) else ret ()))"

definition update_status :: "code \<Rightarrow> inst_state \<Rightarrow> pid option \<Rightarrow> int option \<Rightarrow> ms option \<Rightarrow> unit pact" where
  "update_status code st p exitCode startedAt = call PqTurn (updateInstanceStatus code st p exitCode startedAt)"

text \<open>\<open>await update(...).catch(log)\<close>.\<close>

definition quietly :: "unit pact \<Rightarrow> unit pact" where
  "quietly m = attempt m (\<lambda>_. ret ())"

section \<open>Ending processes\<close>

definition signal_tree :: "pid \<Rightarrow> sigcode \<Rightarrow> bool pact" where
  "signal_tree p sig = look (\<lambda>w _. result (signalDetachedTree w p sig))"

definition await_bool :: "pquery \<Rightarrow> bool pact" where
  "await_bool q = bind (await q) (\<lambda>a. ret (a = PaBool True))"

definition treeKill :: "pid \<Rightarrow> unit pact" where
  "treeKill p = look (\<lambda>w s.
     if \<not> isDetachedTreeAlive (pm_win32 s) w p then ret ()
     else if pm_win32 s then
       bind (await_bool (PqTaskkill p)) (\<lambda>done.
         look (\<lambda>w2 _. if \<not> done \<and> isPidAlive w2 p then throw (PeTaskkill p) else ret ()))
     else
       andThen (signal_tree p SigTerm)
         (bind (await_bool (PqTreeExit p)) (\<lambda>gone.
            if gone then ret ()
            else andThen (signal_tree p SigKill)
              (bind (await_bool (PqTreeExit p)) (\<lambda>gone2.
                 if gone2 then ret () else throw (PeNotTerminated p))))))"

definition terminateUnregisteredChild :: "code \<Rightarrow> nat \<Rightarrow> unit pact" where
  "terminateUnregisteredChild code k = look (\<lambda>w s.
     case ch_pid (pm_children s ! k) of
       None \<Rightarrow> ret ()
     | Some p \<Rightarrow>
         if p = 0 \<or> ch_exited (pm_children s ! k) then ret ()
         else if pm_win32 s then call PqTurn (treeKill p)
         else bind (signal_tree p SigTerm) (\<lambda>groupSignaled. look (\<lambda>w1 _.
           let childSignaled = w_child_kill w1 k SigTerm in
           if \<not> groupSignaled \<and> \<not> childSignaled \<and> isDetachedTreeAlive False w1 p then throw (PeNotSignaled p)
           else bind (await_bool (PqChildTreeExit k p)) (\<lambda>gone.
             if gone then ret ()
             else bind (signal_tree p SigKill) (\<lambda>groupForced. look (\<lambda>w2 _.
               let childForced = w_child_kill w2 k SigKill in
               if \<not> groupForced \<and> \<not> childForced \<and> isDetachedTreeAlive False w2 p then throw (PeNotSignaled p)
               else bind (await_bool (PqChildTreeExit k p)) (\<lambda>gone2.
                 if gone2 then ret () else throw (PeNotTerminated p))))))))"

definition terminateManagedProcess :: "code \<Rightarrow> nat \<Rightarrow> sigcode \<Rightarrow> unit pact" where
  "terminateManagedProcess code k sig = look (\<lambda>w s.
     case ch_pid (pm_children s ! k) of
       None \<Rightarrow> throw (PeNoPid code)
     | Some p \<Rightarrow>
         if p = 0 then throw (PeNoPid code)
         else andThen
           (if pm_win32 s then call PqTurn (treeKill p)
            else bind (signal_tree p sig) (\<lambda>groupSent. look (\<lambda>w1 _.
              let childSent = w_child_kill w1 k sig in
              if \<not> groupSent \<and> \<not> childSent \<and> isDetachedTreeAlive False w1 p then throw (PeNotSignaled p) else ret ())))
           (bind (await_bool (PqManagedExit k p)) (\<lambda>gone.
              if gone then ret ()
              else bind (if pm_win32 s then ret False else signal_tree p SigKill) (\<lambda>groupForced. look (\<lambda>w2 _.
                let childForced = w_child_kill w2 k SigKill in
                if \<not> groupForced \<and> \<not> childForced \<and> isDetachedTreeAlive (pm_win32 s) w2 p then throw (PeNotSignaled p)
                else bind (await_bool (PqManagedExit k p)) (\<lambda>gone2.
                  if gone2 then ret () else throw (PeNotTerminated p)))))))"

section \<open>The declared port\<close>

definition listeners :: "(nat \<times> pid list) list pact" where
  "listeners = bind (await PqListeners) (\<lambda>a. case a of
     PaListeners ls \<Rightarrow> ret ls | PaDone (Some e) \<Rightarrow> throw e | _ \<Rightarrow> ret [])"

definition port_pids :: "nat \<Rightarrow> (nat \<times> pid list) list \<Rightarrow> pid list" where
  "port_pids port ls = (case map_of ls port of None \<Rightarrow> [] | Some pids \<Rightarrow> pids)"

text \<open>A failed kill is logged; the wait for the release finds it.\<close>

fun kill_holders :: "pid list \<Rightarrow> unit pact" where
  "kill_holders [] = ret ()"
| "kill_holders (p # ps) = andThen (quietly (call PqTurn (treeKill p))) (kill_holders ps)"

text \<open>The wait for the release: one round for each element of the fuel; the deadline bounds them.\<close>

fun wait_released :: "nat \<Rightarrow> code \<Rightarrow> nat \<Rightarrow> ms \<Rightarrow> unit pact" where
  "wait_released 0 code port deadline = bind listeners (\<lambda>ls.
     if port_pids port ls = [] then ret () else throw (PePortHeld code port (port_pids port ls)))"
| "wait_released (Suc n) code port deadline = bind listeners (\<lambda>ls.
     if port_pids port ls = [] then ret ()
     else look (\<lambda>w _. if w_now w \<ge> deadline then throw (PePortHeld code port (port_pids port ls))
       else andThen (external PqSleep) (wait_released n code port deadline)))"

text \<open>With a sleep of at least 250 ms a round, the deadline of 10 s is reached within 41 rounds.\<close>

definition clearDeclaredPort :: "code \<Rightarrow> nat option \<Rightarrow> pid option \<Rightarrow> unit pact" where
  "clearDeclaredPort code port managedPid =
     (case port of
        None \<Rightarrow> ret ()
      | Some n \<Rightarrow> bind listeners (\<lambda>ls.
          if port_pids n ls = [] then ret ()
          else if (case managedPid of None \<Rightarrow> False | Some p \<Rightarrow> p \<in> set (port_pids n ls)) then ret ()
          else andThen (kill_holders (port_pids n ls))
            (look (\<lambda>w _. wait_released 41 code n (w_now w + 10000)))))"

section \<open>Spawning\<close>

definition recordSpawnFailure :: "code \<Rightarrow> pid option \<Rightarrow> unit pact" where
  "recordSpawnFailure code survivingPid =
     andThen (modify (\<lambda>s. s\<lparr>pm_processes := (pm_processes s)(code := None)\<rparr>))
     (look (\<lambda>w _.
        let retained = (case survivingPid of Some p \<Rightarrow> if isPidAlive w p then Some p else None | None \<Rightarrow> None)
        in quietly (update_status code ICrashed retained None None)))"

definition failed_spawn :: "code \<Rightarrow> proc_error \<Rightarrow> 'r pact" where
  "failed_spawn code e = andThen (call PqTurn (recordSpawnFailure code None)) (throw e)"

definition start_command :: "service \<Rightarrow> (string \<times> string list \<times> hot_reload_source) pact" where
  "start_command svc =
     (case direct_command svc of
        Some r \<Rightarrow> result r
      | None \<Rightarrow>
          (case truthy_text (sc_cwd svc) of
             None \<Rightarrow> throw (PeNoCwd (sc_code svc))
           | Some cwd \<Rightarrow> bind (await (PqDevCommand cwd)) (\<lambda>a. case a of
                 PaText (Inr parsed) \<Rightarrow> result (case command_parts (sc_code svc) parsed of
                   Inl e \<Rightarrow> Inl e | Inr (cmd, args) \<Rightarrow> Inr (cmd, args, HotDevProcess parsed))
               | PaText (Inl e) \<Rightarrow> throw e
               | _ \<Rightarrow> throw (PeEmptyCommand (sc_code svc)))))"

definition initial_count :: "spawn_options \<Rightarrow> nat" where
  "initial_count opts = (case po_initialRestartCount opts of Some n \<Rightarrow> n | None \<Rightarrow> 0)"

text \<open>Registering the child: the map entry and the exit handler.\<close>

definition register_child :: "service \<Rightarrow> spawn_options \<Rightarrow> nat \<Rightarrow> nat \<Rightarrow> pm \<Rightarrow> pm" where
  "register_child svc opts generation k s =
     s\<lparr>pm_adopted := (pm_adopted s)(sc_code svc := None),
       pm_processes := (pm_processes s)(sc_code svc := Some k),
       pm_children := (pm_children s)[k := (pm_children s ! k)\<lparr>ch_attached := Some (svc, opts, initial_count opts),
         ch_generation := generation\<rparr>]\<rparr>"

text \<open>The spawn of a child failed after the process existed.\<close>

definition rejected_spawn :: "code \<Rightarrow> nat \<Rightarrow> ms \<Rightarrow> proc_error \<Rightarrow> 'r pact" where
  "rejected_spawn code k spawnedAt e =
     attempt (call PqTurn (terminateUnregisteredChild code k)) (\<lambda>r. case r of
       Inr _ \<Rightarrow> failed_spawn code e
     | Inl cleanup \<Rightarrow> look (\<lambda>_ s.
         let p = ch_pid (pm_children s ! k) in
         andThen (modify (retainRejectedSpawn code p spawnedAt cleanup))
           (if p \<noteq> None \<and> p \<noteq> Some 0 then
              andThen (quietly (update_status code IPending p None (Some spawnedAt))) (throw (PeBoth e cleanup))
            else failed_spawn code e)))"

definition canceled_spawn :: "code \<Rightarrow> nat \<Rightarrow> ms \<Rightarrow> 'r pact" where
  "canceled_spawn code k spawnedAt =
     attempt (call PqTurn (terminateUnregisteredChild code k)) (\<lambda>r. case r of
       Inr _ \<Rightarrow> throw (PeCanceled code)
     | Inl cleanup \<Rightarrow> look (\<lambda>_ s.
         andThen (modify (retainRejectedSpawn code (ch_pid (pm_children s ! k)) spawnedAt cleanup)) (throw cleanup)))"

text \<open>\<open>Promise.all\<close> of the spawn event and the first write: the write runs now, a failure wins.\<close>

definition await_spawned :: "code \<Rightarrow> nat \<Rightarrow> pid option \<Rightarrow> ms \<Rightarrow> unit pact" where
  "await_spawned code k p spawnedAt =
     attempt (updateInstanceStatus code IPending p None (Some spawnedAt)) (\<lambda>r. case r of
       Inl e \<Rightarrow> andThen (await PqTurn) (throw e)
     | Inr _ \<Rightarrow> external (PqSpawned k))"

text \<open>After the spawn event: the child is registered, or ended when a newer request won the race.\<close>

definition register_or_cancel :: "service \<Rightarrow> spawn_options \<Rightarrow> nat \<Rightarrow> nat \<Rightarrow> pid option \<Rightarrow> ms \<Rightarrow> pid option pact" where
  "register_or_cancel svc opts generation k p spawnedAt = look (\<lambda>_ s.
     if \<not> isCurrentRunningGeneration (sc_code svc) generation s then canceled_spawn (sc_code svc) k spawnedAt
     else andThen (modify (register_child svc opts generation k))
       (andThen (quietly (update_status (sc_code svc) IRunning p None (Some spawnedAt))) (ret p)))"

definition spawned_child :: "service \<Rightarrow> spawn_options \<Rightarrow> nat \<Rightarrow> nat \<Rightarrow> pid option \<Rightarrow> ms \<Rightarrow> pid option pact" where
  "spawned_child svc opts generation k p spawnedAt =
     attempt (await_spawned (sc_code svc) k p spawnedAt) (\<lambda>r. case r of
       Inl e \<Rightarrow> rejected_spawn (sc_code svc) k spawnedAt e
     | Inr _ \<Rightarrow> register_or_cancel svc opts generation k p spawnedAt)"

definition new_child :: "code \<Rightarrow> pid option \<Rightarrow> ms \<Rightarrow> proc_child" where
  "new_child code p spawnedAt = \<lparr>ch_code = code, ch_pid = p, ch_exited = False, ch_exit_code = None,
     ch_attached = None, ch_generation = 0, ch_started = spawnedAt, ch_intentional = False, ch_terminated = False\<rparr>"

definition spawn_child_service :: "service \<Rightarrow> spawn_options \<Rightarrow> nat \<Rightarrow> pid option pact" where
  "spawn_child_service svc opts generation = look (\<lambda>w s.
     case w_open_log w of
       Some e \<Rightarrow> throw e
     | None \<Rightarrow>
         (case w_spawn w of
            Inl e \<Rightarrow> failed_spawn (sc_code svc) e
          | Inr p \<Rightarrow>
              andThen (modify (\<lambda>s. s\<lparr>pm_children := pm_children s @ [new_child (sc_code svc) p (w_now w)]\<rparr>))
                (spawned_child svc opts generation (length (pm_children s)) p (w_now w))))"

text \<open>A process outside the job object: verified it is adopted, or ended when a newer request won.\<close>

definition adopt_or_cancel :: "code \<Rightarrow> nat \<Rightarrow> pid \<Rightarrow> ms \<Rightarrow> pid option pact" where
  "adopt_or_cancel code generation p startedAt = look (\<lambda>_ s.
     if \<not> isCurrentRunningGeneration code generation s then
       attempt (call PqTurn (treeKill p)) (\<lambda>r. case r of
         Inl e \<Rightarrow> andThen (modify (retainRejectedSpawn code (Some p) startedAt e)) (throw e)
       | Inr _ \<Rightarrow> andThen (quietly (update_status code IStopped None None None)) (throw (PeCanceled code)))
     else
       andThen (modify (\<lambda>s. s\<lparr>pm_adopted := (pm_adopted s)(code := Some \<lparr>ad_pid = p, ad_startedAt = startedAt\<rparr>)\<rparr>))
       (andThen (update_status code IRunning (Some p) None (Some startedAt)) (ret (Some p))))"

definition unverified_spawn :: "code \<Rightarrow> pid \<Rightarrow> proc_error \<Rightarrow> pid option pact" where
  "unverified_spawn code p failure = andThen (call PqTurn (recordSpawnFailure code (Some p))) (throw failure)"

definition launched_outside :: "code \<Rightarrow> nat \<Rightarrow> pid \<Rightarrow> ms \<Rightarrow> pid option pact" where
  "launched_outside code generation p spawnedAt =
     andThen (update_status code IPending (Some p) None (Some spawnedAt))
     (bind (await (PqIdentityWait p spawnedAt)) (\<lambda>b. case b of
        PaIdentity (IdVerified startedAt) \<Rightarrow> adopt_or_cancel code generation p startedAt
      | PaIdentity IdExited \<Rightarrow> unverified_spawn code p (PeExitedAtOnce code p)
      | _ \<Rightarrow> unverified_spawn code p (PeNotVerified code p)))"

definition spawn_breakaway_service :: "service \<Rightarrow> nat \<Rightarrow> pid option pact" where
  "spawn_breakaway_service svc generation = look (\<lambda>w _.
     case w_open_log w of
       Some e \<Rightarrow> throw e
     | None \<Rightarrow> bind (await PqOutside) (\<lambda>a. case a of
         PaPid (Inr p) \<Rightarrow> launched_outside (sc_code svc) generation p (w_now w)
       | PaPid (Inl e) \<Rightarrow> failed_spawn (sc_code svc) e
       | _ \<Rightarrow> failed_spawn (sc_code svc) (PeExternal ''launcher'')))"

definition spawnReservedService :: "service \<Rightarrow> spawn_options \<Rightarrow> nat \<Rightarrow> pid option pact" where
  "spawnReservedService svc opts generation = look (\<lambda>_ s0.
     let code = sc_code svc in
     if pm_processes s0 code \<noteq> None then throw (PeAlreadySpawned code)
     else if \<not> isLocalProcessRuntime (sc_runtime svc) then throw (PeUnsupported (sc_runtime svc))
     else
       andThen (call PqTurn (clearDeclaredPort code (sc_port svc) (getManagedPid code s0)))
       (bind (start_command svc) (\<lambda>(cmd, args, source).
       andThen (external (PqHotReload source))
       (andThen (external PqSpawnEnv)
       (andThen (external PqVersion)
       (look (\<lambda>_ s1.
          if \<not> isCurrentRunningGeneration code generation s1 then throw (PeCanceled code)
          else andThen (update_status code IPending None None None)
            (look (\<lambda>w s2.
               if \<not> isCurrentRunningGeneration code generation s2 then throw (PeCanceled code)
               else if pm_win32 s2 then
                 (case w_resolve w of Some e \<Rightarrow> throw e | None \<Rightarrow> call PqTurn (spawn_breakaway_service svc generation))
               else spawn_child_service svc opts generation)))))))))"

definition spawnService :: "nat \<Rightarrow> service \<Rightarrow> spawn_options \<Rightarrow> pid option pact" where
  "spawnService i svc opts = look (\<lambda>_ s.
     andThen (modify (\<lambda>s. fst (reserveSpawn i (sc_code svc) (po_expectedGeneration opts) s)))
     (case snd (reserveSpawn i (sc_code svc) (po_expectedGeneration opts) s) of
        Inl e \<Rightarrow> throw e
      | Inr generation \<Rightarrow>
          attempt (call PqTurn (spawnReservedService svc (opts\<lparr>po_expectedGeneration := Some generation\<rparr>) generation))
            (\<lambda>r. andThen (modify (releaseSpawn (sc_code svc) generation)) (result r))))"

section \<open>Stopping and checking\<close>

definition set_intentional :: "nat \<Rightarrow> bool \<Rightarrow> pm \<Rightarrow> pm" where
  "set_intentional k b s = s\<lparr>pm_children := (pm_children s)[k := (pm_children s ! k)\<lparr>ch_intentional := b\<rparr>]\<rparr>"

definition drop_adopted :: "code \<Rightarrow> pm \<Rightarrow> pm" where
  "drop_adopted code s = s\<lparr>pm_adopted := (pm_adopted s)(code := None)\<rparr>"

definition stop_spawned :: "code \<Rightarrow> nat \<Rightarrow> sigcode \<Rightarrow> bool pact" where
  "stop_spawned code k sig =
     andThen (modify (set_intentional k True))
     (attempt (call PqTurn (terminateManagedProcess code k sig)) (\<lambda>r. case r of
        Inr _ \<Rightarrow> ret True
      | Inl e \<Rightarrow> andThen (modify (\<lambda>s. if pm_processes s code = Some k then set_intentional k False s else s)) (throw e)))"

definition stop_adopted_process :: "code \<Rightarrow> adopted_process \<Rightarrow> bool pact" where
  "stop_adopted_process code a =
     bind (await (PqIdentity (ad_pid a) (ad_startedAt a))) (\<lambda>b. case b of
       PaIdentity (IdVerified _) \<Rightarrow>
         andThen (call PqTurn (treeKill (ad_pid a)))
         (andThen (modify (drop_adopted code))
         (andThen (update_status code IStopped None (Some 0) None) (ret True)))
     | _ \<Rightarrow>
         andThen (modify (drop_adopted code))
         (look (\<lambda>w _. let alive = isPidAlive w (ad_pid a) in
            andThen (update_status code (if alive then ICrashed else IStopped) None None None)
              (if \<not> alive then ret True else throw (PeStaleAdopted code (ad_pid a))))))"

definition killService :: "code \<Rightarrow> sigcode \<Rightarrow> bool pact" where
  "killService code sig = look (\<lambda>_ s.
     let pendingSpawn = pm_settlements s code;
         canceledRestart = snd (markServiceStopped code s) in
     andThen (modify (\<lambda>s. fst (markServiceStopped code s)))
     (andThen (case pendingSpawn of None \<Rightarrow> ret () | Some (_, j) \<Rightarrow> external (PqSettled j))
     (look (\<lambda>_ t. case pm_processes t code of
        Some k \<Rightarrow> stop_spawned code k sig
      | None \<Rightarrow> (case pm_adopted t code of
          Some a \<Rightarrow> stop_adopted_process code a
        | None \<Rightarrow> (case (case pendingSpawn of None \<Rightarrow> None | Some (_, j) \<Rightarrow> pm_failures t j) of
            Some e \<Rightarrow> throw e
          | None \<Rightarrow> ret canceledRestart))))))"

definition is_verified :: "panswer \<Rightarrow> bool" where
  "is_verified a = (case a of PaIdentity (IdVerified _) \<Rightarrow> True | _ \<Rightarrow> False)"

definition validateManagedProcess :: "code \<Rightarrow> bool pact" where
  "validateManagedProcess code = look (\<lambda>_ s. case pm_processes s code of
     Some k \<Rightarrow>
       if \<not> ch_exited (pm_children s ! k) then ret True
       else andThen (modify (\<lambda>s. s\<lparr>pm_processes := (pm_processes s)(code := None)\<rparr>))
         (andThen (update_status code ICrashed None (ch_exit_code (pm_children s ! k)) None) (ret False))
   | None \<Rightarrow> (case pm_adopted s code of
       None \<Rightarrow> ret False
     | Some candidate \<Rightarrow>
         bind (await (PqIdentity (ad_pid candidate) (ad_startedAt candidate))) (\<lambda>b. look (\<lambda>_ t.
           if is_verified b then
             ret (pm_adopted t code = Some candidate \<or> pm_processes t code \<noteq> None)
           else if pm_adopted t code \<noteq> Some candidate then ret (isManaged code t)
           else if b = PaIdentity IdUnreadable then ret True
           else andThen (modify (drop_adopted code))
             (andThen (update_status code ICrashed None None None) (ret False))))))"

section \<open>Exits and automatic restarts\<close>

text \<open>The error task is a row that refers to the instance row of the service, if there is one.\<close>

definition raise_error_task :: "code \<Rightarrow> proc_error option \<Rightarrow> unit pact" where
  "raise_error_task code what = look (\<lambda>w _. case w_db_insert w of
     Some e \<Rightarrow> throw e
   | None \<Rightarrow> andThen (modify (\<lambda>s. if pm_rows s code \<noteq> None then s\<lparr>pm_tasks_raised := pm_tasks_raised s @ [(code, what)]\<rparr> else s))
       (external PqDispatch))"

definition schedule_restart :: "service \<Rightarrow> spawn_options \<Rightarrow> nat \<Rightarrow> pm \<Rightarrow> pm" where
  "schedule_restart svc opts prev s =
     (case pm_desired s (sc_code svc) of
        Some (WantRunning, generation) \<Rightarrow>
          if pm_enabled s
          then s\<lparr>pm_timers := (pm_timers s)(sc_code svc := Some \<lparr>tm_service = svc, tm_options = opts, tm_prev = prev,
                 tm_generation = generation, tm_delay = restart_backoff prev\<rparr>)\<rparr>
          else s
      | _ \<Rightarrow> s)"

definition onExit :: "service \<Rightarrow> int option \<Rightarrow> bool \<Rightarrow> nat \<Rightarrow> spawn_options \<Rightarrow> bool \<Rightarrow> unit pact" where
  "onExit svc exitCode signaled prev opts intentionalStop =
     (let cleanExit = (exitCode = Some 0 \<and> \<not> signaled) in
      andThen (update_status (sc_code svc) (if intentionalStop \<or> cleanExit then IStopped else ICrashed) None exitCode None)
      (if intentionalStop then ret ()
       else case exit_decision_of svc opts exitCode signaled prev of
          NoRestart \<Rightarrow> ret ()
        | RestartLimit \<Rightarrow> call PqTurn (raise_error_task (sc_code svc) None)
        | ScheduleRestart \<Rightarrow> modify (schedule_restart svc opts prev)))"

definition set_terminated :: "nat \<Rightarrow> pm \<Rightarrow> pm" where
  "set_terminated k s = s\<lparr>pm_children := (pm_children s)[k := (pm_children s ! k)\<lparr>ch_terminated := True\<rparr>]\<rparr>"

text \<open>The exit handler of a registered child, after its synchronous part.\<close>

definition exit_task :: "nat \<Rightarrow> service \<Rightarrow> spawn_options \<Rightarrow> nat \<Rightarrow> int option \<Rightarrow> bool \<Rightarrow> unit pact" where
  "exit_task k svc opts prev exitCode signaled =
     andThen (await PqTurn)
     (attempt (look (\<lambda>_ s. call PqTurn (onExit svc exitCode signaled prev opts (ch_intentional (pm_children s ! k)))))
        (\<lambda>r. andThen (modify (set_terminated k)) (result r)))"

definition autoRestartService :: "nat \<Rightarrow> service \<Rightarrow> spawn_options \<Rightarrow> nat \<Rightarrow> nat \<Rightarrow> unit pact" where
  "autoRestartService i svc opts prev generation = look (\<lambda>w s.
     if \<not> isCurrentRunningGeneration (sc_code svc) generation s then ret ()
     else case w_startup_env w of
       Some e \<Rightarrow> throw e
     | None \<Rightarrow> bind (await_bool PqBuild) (\<lambda>built.
         if \<not> built then call PqTurn (raise_error_task (sc_code svc) (Some (PeExternal ''build'')))
         else look (\<lambda>_ t.
           if \<not> isCurrentRunningGeneration (sc_code svc) generation t then ret ()
           else andThen (call PqTurn (spawnService i svc
             (opts\<lparr>po_initialRestartCount := Some (prev + 1), po_expectedGeneration := Some generation\<rparr>))) (ret ()))))"

end
