(* ===== verification/Process_Machine.thy ===== *)
theory Process_Machine imports Process_Programs begin

text \<open>
  The process manager at work: its state and the asynchronous functions in flight, each in the task
  that called it. The event loop runs the synchronous part of a call, goes on with a waiting task,
  delivers the exit of a child process or fires a restart timer, in any order.
\<close>

datatype proc_call =
    CallSpawn service spawn_options
  | CallKill code sigcode
  | CallValidate code

definition call_program :: "nat \<Rightarrow> proc_call \<Rightarrow> unit pact" where
  "call_program i c =
     (case c of
        CallSpawn svc opts \<Rightarrow> bind (spawnService i svc opts) (\<lambda>_. ret ())
      | CallKill code sig \<Rightarrow> bind (killService code sig) (\<lambda>_. ret ())
      | CallValidate code \<Rightarrow> bind (validateManagedProcess code) (\<lambda>_. ret ()))"

datatype sync_call =
    SyncAdopt code pid ms
  | SyncRunning code
  | SyncStopped code
  | SyncCancel code
  | SyncSuspend
  | SyncResume

fun sync_effect :: "sync_call \<Rightarrow> pm \<Rightarrow> pm" where
  "sync_effect (SyncAdopt code p startedAt) s = adoptProcess code p startedAt s"
| "sync_effect (SyncRunning code) s = fst (markServiceRunning code s)"
| "sync_effect (SyncStopped code) s = fst (markServiceStopped code s)"
| "sync_effect (SyncCancel code) s = fst (cancelServiceRestart code s)"
| "sync_effect SyncSuspend s = suspendProcessRestarts s"
| "sync_effect SyncResume s = resumeProcessRestarts s"

text \<open>The exit of child \<open>k\<close>: the runtime notes it, then the handler of a registered child runs.\<close>

definition child_exits :: "nat \<Rightarrow> int option \<Rightarrow> pm \<Rightarrow> pm" where
  "child_exits k exitCode s =
     (let c = pm_children s ! k;
          s = s\<lparr>pm_children := (pm_children s)[k := c\<lparr>ch_exited := True, ch_exit_code := exitCode\<rparr>]\<rparr>
      in if ch_attached c \<noteq> None \<and> pm_processes s (ch_code c) = Some k
         then s\<lparr>pm_processes := (pm_processes s)(ch_code c := None)\<rparr> else s)"

definition restart_fires :: "code \<Rightarrow> pm \<Rightarrow> pm" where
  "restart_fires code s = s\<lparr>pm_timers := (pm_timers s)(code := None)\<rparr>"

text \<open>Which answers a query can get.\<close>

definition pm_fits :: "pquery \<Rightarrow> panswer \<Rightarrow> pm \<Rightarrow> bool" where
  "pm_fits q a s =
     (case (q, a) of
        (PqSpawned k, PaDone None) \<Rightarrow> k < length (pm_children s) \<and> \<not> ch_exited (pm_children s ! k)
      | (PqSpawned k, PaDone (Some _)) \<Rightarrow> True
      | (PqSpawned k, _) \<Rightarrow> False
      | (PqSettled j, PaDone None) \<Rightarrow> j \<in> pm_settled s
      | (PqSettled j, _) \<Rightarrow> False
      | (PqManagedExit k p, PaBool b) \<Rightarrow> b \<longrightarrow> ch_terminated (pm_children s ! k)
      | (PqManagedExit k p, _) \<Rightarrow> False
      | (PqChildTreeExit k p, PaBool b) \<Rightarrow> b \<longrightarrow> ch_exited (pm_children s ! k)
      | (PqChildTreeExit k p, _) \<Rightarrow> False
      | _ \<Rightarrow> True)"

record pmachine =
  pk_state :: pm
  pk_tasks :: "unit prunning list"

definition with_task :: "pm \<times> unit prunning \<Rightarrow> pmachine \<Rightarrow> pmachine" where
  "with_task sp m = m\<lparr>pk_state := fst sp, pk_tasks := pk_tasks m @ [snd sp]\<rparr>"

definition begin_call :: "proc_call \<Rightarrow> proc_os \<Rightarrow> pmachine \<Rightarrow> pmachine" where
  "begin_call c w m = with_task (call_program (length (pk_tasks m)) c w (pk_state m)) m"

definition exit_program :: "nat \<Rightarrow> proc_child \<Rightarrow> int option \<Rightarrow> unit pact" where
  "exit_program k c exitCode =
     (case ch_attached c of
        None \<Rightarrow> ret ()
      | Some (svc, opts, n) \<Rightarrow> exit_task k svc opts n exitCode (exitCode = None))"

definition exit_event :: "nat \<Rightarrow> int option \<Rightarrow> proc_os \<Rightarrow> pmachine \<Rightarrow> pmachine" where
  "exit_event k exitCode w m =
     with_task (exit_program k (pm_children (pk_state m) ! k) exitCode w (child_exits k exitCode (pk_state m))) m"

definition timer_program :: "nat \<Rightarrow> restart_timer \<Rightarrow> unit pact" where
  "timer_program i t = look (\<lambda>_ s.
     if isCurrentRunningGeneration (sc_code (tm_service t)) (tm_generation t) s
     then autoRestartService i (tm_service t) (tm_options t) (tm_prev t) (tm_generation t) else ret ())"

definition timer_event :: "code \<Rightarrow> restart_timer \<Rightarrow> proc_os \<Rightarrow> pmachine \<Rightarrow> pmachine" where
  "timer_event code t w m = with_task (timer_program (length (pk_tasks m)) t w (restart_fires code (pk_state m))) m"

definition resume_task :: "nat \<Rightarrow> panswer \<Rightarrow> proc_os \<Rightarrow> pmachine \<Rightarrow> pmachine" where
  "resume_task i a w m =
     (case pk_tasks m ! i of
        Return _ \<Rightarrow> m
      | Await q k \<Rightarrow> m\<lparr>pk_state := fst (k a w (pk_state m)), pk_tasks := (pk_tasks m)[i := snd (k a w (pk_state m))]\<rparr>)"

definition can_resume :: "nat \<Rightarrow> panswer \<Rightarrow> pmachine \<Rightarrow> bool" where
  "can_resume i a m \<longleftrightarrow> i < length (pk_tasks m)
     \<and> (case pk_tasks m ! i of Return _ \<Rightarrow> False | Await q _ \<Rightarrow> pm_fits q a (pk_state m))"

inductive pm_step :: "pmachine \<Rightarrow> pmachine \<Rightarrow> bool" where
  calls: "pm_step m (begin_call c w m)"
| sync: "pm_step m (m\<lparr>pk_state := sync_effect c (pk_state m)\<rparr>)"
| resumes: "can_resume i a m \<Longrightarrow> pm_step m (resume_task i a w m)"
| exits: "k < length (pm_children (pk_state m)) \<Longrightarrow> \<not> ch_exited (pm_children (pk_state m) ! k) \<Longrightarrow>
    pm_step m (exit_event k exitCode w m)"
| fires: "pm_timers (pk_state m) code = Some t \<Longrightarrow> pm_step m (timer_event code t w m)"

definition new_machine :: "bool \<Rightarrow> pmachine" where
  "new_machine win32 = \<lparr>pk_state = new_pm win32, pk_tasks = []\<rparr>"

inductive pm_reachable :: "bool \<Rightarrow> pmachine \<Rightarrow> bool" for win32 where
  init: "pm_reachable win32 (new_machine win32)"
| step: "pm_reachable win32 m \<Longrightarrow> pm_step m m' \<Longrightarrow> pm_reachable win32 m'"

end
