(* ===== verification/Process_Safety.thy ===== *)
theory Process_Safety imports Process_Machine begin

text \<open>
  The invariant of the process manager: a service has at most one live child, and the maps name it;
  a spawn holds its reservation until it is over; a restart timer belongs to the current generation.
  Every task is safe for it under interference, by the rules of \<open>async_safety\<close>: a task relies on the
  others to leave its settlement alone.
\<close>

section \<open>Invariant, rely and guarantee\<close>

definition live_child :: "pm \<Rightarrow> nat \<Rightarrow> code \<Rightarrow> bool" where
  "live_child s k c \<longleftrightarrow> k < length (pm_children s) \<and> ch_code (pm_children s ! k) = c
     \<and> ch_attached (pm_children s ! k) \<noteq> None \<and> \<not> ch_exited (pm_children s ! k)"

definition timer_ok :: "pm \<Rightarrow> code \<Rightarrow> restart_timer \<Rightarrow> bool" where
  "timer_ok s c t \<longleftrightarrow> isCurrentRunningGeneration c (tm_generation t) s \<and> sc_code (tm_service t) = c
     \<and> tm_prev t + 1 \<le> (case po_maxRestart (tm_options t) of Some n \<Rightarrow> n | None \<Rightarrow> sc_max_restart (tm_service t))
     \<and> 1000 \<le> tm_delay t \<and> tm_delay t \<le> 30000"

definition started_wanted :: "pm \<Rightarrow> code \<Rightarrow> nat \<Rightarrow> bool" where
  "started_wanted s c k \<longleftrightarrow> (case pm_desired s c of
     None \<Rightarrow> False
   | Some (want, g) \<Rightarrow> ch_generation (pm_children s ! k) < g
       \<or> ch_generation (pm_children s ! k) = g \<and> want = WantRunning)"

definition pm_inv :: "pm \<Rightarrow> bool" where
  "pm_inv s \<longleftrightarrow> (\<forall>c k. pm_processes s c = Some k \<longleftrightarrow> live_child s k c)
     \<and> (\<forall>c. pm_processes s c \<noteq> None \<longrightarrow> pm_adopted s c = None)
     \<and> (\<forall>c. pm_reservations s c = map_option fst (pm_settlements s c))
     \<and> (\<forall>c t. pm_timers s c = Some t \<longrightarrow> timer_ok s c t)
     \<and> (\<forall>c k. pm_processes s c = Some k \<longrightarrow> started_wanted s c k)"

definition grows :: "pm \<Rightarrow> pm \<Rightarrow> bool" where
  "grows s s' \<longleftrightarrow> length (pm_children s) \<le> length (pm_children s')
     \<and> (\<forall>k < length (pm_children s). ch_code (pm_children s' ! k) = ch_code (pm_children s ! k))"

definition pm_rely :: "nat \<Rightarrow> pm \<Rightarrow> pm \<Rightarrow> bool" where
  "pm_rely i s s' \<longleftrightarrow> grows s s'
     \<and> (\<forall>c g. pm_settlements s c = Some (g, i) \<longrightarrow> pm_settlements s' c = Some (g, i)
         \<and> (pm_processes s c = None \<longrightarrow> pm_processes s' c = None))"

definition pm_guar :: "nat \<Rightarrow> pm \<Rightarrow> pm \<Rightarrow> bool" where
  "pm_guar i s s' \<longleftrightarrow> grows s s' \<and> (\<forall>j. j \<noteq> i \<longrightarrow> pm_rely j s s')"

definition frame :: "pm \<Rightarrow> pm \<Rightarrow> bool" where
  "frame s s' \<longleftrightarrow> grows s s' \<and> pm_settlements s' = pm_settlements s
     \<and> (\<forall>c. pm_processes s c = None \<longrightarrow> pm_processes s' c = None)"

lemma grows_refl [simp]: "grows s s"
  by (simp add: grows_def)

lemma grows_trans: "grows s t \<Longrightarrow> grows t u \<Longrightarrow> grows s u"
  by (auto simp: grows_def)

lemma frame_rely: "frame s s' \<Longrightarrow> pm_rely i s s'"
  by (simp add: frame_def pm_rely_def)

lemma frame_guar: "frame s s' \<Longrightarrow> pm_guar i s s'"
  by (simp add: frame_def pm_guar_def pm_rely_def)

lemma guar_rely: "pm_guar i s s' \<Longrightarrow> j \<noteq> i \<Longrightarrow> pm_rely j s s'"
  by (simp add: pm_guar_def)

interpretation pt: async_safety pm_inv "pm_rely i" "pm_guar i" pm_fits "\<lambda>_ _. True" for i
proof
  show "pm_guar i s s" for s by (simp add: pm_guar_def pm_rely_def)
  show "pm_guar i s u" if "pm_guar i s t" "pm_guar i t u" for s t u
    using that unfolding pm_guar_def pm_rely_def by (blast intro: grows_trans)
qed

lemma pm_invD:
  assumes "pm_inv s"
  shows "pm_processes s c = Some k \<longleftrightarrow> live_child s k c"
    "pm_adopted s c = Some a \<Longrightarrow> pm_processes s c = None"
    "pm_reservations s c = map_option fst (pm_settlements s c)"
    "pm_timers s c = Some t \<Longrightarrow> timer_ok s c t"
    "pm_processes s c = Some k \<Longrightarrow> started_wanted s c k"
  using assms unfolding pm_inv_def by (metis option.distinct(1))+

text \<open>A change of the child records that neither ends nor attaches one.\<close>

definition same_children :: "pm \<Rightarrow> pm \<Rightarrow> bool" where
  "same_children s s' \<longleftrightarrow> length (pm_children s') = length (pm_children s)
     \<and> (\<forall>k < length (pm_children s). ch_code (pm_children s' ! k) = ch_code (pm_children s ! k)
       \<and> ch_attached (pm_children s' ! k) = ch_attached (pm_children s ! k)
       \<and> ch_exited (pm_children s' ! k) = ch_exited (pm_children s ! k)
       \<and> ch_generation (pm_children s' ! k) = ch_generation (pm_children s ! k))"

lemma same_children_refl [simp]: "pm_children s' = pm_children s \<Longrightarrow> same_children s s'"
  by (simp add: same_children_def)

lemma same_children_grows [simp]: "same_children s s' \<Longrightarrow> grows s s'"
  by (simp add: same_children_def grows_def)

lemma same_children_live: "same_children s s' \<Longrightarrow> live_child s' k c \<longleftrightarrow> live_child s k c"
  by (auto simp: same_children_def live_child_def)

lemma same_children_wanted:
  "same_children s s' \<Longrightarrow> k < length (pm_children s) \<Longrightarrow> pm_desired s' = pm_desired s \<Longrightarrow>
   started_wanted s' c k \<longleftrightarrow> started_wanted s c k"
  by (auto simp: same_children_def started_wanted_def split: option.splits)

lemma timer_ok_cong:
  "pm_desired s' = pm_desired s \<Longrightarrow> pm_enabled s' = pm_enabled s \<Longrightarrow> timer_ok s' c t = timer_ok s c t"
  by (simp add: timer_ok_def isCurrentRunningGeneration_def)

lemma pm_inv_same:
  assumes inv: "pm_inv s" and ch: "same_children s s'"
    and eqs: "pm_processes s' = pm_processes s" "pm_settlements s' = pm_settlements s"
      "pm_reservations s' = pm_reservations s" "pm_desired s' = pm_desired s" "pm_enabled s' = pm_enabled s"
    and ad: "\<And>c a. pm_adopted s' c = Some a \<Longrightarrow> pm_processes s c \<noteq> None \<Longrightarrow> pm_adopted s c \<noteq> None"
    and tm: "\<And>c t. pm_timers s' c = Some t \<Longrightarrow> pm_timers s c = Some t \<or> timer_ok s c t"
  shows "pm_inv s' \<and> frame s s'"
proof -
  note D = pm_invD [OF inv]
  have "started_wanted s' c k" if "pm_processes s c = Some k" for c k
    using D(1) [of c k] D(5) [OF that] that same_children_wanted [OF ch] eqs by (simp add: live_child_def)
  moreover have "timer_ok s' c t" if "pm_timers s' c = Some t" for c t
    using tm [OF that] D(4) timer_ok_cong [OF eqs(4,5)] by blast
  moreover have "pm_adopted s' c = None" if "pm_processes s c \<noteq> None" for c
    using ad [of c] that inv unfolding pm_inv_def by (metis not_None_eq)
  ultimately have "pm_inv s'"
    unfolding pm_inv_def eqs same_children_live [OF ch] using inv unfolding pm_inv_def by blast
  then show ?thesis using ch eqs by (simp add: frame_def)
qed

section \<open>Changes of the state\<close>

lemma updateDesired_ok:
  assumes inv: "pm_inv s"
  shows "pm_inv (fst (updateDesiredState code want s)) \<and> frame s (fst (updateDesiredState code want s))"
proof -
  note D = pm_invD [OF inv]
  let ?s = "fst (updateDesiredState code want s)"
  have fields: "pm_processes ?s = pm_processes s" "pm_settlements ?s = pm_settlements s" "pm_children ?s = pm_children s"
    "pm_reservations ?s = pm_reservations s" "pm_adopted ?s = pm_adopted s" "pm_enabled ?s = pm_enabled s"
    by (simp_all add: updateDesiredState_def Let_def)
  have "started_wanted ?s c k" if "pm_processes s c = Some k" for c k
    using D(5) [OF that]
    by (auto simp: started_wanted_def updateDesiredState_def Let_def split: option.splits)
  moreover have "timer_ok ?s c t" if "pm_timers ?s c = Some t" for c t
    using that D(4) [of c t]
    by (auto simp: timer_ok_def isCurrentRunningGeneration_def updateDesiredState_def Let_def split: if_splits)
  moreover have "live_child ?s k c = live_child s k c" for k c by (simp add: live_child_def fields)
  ultimately have "pm_inv ?s" using inv unfolding pm_inv_def fields by blast
  then show ?thesis by (simp add: frame_def fields grows_def)
qed

lemma suspend_ok:
  assumes inv: "pm_inv s"
  shows "pm_inv (suspendProcessRestarts s) \<and> frame s (suspendProcessRestarts s)"
proof -
  let ?s = "suspendProcessRestarts s"
  have fields: "pm_processes ?s = pm_processes s" "pm_settlements ?s = pm_settlements s" "pm_children ?s = pm_children s"
    "pm_reservations ?s = pm_reservations s" "pm_adopted ?s = pm_adopted s" "pm_timers ?s = (\<lambda>_. None)"
    by (simp_all add: suspendProcessRestarts_def)
  have "started_wanted ?s c k" if "pm_processes s c = Some k" for c k
    using pm_invD(5) [OF inv that]
    by (auto simp: started_wanted_def suspendProcessRestarts_def split: option.splits)
  moreover have "live_child ?s k c = live_child s k c" for k c by (simp add: live_child_def fields)
  ultimately have "pm_inv ?s" using inv unfolding pm_inv_def fields by blast
  then show ?thesis by (simp add: frame_def fields grows_def)
qed

lemma resume_ok:
  assumes inv: "pm_inv s"
  shows "pm_inv (resumeProcessRestarts s) \<and> frame s (resumeProcessRestarts s)"
proof -
  let ?s = "resumeProcessRestarts s"
  have fields: "pm_processes ?s = pm_processes s" "pm_settlements ?s = pm_settlements s" "pm_children ?s = pm_children s"
    "pm_reservations ?s = pm_reservations s" "pm_adopted ?s = pm_adopted s" "pm_timers ?s = pm_timers s"
    "pm_desired ?s = pm_desired s"
    by (simp_all add: resumeProcessRestarts_def)
  have "timer_ok ?s c t" if "timer_ok s c t" for c t
    using that by (simp add: timer_ok_def isCurrentRunningGeneration_def resumeProcessRestarts_def)
  moreover have "live_child ?s k c = live_child s k c" for k c by (simp add: live_child_def fields)
  moreover have "started_wanted ?s c k = started_wanted s c k" for c k by (simp only: started_wanted_def fields)
  ultimately have "pm_inv ?s" using inv unfolding pm_inv_def fields by blast
  then show ?thesis by (simp add: frame_def grows_def fields)
qed

lemma adopt_entry_ok:
  assumes "pm_inv s" "pm_processes s c = None"
  shows "pm_inv (s\<lparr>pm_adopted := (pm_adopted s)(c := Some a)\<rparr>) \<and> frame s (s\<lparr>pm_adopted := (pm_adopted s)(c := Some a)\<rparr>)"
  by (rule pm_inv_same [OF assms(1)]) (use assms(2) in \<open>auto split: if_splits\<close>)

lemma frame_trans: "frame s t \<Longrightarrow> frame t u \<Longrightarrow> frame s u"
  unfolding frame_def using grows_trans by metis

lemma sync_effect_ok:
  assumes inv: "pm_inv s"
  shows "pm_inv (sync_effect c s) \<and> frame s (sync_effect c s)"
proof (cases c)
  case (SyncAdopt code p startedAt)
  show ?thesis
  proof (cases "pm_processes s code")
    case None
    let ?t = "s\<lparr>pm_adopted := (pm_adopted s)(code := Some \<lparr>ad_pid = p, ad_startedAt = startedAt\<rparr>)\<rparr>"
    have t: "pm_inv ?t" "frame s ?t" using adopt_entry_ok [OF inv None] by auto
    have "pm_inv (fst (updateDesiredState code WantRunning ?t)) \<and> frame s (fst (updateDesiredState code WantRunning ?t))"
      using updateDesired_ok [OF t(1)] frame_trans [OF t(2)] by blast
    then show ?thesis using None SyncAdopt by (simp add: adoptProcess_def markServiceRunning_def)
  qed (use SyncAdopt inv in \<open>simp add: adoptProcess_def frame_def\<close>)
qed (use updateDesired_ok [OF inv] suspend_ok [OF inv] resume_ok [OF inv] in
  \<open>simp_all add: markServiceRunning_def markServiceStopped_def cancelServiceRestart_def Let_def\<close>)

text \<open>Changes a task makes between two awaits.\<close>

lemma drop_adopted_ok: "pm_inv s \<Longrightarrow> pm_inv (drop_adopted c s) \<and> frame s (drop_adopted c s)"
  by (rule pm_inv_same) (auto simp: drop_adopted_def split: if_splits)

lemma set_row_ok: "pm_inv s \<Longrightarrow> pm_inv (set_row c st p e t n s) \<and> frame s (set_row c st p e t n s)"
  by (rule pm_inv_same) (auto simp: set_row_def Let_def split: option.splits)

lemma insert_row_ok: "pm_inv s \<Longrightarrow> pm_inv (insert_row c s) \<and> frame s (insert_row c s)"
  by (rule pm_inv_same) (auto simp: insert_row_def split: option.splits)

lemma raised_ok:
  "pm_inv s \<Longrightarrow> pm_inv (if b s then s\<lparr>pm_tasks_raised := l s\<rparr> else s) \<and> frame s (if b s then s\<lparr>pm_tasks_raised := l s\<rparr> else s)"
  by (rule pm_inv_same) (auto split: if_splits)

lemma nth_update_cases: "(xs[k := y]) ! j = (if j = k \<and> k < length xs then y else xs ! j)"
proof (cases "k < length xs")
  case False
  then have "xs[k := y] = xs" by (simp add: list_update_beyond)
  then show ?thesis using False by simp
qed simp

lemma set_intentional_ok: "pm_inv s \<Longrightarrow> pm_inv (set_intentional k b s) \<and> frame s (set_intentional k b s)"
  by (rule pm_inv_same) (auto simp: set_intentional_def same_children_def nth_update_cases)

lemma set_terminated_ok: "pm_inv s \<Longrightarrow> pm_inv (set_terminated k s) \<and> frame s (set_terminated k s)"
  by (rule pm_inv_same) (auto simp: set_terminated_def same_children_def nth_update_cases)

lemma forget_none_ok:
  assumes "pm_inv s" "pm_processes s c = None"
  shows "pm_inv (s\<lparr>pm_processes := (pm_processes s)(c := None)\<rparr>) \<and> frame s (s\<lparr>pm_processes := (pm_processes s)(c := None)\<rparr>)"
  by (rule pm_inv_same [OF assms(1)]) (use assms(2) in \<open>auto simp: fun_eq_iff\<close>)

lemma retain_ok:
  assumes "pm_inv s" "pm_processes s c = None"
  shows "pm_inv (retainRejectedSpawn c p t e s) \<and> frame s (retainRejectedSpawn c p t e s)"
  by (rule pm_inv_same [OF assms(1)])
    (use assms(2) in \<open>auto simp: retainRejectedSpawn_def Let_def split: option.splits if_splits\<close>)

lemma restart_backoff_bounds: "1000 \<le> restart_backoff n \<and> restart_backoff n \<le> 30000"
  by (simp add: restart_backoff_def)

lemma schedule_ok:
  assumes inv: "pm_inv s" and d: "exit_decision_of svc opts e sig prev = ScheduleRestart"
  shows "pm_inv (schedule_restart svc opts prev s) \<and> frame s (schedule_restart svc opts prev s)"
proof -
  have "prev + 1 \<le> (case po_maxRestart opts of Some n \<Rightarrow> n | None \<Rightarrow> sc_max_restart svc)"
    using d by (auto simp: exit_decision_of_def Let_def split: if_splits)
  then show ?thesis using restart_backoff_bounds [of prev]
    by (intro pm_inv_same [OF inv])
      (auto simp: schedule_restart_def timer_ok_def isCurrentRunningGeneration_def
        split: option.splits prod.splits wished_state.splits if_splits)
qed

lemma forget_timer_ok: "pm_inv s \<Longrightarrow> pm_inv (restart_fires c s) \<and> frame s (restart_fires c s)"
  by (rule pm_inv_same) (auto simp: restart_fires_def split: if_splits)

section \<open>Reservations and children\<close>

definition holds_spawn :: "nat \<Rightarrow> code \<Rightarrow> nat \<Rightarrow> pm \<Rightarrow> bool" where
  "holds_spawn i c g s \<longleftrightarrow> pm_settlements s c = Some (g, i)"

definition spawning :: "nat \<Rightarrow> code \<Rightarrow> nat \<Rightarrow> pm \<Rightarrow> bool" where
  "spawning i c g s \<longleftrightarrow> holds_spawn i c g s \<and> pm_processes s c = None"

definition own_child :: "nat \<Rightarrow> code \<Rightarrow> nat \<Rightarrow> nat \<Rightarrow> pm \<Rightarrow> bool" where
  "own_child i c g k s \<longleftrightarrow> spawning i c g s \<and> k < length (pm_children s) \<and> ch_code (pm_children s ! k) = c"

lemma stable_holds [simp]: "pt.stable i (holds_spawn i c g)"
  by (simp add: pt.stable_def holds_spawn_def pm_rely_def)

lemma stable_spawning [simp]: "pt.stable i (spawning i c g)"
  by (simp add: pt.stable_def spawning_def holds_spawn_def pm_rely_def)

lemma stable_own [simp]: "pt.stable i (own_child i c g k)"
  by (auto simp: pt.stable_def own_child_def spawning_def holds_spawn_def pm_rely_def grows_def)

lemma own_spawning: "own_child i c g k s \<Longrightarrow> spawning i c g s"
  by (simp add: own_child_def)

lemma spawning_holds: "spawning i c g s \<Longrightarrow> holds_spawn i c g s"
  by (simp add: spawning_def)

lemma pm_inv_settle:
  assumes inv: "pm_inv s" and ch: "same_children s s'"
    and eqs: "pm_processes s' = pm_processes s" "pm_desired s' = pm_desired s" "pm_enabled s' = pm_enabled s"
      "pm_timers s' = pm_timers s" "pm_adopted s' = pm_adopted s"
    and st: "pm_settlements s' = (pm_settlements s)(c := v)" "pm_reservations s' = (pm_reservations s)(c := map_option fst v)"
  shows "pm_inv s'"
proof -
  note D = pm_invD [OF inv]
  have "started_wanted s' c k" if "pm_processes s c = Some k" for c k
    using D(1) [of c k] D(5) [OF that] that same_children_wanted [OF ch] eqs by (simp add: live_child_def)
  moreover have "timer_ok s' c t" if "pm_timers s c = Some t" for c t
    using D(4) [OF that] timer_ok_cong [OF eqs(2,3)] by blast
  moreover have "pm_reservations s' x = map_option fst (pm_settlements s' x)" for x
    using D(3) [of x] by (simp add: st)
  ultimately show ?thesis
    unfolding pm_inv_def eqs same_children_live [OF ch] using inv unfolding pm_inv_def by blast
qed

lemma pm_inv_settle_free:
  assumes "pm_inv s"
  shows "pm_inv (s\<lparr>pm_reservations := (pm_reservations s)(c := Some g), pm_settlements := (pm_settlements s)(c := Some (g, i))\<rparr>)"
  by (rule pm_inv_settle [OF assms, where c = c and v = "Some (g, i)"]) simp_all

lemma reserve_ok:
  assumes inv: "pm_inv s" and r: "reserveSpawn i c e s = (s', r)"
  shows "pm_inv s' \<and> pm_guar i s s' \<and> (case r of Inl _ \<Rightarrow> True | Inr g \<Rightarrow> spawning i c g s')"
proof (cases "pm_enabled s \<and> pm_processes s c = None \<and> pm_adopted s c = None \<and> pm_reservations s c = None")
  case False
  then have "s' = s" "\<exists>e. r = Inl e" using r by (auto simp: reserveSpawn_def split: if_splits)
  then show ?thesis using inv frame_guar [of s s] by (auto simp: frame_def)
next
  case True
  define t g where tg: "t = (case e of Some g \<Rightarrow> s | None \<Rightarrow> fst (markServiceRunning c s))"
    "g = (case e of Some g \<Rightarrow> g | None \<Rightarrow> snd (markServiceRunning c s))"
  have t: "pm_inv t" "frame s t"
    using inv updateDesired_ok [OF inv, of c WantRunning]
    by (auto simp: tg(1) frame_def markServiceRunning_def split: option.splits)
  have free: "pm_processes t c = None" "pm_settlements t c = None"
    using True pm_invD(3) [OF inv, of c]
    by (auto simp: tg(1) markServiceRunning_def updateDesiredState_def Let_def split: option.splits)
  have split: "(s', r) = (if \<not> isCurrentRunningGeneration c g t then (t, Inl (PeCanceled c))
      else (t\<lparr>pm_reservations := (pm_reservations t)(c := Some g), pm_settlements := (pm_settlements t)(c := Some (g, i))\<rparr>, Inr g))"
    using True r by (auto simp: reserveSpawn_def tg split_beta Let_def split: option.splits)
  show ?thesis
  proof (cases "isCurrentRunningGeneration c g t")
    case False
    then show ?thesis using split t frame_guar by simp
  next
    case True
    let ?u = "t\<lparr>pm_reservations := (pm_reservations t)(c := Some g), pm_settlements := (pm_settlements t)(c := Some (g, i))\<rparr>"
    have "s' = ?u" "r = Inr g" using True split by simp_all
    moreover have "pm_guar i t ?u" using free(2) by (auto simp: pm_guar_def pm_rely_def grows_def)
    moreover from this have "pm_guar i s ?u" using pt.guar_trans [OF frame_guar [OF t(2)]] by blast
    ultimately show ?thesis
      using pm_inv_settle_free [OF t(1)] free by (simp add: holds_spawn_def spawning_def)
  qed
qed

lemma release_ok:
  assumes inv: "pm_inv s" and h: "holds_spawn i c g s"
  shows "pm_inv (releaseSpawn c g s) \<and> pm_guar i s (releaseSpawn c g s)"
proof -
  let ?t = "s\<lparr>pm_reservations := (pm_reservations s)(c := None), pm_settlements := (pm_settlements s)(c := None), pm_settled := insert i (pm_settled s)\<rparr>"
  have "pm_reservations s c = Some g" using pm_invD(3) [OF inv, of c] h by (simp add: holds_spawn_def)
  then have "releaseSpawn c g s = ?t" using h by (simp add: releaseSpawn_def holds_spawn_def)
  moreover have "pm_inv ?t"
    by (rule pm_inv_settle [OF inv, where c = c and v = None]) simp_all
  moreover have "pm_guar i s ?t" using h by (auto simp: pm_guar_def pm_rely_def holds_spawn_def)
  ultimately show ?thesis by simp
qed

lemma new_child_ok:
  assumes inv: "pm_inv s" and c: "ch_attached c = None"
  shows "pm_inv (s\<lparr>pm_children := pm_children s @ [c]\<rparr>) \<and> frame s (s\<lparr>pm_children := pm_children s @ [c]\<rparr>)"
proof -
  define t where "t = s\<lparr>pm_children := pm_children s @ [c]\<rparr>"
  have fields: "pm_processes t = pm_processes s" "pm_settlements t = pm_settlements s" "pm_adopted t = pm_adopted s"
    "pm_reservations t = pm_reservations s" "pm_timers t = pm_timers s" "pm_desired t = pm_desired s"
    "pm_enabled t = pm_enabled s" "pm_children t = pm_children s @ [c]"
    by (simp_all add: t_def)
  have live: "live_child t k x = live_child s k x" for k x
    using c by (auto simp: live_child_def fields nth_append less_Suc_eq)
  have B: "started_wanted t x k" if "pm_processes s x = Some k" for x k
    using pm_invD(1,5) [OF inv, of x k] that
    by (auto simp: live_child_def started_wanted_def fields nth_append split: option.splits)
  have C: "timer_ok t x u = timer_ok s x u" for x u by (rule timer_ok_cong) (simp_all add: fields)
  have "pm_inv t" using inv B unfolding pm_inv_def fields live C by blast
  then show ?thesis by (auto simp: frame_def grows_def nth_append t_def)
qed

lemma child_exits_ok:
  assumes inv: "pm_inv s" and k: "k < length (pm_children s)" "\<not> ch_exited (pm_children s ! k)"
  shows "pm_inv (child_exits k e s) \<and> frame s (child_exits k e s)"
proof -
  let ?t = "child_exits k e s"
  note D = pm_invD [OF inv]
  have ch: "pm_children ?t = (pm_children s)[k := (pm_children s ! k)\<lparr>ch_exited := True, ch_exit_code := e\<rparr>]"
    and same: "pm_settlements ?t = pm_settlements s" "pm_reservations ?t = pm_reservations s" "pm_adopted ?t = pm_adopted s"
      "pm_timers ?t = pm_timers s" "pm_desired ?t = pm_desired s" "pm_enabled ?t = pm_enabled s"
    by (simp_all add: child_exits_def Let_def)
  have procs: "pm_processes ?t x = (if pm_processes s x = Some k then None else pm_processes s x)" for x
    using D(1) [of x k] by (auto simp: child_exits_def Let_def live_child_def)
  have live: "live_child ?t j x \<longleftrightarrow> j \<noteq> k \<and> live_child s j x" for j x
    using k(1) by (auto simp: live_child_def ch nth_list_update)
  have A: "pm_processes ?t x = Some j \<longleftrightarrow> live_child ?t j x" for x j
    using D(1) [of x j] by (auto simp: procs live)
  have B: "started_wanted ?t x j" if "pm_processes ?t x = Some j" for x j
    using that D(5) [of x j] by (auto simp: procs started_wanted_def same ch nth_update_cases split: if_splits option.splits)
  have C: "timer_ok ?t x t = timer_ok s x t" for x t by (rule timer_ok_cong) (simp_all add: same)
  have E: "pm_adopted s x = None" if "pm_processes ?t x \<noteq> None" for x
    using that inv unfolding pm_inv_def procs by metis
  have "pm_inv ?t" unfolding pm_inv_def same C using A B D(3,4) E by blast
  moreover have "frame s ?t" by (simp add: frame_def grows_def ch same procs nth_update_cases)
  ultimately show ?thesis by simp
qed

lemma register_ok:
  assumes inv: "pm_inv s" and own: "own_child i (sc_code svc) g k s" and up: "\<not> ch_exited (pm_children s ! k)"
    and cur: "isCurrentRunningGeneration (sc_code svc) g s"
  shows "pm_inv (register_child svc opts g k s) \<and> pm_guar i s (register_child svc opts g k s)
    \<and> holds_spawn i (sc_code svc) g (register_child svc opts g k s)"
proof -
  let ?t = "register_child svc opts g k s" and ?c = "sc_code svc"
  note D = pm_invD [OF inv]
  have k: "k < length (pm_children s)" "ch_code (pm_children s ! k) = ?c" "pm_processes s ?c = None"
    using own by (simp_all add: own_child_def spawning_def)
  have ch: "pm_children ?t = (pm_children s)[k := (pm_children s ! k)\<lparr>ch_attached := Some (svc, opts, initial_count opts), ch_generation := g\<rparr>]"
    and same: "pm_settlements ?t = pm_settlements s" "pm_reservations ?t = pm_reservations s"
      "pm_timers ?t = pm_timers s" "pm_desired ?t = pm_desired s" "pm_enabled ?t = pm_enabled s"
    and maps: "pm_processes ?t = (pm_processes s)(?c := Some k)" "pm_adopted ?t = (pm_adopted s)(?c := None)"
    by (simp_all add: register_child_def)
  have live: "live_child ?t j x \<longleftrightarrow> (if j = k then x = ?c else live_child s j x)" for j x
    using k up by (auto simp: live_child_def ch nth_update_cases)
  have none: "\<not> live_child s j ?c" for j using D(1) [of ?c j] k(3) by simp
  have other: "\<not> live_child s k x" if "x \<noteq> ?c" for x using that k(2) by (simp add: live_child_def)
  have A: "pm_processes ?t x = Some j \<longleftrightarrow> live_child ?t j x" for x j
    unfolding live maps using D(1) [of x j] none [of j] other [of x] by (cases "x = ?c"; cases "j = k") auto
  have B: "started_wanted ?t x j" if "pm_processes ?t x = Some j" for x j
  proof (cases "x = ?c")
    case True
    then have j: "j = k" using that by (simp add: maps)
    have "ch_generation (pm_children ?t ! k) = g" using k(1) by (simp add: ch)
    then show ?thesis using cur unfolding True j
      by (simp add: started_wanted_def same isCurrentRunningGeneration_def)
  next
    case False
    then have "pm_processes s x = Some j" using that by (simp add: maps)
    moreover from this have "j \<noteq> k" using D(1) [of x j] k False by (auto simp: live_child_def)
    ultimately show ?thesis using D(5) [of x j]
      by (auto simp: started_wanted_def same ch nth_update_cases split: option.splits)
  qed
  have C: "timer_ok ?t x t = timer_ok s x t" for x t by (rule timer_ok_cong) (simp_all add: same)
  have E: "pm_adopted ?t x = None" if "pm_processes ?t x \<noteq> None" for x
    using that inv unfolding pm_inv_def maps by (metis fun_upd_apply)
  have "pm_inv ?t" unfolding pm_inv_def same C using A B D(3,4) E by blast
  moreover have "pm_guar i s ?t" using own
    by (auto simp: pm_guar_def pm_rely_def grows_def ch same maps nth_update_cases own_child_def spawning_def holds_spawn_def)
  ultimately show ?thesis using own by (simp add: own_child_def spawning_def holds_spawn_def same)
qed

section \<open>The functions under interference\<close>

text \<open>
  A function whose stretches all leave the settlements alone keeps every assertion that other tasks
  keep.
\<close>

lemma keeps_frame:
  assumes "pt.stable i L" "\<And>s. pm_inv s \<Longrightarrow> L s \<Longrightarrow> pm_inv (f s) \<and> frame s (f s)"
  shows "pt.keeps i L (modify f)"
proof (rule pt.keeps_modify)
  fix s assume s: "pm_inv s" "L s"
  have f: "pm_inv (f s)" "frame s (f s)" using assms(2) [OF s] by simp_all
  have "L (f s)" using assms(1) s frame_rely [OF f(2)] unfolding pt.stable_def by blast
  then show "pm_inv (f s) \<and> pm_guar i s (f s) \<and> L (f s)" using f frame_guar by blast
qed

lemma keeps_external: "pt.stable i L \<Longrightarrow> pt.keeps i L (external q)"
  unfolding external_def
  by (intro pt.keeps_bind pt.keeps_await) (auto split: panswer.split option.split intro: pt.keeps_ret pt.keeps_throw)

lemma keeps_update_now: "pt.stable i L \<Longrightarrow> pt.keeps i L (updateInstanceStatus c st p e t)"
  unfolding updateInstanceStatus_def
  by (intro pt.keeps_rules keeps_frame insert_row_ok set_row_ok)

lemma keeps_update: "pt.stable i L \<Longrightarrow> pt.keeps i L (update_status c st p e t)"
  unfolding update_status_def by (intro pt.keeps_call keeps_update_now TrueI)

lemma keeps_quietly: "pt.keeps i L m \<Longrightarrow> pt.keeps i L (quietly m)"
  unfolding quietly_def by (intro pt.keeps_rules)

lemma keeps_signal: "pt.keeps i L (signal_tree p sig)"
  unfolding signal_tree_def by (intro pt.keeps_rules)

lemma keeps_await_bool: "pt.stable i L \<Longrightarrow> pt.keeps i L (await_bool q)"
  unfolding await_bool_def by (intro pt.keeps_rules TrueI)

lemmas keeps_basic = pt.keeps_rules keeps_external keeps_update keeps_quietly keeps_signal keeps_await_bool TrueI

lemma keeps_treeKill: "pt.stable i L \<Longrightarrow> pt.keeps i L (treeKill p)"
  unfolding treeKill_def by (intro keeps_basic)

lemma keeps_terminateUnregistered: "pt.stable i L \<Longrightarrow> pt.keeps i L (terminateUnregisteredChild c k)"
  unfolding terminateUnregisteredChild_def by (intro keeps_basic keeps_treeKill)

lemma keeps_terminateManaged: "pt.stable i L \<Longrightarrow> pt.keeps i L (terminateManagedProcess c k sig)"
  unfolding terminateManagedProcess_def by (intro keeps_basic keeps_treeKill)

lemma keeps_listeners: "pt.stable i L \<Longrightarrow> pt.keeps i L listeners"
  unfolding listeners_def
  by (intro pt.keeps_bind pt.keeps_await) (auto split: panswer.split option.split intro: pt.keeps_ret pt.keeps_throw)

lemma keeps_kill_holders: "pt.stable i L \<Longrightarrow> pt.keeps i L (kill_holders ps)"
  by (induction ps) (simp_all, (intro keeps_basic keeps_treeKill)+)

lemma keeps_wait_released:
  assumes st: "pt.stable i L"
  shows "pt.keeps i L (wait_released n c port d)"
proof (induction n)
  case 0
  show ?case by (simp only: wait_released.simps) (intro keeps_basic keeps_listeners st)
next
  case (Suc n)
  show ?case by (simp only: wait_released.simps) (intro keeps_basic keeps_listeners st Suc)
qed

lemma keeps_clearDeclaredPort: "pt.stable i L \<Longrightarrow> pt.keeps i L (clearDeclaredPort c port p)"
  unfolding clearDeclaredPort_def
  by (intro keeps_basic keeps_listeners keeps_kill_holders keeps_wait_released)

lemma keeps_start_command: "pt.stable i L \<Longrightarrow> pt.keeps i L (start_command svc)"
  unfolding start_command_def
  by (intro pt.keeps_case_option pt.keeps_result pt.keeps_throw pt.keeps_bind pt.keeps_await TrueI)
    (auto split: panswer.split sum.split intro: pt.keeps_result pt.keeps_throw)

text \<open>Spawning: the failures before a child is registered happen while the service has none.\<close>

lemma keeps_forget:
  assumes "pt.stable i L" "\<And>s. L s \<Longrightarrow> pm_processes s c = None"
  shows "pt.keeps i L (modify (\<lambda>s. s\<lparr>pm_processes := (pm_processes s)(c := None)\<rparr>))"
  by (intro keeps_frame forget_none_ok assms)

lemma keeps_recordSpawnFailure:
  assumes st: "pt.stable i L" and no: "\<And>s. L s \<Longrightarrow> pm_processes s c = None"
  shows "pt.keeps i L (call PqTurn (recordSpawnFailure c p))"
  unfolding recordSpawnFailure_def by (intro keeps_basic keeps_forget st no)

lemma keeps_failed_spawn:
  assumes st: "pt.stable i L" and no: "\<And>s. L s \<Longrightarrow> pm_processes s c = None"
  shows "pt.keeps i L (failed_spawn c e)"
  unfolding failed_spawn_def by (intro keeps_basic keeps_recordSpawnFailure st no)

lemma keeps_retain:
  assumes "pt.stable i L" "\<And>s. L s \<Longrightarrow> pm_processes s c = None"
  shows "pt.keeps i L (modify (retainRejectedSpawn c p t e))"
  by (intro keeps_frame retain_ok assms)

lemma keeps_rejected_spawn:
  assumes st: "pt.stable i L" and no: "\<And>s. L s \<Longrightarrow> pm_processes s c = None"
  shows "pt.keeps i L (rejected_spawn c k t e)"
  unfolding rejected_spawn_def
  by (intro keeps_basic keeps_terminateUnregistered keeps_failed_spawn keeps_retain st no)

lemma keeps_canceled_spawn:
  assumes st: "pt.stable i L" and no: "\<And>s. L s \<Longrightarrow> pm_processes s c = None"
  shows "pt.keeps i L (canceled_spawn c k t)"
  unfolding canceled_spawn_def
  by (intro keeps_basic keeps_terminateUnregistered keeps_retain st no)

lemma spawning_none: "spawning i c g s \<Longrightarrow> pm_processes s c = None"
  by (simp add: spawning_def)

lemma own_none: "own_child i c g k s \<Longrightarrow> pm_processes s c = None"
  by (simp add: own_child_def spawning_def)

lemma await_spawned_triple:
  "pt.triple i (own_child i c g k) (await_spawned c k p t)
     (\<lambda>r s. own_child i c g k s \<and> (case r of Inl _ \<Rightarrow> True | Inr _ \<Rightarrow> \<not> ch_exited (pm_children s ! k)))"
  unfolding await_spawned_def
proof (rule pt.triple_attempt)
  let ?L = "own_child i c g k"
  show "pt.triple i ?L (updateInstanceStatus c IPending p None (Some t)) (\<lambda>_. ?L)"
    by (rule pt.keeps_triple [OF keeps_update_now]) simp
  fix r :: "proc_error + unit"
  have fail: "pt.triple i ?L (andThen (await PqTurn) (throw e))
      (\<lambda>r s. ?L s \<and> (case r of Inl _ \<Rightarrow> True | Inr _ \<Rightarrow> \<not> ch_exited (pm_children s ! k)))" for e
    by (rule pt.triple_andThen [where Q = "\<lambda>_. ?L"], rule pt.keeps_triple, intro pt.keeps_await)
      (auto intro: pt.triple_throw)
  have spawned: "pt.triple i ?L (external (PqSpawned k))
      (\<lambda>r s. ?L s \<and> (case r of Inl _ \<Rightarrow> True | Inr _ \<Rightarrow> \<not> ch_exited (pm_children s ! k)))"
    unfolding external_def
  proof (rule pt.triple_bind)
    show "pt.triple i ?L (await (PqSpawned k))
        (\<lambda>r s. ?L s \<and> (\<exists>a. r = Inr a \<and> pm_fits (PqSpawned k) a s))"
      by (rule pt.triple_await [where L = ?L]) auto
    fix a
    show "pt.triple i (\<lambda>s. ?L s \<and> (\<exists>b. Inr a = Inr b \<and> pm_fits (PqSpawned k) b s))
        (case a of PaDone (Some e) \<Rightarrow> throw e | _ \<Rightarrow> ret ())
        (\<lambda>r s. ?L s \<and> (case r of Inl _ \<Rightarrow> True | Inr _ \<Rightarrow> \<not> ch_exited (pm_children s ! k)))"
      by (cases a) (auto simp: pm_fits_def split: option.split intro!: pt.triple_throw pt.triple_ret)
  qed auto
  show "pt.triple i ?L (case r of Inl e \<Rightarrow> andThen (await PqTurn) (throw e) | Inr _ \<Rightarrow> external (PqSpawned k))
      (\<lambda>r s. ?L s \<and> (case r of Inl _ \<Rightarrow> True | Inr _ \<Rightarrow> \<not> ch_exited (pm_children s ! k)))"
    using fail spawned by (cases r) simp_all
qed

abbreviation holding :: "nat \<Rightarrow> code \<Rightarrow> nat \<Rightarrow> 'r \<Rightarrow> pm \<Rightarrow> bool" where
  "holding i c g \<equiv> \<lambda>_. holds_spawn i c g"

lemma own_to_holding:
  "pt.keeps i (own_child i c g k) m \<Longrightarrow> pt.triple i (own_child i c g k) m (holding i c g)"
  by (erule pt.keeps_conseq) (auto dest: own_spawning spawning_holds)

lemma spawning_to_holding:
  "pt.keeps i (spawning i c g) m \<Longrightarrow> (\<And>s. pm_inv s \<Longrightarrow> P s \<Longrightarrow> spawning i c g s) \<Longrightarrow> pt.triple i P m (holding i c g)"
  by (erule pt.keeps_conseq) (auto dest: spawning_holds)

lemma register_or_cancel_triple:
  "pt.triple i (\<lambda>s. own_child i (sc_code svc) g k s \<and> \<not> ch_exited (pm_children s ! k))
     (register_or_cancel svc opts g k p t) (holding i (sc_code svc) g)"
  unfolding register_or_cancel_def
proof (rule pt.triple_look, rule pt.triple_if)
  fix s
  let ?P = "\<lambda>t. (own_child i (sc_code svc) g k t \<and> \<not> ch_exited (pm_children t ! k)) \<and> t = s"
  show "pt.triple i ?P (canceled_spawn (sc_code svc) k t) (holding i (sc_code svc) g)"
    by (rule pt.triple_pre [OF own_to_holding [OF keeps_canceled_spawn]]) (auto dest: own_none)
  assume "\<not> \<not> isCurrentRunningGeneration (sc_code svc) g s"
  then have reg: "pt.triple i ?P (modify (register_child svc opts g k)) (holding i (sc_code svc) g)"
    by (intro pt.triple_modify) (use register_ok in blast)
  show "pt.triple i ?P (andThen (modify (register_child svc opts g k))
      (andThen (quietly (update_status (sc_code svc) IRunning p None (Some t))) (ret p))) (holding i (sc_code svc) g)"
    by (rule pt.triple_andThen [OF reg]) (simp_all, intro pt.keeps_triple keeps_basic, simp)
qed

lemma new_child_triple:
  assumes "ch_attached c = None" "ch_code c = x"
  shows "pt.triple i (\<lambda>t. spawning i x g t \<and> t = s) (modify (\<lambda>s. s\<lparr>pm_children := pm_children s @ [c]\<rparr>))
    (\<lambda>_. own_child i x g (length (pm_children s)))"
proof (rule pt.triple_modify)
  fix t assume t: "pm_inv t" "spawning i x g t \<and> t = s"
  have "own_child i x g (length (pm_children s)) (t\<lparr>pm_children := pm_children t @ [c]\<rparr>)"
    using t assms(2) by (auto simp: own_child_def spawning_def holds_spawn_def)
  then show "pm_inv (t\<lparr>pm_children := pm_children t @ [c]\<rparr>) \<and> pm_guar i t (t\<lparr>pm_children := pm_children t @ [c]\<rparr>)
      \<and> own_child i x g (length (pm_children s)) (t\<lparr>pm_children := pm_children t @ [c]\<rparr>)"
    using new_child_ok [OF t(1) assms(1)] frame_guar by blast
qed

lemma spawned_child_triple:
  "pt.triple i (own_child i (sc_code svc) g k) (spawned_child svc opts g k p t) (holding i (sc_code svc) g)"
  unfolding spawned_child_def
proof (rule pt.triple_attempt [OF await_spawned_triple])
  fix r :: "proc_error + unit"
  have rej: "pt.triple i (own_child i (sc_code svc) g k) (rejected_spawn (sc_code svc) k t e) (holding i (sc_code svc) g)" for e
    by (rule own_to_holding [OF keeps_rejected_spawn]) (auto dest: own_none)
  show "pt.triple i (\<lambda>s. own_child i (sc_code svc) g k s \<and> (case r of Inl _ \<Rightarrow> True | Inr _ \<Rightarrow> \<not> ch_exited (pm_children s ! k)))
     (case r of Inl e \<Rightarrow> rejected_spawn (sc_code svc) k t e | Inr _ \<Rightarrow> register_or_cancel svc opts g k p t)
     (holding i (sc_code svc) g)"
    using register_or_cancel_triple rej by (cases r) simp_all
qed

lemma spawn_child_triple:
  "pt.triple i (spawning i (sc_code svc) g) (spawn_child_service svc opts g) (holding i (sc_code svc) g)"
  unfolding spawn_child_service_def
proof (intro pt.triple_look pt.triple_case_option)
  fix w s
  let ?P = "\<lambda>t. spawning i (sc_code svc) g t \<and> t = s"
  show "pt.triple i ?P (throw e) (holding i (sc_code svc) g)" for e
    by (rule pt.triple_throw) (simp add: spawning_def)
  show "pt.triple i ?P (case w_spawn w of Inl e \<Rightarrow> failed_spawn (sc_code svc) e
      | Inr p \<Rightarrow> andThen (modify (\<lambda>s. s\<lparr>pm_children := pm_children s @ [new_child (sc_code svc) p (w_now w)]\<rparr>))
          (spawned_child svc opts g (length (pm_children s)) p (w_now w))) (holding i (sc_code svc) g)"
  proof (cases "w_spawn w")
    case (Inl e)
    show ?thesis unfolding Inl sum.case
      by (rule spawning_to_holding [OF keeps_failed_spawn]) (auto dest: spawning_none)
  next
    case (Inr p)
    show ?thesis unfolding Inr sum.case
      by (rule pt.triple_andThen [OF new_child_triple spawned_child_triple])
        (auto simp: new_child_def dest: own_spawning spawning_holds)
  qed
qed

lemma keeps_adopt:
  assumes "pt.stable i L" "\<And>s. L s \<Longrightarrow> pm_processes s c = None"
  shows "pt.keeps i L (modify (\<lambda>s. s\<lparr>pm_adopted := (pm_adopted s)(c := Some a)\<rparr>))"
  by (intro keeps_frame adopt_entry_ok assms)

lemma keeps_breakaway:
  assumes st: "pt.stable i L" and no: "\<And>s. L s \<Longrightarrow> pm_processes s (sc_code svc) = None"
  shows "pt.keeps i L (spawn_breakaway_service svc g)"
proof -
  note rules = keeps_basic keeps_adopt keeps_retain keeps_failed_spawn keeps_recordSpawnFailure keeps_treeKill st no
  have adopt: "pt.keeps i L (adopt_or_cancel (sc_code svc) g p t)" for p t
    unfolding adopt_or_cancel_def by (intro rules)
  have failed: "pt.keeps i L (unverified_spawn (sc_code svc) p e)" for p e
    unfolding unverified_spawn_def by (intro rules)
  have identified: "pt.keeps i L (case b of
        PaIdentity (IdVerified t) \<Rightarrow> adopt_or_cancel (sc_code svc) g p t
      | PaIdentity IdExited \<Rightarrow> unverified_spawn (sc_code svc) p (PeExitedAtOnce (sc_code svc) p)
      | _ \<Rightarrow> unverified_spawn (sc_code svc) p (PeNotVerified (sc_code svc) p))" for b p
    using adopt failed by (auto split: panswer.split identity_result.split)
  have launched: "pt.keeps i L (launched_outside (sc_code svc) g p t)" for p t
    unfolding launched_outside_def
    by (intro pt.keeps_andThen pt.keeps_bind identified keeps_update pt.keeps_await st TrueI)
  have answered: "pt.keeps i L (case a of
        PaPid (Inr p) \<Rightarrow> launched_outside (sc_code svc) g p t
      | PaPid (Inl e) \<Rightarrow> failed_spawn (sc_code svc) e
      | _ \<Rightarrow> failed_spawn (sc_code svc) (PeExternal ''launcher''))" for a t
    using launched keeps_failed_spawn [OF st no] by (auto split: panswer.split sum.split)
  show ?thesis unfolding spawn_breakaway_service_def
    by (intro pt.keeps_look pt.keeps_case_option pt.keeps_throw pt.keeps_bind answered pt.keeps_await st TrueI)
qed

text \<open>A spawn after its reservation.\<close>

lemma spawning_then:
  assumes "pt.keeps i (spawning i c g) m" "\<And>x. pt.triple i (spawning i c g) (f x) (holding i c g)"
  shows "pt.triple i (spawning i c g) (bind m f) (holding i c g)"
  by (rule pt.triple_bind [OF pt.keeps_triple [OF assms(1)]]) (auto intro: assms(2) dest: spawning_holds)

lemma spawning_andThen:
  "pt.keeps i (spawning i c g) m \<Longrightarrow> pt.triple i (spawning i c g) n (holding i c g) \<Longrightarrow>
   pt.triple i (spawning i c g) (andThen m n) (holding i c g)"
  unfolding andThen_def by (rule spawning_then)

lemma spawning_throw: "pt.triple i (spawning i c g) (throw e) (holding i c g)"
  by (rule pt.triple_throw) (rule spawning_holds)

lemma triple_look_any:
  "(\<And>w s. pt.triple i P (f w s) Q) \<Longrightarrow> pt.triple i P (look f) Q"
  by (rule pt.triple_look) (blast intro: pt.triple_pre)

lemma spawnReserved_triple:
  "pt.triple i (spawning i (sc_code svc) g) (spawnReservedService svc opts g) (holding i (sc_code svc) g)"
proof -
  have st: "pt.stable i (spawning i (sc_code svc) g)" by simp
  have outside: "pt.triple i (spawning i (sc_code svc) g) (call PqTurn (spawn_breakaway_service svc g)) (holding i (sc_code svc) g)"
    by (rule spawning_to_holding [OF pt.keeps_call [OF keeps_breakaway]]) (auto dest: spawning_none)
  have last: "pt.triple i (spawning i (sc_code svc) g)
      (look (\<lambda>w s2. if \<not> isCurrentRunningGeneration (sc_code svc) g s2 then throw (PeCanceled (sc_code svc))
         else if pm_win32 s2 then
           (case w_resolve w of Some e \<Rightarrow> throw e | None \<Rightarrow> call PqTurn (spawn_breakaway_service svc g))
         else spawn_child_service svc opts g)) (holding i (sc_code svc) g)"
    by (intro triple_look_any pt.triple_if pt.triple_case_option spawning_throw outside spawn_child_triple)
  have steps: "pt.triple i (spawning i (sc_code svc) g) (case x of (cmd, args, source) \<Rightarrow>
      andThen (external (PqHotReload source)) (andThen (external PqSpawnEnv) (andThen (external PqVersion)
       (look (\<lambda>_ s1. if \<not> isCurrentRunningGeneration (sc_code svc) g s1 then throw (PeCanceled (sc_code svc))
          else andThen (update_status (sc_code svc) IPending None None None)
            (look (\<lambda>w s2. if \<not> isCurrentRunningGeneration (sc_code svc) g s2 then throw (PeCanceled (sc_code svc))
               else if pm_win32 s2 then
                 (case w_resolve w of Some e \<Rightarrow> throw e | None \<Rightarrow> call PqTurn (spawn_breakaway_service svc g))
               else spawn_child_service svc opts g))))))) (holding i (sc_code svc) g)" for x
    by (cases x, simp only: prod.case)
      (intro spawning_andThen keeps_external keeps_update st triple_look_any pt.triple_if spawning_throw last)
  show ?thesis unfolding spawnReservedService_def Let_def
    by (intro triple_look_any pt.triple_if spawning_throw spawning_andThen spawning_then steps
        pt.keeps_call keeps_clearDeclaredPort keeps_start_command st TrueI)
qed

end
