(* ===== verification/Process_Invariant.thy ===== *)
theory Process_Invariant imports Process_Safety begin

text \<open>
  Every function a task of the process manager runs is safe, so the invariant of \<open>Process_Safety\<close>
  holds in every state the machine reaches.
\<close>

section \<open>Whole functions\<close>

lemma stable_any: "pt.stable i (\<lambda>_. True)"
  by simp

lemma free_keeps: "pt.keeps i (\<lambda>_. True) m \<Longrightarrow> pt.triple i P m (\<lambda>_ _. True)"
  by (erule pt.keeps_conseq) simp_all

lemma spawnService_free: "pt.keeps i (\<lambda>_. True) (spawnService i svc opts)"
  unfolding spawnService_def
proof (rule pt.keeps_look_at)
  fix s assume inv: "pm_inv s"
  let ?c = "sc_code svc" and ?e = "po_expectedGeneration opts"
  obtain s' r where r: "reserveSpawn i ?c ?e s = (s', r)" by fastforce
  have reserved: "pt.triple i (\<lambda>t. True \<and> t = s) (modify (\<lambda>s. fst (reserveSpawn i ?c ?e s)))
      (\<lambda>_ t. t = s' \<and> (case r of Inl _ \<Rightarrow> True | Inr g \<Rightarrow> spawning i ?c g t))"
    by (rule pt.triple_modify) (use reserve_ok [OF inv r] r in \<open>auto split: sum.splits\<close>)
  have started: "pt.triple i (spawning i ?c g) (attempt (call PqTurn (spawnReservedService svc o2 g))
      (\<lambda>r. andThen (modify (releaseSpawn ?c g)) (result r))) (\<lambda>_ _. True)" for g o2
  proof (rule pt.triple_attempt)
    show "pt.triple i (spawning i ?c g) (call PqTurn (spawnReservedService svc o2 g)) (holding i ?c g)"
      by (rule pt.triple_call [OF spawnReserved_triple]) simp_all
    show "pt.triple i (holds_spawn i ?c g) (andThen (modify (releaseSpawn ?c g)) (result r)) (\<lambda>_ _. True)" for r :: "proc_error + pid option"
    proof (rule pt.triple_andThen)
      show "pt.triple i (holds_spawn i ?c g) (modify (releaseSpawn ?c g)) (\<lambda>_ _. True)"
        by (rule pt.triple_modify) (simp add: release_ok)
    qed (simp_all add: pt.triple_result)
  qed
  have cont: "pt.triple i (\<lambda>t. t = s' \<and> (case r of Inl _ \<Rightarrow> True | Inr g \<Rightarrow> spawning i ?c g t))
      (case r of Inl e \<Rightarrow> throw e
       | Inr g \<Rightarrow> attempt (call PqTurn (spawnReservedService svc (opts\<lparr>po_expectedGeneration := Some g\<rparr>) g))
           (\<lambda>r. andThen (modify (releaseSpawn ?c g)) (result r))) (\<lambda>_ _. True)"
    by (cases r) (auto intro: pt.triple_throw pt.triple_pre [OF started])
  show "pt.triple i (\<lambda>t. True \<and> t = s) (andThen (modify (\<lambda>s. fst (reserveSpawn i ?c ?e s)))
     (case snd (reserveSpawn i ?c ?e s) of
        Inl e \<Rightarrow> throw e
      | Inr generation \<Rightarrow>
          attempt (call PqTurn (spawnReservedService svc (opts\<lparr>po_expectedGeneration := Some generation\<rparr>) generation))
            (\<lambda>r. andThen (modify (releaseSpawn ?c generation)) (result r)))) (\<lambda>_ _. True)"
    unfolding r snd_conv by (rule pt.triple_andThen [OF reserved cont]) simp
qed

lemma stopped_ok: "pm_inv s \<Longrightarrow> pm_inv (fst (markServiceStopped c s)) \<and> frame s (fst (markServiceStopped c s))"
  using updateDesired_ok by (simp add: markServiceStopped_def Let_def)

lemma clear_intentional_ok:
  "pm_inv s \<Longrightarrow> pm_inv (if b s then set_intentional k False s else s) \<and> frame s (if b s then set_intentional k False s else s)"
  using set_intentional_ok by (auto simp: frame_def)

lemma stop_spawned_free: "pt.keeps i (\<lambda>_. True) (stop_spawned c k sig)"
  unfolding stop_spawned_def
  by (intro keeps_basic keeps_frame set_intentional_ok clear_intentional_ok keeps_terminateManaged stable_any)

lemma stop_adopted_free: "pt.keeps i (\<lambda>_. True) (stop_adopted_process c a)"
proof -
  note rules = keeps_basic keeps_frame drop_adopted_ok keeps_treeKill stable_any
  have kill: "pt.keeps i (\<lambda>_. True) (andThen (call PqTurn (treeKill p))
      (andThen (modify (drop_adopted c)) (andThen (update_status c IStopped None (Some 0) None) (ret True))))" for p
    by (intro rules)
  have stale: "pt.keeps i (\<lambda>_. True) (andThen (modify (drop_adopted c))
      (look (\<lambda>w _. let alive = isPidAlive w p in
         andThen (update_status c (if alive then ICrashed else IStopped) None None None)
           (if \<not> alive then ret True else throw (PeStaleAdopted c p)))))" for p
    by (intro rules)
  show ?thesis unfolding stop_adopted_process_def
    by (intro pt.keeps_bind pt.keeps_await stable_any TrueI)
      (use kill stale in \<open>auto split: panswer.split identity_result.split\<close>)
qed

lemma killService_free: "pt.keeps i (\<lambda>_. True) (killService c sig)"
  unfolding killService_def
  by (intro keeps_basic keeps_frame stopped_ok stop_spawned_free stop_adopted_free stable_any)

text \<open>An entry of a child that has exited is not found: the exit event removed it.\<close>

lemma validate_free: "pt.keeps i (\<lambda>_. True) (validateManagedProcess c)"
  unfolding validateManagedProcess_def
proof (rule pt.keeps_look_at, rule pt.triple_case_option)
  fix s assume inv: "pm_inv s"
  have adopted: "pt.keeps i (\<lambda>_. True) (bind (await (PqIdentity (ad_pid a) (ad_startedAt a))) (\<lambda>b. look (\<lambda>_ t.
       if is_verified b then ret (pm_adopted t c = Some a \<or> pm_processes t c \<noteq> None)
       else if pm_adopted t c \<noteq> Some a then ret (isManaged c t)
       else if b = PaIdentity IdUnreadable then ret True
       else andThen (modify (drop_adopted c)) (andThen (update_status c ICrashed None None None) (ret False)))))" for a
    by (intro keeps_basic keeps_frame drop_adopted_ok stable_any)
  show "pt.triple i (\<lambda>t. True \<and> t = s) (case pm_adopted s c of None \<Rightarrow> ret False
     | Some a \<Rightarrow> bind (await (PqIdentity (ad_pid a) (ad_startedAt a))) (\<lambda>b. look (\<lambda>_ t.
       if is_verified b then ret (pm_adopted t c = Some a \<or> pm_processes t c \<noteq> None)
       else if pm_adopted t c \<noteq> Some a then ret (isManaged c t)
       else if b = PaIdentity IdUnreadable then ret True
       else andThen (modify (drop_adopted c)) (andThen (update_status c ICrashed None None None) (ret False))))) (\<lambda>_ _. True)"
    by (intro free_keeps pt.keeps_case_option pt.keeps_ret adopted)
  fix k assume "pm_processes s c = Some k"
  then have "\<not> ch_exited (pm_children s ! k)" using pm_invD(1) [OF inv] by (simp add: live_child_def)
  then show "pt.triple i (\<lambda>t. True \<and> t = s) (if \<not> ch_exited (pm_children s ! k) then ret True
       else andThen (modify (\<lambda>s. s\<lparr>pm_processes := (pm_processes s)(c := None)\<rparr>))
         (andThen (update_status c ICrashed None (ch_exit_code (pm_children s ! k)) None) (ret False))) (\<lambda>_ _. True)"
    by (simp add: free_keeps pt.keeps_ret)
qed

lemma raise_free: "pt.keeps i (\<lambda>_. True) (raise_error_task c what)"
  unfolding raise_error_task_def by (intro keeps_basic keeps_frame raised_ok stable_any)

lemma onExit_free: "pt.keeps i (\<lambda>_. True) (onExit svc e sig prev opts intentional)"
proof -
  have "pt.keeps i (\<lambda>_. True) (case exit_decision_of svc opts e sig prev of
          NoRestart \<Rightarrow> ret ()
        | RestartLimit \<Rightarrow> call PqTurn (raise_error_task (sc_code svc) None)
        | ScheduleRestart \<Rightarrow> modify (schedule_restart svc opts prev))"
  proof (cases "exit_decision_of svc opts e sig prev")
    case ScheduleRestart
    have "pt.keeps i (\<lambda>_. True) (modify (schedule_restart svc opts prev))"
      by (intro keeps_frame stable_any) (rule schedule_ok [OF _ ScheduleRestart])
    then show ?thesis by (simp add: ScheduleRestart)
  qed (auto intro: pt.keeps_ret pt.keeps_call raise_free)
  then show ?thesis unfolding onExit_def Let_def by (intro keeps_basic stable_any)
qed

lemma exit_program_free: "pt.keeps i (\<lambda>_. True) (exit_program k c e)"
  unfolding exit_program_def exit_task_def
  by (intro keeps_basic keeps_frame onExit_free set_terminated_ok stable_any)

lemma autoRestart_free: "pt.keeps i (\<lambda>_. True) (autoRestartService i svc opts prev g)"
  unfolding autoRestartService_def
  by (intro keeps_basic raise_free spawnService_free stable_any)

lemma timer_program_free: "pt.keeps i (\<lambda>_. True) (timer_program i t)"
  unfolding timer_program_def by (intro keeps_basic autoRestart_free stable_any)

lemma call_program_free: "pt.keeps i (\<lambda>_. True) (call_program i c)"
  by (cases c) (simp_all add: call_program_def, (intro keeps_basic spawnService_free killService_free validate_free stable_any)+)

section \<open>The machine\<close>

definition pmachine_inv :: "pmachine \<Rightarrow> bool" where
  "pmachine_inv m \<longleftrightarrow> pm_inv (pk_state m) \<and> (\<forall>i < length (pk_tasks m). pt.waiting i (pk_state m) (pk_tasks m ! i))"

lemma with_task_inv:
  assumes m: "pmachine_inv m" and t: "pm_inv t" "frame (pk_state m) t"
    and p: "pt.keeps (length (pk_tasks m)) (\<lambda>_. True) p"
  shows "pmachine_inv (with_task (p w t) m)"
proof -
  let ?n = "length (pk_tasks m)"
  obtain s' q where run: "p w t = (s', q)" by fastforce
  have new: "pm_inv s' \<and> pm_guar ?n t s' \<and> pt.waiting ?n s' q"
    using pt.waiting_start [OF free_keeps [OF p] t(1) TrueI run] .
  have "pt.waiting i s' (pk_tasks m ! i)" if "i < ?n" for i
  proof -
    have "pt.waiting i t (pk_tasks m ! i)"
      using m that frame_rely [OF t(2)] by (auto simp: pmachine_inv_def intro: pt.waiting_rely)
    then show ?thesis using pt.waiting_rely [OF _ t(1) guar_rely] new that by blast
  qed
  then show ?thesis using new by (auto simp: pmachine_inv_def with_task_def run nth_append less_Suc_eq)
qed

lemma resume_task_inv:
  assumes m: "pmachine_inv m" and can: "can_resume i a m"
  shows "pmachine_inv (resume_task i a w m)"
proof -
  obtain q k where q: "pk_tasks m ! i = Await q k" and i: "i < length (pk_tasks m)" and fits: "pm_fits q a (pk_state m)"
    using can by (auto simp: can_resume_def split: prog.splits)
  obtain s' p where run: "k a w (pk_state m) = (s', p)" by fastforce
  have inv: "pm_inv (pk_state m)" and wait: "pt.waiting i (pk_state m) (Await q k)"
    using m i q by (auto simp: pmachine_inv_def)
  have new: "pm_inv s' \<and> pm_guar i (pk_state m) s' \<and> pt.waiting i s' p"
    using pt.waiting_resume [OF wait inv fits run] .
  have "pt.waiting j s' (pk_tasks m ! j)" if "j < length (pk_tasks m)" "j \<noteq> i" for j
  proof (rule pt.waiting_rely [OF _ inv guar_rely])
    show "pt.waiting j (pk_state m) (pk_tasks m ! j)" using m that by (simp add: pmachine_inv_def)
    show "pm_guar i (pk_state m) s'" using new by simp
  qed (rule that(2))
  then show ?thesis using new i by (auto simp: pmachine_inv_def resume_task_def q run nth_list_update)
qed

lemma sync_inv: "pmachine_inv m \<Longrightarrow> pmachine_inv (m\<lparr>pk_state := sync_effect c (pk_state m)\<rparr>)"
  using sync_effect_ok [of "pk_state m" c] frame_rely
  by (auto simp: pmachine_inv_def intro: pt.waiting_rely)

lemma pm_step_inv: "pm_step m m' \<Longrightarrow> pmachine_inv m \<Longrightarrow> pmachine_inv m'"
proof (induction rule: pm_step.induct)
  case (calls m c w)
  show ?case unfolding begin_call_def
    by (rule with_task_inv [OF calls _ _ call_program_free]) (use calls in \<open>simp_all add: pmachine_inv_def frame_def\<close>)
next
  case (exits k m e w)
  have s: "pm_inv (pk_state m)" using exits(3) by (simp add: pmachine_inv_def)
  show ?case unfolding exit_event_def
    using with_task_inv [OF exits(3) _ _ exit_program_free] child_exits_ok [OF s exits(1,2)] by simp
next
  case (fires m c t w)
  have s: "pm_inv (pk_state m)" using fires(2) by (simp add: pmachine_inv_def)
  show ?case unfolding timer_event_def
    using with_task_inv [OF fires(2) _ _ timer_program_free] forget_timer_ok [OF s] by simp
qed (simp_all add: sync_inv resume_task_inv)

lemma reachable_inv: "pm_reachable win32 m \<Longrightarrow> pmachine_inv m"
proof (induction rule: pm_reachable.induct)
  case init
  then show ?case by (simp add: pmachine_inv_def pm_inv_def new_machine_def new_pm_def live_child_def)
next
  case (step m m')
  then show ?case using pm_step_inv by blast
qed

lemma reachable_pm_inv: "pm_reachable win32 m \<Longrightarrow> pm_inv (pk_state m)"
  using reachable_inv by (simp add: pmachine_inv_def)

end
