(* ===== verification/Process_Properties.thy ===== *)
theory Process_Properties imports Process_Invariant begin

text \<open>
  What the invariant says about every reachable state of the process manager, and what the guards at
  the start of a spawn do.
\<close>

section \<open>A run\<close>

text \<open>A run of the machine after its first call: answers to tasks, and exits of children.\<close>

datatype run_event = Answered nat panswer | Exited nat "int option"

fun drive :: "run_event list \<Rightarrow> proc_os \<Rightarrow> pmachine \<Rightarrow> pmachine option" where
  "drive [] w m = Some m"
| "drive (Answered i a # es) w m = (if can_resume i a m then drive es w (resume_task i a w m) else None)"
| "drive (Exited k e # es) w m =
     (if k < length (pm_children (pk_state m)) \<and> \<not> ch_exited (pm_children (pk_state m) ! k)
      then drive es w (exit_event k e w m) else None)"

lemma drive_reachable: "drive es w m = Some m' \<Longrightarrow> pm_reachable win32 m \<Longrightarrow> pm_reachable win32 m'"
  by (induction es w m rule: drive.induct)
    (auto split: if_splits intro: pm_reachable.step pm_step.resumes pm_step.exits)

definition run_service :: service where
  "run_service = \<lparr>sc_code = ''a'', sc_runtime = ''app'', sc_port = None, sc_start_script = None,
     sc_exec = Some ''/bin/a'', sc_exec_args = None, sc_cwd = None, sc_command = None,
     sc_restart_policy = RestartAlways, sc_max_restart = 3\<rparr>"

definition run_opts :: spawn_options where
  "run_opts = \<lparr>po_restartPolicy = None, po_maxRestart = None, po_initialRestartCount = None, po_expectedGeneration = None\<rparr>"

definition run_os :: proc_os where
  "run_os = \<lparr>w_now = 1000, w_db_insert = None, w_db_update = None, w_in_catalog = (\<lambda>_. True), w_open_log = None, w_resolve = None,
     w_spawn = Inr (Some 42), w_startup_env = None, w_kill = (\<lambda>_ _. KillSent), w_child_kill = (\<lambda>_ _. True)\<rparr>"

definition run_start :: pmachine where
  "run_start = begin_call (CallSpawn run_service run_opts) run_os (new_machine False)"

lemma run_start_reachable: "pm_reachable False run_start"
  unfolding run_start_def by (rule pm_reachable.step [OF pm_reachable.init pm_step.calls])

definition run_spawned :: "run_event list" where
  "run_spawned = replicate 8 (Answered 0 (PaDone None))"

definition run_crashed :: "run_event list" where
  "run_crashed = run_spawned @ [Exited 0 (Some 1)] @ replicate 3 (Answered 1 (PaDone None))"

definition state_after :: "run_event list \<Rightarrow> pm option" where
  "state_after es = map_option pk_state (drive es run_os run_start)"

lemma state_after_reachable:
  assumes "state_after es = Some s"
  obtains m where "pm_reachable False m" "pk_state m = s"
  using assms drive_reachable [OF _ run_start_reachable] by (auto simp: state_after_def)

lemma run_spawned_state: "\<exists>m. pm_reachable False m \<and> pm_processes (pk_state m) ''a'' = Some 0"
proof -
  have "map_option (\<lambda>s. pm_processes s ''a'') (state_after run_spawned) = Some (Some 0)" by code_simp
  then obtain s where s: "state_after run_spawned = Some s" "pm_processes s ''a'' = Some 0" by auto
  then show ?thesis using state_after_reachable [OF s(1)] by metis
qed

lemma run_crashed_state:
  "\<exists>m t. pm_reachable False m \<and> pm_timers (pk_state m) ''a'' = Some t \<and> tm_delay t = 1000 \<and> tm_prev t = 0"
proof -
  have "map_option (\<lambda>s. map_option (\<lambda>t. (tm_delay t, tm_prev t)) (pm_timers s ''a'')) (state_after run_crashed) = Some (Some (1000, 0))"
    by code_simp
  then obtain s t where s: "state_after run_crashed = Some s" "pm_timers s ''a'' = Some t" "tm_delay t = 1000" "tm_prev t = 0" by auto
  then show ?thesis using state_after_reachable [OF s(1)] by metis
qed

section \<open>Every reachable state\<close>

text \<open>
  C10. In every reachable state of the process manager, whatever calls, exits and timers are
  interleaved, the process map names exactly the registered children that have not exited: a service
  has at most one such child, no live child is lost, and beside it there is no adopted process.
\<close>
theorem one_live_child:
  assumes "pm_reachable win32 m"
  shows "(\<forall>k. live_child (pk_state m) k c \<longleftrightarrow> pm_processes (pk_state m) c = Some k)
    \<and> \<not> (pm_processes (pk_state m) c \<noteq> None \<and> pm_adopted (pk_state m) c \<noteq> None)"
  using reachable_pm_inv [OF assms] unfolding pm_inv_def by metis

lemma one_live_child_witness:
  "\<exists>m :: pmachine. pm_processes (pk_state m) ''a'' = Some 0 \<and> live_child (pk_state m) 0 ''a'' \<and> \<not> live_child (pk_state m) 1 ''a''
     \<and> pm_adopted (pk_state m) ''a'' = None"
proof -
  obtain m where m: "pm_reachable False m" "pm_processes (pk_state m) ''a'' = Some 0" using run_spawned_state by blast
  note one = one_live_child [OF m(1), of "''a''"]
  show ?thesis
  proof (intro exI [of _ m] conjI)
    show "live_child (pk_state m) 0 ''a''" using one m(2) by simp
    show "\<not> live_child (pk_state m) 1 ''a''" using one m(2) by simp
    show "pm_adopted (pk_state m) ''a'' = None" using one m(2) by simp
  qed (rule m(2))
qed

text \<open>
  C16. A restart timer of the process manager is pending only while restarts are enabled and running is
  desired in the very generation the timer was made for; it restarts its own service, within the
  service's limit of restarts, after at least one and at most thirty seconds.
\<close>
theorem restart_timers_are_current:
  assumes "pm_reachable win32 m" "pm_timers (pk_state m) c = Some t"
  shows "pm_enabled (pk_state m) \<and> pm_desired (pk_state m) c = Some (WantRunning, tm_generation t)
    \<and> sc_code (tm_service t) = c
    \<and> tm_prev t + 1 \<le> (case po_maxRestart (tm_options t) of Some n \<Rightarrow> n | None \<Rightarrow> sc_max_restart (tm_service t))
    \<and> 1000 \<le> tm_delay t \<and> tm_delay t \<le> 30000"
  using pm_invD(4) [OF reachable_pm_inv [OF assms(1)] assms(2)]
  by (simp add: timer_ok_def isCurrentRunningGeneration_def)

lemma restart_timers_are_current_witness:
  "\<exists>(m :: pmachine) t. pm_timers (pk_state m) ''a'' = Some t \<and> pm_enabled (pk_state m)
     \<and> pm_desired (pk_state m) ''a'' = Some (WantRunning, tm_generation t) \<and> tm_delay t = 1000"
proof -
  obtain m t where m: "pm_reachable False m" "pm_timers (pk_state m) ''a'' = Some t" "tm_delay t = 1000"
    using run_crashed_state by blast
  show ?thesis
    by (intro exI [of _ m] exI [of _ t] conjI) (use restart_timers_are_current [OF m(1,2)] m(2,3) in simp_all)
qed

text \<open>
  The managed child of a service was registered in a generation of the desired state that is not
  newer than the current one; as long as no later request changed the desired state, that state is
  running. A spawn that a stop overtook never registers its child.
\<close>
theorem managed_child_was_wanted:
  assumes "pm_reachable win32 m" "pm_processes (pk_state m) c = Some k"
  shows "\<exists>want g. pm_desired (pk_state m) c = Some (want, g) \<and> ch_generation (pm_children (pk_state m) ! k) \<le> g
    \<and> (want = WantRunning \<or> ch_generation (pm_children (pk_state m) ! k) \<noteq> g)"
  using pm_invD(5) [OF reachable_pm_inv [OF assms(1)] assms(2)]
  by (auto simp: started_wanted_def split: option.splits)

lemma managed_child_was_wanted_witness:
  "\<exists>(m :: pmachine) want g. pm_processes (pk_state m) ''a'' = Some 0 \<and> pm_desired (pk_state m) ''a'' = Some (want, g)
     \<and> ch_generation (pm_children (pk_state m) ! 0) \<le> g"
proof -
  obtain m where m: "pm_reachable False m" "pm_processes (pk_state m) ''a'' = Some 0" using run_spawned_state by blast
  from managed_child_was_wanted [OF m] obtain want g where
    "pm_desired (pk_state m) ''a'' = Some (want, g)" "ch_generation (pm_children (pk_state m) ! 0) \<le> g" by metis
  then show ?thesis using m(2) by (intro exI [of _ m] exI [of _ want] exI [of _ g] conjI)
qed

section \<open>The guards of a spawn\<close>



section \<open>Stopping\<close>

text \<open>The functions that end a process leave the desired states and the timers alone.\<close>

interpretation fixed_wishes: async_safety "\<lambda>_. True" "\<lambda>_ _. False"
  "\<lambda>s s'. pm_desired s' = pm_desired s \<and> pm_timers s' = pm_timers s" "\<lambda>_ _ _. True" "\<lambda>_ _. True"
  by unfold_locales auto

lemma never_interrupted [simp]: "fixed_wishes.stable L"
  by (simp add: fixed_wishes.stable_def)

lemma wishes_modify:
  "(\<And>s. pm_desired (f s) = pm_desired s \<and> pm_timers (f s) = pm_timers s) \<Longrightarrow> fixed_wishes.ok (modify f)"
  by (rule fixed_wishes.ok_modify) simp

lemma wishes_result: "fixed_wishes.ok (result r)"
  unfolding fixed_wishes.ok_def by (rule fixed_wishes.triple_result) simp

lemmas wishes = fixed_wishes.ok_rules wishes_result TrueI

lemma wishes_external: "fixed_wishes.ok (external q)"
  unfolding external_def
  by (intro fixed_wishes.ok_bind fixed_wishes.ok_await) (auto split: panswer.split option.split intro: wishes)

lemma wishes_update: "fixed_wishes.ok (update_status c st p e t)"
  unfolding update_status_def updateInstanceStatus_def
  by (intro wishes wishes_modify) (auto simp: insert_row_def set_row_def Let_def split: option.splits)

lemma wishes_treeKill: "fixed_wishes.ok (treeKill p)"
  unfolding treeKill_def await_bool_def signal_tree_def by (intro wishes)

lemma wishes_terminate: "fixed_wishes.ok (terminateManagedProcess c k sig)"
  unfolding terminateManagedProcess_def await_bool_def signal_tree_def by (intro wishes wishes_treeKill)

lemma wishes_stop_spawned: "fixed_wishes.ok (stop_spawned c k sig)"
  unfolding stop_spawned_def
  by (intro wishes wishes_modify wishes_terminate) (auto simp: set_intentional_def)

lemma wishes_drop: "fixed_wishes.ok (modify (drop_adopted c))"
  by (rule wishes_modify) (simp add: drop_adopted_def)

lemma wishes_stop_adopted: "fixed_wishes.ok (stop_adopted_process c a)"
proof -
  have kill: "fixed_wishes.ok (andThen (call PqTurn (treeKill p))
      (andThen (modify (drop_adopted c)) (andThen (update_status c IStopped None (Some 0) None) (ret True))))" for p
    by (intro wishes wishes_drop wishes_treeKill wishes_update)
  have stale: "fixed_wishes.ok (andThen (modify (drop_adopted c))
      (look (\<lambda>w _. let alive = isPidAlive w p in
         andThen (update_status c (if alive then ICrashed else IStopped) None None None)
           (if \<not> alive then ret True else throw (PeStaleAdopted c p)))))" for p
    by (intro wishes wishes_drop wishes_update)
  show ?thesis unfolding stop_adopted_process_def
    by (intro fixed_wishes.ok_bind fixed_wishes.ok_await TrueI)
      (use kill stale in \<open>auto split: panswer.split identity_result.split\<close>)
qed

lemma modify_first: "andThen (modify f) m w s = m w (f s)"
  by (simp add: andThen_def bind_def attempt_def modify_def)

text \<open>
  The first synchronous part of \<open>killService\<close>, before any await, already makes stopped the desired
  state of the service, under a new generation, and cancels its restart timer: no spawn or timer of an
  earlier generation counts as current afterwards.
\<close>
theorem kill_cancels_at_once:
  "pm_timers (fst (killService c sig w s)) c = None
   \<and> \<not> isServiceDesiredRunning c (fst (killService c sig w s))
   \<and> \<not> isCurrentRunningGeneration c g (fst (killService c sig w s))"
proof -
  let ?t = "fst (markServiceStopped c s)"
  define rest where "rest = andThen (case pm_settlements s c of None \<Rightarrow> ret () | Some (_, j) \<Rightarrow> external (PqSettled j))
     (look (\<lambda>_ t. case pm_processes t c of
        Some k \<Rightarrow> stop_spawned c k sig
      | None \<Rightarrow> (case pm_adopted t c of
          Some a \<Rightarrow> stop_adopted_process c a
        | None \<Rightarrow> (case (case pm_settlements s c of None \<Rightarrow> None | Some (_, j) \<Rightarrow> pm_failures t j) of
            Some e \<Rightarrow> throw e
          | None \<Rightarrow> ret (snd (markServiceStopped c s))))))"
  have "fixed_wishes.ok rest" unfolding rest_def
    by (intro wishes wishes_external wishes_stop_spawned wishes_stop_adopted)
  then have "pm_desired (fst (rest w ?t)) = pm_desired ?t \<and> pm_timers (fst (rest w ?t)) = pm_timers ?t"
    using fixed_wishes.waiting_start [OF fixed_wishes.ok_triple TrueI TrueI, of rest w ?t] by (metis prod.collapse)
  moreover have "killService c sig w s = rest w ?t"
    by (simp add: killService_def look_def Let_def modify_first rest_def)
  ultimately show ?thesis
    by (auto simp: markServiceStopped_def updateDesiredState_def Let_def isServiceDesiredRunning_def isCurrentRunningGeneration_def)
qed

section \<open>Commands\<close>

definition plain_word :: "string \<Rightarrow> bool" where
  "plain_word w \<longleftrightarrow> w \<noteq> [] \<and> (\<forall>c \<in> set w. \<not> is_space c \<and> c \<noteq> CHR 0x22)"

lemma tokens_word:
  "(\<forall>c \<in> set w. \<not> is_space c \<and> c \<noteq> CHR 0x22) \<Longrightarrow> command_tokens cur (w @ s) = command_tokens (cur @ w) s"
  by (induction w arbitrary: cur) auto

lemma tokens_join: "ws \<noteq> [] \<Longrightarrow> \<forall>w \<in> set ws. plain_word w \<Longrightarrow> command_tokens [] (join '' '' ws) = ws"
proof (induction ws)
  case (Cons w ws)
  have w: "\<forall>c \<in> set w. \<not> is_space c \<and> c \<noteq> CHR 0x22" "w \<noteq> []" using Cons.prems by (simp_all add: plain_word_def)
  show ?case
  proof (cases ws)
    case Nil
    then show ?thesis using tokens_word [OF w(1), of "[]" "[]"] w(2) by simp
  next
    case (Cons v vs)
    then have "command_tokens [] (join '' '' ws) = ws" using \<open>\<forall>w \<in> set (w # ws). plain_word w\<close> Cons.IH by simp
    moreover have "command_tokens [] (join '' '' (w # ws)) = w # command_tokens [] (join '' '' ws)"
      using tokens_word [OF w(1), of "[]"] w(2) Cons by (simp add: is_space_def)
    ultimately show ?thesis by simp
  qed
qed simp

lemma strip_plain: "plain_word w \<Longrightarrow> strip_quotes w = w"
  by (cases w) (auto simp: strip_quotes_def plain_word_def)

text \<open>
  \<open>splitCommand\<close> is the inverse of joining with spaces, for words without spaces and quotes: a
  catalog command runs the first word with the other words as its arguments.
\<close>
theorem split_command_words:
  assumes "ws \<noteq> []" "\<forall>w \<in> set ws. plain_word w"
  shows "splitCommand (join '' '' ws) = ws \<and> command_parts c (join '' '' ws) = Inr (hd ws, tl ws)"
proof -
  have "map strip_quotes ws = ws" using assms(2) strip_plain by (induction ws) auto
  then have split: "splitCommand (join '' '' ws) = ws"
    using assms(1) by (simp add: splitCommand_def tokens_join [OF assms])
  moreover have "hd ws \<noteq> []" using assms by (cases ws) (auto simp: plain_word_def)
  ultimately show ?thesis using assms(1) by (cases ws) (auto simp: command_parts_def split: list.split)
qed

lemma split_command_words_witness:
  "command_parts ''a'' (join '' '' [''npm'', ''run'', ''dev'']) = Inr (''npm'', [''run'', ''dev''])"
proof -
  have "\<forall>w \<in> set [''npm'', ''run'', ''dev'']. plain_word w" by (simp add: plain_word_def is_space_def)
  from split_command_words [OF _ this, of "''a''"] show ?thesis by simp
qed

end
