(* ===== verification/Catalog_Service.thy ===== *)
theory Catalog_Service imports Process_Manager begin

text \<open>
  A service of the catalog as the launcher and the reconciliation see it: the record of
  \<open>Process_Manager\<close> with the fields these read, the ports a service declares
  (\<open>src/catalog/ports.ts\<close>) and the environment it requires (\<open>src/process/startup-env.ts\<close>).
\<close>

record declared_port =
  dp_role :: string
  dp_port :: nat
  dp_env :: "string option"

record launch_service = service +
  ls_project_code :: "string option"
  ls_uses_corpus :: bool
  ls_depends_on :: "code list"
  ls_disabled :: bool
  ls_component :: "string option"
  ls_frontend_port :: "nat option"
  ls_backend_port :: "nat option"
  ls_ports :: "declared_port list"
  ls_compose_file :: "string option"
  ls_required_env :: "string list"
  ls_autostart :: bool

text \<open>A service without options, for concrete inputs.\<close>

definition plain_service :: "code \<Rightarrow> launch_service" where
  "plain_service c =
     \<lparr>sc_code = c, sc_runtime = ''node'', sc_port = None, sc_start_script = None, sc_exec = None,
      sc_exec_args = None, sc_cwd = None, sc_command = None, sc_restart_policy = RestartNo, sc_max_restart = 5,
      ls_project_code = None, ls_uses_corpus = False, ls_depends_on = [], ls_disabled = False,
      ls_component = None, ls_frontend_port = None, ls_backend_port = None, ls_ports = [], ls_compose_file = None,
      ls_required_env = [], ls_autostart = False\<rparr>"

section \<open>Declared ports\<close>

definition add_port :: "declared_port list \<Rightarrow> string \<Rightarrow> nat option \<Rightarrow> string option \<Rightarrow> declared_port list" where
  "add_port out role port env =
     (case port of
        None \<Rightarrow> out
      | Some n \<Rightarrow> if n \<in> dp_port ` set out then out else out @ [\<lparr>dp_role = role, dp_port = n, dp_env = env\<rparr>])"

definition managedPortsForService :: "launch_service \<Rightarrow> declared_port list" where
  "managedPortsForService svc =
     (let out = add_port [] (case ls_component svc of Some c \<Rightarrow> c | None \<Rightarrow> ''service'') (sc_port svc) None;
          out = add_port out ''frontend'' (ls_frontend_port svc) None;
          out = add_port out ''backend'' (ls_backend_port svc) None
      in foldl (\<lambda>out p. add_port out (dp_role p) (Some (dp_port p)) (dp_env p)) out (ls_ports svc))"

lemma add_port_set:
  "dp_port ` set (add_port out role port env) = dp_port ` set out \<union> set_option port"
  by (auto simp: add_port_def split: option.split)

lemma add_port_distinct: "distinct (map dp_port out) \<Longrightarrow> distinct (map dp_port (add_port out role port env))"
  by (auto simp: add_port_def split: option.split)

lemma fold_ports:
  "distinct (map dp_port out) \<Longrightarrow>
     distinct (map dp_port (foldl (\<lambda>out p. add_port out (dp_role p) (Some (dp_port p)) (dp_env p)) out ps))
     \<and> dp_port ` set (foldl (\<lambda>out p. add_port out (dp_role p) (Some (dp_port p)) (dp_env p)) out ps)
       = dp_port ` set out \<union> dp_port ` set ps"
proof (induction ps arbitrary: out)
  case (Cons p ps)
  then show ?case using Cons.IH [OF add_port_distinct [OF Cons.prems]] by (simp add: add_port_set)
qed simp

lemma managed_ports:
  "distinct (map dp_port (managedPortsForService svc))
   \<and> dp_port ` set (managedPortsForService svc) =
       set_option (sc_port svc) \<union> set_option (ls_frontend_port svc) \<union> set_option (ls_backend_port svc)
       \<union> dp_port ` set (ls_ports svc)"
  unfolding managedPortsForService_def Let_def
  using fold_ports [of "add_port (add_port (add_port [] _ (sc_port svc) None) ''frontend'' (ls_frontend_port svc) None)
      ''backend'' (ls_backend_port svc) None" "ls_ports svc"]
  by (simp add: add_port_distinct add_port_set Un_assoc)

section \<open>The required environment\<close>

fun normalize_keys :: "string list \<Rightarrow> string option list \<Rightarrow> string list" where
  "normalize_keys out [] = out"
| "normalize_keys out (raw # keys) =
     (case truthy_text (map_option js_trim raw) of
        None \<Rightarrow> normalize_keys out keys
      | Some key \<Rightarrow> if key \<in> set out then normalize_keys out keys else normalize_keys (out @ [key]) keys)"

definition normalizeKeys :: "string option list \<Rightarrow> string list" where
  "normalizeKeys keys = normalize_keys [] keys"

text \<open>
  The keys of the catalog entry, of its secret configuration, of required secrets and of the launch
  credentials; the last three are arguments.
\<close>

definition requiredEnvKeysForService :: "string list \<Rightarrow> string list \<Rightarrow> (string \<times> string) option \<Rightarrow> launch_service \<Rightarrow> string list" where
  "requiredEnvKeysForService configured secretKeys credentials svc =
     normalizeKeys (map Some (ls_required_env svc @ configured @ secretKeys
       @ (case credentials of None \<Rightarrow> [] | Some (a, b) \<Rightarrow> [a, b])))"

definition missing_keys :: "string list \<Rightarrow> (string \<Rightarrow> string option) \<Rightarrow> string list" where
  "missing_keys required env = filter (\<lambda>key. case env key of None \<Rightarrow> True | Some v \<Rightarrow> js_trim v = []) required"

definition validateStartupEnv :: "string list \<Rightarrow> (string \<Rightarrow> string option) \<Rightarrow> string list \<times> string list \<times> bool" where
  "validateStartupEnv required env = (required, missing_keys required env, missing_keys required env = [])"

lemma truthy_text_Some: "truthy_text x = Some k \<longleftrightarrow> x = Some k \<and> k \<noteq> []"
  by (auto simp: truthy_text_def split: option.splits list.splits)

lemma normalize_keys_distinct: "distinct out \<Longrightarrow> distinct (normalize_keys out keys)"
  by (induction out keys rule: normalize_keys.induct) (auto split: option.split)

lemma normalize_keys_set:
  "set (normalize_keys out keys) = set out \<union> {k. k \<noteq> [] \<and> (\<exists>raw. Some raw \<in> set keys \<and> js_trim raw = k)}"
proof (induction out keys rule: normalize_keys.induct)
  case (2 out raw keys)
  show ?case
  proof (cases "truthy_text (map_option js_trim raw)")
    case None
    then have "js_trim r = []" if "raw = Some r" for r using that by (auto simp: truthy_text_def split: list.splits)
    then show ?thesis using 2 None by auto
  next
    case (Some key)
    then obtain r where "raw = Some r" "js_trim r = key" "key \<noteq> []"
      unfolding truthy_text_Some by (cases raw) auto
    then show ?thesis using 2 Some by auto
  qed
qed simp

end
