(* ===== verification/Launch_Order.thy ===== *)
theory Launch_Order imports Catalog_Service "HOL-Library.Multiset" begin

text \<open>
  The order in which selected services start and stop (\<open>src/launch/order.ts\<close>): the selection is
  closed under dependencies by a depth-first search, and the services are grouped by tier. A project
  whose name is an inherited property of a JavaScript object (such as \<open>constructor\<close>) is not
  considered.
\<close>

section \<open>Tiers\<close>

text \<open>
  Project codes are not names of properties every JavaScript object inherits (\<open>constructor\<close> and the
  like), for which the lookup in the object \<open>TIER_BY_PROJECT\<close> would not give \<open>undefined\<close>.
\<close>

definition TIER_BY_PROJECT :: "(string \<times> nat) list" where
  "TIER_BY_PROJECT = [(''infra'', 0), (''cernere'', 1), (''corpus'', 2)]"

definition startTier :: "launch_service \<Rightarrow> nat" where
  "startTier svc =
     (let key = (case ls_project_code svc of Some p \<Rightarrow> p | None \<Rightarrow> sc_code svc)
      in case map_of TIER_BY_PROJECT key of
           Some t \<Rightarrow> t
         | None \<Rightarrow> if ls_uses_corpus svc then 3 else 5)"

section \<open>Dependencies\<close>

text \<open>\<open>new Map(services.map(...))\<close>: of two entries with one code the later counts.\<close>

definition dependencies :: "launch_service list \<Rightarrow> code \<Rightarrow> code list" where
  "dependencies services c =
     (case map_of (rev (map (\<lambda>s. (sc_code s, s)) services)) c of None \<Rightarrow> [] | Some s \<Rightarrow> ls_depends_on s)"

lemma dependencies_known: "dependencies services c \<noteq> [] \<Longrightarrow> c \<in> sc_code ` set services"
  by (auto simp: dependencies_def split: option.splits dest!: map_of_SomeD)

definition unvisited :: "launch_service list \<Rightarrow> code list \<Rightarrow> nat" where
  "unvisited services visiting = card (sc_code ` set services - set visiting)"

definition visit_measure :: "(launch_service list \<times> code list \<times> code list \<times> code)
    + (launch_service list \<times> code list \<times> code list \<times> code list) \<Rightarrow> nat \<times> nat" where
  "visit_measure x = (case x of
       Inl (services, visiting, _, _) \<Rightarrow> (unvisited services visiting, 1)
     | Inr (services, visiting, _, cs) \<Rightarrow> (unvisited services visiting, 2 * length cs))"

lemma unvisited_le: "unvisited services (c # visiting) \<le> unvisited services visiting"
  unfolding unvisited_def by (rule card_mono) auto

lemma unvisited_less:
  assumes "c \<in> sc_code ` set services" "c \<notin> set visiting"
  shows "unvisited services (c # visiting) < unvisited services visiting"
  unfolding unvisited_def by (rule psubset_card_mono) (use assms in auto)

text \<open>\<open>out\<close> holds the seen codes in order; \<open>visiting\<close> the codes on the path to the current one.\<close>

function visit :: "launch_service list \<Rightarrow> code list \<Rightarrow> code list \<Rightarrow> code \<Rightarrow> code list"
    and visit_all :: "launch_service list \<Rightarrow> code list \<Rightarrow> code list \<Rightarrow> code list \<Rightarrow> code list" where
  "visit services visiting out c =
     (if c \<in> set out \<or> c \<in> set visiting then out
      else visit_all services (c # visiting) out (dependencies services c) @ [c])"
| "visit_all services visiting out [] = out"
| "visit_all services visiting out (c # cs) = visit_all services visiting (visit services visiting out c) cs"
  by pat_completeness auto

termination
proof (relation "inv_image (less_than <*lex*> less_than) visit_measure")
  fix services :: "launch_service list" and visiting out :: "code list" and c :: code
  assume new: "\<not> (c \<in> set out \<or> c \<in> set visiting)"
  show "(Inr (services, c # visiting, out, dependencies services c), Inl (services, visiting, out, c))
      \<in> inv_image (less_than <*lex*> less_than) visit_measure"
  proof (cases "dependencies services c = []")
    case True
    then show ?thesis using unvisited_le [of services c visiting] by (auto simp: visit_measure_def)
  next
    case False
    then show ?thesis using unvisited_less [OF dependencies_known [OF False]] new by (simp add: visit_measure_def)
  qed
qed (auto simp: visit_measure_def)

declare visit.simps [simp del]

definition expandWithDependencies :: "launch_service list \<Rightarrow> code list \<Rightarrow> code list" where
  "expandWithDependencies services codes = visit_all services [] [] codes"

text \<open>
  What a visit keeps and adds: no duplicates, no code of the current path, everything asked for, and
  every dependency of an added code stands before it, unless it depends on that code in turn.
\<close>

definition requires :: "launch_service list \<Rightarrow> (code \<times> code) set" where
  "requires services = {(a, b). b \<in> set (dependencies services a)}"

definition placed :: "launch_service list \<Rightarrow> code list \<Rightarrow> code list \<Rightarrow> bool" where
  "placed services visiting out \<longleftrightarrow> distinct out \<and> set out \<inter> set visiting = {}
     \<and> (\<forall>xs x ys d. out = xs @ x # ys \<longrightarrow> d \<in> set (dependencies services x) \<longrightarrow>
          d \<in> set xs \<or> (d \<in> set visiting \<union> set out \<and> (d, x) \<in> (requires services)\<^sup>*))"

text \<open>Every code of the path leads to the code being visited.\<close>

definition leads_to :: "launch_service list \<Rightarrow> code list \<Rightarrow> code \<Rightarrow> bool" where
  "leads_to services visiting c \<longleftrightarrow> (\<forall>v \<in> set visiting. (v, c) \<in> (requires services)\<^sup>*)"

lemma append_split:
  assumes "out @ [c] = xs @ x # ys"
  obtains (last) "ys = []" "xs = out" "x = c" | (inner) zs where "ys = zs @ [c]" "out = xs @ x # zs"
proof (cases ys rule: rev_cases)
  case Nil
  then show ?thesis using assms last by simp
next
  case (snoc zs z)
  then have "out @ [c] = (xs @ x # zs) @ [z]" using assms by simp
  then have "out = xs @ x # zs" "z = c" by simp_all
  then show ?thesis using snoc inner by simp
qed

lemma placed_add:
  assumes p: "placed services (c # visiting) out" and new: "c \<notin> set visiting"
    and deps: "set (dependencies services c) \<subseteq> set out \<union> set (c # visiting)"
    and path: "leads_to services visiting c"
  shows "placed services visiting (out @ [c])"
proof -
  have "d \<in> set xs \<or> (d \<in> set visiting \<union> set (out @ [c]) \<and> (d, x) \<in> (requires services)\<^sup>*)"
    if eq: "out @ [c] = xs @ x # ys" and d: "d \<in> set (dependencies services x)" for xs x ys d
  proof -
    from eq show ?thesis
    proof (cases rule: append_split)
      case last
      then show ?thesis using d deps path by (auto simp: leads_to_def)
    next
      case inner
      then have "d \<in> set xs \<or> (d \<in> set (c # visiting) \<union> set out \<and> (d, x) \<in> (requires services)\<^sup>*)"
        using p d unfolding placed_def by blast
      then show ?thesis by auto
    qed
  qed
  moreover have "c \<notin> set out" using p by (auto simp: placed_def)
  ultimately show ?thesis using p new unfolding placed_def by auto
qed

lemma placed_deeper:
  assumes p: "placed services visiting out" and new: "c \<notin> set out"
  shows "placed services (c # visiting) out"
  unfolding placed_def
proof (intro conjI allI impI)
  show "distinct out" "set out \<inter> set (c # visiting) = {}" using p new by (auto simp: placed_def)
  fix xs x ys d assume "out = xs @ x # ys" "d \<in> set (dependencies services x)"
  then have "d \<in> set xs \<or> (d \<in> set visiting \<union> set out \<and> (d, x) \<in> (requires services)\<^sup>*)"
    using p unfolding placed_def by blast
  then show "d \<in> set xs \<or> (d \<in> set (c # visiting) \<union> set out \<and> (d, x) \<in> (requires services)\<^sup>*)" by auto
qed

lemma visit_places:
  "placed services visiting out \<Longrightarrow> leads_to services visiting c \<Longrightarrow>
     placed services visiting (visit services visiting out c)
     \<and> (\<exists>new. visit services visiting out c = out @ new) \<and> c \<in> set (visit services visiting out c) \<union> set visiting"
  "placed services visiting out \<Longrightarrow> \<forall>c \<in> set cs. leads_to services visiting c \<Longrightarrow>
     placed services visiting (visit_all services visiting out cs)
     \<and> (\<exists>new. visit_all services visiting out cs = out @ new)
     \<and> set cs \<subseteq> set (visit_all services visiting out cs) \<union> set visiting"
proof (induction services visiting out c and services visiting out cs rule: visit_visit_all.induct)
  case (1 services visiting out c)
  show ?case
  proof (cases "c \<in> set out \<or> c \<in> set visiting")
    case True
    then show ?thesis using "1.prems" by (auto simp: visit.simps)
  next
    case False
    let ?r = "visit_all services (c # visiting) out (dependencies services c)"
    have "placed services (c # visiting) out" using "1.prems"(1) False by (intro placed_deeper) simp_all
    moreover have "leads_to services (c # visiting) d" if "d \<in> set (dependencies services c)" for d
    proof -
      have "(c, d) \<in> requires services" using that by (simp add: requires_def)
      then show ?thesis using "1.prems"(2) unfolding leads_to_def by (auto intro: rtrancl_into_rtrancl)
    qed
    ultimately have r: "placed services (c # visiting) ?r \<and> (\<exists>new. ?r = out @ new)
        \<and> set (dependencies services c) \<subseteq> set ?r \<union> set (c # visiting)"
      using "1.IH" [OF False] by blast
    have "placed services visiting (?r @ [c])" by (rule placed_add) (use r False "1.prems"(2) in auto)
    then show ?thesis using False r by (auto simp: visit.simps)
  qed
next
  case (2 services visiting out)
  then show ?case by simp
next
  case (3 services visiting out c cs)
  have a: "placed services visiting (visit services visiting out c)"
      "\<exists>new. visit services visiting out c = out @ new" "c \<in> set (visit services visiting out c) \<union> set visiting"
    using "3.IH"(1) "3.prems" by simp_all
  have b: "placed services visiting (visit_all services visiting (visit services visiting out c) cs)
     \<and> (\<exists>new. visit_all services visiting (visit services visiting out c) cs = visit services visiting out c @ new)
     \<and> set cs \<subseteq> set (visit_all services visiting (visit services visiting out c) cs) \<union> set visiting"
    using "3.IH"(2) [OF a(1)] "3.prems"(2) by simp
  then show ?case using a by auto
qed

text \<open>
  C28. The expansion of a selection contains every selected service and, with a service, all its
  dependencies, each once. A dependency stands before the service that needs it, unless it needs that
  service in turn; the search ends on cyclic catalogs too.
\<close>
theorem dependencies_come_first:
  "distinct (expandWithDependencies services codes)
   \<and> set codes \<subseteq> set (expandWithDependencies services codes)
   \<and> (expandWithDependencies services codes = xs @ c # ys \<longrightarrow> d \<in> set (dependencies services c) \<longrightarrow>
        d \<in> set xs \<or> (d \<in> set (c # ys) \<and> (d, c) \<in> (requires services)\<^sup>*))"
proof -
  have "placed services [] []" by (simp add: placed_def)
  then have p: "placed services [] (expandWithDependencies services codes)"
      "set codes \<subseteq> set (expandWithDependencies services codes)"
    using visit_places(2) [of services "[]" "[]" codes] by (simp_all add: leads_to_def expandWithDependencies_def)
  have "d \<in> set xs \<or> (d \<in> set (c # ys) \<and> (d, c) \<in> (requires services)\<^sup>*)"
    if eq: "expandWithDependencies services codes = xs @ c # ys" and d: "d \<in> set (dependencies services c)"
  proof -
    have "d \<in> set xs \<or> (d \<in> set [] \<union> set (xs @ c # ys) \<and> (d, c) \<in> (requires services)\<^sup>*)"
      using p(1) eq d unfolding placed_def by metis
    then show ?thesis by auto
  qed
  then show ?thesis using p unfolding placed_def by blast
qed

section \<open>Start and stop order\<close>

text \<open>\<open>codeOrder.get(code) ?? 0\<close>: the last position of a code in the selection.\<close>

definition code_index :: "code list \<Rightarrow> code \<Rightarrow> nat" where
  "code_index codes c = (case map_of (rev (zip codes [0..<length codes])) c of None \<Rightarrow> 0 | Some i \<Rightarrow> i)"

fun add_bucket :: "nat \<Rightarrow> launch_service \<Rightarrow> (nat \<times> launch_service list) list \<Rightarrow> (nat \<times> launch_service list) list" where
  "add_bucket t s [] = [(t, [s])]"
| "add_bucket t s ((u, ss) # bs) = (if u = t then (u, ss @ [s]) # bs else (u, ss) # add_bucket t s bs)"

definition tier_buckets :: "launch_service list \<Rightarrow> (nat \<times> launch_service list) list" where
  "tier_buckets services = foldl (\<lambda>bs s. add_bucket (startTier s) s bs) [] services"

definition orderForStart :: "launch_service list \<Rightarrow> code list \<Rightarrow> (nat \<times> launch_service list) list" where
  "orderForStart services codes =
     map (\<lambda>(tier, svcs). (tier, sort_key (\<lambda>s. code_index codes (sc_code s)) svcs))
       (sort_key fst (tier_buckets (filter (\<lambda>s. sc_code s \<in> set codes) services)))"

definition orderForStop :: "launch_service list \<Rightarrow> code list \<Rightarrow> launch_service list" where
  "orderForStop services codes = concat (map snd (rev (orderForStart services codes)))"

text \<open>The buckets are the tiers that occur, each with its services in the order of the catalog.\<close>

definition is_buckets :: "launch_service list \<Rightarrow> (nat \<times> launch_service list) list \<Rightarrow> bool" where
  "is_buckets xs bs \<longleftrightarrow> distinct (map fst bs) \<and> fst ` set bs = startTier ` set xs
     \<and> (\<forall>(t, ss) \<in> set bs. ss = filter (\<lambda>s. startTier s = t) xs)"

lemma add_bucket_tiers: "fst ` set (add_bucket t s bs) = insert t (fst ` set bs)"
proof (induction bs)
  case (Cons b bs)
  then show ?case by (cases b) auto
qed simp

lemma add_bucket_distinct: "distinct (map fst bs) \<Longrightarrow> distinct (map fst (add_bucket t s bs))"
proof (induction bs)
  case (Cons b bs)
  obtain u ss where b: "b = (u, ss)" by (cases b)
  have "u \<notin> fst ` set (add_bucket t s bs)" if "u \<noteq> t" using Cons.prems that by (auto simp: b add_bucket_tiers)
  then show ?case using Cons by (auto simp: b)
qed simp

lemma add_bucket_elem:
  "distinct (map fst bs) \<Longrightarrow> (u, ss) \<in> set (add_bucket t s bs) \<Longrightarrow>
     (u \<noteq> t \<and> (u, ss) \<in> set bs) \<or> (u = t \<and> (\<exists>ts. (t, ts) \<in> set bs \<and> ss = ts @ [s]))
     \<or> (u = t \<and> t \<notin> fst ` set bs \<and> ss = [s])"
proof (induction bs)
  case (Cons b bs)
  then show ?case by (cases b) (auto split: if_splits simp: image_iff)
qed auto

lemma filter_none: "\<forall>x \<in> set xs. \<not> P x \<Longrightarrow> filter P xs = []"
  by simp

lemma is_buckets_add:
  assumes "is_buckets xs bs"
  shows "is_buckets (xs @ [s]) (add_bucket (startTier s) s bs)"
proof -
  have "ss = filter (\<lambda>x. startTier x = u) (xs @ [s])" if e: "(u, ss) \<in> set (add_bucket (startTier s) s bs)" for u ss
  proof -
    have d: "distinct (map fst bs)" and t: "fst ` set bs = startTier ` set xs"
      and f: "\<And>u ss. (u, ss) \<in> set bs \<Longrightarrow> ss = filter (\<lambda>x. startTier x = u) xs"
      using assms by (auto simp: is_buckets_def)
    consider "u \<noteq> startTier s" "(u, ss) \<in> set bs" | ts where "u = startTier s" "(startTier s, ts) \<in> set bs" "ss = ts @ [s]"
      | "u = startTier s" "startTier s \<notin> fst ` set bs" "ss = [s]"
      using add_bucket_elem [OF d e] by blast
    then show ?thesis
    proof cases
      case 1
      then show ?thesis using f [OF 1(2)] by simp
    next
      case 2
      then show ?thesis using f [OF 2(2)] by simp
    next
      case 3
      then have "\<forall>x \<in> set xs. startTier x \<noteq> u" using t by (metis imageI)
      then have "filter (\<lambda>x. startTier x = u) xs = []" by simp
      then show ?thesis using 3 by simp
    qed
  qed
  then show ?thesis using assms by (auto simp: is_buckets_def add_bucket_tiers add_bucket_distinct)
qed

lemma tier_buckets_ok: "is_buckets xs (tier_buckets xs)"
proof (induction xs rule: rev_induct)
  case Nil
  then show ?case by (simp add: is_buckets_def tier_buckets_def)
next
  case (snoc s xs)
  then show ?case using is_buckets_add [OF snoc] by (simp add: tier_buckets_def)
qed

lemma filter_tier_bucket:
  assumes "distinct (map fst cs)" "\<forall>(t, ss) \<in> set cs. ss = filter (\<lambda>s. startTier s = t) xs"
  shows "filter (\<lambda>s. startTier s = k) (concat (map snd cs)) =
    (if k \<in> fst ` set cs then filter (\<lambda>s. startTier s = k) xs else [])"
  using assms
proof (induction cs)
  case (Cons b cs)
  obtain t ss where b: "b = (t, ss)" by (cases b)
  have ss: "ss = filter (\<lambda>s. startTier s = t) xs" using Cons.prems(2) by (simp add: b)
  have "filter (\<lambda>s. startTier s = k) ss = (if k = t then filter (\<lambda>s. startTier s = k) xs else [])"
    unfolding ss by (simp add: filter_empty_conv)
  moreover have "t \<notin> fst ` set cs" using Cons.prems(1) by (auto simp: b)
  ultimately show ?case using Cons by (auto simp: b)
qed simp

lemma sorted_tier_buckets:
  assumes "sorted (map fst cs)" "\<forall>(t, ss) \<in> set cs. \<forall>s \<in> set ss. startTier s = t"
  shows "sorted (map startTier (concat (map snd cs)))"
  using assms
proof (induction cs)
  case (Cons b cs)
  obtain t ss where b: "b = (t, ss)" by (cases b)
  have tier: "startTier s = t" if "s \<in> set ss" for s using Cons.prems(2) that by (simp add: b)
  then have "map startTier ss = replicate (length ss) t" by (induction ss) auto
  then have "sorted (map startTier ss)" by simp
  moreover have "t \<le> startTier s" if "s \<in> set (concat (map snd cs))" for s
  proof -
    from that obtain u us where "(u, us) \<in> set cs" "s \<in> set us" by (auto simp: image_iff)
    then show ?thesis using Cons.prems by (fastforce simp: b)
  qed
  ultimately show ?case using Cons tier by (auto simp: b sorted_append)
qed simp

lemma sorted_buckets_sort:
  assumes b: "is_buckets xs cs" and sorted: "sorted (map fst cs)"
  shows "concat (map snd cs) = sort_key startTier xs"
proof (rule sym, rule properties_for_sort_key)
  have d: "distinct (map fst cs)" and t: "fst ` set cs = startTier ` set xs"
    and e: "\<forall>(t, ss) \<in> set cs. ss = filter (\<lambda>s. startTier s = t) xs"
    using b by (simp_all add: is_buckets_def)
  have f: "filter (\<lambda>s. startTier s = k) (concat (map snd cs)) = filter (\<lambda>s. startTier s = k) xs" for k
  proof (cases "k \<in> startTier ` set xs")
    case False
    then have "\<forall>x \<in> set xs. startTier x \<noteq> k" by blast
    then have "filter (\<lambda>s. startTier s = k) xs = []" by simp
    then show ?thesis using filter_tier_bucket [OF d e, of k] False t by simp
  qed (use filter_tier_bucket [OF d e, of k] t in simp)
  show "mset (concat (map snd cs)) = mset xs"
  proof (rule multiset_eqI)
    fix x
    have "count (mset ys) x = count (mset (filter (\<lambda>s. startTier s = startTier x) ys)) x" for ys
      by (simp add: mset_filter)
    then show "count (mset (concat (map snd cs))) x = count (mset xs) x" using f by metis
  qed
  show "filter (\<lambda>x. startTier k = startTier x) (concat (map snd cs)) = filter (\<lambda>x. startTier k = startTier x) xs" for k
    using f [of "startTier k"] by (simp add: eq_commute)
  show "sorted (map startTier (concat (map snd cs)))"
    by (rule sorted_tier_buckets [OF sorted]) (use e in auto)
qed

lemma orderForStart_buckets:
  "is_buckets (sort_key (\<lambda>s. code_index codes (sc_code s)) (filter (\<lambda>s. sc_code s \<in> set codes) services))
     (orderForStart services codes)"
proof -
  let ?i = "\<lambda>s. code_index codes (sc_code s)" and ?xs = "filter (\<lambda>s. sc_code s \<in> set codes) services"
  have b: "is_buckets ?xs (tier_buckets ?xs)" by (rule tier_buckets_ok)
  have fst: "map fst (orderForStart services codes) = map fst (sort_key fst (tier_buckets ?xs))"
    by (simp add: orderForStart_def split_beta)
  have "set (orderForStart services codes) = (\<lambda>(t, ss). (t, sort_key ?i ss)) ` set (tier_buckets ?xs)"
    by (simp add: orderForStart_def)
  moreover have "fst ` set (orderForStart services codes) = fst ` set (tier_buckets ?xs)"
    using arg_cong [OF fst, of set] by simp
  moreover have "distinct (map fst (sort_key fst (tier_buckets ?xs)))"
    using b by (simp add: is_buckets_def distinct_map)
  ultimately show ?thesis using b by (auto simp: is_buckets_def fst filter_sort)
qed

lemma orderForStart_sorted: "sorted (map fst (orderForStart services codes))"
proof -
  have "map fst (orderForStart services codes)
      = map fst (sort_key fst (tier_buckets (filter (\<lambda>s. sc_code s \<in> set codes) services)))"
    by (simp add: orderForStart_def split_beta)
  then show ?thesis by simp
qed

text \<open>
  The start order groups as a stable sort would: flattened, it is the selected services of the
  catalog sorted by their place in the selection and then, stably, by tier; the tiers strictly ascend.
\<close>
theorem start_order_is_stable_sort:
  "concat (map snd (orderForStart services codes))
     = sort_key startTier (sort_key (\<lambda>s. code_index codes (sc_code s)) (filter (\<lambda>s. sc_code s \<in> set codes) services))
   \<and> sorted_wrt (<) (map fst (orderForStart services codes))"
  using sorted_buckets_sort [OF orderForStart_buckets orderForStart_sorted, of services codes]
    orderForStart_buckets [of codes services] orderForStart_sorted [of services codes]
  by (simp add: strict_sorted_iff is_buckets_def)

definition example_pair :: "launch_service list" where
  "example_pair = [plain_service ''b'', (plain_service ''a'')\<lparr>ls_depends_on := [''b'']\<rparr>]"

lemma dependencies_come_first_witness:
  "expandWithDependencies example_pair [''a''] = [''b''] @ ''a'' # [] \<and> ''b'' \<in> set (dependencies example_pair ''a'')
   \<and> distinct (expandWithDependencies example_pair [''a''])
   \<and> (''b'' \<in> set [''b''] \<or> ''b'' \<in> set [''a''] \<and> (''b'', ''a'') \<in> (requires example_pair)\<^sup>*)"
proof -
  have "expandWithDependencies example_pair [''a''] = [''b''] @ ''a'' # []" by code_simp
  moreover have "''b'' \<in> set (dependencies example_pair ''a'')" by code_simp
  ultimately show ?thesis using dependencies_come_first [of example_pair "[''a'']" "[''b'']" "''a''" "[]" "''b''"] by blast
qed

text \<open>
  Stopping goes through the tiers downwards, but inside a tier in the order of the start: the
  dependency \<open>b\<close> of \<open>a\<close>, both in one tier, is started first and stopped first.
\<close>
theorem stop_reverses_tiers_only:
  "orderForStop services codes = concat (map snd (rev (orderForStart services codes)))
   \<and> mset (orderForStop services codes) = mset (filter (\<lambda>s. sc_code s \<in> set codes) services)
   \<and> map sc_code (concat (map snd (orderForStart example_pair (expandWithDependencies example_pair [''a''])))) = [''b'', ''a'']
   \<and> map sc_code (orderForStop example_pair (expandWithDependencies example_pair [''a''])) = [''b'', ''a'']
   \<and> ''b'' \<in> set (dependencies example_pair ''a'')"
proof -
  have "mset (concat (map snd (rev cs))) = mset (concat (map snd cs))" for cs :: "(nat \<times> launch_service list) list"
    by (induction cs) (simp_all add: union_commute)
  then have "mset (orderForStop services codes) = mset (filter (\<lambda>s. sc_code s \<in> set codes) services)"
    using sorted_buckets_sort [OF orderForStart_buckets orderForStart_sorted, of services codes]
    by (simp add: orderForStop_def)
  moreover have "map sc_code (concat (map snd (orderForStart example_pair (expandWithDependencies example_pair [''a''])))) = [''b'', ''a'']"
    by code_simp
  moreover have "map sc_code (orderForStop example_pair (expandWithDependencies example_pair [''a''])) = [''b'', ''a'']"
    by code_simp
  moreover have "''b'' \<in> set (dependencies example_pair ''a'')" by code_simp
  ultimately show ?thesis by (simp add: orderForStop_def)
qed

end
