(* ===== verification/Launch_Start.thy ===== *)
theory Launch_Start imports Launch_Order Async begin

text \<open>
  The launcher (\<open>src/launch/orchestrator.ts\<close>) with the checks before a start
  (\<open>src/launch/preflight.ts\<close>) and the rule that adds Corpus (\<open>src/launch/corpus-prefs.ts\<close>). The file
  system, the listeners and the resolution of the Vault environment are arguments of the preflight.
\<close>

section \<open>Corpus\<close>

definition CORPUS_CODE :: code where "CORPUS_CODE = ''corpus''"

definition effectiveUsesCorpus :: "launch_service \<Rightarrow> (code \<Rightarrow> bool option) \<Rightarrow> bool" where
  "effectiveUsesCorpus svc prefs = (case prefs (sc_code svc) of Some b \<Rightarrow> b | None \<Rightarrow> ls_uses_corpus svc)"

definition withCorpusIfNeeded :: "(code \<Rightarrow> bool option) \<Rightarrow> launch_service list \<Rightarrow> code list \<Rightarrow> code list" where
  "withCorpusIfNeeded prefs services selection =
     (if \<not> (\<exists>s \<in> set services. sc_code s \<in> set selection \<and> effectiveUsesCorpus s prefs) then selection
      else if \<not> (\<exists>s \<in> set services. sc_code s = CORPUS_CODE) \<or> CORPUS_CODE \<in> set selection then selection
      else CORPUS_CODE # selection)"

section \<open>Preflight\<close>

datatype check_status = CheckOk | CheckWarn | CheckFail
datatype check_kind = KindCwd | KindCompose | KindVault | KindEnv | KindScript | KindPort | KindDisabled

type_synonym check = "check_kind \<times> check_status"

definition needsWorkingDirectory :: "string \<Rightarrow> bool" where
  "needsWorkingDirectory runtime \<longleftrightarrow> isLocalProcessRuntime runtime \<and> runtime \<noteq> ''app''"

definition checkPaths :: "(string \<Rightarrow> bool) \<Rightarrow> launch_service \<Rightarrow> check list" where
  "checkPaths exists svc =
     (if needsWorkingDirectory (sc_runtime svc) then
        (case truthy_text (sc_start_script svc) of
           None \<Rightarrow> []
         | Some p \<Rightarrow> [(KindScript, if exists p then CheckOk else CheckFail)])
        @ (case (truthy_text (sc_cwd svc), truthy_text (sc_start_script svc)) of
             (None, None) \<Rightarrow> [(KindCwd, CheckFail)]
           | (None, Some _) \<Rightarrow> []
           | (Some p, _) \<Rightarrow> [(KindCwd, if exists p then CheckOk else CheckFail)])
      else [])
     @ (if sc_runtime svc = ''docker-compose'' then
          (case truthy_text (ls_compose_file svc) of
             None \<Rightarrow> [(KindCompose, CheckFail)]
           | Some p \<Rightarrow> [(KindCompose, if exists p then CheckOk else CheckFail)])
        else [])"

text \<open>The Vault answer: the environment, or a failure.\<close>

definition checkVaultEnv :: "string list \<Rightarrow> (string \<Rightarrow> string option) option \<Rightarrow> check list" where
  "checkVaultEnv required vault =
     (case vault of
        None \<Rightarrow> [(KindVault, CheckFail)]
      | Some env \<Rightarrow> [(KindVault, CheckOk),
          (KindEnv, if snd (snd (validateStartupEnv required env)) then CheckOk else CheckFail)])"

definition checkPorts :: "nat list \<Rightarrow> launch_service \<Rightarrow> check list" where
  "checkPorts listening svc =
     map (\<lambda>p. (KindPort, if dp_port p \<in> set listening then CheckWarn else CheckOk)) (managedPortsForService svc)"

record preflight_env =
  pf_exists :: "string \<Rightarrow> bool"
  pf_listening :: "nat list"
  pf_required :: "launch_service \<Rightarrow> string list"
  pf_vault :: "launch_service \<Rightarrow> (string \<Rightarrow> string option) option"

definition service_checks :: "preflight_env \<Rightarrow> launch_service \<Rightarrow> check list" where
  "service_checks e svc =
     checkPaths (pf_exists e) svc @ (if ls_disabled svc then [(KindDisabled, CheckFail)] else [])
     @ checkVaultEnv (pf_required e svc) (pf_vault e svc) @ checkPorts (pf_listening e) svc"

definition service_ready :: "preflight_env \<Rightarrow> launch_service \<Rightarrow> bool" where
  "service_ready e svc \<longleftrightarrow> \<not> (\<exists>c \<in> set (service_checks e svc). snd c = CheckFail)"

definition runPreflight :: "preflight_env \<Rightarrow> launch_service list \<Rightarrow> code list \<Rightarrow> (code \<times> bool) list" where
  "runPreflight e services codes =
     map (\<lambda>s. (sc_code s, service_ready e s)) (filter (\<lambda>s. sc_code s \<in> set codes) services)"

text \<open>A taken port only warns: it never keeps a service from being ready.\<close>

lemma ports_never_fail: "(k, CheckFail) \<notin> set (checkPorts listening svc)"
  by (auto simp: checkPorts_def split: if_splits)

lemma disabled_never_ready: "ls_disabled svc \<Longrightarrow> \<not> service_ready e svc"
  by (auto simp: service_ready_def service_checks_def)

section \<open>Starting a selection\<close>

record launch_item =
  lr_code :: code
  lr_ok :: bool
  lr_skipped :: bool
  lr_message :: string

record control_result =
  cr_ok :: bool
  cr_stdout :: string
  cr_stderr :: string

datatype launch_query = LqPreflight "code list" | LqControl launch_service | LqDelay
datatype launch_answer =
    LaReport "string + (code \<times> bool) list"
  | LaControl "string + control_result"
  | LaDone

record launch_world =
  lw_stop :: bool
  lw_prefs :: "string + (code \<Rightarrow> bool option)"

type_synonym 'r lact = "(launch_item list, launch_world, launch_query, launch_answer, string, 'r) async"

definition push_result :: "code \<Rightarrow> bool \<Rightarrow> bool \<Rightarrow> string \<Rightarrow> unit lact" where
  "push_result c okay skipped message =
     modify (\<lambda>rs. rs @ [\<lparr>lr_code = c, lr_ok = okay, lr_skipped = skipped, lr_message = message\<rparr>])"

text \<open>One service; the result says whether the launch goes on.\<close>

definition start_one :: "code list \<Rightarrow> launch_service \<Rightarrow> bool lact" where
  "start_one notReady svc =
     (if ls_disabled svc then andThen (push_result (sc_code svc) False True ''disabled in catalog'') (ret True)
      else if sc_code svc \<in> set notReady then andThen (push_result (sc_code svc) False True ''preflight not ready'') (ret True)
      else bind (await (LqControl svc)) (\<lambda>a. case a of
        LaControl (Inr r) \<Rightarrow>
          andThen (push_result (sc_code svc) (cr_ok r) False (if cr_ok r then cr_stdout r else cr_stderr r))
            (look (\<lambda>w _. ret (\<not> lw_stop w)))
      | LaControl (Inl e) \<Rightarrow> andThen (push_result (sc_code svc) False False e) (ret True)
      | _ \<Rightarrow> andThen (push_result (sc_code svc) False False ''no answer'') (ret True)))"

fun start_services :: "code list \<Rightarrow> launch_service list \<Rightarrow> bool lact" where
  "start_services notReady [] = ret True"
| "start_services notReady (svc # svcs) = look (\<lambda>w _.
     if lw_stop w then ret False
     else bind (start_one notReady svc) (\<lambda>go. if go then start_services notReady svcs else ret False))"

fun start_tiers :: "code list \<Rightarrow> (nat \<times> launch_service list) list \<Rightarrow> unit lact" where
  "start_tiers notReady [] = ret ()"
| "start_tiers notReady (t # ts) = look (\<lambda>w _.
     if lw_stop w then ret ()
     else bind (start_services notReady (snd t)) (\<lambda>go.
       if \<not> go then ret ()
       else look (\<lambda>w2 _.
         andThen (if ts \<noteq> [] \<and> \<not> lw_stop w2 then bind (await LqDelay) (\<lambda>_. ret ()) else ret ())
           (start_tiers notReady ts))))"

definition launch_selection :: "(code \<Rightarrow> bool option) \<Rightarrow> launch_service list \<Rightarrow> code list \<Rightarrow> code list" where
  "launch_selection prefs services codes = withCorpusIfNeeded prefs services (expandWithDependencies services codes)"

definition not_ready :: "bool \<Rightarrow> (code \<times> bool) list \<Rightarrow> code list" where
  "not_ready skipNotReady report = (if skipNotReady then map fst (filter (\<lambda>r. \<not> snd r) report) else [])"

definition startSelection :: "bool \<Rightarrow> launch_service list \<Rightarrow> code list \<Rightarrow> unit lact" where
  "startSelection skipNotReady services codes = look (\<lambda>w _.
     case lw_prefs w of
       Inl e \<Rightarrow> throw e
     | Inr prefs \<Rightarrow>
         bind (await (LqPreflight (launch_selection prefs services codes))) (\<lambda>a. case a of
           LaReport (Inr report) \<Rightarrow>
             start_tiers (not_ready skipNotReady report)
               (orderForStart services (launch_selection prefs services codes))
         | LaReport (Inl e) \<Rightarrow> throw e
         | _ \<Rightarrow> throw ''no answer''))"

text \<open>Stopping a selection, one service after the other; a failure never ends it.\<close>

fun stop_services :: "launch_service list \<Rightarrow> unit lact" where
  "stop_services [] = ret ()"
| "stop_services (svc # svcs) =
     andThen (bind (await (LqControl svc)) (\<lambda>a. case a of
         LaControl (Inr r) \<Rightarrow> push_result (sc_code svc) (cr_ok r) False (if cr_ok r then cr_stdout r else cr_stderr r)
       | LaControl (Inl e) \<Rightarrow> push_result (sc_code svc) False False e
       | _ \<Rightarrow> push_result (sc_code svc) False False ''no answer''))
       (stop_services svcs)"

definition stopSelection :: "launch_service list \<Rightarrow> code list \<Rightarrow> unit lact" where
  "stopSelection services codes = stop_services (orderForStop services codes)"

section \<open>The order is kept\<close>

text \<open>The services in start order; the results so far answer a prefix of them.\<close>

definition answers_prefix :: "launch_service list \<Rightarrow> code list \<Rightarrow> launch_item list \<Rightarrow> bool" where
  "answers_prefix order notReady rs \<longleftrightarrow> length rs \<le> length order
     \<and> (\<forall>i < length rs. lr_code (rs ! i) = sc_code (order ! i)
          \<and> (lr_skipped (rs ! i) \<longleftrightarrow> ls_disabled (order ! i) \<or> sc_code (order ! i) \<in> set notReady))"

definition may_control :: "launch_service list \<Rightarrow> code list \<Rightarrow> launch_query \<Rightarrow> launch_item list \<Rightarrow> bool" where
  "may_control order notReady q rs \<longleftrightarrow> (case q of
       LqControl svc \<Rightarrow> length rs < length order \<and> order ! length rs = svc \<and> \<not> ls_disabled svc
         \<and> sc_code svc \<notin> set notReady
     | _ \<Rightarrow> True)"

interpretation launch: async_safety "answers_prefix order notReady" "\<lambda>s s'. s' = s" "\<lambda>_ _. True" "\<lambda>_ _ _. True"
    "may_control order notReady" for order notReady
  by unfold_locales auto

lemma launch_stable [simp]: "launch.stable order notReady L"
  by (simp add: launch.stable_def)

text \<open>The next service is the one at the place of the next result.\<close>

definition next_is :: "launch_service list \<Rightarrow> launch_service list \<Rightarrow> launch_item list \<Rightarrow> bool" where
  "next_is order svcs rs \<longleftrightarrow> (\<exists>before rest. order = before @ svcs @ rest \<and> length before = length rs)"

lemma next_is_Cons: "next_is order (svc # svcs) rs \<Longrightarrow> length rs < length order \<and> order ! length rs = svc"
  by (auto simp: next_is_def nth_append)

lemma next_is_Suc: "next_is order (svc # svcs) rs \<Longrightarrow> next_is order svcs (rs @ [r])"
proof -
  assume "next_is order (svc # svcs) rs"
  then obtain before rest where "order = (before @ [svc]) @ svcs @ rest" "length (before @ [svc]) = length (rs @ [r])"
    by (auto simp: next_is_def)
  then show ?thesis unfolding next_is_def by blast
qed

lemma push_next:
  assumes "next_is order (svc # svcs) rs" "answers_prefix order notReady rs"
    "lr_code r = sc_code svc" "lr_skipped r \<longleftrightarrow> ls_disabled svc \<or> sc_code svc \<in> set notReady"
  shows "answers_prefix order notReady (rs @ [r]) \<and> next_is order svcs (rs @ [r])"
  using next_is_Cons [OF assms(1)] next_is_Suc [OF assms(1)] assms(2-4)
  by (auto simp: answers_prefix_def nth_append less_Suc_eq)

lemma push_triple:
  assumes "skipped \<longleftrightarrow> ls_disabled svc \<or> sc_code svc \<in> set notReady"
  shows "launch.triple order notReady (next_is order (svc # svcs)) (push_result (sc_code svc) okay skipped msg)
    (\<lambda>_. next_is order svcs)"
  unfolding push_result_def by (rule launch.triple_modify) (use push_next assms in auto)

lemma then_ret:
  "launch.triple order notReady P m (\<lambda>_. Q) \<Longrightarrow> launch.triple order notReady P (andThen m (ret x)) (\<lambda>_. Q)"
  by (rule launch.triple_andThen [where Q = "\<lambda>_. Q"]) (auto intro: launch.triple_ret)

lemma then_look:
  "launch.triple order notReady P m (\<lambda>_. Q) \<Longrightarrow> launch.triple order notReady P (andThen m (look (\<lambda>w _. ret (f w)))) (\<lambda>_. Q)"
  by (rule launch.triple_andThen [where Q = "\<lambda>_. Q"]) (auto intro!: launch.triple_look launch.triple_ret)

lemma start_one_triple:
  "launch.triple order notReady (next_is order (svc # svcs)) (start_one notReady svc) (\<lambda>_. next_is order svcs)"
proof -
  let ?P = "next_is order (svc # svcs)" and ?Q = "\<lambda>_ :: string + bool. next_is order svcs"
  have control: "launch.triple order notReady ?P (bind (await (LqControl svc)) (\<lambda>a. case a of
        LaControl (Inr r) \<Rightarrow> andThen (push_result (sc_code svc) (cr_ok r) False (if cr_ok r then cr_stdout r else cr_stderr r))
            (look (\<lambda>w _. ret (\<not> lw_stop w)))
      | LaControl (Inl e) \<Rightarrow> andThen (push_result (sc_code svc) False False e) (ret True)
      | _ \<Rightarrow> andThen (push_result (sc_code svc) False False ''no answer'') (ret True))) ?Q"
    if ready: "\<not> ls_disabled svc" "sc_code svc \<notin> set notReady"
  proof (rule launch.triple_bind)
    have "may_control order notReady (LqControl svc) rs" if "?P rs" for rs
      using next_is_Cons [OF that] ready by (simp add: may_control_def)
    then show "launch.triple order notReady ?P (await (LqControl svc))
        (\<lambda>r rs. ?P rs \<and> (\<exists>a. r = Inr a))"
      by (intro launch.triple_await [where L = ?P]) auto
    fix a
    show "launch.triple order notReady (\<lambda>rs. ?P rs \<and> (\<exists>b. Inr a = Inr b)) (case a of
        LaControl (Inr r) \<Rightarrow> andThen (push_result (sc_code svc) (cr_ok r) False (if cr_ok r then cr_stdout r else cr_stderr r))
            (look (\<lambda>w _. ret (\<not> lw_stop w)))
      | LaControl (Inl e) \<Rightarrow> andThen (push_result (sc_code svc) False False e) (ret True)
      | _ \<Rightarrow> andThen (push_result (sc_code svc) False False ''no answer'') (ret True)) ?Q"
      using ready by (auto split: launch_answer.split sum.split intro!: then_ret then_look push_triple)
  qed auto
  show ?thesis unfolding start_one_def
    using control by (auto intro!: then_ret push_triple)
qed

lemma start_services_triple:
  "launch.triple order notReady (next_is order (svcs @ later)) (start_services notReady svcs)
     (\<lambda>r rs. r = Inr True \<longrightarrow> next_is order later rs)"
proof (induction svcs)
  case Nil
  show ?case by (simp, rule launch.triple_ret) simp
next
  case (Cons svc svcs)
  have rest: "launch.triple order notReady (next_is order (svcs @ later)) (if go then start_services notReady svcs else ret False)
      (\<lambda>r rs. r = Inr True \<longrightarrow> next_is order later rs)" for go
    using Cons by (auto intro: launch.triple_ret)
  show ?case
    unfolding start_services.simps append_Cons
  proof (intro launch.triple_look launch.triple_if)
    fix w s
    show "launch.triple order notReady (\<lambda>t. next_is order (svc # svcs @ later) t \<and> t = s) (ret False)
        (\<lambda>r rs. r = Inr True \<longrightarrow> next_is order later rs)" by (rule launch.triple_ret) simp
    have "launch.triple order notReady (next_is order (svc # svcs @ later))
        (bind (start_one notReady svc) (\<lambda>go. if go then start_services notReady svcs else ret False))
        (\<lambda>r rs. r = Inr True \<longrightarrow> next_is order later rs)"
      by (rule launch.triple_bind [OF start_one_triple rest]) simp
    then show "launch.triple order notReady (\<lambda>t. next_is order (svc # svcs @ later) t \<and> t = s)
        (bind (start_one notReady svc) (\<lambda>go. if go then start_services notReady svcs else ret False))
        (\<lambda>r rs. r = Inr True \<longrightarrow> next_is order later rs)"
      by (rule launch.triple_pre) simp
  qed
qed

lemma start_tiers_triple:
  "launch.triple order notReady (next_is order (concat (map snd ts))) (start_tiers notReady ts) (\<lambda>_ _. True)"
proof (induction ts)
  case Nil
  show ?case by (simp, rule launch.triple_ret) simp
next
  case (Cons t ts)
  let ?rest = "concat (map snd ts)"
  have pause: "launch.triple order notReady (next_is order ?rest)
      (andThen (if b then bind (await LqDelay) (\<lambda>_. ret ()) else ret ()) (start_tiers notReady ts)) (\<lambda>_ _. True)" for b
  proof (rule launch.triple_andThen)
    show "launch.triple order notReady (next_is order ?rest) (if b then bind (await LqDelay) (\<lambda>_. ret ()) else ret ())
        (\<lambda>_. next_is order ?rest)"
      by (intro launch.keeps_triple launch.keeps_if launch.keeps_bind launch.keeps_await launch.keeps_ret)
        (simp_all add: may_control_def)
  qed (use Cons in simp_all)
  have after: "launch.triple order notReady (\<lambda>rs. Inr go = Inr True \<longrightarrow> next_is order ?rest rs)
      (if \<not> go then ret () else look (\<lambda>w2 _. andThen (if ts \<noteq> [] \<and> \<not> lw_stop w2 then bind (await LqDelay) (\<lambda>_. ret ()) else ret ())
           (start_tiers notReady ts))) (\<lambda>_ _. True)" for go
  proof (cases go)
    case True
    then show ?thesis
      by simp (rule launch.triple_look, rule launch.triple_pre [OF pause], simp)
  qed (simp, rule launch.triple_ret, simp)
  show ?case unfolding start_tiers.simps
  proof (intro launch.triple_look launch.triple_if)
    fix w s
    show "launch.triple order notReady (\<lambda>u. next_is order (concat (map snd (t # ts))) u \<and> u = s) (ret ()) (\<lambda>_ _. True)"
      by (rule launch.triple_ret) simp
    have "launch.triple order notReady (next_is order (snd t @ ?rest))
        (bind (start_services notReady (snd t)) (\<lambda>go. if \<not> go then ret ()
          else look (\<lambda>w2 _. andThen (if ts \<noteq> [] \<and> \<not> lw_stop w2 then bind (await LqDelay) (\<lambda>_. ret ()) else ret ())
           (start_tiers notReady ts)))) (\<lambda>_ _. True)"
      by (rule launch.triple_bind [OF start_services_triple after]) simp
    then show "launch.triple order notReady (\<lambda>u. next_is order (concat (map snd (t # ts))) u \<and> u = s)
        (bind (start_services notReady (snd t)) (\<lambda>go. if \<not> go then ret ()
          else look (\<lambda>w2 _. andThen (if ts \<noteq> [] \<and> \<not> lw_stop w2 then bind (await LqDelay) (\<lambda>_. ret ()) else ret ())
           (start_tiers notReady ts)))) (\<lambda>_ _. True)"
      by (rule launch.triple_pre) simp
  qed
qed

text \<open>
  What a launch is to do, stated apart from the code: the selected services in the order of a stable sort,
  and those that may be started. A preflight asks for a code, which is ready when every catalog entry of
  it is.
\<close>

definition launch_order :: "(code \<Rightarrow> bool option) \<Rightarrow> launch_service list \<Rightarrow> code list \<Rightarrow> launch_service list" where
  "launch_order prefs services codes = (let sel = launch_selection prefs services codes in
     sort_key startTier (sort_key (\<lambda>s. code_index sel (sc_code s)) (filter (\<lambda>s. sc_code s \<in> set sel) services)))"

definition startable :: "bool \<Rightarrow> preflight_env \<Rightarrow> launch_service list \<Rightarrow> launch_service \<Rightarrow> bool" where
  "startable skipNotReady e services svc \<longleftrightarrow> \<not> ls_disabled svc
     \<and> (skipNotReady \<longrightarrow> list_all (\<lambda>s. sc_code s = sc_code svc \<longrightarrow> service_ready e s) services)"

lemma launch_order_tiers:
  "concat (map snd (orderForStart services (launch_selection prefs services codes))) = launch_order prefs services codes"
  unfolding launch_order_def Let_def by (rule sorted_buckets_sort [OF orderForStart_buckets orderForStart_sorted])

lemma in_launch_order: "svc \<in> set (launch_order prefs services codes) \<Longrightarrow>
    svc \<in> set services \<and> sc_code svc \<in> set (launch_selection prefs services codes)"
  by (auto simp: launch_order_def Let_def)

lemma startable_iff:
  assumes "svc \<in> set (launch_order prefs services codes)"
  shows "startable skip e services svc \<longleftrightarrow>
    \<not> (ls_disabled svc \<or> sc_code svc \<in> set (not_ready skip (runPreflight e services (launch_selection prefs services codes))))"
proof -
  let ?sel = "launch_selection prefs services codes"
  have sel: "sc_code svc \<in> set ?sel" using in_launch_order [OF assms] by blast
  have "set (not_ready skip (runPreflight e services ?sel)) =
      (if skip then sc_code ` {s \<in> set services. sc_code s \<in> set ?sel \<and> \<not> service_ready e s} else {})"
    by (simp add: not_ready_def runPreflight_def) force
  then have "sc_code svc \<in> set (not_ready skip (runPreflight e services ?sel)) \<longleftrightarrow>
      skip \<and> (\<exists>s \<in> set services. sc_code s = sc_code svc \<and> \<not> service_ready e s)"
    using sel by (simp add: image_iff) metis
  then show ?thesis unfolding startable_def list_all_iff by blast
qed

text \<open>
  A run of the launcher, with any answers and any moment of a shutdown; the report of the preflight is that of
  the environment \<open>e\<close> it read, and \<open>prefs\<close> are the preferences at the beginning.
\<close>

definition preflight_answer :: "preflight_env \<Rightarrow> launch_service list \<Rightarrow> launch_query \<Rightarrow> launch_answer \<Rightarrow> bool" where
  "preflight_answer e services q a \<longleftrightarrow> (case (q, a) of
       (LqPreflight codes, LaReport (Inr report)) \<Rightarrow> report = runPreflight e services codes | _ \<Rightarrow> True)"

inductive launching :: "bool \<Rightarrow> launch_service list \<Rightarrow> code list \<Rightarrow> (code \<Rightarrow> bool option) \<Rightarrow> preflight_env \<Rightarrow> launch_item list \<Rightarrow>
    (launch_item list, launch_world, launch_query, launch_answer, string, unit) prog \<Rightarrow> bool"
  for skip services codes prefs e where
  begins: "lw_prefs w = Inr prefs \<Longrightarrow> startSelection skip services codes w [] = (rs, p) \<Longrightarrow> launching skip services codes prefs e rs p"
| goes_on: "launching skip services codes prefs e rs (Await q k) \<Longrightarrow> preflight_answer e services q a \<Longrightarrow> k a w rs = (rs', p)
    \<Longrightarrow> launching skip services codes prefs e rs' p"

text \<open>The launcher waits for the preflight of its selection and goes on with the tiers.\<close>

definition after_preflight :: "bool \<Rightarrow> launch_service list \<Rightarrow> code list \<Rightarrow> launch_answer \<Rightarrow> unit lact" where
  "after_preflight skip services sel a = (case a of
     LaReport (Inr report) \<Rightarrow> start_tiers (not_ready skip report) (orderForStart services sel)
   | LaReport (Inl e) \<Rightarrow> throw e
   | _ \<Rightarrow> throw ''no answer'')"

lemma startSelection_begin:
  assumes "lw_prefs w = Inr prefs"
  shows "startSelection skip services codes w rs = (rs, Await (LqPreflight (launch_selection prefs services codes))
    (\<lambda>a w' s. after_preflight skip services (launch_selection prefs services codes) a w' s))"
proof -
  have await_bind: "bind (await q) f w s = (s, Await q (\<lambda>a w' s'. f a w' s'))" for q s and f :: "launch_answer \<Rightarrow> unit lact"
    by (simp add: bind_def attempt_def await_def)
  show ?thesis
    unfolding startSelection_def look_def assms sum.case await_bind after_preflight_def by (rule refl)
qed

lemma tiers_wait:
  assumes "start_tiers notReady tiers w [] = (rs, p)"
  shows "answers_prefix (concat (map snd tiers)) notReady rs \<and> launch.waiting (concat (map snd tiers)) notReady rs p"
proof -
  let ?o = "concat (map snd tiers)"
  have pre: "answers_prefix ?o notReady []" "next_is ?o ?o []" by (simp_all add: answers_prefix_def next_is_def)
  show ?thesis using launch.waiting_start [OF start_tiers_triple pre assms] by simp
qed

text \<open>Before the report nothing is done; after it the run is one over the tiers.\<close>

definition launch_state :: "bool \<Rightarrow> launch_service list \<Rightarrow> code list \<Rightarrow> preflight_env \<Rightarrow> launch_item list \<Rightarrow>
    (launch_item list, launch_world, launch_query, launch_answer, string, unit) prog \<Rightarrow> bool" where
  "launch_state skip services sel e rs p \<longleftrightarrow>
     rs = [] \<and> p = Await (LqPreflight sel) (\<lambda>a w s. after_preflight skip services sel a w s)
   \<or> rs = [] \<and> (\<exists>r. p = Return r)
   \<or> (let order = concat (map snd (orderForStart services sel)); notReady = not_ready skip (runPreflight e services sel)
      in answers_prefix order notReady rs \<and> launch.waiting order notReady rs p)"

lemma launching_state:
  assumes "launching skip services codes prefs e rs p"
  shows "launch_state skip services (launch_selection prefs services codes) e rs p"
  using assms
proof (induction rule: launching.induct)
  case (begins w rs p)
  then show ?case by (auto simp: startSelection_begin launch_state_def)
next
  case (goes_on rs q k a w rs' p)
  let ?sel = "launch_selection prefs services codes"
  let ?o = "concat (map snd (orderForStart services ?sel))" and ?n = "not_ready skip (runPreflight e services ?sel)"
  from goes_on.IH consider
      (preflight) "rs = []" "q = LqPreflight ?sel" "k = (\<lambda>a w s. after_preflight skip services ?sel a w s)"
    | (tiers) "answers_prefix ?o ?n rs" "launch.waiting ?o ?n rs (Await q k)"
    by (auto simp: launch_state_def Let_def)
  then show ?case
  proof cases
    case preflight
    show ?thesis
    proof (cases "\<exists>report. a = LaReport (Inr report)")
      case True
      then have "start_tiers ?n (orderForStart services ?sel) w [] = (rs', p)"
        using goes_on(2,3) preflight by (auto simp: preflight_answer_def after_preflight_def)
      from tiers_wait [OF this] show ?thesis by (simp add: launch_state_def)
    next
      case False
      then show ?thesis using goes_on(3) preflight
        by (auto simp: launch_state_def after_preflight_def throw_def split: launch_answer.splits sum.splits)
    qed
  next
    case tiers
    from launch.waiting_resume [OF tiers(2,1) TrueI goes_on(3)] show ?thesis by (simp add: launch_state_def)
  qed
qed

text \<open>
  C27. A launch follows its order: the selected services with their dependencies and Corpus, sorted stably by
  place and tier. The service it controls next is the one at the position of the results so far; it is enabled
  and, unless the caller asked to start unready services too, it passed the preflight. Every earlier service has
  exactly one result, which is marked skipped exactly for the services that may not be started. This holds for
  all answers and whenever a shutdown is noticed.
\<close>
theorem launch_follows_order:
  assumes "launching skip services codes prefs e rs p"
  shows "length rs \<le> length (launch_order prefs services codes)
    \<and> list_all (\<lambda>i. lr_code (rs ! i) = sc_code (launch_order prefs services codes ! i)
        \<and> lr_skipped (rs ! i) = (\<not> startable skip e services (launch_order prefs services codes ! i))) [0..<length rs]
    \<and> \<not> (\<exists>svc k. p = Await (LqControl svc) k \<and> \<not> (length rs < length (launch_order prefs services codes)
         \<and> launch_order prefs services codes ! length rs = svc \<and> startable skip e services svc))"
proof -
  let ?sel = "launch_selection prefs services codes" and ?o = "launch_order prefs services codes"
  let ?n = "not_ready skip (runPreflight e services ?sel)"
  have may: "startable skip e services (?o ! i) \<longleftrightarrow> \<not> (ls_disabled (?o ! i) \<or> sc_code (?o ! i) \<in> set ?n)" if "i < length ?o" for i
    using startable_iff that by simp
  have "launch_state skip services ?sel e rs p" by (rule launching_state [OF assms])
  then consider (quiet) "rs = []" "\<not> (\<exists>svc k. p = Await (LqControl svc) k)"
    | (tiers) "answers_prefix ?o ?n rs" "launch.waiting ?o ?n rs p"
    by (auto simp: launch_state_def launch_order_tiers Let_def)
  then show ?thesis
  proof cases
    case tiers
    have next_one: "length rs < length ?o \<and> ?o ! length rs = svc \<and> startable skip e services svc" if "p = Await (LqControl svc) k" for svc k
      using launch.waiting_allowed [OF tiers(2) [unfolded that] tiers(1)] may [of "length rs"] by (simp add: may_control_def)
    have answered: "lr_code (rs ! i) = sc_code (?o ! i) \<and> lr_skipped (rs ! i) = (\<not> startable skip e services (?o ! i))"
      if "i < length rs" for i
      using tiers(1) may [of i] that by (simp add: answers_prefix_def)
    then have "list_all (\<lambda>i. lr_code (rs ! i) = sc_code (?o ! i) \<and> lr_skipped (rs ! i) = (\<not> startable skip e services (?o ! i))) [0..<length rs]"
      by (simp add: list_all_iff)
    moreover have "length rs \<le> length ?o" using tiers(1) by (simp add: answers_prefix_def)
    ultimately show ?thesis using next_one by blast
  qed simp
qed

definition demo_pair :: "launch_service list" where
  "demo_pair = [(plain_service ''b'')\<lparr>sc_cwd := Some ''/b''\<rparr>, (plain_service ''a'')\<lparr>ls_depends_on := [''b'']\<rparr>]"

definition demo_env :: preflight_env where
  "demo_env = \<lparr>pf_exists = (\<lambda>p. p = ''/b''), pf_listening = [], pf_required = (\<lambda>_. []), pf_vault = (\<lambda>_. Some (\<lambda>_. None))\<rparr>"

text \<open>The dependency \<open>b\<close> of \<open>a\<close> is controlled first; \<open>a\<close> has no working directory and is not ready.\<close>

lemma launch_follows_order_witness:
  "\<exists>rs k. launching True demo_pair [''a''] (\<lambda>_. None) demo_env rs (Await (LqControl (hd demo_pair)) k)
     \<and> launch_order (\<lambda>_. None) demo_pair [''a''] = demo_pair \<and> rs = [] \<and> startable True demo_env demo_pair (hd demo_pair)"
proof -
  let ?w = "\<lparr>lw_stop = False, lw_prefs = Inr (\<lambda>_. None)\<rparr>"
  have sel: "launch_selection (\<lambda>_. None) demo_pair [''a''] = [''b'', ''a'']" by code_simp
  have pair: "orderForStart demo_pair [''b'', ''a''] = [(5, hd demo_pair # tl demo_pair)]" "\<not> ls_disabled (hd demo_pair)"
    "sc_code (hd demo_pair) = ''b''" "launch_order (\<lambda>_. None) demo_pair [''a''] = demo_pair"
    "not_ready True (runPreflight demo_env demo_pair [''b'', ''a'']) = [''a'']" by code_simp+
  let ?a = "LaReport (Inr (runPreflight demo_env demo_pair [''b'', ''a'']))"
  have "startSelection True demo_pair [''a''] ?w [] = ([], Await (LqPreflight [''b'', ''a'']) (after_preflight True demo_pair [''b'', ''a'']))"
    using startSelection_begin [of ?w "\<lambda>_. None" True demo_pair "[''a'']" "[]"] by (simp add: sel)
  from launching.begins [OF _ this, of "\<lambda>_. None" demo_env]
  have start: "launching True demo_pair [''a''] (\<lambda>_. None) demo_env [] (Await (LqPreflight [''b'', ''a'']) (after_preflight True demo_pair [''b'', ''a'']))"
    by simp
  have "\<exists>k. after_preflight True demo_pair [''b'', ''a''] ?a ?w [] = ([], Await (LqControl (hd demo_pair)) k)"
    by (simp add: after_preflight_def pair look_def bind_def attempt_def start_one_def await_def)
  then obtain k where "after_preflight True demo_pair [''b'', ''a''] ?a ?w [] = ([], Await (LqControl (hd demo_pair)) k)" by blast
  from launching.goes_on [OF start _ this] have run: "launching True demo_pair [''a''] (\<lambda>_. None) demo_env [] (Await (LqControl (hd demo_pair)) k)"
    by (simp add: preflight_answer_def)
  have "startable True demo_env demo_pair (hd demo_pair)"
    using launch_follows_order [OF run] by (auto simp: pair(4))
  then show ?thesis using run pair(4) by blast
qed

end
