(* ===== verification/Launch_Prefs.thy ===== *)
theory Launch_Prefs imports Launch_Start begin

text \<open>
  The overrides of a site, one row per service code in \<open>service_prefs\<close>: whether the service uses Corpus
  (\<open>src/launch/corpus-prefs.ts\<close>) and whether it starts at boot (\<open>src/launch/autostart-prefs.ts\<close>). The
  code is the key of the table; the time of the update is left out.
\<close>

record service_pref =
  sp_uses_corpus :: "bool option"
  sp_autostart :: "bool option"

type_synonym prefs_table = "code \<rightharpoonup> service_pref"

definition readCorpusPrefs :: "prefs_table \<Rightarrow> code \<Rightarrow> bool option" where
  "readCorpusPrefs t c = Option.bind (t c) sp_uses_corpus"

definition readAutostartPrefs :: "prefs_table \<Rightarrow> code \<Rightarrow> bool option" where
  "readAutostartPrefs t c = Option.bind (t c) sp_autostart"

definition effectiveAutostart :: "launch_service \<Rightarrow> (code \<Rightarrow> bool option) \<Rightarrow> bool" where
  "effectiveAutostart svc prefs = (case prefs (sc_code svc) of Some b \<Rightarrow> b | None \<Rightarrow> ls_autostart svc)"

definition usesCorpusByCode :: "launch_service list \<Rightarrow> prefs_table \<Rightarrow> (code \<times> bool) list" where
  "usesCorpusByCode services t = map (\<lambda>s. (sc_code s, effectiveUsesCorpus s (readCorpusPrefs t))) services"

text \<open>\<open>null\<close> clears the column of an existing row; a value inserts the row or sets the column.\<close>

definition setCorpusPref :: "code \<Rightarrow> bool option \<Rightarrow> prefs_table \<Rightarrow> prefs_table" where
  "setCorpusPref c uses t =
     (case (t c, uses) of
        (None, None) \<Rightarrow> t
      | (Some r, None) \<Rightarrow> t(c \<mapsto> r\<lparr>sp_uses_corpus := None\<rparr>)
      | (None, Some b) \<Rightarrow> t(c \<mapsto> \<lparr>sp_uses_corpus = Some b, sp_autostart = None\<rparr>)
      | (Some r, Some b) \<Rightarrow> t(c \<mapsto> r\<lparr>sp_uses_corpus := Some b\<rparr>))"

definition setAutostartPref :: "code \<Rightarrow> bool option \<Rightarrow> prefs_table \<Rightarrow> prefs_table" where
  "setAutostartPref c autostart t =
     (case (t c, autostart) of
        (None, None) \<Rightarrow> t
      | (Some r, None) \<Rightarrow> t(c \<mapsto> r\<lparr>sp_autostart := None\<rparr>)
      | (None, Some b) \<Rightarrow> t(c \<mapsto> \<lparr>sp_uses_corpus = None, sp_autostart = Some b\<rparr>)
      | (Some r, Some b) \<Rightarrow> t(c \<mapsto> r\<lparr>sp_autostart := Some b\<rparr>))"

text \<open>
  The two overrides of a service are independent although they share a row: setting or clearing one
  changes its own answer, for this code only, and never the other one; without an override the value
  of the catalog counts.
\<close>
theorem overrides_are_independent:
  "readCorpusPrefs (setCorpusPref c x t) = (readCorpusPrefs t)(c := x)
   \<and> readAutostartPrefs (setCorpusPref c x t) = readAutostartPrefs t
   \<and> readAutostartPrefs (setAutostartPref c x t) = (readAutostartPrefs t)(c := x)
   \<and> readCorpusPrefs (setAutostartPref c x t) = readCorpusPrefs t
   \<and> effectiveUsesCorpus svc (readCorpusPrefs (setCorpusPref (sc_code svc) None t)) = ls_uses_corpus svc
   \<and> effectiveAutostart svc (readAutostartPrefs (setAutostartPref (sc_code svc) None t)) = ls_autostart svc"
  by (auto simp: readCorpusPrefs_def readAutostartPrefs_def setCorpusPref_def setAutostartPref_def
      effectiveUsesCorpus_def effectiveAutostart_def fun_eq_iff split: option.split)

end
