(* ===== verification/Process_Reconcile.thy ===== *)
theory Process_Reconcile imports Catalog_Service Async begin

text \<open>
  Finding the running services again at boot (\<open>src/process/reconcile.ts\<close>): persisted pids whose
  identity is verified are adopted, and so is the only live owner of a port that exactly one service
  run as a local process declares. The state is what the process manager holds under management, which other requests may
  change during every await, and the writes to the instance rows.
\<close>

section \<open>Container port forwarders\<close>






section \<open>State\<close>

record reconcile_state =
  rc_spawned :: "(code \<times> pid) list"
  rc_adopted :: "(code \<times> pid) list"
  rc_rows :: "(code \<times> pid option) list"
  rc_done :: "code list"
  rc_crashed :: "code list"
  rc_by_port :: "(code \<times> nat \<times> pid) list"

definition managed_pids :: "reconcile_state \<Rightarrow> (code \<times> pid) list" where
  "managed_pids s = rc_spawned s @ rc_adopted s"

definition rc_isManaged :: "code \<Rightarrow> reconcile_state \<Rightarrow> bool" where
  "rc_isManaged c s \<longleftrightarrow> c \<in> fst ` set (managed_pids s)"



text \<open>\<open>adoptProcess\<close>: nothing beside a spawned process, else the entry of the service is set.\<close>

definition rc_adopt :: "code \<Rightarrow> pid \<Rightarrow> reconcile_state \<Rightarrow> reconcile_state" where
  "rc_adopt c p s = (if c \<in> fst ` set (rc_spawned s) then s else s\<lparr>rc_adopted := upsert fst (c, p) (rc_adopted s)\<rparr>)"






section \<open>Persisted rows\<close>







section \<open>Owners of declared ports\<close>

definition declaring_codes :: "launch_service list \<Rightarrow> code list \<Rightarrow> nat \<Rightarrow> code list" where
  "declaring_codes services processRuntimes port =
     remdups (map sc_code (filter (\<lambda>s. sc_code s \<in> set processRuntimes \<and> port \<in> dp_port ` set (managedPortsForService s)) services))"

definition portAdoptionCandidates :: "launch_service list \<Rightarrow> code list \<Rightarrow> reconcile_state \<Rightarrow> (code \<times> nat) list" where
  "portAdoptionCandidates services processRuntimes s =
     concat (map (\<lambda>svc.
       if sc_code svc \<notin> set processRuntimes \<or> rc_isManaged (sc_code svc) s then []
       else map (\<lambda>d. (sc_code svc, dp_port d))
         (filter (\<lambda>d. length (declaring_codes services processRuntimes (dp_port d)) = 1) (managedPortsForService svc)))
       services)"







definition process_runtimes :: "launch_service list \<Rightarrow> code list" where
  "process_runtimes services = map sc_code (filter (\<lambda>s. isLocalProcessRuntime (sc_runtime s)) services)"


section \<open>No process gets two owners\<close>

definition by_port_ok :: "launch_service list \<Rightarrow> code list \<Rightarrow> reconcile_state \<Rightarrow> bool" where
  "by_port_ok services runtimes s \<longleftrightarrow> distinct (map fst (rc_by_port s)) \<and> distinct (map (snd \<circ> snd) (rc_by_port s))
     \<and> (\<forall>(c, port, p) \<in> set (rc_by_port s). declaring_codes services runtimes port = [c])"

text \<open>A pid that comes under management is not managed for another service, and a spawned process stays.\<close>

definition no_sharing :: "reconcile_state \<Rightarrow> reconcile_state \<Rightarrow> bool" where
  "no_sharing s s' \<longleftrightarrow> rc_spawned s' = rc_spawned s
     \<and> (\<forall>c p. (c, p) \<in> set (managed_pids s') \<longrightarrow> (c, p) \<notin> set (managed_pids s) \<longrightarrow>
          (\<forall>c'. c' \<noteq> c \<longrightarrow> (c', p) \<notin> set (managed_pids s')))"

interpretation rcx: async_safety "by_port_ok services runtimes" "\<lambda>s s'. rc_by_port s' = rc_by_port s" no_sharing
    "\<lambda>_ _ _. True" "\<lambda>_ _. True" for services runtimes
proof
  show "no_sharing s s" for s by (simp add: no_sharing_def)
  show "no_sharing s u" if "no_sharing s t" "no_sharing t u" for s t u
    using that unfolding no_sharing_def by metis
qed




lemma no_sharing_fields [simp]:
  "no_sharing s (t\<lparr>rc_rows := r\<rparr>) = no_sharing s t" "no_sharing s (t\<lparr>rc_crashed := x\<rparr>) = no_sharing s t"
  "no_sharing s (t\<lparr>rc_done := x\<rparr>) = no_sharing s t" "no_sharing s (t\<lparr>rc_by_port := y\<rparr>) = no_sharing s t"
  by (simp_all add: no_sharing_def managed_pids_def)

lemma rcx_refl [simp]: "no_sharing s s"
  by (rule rcx.guar_refl)

lemma by_port_fields [simp]:
  "by_port_ok services runtimes (t\<lparr>rc_rows := r\<rparr>) = by_port_ok services runtimes t"
  "by_port_ok services runtimes (t\<lparr>rc_crashed := x\<rparr>) = by_port_ok services runtimes t"
  "by_port_ok services runtimes (t\<lparr>rc_done := x\<rparr>) = by_port_ok services runtimes t"
  "by_port_ok services runtimes (rc_adopt c p t) = by_port_ok services runtimes t"
  by (simp_all add: by_port_ok_def rc_adopt_def)











lemma stable_by_port [simp]: "rcx.stable services runtimes (\<lambda>s. c \<notin> fst ` set (rc_by_port s))"
  by (simp add: rcx.stable_def)











definition lone_service :: launch_service where
  "lone_service = (plain_service ''a'')\<lparr>sc_port := Some 80\<rparr>"


text \<open>A docker service that declares the same port does not keep the local one from being adopted by it.\<close>

lemma docker_declaration_is_not_counted:
  "let services = [lone_service, (plain_service ''b'')\<lparr>sc_port := Some 80, sc_runtime := ''docker-compose''\<rparr>];
       s = \<lparr>rc_spawned = [], rc_adopted = [], rc_rows = [], rc_done = [], rc_crashed = [], rc_by_port = []\<rparr>
   in portAdoptionCandidates services (process_runtimes services) s = [(''a'', 80)]
      \<and> 80 \<in> dp_port ` set (managedPortsForService (services ! 1))"
  by code_simp


end
