(* ===== verification/Request_Signature.thy ===== *)
theory Request_Signature imports Text_Tools begin

text \<open>
  Signed requests between sites (\<open>src/federation/request-signature.ts\<close>) and the cache of used nonces
  (\<open>src/federation/nonce-cache.ts\<close>). The hash, the message authentication code and the signature
  check of \<open>node:crypto\<close> are arguments; a string is the list of its UTF-8 bytes.
\<close>

section \<open>Signatures\<close>

definition SIGNATURE_MAX_SKEW_MS :: ms where "SIGNATURE_MAX_SKEW_MS = 5 * 60 * 1000"

record crypto =
  cy_sha256 :: "string \<Rightarrow> string"
  cy_hmac :: "string \<Rightarrow> string \<Rightarrow> string"
  cy_ed25519 :: "string \<Rightarrow> bool"
  cy_verify :: "string \<Rightarrow> jsval list \<Rightarrow> string \<Rightarrow> bool"

record signed_parts =
  sp_method :: string
  sp_path :: string
  sp_timestamp :: ms
  sp_nonce :: string
  sp_body :: string

text \<open>Methods are ASCII tokens.\<close>

definition to_upper_char :: "char \<Rightarrow> char" where
  "to_upper_char c = (let n = of_char c :: nat in if 97 \<le> n \<and> n \<le> 122 then char_of (n - 32) else c)"

definition toUpperCase :: "string \<Rightarrow> string" where
  "toUpperCase s = map to_upper_char s"

definition bodyDigest :: "crypto \<Rightarrow> string \<Rightarrow> string" where
  "bodyDigest cy body = cy_sha256 cy body"

definition canonicalRequest :: "crypto \<Rightarrow> signed_parts \<Rightarrow> string" where
  "canonicalRequest cy p =
     join [CHR 0x0A]
       [toUpperCase (sp_method p), sp_path p, int_string (sp_timestamp p), sp_nonce p, bodyDigest cy (sp_body p)]"

definition signRequest :: "crypto \<Rightarrow> string \<Rightarrow> signed_parts \<Rightarrow> string" where
  "signRequest cy secret p = cy_hmac cy secret (canonicalRequest cy p)"

text \<open>\<open>Buffer.from(s, 'hex')\<close> stops at the first pair that is not hexadecimal.\<close>

fun from_hex :: "string \<Rightarrow> nat list" where
  "from_hex (a # b # s) =
     (case (hex_value_of a, hex_value_of b) of
        (Some x, Some y) \<Rightarrow> (16 * x + y) # from_hex s
      | _ \<Rightarrow> [])"
| "from_hex s = []"

definition verifyRequestSignature :: "crypto \<Rightarrow> string \<Rightarrow> signed_parts \<Rightarrow> string \<Rightarrow> bool" where
  "verifyRequestSignature cy secret p signature =
     (let expected = from_hex (signRequest cy secret p); actual = from_hex signature
      in if length expected \<noteq> length actual then False else expected = actual)"

text \<open>\<open>encodeURIComponent\<close> of a name, byte by byte.\<close>

definition unreserved :: "char \<Rightarrow> bool" where
  "unreserved c \<longleftrightarrow> c \<in> set ''ABCDEFGHIJKLMNOPQRSTUVWXYZabcdefghijklmnopqrstuvwxyz0123456789-_.!~*()'' \<or> c = CHR 0x27"

definition percent_byte :: "char \<Rightarrow> string" where
  "percent_byte c = (let n = of_char c :: nat
     in CHR ''%'' # map to_upper_char [digit_char (n div 16), digit_char (n mod 16)])"

definition encodeURIComponent :: "string \<Rightarrow> string" where
  "encodeURIComponent s = concat (map (\<lambda>c. if unreserved c then [c] else percent_byte c) s)"

record signature_headers =
  sh_node :: string
  sh_timestamp :: string
  sh_nonce :: string
  sh_signature :: string

definition signatureHeaders :: "crypto \<Rightarrow> string \<Rightarrow> string \<Rightarrow> signed_parts \<Rightarrow> signature_headers" where
  "signatureHeaders cy secret node p =
     \<lparr>sh_node = encodeURIComponent node, sh_timestamp = int_string (sp_timestamp p), sh_nonce = sp_nonce p,
      sh_signature = signRequest cy secret p\<rparr>"

lemma own_signature_verifies:
  "verifyRequestSignature cy secret p (sh_signature (signatureHeaders cy secret node p))"
  by (simp add: verifyRequestSignature_def signatureHeaders_def Let_def)

text \<open>A request whose lines are free of line feeds, as the parts of an HTTP request are.\<close>

definition one_line :: "crypto \<Rightarrow> signed_parts \<Rightarrow> bool" where
  "one_line cy p \<longleftrightarrow> CHR 0x0A \<notin> set (toUpperCase (sp_method p)) \<and> CHR 0x0A \<notin> set (sp_path p)
     \<and> CHR 0x0A \<notin> set (sp_nonce p) \<and> CHR 0x0A \<notin> set (bodyDigest cy (sp_body p))"

lemma canonical_lines:
  assumes "one_line cy p"
  shows "split_on (CHR 0x0A) (canonicalRequest cy p)
    = [toUpperCase (sp_method p), sp_path p, int_string (sp_timestamp p), sp_nonce p, bodyDigest cy (sp_body p)]"
  unfolding canonicalRequest_def
proof (rule split_join)
  have "CHR 0x0A \<notin> set (int_string (sp_timestamp p))"
    using int_string_chars [of "CHR 0x0A"] by (auto simp: is_digit_def)
  then show "\<forall>q \<in> set [toUpperCase (sp_method p), sp_path p, int_string (sp_timestamp p), sp_nonce p, bodyDigest cy (sp_body p)].
      CHR 0x0A \<notin> set q"
    using assms by (simp add: one_line_def)
qed simp

text \<open>
  The signed text of a request determines what it asks for: two requests with one signed text have
  the same method, path, time stamp and nonce, and bodies with one digest.
\<close>
theorem signed_text_is_unambiguous:
  assumes "one_line cy p" "one_line cy q" "canonicalRequest cy p = canonicalRequest cy q"
  shows "toUpperCase (sp_method p) = toUpperCase (sp_method q) \<and> sp_path p = sp_path q
    \<and> sp_timestamp p = sp_timestamp q \<and> sp_nonce p = sp_nonce q \<and> bodyDigest cy (sp_body p) = bodyDigest cy (sp_body q)"
  using canonical_lines [OF assms(1)] canonical_lines [OF assms(2)] assms(3) by (auto dest: int_string_inject)

lemma signed_text_is_unambiguous_witness:
  "\<exists>cy p q. canonicalRequest cy p = canonicalRequest cy q \<and> sp_method p = ''get'' \<and> sp_method q = ''GET''
     \<and> sp_timestamp p = sp_timestamp q \<and> sp_nonce p = sp_nonce q"
proof -
  let ?cy = "\<lparr>cy_sha256 = (\<lambda>_. ''00''), cy_hmac = (\<lambda>_ _. ''00''), cy_ed25519 = (\<lambda>_. True), cy_verify = (\<lambda>_ _ _. True)\<rparr>"
  let ?p = "\<lparr>sp_method = ''get'', sp_path = ''/a'', sp_timestamp = 12, sp_nonce = ''n'', sp_body = ''x''\<rparr>"
  let ?q = "\<lparr>sp_method = ''GET'', sp_path = ''/a'', sp_timestamp = 12, sp_nonce = ''n'', sp_body = ''y''\<rparr>"
  have lines: "one_line ?cy ?p" "one_line ?cy ?q" by code_simp+
  have "canonicalRequest ?cy ?p = canonicalRequest ?cy ?q" by code_simp
  then show ?thesis using signed_text_is_unambiguous [OF lines] by (intro exI [of _ ?cy] exI [of _ ?p] exI [of _ ?q]) simp
qed

section \<open>Used nonces\<close>

record nonce_cache =
  nc_seen :: "(string \<times> ms) list"
  nc_last_prune :: ms

definition createNonceCache :: nonce_cache where
  "createNonceCache = \<lparr>nc_seen = [], nc_last_prune = 0\<rparr>"

definition prune :: "ms \<Rightarrow> nonce_cache \<Rightarrow> nonce_cache" where
  "prune now c = \<lparr>nc_seen = filter (\<lambda>(_, expiresAt). \<not> expiresAt \<le> now) (nc_seen c), nc_last_prune = now\<rparr>"

definition set_seen :: "string \<Rightarrow> ms \<Rightarrow> nonce_cache \<Rightarrow> nonce_cache" where
  "set_seen nonce expiresAt c = c\<lparr>nc_seen := upsert fst (nonce, expiresAt) (nc_seen c)\<rparr>"

definition recall :: "ms \<Rightarrow> string \<Rightarrow> ms \<Rightarrow> nonce_cache \<Rightarrow> bool \<times> nonce_cache" where
  "recall retentionMs nonce now c =
     (case find_key fst nonce (nc_seen c) of
        Some (_, expiresAt) \<Rightarrow>
          if expiresAt > now then (False, c) else (True, set_seen nonce (now + retentionMs) c)
      | None \<Rightarrow> (True, set_seen nonce (now + retentionMs) c))"

definition remember :: "ms \<Rightarrow> string \<Rightarrow> ms \<Rightarrow> nonce_cache \<Rightarrow> bool \<times> nonce_cache" where
  "remember retentionMs nonce now c =
     recall retentionMs nonce now (if 4 * (now - nc_last_prune c) > retentionMs then prune now c else c)"

definition cache_size :: "nonce_cache \<Rightarrow> nat" where
  "cache_size c = length (nc_seen c)"

section \<open>The contract of a replay guard\<close>

text \<open>
  What the authentication relies on: \<open>held g k t\<close> says that the guard refuses the key until \<open>t\<close>. A call
  that accepts a key holds it until the time it names, a held key is refused, and no call before
  that time gives it up.
\<close>

locale replay_guard =
  fixes guard :: "'k \<Rightarrow> ms \<Rightarrow> ms \<Rightarrow> 'g \<Rightarrow> bool \<times> 'g"
    and held :: "'g \<Rightarrow> 'k \<Rightarrow> ms \<Rightarrow> bool"
  assumes accepted_held: "guard k until now g = (True, g') \<Longrightarrow> held g' k until"
    and held_refused: "held g k t \<Longrightarrow> now < t \<Longrightarrow> \<not> fst (guard k until now g)"
    and held_stays: "held g k t \<Longrightarrow> now < t \<Longrightarrow> held (snd (guard k' until now g)) k t"
begin

primrec answers :: "('k \<times> ms \<times> ms) list \<Rightarrow> 'g \<Rightarrow> bool list" where
  "answers [] g = []"
| "answers (c # cs) g = (case c of (k, until, now) \<Rightarrow>
     fst (guard k until now g) # answers cs (snd (guard k until now g)))"

lemma held_answers:
  "held g k t \<Longrightarrow> \<forall>(_, _, now) \<in> set cs. now < t \<Longrightarrow> i < length cs \<Longrightarrow> fst (cs ! i) = k \<Longrightarrow> \<not> answers cs g ! i"
proof (induction cs arbitrary: g i)
  case (Cons c cs)
  obtain k' until now where c: "c = (k', until, now)" by (cases c)
  then show ?case using Cons held_refused held_stays by (cases i) auto
qed simp

lemma accepted_once:
  assumes "guard k until now g = (True, g')" "\<forall>(_, _, n) \<in> set cs. n < until" "i < length cs" "fst (cs ! i) = k"
  shows "\<not> answers cs g' ! i"
  using held_answers [OF accepted_held [OF assms(1)] assms(2-4)] .

end

definition held_nonce :: "nonce_cache \<Rightarrow> string \<Rightarrow> ms \<Rightarrow> bool" where
  "held_nonce c k t \<longleftrightarrow> (case find_key fst k (nc_seen c) of Some (_, e) \<Rightarrow> t \<le> e | None \<Rightarrow> False)"

lemma find_key_filter:
  "find_key fst k xs = Some (k', e) \<Longrightarrow> now < e \<Longrightarrow> find_key fst k (filter (\<lambda>(_, e). \<not> e \<le> now) xs) = Some (k', e)"
  for now e :: ms
  by (induction xs) (auto split: if_splits)

lemma held_nonceD: "held_nonce c k t \<Longrightarrow> \<exists>k' e. find_key fst k (nc_seen c) = Some (k', e) \<and> t \<le> e"
  by (cases "find_key fst k (nc_seen c)") (auto simp: held_nonce_def)

lemma held_prune:
  assumes "held_nonce c k t" "now < t"
  shows "held_nonce (prune now c) k t"
proof -
  obtain k' e where e: "find_key fst k (nc_seen c) = Some (k', e)" "t \<le> e" using held_nonceD [OF assms(1)] by blast
  then have "now < e" using assms(2) by simp
  from find_key_filter [OF e(1) this] e(2) show ?thesis by (simp add: held_nonce_def prune_def)
qed

lemma held_set: "held_nonce c k t \<Longrightarrow> k' \<noteq> k \<or> t \<le> e \<Longrightarrow> held_nonce (set_seen k' e c) k t"
  by (auto simp: held_nonce_def set_seen_def find_key_upsert split: option.splits)

lemma held_pruned: "held_nonce c k t \<Longrightarrow> now < t \<Longrightarrow> held_nonce (if b then prune now c else c) k t"
  by (simp add: held_prune)

lemma find_key_fst: "find_key fst k xs = Some (k', e) \<Longrightarrow> k' = k"
  by (drule find_key_SomeD) simp

lemma recall_accepts: "recall r k now c = (True, c') \<Longrightarrow> held_nonce c' k (now + r)"
  by (auto simp: recall_def held_nonce_def set_seen_def find_key_upsert split: option.splits if_splits)

lemma recall_refuses: "held_nonce c k t \<Longrightarrow> now < t \<Longrightarrow> \<not> fst (recall r k now c)"
  by (auto simp: recall_def held_nonce_def split: option.splits)

lemma recall_keeps:
  assumes held: "held_nonce c k t" "now < t"
  shows "held_nonce (snd (recall r k' now c)) k t"
proof (cases "find_key fst k' (nc_seen c)")
  case None
  then have "k' \<noteq> k" using held by (auto simp: held_nonce_def)
  then show ?thesis using None held(1) held_set by (simp add: recall_def)
next
  case (Some x)
  obtain e where x: "x = (k', e)" using find_key_fst Some by (metis prod.collapse)
  show ?thesis
  proof (cases "now < e")
    case False
    then have "k' \<noteq> k" using held Some x by (auto simp: held_nonce_def)
    then show ?thesis using Some x False held(1) held_set by (simp add: recall_def)
  qed (use Some x held in \<open>simp add: recall_def\<close>)
qed

text \<open>The guard behind the cache: a key is accepted until the retention has passed.\<close>

definition nonce_guard :: "string \<Rightarrow> ms \<Rightarrow> ms \<Rightarrow> nonce_cache \<Rightarrow> bool \<times> nonce_cache" where
  "nonce_guard k until now c = remember (until - now) k now c"

interpretation nonce_cache: replay_guard nonce_guard held_nonce
proof
  show "held_nonce g' k until" if "nonce_guard k until now g = (True, g')" for k until now g g'
    using recall_accepts [of "until - now" k now] that by (simp add: nonce_guard_def remember_def)
  show "\<not> fst (nonce_guard k until now g)" if "held_nonce g k t" "now < t" for k until now t g
    unfolding nonce_guard_def remember_def by (rule recall_refuses [OF held_pruned [OF that] that(2)])
  show "held_nonce (snd (nonce_guard k' until now g)) k t" if "held_nonce g k t" "now < t" for k k' until now t g
    unfolding nonce_guard_def remember_def by (rule recall_keeps [OF held_pruned [OF that] that(2)])
qed

end
