(* ===== verification/Mesh_Auth.thy ===== *)
theory Mesh_Auth imports Request_Signature Async begin

text \<open>
  The authentication of requests from other sites (\<open>src/federation/peer-auth.ts\<close> and
  \<open>src/federation/security/\<close>: \<open>legacy-monitor.ts\<close>, \<open>claims.ts\<close>, \<open>proof.ts\<close>, \<open>cr-request-auth.ts\<close>,
  \<open>nonce-store.ts\<close>). The state has the clock, the two memories of used nonces, the number of the
  process's lifetime and, as a history, the requests that were let through, each with the policy and the
  peer table the middleware read for it. A synchronous stretch takes no time.
\<close>

section \<open>Policy\<close>

definition MESH_SECURITY_NOT_CONFIGURED :: string where
  "MESH_SECURITY_NOT_CONFIGURED = ''mesh_security_not_configured''"

definition LEGACY_MONITOR_PATHS :: "string list" where
  "LEGACY_MONITOR_PATHS = [''/api/v1/federation/health'', ''/api/v1/federation/node'']"

datatype peer_policy = PolicyDisabled | PolicyLegacyMonitor | PolicyCr string

record mesh_config =
  mc_subject :: string
  mc_peers :: "(string \<times> peer_policy) list"

datatype mesh_policy = Configured mesh_config | LegacyMonitorMigration

text \<open>What loading the two files gives: an error message, the configuration, the switch or its absence.\<close>

definition resolveMeshAuthPolicy :: "string + mesh_config \<Rightarrow> string + bool \<Rightarrow> string + mesh_policy" where
  "resolveMeshAuthPolicy loadConfig loadMigration =
     (case loadConfig of
        Inr config \<Rightarrow> Inr (Configured config)
      | Inl e \<Rightarrow>
          if e \<noteq> MESH_SECURITY_NOT_CONFIGURED then Inl e
          else case loadMigration of
            Inl e \<Rightarrow> Inl e
          | Inr enabled \<Rightarrow> if \<not> enabled then Inl MESH_SECURITY_NOT_CONFIGURED else Inr LegacyMonitorMigration)"

definition allowsLegacyMonitorPeer :: "mesh_policy \<Rightarrow> string \<Rightarrow> bool" where
  "allowsLegacyMonitorPeer policy peerId =
     (case policy of
        LegacyMonitorMigration \<Rightarrow> True
      | Configured config \<Rightarrow> map_of (mc_peers config) peerId = Some PolicyLegacyMonitor)"

definition isLegacyMonitorRequest :: "string \<Rightarrow> string \<Rightarrow> bool" where
  "isLegacyMonitorRequest method path \<longleftrightarrow> method = ''GET'' \<and> path \<in> set LEGACY_MONITOR_PATHS"

section \<open>Workload claims and proofs\<close>

text \<open>Claims of the introspection endpoint that pass the schema.\<close>

record workload_claims =
  cl_sub :: string
  cl_aud :: string
  cl_iat :: ms
  cl_exp :: ms
  cl_public_key :: string

definition validateWorkloadClaims :: "crypto \<Rightarrow> workload_claims \<Rightarrow> string \<Rightarrow> string \<Rightarrow> ms \<Rightarrow> string + workload_claims" where
  "validateWorkloadClaims cy claims audience subject now =
     (if cl_aud claims \<noteq> audience \<or> cl_sub claims \<noteq> subject \<or> cl_iat claims > now \<or> cl_exp claims \<le> now
         \<or> cl_exp claims \<le> cl_iat claims \<or> cl_exp claims - cl_iat claims > 60000
      then Inl ''invalid_workload_claims''
      else if \<not> cy_ed25519 cy (cl_public_key claims) then Inl ''invalid_workload_key''
      else Inr claims)"

definition PROOF_WINDOW_MS :: ms where "PROOF_WINDOW_MS = 30000"

text \<open>The array whose JSON text is signed.\<close>

definition canonicalProof :: "crypto \<Rightarrow> signed_parts \<Rightarrow> string \<Rightarrow> string \<Rightarrow> jsval list" where
  "canonicalProof cy p audience token =
     [JStr ''excubitor-cr-v1'', JStr (toUpperCase (sp_method p)), JStr (sp_path p), JInt (sp_timestamp p),
      JStr (sp_nonce p), JStr (bodyDigest cy (sp_body p)), JStr audience, JStr (bodyDigest cy token)]"

definition base64url_char :: "char \<Rightarrow> bool" where
  "base64url_char c \<longleftrightarrow> (let n = of_char c :: nat in
     (65 \<le> n \<and> n \<le> 90) \<or> (97 \<le> n \<and> n \<le> 122) \<or> (48 \<le> n \<and> n \<le> 57) \<or> c = CHR ''_'' \<or> c = CHR ''-'')"

definition verifyMeshProof :: "crypto \<Rightarrow> string \<Rightarrow> signed_parts \<Rightarrow> string \<Rightarrow> string \<Rightarrow> string \<Rightarrow> bool" where
  "verifyMeshProof cy publicKey p audience token signature =
     (if \<not> (length signature = 86 \<and> list_all base64url_char signature) then False
      else cy_ed25519 cy publicKey \<and> cy_verify cy publicKey (canonicalProof cy p audience token) signature)"

section \<open>The durable nonce store\<close>

type_synonym nonce_store = "((string \<times> string) \<times> ms) list"

definition rememberMeshNonce :: "string \<times> string \<Rightarrow> ms \<Rightarrow> ms \<Rightarrow> nonce_store \<Rightarrow> bool \<times> nonce_store" where
  "rememberMeshNonce k expiresAt now store =
     (let store = filter (\<lambda>(_, e). \<not> e \<le> now) store in
      if length store \<ge> 100000 then (False, store)
      else if k \<in> fst ` set store then (False, store)
      else (True, store @ [(k, expiresAt)]))"

definition held_row :: "nonce_store \<Rightarrow> string \<times> string \<Rightarrow> ms \<Rightarrow> bool" where
  "held_row store k t \<longleftrightarrow> (\<exists>(k', e) \<in> set store. k' = k \<and> t \<le> e)"

interpretation nonce_store: replay_guard rememberMeshNonce held_row
proof
  show "held_row g' k until" if "rememberMeshNonce k until now g = (True, g')" for k until now g g'
    using that by (auto simp: rememberMeshNonce_def Let_def held_row_def split: if_splits)
  show "\<not> fst (rememberMeshNonce k until now g)" if "held_row g k t" "now < t" for k until now t g
  proof -
    obtain e where e: "(k, e) \<in> set g" "now < e" using \<open>held_row g k t\<close> \<open>now < t\<close> by (auto simp: held_row_def)
    then have "k \<in> fst ` set (filter (\<lambda>(_, e). \<not> e \<le> now) g)" by force
    then show ?thesis by (simp add: rememberMeshNonce_def Let_def)
  qed
  show "held_row (snd (rememberMeshNonce k' until now g)) k t" if "held_row g k t" "now < t" for k k' until now t g
    using that by (fastforce simp: rememberMeshNonce_def Let_def held_row_def)
qed

section \<open>Requests\<close>

record peer_row =
  pw_id :: string
  pw_name :: string
  pw_token :: string
  pw_enabled :: bool

text \<open>\<open>hr_timestamp\<close> is \<open>Number\<close> of its header where that is a safe integer.\<close>

record http_request =
  hr_protocol :: string
  hr_method :: string
  hr_pathname :: string
  hr_search :: string
  hr_signature :: "string option"
  hr_nonce :: "string option"
  hr_timestamp :: "ms option"
  hr_mode :: "string option"
  hr_subject :: "string option"
  hr_audience :: "string option"
  hr_authorization :: "string option"

definition text_or_empty :: "string option \<Rightarrow> string" where
  "text_or_empty x = (case x of Some s \<Rightarrow> s | None \<Rightarrow> [])"

definition request_parts :: "http_request \<Rightarrow> ms \<Rightarrow> string \<Rightarrow> signed_parts" where
  "request_parts r timestamp body =
     \<lparr>sp_method = hr_method r, sp_path = hr_pathname r @ hr_search r, sp_timestamp = timestamp,
      sp_nonce = text_or_empty (hr_nonce r), sp_body = body\<rparr>"

definition verifyMeshToken :: "string \<Rightarrow> string option \<Rightarrow> bool" where
  "verifyMeshToken meshToken header =
     (let h = text_or_empty header in
      if h = [] then False
      else let provided = (if starts_with ''bearer '' (js_lower h) then js_trim (drop 7 h) else js_trim h)
        in if provided = [] then False else provided = meshToken)"

record accepted_request =
  ar_request :: http_request
  ar_parts :: signed_parts
  ar_legacy :: bool
  ar_peer :: string
  ar_token :: string
  ar_at :: ms
  ar_life :: nat
  ar_policy :: mesh_policy
  ar_table :: "peer_row list"
  ar_mesh_token :: string

record mesh_state =
  ms_clock :: ms
  ms_legacy :: nonce_cache
  ms_store :: nonce_store
  ms_life :: nat
  ms_accepted :: "accepted_request list"

record mesh_world =
  mw_policy :: "string + mesh_policy"
  mw_peers :: "peer_row list"
  mw_token :: string
  mw_store_fails :: bool

datatype mesh_query = MqTurn | MqBody | MqIntrospect string
datatype mesh_answer = MaTurn | MaBody string | MaClaims "string + workload_claims"
datatype mesh_reply = Refused nat string | Passed

type_synonym 'r mact = "(mesh_state, mesh_world, mesh_query, mesh_answer, string, 'r) async"

section \<open>Workload authentication\<close>

text \<open>The last stretch, after the answer of the authority; \<open>config\<close> and \<open>table\<close> are for the history only.\<close>

definition accept_workload :: "crypto \<Rightarrow> mesh_config \<Rightarrow> peer_row list \<Rightarrow> http_request \<Rightarrow> signed_parts \<Rightarrow> peer_row \<Rightarrow> string
    \<Rightarrow> workload_claims \<Rightarrow> (mesh_reply + peer_row) mact" where
  "accept_workload cy config table r parts peer token claims = look (\<lambda>w s.
     let acceptedAt = ms_clock s; expiresAt = cl_exp claims; subject = text_or_empty (hr_subject r) in
     if \<not> verifyMeshProof cy (cl_public_key claims) parts (text_or_empty (hr_audience r)) token (text_or_empty (hr_signature r))
     then ret (Inl (Refused 401 ''invalid_workload_proof''))
     else if expiresAt \<le> acceptedAt \<or> \<bar>acceptedAt - sp_timestamp parts\<bar> > PROOF_WINDOW_MS
     then ret (Inl (Refused 401 ''stale_request''))
     else if mw_store_fails w then ret (Inl (Refused 503 ''replay_store_unavailable''))
     else case rememberMeshNonce (subject, sp_nonce parts) expiresAt acceptedAt (ms_store s) of
         (False, store) \<Rightarrow> andThen (modify (\<lambda>s. s\<lparr>ms_store := store\<rparr>)) (ret (Inl (Refused 401 ''replayed_request'')))
       | (True, store) \<Rightarrow>
           andThen (modify (\<lambda>s'. s'\<lparr>ms_store := store,
               ms_accepted := ms_accepted s' @ [\<lparr>ar_request = r, ar_parts = parts, ar_legacy = False, ar_peer = pw_id peer,
                 ar_token = token, ar_at = acceptedAt, ar_life = ms_life s, ar_policy = Configured config, ar_table = table,
                 ar_mesh_token = mw_token w\<rparr>]\<rparr>))
             (ret (Inr peer)))"

definition authenticateCrRequest :: "crypto \<Rightarrow> mesh_config \<Rightarrow> http_request \<Rightarrow> signed_parts \<Rightarrow> (mesh_reply + peer_row) mact" where
  "authenticateCrRequest cy config r parts = look (\<lambda>w s.
     let subject = text_or_empty (hr_subject r); audience = text_or_empty (hr_audience r);
         authorization = text_or_empty (hr_authorization r) in
     if hr_protocol r \<noteq> ''https:'' then ret (Inl (Refused 403 ''mesh_https_required''))
     else case find (\<lambda>p. pw_enabled p \<and> map_of (mc_peers config) (pw_id p) = Some (PolicyCr subject)) (mw_peers w) of
       None \<Rightarrow> ret (Inl (Refused 403 ''peer_not_registered''))
     | Some peer \<Rightarrow>
         if audience \<noteq> mc_subject config then ret (Inl (Refused 403 ''peer_not_registered''))
         else if \<bar>ms_clock s - sp_timestamp parts\<bar> > PROOF_WINDOW_MS then ret (Inl (Refused 401 ''stale_request''))
         else if \<not> starts_with ''Bearer '' authorization \<or> length authorization > 32775
         then ret (Inl (Refused 401 ''unauthorized''))
         else let token = drop 7 authorization in
           bind (await (MqIntrospect token)) (\<lambda>a. look (\<lambda>_ s1.
             case a of
               MaClaims (Inr claims) \<Rightarrow>
                 (case validateWorkloadClaims cy claims audience subject (ms_clock s1) of
                    Inl _ \<Rightarrow> ret (Inl (Refused 401 ''workload_authentication_failed''))
                  | Inr claims \<Rightarrow> accept_workload cy config (mw_peers w) r parts peer token claims)
             | _ \<Rightarrow> ret (Inl (Refused 401 ''workload_authentication_failed'')))))"

section \<open>The middleware\<close>

definition legacy_request :: "crypto \<Rightarrow> mesh_policy \<Rightarrow> http_request \<Rightarrow> signed_parts \<Rightarrow> ms \<Rightarrow> mesh_reply mact" where
  "legacy_request cy policy r parts current = look (\<lambda>w s.
     if hr_mode r \<noteq> None \<and> hr_mode r \<noteq> Some [] \<and> hr_mode r \<noteq> Some ''legacy-monitor''
     then ret (Refused 401 ''unsupported_auth_mode'')
     else if \<not> isLegacyMonitorRequest (hr_method r) (hr_pathname r) then ret (Refused 403 ''legacy_monitor_only'')
     else if \<not> verifyMeshToken (mw_token w) (hr_authorization r) then ret (Refused 401 ''unauthorized'')
     else if \<bar>current - sp_timestamp parts\<bar> > SIGNATURE_MAX_SKEW_MS then ret (Refused 401 ''stale_request'')
     else case find (\<lambda>p. pw_enabled p \<and> allowsLegacyMonitorPeer policy (pw_id p) \<and> pw_token p \<noteq> []
              \<and> verifyRequestSignature cy (pw_token p) parts (text_or_empty (hr_signature r))) (mw_peers w) of
       None \<Rightarrow> ret (Refused 403 ''peer_not_registered'')
     | Some peer \<Rightarrow>
         (case remember (SIGNATURE_MAX_SKEW_MS * 2) (pw_id peer @ '':'' @ sp_nonce parts) current (ms_legacy s) of
            (False, cache) \<Rightarrow> andThen (modify (\<lambda>s. s\<lparr>ms_legacy := cache\<rparr>)) (ret (Refused 401 ''replayed_request''))
          | (True, cache) \<Rightarrow>
              andThen (modify (\<lambda>s'. s'\<lparr>ms_legacy := cache,
                  ms_accepted := ms_accepted s' @ [\<lparr>ar_request = r, ar_parts = parts, ar_legacy = True, ar_peer = pw_id peer,
                    ar_token = pw_token peer, ar_at = current, ar_life = ms_life s, ar_policy = policy, ar_table = mw_peers w,
                    ar_mesh_token = mw_token w\<rparr>]\<rparr>))
                (ret Passed)))"

definition nonce_shape :: "string \<Rightarrow> bool" where
  "nonce_shape nonce \<longleftrightarrow> \<not> (length nonce < 16 \<or> length nonce > 128 \<or> \<not> list_all base64url_char nonce)"

definition read_body :: "http_request \<Rightarrow> string mact" where
  "read_body r =
     (if hr_method r = ''GET'' \<or> hr_method r = ''HEAD'' then ret []
      else bind (await MqBody) (\<lambda>a. case a of MaBody b \<Rightarrow> ret b | _ \<Rightarrow> throw ''body unavailable''))"

definition requireMutualPeer :: "crypto \<Rightarrow> http_request \<Rightarrow> mesh_reply mact" where
  "requireMutualPeer cy r = look (\<lambda>w s.
     case mw_policy w of
       Inl _ \<Rightarrow> ret (Refused 503 ''mesh_security_unavailable'')
     | Inr policy \<Rightarrow>
         if text_or_empty (hr_signature r) = [] \<or> \<not> nonce_shape (text_or_empty (hr_nonce r)) \<or> hr_timestamp r = None
         then ret (Refused 401 ''signature_required'')
         else bind (read_body r) (\<lambda>body.
           if length body > 64 * 1024 then ret (Refused 413 ''body_too_large'')
           else let parts = request_parts r (the (hr_timestamp r)) body in
             if hr_mode r = Some ''cr-v1'' then
               (case policy of
                  LegacyMonitorMigration \<Rightarrow> ret (Refused 503 ''mesh_security_unavailable'')
                | Configured config \<Rightarrow>
                    bind (call MqTurn (authenticateCrRequest cy config r parts))
                      (\<lambda>auth. ret (case auth of Inl refused \<Rightarrow> refused | Inr _ \<Rightarrow> Passed)))
             else legacy_request cy policy r parts (ms_clock s)))"

end
