(* ===== verification/Mesh_Safety.thy ===== *)
theory Mesh_Safety imports Mesh_Auth begin

text \<open>
  What the site authentication guarantees under every interleaving of requests while the clock goes
  forward: an accepted request was authenticated, and a replay is refused.
\<close>

section \<open>The invariant\<close>

text \<open>
  \<open>slot\<close> is the entry of a request in one of the two memories of nonces, \<open>refused_until\<close> the time to
  which it is kept; \<open>issued\<close> maps a token to the issued its issuer gave it.
\<close>

type_synonym issuer = "string \<Rightarrow> workload_claims"

definition slot :: "accepted_request \<Rightarrow> nat \<times> string + string \<times> string" where
  "slot e =
     (if ar_legacy e then Inl (ar_life e, ar_peer e @ '':'' @ sp_nonce (ar_parts e))
      else Inr (text_or_empty (hr_subject (ar_request e)), sp_nonce (ar_parts e)))"

definition refused_until :: "issuer \<Rightarrow> accepted_request \<Rightarrow> ms" where
  "refused_until issued e = (if ar_legacy e then ar_at e + SIGNATURE_MAX_SKEW_MS * 2 else cl_exp (issued (ar_token e)))"

definition held_slot :: "mesh_state \<Rightarrow> nat \<times> string + string \<times> string \<Rightarrow> ms \<Rightarrow> bool" where
  "held_slot s k t = (case k of Inl (life, n) \<Rightarrow> life = ms_life s \<and> held_nonce (ms_legacy s) n t | Inr n \<Rightarrow> held_row (ms_store s) n t)"

text \<open>
  What authentication means, stated over the request, the tables read for it and the claims its token was
  issued with, not over the checks of the middleware.
\<close>

definition bears :: "http_request \<Rightarrow> string \<Rightarrow> bool" where
  "bears r token \<longleftrightarrow> token \<noteq> [] \<and> (let h = text_or_empty (hr_authorization r) in
     js_trim h = token \<or> starts_with ''bearer '' (js_lower h) \<and> js_trim (drop 7 h) = token)"

definition enabled_row :: "accepted_request \<Rightarrow> peer_row \<Rightarrow> bool" where
  "enabled_row e row \<longleftrightarrow> row \<in> set (ar_table e) \<and> pw_id row = ar_peer e \<and> pw_enabled row"

definition authentic_legacy :: "crypto \<Rightarrow> accepted_request \<Rightarrow> bool" where
  "authentic_legacy cy e \<longleftrightarrow> hr_method (ar_request e) = ''GET'' \<and> hr_pathname (ar_request e) \<in> set LEGACY_MONITOR_PATHS
     \<and> bears (ar_request e) (ar_mesh_token e)
     \<and> (case ar_policy e of LegacyMonitorMigration \<Rightarrow> True
        | Configured config \<Rightarrow> map_of (mc_peers config) (ar_peer e) = Some PolicyLegacyMonitor)
     \<and> (\<exists>row. enabled_row e row \<and> pw_token row \<noteq> []
          \<and> verifyRequestSignature cy (pw_token row) (ar_parts e) (text_or_empty (hr_signature (ar_request e))))
     \<and> \<bar>ar_at e - sp_timestamp (ar_parts e)\<bar> \<le> SIGNATURE_MAX_SKEW_MS"

definition registered_workload :: "accepted_request \<Rightarrow> bool" where
  "registered_workload e \<longleftrightarrow> (\<exists>config row. ar_policy e = Configured config \<and> enabled_row e row
     \<and> map_of (mc_peers config) (ar_peer e) = Some (PolicyCr (text_or_empty (hr_subject (ar_request e))))
     \<and> text_or_empty (hr_audience (ar_request e)) = mc_subject config)"

definition fits_claims :: "crypto \<Rightarrow> accepted_request \<Rightarrow> workload_claims \<Rightarrow> bool" where
  "fits_claims cy e c \<longleftrightarrow> cl_sub c = text_or_empty (hr_subject (ar_request e))
     \<and> cl_aud c = text_or_empty (hr_audience (ar_request e))
     \<and> cl_iat c \<le> ar_at e \<and> ar_at e < cl_exp c \<and> cl_exp c - cl_iat c \<le> 60000
     \<and> cy_ed25519 cy (cl_public_key c)
     \<and> cy_verify cy (cl_public_key c)
         (canonicalProof cy (ar_parts e) (text_or_empty (hr_audience (ar_request e))) (ar_token e))
         (text_or_empty (hr_signature (ar_request e)))"

definition authentic_workload :: "crypto \<Rightarrow> issuer \<Rightarrow> accepted_request \<Rightarrow> bool" where
  "authentic_workload cy issued e \<longleftrightarrow> hr_protocol (ar_request e) = ''https:''
     \<and> text_or_empty (hr_authorization (ar_request e)) = ''Bearer '' @ ar_token e
     \<and> registered_workload e \<and> fits_claims cy e (issued (ar_token e))
     \<and> \<bar>ar_at e - sp_timestamp (ar_parts e)\<bar> \<le> PROOF_WINDOW_MS"

definition authentic :: "crypto \<Rightarrow> issuer \<Rightarrow> accepted_request \<Rightarrow> bool" where
  "authentic cy issued e \<longleftrightarrow> (ar_legacy e \<longleftrightarrow> hr_mode (ar_request e) \<noteq> Some ''cr-v1'')
     \<and> (\<exists>body. ar_parts e = request_parts (ar_request e) (the (hr_timestamp (ar_request e))) body)
     \<and> (if ar_legacy e then authentic_legacy cy e else authentic_workload cy issued e)"

definition apart :: "issuer \<Rightarrow> accepted_request \<Rightarrow> accepted_request \<Rightarrow> bool" where
  "apart issued e f \<longleftrightarrow> (slot e = slot f \<longrightarrow> refused_until issued e \<le> ar_at f)"

definition remembered :: "issuer \<Rightarrow> mesh_state \<Rightarrow> accepted_request \<Rightarrow> bool" where
  "remembered issued s e \<longleftrightarrow> (ar_legacy e \<longrightarrow> ar_life e = ms_life s) \<longrightarrow> ms_clock s < refused_until issued e
     \<longrightarrow> held_slot s (slot e) (refused_until issued e)"

definition mesh_inv :: "crypto \<Rightarrow> issuer \<Rightarrow> mesh_state \<Rightarrow> bool" where
  "mesh_inv cy issued s \<longleftrightarrow> sorted_wrt (apart issued) (ms_accepted s)
     \<and> (\<forall>e \<in> set (ms_accepted s). authentic cy issued e \<and> remembered issued s e \<and> ar_life e \<le> ms_life s)"

text \<open>Other handlers and the clock do anything that keeps the invariant; a token has one set of
  claims, which a positive answer of its issuer repeats.\<close>

definition mesh_fits :: "issuer \<Rightarrow> mesh_query \<Rightarrow> mesh_answer \<Rightarrow> mesh_state \<Rightarrow> bool" where
  "mesh_fits issued q a s \<longleftrightarrow>
     (case (q, a) of (MqIntrospect token, MaClaims (Inr claims)) \<Rightarrow> claims = issued token | _ \<Rightarrow> True)"

interpretation mesh: async_safety "mesh_inv cy issued" "\<lambda>_ _. True" "\<lambda>_ _. True" "mesh_fits issued" "\<lambda>_ _. True"
  for cy issued
  by unfold_locales simp_all

section \<open>The two guards\<close>

lemma legacy_guard:
  "remember (SIGNATURE_MAX_SKEW_MS * 2) k now c = nonce_guard k (now + SIGNATURE_MAX_SKEW_MS * 2) now c"
  by (simp add: nonce_guard_def)

lemma guarded_accept:
  assumes inv: "mesh_inv cy issued s"
    and s': "ms_clock s' = ms_clock s" "ms_accepted s' = ms_accepted s @ [e]" "ms_life s' = ms_life s"
    and kept: "\<And>k t. held_slot s k t \<Longrightarrow> ms_clock s < t \<Longrightarrow> held_slot s' k t"
    and fresh: "\<And>t. held_slot s (slot e) t \<Longrightarrow> \<not> ms_clock s < t"
    and new: "held_slot s' (slot e) (refused_until issued e)" "ar_at e = ms_clock s" "authentic cy issued e" "ar_life e = ms_life s"
  shows "mesh_inv cy issued s'"
proof -
  have old: "authentic cy issued f \<and> remembered issued s f \<and> ar_life f \<le> ms_life s" if "f \<in> set (ms_accepted s)" for f
    using inv that by (simp add: mesh_inv_def)
  have "apart issued f e" if "f \<in> set (ms_accepted s)" for f
  proof -
    have "\<not> ms_clock s < refused_until issued f" if "slot f = slot e"
    proof -
      have "ar_legacy f \<longrightarrow> ar_life f = ms_life s" using that new(4) by (auto simp: slot_def split: if_splits)
      then show ?thesis using old [OF \<open>f \<in> set (ms_accepted s)\<close>] fresh that by (auto simp: remembered_def)
    qed
    then show ?thesis using new(2) by (auto simp: apart_def)
  qed
  moreover have "remembered issued s' f" if "f \<in> set (ms_accepted s)" for f
    using old [OF that] kept s'(1,3) by (simp add: remembered_def)
  moreover have "remembered issued s' e" using new(1) by (simp add: remembered_def)
  ultimately show ?thesis using inv s'(2,3) new(3,4) old by (auto simp: mesh_inv_def sorted_wrt_append)
qed

lemma guarded_refusal:
  assumes inv: "mesh_inv cy issued s" and s': "ms_clock s' = ms_clock s" "ms_accepted s' = ms_accepted s" "ms_life s' = ms_life s"
    and kept: "\<And>k t. held_slot s k t \<Longrightarrow> ms_clock s < t \<Longrightarrow> held_slot s' k t"
  shows "mesh_inv cy issued s'"
  using inv s' kept by (auto simp: mesh_inv_def remembered_def)

lemma legacy_kept:
  assumes "nonce_guard k until (ms_clock s) (ms_legacy s) = (b, cache)" "held_slot s n t" "ms_clock s < t"
  shows "held_slot (s\<lparr>ms_legacy := cache, ms_accepted := h\<rparr>) n t"
  using nonce_cache.held_stays [of "ms_legacy s" _ t "ms_clock s" k until] assms
  by (auto simp: held_slot_def split: sum.splits)

lemma store_kept:
  assumes "rememberMeshNonce k until (ms_clock s) (ms_store s) = (b, store)" "held_slot s n t" "ms_clock s < t"
  shows "held_slot (s\<lparr>ms_store := store, ms_accepted := h\<rparr>) n t"
  using nonce_store.held_stays [of "ms_store s" _ t "ms_clock s" k until] assms
  by (auto simp: held_slot_def split: sum.splits)

section \<open>The handlers\<close>

lemma modify_then_ret:
  assumes "mesh_inv cy issued s \<Longrightarrow> mesh_inv cy issued (f s)"
  shows "mesh.triple cy issued (\<lambda>t. t = s) (andThen (modify f) (ret x)) (\<lambda>_ _. True)"
proof (rule mesh.triple_andThen)
  show "mesh.triple cy issued (\<lambda>t. t = s) (modify f) (\<lambda>_ _. True)"
    using assms by (intro mesh.triple_modify) simp
qed (rule mesh.triple_ret, simp_all)

lemma mesh_ret: "mesh.triple cy issued P (ret x) (\<lambda>_ _. True)"
  by (rule mesh.triple_ret) simp

lemma accept_workload_triple:
  assumes r: "hr_protocol r = ''https:''" "hr_mode r = Some ''cr-v1''" "text_or_empty (hr_authorization r) = ''Bearer '' @ token"
    and peer: "peer \<in> set table" "pw_enabled peer"
      "map_of (mc_peers config) (pw_id peer) = Some (PolicyCr (text_or_empty (hr_subject r)))"
    and aud: "text_or_empty (hr_audience r) = mc_subject config"
    and valid: "validateWorkloadClaims cy claims (text_or_empty (hr_audience r)) (text_or_empty (hr_subject r)) now = Inr claims"
    and parts: "parts = request_parts r (the (hr_timestamp r)) body" and exp: "claims = issued token"
  shows "mesh.triple cy issued (\<lambda>s. ms_clock s = now) (accept_workload cy config table r parts peer token claims) (\<lambda>_ _. True)"
  unfolding accept_workload_def Let_def
proof (intro mesh.triple_look mesh.triple_if mesh_ret)
  fix w :: mesh_world and s :: mesh_state
  let ?k = "(text_or_empty (hr_subject r), sp_nonce parts)"
  let ?e = "\<lparr>ar_request = r, ar_parts = parts, ar_legacy = False, ar_peer = pw_id peer, ar_token = token, ar_at = ms_clock s,
      ar_life = ms_life s, ar_policy = Configured config, ar_table = table, ar_mesh_token = mw_token w\<rparr>"
  assume proof_ok: "\<not> \<not> verifyMeshProof cy (cl_public_key claims) parts (text_or_empty (hr_audience r)) token (text_or_empty (hr_signature r))"
    and time: "\<not> (cl_exp claims \<le> ms_clock s \<or> PROOF_WINDOW_MS < \<bar>ms_clock s - sp_timestamp parts\<bar>)"
  obtain b store where g: "rememberMeshNonce ?k (cl_exp claims) (ms_clock s) (ms_store s) = (b, store)" by fastforce
  have auth: "authentic cy issued ?e" if now: "ms_clock s = now"
  proof -
    have "registered_workload ?e" using peer aud by (auto simp: registered_workload_def enabled_row_def)
    moreover have "fits_claims cy ?e claims"
      using valid proof_ok time now by (auto simp: fits_claims_def validateWorkloadClaims_def verifyMeshProof_def split: if_splits)
    ultimately show ?thesis using r parts time exp by (auto simp: authentic_def authentic_workload_def)
  qed
  have acc: "mesh_inv cy issued (s\<lparr>ms_store := store, ms_accepted := ms_accepted s @ [?e]\<rparr>)"
    if "mesh_inv cy issued s" "b" and now: "ms_clock s = now"
  proof (rule guarded_accept [OF that(1), where e = ?e])
    show "held_slot (s\<lparr>ms_store := store, ms_accepted := ms_accepted s @ [?e]\<rparr>) (slot ?e) (refused_until issued ?e)"
      using nonce_store.accepted_held g that(2) exp by (simp add: held_slot_def slot_def refused_until_def)
    show "\<not> ms_clock s < t" if "held_slot s (slot ?e) t" for t
      using nonce_store.held_refused [of "ms_store s" ?k t "ms_clock s" "cl_exp claims"] g that \<open>b\<close>
      by (auto simp: held_slot_def slot_def)
    show "held_slot (s\<lparr>ms_store := store, ms_accepted := ms_accepted s @ [?e]\<rparr>) n t" if "held_slot s n t" "ms_clock s < t" for n t
      by (rule store_kept [OF g that])
  qed (use auth [OF now] in simp_all)
  have ref: "mesh_inv cy issued (s\<lparr>ms_store := store\<rparr>)" if "mesh_inv cy issued s"
    using store_kept [OF g, where h = "ms_accepted s"] by (intro guarded_refusal [OF that]) simp_all
  show "mesh.triple cy issued (\<lambda>t. ms_clock t = now \<and> t = s)
      (case rememberMeshNonce ?k (cl_exp claims) (ms_clock s) (ms_store s) of
         (True, store) \<Rightarrow> andThen (modify (\<lambda>s'. s'\<lparr>ms_store := store, ms_accepted := ms_accepted s' @ [?e]\<rparr>)) (ret (Inr peer))
       | (False, store) \<Rightarrow> andThen (modify (\<lambda>s. s\<lparr>ms_store := store\<rparr>)) (ret (Inl (Refused 401 ''replayed_request''))))
      (\<lambda>_ _. True)"
  proof (cases "ms_clock s = now")
    case True
    then have "(\<lambda>t. ms_clock t = now \<and> t = s) = (\<lambda>t. t = s)" by auto
    then show ?thesis
      unfolding g by (cases b) (auto intro!: modify_then_ret acc [OF _ _ True] ref)
  next
    case False
    show ?thesis by (rule mesh.tripleI) (use False in simp)
  qed
qed

lemma ok_authenticateCrRequest:
  assumes r: "hr_mode r = Some ''cr-v1''" and parts: "parts = request_parts r (the (hr_timestamp r)) body"
  shows "mesh.ok cy issued (authenticateCrRequest cy config r parts)"
proof -
  let ?bearer = "text_or_empty (hr_authorization r)" and ?subject = "text_or_empty (hr_subject r)" and ?audience = "text_or_empty (hr_audience r)"
  let ?answered = "\<lambda>table peer a. look (\<lambda>_ s1. case a of
      MaClaims (Inr claims) \<Rightarrow>
        (case validateWorkloadClaims cy claims ?audience ?subject (ms_clock s1) of
           Inl _ \<Rightarrow> ret (Inl (Refused 401 ''workload_authentication_failed''))
         | Inr claims \<Rightarrow> accept_workload cy config table r parts peer (drop 7 ?bearer) claims)
    | _ \<Rightarrow> ret (Inl (Refused 401 ''workload_authentication_failed'')))"
  have asked: "mesh.ok cy issued (bind (await (MqIntrospect (drop 7 ?bearer))) (?answered table peer))"
    if https: "hr_protocol r = ''https:''" and bearer: "starts_with ''Bearer '' ?bearer" and aud: "?audience = mc_subject config"
      and found: "find (\<lambda>p. pw_enabled p \<and> map_of (mc_peers config) (pw_id p) = Some (PolicyCr ?subject)) table = Some peer"
    for table peer
    unfolding mesh.ok_def
  proof (rule mesh.triple_bind [where Q = "\<lambda>x _. \<forall>c. x = Inr (MaClaims (Inr c)) \<longrightarrow> c = issued (drop 7 ?bearer)"])
    show "mesh.triple cy issued (\<lambda>_. True) (await (MqIntrospect (drop 7 ?bearer)))
        (\<lambda>x _. \<forall>c. x = Inr (MaClaims (Inr c)) \<longrightarrow> c = issued (drop 7 ?bearer))"
      by (rule mesh.triple_await [where L = "\<lambda>_. True"]) (auto simp: mesh_fits_def)
    fix a
    have full: "?bearer = ''Bearer '' @ drop 7 ?bearer" using bearer by (auto simp: starts_with_iff)
    have peer: "peer \<in> set table" "pw_enabled peer" "map_of (mc_peers config) (pw_id peer) = Some (PolicyCr ?subject)"
      using found by (auto simp: find_Some_iff)
    show "mesh.triple cy issued (\<lambda>_. \<forall>c. Inr a = Inr (MaClaims (Inr c)) \<longrightarrow> c = issued (drop 7 ?bearer))
      (?answered table peer a) (\<lambda>_ _. True)"
    proof (cases "\<exists>c. a = MaClaims (Inr c) \<and> c = issued (drop 7 ?bearer)")
      case True
      then obtain c where a: "a = MaClaims (Inr c)" and c: "c = issued (drop 7 ?bearer)" by blast
      have "mesh.triple cy issued (\<lambda>t. (\<forall>c. Inr a = Inr (MaClaims (Inr c)) \<longrightarrow> c = issued (drop 7 ?bearer)) \<and> t = s1)
        (case validateWorkloadClaims cy c ?audience ?subject (ms_clock s1) of
           Inl _ \<Rightarrow> ret (Inl (Refused 401 ''workload_authentication_failed''))
         | Inr claims \<Rightarrow> accept_workload cy config table r parts peer (drop 7 ?bearer) claims) (\<lambda>_ _. True)" for s1
      proof (cases "validateWorkloadClaims cy c ?audience ?subject (ms_clock s1)")
        case (Inr d)
        then have d: "d = c" by (auto simp: validateWorkloadClaims_def split: if_splits)
        show ?thesis unfolding Inr sum.case
          by (rule mesh.triple_pre [OF accept_workload_triple [OF https r full peer aud Inr [folded d] parts]]) (simp_all add: d c)
      qed (simp add: mesh_ret)
      then show ?thesis unfolding a mesh_answer.case sum.case by (intro mesh.triple_look) (simp add: a)
    next
      case False
      then show ?thesis
        by (cases "\<exists>c. a = MaClaims (Inr c)")
          (force simp: mesh.triple_def, auto split: mesh_answer.split sum.split intro!: mesh.triple_look mesh_ret)
    qed
  qed simp
  show ?thesis unfolding authenticateCrRequest_def Let_def
    by (intro mesh.ok_look mesh.ok_if mesh.ok_case_option mesh.ok_ret asked) simp_all
qed

lemma legacy_request_triple:
  assumes mode: "hr_mode r \<noteq> Some ''cr-v1''" and parts: "parts = request_parts r (the (hr_timestamp r)) body"
  shows "mesh.triple cy issued (\<lambda>s. hr_method r = ''GET'' \<longrightarrow> ms_clock s = current) (legacy_request cy policy r parts current) (\<lambda>_ _. True)"
  unfolding legacy_request_def
proof (intro mesh.triple_look mesh.triple_if mesh.triple_case_option mesh_ret)
  fix w :: mesh_world and s :: mesh_state and peer :: peer_row
  let ?k = "pw_id peer @ '':'' @ sp_nonce parts" and ?r = "SIGNATURE_MAX_SKEW_MS * 2"
  let ?e = "\<lparr>ar_request = r, ar_parts = parts, ar_legacy = True, ar_peer = pw_id peer, ar_token = pw_token peer, ar_at = current,
      ar_life = ms_life s, ar_policy = policy, ar_table = mw_peers w, ar_mesh_token = mw_token w\<rparr>"
  assume get: "\<not> \<not> isLegacyMonitorRequest (hr_method r) (hr_pathname r)"
    and time: "\<not> \<bar>current - sp_timestamp parts\<bar> > SIGNATURE_MAX_SKEW_MS"
    and peer: "find (\<lambda>p. pw_enabled p \<and> allowsLegacyMonitorPeer policy (pw_id p) \<and> pw_token p \<noteq> []
        \<and> verifyRequestSignature cy (pw_token p) parts (text_or_empty (hr_signature r))) (mw_peers w) = Some peer"
    and bearer: "\<not> \<not> verifyMeshToken (mw_token w) (hr_authorization r)"
  have row: "peer \<in> set (mw_peers w)" "pw_enabled peer" "allowsLegacyMonitorPeer policy (pw_id peer)" "pw_token peer \<noteq> []"
    "verifyRequestSignature cy (pw_token peer) parts (text_or_empty (hr_signature r))"
    using peer by (auto simp: find_Some_iff)
  obtain b cache where g: "remember ?r ?k current (ms_legacy s) = (b, cache)" by fastforce
  have auth: "authentic cy issued ?e"
  proof -
    have "bears r (mw_token w)" using bearer by (auto simp: bears_def verifyMeshToken_def Let_def split: if_splits)
    moreover have "case policy of LegacyMonitorMigration \<Rightarrow> True | Configured config \<Rightarrow> map_of (mc_peers config) (pw_id peer) = Some PolicyLegacyMonitor"
      using row(3) by (simp add: allowsLegacyMonitorPeer_def split: mesh_policy.splits)
    moreover have "enabled_row ?e peer" using row by (simp add: enabled_row_def)
    ultimately show ?thesis
      using mode parts get time row(4,5) by (auto simp: authentic_def authentic_legacy_def isLegacyMonitorRequest_def split: mesh_policy.splits)
  qed
  have acc: "mesh_inv cy issued (s\<lparr>ms_legacy := cache, ms_accepted := ms_accepted s @ [?e]\<rparr>)"
    if now: "ms_clock s = current" and inv: "mesh_inv cy issued s" and b: "b"
  proof (rule guarded_accept [OF inv, where e = ?e])
    note g' = g [unfolded legacy_guard, folded now]
    show "held_slot (s\<lparr>ms_legacy := cache, ms_accepted := ms_accepted s @ [?e]\<rparr>) (slot ?e) (refused_until issued ?e)"
      using nonce_cache.accepted_held g' b now by (simp add: held_slot_def slot_def refused_until_def)
    show "\<not> ms_clock s < t" if "held_slot s (slot ?e) t" for t
      using nonce_cache.held_refused [of "ms_legacy s" ?k t "ms_clock s" "ms_clock s + ?r"] g' that b
      by (auto simp: held_slot_def slot_def)
    show "held_slot (s\<lparr>ms_legacy := cache, ms_accepted := ms_accepted s @ [?e]\<rparr>) n t" if "held_slot s n t" "ms_clock s < t" for n t
      by (rule legacy_kept [OF g' that])
  qed (use auth now in simp_all)
  have ref: "mesh_inv cy issued (s\<lparr>ms_legacy := cache\<rparr>)" if now: "ms_clock s = current" and inv: "mesh_inv cy issued s"
    using legacy_kept [OF g [unfolded legacy_guard, folded now], where h = "ms_accepted s"]
    by (intro guarded_refusal [OF inv]) simp_all
  have final: "mesh.triple cy issued (\<lambda>t. True \<and> t = s)
      (case remember ?r ?k current (ms_legacy s) of
         (True, cache) \<Rightarrow> andThen (modify (\<lambda>s'. s'\<lparr>ms_legacy := cache, ms_accepted := ms_accepted s' @ [?e]\<rparr>)) (ret Passed)
       | (False, cache) \<Rightarrow> andThen (modify (\<lambda>s. s\<lparr>ms_legacy := cache\<rparr>)) (ret (Refused 401 ''replayed_request'')))
      (\<lambda>_ _. True)" if "ms_clock s = current"
  proof (cases b)
    case True
    show ?thesis unfolding g by (simp add: True, rule modify_then_ret, rule acc [OF that _ True])
  next
    case False
    show ?thesis unfolding g by (simp add: False, rule modify_then_ret, rule ref [OF that])
  qed
  have is_get: "hr_method r = ''GET''" using get by (simp add: isLegacyMonitorRequest_def)
  show "mesh.triple cy issued (\<lambda>t. (hr_method r = ''GET'' \<longrightarrow> ms_clock t = current) \<and> t = s)
      (case remember ?r ?k current (ms_legacy s) of
         (True, cache) \<Rightarrow> andThen (modify (\<lambda>s'. s'\<lparr>ms_legacy := cache, ms_accepted := ms_accepted s' @ [?e]\<rparr>)) (ret Passed)
       | (False, cache) \<Rightarrow> andThen (modify (\<lambda>s. s\<lparr>ms_legacy := cache\<rparr>)) (ret (Refused 401 ''replayed_request'')))
      (\<lambda>_ _. True)"
  proof (cases "ms_clock s = current")
    case True
    show ?thesis by (rule mesh.triple_pre [OF final [OF True]]) simp
  next
    case False
    show ?thesis by (rule mesh.tripleI) (use False is_get in simp)
  qed
qed

lemma ok_requireMutualPeer: "mesh.ok cy issued (requireMutualPeer cy r)"
  unfolding requireMutualPeer_def mesh.ok_def
proof (rule mesh.triple_look)
  fix w :: mesh_world and s :: mesh_state
  let ?now = "\<lambda>t. hr_method r = ''GET'' \<longrightarrow> ms_clock t = ms_clock s"
  let ?go = "\<lambda>policy body. if length body > 64 * 1024 then ret (Refused 413 ''body_too_large'')
      else let parts = request_parts r (the (hr_timestamp r)) body in
        if hr_mode r = Some ''cr-v1'' then
          (case policy of
             LegacyMonitorMigration \<Rightarrow> ret (Refused 503 ''mesh_security_unavailable'')
           | Configured config \<Rightarrow>
               bind (call MqTurn (authenticateCrRequest cy config r parts))
                 (\<lambda>auth. ret (case auth of Inl refused \<Rightarrow> refused | Inr _ \<Rightarrow> Passed)))
        else legacy_request cy policy r parts (ms_clock s)"
  have go: "mesh.triple cy issued ?now (?go policy body) (\<lambda>_ _. True)" for policy body
  proof -
    have cr: "mesh.ok cy issued (case policy of
             LegacyMonitorMigration \<Rightarrow> ret (Refused 503 ''mesh_security_unavailable'')
           | Configured config \<Rightarrow>
               bind (call MqTurn (authenticateCrRequest cy config r (request_parts r (the (hr_timestamp r)) body)))
                 (\<lambda>auth. ret (case auth of Inl refused \<Rightarrow> refused | Inr _ \<Rightarrow> Passed)))"
      if "hr_mode r = Some ''cr-v1''"
      by (cases policy) (auto intro!: mesh.ok_ret mesh.ok_bind mesh.ok_call ok_authenticateCrRequest [OF that])
    show ?thesis unfolding Let_def
      by (intro mesh.triple_if mesh_ret legacy_request_triple mesh.ok_triple [OF cr]) simp_all
  qed
  have body: "mesh.triple cy issued (\<lambda>t. t = s) (read_body r) (\<lambda>_. ?now)"
  proof (cases "hr_method r = ''GET''")
    case True
    then show ?thesis unfolding read_body_def by (simp, intro mesh.triple_ret) simp
  next
    case False
    have "mesh.keeps cy issued ?now (read_body r)"
      unfolding read_body_def using False
      by (intro mesh.keeps_if mesh.keeps_ret mesh.keeps_bind mesh.keeps_await)
        (auto simp: mesh.stable_def split: mesh_answer.split intro: mesh.keeps_ret mesh.keeps_throw)
    then show ?thesis by (rule mesh.keeps_conseq) simp_all
  qed
  have checked: "mesh.triple cy issued (\<lambda>t. t = s) (bind (read_body r) (?go policy)) (\<lambda>_ _. True)" for policy
    by (rule mesh.triple_bind [OF body]) (use go in simp_all)
  show "mesh.triple cy issued (\<lambda>t. True \<and> t = s)
     (case mw_policy w of
       Inl _ \<Rightarrow> ret (Refused 503 ''mesh_security_unavailable'')
     | Inr policy \<Rightarrow>
         if text_or_empty (hr_signature r) = [] \<or> \<not> nonce_shape (text_or_empty (hr_nonce r)) \<or> hr_timestamp r = None
         then ret (Refused 401 ''signature_required'')
         else bind (read_body r) (?go policy)) (\<lambda>_ _. True)"
  proof (cases "mw_policy w")
    case (Inr policy)
    show ?thesis unfolding Inr sum.case simp_thms by (intro mesh.triple_if mesh_ret checked)
  qed (simp add: mesh_ret)
qed

section \<open>Runs\<close>

text \<open>The memory of the process is new at the start, the durable store is not.\<close>

definition mesh_initial :: "mesh_state \<Rightarrow> bool" where
  "mesh_initial s \<longleftrightarrow> ms_legacy s = createNonceCache \<and> ms_accepted s = []"

definition clock_advances :: "mesh_state \<Rightarrow> mesh_state \<Rightarrow> bool" where
  "clock_advances s s' \<longleftrightarrow> (\<exists>t \<ge> ms_clock s. s' = s\<lparr>ms_clock := t\<rparr>)"

text \<open>
  A restart forgets the nonces in memory. The requests in flight are lost with the process; a run may
  still answer them, which only adds runs.
\<close>

definition restarts :: "mesh_state \<Rightarrow> mesh_state \<Rightarrow> bool" where
  "restarts s s' \<longleftrightarrow> s' = s\<lparr>ms_legacy := createNonceCache, ms_life := Suc (ms_life s)\<rparr>"

definition mesh_changes :: "mesh_state \<Rightarrow> mesh_state \<Rightarrow> bool" where
  "mesh_changes s s' \<longleftrightarrow> clock_advances s s' \<or> restarts s s'"

definition mesh_run :: "crypto \<Rightarrow> issuer \<Rightarrow> mesh_state
    \<Rightarrow> (mesh_state, mesh_world, mesh_query, mesh_answer, string, mesh_reply) prog list \<Rightarrow> bool" where
  "mesh_run cy issued = serves mesh_changes (mesh_fits issued) mesh_initial (range (requireMutualPeer cy))"

lemma clock_keeps_inv: "mesh_inv cy issued s \<Longrightarrow> clock_advances s s' \<Longrightarrow> mesh_inv cy issued s'"
  by (auto simp: mesh_inv_def clock_advances_def remembered_def held_slot_def split: sum.splits)

lemma restart_keeps_inv: "mesh_inv cy issued s \<Longrightarrow> restarts s s' \<Longrightarrow> mesh_inv cy issued s'"
  by (fastforce simp: mesh_inv_def restarts_def remembered_def held_slot_def slot_def)

lemma changes_keep_inv: "mesh_inv cy issued s \<Longrightarrow> mesh_changes s s' \<Longrightarrow> mesh_inv cy issued s'"
  unfolding mesh_changes_def using clock_keeps_inv restart_keeps_inv by blast

lemma mesh_run_inv:
  assumes "mesh_run cy issued s ts"
  shows "mesh_inv cy issued s"
proof -
  have start: "mesh_inv cy issued s" if "mesh_initial s" for s using that by (simp add: mesh_initial_def mesh_inv_def)
  show ?thesis
    using mesh.serves_safe [OF assms [unfolded mesh_run_def], of cy] start changes_keep_inv ok_requireMutualPeer by blast
qed

text \<open>
  C12. Every request that is let through was authenticated. One in legacy mode only reads one of the two
  monitoring paths, bears the mesh token and has a fresh signature made with the key of an enabled peer
  that the policy allows in this mode. Any other one came over HTTPS for the subject under which the policy
  registers an enabled peer, at the audience of this site, with a token that was issued for that subject
  and audience for at most a minute and has not expired, and a fresh proof by the key the token names.
\<close>
theorem accepted_requests_are_authentic:
  assumes "mesh_run cy issued s ts" "e \<in> set (ms_accepted s)"
  shows "authentic cy issued e"
  using mesh_run_inv [OF assms(1)] assms(2) by (simp add: mesh_inv_def)


definition demo_crypto :: crypto where
  "demo_crypto = \<lparr>cy_sha256 = (\<lambda>_. ''00''), cy_hmac = (\<lambda>_ _. ''00''), cy_ed25519 = (\<lambda>_. True), cy_verify = (\<lambda>_ _ _. True)\<rparr>"

definition demo_request :: http_request where
  "demo_request =
     \<lparr>hr_protocol = ''http:'', hr_method = ''GET'', hr_pathname = ''/api/v1/federation/health'', hr_search = [],
      hr_signature = Some ''00'', hr_nonce = Some ''0123456789abcdef'', hr_timestamp = Some 300000, hr_mode = None,
      hr_subject = None, hr_audience = None, hr_authorization = Some ''Bearer token''\<rparr>"

definition demo_world :: mesh_world where
  "demo_world =
     \<lparr>mw_policy = Inr LegacyMonitorMigration,
      mw_peers = [\<lparr>pw_id = ''branch'', pw_name = ''Branch'', pw_token = ''key'', pw_enabled = True\<rparr>],
      mw_token = ''token'', mw_store_fails = False\<rparr>"

definition demo_issued :: issuer where
  "demo_issued = (\<lambda>_. \<lparr>cl_sub = [], cl_aud = [], cl_iat = 0, cl_exp = 0, cl_public_key = []\<rparr>)"

definition demo_start :: mesh_state where
  "demo_start = \<lparr>ms_clock = 0, ms_legacy = createNonceCache, ms_store = [], ms_life = 0, ms_accepted = []\<rparr>"

definition demo_accepted :: "ms \<Rightarrow> accepted_request" where
  "demo_accepted t =
     \<lparr>ar_request = demo_request, ar_parts = request_parts demo_request 300000 [], ar_legacy = True, ar_peer = ''branch'',
      ar_token = ''key'', ar_at = t, ar_life = 0, ar_policy = LegacyMonitorMigration, ar_table = mw_peers demo_world,
      ar_mesh_token = ''token''\<rparr>"

lemma demo_passes:
  assumes "remember (SIGNATURE_MAX_SKEW_MS * 2) ''branch:0123456789abcdef'' t (ms_legacy s) = (True, cache)"
    and "ms_clock s = t" "0 \<le> t" "t \<le> 600000" "ms_life s = 0"
  shows "requireMutualPeer demo_crypto demo_request demo_world s
    = (s\<lparr>ms_legacy := cache, ms_accepted := ms_accepted s @ [demo_accepted t]\<rparr>, Return (Inr Passed))"
proof -
  have shape: "nonce_shape ''0123456789abcdef''" by code_simp
  have token: "verifyMeshToken ''token'' (Some ''Bearer token'')" by code_simp
  have path: "isLegacyMonitorRequest ''GET'' ''/api/v1/federation/health''" by code_simp
  have signed: "verifyRequestSignature demo_crypto k p ''00''" for k p
    by (simp add: verifyRequestSignature_def signRequest_def demo_crypto_def)
  have fresh: "\<not> SIGNATURE_MAX_SKEW_MS < \<bar>t - 300000\<bar>" using assms(3,4) by (simp add: SIGNATURE_MAX_SKEW_MS_def abs_le_iff)
  have "sp_timestamp (request_parts r x b) = x" "sp_nonce (request_parts r x b) = text_or_empty (hr_nonce r)" for r x b
    by (simp_all add: request_parts_def)
  then show ?thesis
    using assms(1,2,5) shape token path signed fresh
    by (simp add: requireMutualPeer_def look_def bind_def attempt_def ret_def andThen_def modify_def read_body_def Let_def
        legacy_request_def allowsLegacyMonitorPeer_def text_or_empty_def demo_request_def demo_world_def demo_accepted_def)
qed

definition demo_cache :: "ms \<Rightarrow> nonce_cache" where
  "demo_cache t =
     \<lparr>nc_seen = [(''branch:0123456789abcdef'', t + SIGNATURE_MAX_SKEW_MS * 2)],
      nc_last_prune = t\<rparr>"

lemma demo_remembers:
  "remember (SIGNATURE_MAX_SKEW_MS * 2) ''branch:0123456789abcdef'' 0 createNonceCache = (True, demo_cache 0)"
  "remember (SIGNATURE_MAX_SKEW_MS * 2) ''branch:0123456789abcdef'' 600000 (demo_cache 0) = (True, demo_cache 600000)"
  by (simp_all add: remember_def recall_def createNonceCache_def demo_cache_def set_seen_def prune_def SIGNATURE_MAX_SKEW_MS_def)

definition demo_first :: mesh_state where
  "demo_first = \<lparr>ms_clock = 0, ms_legacy = demo_cache 0, ms_store = [], ms_life = 0, ms_accepted = [demo_accepted 0]\<rparr>"


lemma demo_first_run: "\<exists>ts. mesh_run demo_crypto issued demo_first ts"
proof -
  have "mesh_initial demo_start" by (simp add: mesh_initial_def demo_start_def)
  note idle = serves.idle [of mesh_initial, OF this]
  have "requireMutualPeer demo_crypto demo_request demo_world demo_start = (demo_first, Return (Inr Passed))"
    using demo_passes [of 0 demo_start "demo_cache 0"] demo_remembers(1) by (simp add: demo_start_def demo_first_def)
  from serves.arrives [where handlers = "range (requireMutualPeer demo_crypto)" and w = demo_world, OF idle rangeI this] show ?thesis unfolding mesh_run_def by blast
qed


lemma accepted_requests_are_authentic_witness:
  "\<exists>s ts. mesh_run demo_crypto demo_issued s ts \<and> ms_accepted s = [demo_accepted 0]
     \<and> authentic demo_crypto demo_issued (demo_accepted 0)"
proof -
  obtain ts where run: "mesh_run demo_crypto demo_issued demo_first ts" using demo_first_run by blast
  have "ms_accepted demo_first = [demo_accepted 0]" by (simp add: demo_first_def)
  then show ?thesis using accepted_requests_are_authentic [OF run] run by force
qed


end
