(* ===== verification/Block_Target.thy ===== *)
theory Block_Target imports Ip_Properties begin

text \<open>
  What may be blocked (\<open>src/netwatch/block-target.ts\<close>): an address range that touches no protected range,
  or a program that is not protected.
\<close>

section \<open>Protection\<close>

datatype block_kind = BlockAddress | BlockProgram

record block_target =
  bt_kind :: block_kind
  bt_value :: string

definition ALWAYS_PROTECTED_RANGES :: "string list" where
  "ALWAYS_PROTECTED_RANGES =
     [''0.0.0.0/8'', ''10.0.0.0/8'', ''100.64.0.0/10'', ''127.0.0.0/8'', ''169.254.0.0/16'', ''172.16.0.0/12'',
      ''192.168.0.0/16'', ''224.0.0.0/4'', ''255.255.255.255/32'',
      ''::/128'', ''::1/128'', ''fc00::/7'', ''fe80::/10'', ''ff00::/8'', ''::ffff:0:0/96'']"

definition ALWAYS_PROTECTED_PROGRAMS :: "string list" where
  "ALWAYS_PROTECTED_PROGRAMS =
     [''svchost.exe'', ''lsass.exe'', ''services.exe'', ''wininit.exe'', ''csrss.exe'', ''smss.exe'', ''system'',
      ''tailscale.exe'', ''tailscaled.exe'', ''tailscale-ipn.exe'']"

fun min_prefix :: "ip_family \<Rightarrow> nat" where
  "min_prefix V4 = 8"
| "min_prefix V6 = 32"

definition MAX_PATH_LENGTH :: nat where "MAX_PATH_LENGTH = 260"

record protection =
  pt_ranges :: "cidr list"
  pt_programs :: "string list"
  pt_programPaths :: "string list"

text \<open>
  \<open>win32.normalize\<close> of a path that starts with a drive and a separator and has no segment \<open>..\<close>: empty
  segments and \<open>.\<close> are dropped, and a separator at the end stays.
\<close>

definition backslash :: char where "backslash = CHR 0x5C"

definition path_segments :: "string \<Rightarrow> string list" where
  "path_segments s = split_on backslash (map (\<lambda>c. if c = CHR ''/'' then backslash else c) s)"

definition win32_normalize :: "string \<Rightarrow> string" where
  "win32_normalize s =
     (case path_segments s of
        [] \<Rightarrow> s
      | drive # rest \<Rightarrow>
          let kept = filter (\<lambda>p. p \<noteq> [] \<and> p \<noteq> ''.'') rest in
          drive @ [backslash] @ join [backslash] kept
            @ (if kept \<noteq> [] \<and> last rest = [] then [backslash] else []))"

text \<open>The first text that does not parse is an error.\<close>

fun parse_ranges :: "string list \<Rightarrow> string + cidr list" where
  "parse_ranges [] = Inr []"
| "parse_ranges (text # texts) =
     (case parseCidr text of
        None \<Rightarrow> Inl text
      | Some r \<Rightarrow> (case parse_ranges texts of Inl e \<Rightarrow> Inl e | Inr rs \<Rightarrow> Inr (r # rs)))"

definition buildProtectionPolicy :: "string list \<Rightarrow> string list \<Rightarrow> string list \<Rightarrow> string + protection" where
  "buildProtectionPolicy extraRanges extraPrograms ownPrograms =
     (case parse_ranges (ALWAYS_PROTECTED_RANGES @ extraRanges) of
        Inl e \<Rightarrow> Inl e
      | Inr ranges \<Rightarrow> Inr \<lparr>pt_ranges = ranges,
          pt_programs = map (\<lambda>n. js_lower (js_trim n)) (ALWAYS_PROTECTED_PROGRAMS @ extraPrograms),
          pt_programPaths = map (\<lambda>p. js_lower (win32_normalize p)) ownPrograms\<rparr>)"

section \<open>Targets\<close>

datatype target_error =
    TeNotAnAddress
  | TeTooWide
  | TeProtectedRange string
  | TePathLength
  | TeNotAbsolute
  | TeParentSegment
  | TeNotExe
  | TeProtectedProgram string
  | TeOwnProgram

definition addressTarget :: "string \<Rightarrow> protection \<Rightarrow> target_error + block_target" where
  "addressTarget value0 policy =
     (case parseCidr value0 of
        None \<Rightarrow> Inl TeNotAnAddress
      | Some r \<Rightarrow>
          if cr_prefix r < min_prefix (cr_family r) then Inl TeTooWide
          else (case find (\<lambda>p. overlaps r p) (pt_ranges policy) of
              Some hit \<Rightarrow> Inl (TeProtectedRange (cr_text hit))
            | None \<Rightarrow> Inr \<lparr>bt_kind = BlockAddress, bt_value = cr_text r\<rparr>))"

definition letter :: "char \<Rightarrow> bool" where
  "letter c \<longleftrightarrow> (let n = of_char c :: nat in (65 \<le> n \<and> n \<le> 90) \<or> (97 \<le> n \<and> n \<le> 122))"

definition drive_path :: "string \<Rightarrow> bool" where
  "drive_path s \<longleftrightarrow> (case s of a # b # c # _ \<Rightarrow> letter a \<and> b = CHR '':'' \<and> c = backslash | _ \<Rightarrow> False)"

definition bad_path_char :: "char \<Rightarrow> bool" where
  "bad_path_char c \<longleftrightarrow> c \<in> set ''*?<>|%'' \<or> c = CHR 0x22 \<or> (of_char c :: nat) < 32"

definition programTarget :: "string \<Rightarrow> protection \<Rightarrow> target_error + block_target" where
  "programTarget value0 policy =
     (let trimmed = js_trim value0 in
      if length trimmed = 0 \<or> length trimmed > MAX_PATH_LENGTH then Inl TePathLength
      else if \<not> drive_path trimmed \<or> list_ex bad_path_char trimmed then Inl TeNotAbsolute
      else if ''..'' \<in> set (path_segments trimmed) then Inl TeParentSegment
      else
        let normalized = win32_normalize trimmed in
        if \<not> ends_with ''.exe'' (js_lower normalized) then Inl TeNotExe
        else
          let name = js_lower (last (path_segments normalized)) in
          if name \<in> set (pt_programs policy) then Inl (TeProtectedProgram name)
          else if js_lower normalized \<in> set (pt_programPaths policy) then Inl TeOwnProgram
          else Inr \<lparr>bt_kind = BlockProgram, bt_value = normalized\<rparr>)"

definition validateBlockTarget :: "block_kind \<Rightarrow> string \<Rightarrow> protection \<Rightarrow> target_error + block_target" where
  "validateBlockTarget kind value0 policy =
     (case kind of BlockAddress \<Rightarrow> addressTarget value0 policy | BlockProgram \<Rightarrow> programTarget value0 policy)"

section \<open>No protected address is blocked\<close>

lemma parse_ranges_append:
  "parse_ranges (xs @ ys) =
     (case parse_ranges xs of Inl e \<Rightarrow> Inl e
      | Inr rs \<Rightarrow> (case parse_ranges ys of Inl e \<Rightarrow> Inl e | Inr qs \<Rightarrow> Inr (rs @ qs)))"
  by (induction xs) (auto split: option.split sum.split)

definition always_protected :: "cidr list" where
  "always_protected =
     [make_cidr V4 0 8, make_cidr V4 167772160 8, make_cidr V4 1681915904 10, make_cidr V4 2130706432 8,
      make_cidr V4 2851995648 16, make_cidr V4 2886729728 12, make_cidr V4 3232235520 16, make_cidr V4 3758096384 4,
      make_cidr V4 4294967295 32,
      make_cidr V6 (ipv6_value ''::'') 128, make_cidr V6 (ipv6_value ''::1'') 128, make_cidr V6 (ipv6_value ''fc00::'') 7,
      make_cidr V6 (ipv6_value ''fe80::'') 10, make_cidr V6 (ipv6_value ''ff00::'') 8, make_cidr V6 (ipv6_value ''::ffff:0:0'') 96]"

lemma always_protected_ranges: "parse_ranges ALWAYS_PROTECTED_RANGES = Inr always_protected"
  by (simp add: ALWAYS_PROTECTED_RANGES_def always_protected_def cidr_eval)

lemma policy_protects:
  assumes "buildProtectionPolicy ranges programs own = Inr policy"
  shows "set always_protected \<subseteq> set (pt_ranges policy)"
  using assms by (auto simp: buildProtectionPolicy_def parse_ranges_append always_protected_ranges split: sum.splits)

definition in_range :: "cidr \<Rightarrow> string \<Rightarrow> bool" where
  "in_range r address \<longleftrightarrow> is_ipv4 address \<and> cr_family r = V4 \<and> cr_first r \<le> ipv4_value address \<and> ipv4_value address \<le> cr_last r"

lemma octet_ranges_low:
  fixes a b c d x :: nat
  assumes "a \<le> 255" "b \<le> 255" "c \<le> 255" "d \<le> 255" "x = ((a * 256 + b) * 256 + c) * 256 + d"
  shows "x \<le> 16777215 \<longleftrightarrow> a = 0" "3758096384 \<le> x \<and> x \<le> 4026531839 \<longleftrightarrow> 224 \<le> a \<and> a \<le> 239"
proof -
  show "x \<le> 16777215 \<longleftrightarrow> a = 0" using assms by (auto; linarith)
  show "3758096384 \<le> x \<and> x \<le> 4026531839 \<longleftrightarrow> 224 \<le> a \<and> a \<le> 239" using assms by (auto; linarith)
qed

lemma always_protected_v4:
  "in_range (make_cidr V4 v p) address \<longleftrightarrow>
     is_ipv4 address \<and> v div 2 ^ (32 - p) * 2 ^ (32 - p) \<le> ipv4_value address
     \<and> ipv4_value address \<le> v div 2 ^ (32 - p) * 2 ^ (32 - p) + (2 ^ (32 - p) - 1)"
  by (simp add: in_range_def)

lemma protected_octets:
  assumes "is_ipv4 address" "\<forall>p \<in> set always_protected. \<not> in_range p address"
    and o: "a \<le> 255" "b \<le> 255" "c \<le> 255" "d \<le> 255" "ipv4_value address = ((a * 256 + b) * 256 + c) * 256 + d"
  shows "a \<noteq> 0" "a \<noteq> 10" "\<not> (a = 100 \<and> 64 \<le> b \<and> b \<le> 127)" "a \<noteq> 127" "\<not> (a = 169 \<and> b = 254)"
    "\<not> (a = 172 \<and> 16 \<le> b \<and> b \<le> 31)" "\<not> (a = 192 \<and> b = 168)" "\<not> (224 \<le> a \<and> a \<le> 239)"
proof -
  define x where "x = ipv4_value address"
  have n: "\<not> in_range p address" if "p \<in> set always_protected" for p using assms(2) that by blast
  note [simp] = always_protected_v4 assms(1) x_def [symmetric]
  have n1: "\<not> in_range (make_cidr V4 0 8) address" "\<not> in_range (make_cidr V4 167772160 8) address"
    "\<not> in_range (make_cidr V4 1681915904 10) address" "\<not> in_range (make_cidr V4 2130706432 8) address"
    "\<not> in_range (make_cidr V4 2851995648 16) address" "\<not> in_range (make_cidr V4 2886729728 12) address"
    "\<not> in_range (make_cidr V4 3232235520 16) address" "\<not> in_range (make_cidr V4 3758096384 4) address"
    by (rule n, simp only: always_protected_def list.set insert_iff simp_thms)+
  note bytes = octet_ranges [OF o [folded x_def]] octet_ranges_low [OF o [folded x_def]]
  show "a \<noteq> 0" "a \<noteq> 10" using n1(1,2) bytes by simp_all
  show "\<not> (a = 100 \<and> 64 \<le> b \<and> b \<le> 127)" "a \<noteq> 127" using n1(3,4) bytes by simp_all
  show "\<not> (a = 169 \<and> b = 254)" "\<not> (a = 172 \<and> 16 \<le> b \<and> b \<le> 31)" using n1(5,6) bytes by simp_all
  show "\<not> (a = 192 \<and> b = 168)" "\<not> (224 \<le> a \<and> a \<le> 239)" using n1(7,8) bytes by simp_all
qed

lemma not_protected_scope:
  assumes "is_ipv4 address" "\<forall>p \<in> set always_protected. \<not> in_range p address"
  shows "ipv4Scope address = ScPublic \<or> fst (ipv4_head address) = 255"
proof -
  from is_ipv4_octets [OF assms(1)] obtain a b c d where o: "a \<le> 255" "b \<le> 255" "c \<le> 255" "d \<le> 255"
    and h: "ipv4_head address = (a, b)" and v: "ipv4_value address = ((a * 256 + b) * 256 + c) * 256 + d" .
  note no = protected_octets [OF assms o v]
  show ?thesis using no by (auto simp: ipv4Scope_def h)
qed

text \<open>
  C37. An address block that is accepted never cuts off what has to stay reachable: its range is at most
  a /8 (IPv4) or /32 (IPv6), is disjoint from every protected range, and every IPv4 address in it is a
  public one in the sense of the address scopes, or starts with 255.
\<close>
theorem blocked_addresses_are_public:
  assumes policy: "buildProtectionPolicy ranges programs own = Inr policy"
    and ok: "validateBlockTarget BlockAddress value0 policy = Inr t"
  shows "\<exists>r. parseCidr value0 = Some r \<and> bt_value t = cr_text r \<and> min_prefix (cr_family r) \<le> cr_prefix r
    \<and> (\<forall>p \<in> set (pt_ranges policy). cr_family p = cr_family r \<longrightarrow> {cr_first p..cr_last p} \<inter> {cr_first r..cr_last r} = {})
    \<and> (\<forall>address. in_range r address \<longrightarrow> ipv4Scope address = ScPublic \<or> fst (ipv4_head address) = 255)"
proof -
  obtain r where r: "parseCidr value0 = Some r" "bt_value t = cr_text r" "\<not> cr_prefix r < min_prefix (cr_family r)"
      and free: "find (\<lambda>p. overlaps r p) (pt_ranges policy) = None"
    using ok by (auto simp: validateBlockTarget_def addressTarget_def split: option.splits if_splits)
  have apart: "\<not> overlaps r p" if "p \<in> set (pt_ranges policy)" for p
    using free that by (auto simp: find_None_iff)
  have disjoint: "{cr_first p..cr_last p} \<inter> {cr_first r..cr_last r} = {}"
    if "p \<in> set (pt_ranges policy)" "cr_family p = cr_family r" for p
    using apart [OF that(1)] that(2) by (auto simp: overlaps_def)
  have scope: "ipv4Scope address = ScPublic \<or> fst (ipv4_head address) = 255" if "in_range r address" for address
  proof (rule not_protected_scope)
    show "is_ipv4 address" using that by (simp add: in_range_def)
    show "\<forall>p \<in> set always_protected. \<not> in_range p address"
    proof
      fix p assume "p \<in> set always_protected"
      then have "p \<in> set (pt_ranges policy)" using policy_protects [OF policy] by blast
      then show "\<not> in_range p address" using disjoint [of p] that by (auto simp: in_range_def)
    qed
  qed
  show ?thesis using r disjoint scope by (intro exI [of _ r]) (simp add: not_less)
qed

text \<open>A program block that is accepted names an executable that no rule protects.\<close>

lemma blocked_program:
  assumes "validateBlockTarget BlockProgram value0 policy = Inr t"
  shows "bt_value t = win32_normalize (js_trim value0) \<and> ends_with ''.exe'' (js_lower (bt_value t))
    \<and> js_lower (last (path_segments (bt_value t))) \<notin> set (pt_programs policy) \<and> js_lower (bt_value t) \<notin> set (pt_programPaths policy)"
  using assms by (auto simp: validateBlockTarget_def programTarget_def Let_def split: if_splits)

definition default_protection :: protection where
  "default_protection =
     \<lparr>pt_ranges = always_protected, pt_programs = map (\<lambda>n. js_lower (js_trim n)) ALWAYS_PROTECTED_PROGRAMS,
      pt_programPaths = []\<rparr>"

lemma default_policy: "buildProtectionPolicy [] [] [] = Inr default_protection"
  by (simp add: buildProtectionPolicy_def parse_ranges_append always_protected_ranges default_protection_def)

lemma blocked_addresses_are_public_witness:
  "\<exists>t r. validateBlockTarget BlockAddress ''203.0.113.0/24'' default_protection = Inr t
     \<and> parseCidr ''203.0.113.0/24'' = Some r \<and> bt_value t = cr_text r \<and> cr_prefix r = 24"
proof -
  have r: "parseCidr ''203.0.113.0/24'' = Some (make_cidr V4 3405803776 24)" by (simp add: cidr_eval)
  then have "validateBlockTarget BlockAddress ''203.0.113.0/24'' default_protection
      = Inr \<lparr>bt_kind = BlockAddress, bt_value = cr_text (make_cidr V4 3405803776 24)\<rparr>"
    by (simp add: validateBlockTarget_def addressTarget_def default_protection_def always_protected_def overlaps_def)
  then show ?thesis using blocked_addresses_are_public [OF default_policy] r by fastforce
qed

end
