(* ===== verification/Block_Service.thy ===== *)
theory Block_Service imports Block_Target File_Backed begin

text \<open>
  The blocked destinations and programs: the registry (\<open>src/netwatch/block-registry.ts\<close>), the service
  that changes it and its file together (\<open>src/netwatch/block-service.ts\<close>), and what the firewall task
  reports (\<open>src/netwatch/firewall-sync-status.ts\<close>). \<open>encode\<close> stands for \<open>JSON.stringify\<close> with ISO time
  stamps, \<open>decode\<close> for \<open>JSON.parse\<close> with the zod schema.
\<close>

section \<open>The registry\<close>

record block_entry =
  be_id :: string
  be_kind :: block_kind
  be_value :: string
  be_reason :: string
  be_createdBy :: string
  be_createdAtMs :: ms
  be_expiresAtMs :: ms

record blocks_document =
  bd_format :: string
  bd_version :: nat
  bd_blocks :: "block_entry list"

definition BLOCKS_FILE_FORMAT :: string where
  "BLOCKS_FILE_FORMAT = ''excubitor-netwatch-blocks''"

record block_registry =
  br_entries :: "block_entry list"
  br_health :: registry_health

datatype add_block_result = BlockAdded block_entry | BlockDuplicate block_entry | BlocksFull nat


definition blocks_fail :: "string \<Rightarrow> block_registry \<Rightarrow> block_registry" where
  "blocks_fail reason r = r\<lparr>br_entries := [], br_health := HealthFailed reason\<rparr>"

definition blocks_list :: "block_registry \<Rightarrow> ms \<Rightarrow> block_entry list" where
  "blocks_list r nowMs = sort_key be_expiresAtMs (filter (\<lambda>e. be_expiresAtMs e > nowMs) (br_entries r))"

definition block_key :: "block_entry \<Rightarrow> block_kind \<times> string" where
  "block_key e = (be_kind e, js_lower (be_value e))"

definition blocks_add :: "string \<Rightarrow> block_target \<Rightarrow> string \<Rightarrow> string \<Rightarrow> ms \<Rightarrow> ms \<Rightarrow> nat \<Rightarrow> block_registry
    \<Rightarrow> block_registry \<times> add_block_result" where
  "blocks_add uuid target reason createdBy nowMs ttlMs maxEntries r =
     (let active = blocks_list r nowMs in
      case find (\<lambda>e. be_kind e = bt_kind target \<and> js_lower (be_value e) = js_lower (bt_value target)) active of
        Some existing \<Rightarrow> (r, BlockDuplicate existing)
      | None \<Rightarrow>
          if length active \<ge> maxEntries then (r, BlocksFull maxEntries)
          else
            let entry = \<lparr>be_id = uuid, be_kind = bt_kind target, be_value = bt_value target, be_reason = reason,
                         be_createdBy = createdBy, be_createdAtMs = nowMs, be_expiresAtMs = nowMs + ttlMs\<rparr>
            in (r\<lparr>br_entries := active @ [entry]\<rparr>, BlockAdded entry))"



definition blocks_restore :: "block_entry list \<Rightarrow> block_registry \<Rightarrow> block_registry" where
  "blocks_restore es r = r\<lparr>br_entries := es\<rparr>"

definition blocks_image :: "(blocks_document \<Rightarrow> 'text) \<Rightarrow> block_entry list \<Rightarrow> 'text" where
  "blocks_image encode es = encode \<lparr>bd_format = BLOCKS_FILE_FORMAT, bd_version = 1, bd_blocks = es\<rparr>"

definition blocks_render :: "(blocks_document \<Rightarrow> 'text) \<Rightarrow> block_registry \<Rightarrow> 'text" where
  "blocks_render encode r = blocks_image encode (br_entries r)"

section \<open>The report of the firewall task\<close>

datatype sync_state = SyncOk | SyncMissing | SyncStale | SyncError

record sync_document =
  sd_syncedAtMs :: ms
  sd_applied :: "string list"
  sd_rejected :: "(string \<times> string) list"
  sd_error :: "string option"

record sync_status =
  sy_state :: sync_state
  sy_syncedAtMs :: "ms option"
  sy_applied :: "string list"
  sy_rejected :: "(string \<times> string) list"

definition interpretSyncStatus :: "('text \<Rightarrow> string + sync_document) \<Rightarrow> 'text option \<Rightarrow> ms \<Rightarrow> ms \<Rightarrow> sync_status" where
  "interpretSyncStatus decode text nowMs staleAfterMs =
     (case text of
        None \<Rightarrow> \<lparr>sy_state = SyncMissing, sy_syncedAtMs = None, sy_applied = [], sy_rejected = []\<rparr>
      | Some t \<Rightarrow>
          (case decode t of
             Inl _ \<Rightarrow> \<lparr>sy_state = SyncError, sy_syncedAtMs = None, sy_applied = [], sy_rejected = []\<rparr>
           | Inr d \<Rightarrow>
               \<lparr>sy_state = (if sd_error d \<noteq> None \<and> sd_error d \<noteq> Some [] then SyncError
                            else if nowMs - sd_syncedAtMs d > staleAfterMs then SyncStale else SyncOk),
                sy_syncedAtMs = Some (sd_syncedAtMs d), sy_applied = sd_applied d, sy_rejected = sd_rejected d\<rparr>))"

datatype enforcement = Applied | Pending | Rejected string

text \<open>\<open>new Map\<close> of the rejections: the last entry of an id counts.\<close>

definition enforcementOf :: "block_entry \<Rightarrow> sync_status \<Rightarrow> enforcement" where
  "enforcementOf e status =
     (case map_of (rev (sy_rejected status)) (be_id e) of
        Some reason \<Rightarrow> Rejected reason
      | None \<Rightarrow> if be_id e \<in> set (sy_applied status) then Applied else Pending)"

section \<open>The service\<close>

record block_settings =
  bs_maxEntries :: nat
  bs_defaultTtlMs :: ms
  bs_maxTtlMs :: ms
  bs_protection :: protection

record add_block_input =
  ab_kind :: block_kind
  ab_value :: string
  ab_reason :: string
  ab_ttlMinutes :: jsval
  ab_actor :: string

datatype block_failure =
    BfBadTtl ms
  | BfBadTarget target_error
  | BfDuplicate block_entry
  | BfFull nat
  | BfNotFound
  | BfDisabled "string option"
  | BfUnreadable string
  | BfNotWritten string

fun block_failure_status :: "block_failure \<Rightarrow> nat" where
  "block_failure_status (BfBadTtl _) = 400"
| "block_failure_status (BfBadTarget _) = 400"
| "block_failure_status (BfDuplicate _) = 409"
| "block_failure_status (BfFull _) = 409"
| "block_failure_status BfNotFound = 404"
| "block_failure_status (BfDisabled _) = 503"
| "block_failure_status (BfUnreadable _) = 503"
| "block_failure_status (BfNotWritten _) = 503"

type_synonym settings_now = "block_settings option \<times> string option"

record 'text block_state =
  bk_registry :: block_registry
  bk_file :: 'text

definition block_ttl :: "jsval \<Rightarrow> block_settings \<Rightarrow> ms option" where
  "block_ttl ttlMinutes settings =
     (case (case ttlMinutes of JUndef \<Rightarrow> Some (bs_defaultTtlMs settings) | JInt n \<Rightarrow> Some (n * 60000) | _ \<Rightarrow> None) of
        None \<Rightarrow> None
      | Some ttlMs \<Rightarrow> if ttlMs \<le> 0 \<or> ttlMs > bs_maxTtlMs settings then None else Some ttlMs)"

definition blocks_ready :: "settings_now \<Rightarrow> 'text block_state \<Rightarrow> block_failure + block_settings" where
  "blocks_ready now_settings s =
     (case fst now_settings of
        None \<Rightarrow> Inl (BfDisabled (snd now_settings))
      | Some l \<Rightarrow> (case br_health (bk_registry s) of HealthFailed m \<Rightarrow> Inl (BfUnreadable m) | HealthOk \<Rightarrow> Inr l))"

definition blocks_commit :: "(blocks_document \<Rightarrow> 'text) \<Rightarrow> persist_outcome \<Rightarrow> block_entry list \<Rightarrow> block_entry
    \<Rightarrow> 'text block_state \<Rightarrow> 'text block_state \<times> (block_failure + block_entry)" where
  "blocks_commit encode w before entry s =
     (case w of
        Written \<Rightarrow> (s\<lparr>bk_file := blocks_render encode (bk_registry s)\<rparr>, Inr entry)
      | WriteFails m \<Rightarrow> (s\<lparr>bk_registry := blocks_restore before (bk_registry s)\<rparr>, Inl (BfNotWritten m)))"

definition block_service_add :: "(blocks_document \<Rightarrow> 'text) \<Rightarrow> settings_now \<Rightarrow> string \<Rightarrow> ms \<Rightarrow> persist_outcome
    \<Rightarrow> add_block_input \<Rightarrow> 'text block_state \<Rightarrow> 'text block_state \<times> (block_failure + block_entry)" where
  "block_service_add encode now_settings uuid nowMs w input s =
     (case blocks_ready now_settings s of
        Inl f \<Rightarrow> (s, Inl f)
      | Inr settings \<Rightarrow>
          (case block_ttl (ab_ttlMinutes input) settings of
             None \<Rightarrow> (s, Inl (BfBadTtl (bs_maxTtlMs settings)))
           | Some ttlMs \<Rightarrow>
               (case validateBlockTarget (ab_kind input) (ab_value input) (bs_protection settings) of
                  Inl e \<Rightarrow> (s, Inl (BfBadTarget e))
                | Inr target \<Rightarrow>
                    let before = br_entries (bk_registry s);
                        (r', added) = blocks_add uuid target (ab_reason input) (ab_actor input) nowMs ttlMs
                                        (bs_maxEntries settings) (bk_registry s);
                        s' = s\<lparr>bk_registry := r'\<rparr>
                    in (case added of
                          BlockDuplicate e \<Rightarrow> (s', Inl (BfDuplicate e))
                        | BlocksFull n \<Rightarrow> (s', Inl (BfFull n))
                        | BlockAdded e \<Rightarrow> blocks_commit encode w before e s'))))"


definition blocks_sweep :: "(blocks_document \<Rightarrow> 'text) \<Rightarrow> persist_outcome \<Rightarrow> block_entry list
    \<Rightarrow> 'text block_state \<Rightarrow> 'text block_state" where
  "blocks_sweep encode w before s =
     (case w of
        Written \<Rightarrow> s\<lparr>bk_file := blocks_render encode (bk_registry s)\<rparr>
      | WriteFails m \<Rightarrow> s\<lparr>bk_registry := blocks_restore before (bk_registry s)\<rparr>)"


definition block_overview :: "settings_now \<Rightarrow> sync_status option \<Rightarrow> ms \<Rightarrow> 'text block_state
    \<Rightarrow> overview_state \<times> string option \<times> (block_entry \<times> enforcement) list" where
  "block_overview now_settings sync nowMs s =
     (let blocks = map (\<lambda>e. (e, case sync of None \<Rightarrow> Pending | Some st \<Rightarrow> enforcementOf e st)) (blocks_list (bk_registry s) nowMs) in
      case fst now_settings of
        None \<Rightarrow> (OverviewDisabled, snd now_settings, blocks)
      | Some _ \<Rightarrow>
          (case br_health (bk_registry s) of
             HealthFailed m \<Rightarrow> (OverviewFailed, Some m, blocks)
           | HealthOk \<Rightarrow> (OverviewOk, None, blocks)))"


definition is_accepted :: "'a + 'b \<Rightarrow> bool" where
  "is_accepted r = (case r of Inl _ \<Rightarrow> False | Inr _ \<Rightarrow> True)"


section \<open>The shared contract\<close>

abbreviation blocked :: "'text block_state \<Rightarrow> block_entry list" where
  "blocked s \<equiv> br_entries (bk_registry s)"

interpretation blocks: file_backed blocked bk_file "blocks_image encode" "blocks_commit encode"
    "blocks_sweep encode" is_accepted
  for encode :: "blocks_document \<Rightarrow> 'text"
  by unfold_locales
    (simp_all add: blocks_commit_def blocks_sweep_def blocks_render_def blocks_restore_def is_accepted_def)

section \<open>Memory and file stay together\<close>

definition distinct_blocks :: "block_entry list \<Rightarrow> bool" where
  "distinct_blocks es \<longleftrightarrow> distinct (map block_key es)"


lemma distinct_blocks_filter [simp]: "distinct_blocks es \<Longrightarrow> distinct_blocks (filter P es)"
  by (simp add: distinct_blocks_def distinct_map_filter)


lemma set_blocks_list: "set (blocks_list r nowMs) = {e \<in> set (br_entries r). be_expiresAtMs e > nowMs}"
  by (auto simp: blocks_list_def)

lemma blocks_add_added:
  assumes "blocks_add uuid t reason actor nowMs ttl limit r = (r', BlockAdded e)"
  shows "br_entries r' = blocks_list r nowMs @ [e]" "be_kind e = bt_kind t" "be_value e = bt_value t"
    "block_key e \<notin> block_key ` set (blocks_list r nowMs)" "length (blocks_list r nowMs) < limit"
    "be_expiresAtMs e = nowMs + ttl" "br_health r' = br_health r"
  using assms by (auto simp: blocks_add_def Let_def find_None_iff block_key_def split: option.splits if_splits)

lemma blocks_add_refused:
  "blocks_add uuid t reason actor nowMs ttl limit r = (r', res) \<Longrightarrow> \<forall>e. res \<noteq> BlockAdded e \<Longrightarrow> r' = r"
  by (auto simp: blocks_add_def Let_def split: option.splits if_splits)






text \<open>An addition refuses and leaves the state alone, or ends in the commit of a new list.\<close>

lemma block_service_add_cases:
  obtains (refused) f where "block_service_add encode ns uuid nowMs w input s = (s, Inl f)"
  | (change) settings t ttl r' e where "fst ns = Some settings"
      "validateBlockTarget (ab_kind input) (ab_value input) (bs_protection settings) = Inr t"
      "blocks_add uuid t (ab_reason input) (ab_actor input) nowMs ttl (bs_maxEntries settings) (bk_registry s) = (r', BlockAdded e)"
      "block_ttl (ab_ttlMinutes input) settings = Some ttl"
      "block_service_add encode ns uuid nowMs w input s = blocks_commit encode w (blocked s) e (s\<lparr>bk_registry := r'\<rparr>)"
proof (cases "blocks_ready ns s")
  case (Inl f)
  then show ?thesis by (intro refused [of f]) (simp add: block_service_add_def)
next
  case (Inr settings)
  then have ns: "fst ns = Some settings" by (auto simp: blocks_ready_def split: option.splits registry_health.splits)
  show ?thesis
  proof (cases "block_ttl (ab_ttlMinutes input) settings")
    case None
    then show ?thesis using Inr by (intro refused) (simp add: block_service_add_def)
  next
    case (Some ttl)
    show ?thesis
    proof (cases "validateBlockTarget (ab_kind input) (ab_value input) (bs_protection settings)")
      case (Inl e)
      then show ?thesis using Inr Some by (intro refused) (simp add: block_service_add_def)
    next
      case t: (Inr t)
      obtain r' res where add: "blocks_add uuid t (ab_reason input) (ab_actor input) nowMs ttl (bs_maxEntries settings) (bk_registry s) = (r', res)"
        by fastforce
      show ?thesis
      proof (cases res)
        case (BlockAdded e)
        show ?thesis by (rule change [OF ns t add [unfolded BlockAdded] Some])
          (simp add: block_service_add_def Inr Some t add BlockAdded Let_def)
      next
        case (BlockDuplicate e)
        then have "r' = bk_registry s" using blocks_add_refused [OF add] by simp
        then show ?thesis
          by (intro refused [of "BfDuplicate e"]) (simp add: block_service_add_def Inr Some t add BlockDuplicate Let_def)
      next
        case (BlocksFull n)
        then have "r' = bk_registry s" using blocks_add_refused [OF add] by simp
        then show ?thesis
          by (intro refused [of "BfFull n"]) (simp add: block_service_add_def Inr Some t add BlocksFull Let_def)
      qed
    qed
  qed
qed



text \<open>
  A block that is reported as registered is in the file, within the limit on the number of blocks
  and the term, and its target passed the validation; a call that fails changes nothing.
\<close>
theorem block_add_all_or_nothing:
  assumes "block_service_add encode ns uuid nowMs w input s = (s', res)"
  shows "(\<exists>f. res = Inl f \<and> blocked s' = blocked s \<and> bk_file s' = bk_file s)
    \<or> (\<exists>e settings t. res = Inr e \<and> fst ns = Some settings
        \<and> validateBlockTarget (ab_kind input) (ab_value input) (bs_protection settings) = Inr t
        \<and> be_value e = bt_value t \<and> bk_file s' = blocks_image encode (blocked s')
        \<and> blocked s' = blocks_list (bk_registry s) nowMs @ [e] \<and> length (blocked s') \<le> bs_maxEntries settings
        \<and> nowMs < be_expiresAtMs e \<and> be_expiresAtMs e \<le> nowMs + bs_maxTtlMs settings)"
proof (cases rule: block_service_add_cases [of encode ns uuid nowMs w input s])
  case (refused f)
  then show ?thesis using assms by simp
next
  case (change settings t ttl r' e)
  note add = blocks_add_added [OF change(3)]
  have ttl: "0 < ttl" "ttl \<le> bs_maxTtlMs settings"
    using change(4) by (auto simp: block_ttl_def split: option.splits if_splits)
  show ?thesis
  proof (cases w)
    case Written
    then have "s' = s\<lparr>bk_registry := r', bk_file := blocks_image encode (br_entries r')\<rparr>" "res = Inr e"
      using assms change(5) by (simp_all add: blocks_commit_def blocks_render_def)
    then show ?thesis using change(1,2) add ttl by simp
  next
    case (WriteFails m)
    then have "blocked s' = blocked s" "bk_file s' = bk_file s" "res = Inl (BfNotWritten m)"
      using assms change(5) by (auto simp: blocks_commit_def blocks_restore_def)
    then show ?thesis by simp
  qed
qed

definition no_blocks :: "blocks_document block_state" where
  "no_blocks = \<lparr>bk_registry = \<lparr>br_entries = [], br_health = HealthOk\<rparr>, bk_file = blocks_image (\<lambda>d. d) []\<rparr>"

definition demo_settings :: settings_now where
  "demo_settings = (Some \<lparr>bs_maxEntries = 2, bs_defaultTtlMs = 60000, bs_maxTtlMs = 3600000,
     bs_protection = \<lparr>pt_ranges = [], pt_programs = [''svchost.exe''], pt_programPaths = []\<rparr>\<rparr>, None)"

definition demo_block :: "string \<Rightarrow> add_block_input" where
  "demo_block name = \<lparr>ab_kind = BlockProgram, ab_value = ''C:'' @ [backslash] @ name, ab_reason = [], ab_ttlMinutes = JUndef, ab_actor = []\<rparr>"



lemma block_add_all_or_nothing_witness:
  "\<exists>s' e. block_service_add (\<lambda>d. d) demo_settings ''u1'' 0 Written (demo_block ''a.exe'') no_blocks = (s', Inr e)
     \<and> bk_file s' = blocks_image (\<lambda>d. d) (blocked s') \<and> be_expiresAtMs e = 60000"
proof -
  let ?r = "block_service_add (\<lambda>d. d) demo_settings ''u1'' 0 Written (demo_block ''a.exe'') no_blocks"
  have ok: "is_accepted (snd ?r)" by code_simp
  have at: "(case snd ?r of Inr e \<Rightarrow> be_expiresAtMs e = 60000 | Inl _ \<Rightarrow> False)" by code_simp
  obtain s' e where r: "?r = (s', Inr e)" using ok by (cases ?r) (auto simp: is_accepted_def split: sum.splits)
  from block_add_all_or_nothing [OF r] have "bk_file s' = blocks_image (\<lambda>d. d) (blocked s')" by auto
  then show ?thesis using r at by auto
qed

end
