(* ===== verification/Adopted_Reaper.thy ===== *)
theory Adopted_Reaper imports Catalog_Service Async begin

text \<open>
  The recovery of processes adopted at boot that turn out to be gone
  (\<open>src/local-control/adopted-process-reaper.ts\<close>). The state is the count of recoveries per service;
  the log is a history of what happened to the counts. Tasks of different services run concurrently,
  and a tick of the timer starts one for every candidate.
\<close>

section \<open>Programs\<close>

datatype reaper_event =
    Recovers code nat
  | Forgets code
  | ForgetsAll

record reaper_state =
  rp_counts :: "(code \<times> nat) list"
  rp_log :: "reaper_event list"

record reaper_world =
  rp_adopted :: "code list"
  rp_wanted :: "code \<Rightarrow> bool"
  rp_service :: "code \<Rightarrow> launch_service option"

datatype reaper_query = RpQueue code | RpValidate code | RpControl code
datatype reaper_answer = RpDone | RpAlive bool | RpFailed string

type_synonym 'r react = "(reaper_state, reaper_world, reaper_query, reaper_answer, string, 'r) async"

definition retry_count :: "code \<Rightarrow> reaper_state \<Rightarrow> nat" where
  "retry_count c s = (case find_key fst c (rp_counts s) of None \<Rightarrow> 0 | Some (_, n) \<Rightarrow> n)"

definition forget :: "code \<Rightarrow> reaper_state \<Rightarrow> reaper_state" where
  "forget c s = s\<lparr>rp_counts := filter (\<lambda>(d, _). d \<noteq> c) (rp_counts s), rp_log := rp_log s @ [Forgets c]\<rparr>"

definition count_recovery :: "code \<Rightarrow> nat \<Rightarrow> reaper_state \<Rightarrow> reaper_state" where
  "count_recovery c limit s =
     s\<lparr>rp_counts := upsert fst (c, retry_count c s + 1) (rp_counts s), rp_log := rp_log s @ [Recovers c limit]\<rparr>"

text \<open>\<open>Math.max(0, Math.trunc(service.max_restart))\<close>; the catalog's limit is a natural number here.\<close>

definition recovery_limit :: "launch_service \<Rightarrow> nat" where
  "recovery_limit svc = sc_max_restart svc"

definition reap :: "code \<Rightarrow> unit react" where
  "reap c = bind (await (RpValidate c)) (\<lambda>a. case a of
       RpAlive True \<Rightarrow> modify (forget c)
     | RpFailed e \<Rightarrow> throw e
     | _ \<Rightarrow> look (\<lambda>w s.
         case rp_service w c of
           None \<Rightarrow> modify (forget c)
         | Some svc \<Rightarrow>
             if ls_disabled svc \<or> sc_restart_policy svc = RestartNo then modify (forget c)
             else if retry_count c s \<ge> recovery_limit svc then ret ()
             else andThen (modify (count_recovery c (recovery_limit svc)))
               (bind (await (RpControl c)) (\<lambda>b. case b of RpFailed e \<Rightarrow> throw e | _ \<Rightarrow> ret ()))))"

text \<open>The work a candidate queues; \<open>retrying\<close> says that it had a count when the tick began.\<close>

definition reap_candidate :: "code \<Rightarrow> bool \<Rightarrow> unit react" where
  "reap_candidate c retrying = bind (await (RpQueue c)) (\<lambda>_. look (\<lambda>w s.
     if \<not> retrying \<and> c \<notin> set (rp_adopted w) then ret ()
     else if \<not> rp_wanted w c then modify (forget c)
     else reap c))"

definition candidates :: "code list \<Rightarrow> reaper_state \<Rightarrow> (code \<times> bool) list" where
  "candidates adopted s =
     (let retrying = map fst (rp_counts s)
      in map (\<lambda>c. (c, c \<in> set retrying)) (remdups (adopted @ retrying)))"

definition close_reaper :: "unit react" where
  "close_reaper = modify (\<lambda>s. s\<lparr>rp_counts := [], rp_log := rp_log s @ [ForgetsAll]\<rparr>)"

section \<open>The count is the number of recoveries\<close>

text \<open>The recoveries of a service since its count was last dropped, the newest event at the end.\<close>

fun recoveries :: "code \<Rightarrow> reaper_event list \<Rightarrow> nat" where
  "recoveries c [] = 0"
| "recoveries c (Recovers d limit # log) = (if d = c then Suc (recoveries c log) else recoveries c log)"
| "recoveries c (Forgets d # log) = (if d = c then 0 else recoveries c log)"
| "recoveries c (ForgetsAll # log) = 0"

definition within_limits :: "reaper_event list \<Rightarrow> bool" where
  "within_limits log \<longleftrightarrow> (\<forall>earlier c limit later. log = later @ Recovers c limit # earlier \<longrightarrow> recoveries c earlier < limit)"

definition reaper_inv :: "reaper_state \<Rightarrow> bool" where
  "reaper_inv s \<longleftrightarrow> (\<forall>c. retry_count c s = recoveries c (rev (rp_log s))) \<and> within_limits (rev (rp_log s))"

interpretation reaper: async_safety reaper_inv "\<lambda>_ _. True" "\<lambda>_ _. True" "\<lambda>_ _ _. True" "\<lambda>_ _. True"
  by unfold_locales simp_all

lemma find_key_drop: "find_key fst c (filter (\<lambda>(d, _). d \<noteq> k) xs) = (if c = k then None else find_key fst c xs)"
  by (induction xs) auto

lemma within_limits_Cons:
  "within_limits (e # log) \<longleftrightarrow> within_limits log \<and> (\<forall>c limit. e = Recovers c limit \<longrightarrow> recoveries c log < limit)"
  by (auto simp: within_limits_def Cons_eq_append_conv)

lemma forget_inv: "reaper_inv s \<Longrightarrow> reaper_inv (forget c s)"
  by (auto simp: reaper_inv_def forget_def retry_count_def find_key_drop within_limits_Cons)

lemma recovery_inv:
  assumes "reaper_inv s" "retry_count c s < limit"
  shows "reaper_inv (count_recovery c limit s)"
proof -
  have "retry_count d (count_recovery c limit s) = (if d = c then Suc (retry_count c s) else retry_count d s)" for d
    by (simp add: retry_count_def count_recovery_def find_key_upsert)
  then show ?thesis using assms by (auto simp: reaper_inv_def count_recovery_def within_limits_Cons)
qed

lemma ok_forget: "reaper.ok (modify (forget c))"
  by (rule reaper.ok_modify) (simp add: forget_inv)

lemma ok_reap: "reaper.ok (reap c)"
proof -
  have recover: "reaper.triple (\<lambda>s. retry_count c s < limit) (andThen (modify (count_recovery c limit))
      (bind (await (RpControl c)) (\<lambda>b. case b of RpFailed e \<Rightarrow> throw e | _ \<Rightarrow> ret ()))) (\<lambda>_ _. True)" for limit
  proof (rule reaper.triple_andThen)
    show "reaper.triple (\<lambda>s. retry_count c s < limit) (modify (count_recovery c limit)) (\<lambda>_ _. True)"
      by (rule reaper.triple_modify) (simp add: recovery_inv)
    have "reaper.ok (bind (await (RpControl c)) (\<lambda>b. case b of RpFailed e \<Rightarrow> throw e | _ \<Rightarrow> ret ()))"
      by (intro reaper.ok_bind reaper.ok_await TrueI) (auto split: reaper_answer.split intro: reaper.ok_ret reaper.ok_throw)
    then show "reaper.triple (\<lambda>_. True) (bind (await (RpControl c)) (\<lambda>b. case b of RpFailed e \<Rightarrow> throw e | _ \<Rightarrow> ret ())) (\<lambda>_ _. True)"
      by (simp add: reaper.ok_def)
  qed simp
  have gone: "reaper.ok (look (\<lambda>w s. case rp_service w c of
           None \<Rightarrow> modify (forget c)
         | Some svc \<Rightarrow>
             if ls_disabled svc \<or> sc_restart_policy svc = RestartNo then modify (forget c)
             else if retry_count c s \<ge> recovery_limit svc then ret ()
             else andThen (modify (count_recovery c (recovery_limit svc)))
               (bind (await (RpControl c)) (\<lambda>b. case b of RpFailed e \<Rightarrow> throw e | _ \<Rightarrow> ret ()))))"
    unfolding reaper.ok_def
  proof (intro reaper.triple_look reaper.triple_case_option reaper.triple_if)
    fix w :: reaper_world and s :: reaper_state and svc
    assume "\<not> retry_count c s \<ge> recovery_limit svc"
    then show "reaper.triple (\<lambda>t. True \<and> t = s) (andThen (modify (count_recovery c (recovery_limit svc)))
        (bind (await (RpControl c)) (\<lambda>b. case b of RpFailed e \<Rightarrow> throw e | _ \<Rightarrow> ret ()))) (\<lambda>_ _. True)"
      by (intro reaper.triple_pre [OF recover]) simp
  qed (simp_all add: reaper.ok_triple [OF ok_forget] reaper.ok_triple [OF reaper.ok_ret])
  have "reaper.ok (case a of RpAlive True \<Rightarrow> modify (forget c) | RpFailed e \<Rightarrow> throw e
     | _ \<Rightarrow> look (\<lambda>w s. case rp_service w c of
           None \<Rightarrow> modify (forget c)
         | Some svc \<Rightarrow>
             if ls_disabled svc \<or> sc_restart_policy svc = RestartNo then modify (forget c)
             else if retry_count c s \<ge> recovery_limit svc then ret ()
             else andThen (modify (count_recovery c (recovery_limit svc)))
               (bind (await (RpControl c)) (\<lambda>b. case b of RpFailed e \<Rightarrow> throw e | _ \<Rightarrow> ret ()))))" for a
    by (cases a) (auto intro: ok_forget reaper.ok_throw gone split: bool.split)
  then show ?thesis unfolding reap_def by (intro reaper.ok_bind reaper.ok_await TrueI)
qed

lemma ok_reap_candidate: "reaper.ok (reap_candidate c retrying)"
  unfolding reap_candidate_def by (intro reaper.ok_bind reaper.ok_await reaper.ok_look reaper.ok_if reaper.ok_ret ok_forget ok_reap TrueI)

lemma ok_close: "reaper.ok close_reaper"
  unfolding close_reaper_def
  by (rule reaper.ok_modify) (auto simp: reaper_inv_def retry_count_def within_limits_Cons)

definition reaper_tasks :: "unit react set" where
  "reaper_tasks = {m. m = close_reaper \<or> (\<exists>c retrying. m = reap_candidate c retrying)}"

definition new_reaper :: "reaper_state \<Rightarrow> bool" where
  "new_reaper s \<longleftrightarrow> s = \<lparr>rp_counts = [], rp_log = []\<rparr>"

definition reaper_run :: "reaper_state \<Rightarrow> (reaper_state, reaper_world, reaper_query, reaper_answer, string, unit) prog list \<Rightarrow> bool" where
  "reaper_run = serves (\<lambda>_ _. False) (\<lambda>_ _ _. True) new_reaper reaper_tasks"

text \<open>
  A recovery is started only while fewer recoveries than the limit of the service were started
  since it was last confirmed alive, became unwanted or the reaper was closed: a start that succeeds
  does not reset the count. This holds for all interleavings of checks.
\<close>
theorem recoveries_stay_within_limit:
  assumes "reaper_run s ts" "rp_log s = earlier @ Recovers c limit # later"
  shows "recoveries c (rev earlier) < limit"
proof -
  have "m \<in> reaper_tasks \<Longrightarrow> reaper.ok m" for m using ok_close ok_reap_candidate by (auto simp: reaper_tasks_def)
  moreover have "reaper_inv s" if "new_reaper s" for s
    using that by (simp add: new_reaper_def reaper_inv_def retry_count_def within_limits_def)
  ultimately have "reaper_inv s" using reaper.serves_safe [OF assms(1) [unfolded reaper_run_def]] by blast
  then have "within_limits (rev later @ Recovers c limit # rev earlier)" using assms(2) by (simp add: reaper_inv_def)
  then show ?thesis unfolding within_limits_def by blast
qed

definition gone_service :: launch_service where
  "gone_service = (plain_service ''a'')\<lparr>sc_restart_policy := RestartAlways, sc_max_restart := 1\<rparr>"

definition reaper_demo :: "reaper_state \<times> (reaper_state, reaper_world, reaper_query, reaper_answer, string, unit) prog" where
  "reaper_demo =
     (let w = \<lparr>rp_adopted = [''a''], rp_wanted = (\<lambda>_. True), rp_service = (\<lambda>_. Some gone_service)\<rparr>;
          tick = (\<lambda>retrying s. answering [RpDone, RpAlive False, RpDone] w (reap_candidate ''a'' retrying w s))
      in tick True (fst (tick False \<lparr>rp_counts = [], rp_log = []\<rparr>)))"

lemma reaper_demo_run: "\<exists>ts. reaper_run (fst reaper_demo) ts"
proof -
  let ?s = "\<lparr>rp_counts = [], rp_log = []\<rparr>"
  have task: "reap_candidate ''a'' r \<in> reaper_tasks" for r by (auto simp: reaper_tasks_def)
  have "new_reaper ?s" by (simp add: new_reaper_def)
  note idle = serves.idle [of new_reaper, OF this]
  show ?thesis unfolding reaper_run_def reaper_demo_def Let_def
    using serves_run [OF idle task] serves_run [OF _ task] by metis
qed

text \<open>With a limit of one, the first check recovers the service and the second one does not.\<close>

lemma recoveries_stay_within_limit_witness:
  "\<exists>s ts. reaper_run s ts \<and> rp_log s = [] @ Recovers ''a'' 1 # [] \<and> recoveries ''a'' (rev []) < 1"
proof -
  obtain ts where run: "reaper_run (fst reaper_demo) ts" using reaper_demo_run by blast
  have log: "rp_log (fst reaper_demo) = [] @ Recovers ''a'' 1 # []" by code_simp
  from recoveries_stay_within_limit [OF run log] run log show ?thesis by blast
qed

end
