(* ===== verification/Operation_Store.thy ===== *)
theory Operation_Store imports Prelude begin

text \<open>
  The tables behind the operations one site asks another for and behind the daily update
  (\<open>src/federation/operations/store.ts\<close>, \<open>src/update/daily/store.ts\<close>): operations in the order of
  their row ids, the daily runs, and the leases of manual updates. Each function is one statement
  or one \<open>immediate\<close> transaction; the daily runs belong to the supervisor process, the operations to
  the backend. Messages in Japanese are given by their meaning in English; no code reads them.
\<close>

section \<open>Operations\<close>

datatype op_action =
    ActUpdate | ActRestart | ActDeploy | ActReflect | ActStart | ActStop | ActStash | ActBootstrap
  | ActDataExport | ActDataImport | ActConcordiaSite

datatype op_target = TargetExcubitor | TargetService code

datatype update_source = FromOrigin | FromMesh

datatype op_status = OpQueued | OpRunning | OpRestarting | OpSucceeded | OpFailed

record op_step =
  os_step :: string
  os_ok :: bool
  os_detail :: string

type_synonym op_meta = "(string \<times> jsval) list"

record fed_op =
  fo_id :: string
  fo_by :: string
  fo_peer :: "string option"
  fo_target :: op_target
  fo_action :: op_action
  fo_source :: update_source
  fo_status :: op_status
  fo_steps :: "op_step list"
  fo_error :: "string option"
  fo_meta :: op_meta
  fo_created :: ms
  fo_started :: "ms option"
  fo_finished :: "ms option"

record new_op =
  no_by :: string
  no_peer :: "string option"
  no_target :: op_target
  no_action :: op_action
  no_source :: update_source
  no_now :: ms
  no_meta :: op_meta

definition meta_get :: "string \<Rightarrow> op_meta \<Rightarrow> jsval" where
  "meta_get k m = (case find_key fst k m of None \<Rightarrow> JUndef | Some (_, v) \<Rightarrow> v)"

definition last_step :: "fed_op \<Rightarrow> string option" where
  "last_step o1 = (if fo_steps o1 = [] then None else Some (os_step (last (fo_steps o1))))"

text \<open>The identifier is a fresh random UUID, an argument here.\<close>

definition create_operation :: "string \<Rightarrow> new_op \<Rightarrow> fed_op list \<Rightarrow> fed_op list" where
  "create_operation i n ops = ops @ [\<lparr>fo_id = i, fo_by = no_by n, fo_peer = no_peer n, fo_target = no_target n,
     fo_action = no_action n, fo_source = no_source n, fo_status = OpQueued, fo_steps = [], fo_error = None,
     fo_meta = no_meta n, fo_created = no_now n, fo_started = None, fo_finished = None\<rparr>]"

definition get_operation :: "string \<Rightarrow> fed_op list \<Rightarrow> fed_op option" where
  "get_operation i ops = find_key fo_id i ops"

definition list_recent_operations :: "nat \<Rightarrow> fed_op list \<Rightarrow> fed_op list" where
  "list_recent_operations limit ops = take limit (rev (sort_key fo_created ops))"

definition list_by_status :: "op_status \<Rightarrow> fed_op list \<Rightarrow> fed_op list" where
  "list_by_status st ops = sort_key fo_created (filter (\<lambda>o1. fo_status o1 = st) ops)"

text \<open>\<open>UPDATE ... WHERE id = ...\<close>\<close>

definition update_op :: "string \<Rightarrow> (fed_op \<Rightarrow> fed_op) \<Rightarrow> fed_op list \<Rightarrow> fed_op list" where
  "update_op i f ops = map (\<lambda>o1. if fo_id o1 = i then f o1 else o1) ops"

definition mark_running :: "string \<Rightarrow> ms \<Rightarrow> fed_op list \<Rightarrow> fed_op list" where
  "mark_running i now = update_op i (fo_status_update (\<lambda>_. OpRunning) \<circ> fo_started_update (\<lambda>_. Some now))"

definition append_step :: "string \<Rightarrow> op_step \<Rightarrow> fed_op list \<Rightarrow> fed_op list" where
  "append_step i st = update_op i (fo_steps_update (\<lambda>steps. steps @ [st]))"

definition update_operation_meta :: "string \<Rightarrow> op_meta \<Rightarrow> fed_op list \<Rightarrow> fed_op list" where
  "update_operation_meta i meta = update_op i (fo_meta_update (\<lambda>_. meta))"

definition mark_restarting :: "string \<Rightarrow> op_meta \<Rightarrow> fed_op list \<Rightarrow> fed_op list" where
  "mark_restarting i meta = update_op i (fo_status_update (\<lambda>_. OpRestarting) \<circ> fo_meta_update (\<lambda>_. meta))"

definition finish_operation :: "string \<Rightarrow> bool \<Rightarrow> string option \<Rightarrow> ms \<Rightarrow> fed_op list \<Rightarrow> fed_op list" where
  "finish_operation i ok err now = update_op i (fo_status_update (\<lambda>_. if ok then OpSucceeded else OpFailed)
     \<circ> fo_error_update (\<lambda>_. if ok then None else err) \<circ> fo_finished_update (\<lambda>_. Some now))"

section \<open>Daily runs and manual leases\<close>

datatype daily_status = DailyRunning | DailySucceeded | DailyFailed

datatype daily_phase = PhPrepared | PhStopping | PhUpdating | PhBuilding | PhStarting | PhRollback

datatype daily_event_status =
    EvUnchanged | EvUpdated | EvSkipped | EvRestartRequired | EvUpdateFailed | EvRolledBack | EvInterrupted
  | EvRecoveryFailed | EvFailed

record daily_event =
  de_repository :: string
  de_status :: daily_event_status
  de_detail :: string

text \<open>A checkpoint holds the definitions of the services as they were: a type parameter here.\<close>

record 'svc checkpoint =
  cp_path :: string
  cp_branch :: string
  cp_before :: string
  cp_after :: string
  cp_services :: "'svc list"
  cp_running :: "code list"
  cp_phase :: daily_phase

record 'svc daily_run =
  dr_id :: string
  dr_day :: string
  dr_started :: string
  dr_ended :: "string option"
  dr_status :: daily_status
  dr_checkpoint :: "'svc checkpoint option"
  dr_events :: "daily_event list"
  dr_notification :: "string option"

record 'svc op_db =
  db_ops :: "fed_op list"
  db_daily :: "'svc daily_run list"
  db_manual :: "string list"

definition activeDailyRun :: "'svc op_db \<Rightarrow> 'svc daily_run option" where
  "activeDailyRun db = List.find (\<lambda>r. dr_status r = DailyRunning) (db_daily db)"

definition pending_operation :: "fed_op list \<Rightarrow> bool" where
  "pending_operation ops \<longleftrightarrow> list_ex (\<lambda>o1. fo_status o1 \<in> {OpRunning, OpRestarting, OpQueued}) ops"

definition saveDailyRun :: "'svc daily_run \<Rightarrow> 'svc op_db \<Rightarrow> 'svc op_db" where
  "saveDailyRun run db = db\<lparr>db_daily := map (\<lambda>r. if dr_id r = dr_id run then run else r) (db_daily db)\<rparr>"

definition new_daily_run :: "string \<Rightarrow> string \<Rightarrow> string \<Rightarrow> 'svc daily_run" where
  "new_daily_run i day now = \<lparr>dr_id = i, dr_day = day, dr_started = now, dr_ended = None, dr_status = DailyRunning,
     dr_checkpoint = None, dr_events = [], dr_notification = None\<rparr>"

definition beginDailyRun :: "string \<Rightarrow> string \<Rightarrow> string \<Rightarrow> 'svc op_db \<Rightarrow> 'svc op_db \<times> 'svc daily_run option" where
  "beginDailyRun i day now db =
     (if activeDailyRun db \<noteq> None then (db, None)
      else if pending_operation (db_ops db) then (db, None)
      else if db_manual db \<noteq> [] then (db, None)
      else if day \<in> set (map dr_day (db_daily db)) then (db, None)
      else let run = new_daily_run i day now in (db\<lparr>db_daily := db_daily db @ [run]\<rparr>, Some run))"

text \<open>A lease; inserting an identifier twice violates the primary key and throws.\<close>

datatype lease = LeaseDenied | LeaseTaken | LeaseConflict

definition beginManualUpdate :: "string \<Rightarrow> 'svc op_db \<Rightarrow> 'svc op_db \<times> lease" where
  "beginManualUpdate i db =
     (if activeDailyRun db \<noteq> None then (db, LeaseDenied)
      else if i \<in> set (db_manual db) then (db, LeaseConflict)
      else (db\<lparr>db_manual := db_manual db @ [i]\<rparr>, LeaseTaken))"

definition endManualUpdate :: "string \<Rightarrow> 'svc op_db \<Rightarrow> 'svc op_db" where
  "endManualUpdate i db = db\<lparr>db_manual := filter (\<lambda>j. j \<noteq> i) (db_manual db)\<rparr>"

definition clearInterruptedManualUpdates :: "'svc op_db \<Rightarrow> 'svc op_db" where
  "clearInterruptedManualUpdates db = db\<lparr>db_manual := []\<rparr>"

definition retryDailyRecovery :: "string \<Rightarrow> 'svc op_db \<Rightarrow> 'svc op_db \<times> bool" where
  "retryDailyRecovery i db =
     (if activeDailyRun db \<noteq> None \<or> db_manual db \<noteq> [] then (db, False)
      else if pending_operation (db_ops db) then (db, False)
      else case List.find (\<lambda>r. dr_id r = i \<and> dr_status r = DailyFailed) (db_daily db) of
        None \<Rightarrow> (db, False)
      | Some run \<Rightarrow> (if dr_checkpoint run = None then (db, False)
          else (saveDailyRun (run\<lparr>dr_status := DailyRunning, dr_ended := None\<rparr>) db, True)))"

section \<open>Facts\<close>

lemma set_update_op: "set (update_op i f ops) = (\<lambda>o1. if fo_id o1 = i then f o1 else o1) ` set ops"
  by (simp add: update_op_def)

lemma in_update_opE:
  assumes "r \<in> set (update_op i f ops)"
  obtains r0 where "r0 \<in> set ops" "r = (if fo_id r0 = i then f r0 else r0)"
  using assms by (auto simp: set_update_op)

lemma ids_update_op:
  assumes "\<And>o1. fo_id (f o1) = fo_id o1"
  shows "map fo_id (update_op i f ops) = map fo_id ops"
  using assms by (simp add: update_op_def)

lemma set_list_by_status [simp]: "set (list_by_status st ops) = {r \<in> set ops. fo_status r = st}"
  by (auto simp: list_by_status_def)

lemma list_by_status_Nil: "list_by_status st ops = [] \<longleftrightarrow> (\<forall>r \<in> set ops. fo_status r \<noteq> st)"
  using set_list_by_status [of st ops] by (metis (mono_tags, lifting) empty_Collect_eq set_empty)

lemma list_by_status_sorted: "sorted (map fo_created (list_by_status st ops))"
  by (simp add: list_by_status_def)

lemma active_None: "activeDailyRun db = None \<longleftrightarrow> (\<forall>r \<in> set (db_daily db). dr_status r \<noteq> DailyRunning)"
  by (auto simp: activeDailyRun_def find_None_iff)

lemma pending_operation_iff:
  "pending_operation ops \<longleftrightarrow> (\<exists>r \<in> set ops. fo_status r \<in> {OpRunning, OpRestarting, OpQueued})"
  by (simp add: pending_operation_def list_ex_iff)

end
