(* ===== verification/Operation_Runner.thy ===== *)
theory Operation_Runner imports Operation_Store begin

text \<open>
  The runner of requested operations (\<open>src/federation/operations/runner.ts\<close>) with the permits it
  consumes (\<open>src/federation/security/operation-permits.ts\<close>) and the two processes that share its
  tables: the backend, which may be killed at any time and boots again, and the supervisor with its
  daily update. An event is what the outside does or what the event loop runs next, and a step is
  the code that runs until it waits again. \<open>rn_log\<close> is a history variable.

  The task behind \<open>active\<close> is a phase: waiting for the recovery of the service itself, for the
  permit, for the execution, for the turn in which an outcome is stored (\<open>Settling\<close>), and, when
  \<open>drain\<close> has returned, for the turn of \<open>finally\<close> that clears \<open>active\<close> (\<open>Leaving\<close>).
\<close>

section \<open>Permits\<close>

datatype permit_plan = Recheck | Reacquire

type_synonym permits = "(string \<times> ms) list"

definition permit_capacity :: nat where
  "permit_capacity = 1000"

definition holdOperationPermit :: "string \<Rightarrow> ms \<Rightarrow> ms \<Rightarrow> permits \<Rightarrow> permits + permits" where
  "holdOperationPermit i expires now ps =
     (let live = filter (\<lambda>(_, e). \<not> e \<le> now) ps
      in if length live \<ge> permit_capacity then Inl live else Inr (upsert fst (i, expires) live))"

definition planPermitCheck :: "ms option \<Rightarrow> ms \<Rightarrow> permit_plan" where
  "planPermitCheck permit now = (case permit of None \<Rightarrow> Reacquire | Some e \<Rightarrow> if e > now then Recheck else Reacquire)"

text \<open>What the introspection of the held token, or the request for a new one, comes back with.\<close>

datatype permit_answer = Permitted | Denied string | CheckThrew string

definition permit_result :: "permit_plan \<Rightarrow> permit_answer \<Rightarrow> string + unit" where
  "permit_result how a = (case how of
       Reacquire \<Rightarrow> (case a of Permitted \<Rightarrow> Inr () | Denied r \<Rightarrow> Inl r | CheckThrew m \<Rightarrow> Inl (''reauthorization_failed: '' @ m))
     | Recheck \<Rightarrow> (case a of Permitted \<Rightarrow> Inr () | Denied _ \<Rightarrow> Inl ''authorization_revoked''
                    | CheckThrew _ \<Rightarrow> Inl ''authorization_check_failed''))"

section \<open>The state of the backend\<close>

datatype run_outcome = Finished bool "string option" | RestartAccepted | Deferred

datatype op_phase =
    Down
  | Idle
  | Recovering fed_op "fed_op list" "string option"
  | Authorizing fed_op permit_plan
  | Executing fed_op
  | Settling fed_op run_outcome
  | Leaving

datatype op_history =
    HStarted (h_id: string)
  | HChecked (h_id: string) bool
  | HExecuted (h_id: string)
  | HFinished (h_id: string) bool

record 'svc runner =
  rn_db :: "'svc op_db"
  rn_phase :: op_phase
  rn_stopped :: bool
  rn_retry :: bool
  rn_permits :: permits
  rn_log :: "op_history list"

definition on_ops :: "(fed_op list \<Rightarrow> fed_op list) \<Rightarrow> 'svc runner \<Rightarrow> 'svc runner" where
  "on_ops f s = s\<lparr>rn_db := (rn_db s)\<lparr>db_ops := f (db_ops (rn_db s))\<rparr>\<rparr>"

definition logs :: "op_history list \<Rightarrow> 'svc runner \<Rightarrow> 'svc runner" where
  "logs hs s = s\<lparr>rn_log := rn_log s @ hs\<rparr>"

definition goes :: "op_phase \<Rightarrow> 'svc runner \<Rightarrow> 'svc runner" where
  "goes p s = s\<lparr>rn_phase := p\<rparr>"

definition interrupted :: string where
  "interrupted = ''Excubitor stopped while it was running''"

text \<open>\<open>finishOperation\<close>\<close>

definition finish :: "string \<Rightarrow> bool \<Rightarrow> string option \<Rightarrow> ms \<Rightarrow> 'svc runner \<Rightarrow> 'svc runner" where
  "finish i ok err now s = logs [HFinished i ok] (on_ops (finish_operation i ok err now) s)"

text \<open>\<open>execute\<close>, up to its first wait\<close>

definition begin_execution :: "fed_op \<Rightarrow> 'svc runner \<Rightarrow> 'svc runner" where
  "begin_execution o1 s = goes (Executing o1) (logs [HExecuted (fo_id o1)] s)"

text \<open>\<open>consumeOperationPermit\<close>, up to its wait\<close>

definition consume_permit :: "fed_op \<Rightarrow> ms \<Rightarrow> 'svc runner \<Rightarrow> 'svc runner" where
  "consume_permit o1 now s =
     (let held = find_key fst (fo_id o1) (rn_permits s)
      in goes (Authorizing o1 (planPermitCheck (map_option snd held) now))
           (s\<lparr>rn_permits := filter (\<lambda>(j, _). j \<noteq> fo_id o1) (rn_permits s)\<rparr>))"

text \<open>
  \<open>runOne\<close> up to its first wait. A refused lease makes it return at once; a conflict rejects
  \<open>drain\<close>, which the caller catches.
\<close>

definition run_one :: "fed_op \<Rightarrow> ms \<Rightarrow> 'svc runner \<Rightarrow> 'svc runner" where
  "run_one o1 now s = (case beginManualUpdate (fo_id o1) (rn_db s) of
       (db, LeaseDenied) \<Rightarrow> goes (Settling o1 Deferred) s
     | (db, LeaseConflict) \<Rightarrow> goes Leaving s
     | (db, LeaseTaken) \<Rightarrow>
         (let t = logs [HStarted (fo_id o1)] (on_ops (mark_running (fo_id o1) now) (s\<lparr>rn_db := db\<rparr>))
          in if fo_peer o1 \<noteq> None then consume_permit o1 now t else begin_execution o1 t))"

text \<open>\<open>drain\<close> from the head of its loop\<close>

definition drain :: "ms \<Rightarrow> 'svc runner \<Rightarrow> 'svc runner" where
  "drain now s =
     (if rn_stopped s then goes Leaving s
      else case list_by_status OpQueued (db_ops (rn_db s)) of
        [] \<Rightarrow> goes Leaving s
      | o1 # _ \<Rightarrow> run_one o1 now s)"

definition kick :: "ms \<Rightarrow> 'svc runner \<Rightarrow> 'svc runner" where
  "kick now s = (if rn_phase s \<noteq> Idle \<or> rn_stopped s then s else drain now s)"

text \<open>The \<open>finally\<close> of \<open>runOne\<close>; the secret it also drops is not part of the model.\<close>

definition leave_run :: "fed_op \<Rightarrow> run_outcome \<Rightarrow> 'svc runner \<Rightarrow> 'svc runner" where
  "leave_run o1 out s = goes (Settling o1 out) (s\<lparr>rn_db := endManualUpdate (fo_id o1) (rn_db s)\<rparr>)"

text \<open>\<open>runOne\<close> after the permit check, and \<open>drain\<close> after \<open>runOne\<close>\<close>

definition permit_checked :: "fed_op \<Rightarrow> permit_plan \<Rightarrow> permit_answer \<Rightarrow> 'svc runner \<Rightarrow> 'svc runner" where
  "permit_checked o1 how a s = (case permit_result how a of
       Inr _ \<Rightarrow> begin_execution o1 (logs [HChecked (fo_id o1) True] s)
     | Inl reason \<Rightarrow> leave_run o1 (Finished False (Some (''remote_operation_unauthorized: '' @ reason)))
         (on_ops (append_step (fo_id o1) \<lparr>os_step = ''authorize'', os_ok = False, os_detail = reason\<rparr>)
           (logs [HChecked (fo_id o1) False] s)))"

definition settled :: "fed_op \<Rightarrow> run_outcome \<Rightarrow> ms \<Rightarrow> 'svc runner \<Rightarrow> 'svc runner" where
  "settled o1 out now s = (case out of
       Deferred \<Rightarrow> goes Leaving (if rn_retry s \<or> rn_stopped s then s else s\<lparr>rn_retry := True\<rparr>)
     | RestartAccepted \<Rightarrow> goes Leaving s
     | Finished ok err \<Rightarrow> drain now (finish (fo_id o1) ok err now s))"

section \<open>Boot\<close>

definition settle_interrupted :: "ms \<Rightarrow> 'svc runner \<Rightarrow> 'svc runner" where
  "settle_interrupted now s = fold (\<lambda>o1 t.
       finish (fo_id o1) False (Some (''interrupted: '' @ interrupted)) now
         (on_ops (append_step (fo_id o1) \<lparr>os_step = ''interrupted'', os_ok = False, os_detail = interrupted\<rparr>) t))
     (list_by_status OpRunning (db_ops (rn_db s))) s"

definition expected_hash :: "fed_op \<Rightarrow> string option" where
  "expected_hash o1 = (case meta_get ''expected_hash'' (fo_meta o1) of JStr h \<Rightarrow> Some h | _ \<Rightarrow> None)"

definition or_unknown :: "string option \<Rightarrow> string" where
  "or_unknown h = (case h of None \<Rightarrow> ''unknown'' | Some x \<Rightarrow> x)"

definition settle_restarting :: "fed_op \<Rightarrow> string option \<Rightarrow> ms \<Rightarrow> 'svc runner \<Rightarrow> 'svc runner" where
  "settle_restarting o1 err now s =
     (let detail = (case err of None \<Rightarrow> ''updated the Excubitor service at '' @ or_unknown (expected_hash o1) | Some e \<Rightarrow> e)
      in finish (fo_id o1) (err = None) (case err of None \<Rightarrow> None | Some e \<Rightarrow> if e = [] then None else Some (''restart: '' @ e)) now
           (on_ops (append_step (fo_id o1) \<lparr>os_step = ''restart'', os_ok = (err = None), os_detail = detail\<rparr>) s))"

definition wrong_version :: "string option \<Rightarrow> string option \<Rightarrow> string" where
  "wrong_version boot expected = ''the version after the restart '' @ or_unknown boot @ '' is not the expected '' @ or_unknown expected"

text \<open>The loop over the operations that were restarting, from the head of the loop.\<close>

fun recover_from :: "fed_op list \<Rightarrow> string option \<Rightarrow> ms \<Rightarrow> 'svc runner \<Rightarrow> 'svc runner" where
  "recover_from [] boot now s = (if rn_stopped s then goes Leaving s else drain now s)"
| "recover_from (o1 # rest) boot now s =
     (let expected = expected_hash o1
      in if expected \<noteq> None \<and> expected \<noteq> Some [] \<and> expected = boot then goes (Recovering o1 rest boot) s
         else recover_from rest boot now (settle_restarting o1 (Some (wrong_version boot expected)) now s))"

definition recover :: "string option \<Rightarrow> ms \<Rightarrow> 'svc runner \<Rightarrow> 'svc runner" where
  "recover boot now s = (let t = settle_interrupted now s
     in recover_from (list_by_status OpRestarting (db_ops (rn_db t))) boot now t)"

section \<open>Requests\<close>

text \<open>
  \<open>enqueue\<close> with the callback of \<open>acceptOperation\<close>: the record is made, then the permit is held,
  which may throw, then the runner is kicked. The first component says whether it returned.
\<close>

definition enqueue :: "string \<Rightarrow> new_op \<Rightarrow> ms option \<Rightarrow> ms \<Rightarrow> 'svc runner \<Rightarrow> bool \<times> 'svc runner" where
  "enqueue i n permit now s =
     (let t = on_ops (create_operation i n) s
      in case permit of
           None \<Rightarrow> (True, kick now t)
         | Some e \<Rightarrow> (case holdOperationPermit i e now (rn_permits t) of
             Inl ps \<Rightarrow> (False, t\<lparr>rn_permits := ps\<rparr>)
           | Inr ps \<Rightarrow> (True, kick now (t\<lparr>rn_permits := ps\<rparr>))))"

definition stop :: "'svc runner \<Rightarrow> 'svc runner" where
  "stop s = s\<lparr>rn_stopped := True, rn_permits := []\<rparr>"

section \<open>Steps\<close>

datatype 'svc op_event =
    Enqueues string new_op "ms option" ms
  | PermitAnswered permit_answer
  | StepRecorded op_step
  | MarksRestarting op_meta
  | Returns run_outcome
  | Throws string
  | Turn ms
  | RetryFires ms
  | Stops
  | Killed
  | Boots "string option" ms
  | MetaSaved op_meta
  | SelfRecovered "string option" ms
  | DailyBegins string string string
  | DailySaved "'svc daily_run"
  | DailyRetried string
  | ApplyBegins string
  | ApplyEnds string
  | SupervisorBoots

definition row_status :: "string \<Rightarrow> 'svc runner \<Rightarrow> op_status option" where
  "row_status i s = map_option fo_status (get_operation i (db_ops (rn_db s)))"

definition known_ids :: "'svc runner \<Rightarrow> string set" where
  "known_ids s = fo_id ` set (db_ops (rn_db s)) \<union> set (db_manual (rn_db s))"

text \<open>
  A step is defined where the event can happen. Identifiers are fresh; a finished run of an
  operation that reports an accepted restart has marked the operation as restarting (so do all
  executors, shown with them); a daily run is saved by its own task while it is the running one.
\<close>

fun rn_step :: "'svc op_event \<Rightarrow> 'svc runner \<Rightarrow> 'svc runner option" where
  "rn_step (Enqueues i n permit now) s =
     (if rn_phase s \<noteq> Down \<and> i \<notin> known_ids s then Some (snd (enqueue i n permit now s)) else None)"
| "rn_step (PermitAnswered a) s = (case rn_phase s of Authorizing o1 how \<Rightarrow> Some (permit_checked o1 how a s) | _ \<Rightarrow> None)"
| "rn_step (StepRecorded st) s = (case rn_phase s of
     Executing o1 \<Rightarrow> Some (on_ops (append_step (fo_id o1) st) s)
   | Recovering o1 _ _ \<Rightarrow> Some (on_ops (append_step (fo_id o1) st) s)
   | _ \<Rightarrow> None)"
| "rn_step (MarksRestarting meta) s = (case rn_phase s of
     Executing o1 \<Rightarrow> Some (on_ops (mark_restarting (fo_id o1) meta) s)
   | _ \<Rightarrow> None)"
| "rn_step (Returns out) s = (case rn_phase s of
     Executing o1 \<Rightarrow> (if out \<noteq> Deferred \<and> (out = RestartAccepted \<longrightarrow> row_status (fo_id o1) s = Some OpRestarting)
       then Some (leave_run o1 out s) else None)
   | _ \<Rightarrow> None)"
| "rn_step (Throws e) s = (case rn_phase s of
     Executing o1 \<Rightarrow> Some (leave_run o1 (Finished False (Some (''unexpected: '' @ e))) s)
   | _ \<Rightarrow> None)"
| "rn_step (Turn now) s = (case rn_phase s of
     Settling o1 out \<Rightarrow> Some (settled o1 out now s)
   | Leaving \<Rightarrow> Some (goes Idle s)
   | _ \<Rightarrow> None)"
| "rn_step (RetryFires now) s = (if rn_phase s \<noteq> Down \<and> rn_retry s then Some (kick now (s\<lparr>rn_retry := False\<rparr>)) else None)"
| "rn_step Stops s = (if rn_phase s \<noteq> Down then Some (stop s) else None)"
| "rn_step Killed s = Some (s\<lparr>rn_phase := Down, rn_stopped := False, rn_retry := False, rn_permits := []\<rparr>)"
| "rn_step (Boots boot now) s = (if rn_phase s = Down then Some (recover boot now s) else None)"
| "rn_step (MetaSaved meta) s = (case rn_phase s of
     Recovering o1 _ _ \<Rightarrow> Some (on_ops (update_operation_meta (fo_id o1) meta) s)
   | _ \<Rightarrow> None)"
| "rn_step (SelfRecovered err now) s = (case rn_phase s of
     Recovering o1 rest boot \<Rightarrow> Some (recover_from rest boot now (settle_restarting o1 err now s))
   | _ \<Rightarrow> None)"
| "rn_step (DailyBegins i day now) s = (if i \<notin> set (map dr_id (db_daily (rn_db s)))
     then Some (s\<lparr>rn_db := fst (beginDailyRun i day now (rn_db s))\<rparr>) else None)"
| "rn_step (DailySaved run) s = (case activeDailyRun (rn_db s) of
     Some r \<Rightarrow> if dr_id r = dr_id run then Some (s\<lparr>rn_db := saveDailyRun run (rn_db s)\<rparr>) else None
   | None \<Rightarrow> None)"
| "rn_step (DailyRetried i) s = Some (s\<lparr>rn_db := fst (retryDailyRecovery i (rn_db s))\<rparr>)"
| "rn_step (ApplyBegins i) s = (if i \<notin> known_ids s then Some (s\<lparr>rn_db := fst (beginManualUpdate i (rn_db s))\<rparr>) else None)"
| "rn_step (ApplyEnds i) s = (if i \<notin> fo_id ` set (db_ops (rn_db s)) then Some (s\<lparr>rn_db := endManualUpdate i (rn_db s)\<rparr>) else None)"
| "rn_step SupervisorBoots s = Some (s\<lparr>rn_db := clearInterruptedManualUpdates (rn_db s)\<rparr>)"

definition rn_init :: "'svc runner" where
  "rn_init = \<lparr>rn_db = \<lparr>db_ops = [], db_daily = [], db_manual = []\<rparr>, rn_phase = Down, rn_stopped = False,
     rn_retry = False, rn_permits = [], rn_log = []\<rparr>"

inductive rn_reach :: "'svc runner \<Rightarrow> bool" where
  init: "rn_reach rn_init"
| step: "rn_reach s \<Longrightarrow> rn_step e s = Some s' \<Longrightarrow> rn_reach s'"

fun rn_run :: "'svc op_event list \<Rightarrow> 'svc runner \<Rightarrow> 'svc runner option" where
  "rn_run [] s = Some s"
| "rn_run (e # es) s = (case rn_step e s of None \<Rightarrow> None | Some t \<Rightarrow> rn_run es t)"

lemma rn_reach_run: "rn_reach s \<Longrightarrow> rn_run es s = Some t \<Longrightarrow> rn_reach t"
  by (induction es arbitrary: s) (auto split: option.splits intro: rn_reach.step)

end
