(* ===== verification/Operation_Safety.thy ===== *)
theory Operation_Safety imports Operation_Runner begin

text \<open>
  What the runner keeps in every reachable state, with kills of the backend at any point and the
  supervisor's daily update in between: the life of each operation, one running operation at a time,
  no operation beside a daily update, and the order of acceptance.
\<close>

section \<open>The life of an operation\<close>

definition life :: "string \<Rightarrow> op_history list \<Rightarrow> op_history list" where
  "life i log = filter (\<lambda>h. h_id h = i) log"

definition executed_life :: "bool \<Rightarrow> string \<Rightarrow> op_history list" where
  "executed_life remote i = (if remote then [HStarted i, HChecked i True, HExecuted i] else [HStarted i, HExecuted i])"

definition open_lives :: "bool \<Rightarrow> string \<Rightarrow> op_history list list" where
  "open_lives remote i = (if remote then [[HStarted i], [HStarted i, HChecked i False]] else []) @ [executed_life remote i]"

text \<open>The histories an operation can have, by its status.\<close>

fun lives :: "bool \<Rightarrow> string \<Rightarrow> op_status \<Rightarrow> op_history list list" where
  "lives remote i OpQueued = [[]]"
| "lives remote i OpRunning = open_lives remote i"
| "lives remote i OpRestarting = [executed_life remote i]"
| "lives remote i OpSucceeded = [executed_life remote i @ [HFinished i True]]"
| "lives remote i OpFailed = map (\<lambda>l. l @ [HFinished i False]) (open_lives remote i)"

lemma life_append [simp]: "life i (log @ hs) = life i log @ life i hs"
  by (simp add: life_def)

lemma life_same: "\<forall>h \<in> set hs. h_id h = i \<Longrightarrow> life i hs = hs"
  by (simp add: life_def)

lemma life_other: "\<forall>h \<in> set hs. h_id h = i \<Longrightarrow> j \<noteq> i \<Longrightarrow> life j hs = []"
  by (auto simp: life_def filter_empty_conv)

lemma life_unknown: "i \<notin> h_id ` set log \<Longrightarrow> life i log = []"
  by (auto simp: life_def filter_empty_conv)

lemma executed_life_open [simp]: "executed_life remote i \<in> set (open_lives remote i)"
  by (simp add: open_lives_def)

section \<open>The invariant\<close>

definition active_status :: "op_status \<Rightarrow> bool" where
  "active_status st \<longleftrightarrow> st = OpRunning \<or> st = OpRestarting"

definition ledger :: "'svc op_db \<Rightarrow> op_history list \<Rightarrow> string option \<Rightarrow> bool" where
  "ledger db log busy \<longleftrightarrow>
     distinct (map fo_id (db_ops db)) \<and> h_id ` set log \<subseteq> fo_id ` set (db_ops db)
     \<and> (\<forall>r \<in> set (db_ops db). life (fo_id r) log \<in> set (lives (fo_peer r \<noteq> None) (fo_id r) (fo_status r)))
     \<and> (\<forall>r \<in> set (db_ops db). fo_status r = OpRunning \<longrightarrow> busy = Some (fo_id r))
     \<and> (activeDailyRun db \<noteq> None \<longrightarrow> (\<forall>r \<in> set (db_ops db). \<not> active_status (fo_status r)))"

definition row_is :: "fed_op \<Rightarrow> op_status \<Rightarrow> 'svc op_db \<Rightarrow> bool" where
  "row_is o1 st db \<longleftrightarrow> (\<exists>r \<in> set (db_ops db). fo_id r = fo_id o1 \<and> fo_peer r = fo_peer o1 \<and> fo_status r = st)"

definition in_work :: "fed_op \<Rightarrow> 'svc op_db \<Rightarrow> op_history list \<Rightarrow> bool" where
  "in_work o1 db log \<longleftrightarrow> ledger db log (Some (fo_id o1)) \<and> (row_is o1 OpRunning db \<or> row_is o1 OpRestarting db)"

abbreviation remote :: "fed_op \<Rightarrow> bool" where
  "remote o1 \<equiv> fo_peer o1 \<noteq> None"

fun phase_ok :: "op_phase \<Rightarrow> 'svc op_db \<Rightarrow> op_history list \<Rightarrow> bool" where
  "phase_ok Down db log = (\<exists>b. ledger db log b)"
| "phase_ok Idle db log = ledger db log None"
| "phase_ok Leaving db log = ledger db log None"
| "phase_ok (Recovering o1 rest boot) db log =
     (ledger db log None \<and> distinct (map fo_id (o1 # rest)) \<and> (\<forall>x \<in> set (o1 # rest). row_is x OpRestarting db))"
| "phase_ok (Authorizing o1 how) db log =
     (ledger db log (Some (fo_id o1)) \<and> row_is o1 OpRunning db \<and> remote o1 \<and> life (fo_id o1) log = [HStarted (fo_id o1)])"
| "phase_ok (Executing o1) db log = (in_work o1 db log \<and> life (fo_id o1) log = executed_life (remote o1) (fo_id o1))"
| "phase_ok (Settling o1 Deferred) db log = ledger db log None"
| "phase_ok (Settling o1 RestartAccepted) db log = ledger db log None"
| "phase_ok (Settling o1 (Finished ok err)) db log = (in_work o1 db log
     \<and> life (fo_id o1) log \<in> set (if ok then [executed_life (remote o1) (fo_id o1)] else open_lives (remote o1) (fo_id o1)))"

definition sound :: "'svc runner \<Rightarrow> bool" where
  "sound s \<longleftrightarrow> phase_ok (rn_phase s) (rn_db s) (rn_log s)"

lemma runner_simps [simp]:
  "rn_db (goes p s) = rn_db s" "rn_log (goes p s) = rn_log s" "rn_phase (goes p s) = p" "rn_stopped (goes p s) = rn_stopped s"
  "rn_db (logs hs s) = rn_db s" "rn_log (logs hs s) = rn_log s @ hs" "rn_phase (logs hs s) = rn_phase s" "rn_stopped (logs hs s) = rn_stopped s"
  "rn_db (on_ops f s) = (rn_db s)\<lparr>db_ops := f (db_ops (rn_db s))\<rparr>" "rn_log (on_ops f s) = rn_log s"
  "rn_phase (on_ops f s) = rn_phase s" "rn_stopped (on_ops f s) = rn_stopped s"
  by (simp_all add: goes_def logs_def on_ops_def)

lemma active_ops [simp]: "activeDailyRun (db\<lparr>db_ops := x\<rparr>) = activeDailyRun db" "activeDailyRun (db\<lparr>db_manual := y\<rparr>) = activeDailyRun db"
  by (simp_all add: activeDailyRun_def)

lemma ledger_manual [simp]: "ledger (db\<lparr>db_manual := x\<rparr>) log busy = ledger db log busy"
  by (simp add: ledger_def)

lemma row_is_manual [simp]: "row_is o1 st (db\<lparr>db_manual := x\<rparr>) = row_is o1 st db"
  by (simp add: row_is_def)

lemma ledger_row:
  "ledger db log busy \<Longrightarrow> r \<in> set (db_ops db) \<Longrightarrow> r' \<in> set (db_ops db) \<Longrightarrow> fo_id r = fo_id r' \<Longrightarrow> r = r'"
  by (auto simp: ledger_def distinct_map dest: inj_onD)

lemma ledger_running: "ledger db log busy \<Longrightarrow> r \<in> set (db_ops db) \<Longrightarrow> fo_status r = OpRunning \<Longrightarrow> busy = Some (fo_id r)"
  by (simp add: ledger_def)

text \<open>A change of one row with what happened to it.\<close>

lemma ledger_change:
  assumes led: "ledger db log busy" and busy: "busy = None \<or> busy = Some i"
    and hs: "\<forall>h \<in> set hs. h_id h = i"
    and keeps: "\<And>r. fo_id (f r) = fo_id r" "\<And>r. fo_peer (f r) = fo_peer r"
    and r: "r \<in> set (db_ops db)" "fo_id r = i"
    and life: "life i log @ hs \<in> set (lives (fo_peer r \<noteq> None) i (fo_status (f r)))"
    and running: "fo_status (f r) = OpRunning \<Longrightarrow> busy' = Some i"
    and daily: "active_status (fo_status (f r)) \<Longrightarrow> activeDailyRun db = None"
  shows "ledger (db\<lparr>db_ops := update_op i f (db_ops db)\<rparr>) (log @ hs) busy'"
proof -
  have only: "x = r" if "x \<in> set (db_ops db)" "fo_id x = i" for x
    using ledger_row [OF led that(1) r(1)] that(2) r(2) by simp
  have ids: "map fo_id (update_op i f (db_ops db)) = map fo_id (db_ops db)"
    using keeps(1) by (rule ids_update_op)
  then have ids': "fo_id ` set (update_op i f (db_ops db)) = fo_id ` set (db_ops db)"
    by (metis set_map)
  have per_row: "life (fo_id x) (log @ hs) \<in> set (lives (fo_peer x \<noteq> None) (fo_id x) (fo_status x))
      \<and> (fo_status x = OpRunning \<longrightarrow> busy' = Some (fo_id x)) \<and> (active_status (fo_status x) \<longrightarrow> activeDailyRun db = None)"
    if "x \<in> set (update_op i f (db_ops db))" for x
  proof -
    from that obtain x0 where x0: "x0 \<in> set (db_ops db)" "x = (if fo_id x0 = i then f x0 else x0)"
      by (rule in_update_opE)
    show ?thesis
    proof (cases "fo_id x0 = i")
      case True
      with only x0 have "x = f r" by simp
      then show ?thesis using life running daily r(2) keeps life_same [OF hs] by simp
    next
      case False
      then have "life (fo_id x) (log @ hs) = life (fo_id x0) log" using x0 life_other [OF hs] by simp
      moreover have "fo_status x0 \<noteq> OpRunning" using led x0(1) busy False by (auto simp: ledger_def)
      ultimately show ?thesis using led x0 False by (auto simp: ledger_def)
    qed
  qed
  have "h_id ` set (log @ hs) \<subseteq> fo_id ` set (db_ops db)"
    using led hs r by (auto simp: ledger_def)
  then show ?thesis using led ids ids' per_row by (auto simp: ledger_def)
qed

text \<open>A change that leaves identity, requester and status of every row alone.\<close>

lemma ledger_same:
  assumes "ledger db log busy" "\<And>r. fo_id (f r) = fo_id r" "\<And>r. fo_peer (f r) = fo_peer r" "\<And>r. fo_status (f r) = fo_status r"
  shows "ledger (db\<lparr>db_ops := update_op i f (db_ops db)\<rparr>) log busy"
proof -
  have ids: "map fo_id (update_op i f (db_ops db)) = map fo_id (db_ops db)" using assms(2) by (rule ids_update_op)
  then have ids': "fo_id ` set (update_op i f (db_ops db)) = fo_id ` set (db_ops db)" by (metis set_map)
  have "\<exists>x0 \<in> set (db_ops db). fo_id x = fo_id x0 \<and> fo_peer x = fo_peer x0 \<and> fo_status x = fo_status x0"
    if "x \<in> set (update_op i f (db_ops db))" for x
    using that assms(2-4) by (elim in_update_opE) auto
  then show ?thesis using assms(1) unfolding ledger_def by (fastforce simp: ids ids')
qed

lemma row_is_same:
  assumes "row_is x st db" "\<And>r. fo_id (f r) = fo_id r" "\<And>r. fo_peer (f r) = fo_peer r"
    "\<And>r. fo_id r = i \<Longrightarrow> fo_id x = i \<Longrightarrow> fo_status (f r) = fo_status r"
  shows "row_is x st (db\<lparr>db_ops := update_op i f (db_ops db)\<rparr>)"
proof -
  from assms(1) obtain r where r: "r \<in> set (db_ops db)" "fo_id r = fo_id x" "fo_peer r = fo_peer x" "fo_status r = st"
    by (auto simp: row_is_def)
  then show ?thesis using assms(2-4) unfolding row_is_def
    by (intro bexI [of _ "if fo_id r = i then f r else r"]) (auto simp: set_update_op)
qed

lemma ledger_idle:
  assumes "ledger db log busy" "\<And>r. r \<in> set (db_ops db) \<Longrightarrow> fo_status r \<noteq> OpRunning"
  shows "ledger db log b"
  using assms by (auto simp: ledger_def)

lemma row_isD:
  assumes "ledger db log busy" "row_is o1 st db"
  shows "life (fo_id o1) log \<in> set (lives (remote o1) (fo_id o1) st)"
  using assms by (auto simp: ledger_def row_is_def)


section \<open>Steps keep it\<close>

lemma daily_free:
  "ledger db log b \<Longrightarrow> row_is o1 st db \<Longrightarrow> active_status st \<Longrightarrow> activeDailyRun db = None"
  by (fastforce simp: ledger_def row_is_def)

lemma active_statuses [simp]: "active_status OpRunning" "active_status OpRestarting" "\<not> active_status OpQueued"
  "\<not> active_status OpSucceeded" "\<not> active_status OpFailed"
  by (simp_all add: active_status_def)

lemma finish_ledger:
  assumes "ledger db log busy" "busy = None \<or> busy = Some i" "r \<in> set (db_ops db)" "fo_id r = i"
    "life i log \<in> set (if ok then [executed_life (fo_peer r \<noteq> None) i] else open_lives (fo_peer r \<noteq> None) i)"
  shows "ledger (db\<lparr>db_ops := finish_operation i ok err now (db_ops db)\<rparr>) (log @ [HFinished i ok]) busy'"
  unfolding finish_operation_def
  by (rule ledger_change [OF assms(1,2) _ _ _ assms(3,4)]) (use assms(5) in \<open>auto split: if_splits\<close>)

lemma append_step_ledger: "ledger db log b \<Longrightarrow> ledger (db\<lparr>db_ops := append_step i st (db_ops db)\<rparr>) log b"
  unfolding append_step_def by (rule ledger_same) auto

lemma append_step_row: "row_is x s db \<Longrightarrow> row_is x s (db\<lparr>db_ops := append_step i st (db_ops db)\<rparr>)"
  unfolding append_step_def by (rule row_is_same) auto

lemma finish_row: "row_is x s db \<Longrightarrow> fo_id x \<noteq> i \<Longrightarrow> row_is x s (db\<lparr>db_ops := finish_operation i ok err now (db_ops db)\<rparr>)"
  unfolding finish_operation_def by (rule row_is_same) auto

lemma meta_ledger: "ledger db log b \<Longrightarrow> ledger (db\<lparr>db_ops := update_operation_meta i m (db_ops db)\<rparr>) log b"
  unfolding update_operation_meta_def by (rule ledger_same) auto

lemma meta_row: "row_is x s db \<Longrightarrow> row_is x s (db\<lparr>db_ops := update_operation_meta i m (db_ops db)\<rparr>)"
  unfolding update_operation_meta_def by (rule row_is_same) auto

lemma rowE:
  assumes "row_is o1 st db"
  obtains r where "r \<in> set (db_ops db)" "fo_id r = fo_id o1" "fo_peer r = fo_peer o1" "fo_status r = st"
  using assms by (auto simp: row_is_def)

lemma row_is_update:
  assumes "row_is x st db" "fo_id x = i" "\<And>r. fo_id (f r) = fo_id r" "\<And>r. fo_peer (f r) = fo_peer r" "\<And>r. fo_status (f r) = st'"
  shows "row_is x st' (db\<lparr>db_ops := update_op i f (db_ops db)\<rparr>)"
proof -
  from assms(1) obtain r where r: "r \<in> set (db_ops db)" "fo_id r = fo_id x" "fo_peer r = fo_peer x" by (rule rowE)
  then have "f r \<in> set (update_op i f (db_ops db))" using assms(2) by (force simp: set_update_op)
  then show ?thesis using r assms(3-5) by (auto simp: row_is_def intro!: bexI [of _ "f r"])
qed

text \<open>\<open>drain\<close> from a state in which nothing runs.\<close>

lemma run_one_sound:
  assumes led: "ledger (rn_db s) (rn_log s) None" and o1: "o1 \<in> set (db_ops (rn_db s))" "fo_status o1 = OpQueued"
  shows "sound (run_one o1 now s)"
proof (cases "beginManualUpdate (fo_id o1) (rn_db s)")
  case (Pair db lease)
  show ?thesis
  proof (cases lease)
    case LeaseTaken
    let ?db = "db\<lparr>db_ops := mark_running (fo_id o1) now (db_ops db)\<rparr>"
    from Pair LeaseTaken have db: "db = (rn_db s)\<lparr>db_manual := db_manual db\<rparr>" "activeDailyRun (rn_db s) = None"
      by (auto simp: beginManualUpdate_def split: if_splits)
    then have led': "ledger db (rn_log s) None" using led by (metis ledger_manual)
    have o1': "o1 \<in> set (db_ops db)" and free: "activeDailyRun db = None" using o1 db(2) by (subst db(1), simp)+
    then have row: "row_is o1 OpQueued db" using o1(2) by (auto simp: row_is_def)
    have empty: "life (fo_id o1) (rn_log s) = []" using row_isD [OF led' row] by simp
    have run: "row_is o1 OpRunning ?db" unfolding mark_running_def by (rule row_is_update [OF row]) auto
    have started: "ledger ?db (rn_log s @ HStarted (fo_id o1) # hs) (Some (fo_id o1))"
      if "hs = (if remote o1 then [] else [HExecuted (fo_id o1)])" for hs
      unfolding mark_running_def
      by (rule ledger_change [OF led' _ _ _ _ o1' refl])
        (use that free empty in \<open>auto simp: open_lives_def executed_life_def\<close>)
    show ?thesis
    proof (cases "remote o1")
      case True
      with started [of "[]"] run empty have
        "phase_ok (Authorizing o1 how) ?db (rn_log s @ [HStarted (fo_id o1)])" for how
        by (simp add: life_def)
      then show ?thesis using Pair LeaseTaken True by (simp add: sound_def run_one_def consume_permit_def Let_def)
    next
      case False
      with started [of "[HExecuted (fo_id o1)]"] run empty have
        "phase_ok (Executing o1) ?db (rn_log s @ [HStarted (fo_id o1), HExecuted (fo_id o1)])"
        by (simp add: life_def in_work_def executed_life_def)
      then show ?thesis using Pair LeaseTaken False by (simp add: sound_def run_one_def begin_execution_def)
    qed
  qed (use Pair led in \<open>simp_all add: sound_def run_one_def\<close>)
qed

lemma drain_sound:
  assumes "ledger (rn_db s) (rn_log s) None"
  shows "sound (drain now s)"
proof (cases "list_by_status OpQueued (db_ops (rn_db s))")
  case (Cons o1 os)
  then have "o1 \<in> {r \<in> set (db_ops (rn_db s)). fo_status r = OpQueued}"
    by (metis list.set_intros(1) set_list_by_status)
  with Cons assms show ?thesis using run_one_sound by (auto simp: drain_def sound_def)
qed (use assms in \<open>auto simp: drain_def sound_def\<close>)

lemma kick_sound:
  assumes "sound s"
  shows "sound (kick now s)"
proof (cases "rn_phase s = Idle \<and> \<not> rn_stopped s")
  case True
  with assms have "ledger (rn_db s) (rn_log s) None" by (simp add: sound_def)
  then show ?thesis using True by (simp add: kick_def drain_sound)
qed (use assms in \<open>auto simp: kick_def\<close>)

text \<open>Boot: the operation that was running is closed, then the ones that were restarting.\<close>

lemma list_by_status_length:
  assumes "ledger db log b"
  shows "length (list_by_status OpRunning (db_ops db)) \<le> 1"
proof -
  let ?xs = "list_by_status OpRunning (db_ops db)"
  have "r = r'" if "r \<in> set ?xs" "r' \<in> set ?xs" for r r'
  proof -
    from that have r: "r \<in> set (db_ops db)" "r' \<in> set (db_ops db)" and "fo_status r = OpRunning" "fo_status r' = OpRunning"
      by auto
    then show ?thesis using ledger_row [OF assms r] ledger_running [OF assms r(1)] ledger_running [OF assms r(2)] by simp
  qed
  then have "card (set ?xs) \<le> Suc 0" by (subst card_le_Suc0_iff_eq) (simp_all del: set_list_by_status)
  moreover have "distinct ?xs" using assms by (simp add: ledger_def list_by_status_def distinct_map)
  ultimately show ?thesis by (simp add: distinct_card del: set_list_by_status)
qed

lemma settle_interrupted_ledger:
  assumes "ledger (rn_db s) (rn_log s) b"
  shows "ledger (rn_db (settle_interrupted now s)) (rn_log (settle_interrupted now s)) None"
proof (cases "list_by_status OpRunning (db_ops (rn_db s))")
  case Nil
  then have "\<forall>r \<in> set (db_ops (rn_db s)). fo_status r \<noteq> OpRunning" by (simp add: list_by_status_Nil)
  then show ?thesis using Nil assms ledger_idle by (simp add: settle_interrupted_def) blast
next
  case (Cons o1 os)
  with list_by_status_length [OF assms] have only: "list_by_status OpRunning (db_ops (rn_db s)) = [o1]" by simp
  then have o1: "o1 \<in> set (db_ops (rn_db s))" "fo_status o1 = OpRunning"
    using set_list_by_status [of OpRunning "db_ops (rn_db s)"] by auto
  then have b: "b = Some (fo_id o1)" and life: "life (fo_id o1) (rn_log s) \<in> set (open_lives (remote o1) (fo_id o1))"
    using assms by (auto simp: ledger_def)
  have row: "row_is o1 OpRunning (rn_db s)" using o1 by (auto simp: row_is_def)
  let ?st = "\<lparr>os_step = ''interrupted'', os_ok = False, os_detail = interrupted\<rparr>"
  from append_step_row [OF row, of "fo_id o1" ?st] obtain r where
    r: "r \<in> set (append_step (fo_id o1) ?st (db_ops (rn_db s)))" "fo_id r = fo_id o1" "fo_peer r = fo_peer o1"
    by (auto simp: row_is_def)
  show ?thesis
    using finish_ledger [OF append_step_ledger [OF assms, of "fo_id o1" ?st], of "fo_id o1" r False _ now None] r life b
    by (simp add: settle_interrupted_def only finish_def)
qed

lemma settle_restarting_ledger:
  assumes "ledger (rn_db s) (rn_log s) None" "row_is o1 OpRestarting (rn_db s)"
  shows "ledger (rn_db (settle_restarting o1 err now s)) (rn_log (settle_restarting o1 err now s)) None"
    and "row_is x OpRestarting (rn_db s) \<Longrightarrow> fo_id x \<noteq> fo_id o1 \<Longrightarrow> row_is x OpRestarting (rn_db (settle_restarting o1 err now s))"
proof -
  let ?st = "\<lparr>os_step = ''restart'', os_ok = (err = None), os_detail = (case err of
      None \<Rightarrow> ''updated the Excubitor service at '' @ or_unknown (expected_hash o1) | Some e \<Rightarrow> e)\<rparr>"
  from append_step_row [OF assms(2), of "fo_id o1" ?st] obtain r where
    r: "r \<in> set (append_step (fo_id o1) ?st (db_ops (rn_db s)))" "fo_id r = fo_id o1" "fo_peer r = fo_peer o1"
    by (auto simp: row_is_def)
  show "ledger (rn_db (settle_restarting o1 err now s)) (rn_log (settle_restarting o1 err now s)) None"
    using finish_ledger [OF append_step_ledger [OF assms(1), of "fo_id o1" ?st], of "fo_id o1" r "err = None" _ now None]
      r row_isD [OF assms]
    by (simp add: settle_restarting_def finish_def)
  show "row_is x OpRestarting (rn_db (settle_restarting o1 err now s))" if "row_is x OpRestarting (rn_db s)" "fo_id x \<noteq> fo_id o1"
    using finish_row [OF append_step_row [OF that(1), of "fo_id o1" ?st] that(2)]
    by (simp add: settle_restarting_def finish_def)
qed

lemma recover_from_sound:
  assumes "ledger (rn_db s) (rn_log s) None" "distinct (map fo_id os)" "\<forall>x \<in> set os. row_is x OpRestarting (rn_db s)"
  shows "sound (recover_from os boot now s)"
  using assms
proof (induction os boot now s rule: recover_from.induct)
  case (1 boot now s)
  then show ?case by (simp add: drain_sound) (simp add: sound_def)
next
  case (2 o1 rest boot now s)
  show ?case
  proof (cases "expected_hash o1 \<noteq> None \<and> expected_hash o1 \<noteq> Some [] \<and> expected_hash o1 = boot")
    case True
    then show ?thesis using 2(2-4) by (auto simp: Let_def sound_def)
  next
    case False
    let ?t = "settle_restarting o1 (Some (wrong_version boot (expected_hash o1))) now s"
    have "row_is o1 OpRestarting (rn_db s)" using 2(4) by simp
    note settle = settle_restarting_ledger [OF 2(2) this]
    have "sound (recover_from rest boot now ?t)"
    proof (rule 2(1) [OF refl False settle(1)])
      have "\<forall>x \<in> set rest. fo_id x \<noteq> fo_id o1" using 2(3) by (simp add: image_iff) metis
      then show "\<forall>x \<in> set rest. row_is x OpRestarting (rn_db ?t)" using 2(4) settle(2) by simp
    qed (use 2(3) in simp)
    then show ?thesis using False by (auto simp: Let_def)
  qed
qed

lemma recover_sound:
  assumes "ledger (rn_db s) (rn_log s) b"
  shows "sound (recover boot now s)"
proof -
  let ?t = "settle_interrupted now s"
  have led: "ledger (rn_db ?t) (rn_log ?t) None" by (rule settle_interrupted_ledger [OF assms])
  have "distinct (map fo_id (list_by_status OpRestarting (db_ops (rn_db ?t))))"
    using led by (simp add: ledger_def list_by_status_def distinct_map inj_on_def)
  moreover have "\<forall>x \<in> set (list_by_status OpRestarting (db_ops (rn_db ?t))). row_is x OpRestarting (rn_db ?t)"
    by (auto simp: row_is_def)
  ultimately show ?thesis unfolding recover_def Let_def by (intro recover_from_sound led)
qed


section \<open>The invariant holds\<close>

lemma sound_append_step:
  assumes "sound s"
  shows "sound (on_ops (append_step i st) s)"
  using assms unfolding sound_def
  by (cases "(rn_phase s, rn_db s, rn_log s)" rule: phase_ok.cases)
    (auto simp: in_work_def intro: append_step_ledger append_step_row)

lemma sound_meta:
  assumes "sound s" "rn_phase s = Recovering o1 rest boot"
  shows "sound (on_ops (update_operation_meta i m) s)"
  using assms by (auto simp: sound_def intro: meta_ledger meta_row)

lemma in_work_running:
  assumes "in_work o1 db log"
  obtains st where "row_is o1 st db" "active_status st" "ledger db log (Some (fo_id o1))"
  using assms by (auto simp: in_work_def)

lemma sound_restarting:
  assumes "sound s" "rn_phase s = Executing o1"
  shows "sound (on_ops (mark_restarting (fo_id o1) meta) s)"
proof -
  from assms have work: "in_work o1 (rn_db s) (rn_log s)" and life: "life (fo_id o1) (rn_log s) = executed_life (remote o1) (fo_id o1)"
    by (auto simp: sound_def)
  from work obtain st where st: "row_is o1 st (rn_db s)" "active_status st" "ledger (rn_db s) (rn_log s) (Some (fo_id o1))"
    by (rule in_work_running)
  from st(1) obtain r where r: "r \<in> set (db_ops (rn_db s))" "fo_id r = fo_id o1" "fo_peer r = fo_peer o1" by (rule rowE)
  let ?db = "(rn_db s)\<lparr>db_ops := mark_restarting (fo_id o1) meta (db_ops (rn_db s))\<rparr>"
  have "ledger ?db (rn_log s @ []) (Some (fo_id o1))"
    unfolding mark_restarting_def
    by (rule ledger_change [OF st(3) _ _ _ _ r(1,2)]) (use life r st daily_free [OF st(3,1,2)] in auto)
  moreover have "row_is o1 OpRestarting ?db"
    unfolding mark_restarting_def by (rule row_is_update [OF st(1)]) auto
  ultimately show ?thesis using assms(2) life by (simp add: sound_def in_work_def)
qed

lemma sound_settle:
  assumes "in_work o1 (rn_db s) (rn_log s)"
    "life (fo_id o1) (rn_log s) \<in> set (if ok then [executed_life (remote o1) (fo_id o1)] else open_lives (remote o1) (fo_id o1))"
  shows "ledger (rn_db (finish (fo_id o1) ok err now s)) (rn_log (finish (fo_id o1) ok err now s)) None"
proof -
  from assms(1) obtain st where st: "row_is o1 st (rn_db s)" "ledger (rn_db s) (rn_log s) (Some (fo_id o1))"
    by (rule in_work_running)
  from st(1) obtain r where r: "r \<in> set (db_ops (rn_db s))" "fo_id r = fo_id o1" "fo_peer r = fo_peer o1" by (rule rowE)
  have "ledger ((rn_db s)\<lparr>db_ops := finish_operation (fo_id o1) ok err now (db_ops (rn_db s))\<rparr>)
      (rn_log s @ [HFinished (fo_id o1) ok]) None"
    by (rule finish_ledger [OF st(2) _ r(1,2)]) (use assms(2) r(3) in auto)
  then show ?thesis by (simp add: finish_def)
qed

lemma sound_permit:
  assumes "sound s" "rn_phase s = Authorizing o1 how"
  shows "sound (permit_checked o1 how a s)"
proof -
  from assms have led: "ledger (rn_db s) (rn_log s) (Some (fo_id o1))" and row: "row_is o1 OpRunning (rn_db s)"
    and rem: "remote o1" and life: "life (fo_id o1) (rn_log s) = [HStarted (fo_id o1)]"
    by (auto simp: sound_def)
  from row obtain r where r: "r \<in> set (db_ops (rn_db s))" "fo_id r = fo_id o1" "fo_peer r = fo_peer o1" "fo_status r = OpRunning"
    by (rule rowE)
  have logged: "ledger (rn_db s) (rn_log s @ hs) (Some (fo_id o1))"
    if "\<forall>h \<in> set hs. h_id h = fo_id o1" "HStarted (fo_id o1) # hs \<in> set (open_lives True (fo_id o1))" for hs
  proof -
    have "ledger ((rn_db s)\<lparr>db_ops := update_op (fo_id o1) id (db_ops (rn_db s))\<rparr>) (rn_log s @ hs) (Some (fo_id o1))"
      by (rule ledger_change [OF led _ that(1) _ _ r(1,2)])
        (use that life r rem daily_free [OF led row] in auto)
    then show ?thesis by (simp add: update_op_def id_def)
  qed
  show ?thesis
  proof (cases "permit_result how a")
    case (Inl reason)
    have "ledger (rn_db s) (rn_log s @ [HChecked (fo_id o1) False]) (Some (fo_id o1))"
      by (rule logged) (simp_all add: open_lives_def)
    with Inl row rem life show ?thesis
      by (auto simp: sound_def permit_checked_def leave_run_def endManualUpdate_def in_work_def open_lives_def
          life_same [of "[HChecked (fo_id o1) False]"] intro: append_step_ledger append_step_row)
  next
    case (Inr u)
    have "ledger (rn_db s) (rn_log s @ [HChecked (fo_id o1) True, HExecuted (fo_id o1)]) (Some (fo_id o1))"
      using rem by (intro logged) (simp_all add: open_lives_def executed_life_def)
    with Inr row rem life show ?thesis
      by (auto simp: sound_def permit_checked_def begin_execution_def in_work_def executed_life_def
          life_same [of "[HChecked (fo_id o1) True, HExecuted (fo_id o1)]"])
  qed
qed

lemma sound_return:
  assumes "sound s" "rn_phase s = Executing o1" "out \<noteq> Deferred"
    "out = RestartAccepted \<Longrightarrow> row_status (fo_id o1) s = Some OpRestarting"
  shows "sound (leave_run o1 out s)"
proof (cases out)
  case RestartAccepted
  from assms(1,2) have led: "ledger (rn_db s) (rn_log s) (Some (fo_id o1))" by (auto simp: sound_def in_work_def)
  from assms(4) RestartAccepted obtain r where r: "r \<in> set (db_ops (rn_db s))" "fo_id r = fo_id o1" "fo_status r = OpRestarting"
    by (auto simp: row_status_def get_operation_def dest: find_key_SomeD)
  have "fo_status x \<noteq> OpRunning" if "x \<in> set (db_ops (rn_db s))" for x
    using ledger_row [OF led that r(1)] ledger_running [OF led that] r(2,3) by auto
  with led have "ledger (rn_db s) (rn_log s) None" by (rule ledger_idle)
  then show ?thesis using RestartAccepted by (simp add: sound_def leave_run_def endManualUpdate_def)
qed (use assms in \<open>auto simp: sound_def leave_run_def endManualUpdate_def in_work_def\<close>)

end
