(* ===== verification/Operation_Properties.thy ===== *)
theory Operation_Properties imports Operation_Safety begin

text \<open>The properties of the operation runner, in every reachable state.\<close>

section \<open>Every step keeps the invariant\<close>

lemma phase_ok_daily:
  assumes "phase_ok p db log" "db_ops db' = db_ops db"
    "activeDailyRun db' \<noteq> None \<Longrightarrow> activeDailyRun db \<noteq> None \<or> \<not> pending_operation (db_ops db)"
  shows "phase_ok p db' log"
proof -
  have led: "ledger db log b \<Longrightarrow> ledger db' log b" for b
    using assms(2,3) by (auto simp: ledger_def pending_operation_iff active_status_def)
  have row: "row_is x st db' = row_is x st db" for x st using assms(2) by (simp add: row_is_def)
  show ?thesis using assms(1) led
    by (cases "(p, db, log)" rule: phase_ok.cases) (auto simp: in_work_def row)
qed

lemma beginDailyRun_facts:
  "db_ops (fst (beginDailyRun i day now db)) = db_ops db"
  "activeDailyRun (fst (beginDailyRun i day now db)) \<noteq> None \<Longrightarrow> activeDailyRun db \<noteq> None \<or> \<not> pending_operation (db_ops db)"
  by (auto simp: beginDailyRun_def Let_def)

lemma saveDailyRun_facts:
  "db_ops (saveDailyRun run db) = db_ops db"
  by (simp add: saveDailyRun_def)

lemma retryDailyRecovery_facts:
  "db_ops (fst (retryDailyRecovery i db)) = db_ops db"
  "activeDailyRun (fst (retryDailyRecovery i db)) \<noteq> None \<Longrightarrow> activeDailyRun db \<noteq> None \<or> \<not> pending_operation (db_ops db)"
  by (auto simp: retryDailyRecovery_def saveDailyRun_facts split: option.splits if_splits)

lemma create_ledger:
  assumes "ledger db log b" "i \<notin> fo_id ` set (db_ops db)"
  shows "ledger (db\<lparr>db_ops := create_operation i n (db_ops db)\<rparr>) log b"
proof -
  have "i \<notin> h_id ` set log" using assms by (auto simp: ledger_def)
  then show ?thesis using assms life_unknown [of i log] by (auto simp: ledger_def create_operation_def)
qed

lemma create_row: "row_is x st db \<Longrightarrow> row_is x st (db\<lparr>db_ops := create_operation i n (db_ops db)\<rparr>)"
  by (auto simp: row_is_def create_operation_def)

lemma sound_create:
  assumes "sound s" "i \<notin> known_ids s"
  shows "sound (on_ops (create_operation i n) s)"
proof -
  have i: "i \<notin> fo_id ` set (db_ops (rn_db s))" using assms(2) by (simp add: known_ids_def)
  show ?thesis using assms(1) create_ledger [OF _ i] unfolding sound_def
    by (cases "(rn_phase s, rn_db s, rn_log s)" rule: phase_ok.cases) (auto simp: in_work_def intro: create_row)
qed

lemma sound_frame:
  "sound s \<Longrightarrow> rn_db t = rn_db s \<Longrightarrow> rn_log t = rn_log s \<Longrightarrow> rn_phase t = rn_phase s \<Longrightarrow> sound t"
  by (simp add: sound_def)

lemma sound_enqueue:
  assumes "sound s" "i \<notin> known_ids s"
  shows "sound (snd (enqueue i n permit now s))"
proof -
  have created: "sound (on_ops (create_operation i n) s)" by (rule sound_create [OF assms])
  have held: "sound ((on_ops (create_operation i n) s)\<lparr>rn_permits := ps\<rparr>)" for ps
    by (rule sound_frame [OF created]) simp_all
  show ?thesis
    using kick_sound [OF created] held kick_sound [OF held]
    by (auto simp: enqueue_def Let_def split: option.split sum.split)
qed

lemma phase_ledger:
  assumes "phase_ok p db log"
  shows "\<exists>b. ledger db log b"
  using assms by (cases "(p, db, log)" rule: phase_ok.cases) (auto simp: in_work_def)

lemma settled_sound:
  assumes "sound s" "rn_phase s = Settling o1 out"
  shows "sound (settled o1 out now s)"
proof (cases out)
  case (Finished ok err)
  with assms have "in_work o1 (rn_db s) (rn_log s)"
    "life (fo_id o1) (rn_log s) \<in> set (if ok then [executed_life (remote o1) (fo_id o1)] else open_lives (remote o1) (fo_id o1))"
    by (auto simp: sound_def)
  from drain_sound [OF sound_settle [OF this]] show ?thesis using Finished by (simp add: settled_def)
qed (use assms in \<open>auto simp: settled_def sound_def\<close>)

lemma sound_daily:
  assumes "sound s" "db_ops db' = db_ops (rn_db s)"
    "activeDailyRun db' \<noteq> None \<Longrightarrow> activeDailyRun (rn_db s) \<noteq> None \<or> \<not> pending_operation (db_ops (rn_db s))"
  shows "sound (s\<lparr>rn_db := db'\<rparr>)"
  using assms phase_ok_daily unfolding sound_def by (simp, blast)

lemma rn_step_sound:
  assumes "sound s" "rn_step e s = Some s'"
  shows "sound s'"
proof (cases e)
  case (Boots boot now)
  with assms show ?thesis by (auto simp: sound_def split: if_splits dest: recover_sound [unfolded sound_def])
next
  case Killed
  with assms phase_ledger [of "rn_phase s" "rn_db s" "rn_log s"] show ?thesis by (auto simp: sound_def)
next
  case (SelfRecovered err now)
  with assms(2) obtain o1 rest boot where p: "rn_phase s = Recovering o1 rest boot"
    and s': "s' = recover_from rest boot now (settle_restarting o1 err now s)" by (auto split: op_phase.splits)
  from assms(1) p have ok: "ledger (rn_db s) (rn_log s) None" "distinct (map fo_id (o1 # rest))"
    "\<forall>x \<in> set (o1 # rest). row_is x OpRestarting (rn_db s)" by (auto simp: sound_def)
  have "row_is o1 OpRestarting (rn_db s)" using ok(3) by simp
  note settle = settle_restarting_ledger [OF ok(1) this]
  have "\<forall>x \<in> set rest. fo_id x \<noteq> fo_id o1" using ok(2) by (simp add: image_iff) metis
  then have "\<forall>x \<in> set rest. row_is x OpRestarting (rn_db (settle_restarting o1 err now s))" using ok(3) settle(2) by simp
  then show ?thesis unfolding s' using ok(2) by (intro recover_from_sound settle(1)) simp_all
next
  case (DailySaved run)
  with assms show ?thesis
    by (auto split: option.splits if_splits intro!: sound_daily simp: saveDailyRun_facts)
next
  case (RetryFires now)
  with assms show ?thesis by (auto split: if_splits intro!: kick_sound elim: sound_frame)
next
  case (ApplyBegins i)
  with assms show ?thesis
    by (auto split: if_splits simp: beginManualUpdate_def intro!: sound_daily)
next
  case Stops
  with assms show ?thesis by (auto simp: stop_def split: if_splits elim: sound_frame)
next
  case (Turn now)
  with assms(2) consider o1 out where "rn_phase s = Settling o1 out" "s' = settled o1 out now s"
    | "rn_phase s = Leaving" "s' = goes Idle s" by (auto split: op_phase.splits)
  then show ?thesis using settled_sound [OF assms(1)] assms(1) by cases (auto simp: sound_def)
next
  case (DailyBegins i day now)
  with assms(2) have "s' = s\<lparr>rn_db := fst (beginDailyRun i day now (rn_db s))\<rparr>" by (simp split: if_splits)
  then show ?thesis using sound_daily [OF assms(1) beginDailyRun_facts] by simp
next
  case (DailyRetried i)
  with assms(2) have "s' = s\<lparr>rn_db := fst (retryDailyRecovery i (rn_db s))\<rparr>" by simp
  then show ?thesis using sound_daily [OF assms(1) retryDailyRecovery_facts] by simp
qed (use assms in \<open>auto split: if_splits op_phase.splits intro: sound_enqueue sound_permit sound_append_step sound_restarting
      sound_return sound_meta sound_daily
      simp: endManualUpdate_def clearInterruptedManualUpdates_def\<close>)

lemma rn_reach_sound: "rn_reach s \<Longrightarrow> sound s"
proof (induction rule: rn_reach.induct)
  case init
  have "ledger \<lparr>db_ops = [], db_daily = [], db_manual = []\<rparr> [] None" by (simp add: ledger_def)
  then show ?case by (auto simp: sound_def rn_init_def)
qed (rule rn_step_sound)

lemma rn_reach_ledger:
  assumes "rn_reach s"
  obtains b where "ledger (rn_db s) (rn_log s) b"
  using phase_ledger rn_reach_sound [OF assms] unfolding sound_def by blast


section \<open>Runs to look at\<close>

definition some_op :: "string option \<Rightarrow> op_target \<Rightarrow> op_action \<Rightarrow> new_op" where
  "some_op peer target action = \<lparr>no_by = ''site'', no_peer = peer, no_target = target, no_action = action,
     no_source = FromOrigin, no_now = 5, no_meta = []\<rparr>"

definition remote_deploy_run :: "unit op_event list" where
  "remote_deploy_run = [Boots (Some ''a'') 0, Turn 1, Enqueues ''r'' (some_op (Some ''p'') (TargetService ''svc'') ActDeploy) (Some 60) 5,
     PermitAnswered Permitted]"

definition remote_deploy_state :: "unit runner" where
  "remote_deploy_state = the (rn_run remote_deploy_run rn_init)"

lemma run_reaches:
  assumes "rn_run es rn_init \<noteq> None"
  shows "rn_reach (the (rn_run es rn_init))"
proof -
  from assms obtain t where "rn_run es rn_init = Some t" by auto
  with rn_reach_run [OF rn_reach.init] show ?thesis by simp
qed

lemma remote_deploy_reach: "rn_reach remote_deploy_state"
  unfolding remote_deploy_state_def by (rule run_reaches) code_simp

section \<open>Properties\<close>

text \<open>C3.
  In every reachable state the history of an operation is one its status allows: nothing while it is
  queued, one start, for a remote operation one permit check after it, and execution only after the
  check permitted it; then one end. So no operation is executed twice, whatever is killed when.
\<close>
theorem operation_life:
  assumes "rn_reach s" "r \<in> set (db_ops (rn_db s))"
  shows "life (fo_id r) (rn_log s) \<in> set (lives (remote r) (fo_id r) (fo_status r))"
  using rn_reach_ledger [OF assms(1)] assms(2) by (metis ledger_def)

theorem operation_life_witness:
  "life ''r'' (rn_log remote_deploy_state) \<in> set (lives True ''r'' OpRunning)"
proof -
  have "hd (db_ops (rn_db remote_deploy_state)) \<in> set (db_ops (rn_db remote_deploy_state))"
    by code_simp
  note operation_life [OF remote_deploy_reach this]
  moreover have "fo_id (hd (db_ops (rn_db remote_deploy_state))) = ''r''"
    "fo_peer (hd (db_ops (rn_db remote_deploy_state))) = Some ''p''"
    "fo_status (hd (db_ops (rn_db remote_deploy_state))) = OpRunning" by code_simp+
  ultimately show ?thesis by simp
qed

text \<open>C5.
  At most one operation is running; while a daily update is active none runs or restarts, and none is
  being authorized or executed.
\<close>
theorem operations_run_alone:
  assumes "rn_reach s"
  shows "length (list_by_status OpRunning (db_ops (rn_db s))) \<le> 1
    \<and> (activeDailyRun (rn_db s) = None
       \<or> list_by_status OpRunning (db_ops (rn_db s)) = [] \<and> list_by_status OpRestarting (db_ops (rn_db s)) = []
         \<and> (\<forall>o1 how. rn_phase s \<noteq> Executing o1 \<and> rn_phase s \<noteq> Authorizing o1 how))"
proof -
  from assms obtain b where led: "ledger (rn_db s) (rn_log s) b" by (rule rn_reach_ledger)
  have none: "list_by_status st (db_ops (rn_db s)) = []" if "activeDailyRun (rn_db s) \<noteq> None" "active_status st" for st
    using led that by (auto simp: ledger_def list_by_status_Nil)
  have "rn_phase s \<noteq> Executing o1 \<and> rn_phase s \<noteq> Authorizing o1 how" if "activeDailyRun (rn_db s) \<noteq> None" for o1 how
    using that rn_reach_sound [OF assms] daily_free by (fastforce simp: sound_def in_work_def)
  then show ?thesis using list_by_status_length [OF led] none [of OpRunning] none [of OpRestarting] by auto
qed

theorem operations_run_alone_witness:
  "length (list_by_status OpRunning (db_ops (rn_db remote_deploy_state))) \<le> 1"
  using operations_run_alone [OF remote_deploy_reach] by (rule conjunct1)

text \<open>An operation starts when no queued one was accepted before it.\<close>

definition starts_in_order :: "nat \<Rightarrow> 'svc runner \<Rightarrow> bool" where
  "starts_in_order n s \<longleftrightarrow> (\<forall>i. HStarted i \<in> set (drop n (rn_log s)) \<longrightarrow>
     (\<exists>r \<in> set (db_ops (rn_db s)). fo_id r = i
        \<and> (\<forall>q \<in> set (db_ops (rn_db s)). fo_status q = OpQueued \<longrightarrow> fo_created r \<le> fo_created q)))"

definition no_start :: "nat \<Rightarrow> 'svc runner \<Rightarrow> bool" where
  "no_start n s \<longleftrightarrow> n \<le> length (rn_log s) \<and> (\<forall>i. HStarted i \<notin> set (drop n (rn_log s)))"

lemma no_start_in_order: "no_start n s \<Longrightarrow> starts_in_order n s"
  by (simp add: no_start_def starts_in_order_def)

lemma no_start_log: "no_start n s \<Longrightarrow> rn_log t = rn_log s @ hs \<Longrightarrow> \<forall>i. HStarted i \<notin> set hs \<Longrightarrow> no_start n t"
  by (auto simp: no_start_def)

lemma drain_in_order:
  assumes "no_start n s"
  shows "starts_in_order n (drain now s)"
proof (cases "rn_stopped s \<or> list_by_status OpQueued (db_ops (rn_db s)) = []")
  case True
  with assms show ?thesis by (auto simp: drain_def no_start_def starts_in_order_def)
next
  case False
  then obtain o1 os where queue: "list_by_status OpQueued (db_ops (rn_db s)) = o1 # os" by (auto simp: neq_Nil_conv)
  with list_by_status_sorted [of OpQueued "db_ops (rn_db s)"] have "\<forall>q \<in> set (o1 # os). fo_created o1 \<le> fo_created q" by simp
  then have first: "fo_created o1 \<le> fo_created q" if "q \<in> set (db_ops (rn_db s))" "fo_status q = OpQueued" for q
    using that queue set_list_by_status [of OpQueued "db_ops (rn_db s)"] by auto
  have mem: "o1 \<in> set (db_ops (rn_db s))"
    using queue set_list_by_status [of OpQueued "db_ops (rn_db s)"] by auto
  have row: "(\<exists>r \<in> set (mark_running (fo_id o1) now (db_ops (rn_db s))). fo_id r = fo_id o1
      \<and> (\<forall>q \<in> set (mark_running (fo_id o1) now (db_ops (rn_db s))). fo_status q = OpQueued \<longrightarrow> fo_created r \<le> fo_created q))"
    unfolding mark_running_def set_update_op using mem first
    by (intro bexI [of _ "(fo_status_update (\<lambda>_. OpRunning) \<circ> fo_started_update (\<lambda>_. Some now)) o1"]) (auto simp: image_iff)
  have drain: "drain now s = run_one o1 now s" using False queue by (simp add: drain_def)
  show ?thesis
  proof (cases "beginManualUpdate (fo_id o1) (rn_db s)")
    case (Pair db lease)
    then have "lease = LeaseTaken \<Longrightarrow> db_ops db = db_ops (rn_db s)" by (auto simp: beginManualUpdate_def split: if_splits)
    then show ?thesis using assms row Pair
      by (cases lease) (auto simp: drain run_one_def starts_in_order_def no_start_def consume_permit_def begin_execution_def Let_def)
  qed
qed

lemma kick_in_order: "no_start n s \<Longrightarrow> starts_in_order n (kick now s)"
  by (simp add: kick_def no_start_in_order drain_in_order)

lemma settle_restarting_no_start: "no_start n s \<Longrightarrow> no_start n (settle_restarting o1 err now s)"
  by (rule no_start_log [where hs = "[HFinished (fo_id o1) (err = None)]"]) (simp_all add: settle_restarting_def finish_def)

lemma recover_from_in_order: "no_start n s \<Longrightarrow> starts_in_order n (recover_from os boot now s)"
proof (induction os boot now s rule: recover_from.induct)
  case (1 boot now s)
  then show ?case using drain_in_order [OF 1] by (auto simp: no_start_def starts_in_order_def)
next
  case (2 o1 rest boot now s)
  then show ?case using settle_restarting_no_start [OF 2(2)]
    by (auto simp: Let_def no_start_def starts_in_order_def)
qed

lemma settle_interrupted_no_start: "no_start n s \<Longrightarrow> no_start n (settle_interrupted now s)"
proof -
  have "no_start n s \<Longrightarrow> no_start n (fold (\<lambda>o1 t. finish (fo_id o1) False err now (on_ops (append_step (fo_id o1) st) t)) os s)" for os err st
    by (induction os arbitrary: s) (auto simp: finish_def no_start_def)
  then show "no_start n s \<Longrightarrow> no_start n (settle_interrupted now s)" by (simp add: settle_interrupted_def)
qed

text \<open>The operation a step starts was accepted no later than every operation that is still queued.
\<close>
theorem operations_start_in_order:
  assumes "rn_step e s = Some s'"
  shows "starts_in_order (length (rn_log s)) s'"
proof -
  have start: "no_start (length (rn_log s)) s" by (simp add: no_start_def)
  have rest: "starts_in_order (length (rn_log s)) t" if "rn_log t = rn_log s" for t
    using that by (simp add: starts_in_order_def)
  show ?thesis
  proof (cases e)
    case (Enqueues i n permit now)
    have "no_start (length (rn_log s)) (on_ops (create_operation i n) s)"
      "no_start (length (rn_log s)) ((on_ops (create_operation i n) s)\<lparr>rn_permits := ps\<rparr>)" for ps
      by (rule no_start_log [OF start, where hs = "[]"], simp_all)+
    with Enqueues assms show ?thesis
      by (auto simp: enqueue_def Let_def split: if_splits option.splits sum.splits intro: kick_in_order no_start_in_order)
  next
    case (Turn now)
    have "no_start (length (rn_log s)) (finish i ok err now s)" for i ok err
      by (rule no_start_log [OF start, where hs = "[HFinished i ok]"]) (simp_all add: finish_def)
    with Turn assms rest show ?thesis
      by (auto simp: settled_def intro!: drain_in_order intro: rest split: op_phase.splits run_outcome.splits)
  next
    case (RetryFires now)
    have "no_start (length (rn_log s)) (s\<lparr>rn_retry := False\<rparr>)" by (rule no_start_log [OF start, where hs = "[]"]) simp_all
    with RetryFires assms show ?thesis by (auto split: if_splits intro: kick_in_order)
  next
    case (Boots boot now)
    with assms show ?thesis
      by (auto simp: recover_def Let_def split: if_splits intro!: recover_from_in_order settle_interrupted_no_start start)
  next
    case (SelfRecovered err now)
    with assms show ?thesis
      by (auto split: op_phase.splits intro!: recover_from_in_order settle_restarting_no_start start)
  next
    case (PermitAnswered a)
    then obtain o1 how where "s' = permit_checked o1 how a s" using assms by (auto split: op_phase.splits)
    then show ?thesis
      by (auto simp: permit_checked_def begin_execution_def leave_run_def starts_in_order_def split: sum.splits)
  qed (use assms in \<open>auto split: op_phase.splits if_splits option.splits simp: leave_run_def stop_def intro!: rest\<close>)
qed

theorem operations_start_in_order_witness:
  "starts_in_order 0 (the (rn_step (Enqueues ''r'' (some_op None TargetExcubitor ActUpdate) None 5) (the (rn_run [Boots None 0, Turn 1] (rn_init :: unit runner)))))"
proof -
  have "rn_step (Enqueues ''r'' (some_op None TargetExcubitor ActUpdate) None 5) (the (rn_run [Boots None 0, Turn 1] (rn_init :: unit runner)))
      = Some (the (rn_step (Enqueues ''r'' (some_op None TargetExcubitor ActUpdate) None 5) (the (rn_run [Boots None 0, Turn 1] (rn_init :: unit runner)))))"
    by code_simp
  from operations_start_in_order [OF this]
  show ?thesis by (simp add: rn_init_def recover_def settle_interrupted_def drain_def list_by_status_def goes_def)
qed

section \<open>Two weaknesses\<close>

text \<open>
  A backend killed while an operation runs leaves the lease of that operation behind. The next boot
  closes the operation but not its lease, so no daily update begins until the supervisor boots again.
\<close>

definition killed_state :: "unit runner" where
  "killed_state = the (rn_run [Boots None 0, Turn 1, Enqueues ''x'' (some_op None (TargetService ''svc'') ActDeploy) None 5,
     Killed, Boots None 9, Turn 10] rn_init)"

theorem killed_operation_keeps_lease:
  "rn_reach killed_state \<and> \<not> pending_operation (db_ops (rn_db killed_state)) \<and> db_daily (rn_db killed_state) = []
   \<and> snd (beginDailyRun i day now (rn_db killed_state)) = None"
proof -
  have "db_manual (rn_db killed_state) = [''x'']" "\<not> pending_operation (db_ops (rn_db killed_state))"
    "db_daily (rn_db killed_state) = []" by code_simp+
  moreover have "rn_reach killed_state" unfolding killed_state_def by (rule run_reaches) code_simp
  ultimately show ?thesis by (simp add: beginDailyRun_def)
qed

text \<open>
  After the supervisor accepted the restart of Excubitor itself, the queue is meant to rest until the
  new backend recovers. A request that arrives before the old backend ends is executed by it, and
  fails as interrupted.
\<close>

definition restarting_run :: "unit op_event list" where
  "restarting_run = [Boots None 0, Turn 1, Enqueues ''a'' (some_op None TargetExcubitor ActRestart) None 5,
     MarksRestarting [(''expected_hash'', JStr ''h'')], Returns RestartAccepted, Turn 6, Turn 7,
     Enqueues ''b'' (some_op None (TargetService ''svc'') ActDeploy) None 8]"

theorem queue_resumes_before_restart:
  "map (\<lambda>r. (fo_id r, fo_status r)) (db_ops (rn_db (the (rn_run restarting_run (rn_init :: unit runner)))))
     = [(''a'', OpRestarting), (''b'', OpRunning)]
   \<and> map (\<lambda>r. (fo_id r, fo_status r)) (db_ops (rn_db (the (rn_run (restarting_run @ [Killed, Boots (Some ''h'') 9]) (rn_init :: unit runner)))))
     = [(''a'', OpRestarting), (''b'', OpFailed)]"
  by code_simp

end
