(* ===== verification/Repository_Steps.thy ===== *)
theory Repository_Steps imports Operation_Store Text_Tools Async begin

text \<open>
  The single steps of updating a repository (\<open>src/update/git-root.ts\<close>, \<open>checkout-root.ts\<close>,
  \<open>checker.ts\<close>, \<open>steps.ts\<close>) as programs over the commands they run. A command, a request to the
  supervisor or to another site is a query; the file system, the database and the running state of
  services are the world a stretch of code reads. \<open>ss_trace\<close> is a history variable: the commands that
  change something, and whether each succeeded.

  A path is the list of its segments below the root. The ellipsis that marks a shortened text is the
  control character 133 here.
\<close>

section \<open>Commands and their records\<close>

type_synonym path = "string list"

datatype shell_command = Git "string list" | Npm "string list" | ShellLine string

record exec_result =
  xr_ok :: bool
  xr_code :: "int option"
  xr_stdout :: string
  xr_stderr :: string

record repo_service =
  rs_code :: code
  rs_cwd :: "path option"
  rs_compose :: "path option"
  rs_repo :: "string option"
  rs_build :: "string option"
  rs_disabled :: bool

datatype outcome = Done bool "string option" | Restarting

datatype step_query =
    SqExec shell_command path
  | SqControl code string
  | SqServiceVersion code
  | SqReadHead path
  | SqSupervisorHash path
  | SqRequestRestart
  | SqDownload string string
  | SqApprove string
  | SqDigest
  | SqElsewhere op_action code

datatype step_answer =
    SaExec exec_result
  | SaText "string option"
  | SaHead "string option" "string option"
  | SaAccepted bool "string option"
  | SaDownloaded bool bool "string option"
  | SaApproved
  | SaOutcome outcome
  | SaThrows string

record step_state =
  ss_steps :: "op_step list"
  ss_meta :: "op_meta option"
  ss_trace :: "(step_query \<times> bool) list"

record step_world =
  sw_exists :: "path \<Rightarrow> bool"
  sw_is_dir :: "path \<Rightarrow> bool"
  sw_build_script :: "path \<Rightarrow> bool"
  sw_workspace :: "path option"
  sw_managed :: "code \<Rightarrow> bool"
  sw_state :: "code \<Rightarrow> string option"
  sw_reported :: "code \<Rightarrow> string option"
  sw_boot_hash :: "string option"

type_synonym 'r stepping = "(step_state, step_world, step_query, step_answer, string, 'r) async"

text \<open>
  Every command counts as one that changes something (a repository, its packages, a running process) or as a
  check that must hold before, except these queries of git.
\<close>

definition git_query :: "string list \<Rightarrow> bool" where
  "git_query args \<longleftrightarrow> (case args of [] \<Rightarrow> True
     | a # rest \<Rightarrow> a \<in> set [''status'', ''rev-parse'', ''rev-list'', ''symbolic-ref'', ''ls-files'', ''show'']
         \<or> a = ''bundle'' \<and> rest \<noteq> [] \<and> hd rest = ''list-heads'')"

definition effect :: "shell_command \<Rightarrow> bool" where
  "effect c = (case c of Git args \<Rightarrow> \<not> git_query args | Npm args \<Rightarrow> True | ShellLine l \<Rightarrow> True)"

definition tracked :: "step_query \<Rightarrow> bool" where
  "tracked q = (case q of SqExec c d \<Rightarrow> effect c | SqControl c a \<Rightarrow> True | SqRequestRestart \<Rightarrow> True
     | SqDownload r f \<Rightarrow> True | SqApprove r \<Rightarrow> True | _ \<Rightarrow> False)"

definition traced :: "step_query \<Rightarrow> bool \<Rightarrow> step_state \<Rightarrow> step_state" where
  "traced q ok s = (if tracked q then s\<lparr>ss_trace := ss_trace s @ [(q, ok)]\<rparr> else s)"

definition thrown :: "step_answer \<Rightarrow> string" where
  "thrown a = (case a of SaThrows e \<Rightarrow> e | _ \<Rightarrow> [])"

definition ask :: "step_query \<Rightarrow> (step_answer \<Rightarrow> ('r \<times> bool) option) \<Rightarrow> 'r stepping" where
  "ask q f = bind (await q) (\<lambda>a. case f a of None \<Rightarrow> throw (thrown a) | Some (x, ok) \<Rightarrow> andThen (modify (traced q ok)) (ret x))"

text \<open>\<open>execCapture\<close> and \<open>safeExec\<close>\<close>

definition exec_answer :: "step_answer \<Rightarrow> (exec_result \<times> bool) option" where
  "exec_answer a = (case a of SaExec r \<Rightarrow> Some (r, xr_ok r) | _ \<Rightarrow> None)"

definition exec :: "shell_command \<Rightarrow> path \<Rightarrow> exec_result stepping" where
  "exec c d = ask (SqExec c d) exec_answer"

definition safe_exec :: "shell_command \<Rightarrow> path \<Rightarrow> string option stepping" where
  "safe_exec c d = bind (exec c d) (\<lambda>r. ret (if xr_ok r then Some (xr_stdout r) else None))"

definition js_or :: "string \<Rightarrow> string \<Rightarrow> string" where
  "js_or a b = (if a = [] then b else a)"

definition tail :: "string \<Rightarrow> string" where
  "tail s = (let t = js_trim s in if length t > 800 then char_of (133::nat) # slice_last 800 t else t)"

definition step_of :: "string \<Rightarrow> bool \<Rightarrow> string \<Rightarrow> op_step" where
  "step_of name ok detail = \<lparr>os_step = name, os_ok = ok, os_detail = detail\<rparr>"

section \<open>The checkout of a service\<close>

definition git_root_max_depth :: nat where
  "git_root_max_depth = 2"

fun git_root_from :: "nat \<Rightarrow> (path \<Rightarrow> bool) \<Rightarrow> path option \<Rightarrow> path \<Rightarrow> path option" where
  "git_root_from 0 exists workspace current = None"
| "git_root_from (Suc n) exists workspace current =
     (if workspace = Some current then None
      else if exists (current @ [''.git'']) then Some current
      else if current = [] then None
      else git_root_from n exists workspace (butlast current))"

definition findGitRoot :: "step_world \<Rightarrow> path \<Rightarrow> path option" where
  "findGitRoot w dir = git_root_from (Suc git_root_max_depth) (sw_exists w) (sw_workspace w) dir"

datatype checkout_note = NoRepo | DirMissing | NotGit

definition resolveCheckoutRoot :: "step_world \<Rightarrow> path option \<Rightarrow> path option \<times> checkout_note option" where
  "resolveCheckoutRoot w dir = (case dir of
       None \<Rightarrow> (None, Some NoRepo)
     | Some d \<Rightarrow> (if \<not> sw_exists w d then (Some d, Some DirMissing)
         else case findGitRoot w d of None \<Rightarrow> (Some d, Some NotGit) | Some root \<Rightarrow> (Some root, None)))"

definition repoDirOf :: "repo_service \<Rightarrow> path option" where
  "repoDirOf svc = (case rs_cwd svc of Some d \<Rightarrow> Some d | None \<Rightarrow> map_option butlast (rs_compose svc))"

definition dirty_status_args :: "string list" where
  "dirty_status_args = [''status'', ''--porcelain'', ''--ignore-submodules=dirty'']"

definition readUpdateDirty :: "path \<Rightarrow> bool option stepping" where
  "readUpdateDirty dir = bind (safe_exec (Git dirty_status_args) dir) (\<lambda>out. ret (map_option (\<lambda>o1. js_trim o1 \<noteq> []) out))"

datatype update_note = UnNoRepo | UnDirMissing | UnNotGit | UnNoBranch | UnFetchFailed | UnNoUpstream

record update_status =
  us_repo :: "path option"
  us_branch :: "string option"
  us_behind :: int
  us_ahead :: int
  us_dirty :: bool
  us_note :: "update_note option"
  us_fetched :: bool

definition empty_status :: "path option \<Rightarrow> update_note \<Rightarrow> update_status" where
  "empty_status dir n = \<lparr>us_repo = dir, us_branch = None, us_behind = 0, us_ahead = 0, us_dirty = False,
     us_note = Some n, us_fetched = False\<rparr>"

definition checkout_update_note :: "checkout_note \<Rightarrow> update_note" where
  "checkout_update_note n = (case n of NoRepo \<Rightarrow> UnNoRepo | DirMissing \<Rightarrow> UnDirMissing | NotGit \<Rightarrow> UnNotGit)"

text \<open>\<open>parseInt(x, 10)\<close>, and the two counts of \<open>rev-list --left-right --count\<close>\<close>

definition parse_int :: "string \<Rightarrow> int option" where
  "parse_int s = (let t = dropWhile is_space s;
       (neg, u) = (case t of [] \<Rightarrow> (False, []) | c # cs \<Rightarrow> if c = CHR ''-'' then (True, cs) else if c = CHR ''+'' then (False, cs) else (False, t));
       ds = takeWhile is_digit u
     in if ds = [] then None else Some (if neg then - int (digits_value ds) else int (digits_value ds)))"

definition count_or_zero :: "string \<Rightarrow> int" where
  "count_or_zero s = (case parse_int s of None \<Rightarrow> 0 | Some n \<Rightarrow> n)"

definition ahead_behind :: "string \<Rightarrow> int \<times> int" where
  "ahead_behind s = (let t = js_trim s in
     (count_or_zero (takeWhile (\<lambda>c. \<not> is_space c) t),
      count_or_zero (takeWhile (\<lambda>c. \<not> is_space c) (dropWhile is_space (dropWhile (\<lambda>c. \<not> is_space c) t)))))"

definition nonempty :: "string option \<Rightarrow> string option" where
  "nonempty v = (case v of Some s \<Rightarrow> if s = [] then None else Some s | None \<Rightarrow> None)"

text \<open>An unreadable \<open>git status\<close> counts as clean here.\<close>

definition checkUpdate :: "repo_service \<Rightarrow> bool \<Rightarrow> update_status stepping" where
  "checkUpdate svc fetch = look (\<lambda>w _. case resolveCheckoutRoot w (repoDirOf svc) of
       (dir, Some n) \<Rightarrow> ret (empty_status dir (checkout_update_note n))
     | (dir, None) \<Rightarrow> (let d = the dir in
         bind (safe_exec (Git [''rev-parse'', ''--abbrev-ref'', ''HEAD'']) d) (\<lambda>b.
         case nonempty (map_option js_trim b) of
           None \<Rightarrow> ret (empty_status dir UnNoBranch)
         | Some branch \<Rightarrow>
             bind (if fetch then safe_exec (Git [''fetch'', ''--quiet'', ''origin'', branch]) d else ret None) (\<lambda>f.
             bind (safe_exec (Git dirty_status_args) d) (\<lambda>status.
             bind (safe_exec (Git [''rev-list'', ''--left-right'', ''--count'', ''HEAD...origin/'' @ branch]) d) (\<lambda>counts.
             let n1 = (if fetch \<and> f = None then Some UnFetchFailed else None);
                 (ahead, behind) = (case nonempty counts of Some c \<Rightarrow> ahead_behind c | None \<Rightarrow> (0, 0));
                 n2 = (if nonempty counts = None \<and> n1 = None then Some UnNoUpstream else n1)
             in ret \<lparr>us_repo = dir, us_branch = Some branch, us_behind = behind, us_ahead = ahead,
                  us_dirty = (case status of None \<Rightarrow> False | Some out \<Rightarrow> out \<noteq> []), us_note = n2, us_fetched = (f \<noteq> None)\<rparr>))))))"

section \<open>Steps\<close>

record repo_ready =
  rr_repo :: path
  rr_work :: path
  rr_branch :: string

definition checkRepoReady :: "repo_service \<Rightarrow> (op_step + repo_ready) stepping" where
  "checkRepoReady svc = look (\<lambda>w _.
     case (repoDirOf svc, case repoDirOf svc of None \<Rightarrow> None | Some d \<Rightarrow> findGitRoot w d) of
       (Some work, Some repo) \<Rightarrow> bind (checkUpdate svc False) (\<lambda>st. ret (
         if us_dirty st then Inl (step_of ''dirty_check'' False ''uncommitted changes: commit or stash them by hand'')
         else case us_branch st of
           None \<Rightarrow> Inl (step_of ''branch'' False ''the branch cannot be determined'')
         | Some b \<Rightarrow> Inr \<lparr>rr_repo = repo, rr_work = work, rr_branch = b\<rparr>))
     | _ \<Rightarrow> ret (Inl (step_of ''repo'' False ''no git repository'')))"

definition updateMainBranch :: "path \<Rightarrow> string \<Rightarrow> exec_result stepping" where
  "updateMainBranch dir branch = bind (exec (Git [''fetch'', ''--quiet'', ''origin'', ''main'']) dir) (\<lambda>r.
     if \<not> xr_ok r then ret r
     else if branch = ''main'' then exec (Git [''merge'', ''--ff-only'', ''origin/main'']) dir
     else exec (Git [''fetch'', ''--quiet'', ''origin'', ''main:refs/heads/main'']) dir)"

definition syncSubmodules :: "path \<Rightarrow> op_step option stepping" where
  "syncSubmodules dir = look (\<lambda>w _.
     if \<not> sw_exists w (dir @ [''.gitmodules'']) then ret None
     else bind (exec (Git [''submodule'', ''sync'', ''--recursive'']) dir) (\<lambda>r.
       if \<not> xr_ok r then ret (Some (step_of ''submodules'' False (tail (js_or (xr_stderr r) (js_or (xr_stdout r) ''submodule sync failed'')))))
       else bind (exec (Git [''submodule'', ''update'', ''--init'', ''--recursive'']) dir) (\<lambda>u.
         ret (Some (step_of ''submodules'' (xr_ok u) (tail
           (if xr_ok u then js_or (js_trim (xr_stdout u @ xr_stderr u)) ''up to date''
            else js_or (xr_stderr u) ''submodule update failed'')))))))"

definition fastForwardFromOrigin :: "path \<Rightarrow> string \<Rightarrow> op_step list stepping" where
  "fastForwardFromOrigin dir branch = bind (updateMainBranch dir branch) (\<lambda>m.
     let s1 = step_of ''main'' (xr_ok m) (tail (js_or (xr_stderr m) (js_or (xr_stdout m) (if xr_ok m then [] else ''main update failed''))))
     in if \<not> xr_ok m then ret [s1]
     else bind (exec (Git [''fetch'', ''--quiet'', ''origin'', branch]) dir) (\<lambda>f.
       let s2 = step_of ''fetch'' (xr_ok f) (tail (js_or (xr_stderr f) (xr_stdout f)))
       in if \<not> xr_ok f then ret [s1, s2]
       else bind (exec (Git [''merge'', ''--ff-only'', ''origin/'' @ branch]) dir) (\<lambda>p.
         let s3 = step_of ''pull'' (xr_ok p) (tail (if xr_ok p then xr_stdout p @ xr_stderr p
                    else js_or (xr_stderr p) ''cannot be merged with --ff-only (branches have diverged)''))
         in if \<not> xr_ok p then ret [s1, s2, s3]
         else bind (syncSubmodules dir) (\<lambda>sub. ret ([s1, s2, s3] @ (case sub of None \<Rightarrow> [] | Some x \<Rightarrow> [x]))))))"

definition at_prefix :: "path \<Rightarrow> string option \<Rightarrow> path" where
  "at_prefix dir prefix = (case prefix of None \<Rightarrow> dir | Some p \<Rightarrow> dir @ [p])"

definition with_prefix :: "string \<Rightarrow> string option \<Rightarrow> string" where
  "with_prefix name prefix = (case prefix of None \<Rightarrow> name | Some p \<Rightarrow> name @ '':'' @ p)"

definition installDependencies :: "path \<Rightarrow> bool \<Rightarrow> string option \<Rightarrow> op_step option stepping" where
  "installDependencies dir prefer_offline prefix = look (\<lambda>w _.
     let d = at_prefix dir prefix
     in if \<not> sw_exists w (d @ [''package.json'']) then ret None
     else bind (exec (Npm ([''install'', ''--include=dev'', ''--no-save'']
           @ (if prefer_offline then [''--prefer-offline'', ''--no-audit'', ''--no-fund''] else []))) d) (\<lambda>r.
       ret (Some (step_of (with_prefix ''install'' prefix) (xr_ok r) (tail (if xr_ok r then xr_stdout r else xr_stderr r))))))"

definition runNpmBuild :: "path \<Rightarrow> string option \<Rightarrow> op_step stepping" where
  "runNpmBuild dir prefix = bind (exec (Npm [''run'', ''build'']) (at_prefix dir prefix)) (\<lambda>r.
     ret (step_of (with_prefix ''build'' prefix) (xr_ok r) (tail (if xr_ok r then xr_stdout r else xr_stderr r))))"

text \<open>\<open>hasBuildScript\<close> reads \<open>package.json\<close>: \<open>sw_build_script\<close> is whether it names a build script.\<close>

definition buildService :: "repo_service \<Rightarrow> path \<Rightarrow> bool \<Rightarrow> op_step option stepping" where
  "buildService svc dir auto = look (\<lambda>w _.
     let cwd = (case rs_cwd svc of Some d \<Rightarrow> d | None \<Rightarrow> dir)
     in case nonempty (rs_build svc) of
          Some cmd \<Rightarrow> bind (exec (ShellLine cmd) cwd) (\<lambda>r.
            ret (Some (step_of ''build'' (xr_ok r) (tail (if xr_ok r then xr_stdout r else xr_stderr r)))))
        | None \<Rightarrow> (if auto \<and> sw_build_script w cwd then bind (runNpmBuild cwd None) (\<lambda>st. ret (Some st)) else ret None))"

end
