(* ===== verification/Operation_Execution.thy ===== *)
theory Operation_Execution imports Repository_Steps begin

text \<open>
  The execution of one operation (\<open>src/federation/operations/context.ts\<close>, \<open>fetch-latest.ts\<close>,
  \<open>mesh-source.ts\<close>, \<open>service-operation.ts\<close>, \<open>self-operation.ts\<close>, \<open>stash-operation.ts\<close>, \<open>executeOperation\<close>
  of \<open>runner.ts\<close>) and the update that the local page applies (\<open>src/update/apply.ts\<close>). The creation of
  services and the site settings of Concordia are done elsewhere: their outcome is an answer.
\<close>

section \<open>Recording steps\<close>

record op_context =
  oc_op :: fed_op
  oc_actor :: string
  oc_requester :: "string option"

definition record_step :: "op_step \<Rightarrow> unit stepping" where
  "record_step st = modify (\<lambda>s. s\<lparr>ss_steps := ss_steps s @ [st]\<rparr>)"

definition succeeded :: outcome where "succeeded = Done True None"
definition failed :: "string \<Rightarrow> outcome" where "failed e = Done False (Some e)"

definition failedAt :: "op_step \<Rightarrow> outcome" where
  "failedAt st = failed (os_step st @ '': '' @ js_or (os_detail st) ''failed'')"

fun recordSteps :: "op_step option list \<Rightarrow> op_step option stepping" where
  "recordSteps [] = ret None"
| "recordSteps (None # xs) = recordSteps xs"
| "recordSteps (Some st # xs) = andThen (record_step st) (if os_ok st then recordSteps xs else ret (Some st))"

text \<open>\<open>const bad = recordSteps(...); if (bad) return failedAt(bad);\<close>\<close>

definition record_then :: "op_step option list \<Rightarrow> outcome stepping \<Rightarrow> outcome stepping" where
  "record_then xs m = bind (recordSteps xs) (\<lambda>bad. case bad of None \<Rightarrow> m | Some st \<Rightarrow> ret (failedAt st))"

section \<open>The latest version\<close>

definition mesh_remote_ref :: string where
  "mesh_remote_ref = ''refs/remotes/mesh/main''"

definition downloaded :: "step_answer \<Rightarrow> ((bool \<times> bool \<times> string option) \<times> bool) option" where
  "downloaded a = (case a of SaDownloaded ok up e \<Rightarrow> Some ((ok, up, e), ok) | _ \<Rightarrow> None)"

definition approved :: "step_answer \<Rightarrow> (bool \<times> bool) option" where
  "approved a = (case a of SaApproved \<Rightarrow> Some (True, True) | _ \<Rightarrow> Some (False, False))"

definition text_or :: "string \<Rightarrow> step_answer \<Rightarrow> (string \<times> bool) option" where
  "text_or d a = (case a of SaText (Some t) \<Rightarrow> Some (t, True) | _ \<Rightarrow> Some (d, True))"

definition first_word :: "string \<Rightarrow> string" where
  "first_word s = takeWhile (\<lambda>c. \<not> is_space c) (js_trim s)"

definition bundle_file :: string where "bundle_file = ''main.bundle''"

definition import_bundle :: "path \<Rightarrow> op_step \<Rightarrow> op_step list stepping" where
  "import_bundle dir s1 = bind (exec (Git [''bundle'', ''verify'', bundle_file]) dir) (\<lambda>v.
     let s2 = step_of ''mesh_verify'' (xr_ok v) (tail (if xr_ok v then xr_stdout v else xr_stderr v))
     in if \<not> xr_ok v then ret [s1, s2]
     else bind (exec (Git [''fetch'', ''--quiet'', bundle_file, ''+refs/heads/main:'' @ mesh_remote_ref]) dir) (\<lambda>f.
       let s3 = step_of ''mesh_import'' (xr_ok f) (tail (js_or (xr_stderr f) (xr_stdout f)))
       in if \<not> xr_ok f then ret [s1, s2, s3]
       else bind (exec (Git [''merge'', ''--ff-only'', mesh_remote_ref]) dir) (\<lambda>m.
         let s4 = step_of ''pull'' (xr_ok m) (tail (if xr_ok m then xr_stdout m
                    else js_or (xr_stderr m) ''cannot be merged with --ff-only (branches have diverged)''))
         in if \<not> xr_ok m then ret [s1, s2, s3, s4]
         else bind (syncSubmodules dir) (\<lambda>sub. ret ([s1, s2, s3, s4] @ (case sub of None \<Rightarrow> [] | Some x \<Rightarrow> [x]))))))"

definition fastForwardFromMesh :: "string \<Rightarrow> string \<Rightarrow> path \<Rightarrow> string \<Rightarrow> op_step list stepping" where
  "fastForwardFromMesh peer repo dir branch =
     (if branch \<noteq> ''main'' then ret [step_of ''mesh_branch'' False (''only main comes from the requester (this checkout is on '' @ branch @ '')'')]
      else bind (ask (SqDownload peer repo) downloaded) (\<lambda>(ok, up, e).
        let s1 = step_of ''mesh_fetch'' ok (if ok then (if up then ''already up to date with '' else ''bundle from '') @ peer
                   else (case e of Some x \<Rightarrow> x | None \<Rightarrow> ''download failed''))
        in if \<not> ok then ret [s1]
        else if up then ret [step_of ''mesh_approval'' False ''approved full bundle required'']
        else bind (ask (SqApprove repo) approved) (\<lambda>yes.
          if yes then import_bundle dir s1
          else bind (ask SqDigest (text_or ''unknown'')) (\<lambda>digest.
            bind (exec (Git [''bundle'', ''list-heads'', bundle_file, ''refs/heads/main'']) dir) (\<lambda>h.
              ret [s1, step_of ''mesh_approval'' False (''bundle is not approved by the local administrator (sha256='' @ digest
                @ '', main='' @ (if xr_ok h then first_word (xr_stdout h) else ''unknown'') @ '')'')])))))"

definition fetchLatest :: "update_source \<Rightarrow> path \<Rightarrow> string \<Rightarrow> string option \<Rightarrow> string option \<Rightarrow> op_step list stepping" where
  "fetchLatest source dir branch repo requester = (case source of
       FromOrigin \<Rightarrow> fastForwardFromOrigin dir branch
     | FromMesh \<Rightarrow> (case requester of
         None \<Rightarrow> ret [step_of ''mesh_source'' False ''the source is mesh but no site asked for it'']
       | Some peer \<Rightarrow> (case nonempty repo of
           None \<Rightarrow> ret [step_of ''mesh_source'' False ''the catalog names no repository'']
         | Some r \<Rightarrow> fastForwardFromMesh peer r dir branch)))"

section \<open>Operations on a service\<close>

datatype version_status = VersionMatch | VersionMismatch | VersionUnknown

definition normalize_version :: "string option \<Rightarrow> string option" where
  "normalize_version v = nonempty (map_option js_trim v)"

definition unresolved_versions :: "string list" where
  "unresolved_versions = [''unknown'', ''0.0.0+unversioned'']"

definition reconcileStatus :: "string option \<Rightarrow> string option \<Rightarrow> version_status" where
  "reconcileStatus disk reported = (case (normalize_version disk, normalize_version reported) of
       (Some d, Some r) \<Rightarrow> (if d \<in> set unresolved_versions \<or> r \<in> set unresolved_versions then VersionUnknown
         else if d = r then VersionMatch else VersionMismatch)
     | _ \<Rightarrow> VersionUnknown)"

definition reflectNeedsRestart :: "version_status \<Rightarrow> bool" where
  "reflectNeedsRestart st \<longleftrightarrow> st \<noteq> VersionMatch"

definition serviceIsRunning :: "step_world \<Rightarrow> repo_service \<Rightarrow> bool" where
  "serviceIsRunning w svc \<longleftrightarrow> sw_managed w (rs_code svc) \<or> sw_state w (rs_code svc) = Some ''running''"

definition controlStep :: "repo_service \<Rightarrow> string \<Rightarrow> op_step stepping" where
  "controlStep svc action = bind (ask (SqControl (rs_code svc) action) exec_answer) (\<lambda>r.
     ret (step_of action (xr_ok r) (tail (if xr_ok r then xr_stdout r else js_or (xr_stderr r) (xr_stdout r)))))"

definition control_then_succeed :: "repo_service \<Rightarrow> string \<Rightarrow> outcome stepping" where
  "control_then_succeed svc action = bind (controlStep svc action) (\<lambda>st. record_then [Some st] (ret succeeded))"

definition disk_version :: "step_answer \<Rightarrow> (string option \<times> bool) option" where
  "disk_version a = (case a of SaText t \<Rightarrow> Some (t, True) | _ \<Rightarrow> None)"

definition serviceVersionStatus :: "repo_service \<Rightarrow> version_status stepping" where
  "serviceVersionStatus svc = bind (ask (SqServiceVersion (rs_code svc)) disk_version) (\<lambda>disk.
     look (\<lambda>w _. ret (reconcileStatus disk (sw_reported w (rs_code svc)))))"

definition restartIfRunning :: "repo_service \<Rightarrow> outcome stepping" where
  "restartIfRunning svc = look (\<lambda>w _.
     if \<not> serviceIsRunning w svc then andThen (record_step (step_of ''restart'' True ''not running: not restarted'')) (ret succeeded)
     else control_then_succeed svc ''restart'')"

definition reflect :: "repo_service \<Rightarrow> outcome stepping" where
  "reflect svc = (case repoDirOf svc of
       None \<Rightarrow> ret (failed ''repo: this service has no checkout'')
     | Some dir \<Rightarrow> bind (buildService svc dir True) (\<lambda>b.
         record_then [Some (case b of Some st \<Rightarrow> st | None \<Rightarrow> step_of ''build'' True ''nothing to build'')]
           (look (\<lambda>w _.
              if \<not> serviceIsRunning w svc then andThen (record_step (step_of ''restart'' True ''not running: not restarted'')) (ret succeeded)
              else bind (serviceVersionStatus svc) (\<lambda>v.
                if \<not> reflectNeedsRestart v then andThen (record_step (step_of ''restart'' True ''the running version is the one on disk'')) (ret succeeded)
                else control_then_succeed svc ''restart'')))))"

definition action_name :: "op_action \<Rightarrow> string" where
  "action_name a = (case a of ActUpdate \<Rightarrow> ''update'' | ActRestart \<Rightarrow> ''restart'' | ActDeploy \<Rightarrow> ''deploy'' | ActReflect \<Rightarrow> ''reflect''
     | ActStart \<Rightarrow> ''start'' | ActStop \<Rightarrow> ''stop'' | ActStash \<Rightarrow> ''stash'' | ActBootstrap \<Rightarrow> ''bootstrap''
     | ActDataExport \<Rightarrow> ''data-export'' | ActDataImport \<Rightarrow> ''data-import'' | ActConcordiaSite \<Rightarrow> ''concordia-federation-site'')"

definition runServiceOperation :: "repo_service \<Rightarrow> op_context \<Rightarrow> outcome stepping" where
  "runServiceOperation svc ctx = (let action = fo_action (oc_op ctx); source = fo_source (oc_op ctx) in
     if action \<in> {ActStart, ActStop, ActRestart} then control_then_succeed svc (action_name action)
     else if action = ActReflect then reflect svc
     else bind (checkRepoReady svc) (\<lambda>ready. case ready of
       Inl st \<Rightarrow> record_then [Some st] (ret succeeded)
     | Inr rr \<Rightarrow> bind (fetchLatest source (rr_repo rr) (rr_branch rr) (rs_repo svc) (oc_requester ctx)) (\<lambda>pulled.
         record_then (map Some pulled)
           (if action = ActUpdate then ret succeeded
            else bind (installDependencies (rr_work rr) (source = FromMesh) None) (\<lambda>i.
              record_then [i] (bind (buildService svc (rr_repo rr) True) (\<lambda>b.
                record_then [b] (restartIfRunning svc))))))))"

section \<open>Operations on Excubitor itself\<close>

definition head_answer :: "step_answer \<Rightarrow> ((string option \<times> string option) \<times> bool) option" where
  "head_answer a = (case a of SaHead b h \<Rightarrow> Some ((b, h), True) | _ \<Rightarrow> None)"

definition accepted :: "step_answer \<Rightarrow> ((bool \<times> string option) \<times> bool) option" where
  "accepted a = (case a of SaAccepted ok e \<Rightarrow> Some ((ok, e), ok) | _ \<Rightarrow> None)"

definition frontend_dir :: string where "frontend_dir = ''frontend''"

definition frontendExists :: "step_world \<Rightarrow> path \<Rightarrow> bool" where
  "frontendExists w dir \<longleftrightarrow> sw_exists w (dir @ [frontend_dir, ''package.json'']) \<and> sw_build_script w (dir @ [frontend_dir])"

definition selfRestart :: "path \<Rightarrow> outcome stepping" where
  "selfRestart dir = bind (ask (SqReadHead dir) head_answer) (\<lambda>(b, h).
     andThen (modify (\<lambda>s. s\<lparr>ss_meta := Some [(''expected_hash'', case h of Some x \<Rightarrow> JStr x | None \<Rightarrow> JNull)]\<rparr>))
     (bind (ask SqRequestRestart accepted) (\<lambda>(ok, e).
       let reason = (case e of Some x \<Rightarrow> x | None \<Rightarrow> ''restart rejected'') in
       andThen (record_step (step_of ''restart_requested'' ok
           (if ok then ''the supervisor accepted the restart (expected version '' @ (case h of Some x \<Rightarrow> x | None \<Rightarrow> ''unknown'') @ '')''
            else reason)))
         (ret (if ok then Restarting else failed (''restart_requested: '' @ reason))))))"

definition buildSelf :: "path \<Rightarrow> op_step option stepping" where
  "buildSelf dir = look (\<lambda>w _. let front = frontendExists w dir in
     bind (runNpmBuild dir None) (\<lambda>st. bind (recordSteps [Some st]) (\<lambda>bad.
       if bad \<noteq> None then ret bad
       else if front then bind (runNpmBuild dir (Some frontend_dir)) (\<lambda>st'. recordSteps [Some st'])
       else ret None)))"

definition build_and_restart :: "path \<Rightarrow> outcome stepping" where
  "build_and_restart dir = bind (buildSelf dir) (\<lambda>bad. case bad of Some st \<Rightarrow> ret (failedAt st) | None \<Rightarrow> selfRestart dir)"

text \<open>Both installations run before their steps are looked at.\<close>

definition selfInstall :: "path \<Rightarrow> bool \<Rightarrow> outcome stepping \<Rightarrow> outcome stepping" where
  "selfInstall dir offline m = look (\<lambda>w _. let front = frontendExists w dir in
     bind (installDependencies dir offline None) (\<lambda>i1.
     bind (if front then installDependencies dir offline (Some frontend_dir) else ret None) (\<lambda>i2.
       record_then [i1, i2] m)))"

definition selfReflect :: "path \<Rightarrow> outcome stepping" where
  "selfReflect dir = bind (ask (SqReadHead dir) head_answer) (\<lambda>(b, h). look (\<lambda>w _.
     let boot = sw_boot_hash w in
     bind (ask (SqSupervisorHash dir) disk_version) (\<lambda>sup.
       if nonempty h \<noteq> None \<and> nonempty boot \<noteq> None \<and> h = boot \<and> sup = h
       then andThen (record_step (step_of ''reflect'' True ''the running version is the one on disk'')) (ret succeeded)
       else build_and_restart dir)))"

definition selfUpdate :: "path \<Rightarrow> string option \<Rightarrow> op_context \<Rightarrow> outcome stepping" where
  "selfUpdate dir repo ctx = (let action = fo_action (oc_op ctx); source = fo_source (oc_op ctx) in
     bind (readUpdateDirty dir) (\<lambda>dirty.
       if dirty \<noteq> Some False
       then record_then [Some (step_of ''dirty_check'' False (if dirty = None then ''the state of git cannot be read''
              else ''uncommitted changes: commit or stash them by hand''))] (ret succeeded)
       else bind (ask (SqReadHead dir) head_answer) (\<lambda>(b, h). case nonempty b of
         None \<Rightarrow> record_then [Some (step_of ''branch'' False ''the branch cannot be determined'')] (ret succeeded)
       | Some branch \<Rightarrow>
           if branch = ''HEAD'' then record_then [Some (step_of ''branch'' False ''the branch cannot be determined'')] (ret succeeded)
           else bind (fetchLatest source dir branch repo (oc_requester ctx)) (\<lambda>pulled.
             record_then (map Some pulled)
               (if action = ActUpdate then ret succeeded
                else selfInstall dir (source = FromMesh) (build_and_restart dir))))))"

definition runSelfOperation :: "path \<Rightarrow> string option \<Rightarrow> op_context \<Rightarrow> outcome stepping" where
  "runSelfOperation dir repo ctx = (let action = fo_action (oc_op ctx) in
     if action = ActRestart then selfRestart dir
     else if action = ActReflect then selfReflect dir
     else if action \<noteq> ActUpdate \<and> action \<noteq> ActDeploy then ret (failed (''action '' @ action_name action @ '' is not for Excubitor itself''))
     else selfUpdate dir repo ctx)"

section \<open>Stashing uncommitted changes\<close>

definition in_progress :: "string list" where
  "in_progress = [''MERGE_HEAD'', ''CHERRY_PICK_HEAD'', ''REVERT_HEAD'', ''rebase-merge'', ''rebase-apply'']"

definition is_hex_lower :: "char \<Rightarrow> bool" where
  "is_hex_lower c \<longleftrightarrow> is_digit c \<or> (let n = of_char c :: nat in 97 \<le> n \<and> n \<le> 102)"

definition receipt :: "exec_result \<Rightarrow> string option" where
  "receipt r = (let t = js_trim (xr_stdout r) in
     if xr_ok r \<and> 40 \<le> length t \<and> length t \<le> 64 \<and> list_all is_hex_lower t then Some t else None)"

definition is_id_char :: "char \<Rightarrow> bool" where
  "is_id_char c \<longleftrightarrow> (let n = of_char c :: nat in
     is_digit c \<or> (65 \<le> n \<and> n \<le> 90) \<or> (97 \<le> n \<and> n \<le> 122) \<or> n = 95 \<or> n = 45)"

definition valid_operation_id :: "string \<Rightarrow> bool" where
  "valid_operation_id i \<longleftrightarrow> 1 \<le> length i \<and> length i \<le> 100 \<and> list_all is_id_char i"

definition stash_failure :: "string \<Rightarrow> op_step list" where
  "stash_failure detail = [step_of ''stash'' False detail]"

definition verify_stash :: "path \<Rightarrow> op_step \<Rightarrow> op_step list stepping" where
  "verify_stash root st = bind (exec (Git (dirty_status_args @ [''-z''])) root) (\<lambda>rem.
     ret [st, step_of ''stash_verify'' (xr_ok rem \<and> xr_stdout rem = [])
       (if \<not> xr_ok rem then ''the state after stashing cannot be read; the stash commit is kept''
        else if xr_stdout rem \<noteq> [] then ''changes remain; the stash commit is kept''
        else ''tracked and untracked changes are stashed'')])"

definition push_stash :: "path \<Rightarrow> string \<Rightarrow> exec_result \<Rightarrow> op_step list stepping" where
  "push_stash root i before = (let message = ''Excubitor operation '' @ i in
     bind (exec (Git [''stash'', ''push'', ''--include-untracked'', ''--message'', message]) root) (\<lambda>saved.
     bind (exec (Git [''rev-parse'', ''--verify'', ''--quiet'', ''refs/stash'']) root) (\<lambda>after_push. let hash = receipt after_push in
     bind (case hash of
             None \<Rightarrow> ret None
           | Some h \<Rightarrow> bind (exec (Git [''show'', ''-s'', ''--format=%s'', h]) root) (\<lambda>r. ret (Some r))) (\<lambda>subject.
       let created = (hash \<noteq> None \<and> hash \<noteq> receipt before \<and> (case subject of
             None \<Rightarrow> False | Some r \<Rightarrow> xr_ok r \<and> ends_with ('': '' @ message) (js_trim (xr_stdout r))));
           detail = (if created then ''stash commit '' @ the hash else ''no new stash commit can be confirmed'')
       in if \<not> xr_ok saved \<or> \<not> created
          then ret (stash_failure (detail @ ''; stashing is not complete. Check the state and do not repeat it automatically''))
          else verify_stash root (step_of ''stash'' True detail)))))"

definition stashWorkingTree :: "path \<Rightarrow> string \<Rightarrow> op_step list stepping" where
  "stashWorkingTree dir i = look (\<lambda>w _. case findGitRoot w dir of
       None \<Rightarrow> ret (stash_failure ''only the git checkout of a service can be stashed'')
     | Some root \<Rightarrow>
         if \<not> sw_is_dir w (root @ [''.git'']) then ret (stash_failure ''only the git checkout of a service can be stashed'')
         else if \<not> valid_operation_id i then ret (stash_failure ''the operation id is not valid'')
         else if list_ex (\<lambda>n. sw_exists w (root @ [''.git'', n])) in_progress then ret (stash_failure ''a merge or rebase is in progress'')
         else bind (exec (Git [''symbolic-ref'', ''--quiet'', ''--short'', ''HEAD'']) root) (\<lambda>branch.
           if \<not> xr_ok branch \<or> js_trim (xr_stdout branch) = [] then ret (stash_failure ''the branch cannot be determined'')
           else bind (exec (Git [''ls-files'', ''--unmerged'', ''-z'']) root) (\<lambda>conflicts.
             if \<not> xr_ok conflicts \<or> xr_stdout conflicts \<noteq> [] then ret (stash_failure ''resolve the conflicts first'')
             else bind (exec (Git (dirty_status_args @ [''-z''])) root) (\<lambda>status.
               if \<not> xr_ok status then ret (stash_failure ''uncommitted changes cannot be read'')
               else if xr_stdout status = [] then ret [step_of ''stash'' True ''nothing to stash'']
               else bind (exec (Git [''rev-parse'', ''--verify'', ''--quiet'', ''refs/stash'']) root) (\<lambda>before.
                 if (\<not> xr_ok before \<and> xr_code before \<noteq> Some 1) \<or> (xr_ok before \<and> receipt before = None)
                 then ret (stash_failure ''the existing stash cannot be read'')
                 else push_stash root i before)))))"

section \<open>Dispatch\<close>

type_synonym repo_catalog = "repo_service list"

definition find_service :: "code \<Rightarrow> repo_catalog \<Rightarrow> repo_service option" where
  "find_service c cat = find_key rs_code c cat"

definition selfRepoOf :: "repo_catalog \<Rightarrow> path \<Rightarrow> path \<times> string option" where
  "selfRepoOf cat cwd = (case find_service ''excubitor'' cat of
       None \<Rightarrow> (cwd, None)
     | Some svc \<Rightarrow> (case rs_cwd svc of Some d \<Rightarrow> d | None \<Rightarrow> cwd, rs_repo svc))"

definition runStashOperation :: "op_context \<Rightarrow> repo_catalog \<Rightarrow> path \<Rightarrow> outcome stepping" where
  "runStashOperation ctx cat cwd =
     (let dir = (case fo_target (oc_op ctx) of
          TargetExcubitor \<Rightarrow> Some (fst (selfRepoOf cat cwd))
        | TargetService c \<Rightarrow> (case find_service c cat of None \<Rightarrow> None | Some svc \<Rightarrow> repoDirOf svc))
      in case dir of
           None \<Rightarrow> ret (failed ''stash: the service has no git checkout'')
         | Some d \<Rightarrow> bind (stashWorkingTree d (fo_id (oc_op ctx))) (\<lambda>steps. record_then (map Some steps) (ret succeeded)))"

definition elsewhere :: "step_answer \<Rightarrow> (outcome \<times> bool) option" where
  "elsewhere a = (case a of SaOutcome (Done ok e) \<Rightarrow> Some (Done ok e, True) | _ \<Rightarrow> None)"

definition executeOperation :: "op_context \<Rightarrow> repo_catalog \<Rightarrow> path \<Rightarrow> outcome stepping" where
  "executeOperation ctx cat cwd =
     (if fo_action (oc_op ctx) = ActStash then runStashOperation ctx cat cwd
      else case fo_target (oc_op ctx) of
        TargetExcubitor \<Rightarrow> runSelfOperation (fst (selfRepoOf cat cwd)) (snd (selfRepoOf cat cwd)) ctx
      | TargetService c \<Rightarrow>
          if fo_action (oc_op ctx) \<in> {ActBootstrap, ActDataExport, ActDataImport, ActConcordiaSite}
          then ask (SqElsewhere (fo_action (oc_op ctx)) c) elsewhere
          else case find_service c cat of
            None \<Rightarrow> ret (failed (''service '' @ c @ '' is not in the catalog''))
          | Some svc \<Rightarrow> runServiceOperation svc ctx)"

section \<open>Updates applied by the local page\<close>

text \<open>The steps it collects are the recorded ones; \<open>audit\<close> only writes them down.\<close>

record apply_options =
  ao_install :: bool
  ao_restart :: bool

definition applyManualUpdate :: "repo_service \<Rightarrow> apply_options \<Rightarrow> bool stepping" where
  "applyManualUpdate svc opts =
     (let record_or_stop = (\<lambda>xs m. bind (recordSteps xs) (\<lambda>bad. if bad \<noteq> None then ret False else m)) in
      bind (checkRepoReady svc) (\<lambda>ready. case ready of
        Inl st \<Rightarrow> andThen (record_step st) (ret False)
      | Inr rr \<Rightarrow> bind (fastForwardFromOrigin (rr_repo rr) (rr_branch rr)) (\<lambda>pulled.
          record_or_stop (map Some pulled)
            (bind (if ao_install opts then installDependencies (rr_work rr) False None else ret None) (\<lambda>i.
              record_or_stop [i]
                (bind (buildService svc (rr_repo rr) False) (\<lambda>b.
                  record_or_stop [b]
                    (look (\<lambda>w _. let running = serviceIsRunning w svc in
                      if ao_restart opts \<and> running
                      then bind (ask (SqControl (rs_code svc) ''restart'') exec_answer) (\<lambda>r.
                        record_or_stop [Some (step_of ''restart'' (xr_ok r) (tail (xr_stdout r @ xr_stderr r)))] (ret True))
                      else andThen (record_step (step_of ''restart'' True
                             (if running then ''skipped (restart=false)'' else ''not running: no restart''))) (ret True))))))))))"

end
