(* ===== verification/Execution_Safety.thy ===== *)
theory Execution_Safety imports Operation_Execution begin

text \<open>
  What the execution of an operation keeps: once a command has failed nothing more is changed, success
  is reported only when every command and every recorded step succeeded, and an accepted restart was
  marked before it was asked for.
\<close>

section \<open>Clean runs\<close>

definition recorded :: "step_state \<Rightarrow> bool" where
  "recorded s \<longleftrightarrow> list_all os_ok (ss_steps s)"

text \<open>\<open>b\<close> says that the steps not yet recorded succeeded.\<close>

definition pending :: "bool \<Rightarrow> step_state \<Rightarrow> bool" where
  "pending b s \<longleftrightarrow> recorded s \<and> (b \<longrightarrow> list_all snd (ss_trace s))"

abbreviation clean :: "step_state \<Rightarrow> bool" where
  "clean \<equiv> pending True"

text \<open>Queries that change something: every command but the reading ones of git, downloads, approvals, controls.\<close>

definition changes :: "step_query \<Rightarrow> bool" where
  "changes q = (tracked q \<or> (case q of SqElsewhere a c \<Rightarrow> True | _ \<Rightarrow> False))"

definition installs :: "step_query \<Rightarrow> bool" where
  "installs q = (case q of SqExec (Npm args) d \<Rightarrow> args \<noteq> [] \<and> hd args = ''install'' | _ \<Rightarrow> False)"

text \<open>Everything succeeded, except perhaps installations of packages whose steps are not recorded yet.\<close>

definition but_installs :: "step_state \<Rightarrow> bool" where
  "but_installs s \<longleftrightarrow> recorded s \<and> list_all (\<lambda>x. installs (fst x) \<or> snd x) (ss_trace s)"

definition may_issue :: "step_query \<Rightarrow> step_state \<Rightarrow> bool" where
  "may_issue q s \<longleftrightarrow> (changes q \<longrightarrow> (if installs q then but_installs s else clean s))"

lemma clean_but_installs: "clean s \<Longrightarrow> but_installs s"
  by (auto simp: pending_def but_installs_def list_all_iff)

interpretation steps: async_safety "\<lambda>_. True" "\<lambda>s s'. s' = s" "\<lambda>_ _. True" "\<lambda>_ _ _. True" may_issue
  by unfold_locales simp_all

lemma stable [simp]: "steps.stable L"
  by (simp add: steps.stable_def)


lemma pending_False: "pending b s \<Longrightarrow> pending False s"
  by (simp add: pending_def)

lemma traced_pending: "clean s \<Longrightarrow> pending (ok \<or> \<not> tracked q) (traced q ok s)"
  by (auto simp: pending_def recorded_def traced_def)

lemma traced_recorded: "pending b s \<Longrightarrow> pending (b \<and> ok) (traced q ok s)"
  by (auto simp: pending_def recorded_def traced_def)

lemma ask_triple_may:
  assumes "\<And>s. P s \<Longrightarrow> may_issue q s"
    and "\<And>a x ok s. f a = Some (x, ok) \<Longrightarrow> P s \<Longrightarrow> Q (Inr x) (traced q ok s)" and "\<And>e s. P s \<Longrightarrow> Q (Inl e) s"
  shows "steps.triple P (ask q f) Q"
  unfolding ask_def
proof (rule steps.triple_bind [where Q = "\<lambda>r s. P s"])
  show "steps.triple P (await q) (\<lambda>r s. P s)"
    by (rule steps.triple_await [where L = P]) (use assms(1) in auto)
  show "steps.triple P (case f a of None \<Rightarrow> throw (thrown a) | Some (x, ok) \<Rightarrow> andThen (modify (traced q ok)) (ret x)) Q" for a
  proof (cases "f a")
    case None
    then show ?thesis using assms(3) by (simp add: steps.triple_throw)
  next
    case (Some y)
    obtain x ok where y: "y = (x, ok)" by fastforce
    have "steps.triple P (andThen (modify (traced q ok)) (ret x)) Q"
    proof (rule steps.triple_andThen [where Q = "\<lambda>r s. r = Inr () \<and> Q (Inr x) s"])
      show "steps.triple P (modify (traced q ok)) (\<lambda>r s. r = Inr () \<and> Q (Inr x) s)"
        by (rule steps.triple_modify) (use assms(2) Some y in simp)
      show "steps.triple (\<lambda>s. Inr u = Inr () \<and> Q (Inr x) s) (ret x) Q" for u by (rule steps.triple_ret) simp
    qed simp
    then show ?thesis using Some y by simp
  qed
qed (use assms(3) in auto)

lemma ask_triple:
  assumes "\<And>s. P s \<Longrightarrow> changes q \<Longrightarrow> clean s"
    and "\<And>a x ok s. f a = Some (x, ok) \<Longrightarrow> P s \<Longrightarrow> Q (Inr x) (traced q ok s)" and "\<And>e s. P s \<Longrightarrow> Q (Inl e) s"
  shows "steps.triple P (ask q f) Q"
  using assms clean_but_installs by (intro ask_triple_may) (auto simp: may_issue_def)

section \<open>Rules\<close>

text \<open>What holds of a result; an exception is of no interest.\<close>

abbreviation res :: "('r \<Rightarrow> step_state \<Rightarrow> bool) \<Rightarrow> string + 'r \<Rightarrow> step_state \<Rightarrow> bool" where
  "res Q \<equiv> on_result Q (\<lambda>_. True)"

lemmas step_bind = steps.seq_bind [where E = "\<lambda>_. True"]
lemmas step_andThen = steps.seq_andThen [where E = "\<lambda>_. True"]

lemma step_ret: "(\<And>s. P s \<Longrightarrow> Q x s) \<Longrightarrow> steps.triple P (ret x) (res Q)"
  by (rule steps.seq_ret) simp

lemma step_modify: "(\<And>s. P s \<Longrightarrow> Q () (f s)) \<Longrightarrow> steps.triple P (modify f) (res Q)"
  by (rule steps.seq_modify) simp

lemma step_look: "(\<And>w s. steps.triple P (f w s) Q) \<Longrightarrow> steps.triple P (look f) Q"
  by (rule steps.triple_look) (blast intro: steps.triple_pre)

lemma step_pre: "steps.triple P' m Q \<Longrightarrow> (\<And>s. P s \<Longrightarrow> P' s) \<Longrightarrow> steps.triple P m Q"
  by (rule steps.triple_pre)

lemma step_post: "steps.triple P m (res Q) \<Longrightarrow> (\<And>x s. Q x s \<Longrightarrow> Q' x s) \<Longrightarrow> steps.triple P m (res Q')"
  by (erule steps.seq_post) simp_all

text \<open>After a command: stop with what is recorded, or go on clean.\<close>

lemma step_branch:
  assumes "\<not> b \<Longrightarrow> steps.triple (pending False) m Q" "b \<Longrightarrow> steps.triple clean n Q"
  shows "steps.triple (pending (b \<or> c)) (if \<not> b then m else n) Q"
  using assms pending_False by (cases b) (auto intro: step_pre)

lemma ask_step:
  assumes "\<And>a x ok. f a = Some (x, ok) \<Longrightarrow> b x \<Longrightarrow> ok"
  shows "steps.triple clean (ask q f) (res (\<lambda>x. pending (b x \<or> \<not> tracked q)))"
proof (rule ask_triple)
  fix a x ok s assume "f a = Some (x, ok)" "clean s"
  then have "pending (ok \<or> \<not> tracked q) (traced q ok s)" "b x \<longrightarrow> ok" using assms traced_pending by blast+
  then show "res (\<lambda>x. pending (b x \<or> \<not> tracked q)) (Inr x) (traced q ok s)" by (simp add: pending_def)
qed simp_all

lemma exec_step: "steps.triple clean (exec c d) (res (\<lambda>x. pending (xr_ok x \<or> \<not> effect c)))"
proof -
  have "steps.triple clean (ask (SqExec c d) exec_answer) (res (\<lambda>x. pending (xr_ok x \<or> \<not> tracked (SqExec c d))))"
    by (rule ask_step) (auto simp: exec_answer_def split: step_answer.splits)
  then show ?thesis by (simp add: exec_def tracked_def)
qed

lemma exec_read: "\<not> effect c \<Longrightarrow> steps.triple clean (exec c d) (res (\<lambda>_. clean))"
  using exec_step [of c d] by simp

lemma safe_exec_read: "\<not> effect c \<Longrightarrow> steps.triple clean (safe_exec c d) (res (\<lambda>_. clean))"
  unfolding safe_exec_def by (intro step_bind [OF exec_read] step_ret)

lemma dirty_reads [simp]: "\<not> effect (Git dirty_status_args)" "\<not> effect (Git (dirty_status_args @ xs))"
  by (simp_all add: effect_def git_query_def dirty_status_args_def)

lemma git_reads [simp]:
  "\<not> effect (Git (''rev-parse'' # xs))" "\<not> effect (Git (''rev-list'' # xs))" "\<not> effect (Git (''symbolic-ref'' # xs))"
  "\<not> effect (Git (''ls-files'' # xs))" "\<not> effect (Git (''show'' # xs))" "\<not> effect (Git (''bundle'' # ''list-heads'' # xs))"
  by (simp_all add: effect_def git_query_def)

section \<open>The steps of a repository\<close>


lemma checkUpdate_triple: "steps.triple clean (checkUpdate svc False) (res (\<lambda>_. clean))"
proof -
  have read: "steps.triple clean (safe_exec (Git (''rev-parse'' # xs)) d) (res (\<lambda>_. clean))"
    "steps.triple clean (safe_exec (Git (''rev-list'' # xs)) d) (res (\<lambda>_. clean))"
    "steps.triple clean (safe_exec (Git dirty_status_args) d) (res (\<lambda>_. clean))" for xs d
    by (simp_all add: safe_exec_read)
  have none: "steps.triple clean (ret None :: string option stepping) (res (\<lambda>_. clean))" by (rule step_ret)
  show ?thesis unfolding checkUpdate_def
    by (rule step_look)
      (auto simp: Let_def split: prod.split option.split intro!: step_ret step_bind [OF read(1)] step_bind [OF read(2)]
        step_bind [OF read(3)] step_bind [OF none])
qed

definition ready_post :: "op_step + repo_ready \<Rightarrow> step_state \<Rightarrow> bool" where
  "ready_post r s \<longleftrightarrow> clean s \<and> (\<forall>st. r = Inl st \<longrightarrow> \<not> os_ok st)"

lemma checkRepoReady_triple: "steps.triple clean (checkRepoReady svc) (res ready_post)"
  unfolding checkRepoReady_def
  by (rule step_look)
    (auto simp: ready_post_def step_of_def split: option.split intro!: step_ret step_bind [OF checkUpdate_triple])

abbreviation steps_post :: "op_step list \<Rightarrow> step_state \<Rightarrow> bool" where
  "steps_post sts \<equiv> pending (list_all os_ok sts)"

definition opt_post :: "op_step option \<Rightarrow> step_state \<Rightarrow> bool" where
  "opt_post st = pending (case st of None \<Rightarrow> True | Some x \<Rightarrow> os_ok x)"

lemma step_of_ok [simp]: "os_ok (step_of n ok d) = ok"
  by (simp add: step_of_def)

lemma updateMainBranch_triple: "steps.triple clean (updateMainBranch d b) (res (\<lambda>x. pending (xr_ok x)))"
  unfolding updateMainBranch_def
proof (intro step_bind [OF exec_step] step_branch steps.triple_if)
  show "steps.triple clean (exec (Git [''merge'', ''--ff-only'', ''origin/main'']) d) (res (\<lambda>x. pending (xr_ok x)))"
    "steps.triple clean (exec (Git [''fetch'', ''--quiet'', ''origin'', ''main:refs/heads/main'']) d) (res (\<lambda>x. pending (xr_ok x)))"
    by (rule step_post [OF exec_step], simp add: effect_def git_query_def)+
  show "\<not> xr_ok x \<Longrightarrow> steps.triple (pending False) (ret x) (res (\<lambda>x. pending (xr_ok x)))" for x
    by (rule step_ret) simp
qed

lemma syncSubmodules_triple: "steps.triple clean (syncSubmodules d) (res opt_post)"
  unfolding syncSubmodules_def
  by (intro step_look steps.triple_if step_bind [OF exec_step] step_branch step_ret)
    (auto simp: opt_post_def effect_def git_query_def)

lemma with_submodules: "list_all os_ok sts \<Longrightarrow>
    steps.triple clean (bind (syncSubmodules d) (\<lambda>sub. ret (sts @ (case sub of None \<Rightarrow> [] | Some x \<Rightarrow> [x])))) (res steps_post)"
  by (intro step_bind [OF syncSubmodules_triple] step_ret) (auto simp: opt_post_def split: option.splits)

lemma fastForwardFromOrigin_triple: "steps.triple clean (fastForwardFromOrigin d b) (res steps_post)"
proof -
  have main: "steps.triple clean (updateMainBranch d b) (res (\<lambda>x. pending (xr_ok x \<or> False)))"
    using updateMainBranch_triple by simp
  show ?thesis unfolding fastForwardFromOrigin_def Let_def
    by (intro step_bind [OF main] step_bind [OF exec_step] step_branch step_ret with_submodules) auto
qed

text \<open>An installation may follow one that failed, so its directory is tried too.\<close>

lemma traced_installs: "but_installs s \<Longrightarrow> but_installs (traced (SqExec (Npm (''install'' # xs)) d) ok s)"
  by (simp add: but_installs_def recorded_def traced_def installs_def)

lemma install_any:
  "steps.triple (\<lambda>s. pending b s \<and> but_installs s) (installDependencies d off prefix)
    (res (\<lambda>i s. pending (b \<and> (case i of None \<Rightarrow> True | Some st \<Rightarrow> os_ok st)) s \<and> but_installs s))"
proof -
  have "steps.triple (\<lambda>s. pending b s \<and> but_installs s) (exec (Npm (''install'' # xs)) d')
      (res (\<lambda>r s. pending (b \<and> xr_ok r) s \<and> but_installs s))" for xs d'
    unfolding exec_def
    by (rule ask_triple_may) (auto simp: may_issue_def installs_def exec_answer_def traced_recorded traced_installs
      split: step_answer.splits)
  then show ?thesis unfolding installDependencies_def Let_def
    by (intro step_look steps.triple_if step_ret)
      (simp, auto intro!: step_bind [where Q = "\<lambda>r s. pending (b \<and> xr_ok r) s \<and> but_installs s"] step_ret)
qed

lemma installDependencies_triple: "steps.triple clean (installDependencies d off prefix) (res opt_post)"
  by (rule step_post [OF step_pre [OF install_any [of True]]]) (auto simp: opt_post_def clean_but_installs)

lemma runNpmBuild_triple: "steps.triple clean (runNpmBuild d prefix) (res (\<lambda>st. pending (os_ok st)))"
  unfolding runNpmBuild_def by (intro step_bind [OF exec_step] step_ret) (auto simp: effect_def)

lemma buildService_triple: "steps.triple clean (buildService svc d auto) (res opt_post)"
  unfolding buildService_def Let_def
  by (intro step_look steps.triple_case_option steps.triple_if step_bind [OF exec_step] step_bind [OF runNpmBuild_triple] step_ret)
    (auto simp: opt_post_def effect_def git_query_def)


section \<open>Executions\<close>

lemma record_any: "steps.triple P (record_step st) (res (\<lambda>_ _. True))"
  unfolding record_step_def by (rule step_modify) simp

lemma recordSteps_triple:
  "steps.triple (pending (\<forall>st. Some st \<in> set xs \<longrightarrow> os_ok st)) (recordSteps xs) (res (\<lambda>bad s. bad = None \<longrightarrow> clean s))"
proof (induction xs rule: recordSteps.induct)
  case 1
  show ?case by (simp add: step_ret)
next
  case (2 xs)
  then show ?case by simp
next
  case (3 st xs)
  let ?rest = "\<forall>x. Some x \<in> set xs \<longrightarrow> os_ok x"
  show ?case
  proof (cases "os_ok st")
    case True
    have "steps.triple (pending (\<forall>x. Some x \<in> set (Some st # xs) \<longrightarrow> os_ok x)) (record_step st) (res (\<lambda>_. pending ?rest))"
      unfolding record_step_def using True by (intro step_modify) (auto simp: pending_def recorded_def)
    then show ?thesis using step_andThen [OF _ 3 [OF True]] True by simp
  next
    case False
    then show ?thesis by simp (rule step_andThen [OF record_any], rule step_ret, simp)
  qed
qed

definition outcome_post :: "outcome \<Rightarrow> step_state \<Rightarrow> bool" where
  "outcome_post r s = (case r of Done ok e \<Rightarrow> ok \<longrightarrow> clean s | Restarting \<Rightarrow> clean s \<and> ss_meta s \<noteq> None)"

lemma outcome_simps [simp]: "outcome_post succeeded = clean" "outcome_post (failed e) = (\<lambda>_. True)" "outcome_post (failedAt st) = (\<lambda>_. True)"
  by (simp_all add: outcome_post_def succeeded_def failed_def failedAt_def fun_eq_iff)


lemma record_ok: "steps.triple clean (record_step (step_of n True d)) (res (\<lambda>_. clean))"
  unfolding record_step_def by (rule step_modify) (simp add: pending_def recorded_def)
















lemma all_some: "(\<forall>st. Some st \<in> set (map Some xs) \<longrightarrow> os_ok st) = list_all os_ok xs"
  by (auto simp: list_all_iff)




















lemma applyManualUpdate_triple: "steps.triple clean (applyManualUpdate svc opts) (res (\<lambda>ok s. ok \<longrightarrow> clean s))"
proof -
  have stop: "steps.triple P (bind (recordSteps xs) (\<lambda>bad. if bad \<noteq> None then ret False else m)) (res (\<lambda>ok s. ok \<longrightarrow> clean s))"
    if "\<And>s. P s \<Longrightarrow> pending (\<forall>st. Some st \<in> set xs \<longrightarrow> os_ok st) s" "steps.triple clean m (res (\<lambda>ok s. ok \<longrightarrow> clean s))" for P xs m
  proof (rule step_bind [OF step_pre [OF recordSteps_triple that(1)]])
    show "steps.triple (\<lambda>s. bad = None \<longrightarrow> clean s) (if bad \<noteq> None then ret False else m) (res (\<lambda>ok s. ok \<longrightarrow> clean s))" for bad
      using that(2) by (cases bad) (auto intro: step_ret)
  qed
  have pulled: "steps.triple (steps_post sts) (bind (recordSteps (map Some sts)) (\<lambda>bad. if bad \<noteq> None then ret False else m))
      (res (\<lambda>ok s. ok \<longrightarrow> clean s))" if "steps.triple clean m (res (\<lambda>ok s. ok \<longrightarrow> clean s))" for sts m
    by (rule stop [OF _ that]) (simp only: all_some)
  have opt: "steps.triple (opt_post st) (bind (recordSteps [st]) (\<lambda>bad. if bad \<noteq> None then ret False else m))
      (res (\<lambda>ok s. ok \<longrightarrow> clean s))" if "steps.triple clean m (res (\<lambda>ok s. ok \<longrightarrow> clean s))" for st m
    by (rule stop [OF _ that]) (auto simp: opt_post_def split: option.splits)
  have finished: "steps.triple clean (ret True) (res (\<lambda>ok s. ok \<longrightarrow> clean s))" by (rule step_ret) simp
  have install: "steps.triple clean (if b then installDependencies d False None else ret None) (res opt_post)" for b d
    by (intro steps.triple_if installDependencies_triple step_ret) (simp add: opt_post_def)
  have control: "steps.triple clean (ask (SqControl c a) exec_answer) (res (\<lambda>r. pending (xr_ok r)))" for c a
    by (rule step_post [OF ask_step [where b = xr_ok]]) (auto simp: exec_answer_def tracked_def split: step_answer.splits)
  have restart: "steps.triple (pending (xr_ok r)) (bind (recordSteps [Some (step_of n (xr_ok r) t)]) (\<lambda>bad. if bad \<noteq> None then ret False else ret True))
      (res (\<lambda>ok s. ok \<longrightarrow> clean s))" for n r t
    by (rule stop [OF _ finished]) simp
  have last: "steps.triple clean (andThen (record_step (step_of n True t)) (ret True)) (res (\<lambda>ok s. ok \<longrightarrow> clean s))" for n t
    by (rule step_andThen [OF record_ok finished])
  have not_ready: "steps.triple P (andThen (record_step st) (ret False)) (res (\<lambda>ok s. ok \<longrightarrow> clean s))" for P st
    by (rule step_andThen [OF record_any]) (rule step_ret, simp)
  have body: "steps.triple (ready_post (Inr rr)) m (res Q)" if "steps.triple clean m (res Q)" for rr m and Q :: "bool \<Rightarrow> step_state \<Rightarrow> bool"
    by (rule step_pre [OF that]) (simp add: ready_post_def)
  have by_ready: "steps.triple (ready_post r) (case r of Inl st \<Rightarrow> andThen (record_step st) (ret False) | Inr rr \<Rightarrow> m rr) (res (\<lambda>ok s. ok \<longrightarrow> clean s))"
    if "\<And>rr. steps.triple clean (m rr) (res (\<lambda>ok s. ok \<longrightarrow> clean s))" for r m
    by (cases r) (auto intro: not_ready body [OF that])
  show ?thesis unfolding applyManualUpdate_def Let_def
    by (rule step_bind [OF checkRepoReady_triple], rule by_ready, rule step_bind [OF fastForwardFromOrigin_triple], rule pulled,
        rule step_bind [OF install], rule opt, rule step_bind [OF buildService_triple], rule opt, rule step_look,
        rule steps.triple_if, rule step_bind [OF control], rule restart, rule last)
qed

section \<open>Failures stop the work\<close>









definition demo_service :: repo_service where
  "demo_service = \<lparr>rs_code = ''svc'', rs_cwd = Some [''r'', ''svc''], rs_compose = None, rs_repo = None,
     rs_build = Some ''make'', rs_disabled = False\<rparr>"

definition demo_world :: step_world where
  "demo_world = \<lparr>sw_exists = (\<lambda>p. p = [''r'', ''svc''] \<or> p = [''r'', ''svc'', ''.git'']), sw_is_dir = (\<lambda>_. True),
     sw_build_script = (\<lambda>_. False), sw_workspace = None, sw_managed = (\<lambda>_. True), sw_state = (\<lambda>_. None),
     sw_reported = (\<lambda>_. None), sw_boot_hash = None\<rparr>"

definition said :: "bool \<Rightarrow> string \<Rightarrow> step_answer" where
  "said ok out = SaExec \<lparr>xr_ok = ok, xr_code = None, xr_stdout = out, xr_stderr = []\<rparr>"

definition demo_context :: "op_action \<Rightarrow> op_context" where
  "demo_context a = \<lparr>oc_op = \<lparr>fo_id = ''i'', fo_by = ''local'', fo_peer = None, fo_target = TargetService ''svc'', fo_action = a,
     fo_source = FromOrigin, fo_status = OpRunning, fo_steps = [], fo_error = None, fo_meta = [], fo_created = 0,
     fo_started = Some 0, fo_finished = None\<rparr>, oc_actor = ''local'', oc_requester = None\<rparr>"





section \<open>An unreadable state counts as clean\<close>

text \<open>
  The update of a service goes on although \<open>git status\<close> failed, by a timeout for example; the update of
  Excubitor itself stops.
\<close>

fun ready_result :: "step_state \<times> (step_state, step_world, step_query, step_answer, string, op_step + repo_ready) prog \<Rightarrow> bool" where
  "ready_result (s, Return (Inr (Inr rr))) = True"
| "ready_result _ = False"

fun issues :: "step_query \<Rightarrow> step_state \<times> (step_state, step_world, step_query, step_answer, string, outcome) prog \<Rightarrow> bool" where
  "issues q (s, Await q' k) = (q' = q)"
| "issues q (s, Return r) = False"

theorem unreadable_status_is_ready:
  "ready_result (answering [said True ''main'', said False [], said False []] demo_world
     (checkRepoReady demo_service demo_world \<lparr>ss_steps = [], ss_meta = None, ss_trace = []\<rparr>))
   \<and> issues (SqExec (Git [''fetch'', ''--quiet'', ''origin'', ''main'']) [''r'', ''svc''])
       (answering [said True ''main'', said False [], said False []] demo_world
         (executeOperation (demo_context ActUpdate) [demo_service] [] demo_world \<lparr>ss_steps = [], ss_meta = None, ss_trace = []\<rparr>))"
  by code_simp

end
