(* ===== verification/Daily_Update.thy ===== *)
theory Daily_Update imports Operation_Store Repository_Steps begin

text \<open>
  The daily update of the repositories (\<open>src/update/daily/transaction.ts\<close>, \<open>scheduler.ts\<close>): a run goes
  through the repositories; each is updated inside a transaction whose checkpoint is in the database
  before anything is touched, and is rolled back when a step fails. The collaborators that the
  transaction gets injected (git, builds, the lifecycle of services) answer queries.

  The state holds the run in memory and the row of the table. \<open>dy_stopped\<close>, \<open>dy_head\<close> and \<open>dy_job\<close> are
  history variables: the services stopped and not started again, the last commit a merge or reset put
  in place, and the job of the current repository; \<open>dy_db_failed\<close> says that a call of the database has
  thrown in this tick. Which ones throw is up to the world, by what is to be written.
\<close>

section \<open>State\<close>

record daily_service =
  dv_code :: code
  dv_cwd :: "path option"
  dv_compose :: "path option"
  dv_runtime :: string
  dv_disabled :: bool

record repository =
  rp_path :: string
  rp_services :: "daily_service list"

type_synonym job = "daily_service checkpoint"
type_synonym run = "daily_service daily_run"

record daily_state =
  dy_run :: run
  dy_row :: "run option"
  dy_enabled :: bool
  dy_stopped :: "code list"
  dy_head :: "string option"
  dy_job :: "job option"
  dy_db_failed :: bool

datatype daily_query =
    DqPrepare string
  | DqRunning code
  | DqStop "code list"
  | DqStart code
  | DqHealthy "code list"
  | DqExpect string string "string list"
  | DqMerge string string
  | DqReset string string
  | DqSubmodules string string
  | DqCatalog
  | DqBuild string "code list"
  | DqDrain
  | DqRepositories
  | DqNotify string

datatype daily_answer =
    DaOk
  | DaPrepared string string string
  | DaBool bool
  | DaStops "string option list"
  | DaServices "daily_service list"
  | DaRepositories "repository list"
  | DaNotified "bool option"
  | DaThrows string

record daily_world =
  dw_closing :: bool
  dw_due :: "string option"
  dw_begin :: "string option"
  dw_now :: string
  dw_save_error :: "run \<Rightarrow> string option"
  dw_settings_error :: "string option"
  dw_read_error :: "string option"

type_synonym 'r daily = "(daily_state, daily_world, daily_query, daily_answer, string, 'r) async"

definition demand :: "daily_query \<Rightarrow> (daily_answer \<Rightarrow> 'r option) \<Rightarrow> 'r daily" where
  "demand q f = bind (await q) (\<lambda>a. case f a of Some x \<Rightarrow> ret x | None \<Rightarrow> throw (case a of DaThrows e \<Rightarrow> e | _ \<Rightarrow> []))"

definition is_done :: "daily_answer \<Rightarrow> unit option" where
  "is_done a = (if a = DaOk then Some () else None)"

definition services_of :: "daily_answer \<Rightarrow> daily_service list option" where
  "services_of a = (case a of DaServices svcs \<Rightarrow> Some svcs | _ \<Rightarrow> None)"

definition on_run :: "(run \<Rightarrow> run) \<Rightarrow> unit daily" where
  "on_run f = modify (\<lambda>s. s\<lparr>dy_run := f (dy_run s)\<rparr>)"

definition db_failed :: "string \<Rightarrow> 'r daily" where
  "db_failed e = andThen (modify (\<lambda>s. s\<lparr>dy_db_failed := True\<rparr>)) (throw e)"

definition save :: "unit daily" where
  "save = look (\<lambda>w s. case dw_save_error w (dy_run s) of
       None \<Rightarrow> modify (\<lambda>s. s\<lparr>dy_row := Some (dy_run s)\<rparr>)
     | Some e \<Rightarrow> db_failed e)"

definition push_event :: "string \<Rightarrow> daily_event_status \<Rightarrow> string \<Rightarrow> unit daily" where
  "push_event path st detail = on_run (\<lambda>r. r\<lparr>dr_events := dr_events r @ [\<lparr>de_repository = path, de_status = st, de_detail = detail\<rparr>]\<rparr>)"

definition put_phase :: "daily_phase \<Rightarrow> unit daily" where
  "put_phase ph = andThen (on_run (\<lambda>r. r\<lparr>dr_checkpoint := map_option (\<lambda>c. c\<lparr>cp_phase := ph\<rparr>) (dr_checkpoint r)\<rparr>)) save"

definition drop_checkpoint :: "unit daily" where
  "drop_checkpoint = andThen (on_run (\<lambda>r. r\<lparr>dr_checkpoint := None\<rparr>)) save"

section \<open>The transaction of a repository\<close>

definition codes :: "daily_service list \<Rightarrow> code list" where
  "codes = map dv_code"

definition live_services :: "job \<Rightarrow> daily_service list \<Rightarrow> daily_service list" where
  "live_services cp svcs = filter (\<lambda>svc. dv_code svc \<in> set (cp_running cp)) svcs"

text \<open>All stops are tried and awaited; the first failure is thrown after that.\<close>

definition stops :: "code list \<Rightarrow> daily_answer \<Rightarrow> (code list \<times> string option) option" where
  "stops cs a = (case a of
       DaStops errs \<Rightarrow> (if length errs = length cs
         then Some (map fst (filter (\<lambda>(c, e). e = None) (zip cs errs)), (case List.find (\<lambda>e. e \<noteq> None) errs of Some e \<Rightarrow> e | None \<Rightarrow> None))
         else None)
     | _ \<Rightarrow> None)"

definition stop_services :: "daily_service list \<Rightarrow> unit daily" where
  "stop_services svcs = bind (demand (DqStop (codes svcs)) (stops (codes svcs))) (\<lambda>(stopped, err).
     andThen (modify (\<lambda>s. s\<lparr>dy_stopped := dy_stopped s @ stopped\<rparr>)) (case err of None \<Rightarrow> ret () | Some e \<Rightarrow> throw e))"

fun start_each :: "daily_service list \<Rightarrow> unit daily" where
  "start_each [] = ret ()"
| "start_each (svc # svcs) =
     andThen (modify (\<lambda>s. s\<lparr>dy_stopped := filter (\<lambda>c. c \<noteq> dv_code svc) (dy_stopped s)\<rparr>))
       (andThen (demand (DqStart (dv_code svc)) is_done) (start_each svcs))"

definition start_services :: "daily_service list \<Rightarrow> unit daily" where
  "start_services svcs = andThen (start_each svcs) (if svcs = [] then ret () else demand (DqHealthy (codes svcs)) is_done)"

definition submodules :: "string \<Rightarrow> unit daily" where
  "submodules path = andThen (demand (DqSubmodules path ''sync'') is_done) (demand (DqSubmodules path ''update'') is_done)"

definition put_head :: "string \<Rightarrow> unit daily" where
  "put_head h = modify (\<lambda>s. s\<lparr>dy_head := Some h\<rparr>)"

definition rollback_steps :: "job \<Rightarrow> unit daily" where
  "rollback_steps cp = (let live = live_services cp (cp_services cp) in
     andThen (put_phase PhRollback)
     (andThen (stop_services live)
     (andThen (demand (DqExpect (cp_path cp) (cp_branch cp) [cp_before cp, cp_after cp]) is_done)
     (andThen (demand (DqReset (cp_path cp) (cp_before cp)) is_done)
     (andThen (put_head (cp_before cp))
     (andThen (submodules (cp_path cp))
     (bind (demand DqCatalog services_of) (\<lambda>_.
     (andThen (if cp_services cp \<noteq> [] then demand (DqBuild (cp_path cp) (codes (cp_services cp))) is_done else ret ())
     (andThen (try_catch (start_services live) (\<lambda>e. andThen (stop_services live) (throw e)))
     (andThen (push_event (cp_path cp) EvRolledBack (cp_before cp))
       drop_checkpoint)))))))))))"

definition rollback :: "unit daily" where
  "rollback = look (\<lambda>_ s. case dr_checkpoint (dy_run s) of None \<Rightarrow> ret () | Some cp \<Rightarrow> rollback_steps cp)"

text \<open>The definitions of the services after the merge; a service that moved is refused.\<close>

fun updated_services :: "job \<Rightarrow> daily_service list \<Rightarrow> daily_service list \<Rightarrow> string + daily_service list" where
  "updated_services cp cat [] = Inr []"
| "updated_services cp cat (svc # svcs) = (case find_key dv_code (dv_code svc) cat of
       None \<Rightarrow> Inl (''updated service unavailable: '' @ dv_code svc)
     | Some u \<Rightarrow>
         if dv_disabled u \<and> dv_code svc \<in> set (cp_running cp) then Inl (''updated service unavailable: '' @ dv_code svc)
         else if dv_cwd u \<noteq> dv_cwd svc \<or> dv_compose u \<noteq> dv_compose svc \<or> dv_runtime u \<noteq> dv_runtime svc
         then Inl (''service deployment location changed: '' @ dv_code svc)
         else (case updated_services cp cat svcs of Inl e \<Rightarrow> Inl e | Inr us \<Rightarrow> Inr (u # us)))"

definition restart_required :: string where
  "restart_required = ''Backend and viewer updated. The recovery supervisor remains at its running version until the installed OS service is restarted.''"

definition finish_update :: "job \<Rightarrow> daily_service list \<Rightarrow> unit daily" where
  "finish_update cp svcs = andThen (push_event (cp_path cp) EvUpdated (cp_before cp @ '' -> '' @ cp_after cp))
     (andThen (if ''excubitor'' \<in> set (codes svcs) then push_event (cp_path cp) EvRestartRequired restart_required else ret ())
       drop_checkpoint)"

definition build_and_start :: "job \<Rightarrow> daily_service list \<Rightarrow> unit daily" where
  "build_and_start cp svcs =
     andThen (put_phase PhBuilding)
     (andThen (if svcs \<noteq> [] then demand (DqBuild (cp_path cp) (codes svcs)) is_done else ret ())
     (andThen (demand (DqExpect (cp_path cp) (cp_branch cp) [cp_after cp]) is_done)
     (andThen (put_phase PhStarting)
     (andThen (start_services (live_services cp svcs)) (finish_update cp svcs)))))"

definition apply_update :: "job \<Rightarrow> unit daily" where
  "apply_update cp =
     andThen (put_phase PhStopping)
     (andThen (stop_services (live_services cp (cp_services cp)))
     (andThen (demand (DqExpect (cp_path cp) (cp_branch cp) [cp_before cp]) is_done)
     (andThen (put_phase PhUpdating)
     (andThen (demand (DqMerge (cp_path cp) (cp_after cp)) is_done)
     (andThen (put_head (cp_after cp))
     (andThen (submodules (cp_path cp))
     (bind (demand DqCatalog services_of) (\<lambda>cat.
        case updated_services cp cat (cp_services cp) of
          Inl e \<Rightarrow> throw e
        | Inr svcs \<Rightarrow> build_and_start cp svcs))))))))"

fun running_codes :: "daily_service list \<Rightarrow> code list daily" where
  "running_codes [] = ret []"
| "running_codes (svc # svcs) = bind (demand (DqRunning (dv_code svc)) (\<lambda>a. case a of DaBool b \<Rightarrow> Some b | _ \<Rightarrow> None)) (\<lambda>b.
     bind (running_codes svcs) (\<lambda>cs. ret (if b then dv_code svc # cs else cs)))"

definition prepared :: "daily_answer \<Rightarrow> (string \<times> string \<times> string) option" where
  "prepared a = (case a of DaPrepared br bf af \<Rightarrow> Some (br, bf, af) | _ \<Rightarrow> None)"

definition begin_job :: "job \<Rightarrow> unit daily" where
  "begin_job cp = andThen (on_run (\<lambda>r. r\<lparr>dr_checkpoint := Some cp\<rparr>))
     (andThen (modify (\<lambda>s. s\<lparr>dy_job := Some cp, dy_stopped := [], dy_head := None\<rparr>)) save)"

definition update_failed :: "job \<Rightarrow> string \<Rightarrow> unit daily" where
  "update_failed cp e = andThen (push_event (cp_path cp) EvUpdateFailed e) (andThen save rollback)"

definition update_repository :: "repository \<Rightarrow> unit daily" where
  "update_repository repo =
     andThen (modify (\<lambda>s. s\<lparr>dy_job := None\<rparr>))
     (bind (demand (DqPrepare (rp_path repo)) prepared) (\<lambda>(br, bf, af).
       if bf = af then andThen (push_event (rp_path repo) EvUnchanged ''Already current'') save
       else bind (running_codes (rp_services repo)) (\<lambda>running.
         let cp = \<lparr>cp_path = rp_path repo, cp_branch = br, cp_before = bf, cp_after = af, cp_services = rp_services repo,
                   cp_running = running, cp_phase = PhPrepared\<rparr>
         in andThen (begin_job cp) (try_catch (apply_update cp) (update_failed cp)))))"

section \<open>The scheduler\<close>

definition finish_run :: "unit daily" where
  "finish_run = look (\<lambda>w _. andThen (on_run (\<lambda>r. r\<lparr>
     dr_status := (if list_ex (\<lambda>e. de_status e \<notin> {EvUpdated, EvUnchanged}) (dr_events r) then DailyFailed else DailySucceeded),
     dr_ended := Some (dw_now w)\<rparr>)) save)"

text \<open>\<open>notifyDailyFailure\<close>: the answer is whether the message was delivered, if there is where to send it; it throws when
  the error task cannot be written.\<close>

definition notification_text :: "daily_answer \<Rightarrow> string" where
  "notification_text a = (case a of
       DaNotified (Some True) \<Rightarrow> ''Discord delivered''
     | DaNotified (Some False) \<Rightarrow> ''Error recorded in Errors; Discord delivery failed''
     | _ \<Rightarrow> ''Error recorded in Errors; Discord notifications are not configured/enabled'')"

definition notify_failure :: "string \<Rightarrow> unit daily" where
  "notify_failure detail = bind (await (DqNotify detail)) (\<lambda>a. case a of
       DaThrows e \<Rightarrow> db_failed e
     | _ \<Rightarrow> andThen (on_run (\<lambda>r. r\<lparr>dr_notification := Some (notification_text a)\<rparr>)) save)"

definition disable :: "unit daily" where
  "disable = look (\<lambda>w _. case dw_settings_error w of None \<Rightarrow> modify (\<lambda>s. s\<lparr>dy_enabled := False\<rparr>) | Some e \<Rightarrow> db_failed e)"

definition fail_recovery :: "string \<Rightarrow> unit daily" where
  "fail_recovery detail = look (\<lambda>w s.
     andThen disable
     (andThen (push_event (case dr_checkpoint (dy_run s) of Some c \<Rightarrow> cp_path c | None \<Rightarrow> []) EvRecoveryFailed detail)
     (andThen (on_run (\<lambda>r. r\<lparr>dr_status := DailyFailed, dr_ended := Some (dw_now w)\<rparr>))
     (andThen save (notify_failure detail)))))"

definition recover_run :: "unit daily" where
  "recover_run = try_catch
     (andThen (demand DqDrain is_done)
     (andThen rollback
     (andThen (push_event [] EvInterrupted ''Interrupted daily run recovered; remaining repositories not updated'') finish_run)))
     fail_recovery"

text \<open>The loop over the repositories; the result says that the run has failed for good.\<close>

fun update_all :: "repository list \<Rightarrow> bool daily" where
  "update_all [] = ret False"
| "update_all (repo # repos) = look (\<lambda>w _.
     if dw_closing w then ret False
     else attempt (update_repository repo) (\<lambda>r. case r of
       Inr _ \<Rightarrow> update_all repos
     | Inl e \<Rightarrow> look (\<lambda>_ s.
         if dr_checkpoint (dy_run s) \<noteq> None then andThen (fail_recovery e) (ret True)
         else andThen (push_event (rp_path repo) EvSkipped e) (andThen save (update_all repos)))))"

definition repositories_of :: "daily_answer \<Rightarrow> repository list option" where
  "repositories_of a = (case a of DaRepositories rs \<Rightarrow> Some rs | _ \<Rightarrow> None)"

definition run_body :: "unit daily" where
  "run_body =
     andThen (demand DqDrain is_done)
     (bind (demand DqCatalog services_of) (\<lambda>_. bind (demand DqRepositories repositories_of) (\<lambda>repos.
       bind (update_all repos) (\<lambda>over.
         if over then ret ()
         else look (\<lambda>w _.
           andThen (if dw_closing w then push_event [] EvInterrupted ''Supervisor is stopping; remaining repositories not updated'' else ret ())
             finish_run)))))"

definition run_failed :: "string \<Rightarrow> unit daily" where
  "run_failed e = andThen (push_event [] EvFailed e)
     (look (\<lambda>_ s. if dr_checkpoint (dy_run s) \<noteq> None then recover_run else finish_run))"

text \<open>
  \<open>dw_due\<close> is the day that is due, \<open>dw_begin\<close> the identifier if \<open>beginDailyRun\<close> grants a run.
\<close>

definition active_row :: "daily_state \<Rightarrow> run option" where
  "active_row s = (case dy_row s of None \<Rightarrow> None | Some r \<Rightarrow> if dr_status r = DailyRunning then Some r else None)"

definition tick :: "unit daily" where
  "tick = look (\<lambda>w s. case dw_read_error w of
       Some e \<Rightarrow> db_failed e
     | None \<Rightarrow> (case active_row s of
         Some r \<Rightarrow> andThen (modify (\<lambda>s. s\<lparr>dy_run := r\<rparr>)) recover_run
       | None \<Rightarrow> (case dw_due w of
           None \<Rightarrow> ret ()
         | Some day \<Rightarrow> (case dw_begin w of
             None \<Rightarrow> ret ()
           | Some i \<Rightarrow> (let run = new_daily_run i day (dw_now w) in
               andThen (modify (\<lambda>s. s\<lparr>dy_run := run, dy_row := Some run\<rparr>)) (try_catch run_body run_failed))))))"

end
