(* ===== verification/Daily_Safety.thy ===== *)
theory Daily_Safety imports Daily_Update begin

text \<open>
  The daily update keeps its promises at every point of a run, whatever git, the builds and the services
  answer: it touches a repository only under a checkpoint that is in the database, with the services that
  were running stopped, and starts only those; when it is over the repository is updated or back; and
  the run is closed.
\<close>

section \<open>The journal\<close>

definition same_job :: "job \<Rightarrow> job \<Rightarrow> bool" where
  "same_job c cp \<longleftrightarrow> c\<lparr>cp_phase := PhPrepared\<rparr> = cp\<lparr>cp_phase := PhPrepared\<rparr>"

text \<open>
  The run has the checkpoint of the job and is marked as running. Once the database has failed in a tick, the mark
  may say failed: \<open>failRecovery\<close> sets it in memory before it saves the run.
\<close>

definition row_job :: "job \<Rightarrow> daily_state \<Rightarrow> run \<Rightarrow> bool" where
  "row_job cp s r \<longleftrightarrow> (dr_status r = DailyRunning \<or> dy_db_failed s) \<and> (\<exists>c. dr_checkpoint r = Some c \<and> same_job c cp)"

definition journal :: "job \<Rightarrow> daily_state \<Rightarrow> bool" where
  "journal cp s \<longleftrightarrow> (\<exists>r. dy_row s = Some r \<and> row_job cp s r)"

definition halted :: "job \<Rightarrow> daily_state \<Rightarrow> bool" where
  "halted cp s \<longleftrightarrow> set (codes (live_services cp (cp_services cp))) \<subseteq> set (dy_stopped s)"

text \<open>What has to hold where a query that changes something is issued.\<close>

definition daily_allowed :: "daily_query \<Rightarrow> daily_state \<Rightarrow> bool" where
  "daily_allowed q s = (case q of
       DqStop cs \<Rightarrow> \<exists>cp. journal cp s \<and> set cs \<subseteq> set (cp_running cp)
     | DqStart c \<Rightarrow> \<exists>cp. journal cp s \<and> c \<in> set (cp_running cp)
     | DqMerge p h \<Rightarrow> \<exists>cp. journal cp s \<and> halted cp s \<and> p = cp_path cp \<and> h = cp_after cp
     | DqReset p h \<Rightarrow> \<exists>cp. journal cp s \<and> halted cp s \<and> p = cp_path cp \<and> h = cp_before cp
     | DqSubmodules p a \<Rightarrow> \<exists>cp. journal cp s \<and> halted cp s \<and> p = cp_path cp
     | DqBuild p cs \<Rightarrow> \<exists>cp. journal cp s \<and> halted cp s \<and> p = cp_path cp
     | _ \<Rightarrow> True)"

interpretation daily: async_safety "\<lambda>_. True" "\<lambda>s s'. s' = s" "\<lambda>_ _. True" "\<lambda>_ _ _. True" daily_allowed
  by unfold_locales simp_all

lemma daily_stable [simp]: "daily.stable L"
  by (simp add: daily.stable_def)

lemma same_job_refl [simp]: "same_job cp cp"
  by (simp add: same_job_def)

lemma same_job_phase [simp]: "same_job (c\<lparr>cp_phase := ph\<rparr>) cp = same_job c cp"
  by (simp add: same_job_def)

lemma same_jobD:
  assumes "same_job c cp"
  shows "cp_path c = cp_path cp" "cp_branch c = cp_branch cp" "cp_before c = cp_before cp" "cp_after c = cp_after cp"
    "cp_services c = cp_services cp" "cp_running c = cp_running cp"
  using assms by (auto simp: same_job_def dest: arg_cong [where f = cp_path] arg_cong [where f = cp_branch]
      arg_cong [where f = cp_before] arg_cong [where f = cp_after] arg_cong [where f = cp_services] arg_cong [where f = cp_running])

lemma live_services_same: "same_job c cp \<Longrightarrow> live_services c svcs = live_services cp svcs"
  by (simp add: live_services_def same_jobD)

lemma codes_live: "set (codes (live_services cp svcs)) \<subseteq> set (cp_running cp)"
  by (auto simp: codes_def live_services_def)

text \<open>Inside a transaction: the run in memory and the row agree on the job; \<open>j\<close> is what the history says.\<close>

definition in_job :: "job \<Rightarrow> job option \<times> string option \<Rightarrow> daily_state \<Rightarrow> bool" where
  "in_job cp j s \<longleftrightarrow> row_job cp s (dy_run s) \<and> journal cp s \<and> (dy_job s, dy_head s) = j"

definition in_job_halted :: "job \<Rightarrow> job option \<times> string option \<Rightarrow> daily_state \<Rightarrow> bool" where
  "in_job_halted cp j s \<longleftrightarrow> in_job cp j s \<and> halted cp s"

section \<open>Rules\<close>

lemma demand_keeps:
  assumes "\<And>s. P s \<Longrightarrow> daily_allowed q s"
  shows "daily.triple P (demand q f) (on_result (\<lambda>_. P) P)"
  unfolding demand_def
proof (rule daily.triple_bind [where Q = "\<lambda>_. P"])
  show "daily.triple P (await q) (\<lambda>_. P)" by (rule daily.triple_await [where L = P]) (simp_all add: assms)
  show "daily.triple P (case f a of Some x \<Rightarrow> ret x | None \<Rightarrow> throw (case a of DaThrows e \<Rightarrow> e | _ \<Rightarrow> [])) (on_result (\<lambda>_. P) P)" for a
    by (cases "f a") (auto intro: daily.triple_throw daily.triple_ret)
qed simp

lemma on_run_rule: "(\<And>s. P s \<Longrightarrow> Q () (s\<lparr>dy_run := f (dy_run s)\<rparr>)) \<Longrightarrow> daily.triple P (on_run f) (on_result Q E)"
  unfolding on_run_def by (rule daily.seq_modify) simp

lemma db_failed_rule: "(\<And>s. P s \<Longrightarrow> E (s\<lparr>dy_db_failed := True\<rparr>)) \<Longrightarrow> daily.triple P (db_failed e) (on_result Q E)"
  unfolding db_failed_def
  by (rule daily.seq_andThen [OF daily.seq_modify [where Q = "\<lambda>_. E"]]) (auto intro: daily.seq_throw)

lemma save_rule:
  assumes "\<And>s. P s \<Longrightarrow> Q () (s\<lparr>dy_row := Some (dy_run s)\<rparr>)" "\<And>s. P s \<Longrightarrow> E (s\<lparr>dy_db_failed := True\<rparr>)"
  shows "daily.triple P save (on_result Q E)"
  unfolding save_def
proof (rule daily.seq_look)
  fix w :: daily_world and s
  show "daily.triple (\<lambda>t. P t \<and> t = s) (case dw_save_error w (dy_run s) of
       None \<Rightarrow> modify (\<lambda>s. s\<lparr>dy_row := Some (dy_run s)\<rparr>) | Some e \<Rightarrow> db_failed e) (on_result Q E)"
    by (cases "dw_save_error w (dy_run s)") (auto intro!: daily.seq_modify db_failed_rule assms)
qed

lemma modify_rule: "(\<And>s. P s \<Longrightarrow> Q () (f s)) \<Longrightarrow> daily.triple P (modify f) (on_result Q E)"
  by (rule daily.seq_modify) simp

lemma ret_rule: "(\<And>s. P s \<Longrightarrow> Q x s) \<Longrightarrow> daily.triple P (ret x) (on_result Q E)"
  by (rule daily.seq_ret) simp

lemma weaken: "daily.triple P' m Q \<Longrightarrow> (\<And>s. P s \<Longrightarrow> P' s) \<Longrightarrow> daily.triple P m Q"
  by (rule daily.triple_pre)

lemma row_job_events [simp]: "row_job cp s (r\<lparr>dr_events := es\<rparr>) = row_job cp s r"
  by (simp add: row_job_def)

lemma row_job_phase: "row_job cp s r \<Longrightarrow> row_job cp s (r\<lparr>dr_checkpoint := map_option (\<lambda>c. c\<lparr>cp_phase := ph\<rparr>) (dr_checkpoint r)\<rparr>)"
  by (auto simp: row_job_def)

lemma row_job_state [simp]:
  "row_job cp (s\<lparr>dy_run := x1\<rparr>) r = row_job cp s r" "row_job cp (s\<lparr>dy_row := x2\<rparr>) r = row_job cp s r"
  "row_job cp (s\<lparr>dy_stopped := x3\<rparr>) r = row_job cp s r" "row_job cp (s\<lparr>dy_head := x4\<rparr>) r = row_job cp s r"
  "row_job cp (s\<lparr>dy_job := x5\<rparr>) r = row_job cp s r"
  by (simp_all add: row_job_def)

lemma row_job_failed: "row_job cp s r \<Longrightarrow> row_job cp (s\<lparr>dy_db_failed := True\<rparr>) r"
  by (simp add: row_job_def)

lemma in_job_failed: "in_job cp j s \<Longrightarrow> in_job cp j (s\<lparr>dy_db_failed := True\<rparr>)"
  by (auto simp: in_job_def journal_def row_job_failed)

lemma in_job_phase: "daily.triple (in_job cp j) (put_phase ph) (on_result (\<lambda>_. in_job cp j) (in_job cp j))"
  unfolding put_phase_def
  by (rule daily.seq_andThen [OF on_run_rule [where Q = "\<lambda>_. in_job cp j"] save_rule])
    (auto simp: in_job_def journal_def row_job_phase row_job_failed)

lemma halted_phase: "daily.triple (in_job_halted cp j) (put_phase ph) (on_result (\<lambda>_. in_job_halted cp j) (in_job_halted cp j))"
  unfolding put_phase_def
  by (rule daily.seq_andThen [OF on_run_rule [where Q = "\<lambda>_. in_job_halted cp j"] save_rule])
    (auto simp: in_job_halted_def in_job_def journal_def row_job_phase row_job_failed halted_def)

lemma in_job_event: "daily.triple (in_job cp j) (push_event p st d) (on_result (\<lambda>_. in_job cp j) E)"
  unfolding push_event_def by (rule on_run_rule) (simp add: in_job_def journal_def)

lemma in_job_save: "daily.triple (in_job cp j) save (on_result (\<lambda>_. in_job cp j) (in_job cp j))"
  by (rule save_rule) (auto simp: in_job_def journal_def row_job_failed)

lemma job_allowed:
  "in_job cp j s \<Longrightarrow> set cs \<subseteq> set (cp_running cp) \<Longrightarrow> daily_allowed (DqStop cs) s"
  "in_job cp j s \<Longrightarrow> c \<in> set (cp_running cp) \<Longrightarrow> daily_allowed (DqStart c) s"
  "daily_allowed (DqExpect p b hs) s" "daily_allowed DqCatalog s" "daily_allowed (DqHealthy cs) s"
  "daily_allowed DqDrain s" "daily_allowed DqRepositories s" "daily_allowed (DqNotify d) s" "daily_allowed (DqPrepare p) s"
  "daily_allowed (DqRunning c) s"
  by (auto simp: daily_allowed_def in_job_def)

lemma halted_allowed:
  "in_job_halted cp j s \<Longrightarrow> h = cp_after cp \<Longrightarrow> daily_allowed (DqMerge (cp_path cp) h) s"
  "in_job_halted cp j s \<Longrightarrow> h = cp_before cp \<Longrightarrow> daily_allowed (DqReset (cp_path cp) h) s"
  "in_job_halted cp j s \<Longrightarrow> daily_allowed (DqSubmodules (cp_path cp) a) s"
  "in_job_halted cp j s \<Longrightarrow> daily_allowed (DqBuild (cp_path cp) cs) s"
  by (auto simp: daily_allowed_def in_job_halted_def in_job_def)

lemma stops_all:
  assumes "stops cs a = Some (stopped, None)"
  shows "set cs \<subseteq> set stopped"
proof (cases a)
  case (DaStops errs)
  with assms have len: "length errs = length cs" and stopped: "stopped = map fst (filter (\<lambda>(c, e). e = None) (zip cs errs))"
    and none: "(case List.find (\<lambda>e. e \<noteq> None) errs of Some e \<Rightarrow> e | None \<Rightarrow> None) = None"
    by (auto simp: stops_def split: if_splits)
  have "\<forall>e \<in> set errs. e = None"
  proof (cases "List.find (\<lambda>e. e \<noteq> None) errs")
    case None
    then show ?thesis by (simp add: find_None_iff)
  next
    case (Some e)
    then have "e \<noteq> None" unfolding find_Some_iff by blast
    then show ?thesis using none Some by simp
  qed
  then have "filter (\<lambda>(c, e). e = None) (zip cs errs) = zip cs errs" by (auto intro!: filter_True dest: set_zip_rightD)
  then show ?thesis using len stopped by simp
qed (use assms in \<open>simp_all add: stops_def\<close>)

section \<open>The transaction\<close>

lemma demand_stops:
  assumes "\<And>s. P s \<Longrightarrow> daily_allowed (DqStop cs) s"
  shows "daily.triple P (demand (DqStop cs) (stops cs)) (on_result (\<lambda>(stopped, err) s. P s \<and> (err = None \<longrightarrow> set cs \<subseteq> set stopped)) P)"
  unfolding demand_def
proof (rule daily.triple_bind [where Q = "\<lambda>_. P"])
  show "daily.triple P (await (DqStop cs)) (\<lambda>_. P)" by (rule daily.triple_await [where L = P]) (simp_all add: assms)
  show "daily.triple P (case stops cs a of Some x \<Rightarrow> ret x | None \<Rightarrow> throw (case a of DaThrows e \<Rightarrow> e | _ \<Rightarrow> []))
      (on_result (\<lambda>(stopped, err) s. P s \<and> (err = None \<longrightarrow> set cs \<subseteq> set stopped)) P)" for a
    by (cases "stops cs a") (auto intro!: daily.triple_throw daily.triple_ret dest: subsetD [OF stops_all])
qed simp

lemma stop_services_rule:
  assumes "set (codes svcs) \<subseteq> set (cp_running cp)"
  shows "daily.triple (in_job cp j) (stop_services svcs)
      (on_result (\<lambda>_ s. in_job cp j s \<and> set (codes svcs) \<subseteq> set (dy_stopped s)) (in_job cp j))"
proof -
  have rest: "daily.triple (\<lambda>s. in_job cp j s \<and> (err = None \<longrightarrow> set (codes svcs) \<subseteq> set stopped))
      (andThen (modify (\<lambda>s. s\<lparr>dy_stopped := dy_stopped s @ stopped\<rparr>)) (case err of None \<Rightarrow> ret () | Some e \<Rightarrow> throw e))
      (on_result (\<lambda>_ s. in_job cp j s \<and> set (codes svcs) \<subseteq> set (dy_stopped s)) (in_job cp j))" for err :: "string option" and stopped
  proof (rule daily.seq_andThen)
    show "daily.triple (\<lambda>s. in_job cp j s \<and> (err = None \<longrightarrow> set (codes svcs) \<subseteq> set stopped))
        (modify (\<lambda>s. s\<lparr>dy_stopped := dy_stopped s @ stopped\<rparr>))
        (on_result (\<lambda>_ s. in_job cp j s \<and> (err = None \<longrightarrow> set (codes svcs) \<subseteq> set (dy_stopped s))) (in_job cp j))"
      by (rule modify_rule) (auto simp: in_job_def journal_def)
    show "daily.triple (\<lambda>s. in_job cp j s \<and> (err = None \<longrightarrow> set (codes svcs) \<subseteq> set (dy_stopped s)))
        (case err of None \<Rightarrow> ret () | Some e \<Rightarrow> throw e)
        (on_result (\<lambda>_ s. in_job cp j s \<and> set (codes svcs) \<subseteq> set (dy_stopped s)) (in_job cp j))"
      by (cases err) (auto intro!: ret_rule daily.seq_throw)
  qed
  show ?thesis unfolding stop_services_def
    by (rule daily.seq_bind [OF demand_stops], rule job_allowed, assumption, rule assms,
        simp only: split_paired_all prod.case, rule rest)
qed

lemma stop_live:
  "daily.triple (in_job cp j) (stop_services (live_services cp (cp_services cp))) (on_result (\<lambda>_. in_job_halted cp j) (in_job cp j))"
  by (rule daily.seq_post [OF stop_services_rule [OF codes_live]]) (auto simp: in_job_halted_def halted_def)

lemma start_each_rule:
  assumes "set (codes svcs) \<subseteq> set (cp_running cp)"
  shows "daily.triple (in_job cp j) (start_each svcs) (on_result (\<lambda>_. in_job cp j) (in_job cp j))"
  using assms
proof (induction svcs)
  case (Cons svc svcs)
  show ?case unfolding start_each.simps
  proof (rule daily.seq_andThen [OF modify_rule daily.seq_andThen [OF demand_keeps]])
    show "daily.triple (in_job cp j) (start_each svcs) (on_result (\<lambda>_. in_job cp j) (in_job cp j))"
      using Cons by (simp add: codes_def)
    show "\<And>s. in_job cp j s \<Longrightarrow> daily_allowed (DqStart (dv_code svc)) s"
      using Cons.prems by (auto intro: job_allowed simp: codes_def)
  qed (simp add: in_job_def journal_def)
qed (simp add: ret_rule)

lemma start_services_rule:
  assumes "set (codes svcs) \<subseteq> set (cp_running cp)"
  shows "daily.triple (in_job cp j) (start_services svcs) (on_result (\<lambda>_. in_job cp j) (in_job cp j))"
  unfolding start_services_def
  by (rule daily.seq_andThen [OF start_each_rule [OF assms]], intro daily.triple_if ret_rule demand_keeps job_allowed)

lemma halted_job: "daily.triple P m (on_result (\<lambda>_. in_job_halted cp j) (in_job_halted cp j))
    \<Longrightarrow> daily.triple P m (on_result (\<lambda>_. in_job_halted cp j) (in_job cp j))"
  by (erule daily.seq_post) (auto simp: in_job_halted_def)

lemma submodules_rule: "daily.triple (in_job_halted cp j) (submodules (cp_path cp)) (on_result (\<lambda>_. in_job_halted cp j) (in_job cp j))"
  unfolding submodules_def by (intro halted_job daily.seq_andThen [OF demand_keeps] demand_keeps halted_allowed)

text \<open>The result of a job: the checkpoint is gone, and what the last event says is what happened.\<close>

definition last_status :: "daily_state \<Rightarrow> daily_event_status" where
  "last_status s = de_status (last (dr_events (dy_run s)))"

definition marked_running :: "daily_state \<Rightarrow> bool" where
  "marked_running s \<longleftrightarrow> dr_status (dy_run s) = DailyRunning \<or> dy_db_failed s"

definition job_over :: "job option \<Rightarrow> daily_state \<Rightarrow> bool" where
  "job_over j s \<longleftrightarrow> dr_checkpoint (dy_run s) = None \<and> marked_running s \<and> dy_row s = Some (dy_run s)
     \<and> dy_job s = j \<and> dr_events (dy_run s) \<noteq> []"

definition in_some_job :: "job \<Rightarrow> job option \<Rightarrow> daily_state \<Rightarrow> bool" where
  "in_some_job cp jb s \<longleftrightarrow> (\<exists>h. in_job cp (jb, h) s)"

text \<open>The repository is at \<open>h\<close>, but the run without its checkpoint could not be saved.\<close>

definition lost_end :: "job \<Rightarrow> job option \<Rightarrow> string option \<Rightarrow> daily_state \<Rightarrow> bool" where
  "lost_end cp jb h s \<longleftrightarrow> journal cp s \<and> dr_checkpoint (dy_run s) = None \<and> dy_db_failed s \<and> dy_job s = jb \<and> dy_head s = h"

definition unfinished :: "job \<Rightarrow> job option \<Rightarrow> string option \<Rightarrow> daily_state \<Rightarrow> bool" where
  "unfinished cp jb h s \<longleftrightarrow> in_some_job cp jb s \<or> lost_end cp jb h s"

lemma some_job: "daily.triple P m (on_result Q (in_job cp (jb, h))) \<Longrightarrow> daily.triple P m (on_result Q (unfinished cp jb h'))"
  by (erule daily.seq_post) (auto simp: in_some_job_def unfinished_def)

lemma halted_some: "daily.triple P m (on_result Q (in_job_halted cp (jb, h))) \<Longrightarrow> daily.triple P m (on_result Q (unfinished cp jb h'))"
  by (erule daily.seq_post) (auto simp: in_some_job_def in_job_halted_def unfinished_def)

lemma put_head_rule: "daily.triple (in_job_halted cp (jb, h0)) (put_head h) (on_result (\<lambda>_. in_job_halted cp (jb, Some h)) E)"
  unfolding put_head_def by (rule modify_rule) (simp add: in_job_halted_def in_job_def journal_def halted_def)

lemma halted_weak: "daily.triple (in_job cp j) m Q \<Longrightarrow> daily.triple (in_job_halted cp j) m Q"
  by (erule weaken) (simp add: in_job_halted_def)

lemma drop_rule:
  "daily.triple (\<lambda>s. in_job cp (jb, h) s \<and> last_status s \<in> St \<and> dr_events (dy_run s) \<noteq> []) drop_checkpoint
     (on_result (\<lambda>_ s. job_over jb s \<and> last_status s \<in> St \<and> dy_head s = h) (unfinished cp jb h))"
  unfolding drop_checkpoint_def
  by (rule daily.seq_andThen [OF on_run_rule [where Q = "\<lambda>_ s. dr_checkpoint (dy_run s) = None \<and> marked_running s \<and> journal cp s
        \<and> dy_job s = jb \<and> dy_head s = h \<and> dr_events (dy_run s) \<noteq> [] \<and> last_status s \<in> St"] save_rule])
    (auto simp: in_job_def row_job_def job_over_def last_status_def marked_running_def unfinished_def lost_end_def journal_def)

lemma last_event_rule:
  "daily.triple (in_job cp (jb, h)) (push_event p st d) (on_result (\<lambda>_ s. in_job cp (jb, h) s \<and> last_status s \<in> {st} \<and> dr_events (dy_run s) \<noteq> []) E)"
  unfolding push_event_def by (rule on_run_rule) (simp add: in_job_def journal_def last_status_def)

definition rolled_back :: "job \<Rightarrow> job option \<Rightarrow> daily_state \<Rightarrow> bool" where
  "rolled_back cp jb s \<longleftrightarrow> job_over jb s \<and> last_status s = EvRolledBack \<and> dy_head s = Some (cp_before cp)"

definition done_update :: "job \<Rightarrow> job option \<Rightarrow> daily_state \<Rightarrow> bool" where
  "done_update cp jb s \<longleftrightarrow> job_over jb s \<and> last_status s \<in> {EvUpdated, EvRestartRequired} \<and> dy_head s = Some (cp_after cp)"

lemma rollback_rest:
  assumes "live = live_services cp (cp_services cp)"
  shows "daily.triple (in_job cp (jb, h))
    (andThen (stop_services live)
         (andThen (demand (DqExpect p b hs) is_done)
         (andThen (demand (DqReset (cp_path cp) (cp_before cp)) is_done)
         (andThen (put_head (cp_before cp))
         (andThen (submodules (cp_path cp))
         (bind (demand DqCatalog services_of) (\<lambda>_.
         (andThen (if ss \<noteq> [] then demand (DqBuild (cp_path cp) cs) is_done else ret ())
         (andThen (try_catch (start_services live) (\<lambda>e. andThen (stop_services live) (throw e)))
         (andThen (push_event q EvRolledBack d) drop_checkpoint))))))))))
    (on_result (\<lambda>_. rolled_back cp jb) (unfinished cp jb (Some (cp_before cp))))"
proof -
  let ?j = "(jb, Some (cp_before cp))"
  have start: "daily.triple (in_job_halted cp ?j) (try_catch (start_services live) (\<lambda>e. andThen (stop_services live) (throw e)))
      (on_result (\<lambda>_. in_job cp ?j) (in_job cp ?j))"
  proof (rule halted_weak, rule daily.seq_try)
    show "daily.triple (in_job cp ?j) (start_services live) (on_result (\<lambda>_. in_job cp ?j) (in_job cp ?j))"
      unfolding assms by (rule start_services_rule [OF codes_live])
    show "daily.triple (in_job cp ?j) (andThen (stop_services live) (throw e)) (on_result (\<lambda>_. in_job cp ?j) (in_job cp ?j))" for e
      unfolding assms by (rule daily.seq_andThen [OF stop_live]) (rule daily.seq_throw, simp add: in_job_halted_def)
  qed
  have build: "daily.triple (in_job_halted cp ?j) (if ss \<noteq> [] then demand (DqBuild (cp_path cp) cs) is_done else ret ())
      (on_result (\<lambda>_. in_job_halted cp ?j) (in_job_halted cp ?j))"
    by (intro daily.triple_if demand_keeps halted_allowed ret_rule)
  have last: "daily.triple (in_job cp ?j) (andThen (push_event q EvRolledBack d) drop_checkpoint)
      (on_result (\<lambda>_. rolled_back cp jb) (unfinished cp jb (Some (cp_before cp))))"
    by (rule daily.seq_post [OF daily.seq_andThen [OF last_event_rule drop_rule]])
      (simp_all add: rolled_back_def)
  show ?thesis
    by (rule daily.seq_andThen [OF some_job [OF stop_live [of cp, folded assms]]],
        rule daily.seq_andThen [OF halted_some [OF demand_keeps]], rule job_allowed,
        rule daily.seq_andThen [OF halted_some [OF demand_keeps]], erule halted_allowed, rule refl,
        rule daily.seq_andThen [OF put_head_rule], rule daily.seq_andThen [OF some_job [OF submodules_rule]],
        rule daily.seq_bind [OF halted_some [OF demand_keeps]], rule job_allowed,
        rule daily.seq_andThen [OF halted_some [OF build]], rule daily.seq_andThen [OF some_job [OF start]], rule last)
qed

lemma row_job_same: "row_job cp s r \<Longrightarrow> same_job c cp \<Longrightarrow> row_job c s r"
  by (auto simp: row_job_def same_job_def)

lemma in_job_same: "in_job cp j s \<Longrightarrow> same_job c cp \<Longrightarrow> in_job c j s"
  by (auto simp: in_job_def journal_def row_job_same)

lemma rollback_look:
  assumes "\<And>c. same_job c cp \<Longrightarrow> daily.triple P (rollback_steps c) Q" and "\<And>s. P s \<Longrightarrow> row_job cp s (dy_run s)"
  shows "daily.triple P rollback Q"
  unfolding rollback_def
proof (rule daily.seq_look)
  fix w :: daily_world and s :: daily_state
  show "daily.triple (\<lambda>t. P t \<and> t = s) (case dr_checkpoint (dy_run s) of None \<Rightarrow> ret () | Some cp \<Rightarrow> rollback_steps cp) Q"
  proof (cases "P s")
    case False
    then show ?thesis by (auto simp: daily.triple_def)
  next
    case True
    then obtain c where c: "dr_checkpoint (dy_run s) = Some c" "same_job c cp" using assms(2) by (auto simp: row_job_def)
    show ?thesis unfolding c(1) option.case by (rule weaken [OF assms(1) [OF c(2)]]) simp
  qed
qed

text \<open>The roll-back of a run in memory: once its phase is saved, the database has the checkpoint.\<close>

definition remembered :: "job \<Rightarrow> daily_state \<Rightarrow> bool" where
  "remembered cp s \<longleftrightarrow> row_job cp s (dy_run s)"

lemma remembered_phase:
  "daily.triple (\<lambda>s. remembered cp s \<and> (dy_job s, dy_head s) = j) (put_phase ph) (on_result (\<lambda>_. in_job cp j) (\<lambda>_. True))"
  unfolding put_phase_def
  by (rule daily.seq_andThen [OF on_run_rule [where Q = "\<lambda>_ s. remembered cp s \<and> (dy_job s, dy_head s) = j"] save_rule])
    (auto simp: remembered_def in_job_def journal_def row_job_phase)

lemma rollback_remembered: "daily.triple (\<lambda>s. remembered cp s \<and> (dy_job s, dy_head s) = (jb, h)) rollback (on_result (\<lambda>_ _. True) (\<lambda>_. True))"
proof (rule rollback_look [where cp = cp])
  fix c assume c: "same_job c cp"
  have rest: "daily.triple P m (on_result (\<lambda>_. rolled_back c jb) (unfinished c jb h')) \<Longrightarrow> daily.triple P m (on_result (\<lambda>_ _. True) (\<lambda>_. True))" for P m h'
    by (erule daily.seq_post) simp_all
  show "daily.triple (\<lambda>s. remembered cp s \<and> (dy_job s, dy_head s) = (jb, h)) (rollback_steps c) (on_result (\<lambda>_ _. True) (\<lambda>_. True))"
    unfolding rollback_steps_def Let_def
    by (rule daily.seq_andThen [OF weaken [OF remembered_phase [of c "(jb, h)"]] rest [OF rollback_rest [OF refl]]])
      (use c row_job_same in \<open>auto simp: remembered_def\<close>)
qed (simp add: remembered_def)

lemma rollback_rule:
  "daily.triple (in_job cp (jb, h)) rollback (on_result (\<lambda>_. rolled_back cp jb) (unfinished cp jb (Some (cp_before cp))))"
proof (rule rollback_look [where cp = cp])
  fix c assume c: "same_job c cp"
  have sym: "same_job cp c" using c by (simp add: same_job_def)
  have "rolled_back c jb t = rolled_back cp jb t" "unfinished c jb h' t = unfinished cp jb h' t" for t h'
    using in_job_same [OF _ c] in_job_same [OF _ sym] same_jobD(3) [OF c] row_job_same [OF _ c] row_job_same [OF _ sym]
    unfolding rolled_back_def in_some_job_def unfinished_def lost_end_def journal_def by metis+
  then have eq: "rolled_back cp jb = rolled_back c jb" "unfinished cp jb h' = unfinished c jb h'" for h' by (simp_all add: fun_eq_iff)
  show "daily.triple (in_job cp (jb, h)) (rollback_steps c) (on_result (\<lambda>_. rolled_back cp jb) (unfinished cp jb (Some (cp_before cp))))"
    unfolding rollback_steps_def Let_def eq same_jobD(3) [OF c, symmetric]
    by (rule weaken [OF daily.seq_andThen [OF some_job [OF in_job_phase] rollback_rest [OF refl]]]) (use in_job_same c in blast)
qed (simp add: in_job_def)

section \<open>An update of a repository\<close>

lemma finish_update_rule:
  assumes "h = Some (cp_after cp)"
  shows "daily.triple (in_job cp (jb, h)) (finish_update cp svcs) (on_result (\<lambda>_. done_update cp jb) (unfinished cp jb (Some (cp_after cp))))"
proof -
  let ?last = "\<lambda>s. in_job cp (jb, h) s \<and> last_status s \<in> {EvUpdated, EvRestartRequired} \<and> dr_events (dy_run s) \<noteq> []"
  have event: "daily.triple (in_job cp (jb, h)) (push_event p st d) (on_result (\<lambda>_. ?last) (unfinished cp jb (Some (cp_after cp))))"
    if "st \<in> {EvUpdated, EvRestartRequired}" for p st d
    by (rule daily.seq_post [OF last_event_rule [where E = "unfinished cp jb (Some (cp_after cp))"]]) (use that in auto)
  have again: "daily.triple ?last (if b then push_event p EvRestartRequired d else ret ()) (on_result (\<lambda>_. ?last) (unfinished cp jb (Some (cp_after cp))))" for b p d
    by (intro daily.triple_if ret_rule weaken [OF event]) auto
  have drop: "daily.triple ?last drop_checkpoint (on_result (\<lambda>_. done_update cp jb) (unfinished cp jb (Some (cp_after cp))))"
    by (rule daily.seq_post [OF drop_rule]) (simp_all add: done_update_def assms)
  show ?thesis unfolding finish_update_def
    by (rule daily.seq_andThen [OF event], simp, rule daily.seq_andThen [OF again drop])
qed

lemma updated_codes: "updated_services cp cat svcs = Inr us \<Longrightarrow> codes us = codes svcs"
  by (induction svcs arbitrary: us) (auto simp: codes_def split: option.splits if_splits sum.splits dest: find_key_SomeD)

lemma build_and_start_rule:
  assumes "h = Some (cp_after cp)"
  shows "daily.triple (in_job_halted cp (jb, h)) (build_and_start cp svcs) (on_result (\<lambda>_. done_update cp jb) (unfinished cp jb (Some (cp_after cp))))"
proof -
  have build: "daily.triple (in_job_halted cp (jb, h)) (if svcs \<noteq> [] then demand (DqBuild (cp_path cp) cs) is_done else ret ())
      (on_result (\<lambda>_. in_job_halted cp (jb, h)) (in_job_halted cp (jb, h)))" for cs
    by (intro daily.triple_if demand_keeps halted_allowed ret_rule)
  show ?thesis unfolding build_and_start_def
    by (rule daily.seq_andThen [OF halted_some [OF halted_phase]], rule daily.seq_andThen [OF halted_some [OF build]],
        rule daily.seq_andThen [OF halted_some [OF demand_keeps]], rule job_allowed,
        rule daily.seq_andThen [OF halted_weak [OF some_job [OF in_job_phase]]],
        rule daily.seq_andThen [OF some_job [OF start_services_rule [OF codes_live]]], rule finish_update_rule, rule assms)
qed

lemma apply_update_rule:
  "daily.triple (in_job cp (jb, h)) (apply_update cp) (on_result (\<lambda>_. done_update cp jb) (unfinished cp jb (Some (cp_after cp))))"
proof -
  let ?j = "(jb, Some (cp_after cp))"
  have built: "daily.triple (in_job_halted cp ?j) (case x of Inl e \<Rightarrow> throw e | Inr svcs \<Rightarrow> build_and_start cp svcs)
      (on_result (\<lambda>_. done_update cp jb) (unfinished cp jb (Some (cp_after cp))))" for x
  proof (cases x)
    case (Inl e)
    show ?thesis unfolding Inl sum.case by (rule daily.seq_throw) (auto simp: unfinished_def in_some_job_def in_job_halted_def)
  next
    case (Inr svcs)
    show ?thesis unfolding Inr sum.case by (rule build_and_start_rule) simp
  qed
  show ?thesis unfolding apply_update_def
    by (rule daily.seq_andThen [OF some_job [OF in_job_phase]], rule daily.seq_andThen [OF some_job [OF stop_live]],
        rule daily.seq_andThen [OF halted_some [OF demand_keeps]], rule job_allowed,
        rule daily.seq_andThen [OF halted_some [OF halted_phase]],
        rule daily.seq_andThen [OF halted_some [OF demand_keeps]], erule halted_allowed, rule refl,
        rule daily.seq_andThen [OF put_head_rule], rule daily.seq_andThen [OF some_job [OF submodules_rule]],
        rule daily.seq_bind [OF halted_some [OF demand_keeps]], rule job_allowed, rule built)
qed

lemma triple_some: "(\<And>h. daily.triple (in_job cp (jb, h)) m Q) \<Longrightarrow> daily.triple (in_some_job cp jb) m Q"
  by (auto simp: daily.triple_def in_some_job_def)

text \<open>After a last save that failed, the failure is noted; nothing is rolled back.\<close>

definition late_failure :: "job \<Rightarrow> job option \<Rightarrow> daily_state \<Rightarrow> bool" where
  "late_failure cp jb s \<longleftrightarrow> job_over jb s \<and> last_status s = EvUpdateFailed \<and> dy_head s = Some (cp_after cp) \<and> dy_db_failed s"

definition settled_job :: "job \<Rightarrow> job option \<Rightarrow> daily_state \<Rightarrow> bool" where
  "settled_job cp jb s \<longleftrightarrow> rolled_back cp jb s \<or> late_failure cp jb s"

definition stopped_half_way :: "job \<Rightarrow> job option \<Rightarrow> daily_state \<Rightarrow> bool" where
  "stopped_half_way cp jb s \<longleftrightarrow> in_some_job cp jb s \<or> lost_end cp jb (Some (cp_before cp)) s \<or> lost_end cp jb (Some (cp_after cp)) s"

lemma rollback_none: "daily.triple (\<lambda>s. dr_checkpoint (dy_run s) = None \<and> P s) rollback (on_result (\<lambda>_. P) E)"
  by (auto simp: daily.triple_def rollback_def look_def ret_def daily.good_Return)

lemma late_rollback: "daily.triple (late_failure cp jb) rollback (on_result (\<lambda>_. late_failure cp jb) E)"
  by (rule weaken [OF rollback_none]) (simp add: late_failure_def job_over_def)

lemma update_failed_rule:
  "daily.triple (unfinished cp jb (Some (cp_after cp))) (update_failed cp e) (on_result (\<lambda>_. settled_job cp jb) (stopped_half_way cp jb))"
proof -
  let ?late = "lost_end cp jb (Some (cp_after cp))"
  have job: "daily.triple (in_some_job cp jb) (update_failed cp e) (on_result (\<lambda>_. settled_job cp jb) (stopped_half_way cp jb))"
    unfolding update_failed_def
    by (rule triple_some, rule daily.seq_post [OF daily.seq_andThen [OF in_job_event
        daily.seq_andThen [OF some_job [OF in_job_save] rollback_rule]]])
      (auto simp: settled_job_def stopped_half_way_def unfinished_def)
  have event: "daily.triple ?late (push_event p EvUpdateFailed d)
      (on_result (\<lambda>_ s. ?late s \<and> last_status s = EvUpdateFailed \<and> dr_events (dy_run s) \<noteq> []) E)" for p d E
    unfolding push_event_def by (rule on_run_rule) (simp add: lost_end_def journal_def last_status_def)
  have saved: "daily.triple (\<lambda>s. ?late s \<and> last_status s = EvUpdateFailed \<and> dr_events (dy_run s) \<noteq> []) save
      (on_result (\<lambda>_. late_failure cp jb) ?late)"
    by (rule save_rule) (auto simp: late_failure_def lost_end_def job_over_def marked_running_def last_status_def journal_def row_job_failed)
  have "daily.triple ?late (update_failed cp e) (on_result (\<lambda>_. settled_job cp jb) (stopped_half_way cp jb))"
    unfolding update_failed_def
    by (rule daily.seq_post [OF daily.seq_andThen [OF event daily.seq_andThen [OF saved late_rollback]]])
      (auto simp: settled_job_def stopped_half_way_def)
  with job show ?thesis by (auto simp: daily.triple_def unfinished_def)
qed

text \<open>Between repositories.\<close>

definition between :: "daily_state \<Rightarrow> bool" where
  "between s \<longleftrightarrow> dr_checkpoint (dy_run s) = None \<and> marked_running s"

definition repository_done :: "daily_state \<Rightarrow> bool" where
  "repository_done s \<longleftrightarrow> job_over (dy_job s) s \<and> (case dy_job s of
       None \<Rightarrow> last_status s = EvUnchanged
     | Some cp \<Rightarrow> last_status s \<in> {EvUpdated, EvRestartRequired} \<and> dy_head s = Some (cp_after cp)
         \<or> last_status s = EvRolledBack \<and> dy_head s = Some (cp_before cp)
         \<or> last_status s = EvUpdateFailed \<and> dy_head s = Some (cp_after cp) \<and> dy_db_failed s)"

text \<open>
  Without a job nothing was touched. With one the database has its checkpoint: the run has it too, or the
  repository is already updated or restored and only the last save failed. If not even the first save of the
  checkpoint succeeded, nothing was touched either.
\<close>

definition broken_off :: "daily_state \<Rightarrow> bool" where
  "broken_off s \<longleftrightarrow> (case dy_job s of
       None \<Rightarrow> between s
     | Some cp \<Rightarrow> journal cp s \<and> row_job cp s (dy_run s)
         \<or> journal cp s \<and> between s \<and> dy_db_failed s \<and> (dy_head s = Some (cp_before cp) \<or> dy_head s = Some (cp_after cp))
         \<or> dy_db_failed s \<and> row_job cp s (dy_run s) \<and> dy_head s = None \<and> dy_stopped s = [])"

lemma half_way_broken: "stopped_half_way cp (Some cp) s \<Longrightarrow> broken_off s"
  by (auto simp: stopped_half_way_def in_some_job_def in_job_def lost_end_def broken_off_def between_def marked_running_def)

lemma begin_job_rule: "daily.triple (\<lambda>s. between s \<and> dy_job s = None) (begin_job cp) (on_result (\<lambda>_. in_job cp (Some cp, None)) broken_off)"
  unfolding begin_job_def
  by (rule daily.seq_andThen [OF on_run_rule [where Q = "\<lambda>_ s. row_job cp s (dy_run s)"]
        daily.seq_andThen [OF modify_rule [where Q = "\<lambda>_ s. row_job cp s (dy_run s) \<and> dy_job s = Some cp \<and> dy_head s = None \<and> dy_stopped s = []"]
          save_rule]])
    (auto simp: between_def marked_running_def row_job_def in_job_def journal_def broken_off_def)

lemma running_codes_rule: "daily.triple P (running_codes svcs) (on_result (\<lambda>_. P) P)"
proof (induction svcs)
  case (Cons svc svcs)
  show ?case unfolding running_codes.simps
    by (rule daily.seq_bind [OF demand_keeps], rule job_allowed, rule daily.seq_bind [OF Cons], rule ret_rule)
qed (simp add: ret_rule)

lemma update_repository_rule:
  "daily.triple between (update_repository repo) (on_result (\<lambda>_. repository_done) broken_off)"
proof -
  let ?start = "\<lambda>s. between s \<and> dy_job s = None"
  have plain: "daily.triple P m (on_result Q ?start) \<Longrightarrow> daily.triple P m (on_result Q broken_off)" for P Q and m :: "'r daily"
    by (erule daily.seq_post) (simp_all add: broken_off_def)
  have unchanged: "daily.triple ?start (andThen (push_event p EvUnchanged d) save) (on_result (\<lambda>_. repository_done) broken_off)" for p d
    unfolding push_event_def
    by (rule daily.seq_andThen [OF on_run_rule [where Q = "\<lambda>_ s. ?start s \<and> last_status s = EvUnchanged \<and> dr_events (dy_run s) \<noteq> []"] save_rule])
      (auto simp: between_def marked_running_def last_status_def repository_done_def job_over_def broken_off_def)
  have job: "daily.triple ?start (andThen (begin_job cp) (try_catch (apply_update cp) (update_failed cp)))
      (on_result (\<lambda>_. repository_done) broken_off)" for cp
  proof (rule daily.seq_andThen [OF begin_job_rule])
    have over: "done_update cp (Some cp) s \<Longrightarrow> repository_done s" "settled_job cp (Some cp) s \<Longrightarrow> repository_done s" for s
      by (auto simp: done_update_def settled_job_def late_failure_def rolled_back_def repository_done_def job_over_def)
    have applied: "daily.triple (in_job cp (Some cp, None)) (apply_update cp)
        (on_result (\<lambda>_. repository_done) (unfinished cp (Some cp) (Some (cp_after cp))))"
      by (rule daily.seq_post [OF apply_update_rule over(1)])
    have failed: "daily.triple (unfinished cp (Some cp) (Some (cp_after cp))) (update_failed cp e) (on_result (\<lambda>_. repository_done) broken_off)" for e
      by (rule daily.seq_post [OF update_failed_rule over(2) half_way_broken])
    show "daily.triple (in_job cp (Some cp, None)) (try_catch (apply_update cp) (update_failed cp)) (on_result (\<lambda>_. repository_done) broken_off)"
      by (rule daily.seq_try [OF applied failed])
  qed
  have fresh: "daily.triple between (modify (\<lambda>s. s\<lparr>dy_job := None\<rparr>)) (on_result (\<lambda>_. ?start) broken_off)"
    by (rule modify_rule) (simp add: between_def marked_running_def)
  show ?thesis unfolding update_repository_def Let_def
    by (rule daily.seq_andThen [OF fresh], rule daily.seq_bind [OF plain [OF demand_keeps]], rule job_allowed,
        simp only: split_paired_all prod.case, rule daily.triple_if, rule unchanged,
        rule daily.seq_bind [OF plain [OF running_codes_rule]], rule job)
qed


section \<open>The scheduler\<close>

definition closed :: "daily_state \<Rightarrow> bool" where
  "closed s \<longleftrightarrow> active_row s = None"

lemma finish_run_rule: "daily.triple P finish_run (on_result (\<lambda>_. closed) dy_db_failed)"
  unfolding finish_run_def
  by (rule daily.seq_look, rule daily.seq_andThen [OF on_run_rule [where Q = "\<lambda>_ s. dr_status (dy_run s) \<noteq> DailyRunning"] save_rule])
    (simp_all add: closed_def active_row_def)

lemma disable_rule: "daily.triple P disable (on_result (\<lambda>_ _. True) dy_db_failed)"
  unfolding disable_def by (rule daily.seq_look) (auto intro!: modify_rule db_failed_rule split: option.split)

lemma fail_recovery_rule: "daily.triple P (fail_recovery d) (on_result (\<lambda>_. closed) dy_db_failed)"
proof -
  let ?F = "\<lambda>s. dr_status (dy_run s) = DailyFailed"
  have report: "daily.triple ?F (andThen (on_run (\<lambda>r. r\<lparr>dr_notification := Some (notification_text x)\<rparr>)) save) (on_result (\<lambda>_. closed) dy_db_failed)" for x
    by (rule daily.seq_andThen [OF on_run_rule [where Q = "\<lambda>_. ?F"] save_rule]) (simp_all add: closed_def active_row_def)
  have notify: "daily.triple ?F (notify_failure d) (on_result (\<lambda>_. closed) dy_db_failed)"
    unfolding notify_failure_def
  proof (rule daily.triple_bind [where Q = "\<lambda>r s. ?F s \<and> \<not> isl r"])
    show "daily.triple ?F (await (DqNotify d)) (\<lambda>r s. ?F s \<and> \<not> isl r)"
      by (rule daily.triple_await [where L = ?F]) (simp_all add: job_allowed)
    have "daily.triple ?F (case x of DaThrows e \<Rightarrow> db_failed e
        | _ \<Rightarrow> andThen (on_run (\<lambda>r. r\<lparr>dr_notification := Some (notification_text x)\<rparr>)) save) (on_result (\<lambda>_. closed) dy_db_failed)" for x
      using report [of x] by (cases x) (auto intro: db_failed_rule)
    then show "daily.triple (\<lambda>s. ?F s \<and> \<not> isl (Inr x)) (case x of DaThrows e \<Rightarrow> db_failed e
        | _ \<Rightarrow> andThen (on_run (\<lambda>r. r\<lparr>dr_notification := Some (notification_text x)\<rparr>)) save) (on_result (\<lambda>_. closed) dy_db_failed)" for x
      by simp
  qed simp
  show ?thesis unfolding fail_recovery_def push_event_def
    by (rule daily.seq_look, rule daily.seq_andThen [OF disable_rule],
        rule daily.seq_andThen [OF on_run_rule [where Q = "\<lambda>_ _. True"]], simp,
        rule daily.seq_andThen [OF on_run_rule [where Q = "\<lambda>_. ?F"]], simp,
        rule daily.seq_andThen [OF save_rule [where Q = "\<lambda>_. ?F"]], simp, simp, rule notify)
qed

definition recoverable :: "daily_state \<Rightarrow> bool" where
  "recoverable s \<longleftrightarrow> dr_checkpoint (dy_run s) = None \<or> (\<exists>cp. remembered cp s)"

lemma failed_recoverable: "dy_db_failed s \<Longrightarrow> recoverable s"
  by (cases "dr_checkpoint (dy_run s)") (auto simp: recoverable_def remembered_def row_job_def intro: same_job_refl)

lemma rollback_recoverable: "daily.triple recoverable rollback (on_result (\<lambda>_ _. True) (\<lambda>_. True))"
proof -
  have none: "daily.triple (\<lambda>s. dr_checkpoint (dy_run s) = None) rollback (on_result (\<lambda>_ _. True) (\<lambda>_. True))"
    by (rule weaken [OF rollback_none [where P = "\<lambda>_. True"]]) simp
  have job: "daily.triple (remembered cp) rollback (on_result (\<lambda>_ _. True) (\<lambda>_. True))" for cp
    using rollback_remembered [of cp] by (simp add: daily.triple_def)
  show ?thesis using none job by (auto simp: daily.triple_def recoverable_def)
qed

lemma recover_run_rule: "daily.triple recoverable recover_run (on_result (\<lambda>_. closed) dy_db_failed)"
  unfolding recover_run_def
proof (rule daily.seq_try [where E = "\<lambda>_. True"])
  have drain: "daily.triple recoverable (demand DqDrain is_done) (on_result (\<lambda>_. recoverable) (\<lambda>_. True))"
    by (rule daily.seq_post [OF demand_keeps]) (simp_all add: job_allowed)
  have finish: "daily.triple P finish_run (on_result (\<lambda>_. closed) (\<lambda>_. True))" for P
    by (rule daily.seq_post [OF finish_run_rule]) simp_all
  show "daily.triple recoverable (andThen (demand DqDrain is_done) (andThen rollback
     (andThen (push_event [] EvInterrupted ''Interrupted daily run recovered; remaining repositories not updated'') finish_run)))
     (on_result (\<lambda>_. closed) (\<lambda>_. True))"
    unfolding push_event_def
    by (rule daily.seq_andThen [OF drain], rule daily.seq_andThen [OF rollback_recoverable],
        rule daily.seq_andThen [OF on_run_rule [where Q = "\<lambda>_ _. True"] finish], simp)
qed (rule fail_recovery_rule)

lemma between_event: "daily.triple between (push_event p st d) (on_result (\<lambda>_. between) E)"
  unfolding push_event_def by (rule on_run_rule) (simp add: between_def marked_running_def)

lemma update_all_rule: "daily.triple between (update_all repos) (on_result (\<lambda>over s. if over then closed s else between s) dy_db_failed)"
proof (induction repos)
  case Nil
  show ?case by (simp add: ret_rule)
next
  case (Cons repo repos)
  let ?Q = "\<lambda>over s. if over then closed s else between s"
  have again: "daily.triple between (andThen (push_event (rp_path repo) EvSkipped e) (andThen save (update_all repos))) (on_result ?Q dy_db_failed)" for e
    by (rule daily.seq_andThen [OF between_event], rule daily.seq_andThen [OF save_rule [where Q = "\<lambda>_. between"] Cons])
      (simp_all add: between_def marked_running_def)
  have broken: "daily.triple broken_off (look (\<lambda>_ s. if dr_checkpoint (dy_run s) \<noteq> None then andThen (fail_recovery e) (ret True)
      else andThen (push_event (rp_path repo) EvSkipped e) (andThen save (update_all repos)))) (on_result ?Q dy_db_failed)" for e
  proof (rule daily.seq_look, rule daily.triple_if)
    fix w s
    have "daily.triple P (andThen (fail_recovery e) (ret True)) (on_result ?Q dy_db_failed)" for P
      by (rule daily.seq_andThen [OF fail_recovery_rule]) (rule ret_rule, simp)
    then show "daily.triple (\<lambda>t. broken_off t \<and> t = s) (andThen (fail_recovery e) (ret True)) (on_result ?Q dy_db_failed)" .
    assume "\<not> dr_checkpoint (dy_run s) \<noteq> None"
    then show "daily.triple (\<lambda>t. broken_off t \<and> t = s) (andThen (push_event (rp_path repo) EvSkipped e) (andThen save (update_all repos)))
        (on_result ?Q dy_db_failed)"
      by (intro weaken [OF again]) (auto simp: broken_off_def row_job_def split: option.splits)
  qed
  have next_one: "daily.triple repository_done (update_all repos) (on_result ?Q dy_db_failed)"
    by (rule weaken [OF Cons]) (simp add: repository_done_def job_over_def between_def)
  have one: "daily.triple between (attempt (update_repository repo) (\<lambda>r. case r of Inr _ \<Rightarrow> update_all repos
     | Inl e \<Rightarrow> look (\<lambda>_ s. if dr_checkpoint (dy_run s) \<noteq> None then andThen (fail_recovery e) (ret True)
         else andThen (push_event (rp_path repo) EvSkipped e) (andThen save (update_all repos))))) (on_result ?Q dy_db_failed)"
    by (rule daily.seq_attempt [OF update_repository_rule]) (simp_all only: sum.case next_one broken)
  show ?case unfolding update_all.simps
    by (rule daily.seq_look, rule daily.triple_if, rule ret_rule, simp, rule weaken [OF one], simp)
qed

abbreviation troubled :: "daily_state \<Rightarrow> bool" where
  "troubled s \<equiv> between s \<or> dy_db_failed s"

lemma run_body_rule: "daily.triple between run_body (on_result (\<lambda>_. closed) troubled)"
proof -
  have db: "daily.triple P m (on_result Q dy_db_failed) \<Longrightarrow> daily.triple P m (on_result Q troubled)" for P Q and m :: "'r daily"
    by (erule daily.seq_post) simp_all
  have plain: "daily.triple P m (on_result Q between) \<Longrightarrow> daily.triple P m (on_result Q troubled)" for P Q and m :: "'r daily"
    by (erule daily.seq_post) simp_all
  have last: "daily.triple (\<lambda>s. if over then closed s else between s) (if over then ret () else look (\<lambda>w _.
      andThen (if dw_closing w then push_event [] EvInterrupted d else ret ()) finish_run)) (on_result (\<lambda>_. closed) dy_db_failed)" for over d
    by (cases over) (auto intro!: ret_rule daily.seq_look daily.seq_andThen [OF _ finish_run_rule [where P = "\<lambda>_. True"]]
        daily.triple_if simp: push_event_def on_run_rule)
  show ?thesis unfolding run_body_def
    by (rule daily.seq_andThen [OF plain [OF demand_keeps]], rule job_allowed, rule daily.seq_bind [OF plain [OF demand_keeps]], rule job_allowed,
        rule daily.seq_bind [OF plain [OF demand_keeps]], rule job_allowed, rule daily.seq_bind [OF db [OF update_all_rule]], rule db [OF last])
qed

lemma run_failed_rule: "daily.triple troubled (run_failed e) (on_result (\<lambda>_. closed) dy_db_failed)"
proof -
  have event: "daily.triple troubled (push_event [] EvFailed e) (on_result (\<lambda>_. troubled) E)" for E
    unfolding push_event_def by (rule on_run_rule) (auto simp: between_def marked_running_def)
  show ?thesis unfolding run_failed_def
  proof (rule daily.seq_andThen [OF event], rule daily.seq_look, rule daily.triple_if)
    fix w s
    show "daily.triple (\<lambda>t. troubled t \<and> t = s) recover_run (on_result (\<lambda>_. closed) dy_db_failed)"
      by (rule weaken [OF recover_run_rule]) (auto simp: between_def recoverable_def [abs_def] dest: failed_recoverable)
    show "daily.triple (\<lambda>t. troubled t \<and> t = s) finish_run (on_result (\<lambda>_. closed) dy_db_failed)"
      by (rule finish_run_rule)
  qed
qed

lemma tick_rule: "daily.triple (\<lambda>_. True) tick (on_result (\<lambda>_. closed) dy_db_failed)"
  unfolding tick_def
proof (rule daily.seq_look)
  fix w :: daily_world and s
  let ?Q = "on_result (\<lambda>_. closed) dy_db_failed"
  have recover: "daily.triple (\<lambda>t. True \<and> t = s) (andThen (modify (\<lambda>s. s\<lparr>dy_run := r\<rparr>)) recover_run) ?Q" if "active_row s = Some r" for r
  proof (rule daily.seq_andThen [OF modify_rule recover_run_rule])
    have r: "dr_status r = DailyRunning" using that by (auto simp: active_row_def split: option.splits if_splits)
    have self: "Ex (same_job c)" for c using same_job_refl by blast
    show "\<And>t. True \<and> t = s \<Longrightarrow> recoverable (t\<lparr>dy_run := r\<rparr>)"
      using r self by (cases "dr_checkpoint r") (auto simp: recoverable_def remembered_def row_job_def)
  qed
  have started: "daily.triple (\<lambda>t. True \<and> t = s) (andThen (modify (\<lambda>s. s\<lparr>dy_run := new_daily_run i d n, dy_row := Some (new_daily_run i d n)\<rparr>))
      (try_catch run_body run_failed)) ?Q" for i d n
    by (rule daily.seq_andThen [OF modify_rule daily.seq_try [OF run_body_rule run_failed_rule]])
      (simp add: between_def marked_running_def new_daily_run_def)
  show "daily.triple (\<lambda>t. True \<and> t = s) (case dw_read_error w of
       Some e \<Rightarrow> db_failed e
     | None \<Rightarrow> (case active_row s of
         Some r \<Rightarrow> andThen (modify (\<lambda>s. s\<lparr>dy_run := r\<rparr>)) recover_run
       | None \<Rightarrow> (case dw_due w of
           None \<Rightarrow> ret ()
         | Some day \<Rightarrow> (case dw_begin w of
             None \<Rightarrow> ret ()
           | Some i \<Rightarrow> (let run = new_daily_run i day (dw_now w) in
               andThen (modify (\<lambda>s. s\<lparr>dy_run := run, dy_row := Some run\<rparr>)) (try_catch run_body run_failed)))))) ?Q"
  proof (cases "dw_read_error w")
    case (Some e)
    show ?thesis unfolding Some option.case by (rule db_failed_rule) simp
  next
    case None
    note read = None
    show ?thesis
    proof (cases "active_row s")
      case (Some r)
      show ?thesis unfolding read Some option.case by (rule recover [OF Some])
    next
      case None
      have idle: "daily.triple (\<lambda>t. True \<and> t = s) (ret ()) ?Q" by (rule ret_rule) (simp add: closed_def None)
      show ?thesis unfolding read None option.case Let_def by (auto split: option.split intro: idle [simplified] started [simplified])
    qed
  qed
qed


section \<open>Properties\<close>

definition tick_run :: "daily_state \<Rightarrow> (daily_state, daily_world, daily_query, daily_answer, string, unit) prog \<Rightarrow> bool" where
  "tick_run = reaches (\<lambda>_ _. False) (\<lambda>_ _ _. True) (\<lambda>s. \<not> dy_db_failed s) tick"

text \<open>
  C7. At every point of a tick of the scheduler, recovery of an interrupted run included, services are
  stopped and started, and a repository is merged, reset or built, only while the database holds the
  checkpoint of that very job; the merge and the reset go to its two commits; a repository is touched
  only when every service that was running has been stopped and not started again; and only services
  that were running before are stopped or started. The run is marked as running in the database unless a
  call of the database failed before in this tick.
\<close>
theorem daily_changes_are_journaled:
  assumes "tick_run s (Await q k)"
  shows "daily_allowed q s"
  using daily.reaches_allowed [OF assms [unfolded tick_run_def] tick_rule] by simp




section \<open>A run to look at\<close>

definition demo_repository :: repository where
  "demo_repository = \<lparr>rp_path = ''r'', rp_services =
     [\<lparr>dv_code = ''a'', dv_cwd = None, dv_compose = None, dv_runtime = ''node'', dv_disabled = False\<rparr>,
      \<lparr>dv_code = ''b'', dv_cwd = None, dv_compose = None, dv_runtime = ''node'', dv_disabled = False\<rparr>]\<rparr>"

definition demo_daily_world :: daily_world where
  "demo_daily_world = \<lparr>dw_closing = False, dw_due = Some ''2026-10-06'', dw_begin = Some ''i'', dw_now = ''t'', dw_save_error = (\<lambda>_. None), dw_settings_error = None, dw_read_error = None\<rparr>"

definition idle_daily :: daily_state where
  "idle_daily = \<lparr>dy_run = new_daily_run ''old'' ''d'' ''t'', dy_row = None, dy_enabled = True, dy_stopped = [], dy_head = None, dy_job = None, dy_db_failed = False\<rparr>"

text \<open>Service \<open>a\<close> runs and \<open>b\<close> does not; the new version does not start.\<close>

definition demo_answers :: "daily_answer list" where
  "demo_answers = [DaPrepared ''main'' ''old'' ''new'', DaBool True, DaBool False, DaStops [None], DaOk, DaOk, DaOk, DaOk,
     DaServices (rp_services demo_repository), DaOk, DaOk, DaThrows ''start failed'', DaStops [None], DaOk, DaOk, DaOk, DaOk,
     DaServices [], DaOk, DaOk, DaOk]"



fun returned :: "(daily_state, daily_world, daily_query, daily_answer, string, unit) prog \<Rightarrow> (string + unit) option" where
  "returned (Return r) = Some r"
| "returned (Await q k) = None"

fun awaited :: "(daily_state, daily_world, daily_query, daily_answer, string, unit) prog \<Rightarrow> daily_query option" where
  "awaited (Await q k) = Some q"
| "awaited (Return r) = None"


definition demo_tick :: "daily_answer list \<Rightarrow> daily_state \<times> (daily_state, daily_world, daily_query, daily_answer, string, unit) prog" where
  "demo_tick as = answering as demo_daily_world (tick demo_daily_world idle_daily)"

lemma demo_tick_run: "tick_run (fst (demo_tick as)) (snd (demo_tick as))"
  unfolding tick_run_def demo_tick_def by (rule reaches_run) (simp add: idle_daily_def)

lemma daily_changes_are_journaled_witness:
  "awaited (snd (demo_tick ([DaOk, DaServices [], DaRepositories [demo_repository]] @ take 5 demo_answers))) = Some (DqMerge ''r'' ''new'')
   \<and> daily_allowed (DqMerge ''r'' ''new'') (fst (demo_tick ([DaOk, DaServices [], DaRepositories [demo_repository]] @ take 5 demo_answers)))"
proof -
  let ?t = "demo_tick ([DaOk, DaServices [], DaRepositories [demo_repository]] @ take 5 demo_answers)"
  have merge: "awaited (snd ?t) = Some (DqMerge ''r'' ''new'')" by code_simp
  then obtain k where "snd ?t = Await (DqMerge ''r'' ''new'') k" by (cases "snd ?t") simp_all
  with demo_tick_run have "tick_run (fst ?t) (Await (DqMerge ''r'' ''new'') k)" by metis
  from daily_changes_are_journaled [OF this] merge show ?thesis by simp
qed


section \<open>A lost retry\<close>

text \<open>
  While the failure of a recovery is being reported, the row already says failed, so the local page may
  set it back to running for another attempt. The report then saves the run it holds over it.
\<close>

fun resume_with :: "daily_answer \<Rightarrow> daily_world \<Rightarrow> daily_state \<Rightarrow> (daily_state, daily_world, daily_query, daily_answer, string, unit) prog
    \<Rightarrow> daily_state \<times> (daily_state, daily_world, daily_query, daily_answer, string, unit) prog" where
  "resume_with a w s (Await q k) = k a w s"
| "resume_with a w s (Return r) = (s, Return r)"

definition failed_job :: run where
  "failed_job = (new_daily_run ''i'' ''d'' ''t'')\<lparr>dr_checkpoint := Some \<lparr>cp_path = ''r'', cp_branch = ''main'', cp_before = ''old'',
     cp_after = ''new'', cp_services = [], cp_running = [], cp_phase = PhRollback\<rparr>\<rparr>"

definition reporting :: "daily_state \<times> (daily_state, daily_world, daily_query, daily_answer, string, unit) prog" where
  "reporting = fail_recovery ''x'' demo_daily_world (idle_daily\<lparr>dy_run := failed_job, dy_row := Some failed_job\<rparr>)"

definition retried :: "run option" where
  "retried = (case retryDailyRecovery ''i'' \<lparr>db_ops = [], db_daily = [the (dy_row (fst reporting))], db_manual = []\<rparr> of
     (db, True) \<Rightarrow> Some (hd (db_daily db)) | _ \<Rightarrow> None)"

theorem retry_during_report_is_lost:
  "map_option dr_status retried = Some DailyRunning
   \<and> map_option dr_status (dy_row (fst (resume_with (DaNotified (Some True)) demo_daily_world
       ((fst reporting)\<lparr>dy_row := retried\<rparr>) (snd reporting)))) = Some DailyFailed"
  by code_simp

section \<open>Failing writes\<close>

definition failing_world :: "(run \<Rightarrow> bool) \<Rightarrow> daily_world" where
  "failing_world P = demo_daily_world\<lparr>dw_save_error := (\<lambda>r. if P r then Some ''database is locked'' else None)\<rparr>"

definition last_is :: "daily_event_status \<Rightarrow> run \<Rightarrow> bool" where
  "last_is st r \<longleftrightarrow> dr_events r \<noteq> [] \<and> de_status (last (dr_events r)) = st"

text \<open>
  When the save after a successful update throws, the update is reported as failed although the new version
  runs: the checkpoint is already dropped, so the catch block rolls nothing back.
\<close>

theorem late_save_reports_failure:
  "(let r = answering (take 11 demo_answers @ [DaOk, DaOk]) (failing_world (last_is EvUpdated))
      (update_repository demo_repository (failing_world (last_is EvUpdated)) idle_daily)
    in returned (snd r) = Some (Inr ()) \<and> last_status (fst r) = EvUpdateFailed \<and> dy_head (fst r) = Some ''new'' \<and> dy_stopped (fst r) = [])"
  by code_simp

text \<open>
  When the save of a failed recovery throws, the run is recovered once more, but it says failed from then on:
  services are stopped and the repository is reset while no run is active and manual work is allowed.
\<close>

theorem failed_run_rolls_back_unlocked:
  "(let r = answering ([DaOk, DaServices [], DaRepositories [demo_repository]] @ take 11 demo_answers @ [DaThrows ''start failed'',
        DaStops [Some ''stop failed''], DaOk]) (failing_world (last_is EvRecoveryFailed))
      (tick (failing_world (last_is EvRecoveryFailed)) idle_daily)
    in awaited (snd r) = Some (DqStop [''a'']) \<and> active_row (fst r) = None)"
  by code_simp

end
