(* ===== verification/Liveness_History.thy ===== *)
theory Liveness_History imports Text_Tools begin

text \<open>
  The health pass and the history it keeps (\<open>src/scanner/health-state.ts\<close>, \<open>health-cache.ts\<close>): the state
  of the instances, and a row of history where the state of a service changed or the last row is old.

  The tables are lists in the order of insertion, which is the order of \<open>liveness_history.id\<close>. A
  transaction is one function on the database. The random id of a new instance is a parameter.
\<close>

section \<open>Probe results and the cache of the last pass\<close>

datatype health_reason = ByHttp | ByTcp | ByCmd | ByProcess | ByPort | NotConfigured | ProbeFailed

record health_result =
  hr_ok :: bool
  hr_reason :: health_reason
  hr_detail :: "string option"
  hr_version :: "string option"

record cached_health =
  ch_ok :: bool
  ch_reason :: health_reason
  ch_detail :: "string option"
  ch_version :: "string option"
  ch_checkedAt :: ms

record health_cache =
  hc_startedAt :: "ms option"
  hc_completedAt :: "ms option"
  hc_durationMs :: "ms option"
  hc_intervalMs :: "ms option"
  hc_services :: "(code \<times> cached_health) list"

definition emptySnapshot :: health_cache where
  "emptySnapshot = \<lparr>hc_startedAt = None, hc_completedAt = None, hc_durationMs = None, hc_intervalMs = None, hc_services = []\<rparr>"

definition publishHealthResults :: "ms \<Rightarrow> ms \<Rightarrow> ms \<Rightarrow> (code \<times> health_result) list \<Rightarrow> health_cache" where
  "publishHealthResults startedAt completedAt intervalMs results =
     \<lparr>hc_startedAt = Some startedAt, hc_completedAt = Some completedAt,
      hc_durationMs = Some (max 0 (completedAt - startedAt)), hc_intervalMs = Some intervalMs,
      hc_services = map (\<lambda>(c, r). (c, \<lparr>ch_ok = hr_ok r, ch_reason = hr_reason r, ch_detail = hr_detail r,
        ch_version = hr_version r, ch_checkedAt = completedAt\<rparr>)) results\<rparr>"

section \<open>Tables\<close>

datatype instance_state = InstancePending | InstanceRunning | InstanceStopped

record service_row =
  sr_id :: string
  sr_code :: code
  sr_active :: bool

record live_instance =
  ir_id :: string
  ir_service :: string
  ir_state :: instance_state
  ir_seen :: "ms option"
  ir_version :: "string option"
  ir_created :: ms
  ir_updated :: ms

record liveness_row =
  lr_instance :: string
  lr_at :: ms
  lr_ok :: bool
  lr_reason :: health_reason
  lr_detail :: "string option"

record live_db =
  ld_services :: "service_row list"
  ld_instances :: "live_instance list"
  ld_history :: "liveness_row list"

definition service_ids :: "code \<Rightarrow> live_db \<Rightarrow> string list" where
  "service_ids c d = map sr_id (filter (\<lambda>s. sr_code s = c) (ld_services d))"

text \<open>\<open>INSERT \<dots> SELECT \<dots> WHERE NOT EXISTS\<close>: one new row per service with the code and no instance.\<close>

definition ensure_instances :: "(live_instance list \<Rightarrow> string) \<Rightarrow> code \<Rightarrow> ms \<Rightarrow> live_db \<Rightarrow> live_db" where
  "ensure_instances new_id c now d = d\<lparr>ld_instances :=
     foldl (\<lambda>rows sid. rows @ [\<lparr>ir_id = new_id rows, ir_service = sid, ir_state = InstancePending, ir_seen = None,
         ir_version = None, ir_created = now, ir_updated = now\<rparr>])
       (ld_instances d) (filter (\<lambda>sid. sid \<notin> ir_service ` set (ld_instances d)) (service_ids c d))\<rparr>"

definition on_instances :: "code \<Rightarrow> (live_instance \<Rightarrow> live_instance) \<Rightarrow> live_db \<Rightarrow> live_db" where
  "on_instances c f d = d\<lparr>ld_instances :=
     map (\<lambda>r. if ir_service r \<in> set (service_ids c d) then f r else r) (ld_instances d)\<rparr>"

definition put_state :: "instance_state \<Rightarrow> ms \<Rightarrow> live_instance \<Rightarrow> live_instance" where
  "put_state st now r = r\<lparr>ir_state := st, ir_seen := (if st = InstanceRunning then Some now else ir_seen r), ir_updated := now\<rparr>"

text \<open>\<open>setHostScanState\<close> of \<open>host-process.ts\<close>.\<close>

definition setHostScanState :: "(live_instance list \<Rightarrow> string) \<Rightarrow> code \<Rightarrow> instance_state \<Rightarrow> ms \<Rightarrow> live_db \<Rightarrow> live_db" where
  "setHostScanState new_id c st now d = on_instances c (put_state st now) (ensure_instances new_id c now d)"

text \<open>The first instance of the code, and the newest row of an instance (\<open>ORDER BY probed_at DESC, id DESC\<close>).\<close>

definition instance_of :: "code \<Rightarrow> live_db \<Rightarrow> string option" where
  "instance_of c d = map_option ir_id (List.find (\<lambda>r. ir_service r \<in> set (service_ids c d)) (ld_instances d))"

fun newest :: "('a \<Rightarrow> ms) \<Rightarrow> 'a list \<Rightarrow> 'a option" where
  "newest at [] = None"
| "newest at (r # rs) = (case newest at rs of None \<Rightarrow> Some r | Some s \<Rightarrow> if at r \<le> at s then Some s else Some r)"

definition readLatestLiveness :: "string \<Rightarrow> live_db \<Rightarrow> (bool \<times> ms) option" where
  "readLatestLiveness i d =
     map_option (\<lambda>r. (lr_ok r, lr_at r)) (newest lr_at (filter (\<lambda>r. lr_instance r = i) (ld_history d)))"

definition shouldRecordLiveness :: "(bool \<times> ms) option \<Rightarrow> bool \<Rightarrow> ms \<Rightarrow> ms \<Rightarrow> bool" where
  "shouldRecordLiveness latest ok now heartbeatMs =
     (case latest of None \<Rightarrow> True | Some (ok', at) \<Rightarrow> ok' \<noteq> ok \<or> now - at \<ge> heartbeatMs)"

definition markServiceHealth :: "(live_instance list \<Rightarrow> string) \<Rightarrow> ms \<Rightarrow> ms \<Rightarrow> code \<Rightarrow> health_result \<Rightarrow> live_db \<Rightarrow> live_db \<times> bool" where
  "markServiceHealth new_id now heartbeatMs c r d =
     (let st = (if hr_ok r then InstanceRunning else InstanceStopped);
          d1 = on_instances c (\<lambda>i. (put_state st now i)\<lparr>ir_version := hr_version r\<rparr>) (ensure_instances new_id c now d)
      in case instance_of c d1 of
           None \<Rightarrow> (d1, False)
         | Some i \<Rightarrow>
             let latest = readLatestLiveness i d1;
                 transition = (case latest of None \<Rightarrow> False | Some (ok, _) \<Rightarrow> ok \<noteq> hr_ok r)
             in if \<not> shouldRecordLiveness latest (hr_ok r) now heartbeatMs then (d1, False)
                else (d1\<lparr>ld_history := ld_history d1 @ [\<lparr>lr_instance = i, lr_at = now, lr_ok = hr_ok r,
                        lr_reason = hr_reason r, lr_detail = hr_detail r\<rparr>]\<rparr>, transition))"

section \<open>A pass over all services\<close>

record observation =
  ob_code :: code
  ob_name :: string
  ob_ok :: bool
  ob_reason :: health_reason
  ob_detail :: "string option"

text \<open>
  The observations of a pass: the catalog's services, as code and name, in its order, without those
  that have no result or none configured. \<open>results\<close> is the map built by \<open>serviceHealthResults\<close>.
\<close>

definition observations_of :: "(code \<times> string) list \<Rightarrow> (code \<Rightarrow> health_result option) \<Rightarrow> observation list" where
  "observations_of services results = concat (map (\<lambda>(c, name). case results c of
       None \<Rightarrow> []
     | Some r \<Rightarrow> if hr_reason r = NotConfigured then []
         else [\<lparr>ob_code = c, ob_name = name, ob_ok = hr_ok r, ob_reason = hr_reason r, ob_detail = hr_detail r\<rparr>]) services)"

fun mark_each :: "(live_instance list \<Rightarrow> string) \<Rightarrow> ms \<Rightarrow> ms \<Rightarrow> (code \<Rightarrow> health_result option) \<Rightarrow> observation list \<Rightarrow> live_db \<Rightarrow> live_db" where
  "mark_each new_id now hb results [] d = d"
| "mark_each new_id now hb results (ob # obs) d =
     mark_each new_id now hb results obs (fst (markServiceHealth new_id now hb (ob_code ob) (the (results (ob_code ob))) d))"

record health_pass =
  hp_now :: ms
  hp_heartbeatMs :: ms
  hp_services :: "(code \<times> string) list"
  hp_results :: "code \<Rightarrow> health_result option"

definition syncHealthyServiceStates :: "(live_instance list \<Rightarrow> string) \<Rightarrow> health_pass \<Rightarrow> live_db \<Rightarrow> live_db \<times> observation list" where
  "syncHealthyServiceStates new_id p d =
     (let obs = observations_of (hp_services p) (hp_results p)
      in (mark_each new_id (hp_now p) (hp_heartbeatMs p) (hp_results p) obs d, obs))"

text \<open>\<open>running\<close> and \<open>stopped\<close> of the result.\<close>

definition codes_seen :: "bool \<Rightarrow> observation list \<Rightarrow> code list" where
  "codes_seen up obs = map ob_code (filter (\<lambda>ob. ob_ok ob = up) obs)"

definition run_passes :: "(live_instance list \<Rightarrow> string) \<Rightarrow> health_pass list \<Rightarrow> live_db \<Rightarrow> live_db" where
  "run_passes new_id ps d = foldl (\<lambda>d p. fst (syncHealthyServiceStates new_id p d)) d ps"

end
