(* ===== verification/Downtime.thy ===== *)
theory Downtime imports Complex_Main Liveness_History "HOL-Library.List_Lexorder" "HOL-Library.Char_ord" begin

text \<open>
  The downtime of a service from its liveness history (\<open>src/scanner/downtime.ts\<close>): the summary is
  computed in one scan, and it is the time the service was observed down, although the history holds
  only the changes and a heartbeat. Ratios are exact here and rounded doubles in the code.
\<close>

section \<open>The summary\<close>

type_synonym sample = "ms \<times> bool"

record downtime_summary =
  dt_window_ms :: ms
  dt_downtime_ms :: ms
  dt_uptime_ratio :: "rat option"
  dt_incidents :: nat
  dt_current_down_since :: "ms option"
  dt_current_down_ms :: ms
  dt_last_probe_at :: "ms option"
  dt_last_ok_at :: "ms option"
  dt_last_down_at :: "ms option"

record downtime_scan =
  ds_downtime :: ms
  ds_incidents :: nat
  ds_state :: "bool option"
  ds_cursor :: ms
  ds_probe :: "ms option"
  ds_okAt :: "ms option"
  ds_downAt :: "ms option"
  ds_since :: "ms option"

definition scan_sample :: "ms \<Rightarrow> downtime_scan \<Rightarrow> sample \<Rightarrow> downtime_scan" where
  "scan_sample since s p =
     (let (t, ok) = p in
      if t < since then
        s\<lparr>ds_state := Some ok, ds_probe := Some t, ds_okAt := (if ok then Some t else ds_okAt s),
          ds_downAt := (if ok then ds_downAt s else Some t), ds_since := (if ok then ds_since s else Some t)\<rparr>
      else
        let newly = \<not> ok \<and> ds_state s \<noteq> Some False in
        s\<lparr>ds_downtime := (if ds_state s = Some False then ds_downtime s + max 0 (t - ds_cursor s) else ds_downtime s),
          ds_incidents := (if newly then ds_incidents s + 1 else ds_incidents s),
          ds_okAt := (if ok then Some t else ds_okAt s), ds_downAt := (if ok then ds_downAt s else Some t),
          ds_since := (if ok then None else if newly then Some t else ds_since s),
          ds_state := Some ok, ds_cursor := t, ds_probe := Some t\<rparr>)"

definition scan_start :: "ms \<Rightarrow> downtime_scan" where
  "scan_start since = \<lparr>ds_downtime = 0, ds_incidents = 0, ds_state = None, ds_cursor = since,
     ds_probe = None, ds_okAt = None, ds_downAt = None, ds_since = None\<rparr>"

definition computeDowntimeSummary :: "sample list \<Rightarrow> ms \<Rightarrow> ms \<Rightarrow> ms \<Rightarrow> downtime_summary" where
  "computeDowntimeSummary samples since0 now windowMs0 =
     (let since = min since0 now;
          sorted = sort_key fst (filter (\<lambda>p. fst p \<le> now) samples);
          s = foldl (scan_sample since) (scan_start since) sorted;
          downtimeMs = (if ds_state s = Some False then ds_downtime s + max 0 (now - ds_cursor s) else ds_downtime s);
          windowMs = max 0 windowMs0;
          bounded = max 0 (min downtimeMs windowMs);
          downFrom = (case ds_since s of None \<Rightarrow> ds_downAt s | Some t \<Rightarrow> Some t)
      in \<lparr>dt_window_ms = windowMs, dt_downtime_ms = bounded,
          dt_uptime_ratio = (if windowMs > 0 then Some (max 0 (min 1 (1 - of_int bounded / of_int windowMs))) else None),
          dt_incidents = ds_incidents s,
          dt_current_down_since = (if ds_state s = Some False then downFrom else None),
          dt_current_down_ms = (if ds_state s = Some False then (case downFrom of None \<Rightarrow> 0 | Some t \<Rightarrow> max 0 (now - t)) else 0),
          dt_last_probe_at = ds_probe s, dt_last_ok_at = ds_okAt s, dt_last_down_at = ds_downAt s\<rparr>)"

section \<open>The query and its cache\<close>

text \<open>
  The rows of one service: those of the window, and the newest one before it, by time and then by id.
  Only active services count, and a service without any row has no summary.
\<close>

definition service_rows :: "service_row \<Rightarrow> live_db \<Rightarrow> liveness_row list" where
  "service_rows s d =
     filter (\<lambda>r. lr_instance r \<in> ir_id ` set (filter (\<lambda>i. ir_service i = sr_id s) (ld_instances d))) (ld_history d)"

definition window_rows :: "ms \<Rightarrow> liveness_row list \<Rightarrow> liveness_row list" where
  "window_rows since rows = sort_key lr_at
     ((case newest lr_at (filter (\<lambda>r. lr_at r < since) rows) of None \<Rightarrow> [] | Some r \<Rightarrow> [r])
      @ filter (\<lambda>r. lr_at r \<ge> since) rows)"

definition sample_of :: "liveness_row \<Rightarrow> sample" where
  "sample_of r = (lr_at r, lr_ok r)"

definition queryDowntimeSummaries :: "code list \<Rightarrow> ms \<Rightarrow> ms \<Rightarrow> ms \<Rightarrow> live_db \<Rightarrow> (code \<times> downtime_summary) list" where
  "queryDowntimeSummaries codes since now windowMs d = concat (map (\<lambda>s.
     let rows = window_rows since (service_rows s d)
     in if sr_active s \<and> sr_code s \<in> set codes \<and> rows \<noteq> []
        then [(sr_code s, computeDowntimeSummary (map sample_of rows) since now windowMs)] else [])
     (sort_key sr_code (ld_services d)))"

type_synonym summary_key = "ms \<times> int \<times> code list"

record summary_cached =
  sq_key :: summary_key
  sq_capturedAt :: ms
  sq_value :: "(code \<times> downtime_summary) list"

definition summary_ttl :: ms where "summary_ttl = 5000"
definition summary_capacity :: nat where "summary_capacity = 16"

definition unique_codes :: "code list \<Rightarrow> code list" where
  "unique_codes codes = sort (remdups (filter (\<lambda>c. c \<noteq> []) (map js_trim codes)))"

text \<open>The oldest entry: the first one with the least time of capture.\<close>

definition drop_oldest :: "summary_cached list \<Rightarrow> summary_cached list" where
  "drop_oldest cache = (case sort_key sq_capturedAt cache of [] \<Rightarrow> cache | o1 # _ \<Rightarrow> filter (\<lambda>e. sq_key e \<noteq> sq_key o1) cache)"

definition downtimeSummariesForServices ::
  "code list \<Rightarrow> rat \<Rightarrow> ms \<Rightarrow> live_db \<Rightarrow> summary_cached list \<Rightarrow> (code \<times> downtime_summary) list \<times> summary_cached list" where
  "downtimeSummariesForServices codes windowMin now d cache =
     (let unique = unique_codes codes in
      if unique = [] then ([], cache)
      else
        let windowMs = max 60000 (floor (windowMin * 60000));
            since = now - windowMs;
            key = (windowMs, now div summary_ttl, unique);
            fresh = (let r = queryDowntimeSummaries unique since now windowMs d;
                         cache' = upsert sq_key \<lparr>sq_key = key, sq_capturedAt = now, sq_value = r\<rparr> cache
                     in (r, if length cache' > summary_capacity then drop_oldest cache' else cache'))
        in case find_key sq_key key cache of
             Some e \<Rightarrow> if now - sq_capturedAt e < summary_ttl then (sq_value e, cache) else fresh
           | None \<Rightarrow> fresh)"

definition downtimeSummaryForService :: "code \<Rightarrow> rat \<Rightarrow> ms \<Rightarrow> live_db \<Rightarrow> summary_cached list \<Rightarrow> downtime_summary option" where
  "downtimeSummaryForService c windowMin now d cache =
     map_option snd (find_key fst c (fst (downtimeSummariesForServices [c] windowMin now d cache)))"

section \<open>What was observed\<close>

text \<open>
  The state at an instant is that of the last sample up to then; with equal times the later sample
  counts. An outage starts in the window with a failed sample that follows none or a good one.
\<close>

definition last_ok :: "sample list \<Rightarrow> bool option" where
  "last_ok ps = (if ps = [] then None else Some (snd (last ps)))"

definition state_at :: "sample list \<Rightarrow> ms \<Rightarrow> bool option" where
  "state_at ps x = last_ok (sort_key fst (filter (\<lambda>p. fst p \<le> x) ps))"

definition time_down :: "sample list \<Rightarrow> ms \<Rightarrow> ms \<Rightarrow> int" where
  "time_down ps from until = int (card {x. from \<le> x \<and> x < until \<and> state_at ps x = Some False})"

fun outages :: "ms \<Rightarrow> bool option \<Rightarrow> sample list \<Rightarrow> nat" where
  "outages since prev [] = 0"
| "outages since prev (p # ps) =
     (if since \<le> fst p \<and> \<not> snd p \<and> prev \<noteq> Some False then 1 else 0) + outages since (Some (snd p)) ps"

lemma sort_key_id: "sorted (map f xs) \<Longrightarrow> sort_key f xs = xs"
  by (rule sort_key_id_if_sorted)

lemma state_at_sorted: "sorted (map fst ps) \<Longrightarrow> state_at ps x = last_ok (filter (\<lambda>p. fst p \<le> x) ps)"
  by (simp add: state_at_def sort_key_id sorted_filter)

lemma state_at_snoc: "sorted (map fst (ps @ [p])) \<Longrightarrow> state_at (ps @ [p]) x = (if fst p \<le> x then Some (snd p) else state_at ps x)"
  using state_at_sorted [of "ps @ [p]" x] state_at_sorted [of ps x] by (auto simp: sorted_append last_ok_def)

lemma state_at_last: "sorted (map fst ps) \<Longrightarrow> \<forall>p \<in> set ps. fst p \<le> x \<Longrightarrow> state_at ps x = last_ok ps"
  by (simp add: state_at_sorted)

lemma last_ok_snoc [simp]: "last_ok (ps @ [p]) = Some (snd p)" and last_ok_Nil [simp]: "last_ok [] = None"
  by (simp_all add: last_ok_def)

lemma finite_between [simp]: "finite {x :: int. a \<le> x \<and> x < b \<and> P x}"
  by (rule finite_subset [of _ "{a..<b}"]) auto

lemma time_down_empty [simp]: "time_down ps a a = 0"
  by (auto simp: time_down_def intro!: card_eq_0_iff [THEN iffD2])

lemma time_down_split: "a \<le> b \<Longrightarrow> b \<le> c \<Longrightarrow> time_down ps a c = time_down ps a b + time_down ps b c"
proof -
  assume le: "a \<le> b" "b \<le> c"
  let ?S = "\<lambda>u v. {x. u \<le> x \<and> x < v \<and> state_at ps x = Some False}"
  have "?S a c = ?S a b \<union> ?S b c" "?S a b \<inter> ?S b c = {}" using le by auto
  then show ?thesis by (simp add: time_down_def card_Un_disjoint)
qed

lemma time_down_cong: "(\<And>x. a \<le> x \<Longrightarrow> x < b \<Longrightarrow> state_at ps x = state_at qs x) \<Longrightarrow> time_down ps a b = time_down qs a b"
  unfolding time_down_def by (rule arg_cong [of _ _ "\<lambda>s. int (card s)"]) auto

lemma time_down_const:
  assumes "\<And>x. a \<le> x \<Longrightarrow> x < b \<Longrightarrow> state_at ps x = v" "a \<le> b"
  shows "time_down ps a b = (if v = Some False then b - a else 0)"
proof -
  have "{x. a \<le> x \<and> x < b \<and> state_at ps x = Some False} = (if v = Some False then {a..<b} else {})"
    using assms(1) by auto
  then show ?thesis using assms(2) by (simp add: time_down_def)
qed

lemma outages_append: "outages since prev (ps @ qs) =
  outages since prev ps + outages since (if ps = [] then prev else last_ok ps) qs"
  by (induction ps arbitrary: prev) (auto simp: last_ok_def)

lemma outages_snoc: "outages since None (ps @ [p]) =
  outages since None ps + (if since \<le> fst p \<and> \<not> snd p \<and> last_ok ps \<noteq> Some False then 1 else 0)"
  by (simp add: outages_append)

text \<open>What the scan has after a prefix: the cursor is the last sample in the window.\<close>

definition cursor_after :: "ms \<Rightarrow> sample list \<Rightarrow> ms" where
  "cursor_after since ps = (if ps = [] then since else max since (fst (last ps)))"

definition scanned :: "ms \<Rightarrow> sample list \<Rightarrow> downtime_scan" where
  "scanned since ps = foldl (scan_sample since) (scan_start since) ps"

lemma cursor_bounds: "sorted (map fst ps) \<Longrightarrow> q \<in> set ps \<Longrightarrow> fst q \<le> cursor_after since ps"
  by (cases ps rule: rev_cases) (auto simp: sorted_append cursor_after_def)

lemma scan_prefix:
  "sorted (map fst ps) \<Longrightarrow> ds_state (scanned since ps) = last_ok ps \<and> ds_cursor (scanned since ps) = cursor_after since ps
    \<and> ds_downtime (scanned since ps) = time_down ps since (cursor_after since ps)
    \<and> ds_incidents (scanned since ps) = outages since None ps"
proof (induction ps rule: rev_induct)
  case Nil
  then show ?case by (simp add: scanned_def cursor_after_def scan_start_def time_down_def)
next
  case (snoc p ps)
  obtain t ok where p: "p = (t, ok)" by fastforce
  let ?c = "cursor_after since ps"
  have ps: "sorted (map fst ps)" and le: "\<forall>q \<in> set ps. fst q \<le> t"
    using snoc.prems(1) by (auto simp: sorted_append p)
  note IH = snoc.IH [OF ps]
  have step: "scanned since (ps @ [p]) = scan_sample since (scanned since ps) p" by (simp add: scanned_def)
  show ?case
  proof (cases "t < since")
    case True
    then have "?c = since" "cursor_after since (ps @ [p]) = since"
      using le by (cases ps rule: rev_cases; auto simp: cursor_after_def p)+
    then show ?thesis using IH True step by (simp add: scan_sample_def p outages_snoc)
  next
    case False
    then have c: "since \<le> ?c" "?c \<le> t" using le by (auto simp: cursor_after_def)
    have "time_down (ps @ [p]) since t = time_down ps since t"
      using snoc.prems by (intro time_down_cong) (simp add: state_at_snoc p)
    also have "\<dots> = time_down ps since ?c + time_down ps ?c t" using c by (rule time_down_split)
    also have "time_down ps ?c t = (if last_ok ps = Some False then t - ?c else 0)"
    proof (rule time_down_const [OF _ c(2)])
      fix x assume "?c \<le> x"
      then have "\<forall>q \<in> set ps. fst q \<le> x" using cursor_bounds [OF ps, of _ since] by fastforce
      with ps show "state_at ps x = last_ok ps" by (rule state_at_last)
    qed
    finally have "time_down (ps @ [p]) since t = time_down ps since ?c + (if last_ok ps = Some False then t - ?c else 0)" .
    moreover have "cursor_after since (ps @ [p]) = t" using False by (simp add: cursor_after_def p)
    ultimately show ?thesis using IH False c step by (simp add: scan_sample_def p outages_snoc)
  qed
qed

lemma downtime_of_sorted:
  assumes "sorted (map fst ps)" "\<forall>p \<in> set ps. fst p \<le> now" "since \<le> now"
  shows "(if ds_state (scanned since ps) = Some False
      then ds_downtime (scanned since ps) + max 0 (now - ds_cursor (scanned since ps)) else ds_downtime (scanned since ps))
    = time_down ps since now"
proof -
  let ?c = "cursor_after since ps"
  have c: "since \<le> ?c" "?c \<le> now" using assms(2,3) by (auto simp: cursor_after_def)
  have "time_down ps since now = time_down ps since ?c + time_down ps ?c now" using c by (rule time_down_split)
  also have "time_down ps ?c now = (if last_ok ps = Some False then now - ?c else 0)"
  proof (rule time_down_const [OF _ c(2)])
    fix x assume "?c \<le> x"
    then have "\<forall>q \<in> set ps. fst q \<le> x" using cursor_bounds [OF assms(1), of _ since] by fastforce
    with assms(1) show "state_at ps x = last_ok ps" by (rule state_at_last)
  qed
  finally show ?thesis using scan_prefix [OF assms(1), of since] c by simp
qed

lemma time_down_nonneg: "0 \<le> time_down ps a b"
  by (simp add: time_down_def)

lemma state_at_cut: "x \<le> now \<Longrightarrow> state_at (sort_key fst (filter (\<lambda>p. fst p \<le> now) ps)) x = state_at ps x"
proof -
  assume "x \<le> now"
  then have "filter (\<lambda>p. fst p \<le> x) (sort_key fst (filter (\<lambda>p. fst p \<le> now) ps)) = sort_key fst (filter (\<lambda>p. fst p \<le> x) ps)"
    by (simp add: filter_sort) (rule arg_cong [of _ _ "sort_key fst"], auto intro!: filter_cong)
  then show ?thesis by (simp add: state_at_def sort_key_id)
qed

lemma summary_measures:
  "dt_downtime_ms (computeDowntimeSummary samples since now windowMs)
     = min (max 0 windowMs) (time_down samples (min since now) now)
   \<and> dt_incidents (computeDowntimeSummary samples since now windowMs)
     = outages (min since now) None (sort_key fst (filter (\<lambda>p. fst p \<le> now) samples))"
proof -
  let ?ps = "sort_key fst (filter (\<lambda>p. fst p \<le> now) samples)"
  have s: "sorted (map fst ?ps)" "\<forall>p \<in> set ?ps. fst p \<le> now" by simp_all
  have "time_down ?ps (min since now) now = time_down samples (min since now) now"
    by (rule time_down_cong) (simp add: state_at_cut)
  with downtime_of_sorted [OF s, of "min since now"]
  have "dt_downtime_ms (computeDowntimeSummary samples since now windowMs)
     = max 0 (min (time_down samples (min since now) now) (max 0 windowMs))"
    unfolding computeDowntimeSummary_def Let_def scanned_def [symmetric] by simp
  moreover have "dt_incidents (computeDowntimeSummary samples since now windowMs)
     = outages (min since now) None ?ps"
    unfolding computeDowntimeSummary_def Let_def scanned_def [symmetric]
    using scan_prefix [OF s(1), of "min since now"] by simp
  ultimately show ?thesis using time_down_nonneg [of samples "min since now" now] by (simp add: min.commute)
qed

text \<open>
  The downtime of a summary is the time in the window at which the last sample was a failed one, cut
  to the length of the window, and the incidents are the failed samples in the window that follow a good
  one or none, for samples in any order.
\<close>
theorem downtime_is_time_spent_down:
  "dt_downtime_ms (computeDowntimeSummary samples since now windowMs)
     = min (max 0 windowMs) (time_down samples (min since now) now)
   \<and> dt_incidents (computeDowntimeSummary samples since now windowMs)
     = outages (min since now) None (sort_key fst (filter (\<lambda>p. fst p \<le> now) samples))"
  by (rule summary_measures)

end
