(* ===== verification/Downtime_Exact.thy ===== *)
theory Downtime_Exact imports Downtime begin

text \<open>
  The history keeps only the changes and a heartbeat of the probes, and the query of a summary only the
  rows of the window with the last one before it. Neither loses any downtime: after any number of health
  passes (\<open>src/scanner/health-state.ts\<close>) the summary of a service (\<open>src/scanner/downtime.ts\<close>) is that of
  all its probes.
\<close>

section \<open>Histories that say the same\<close>

text \<open>The rows of a service against its probes: in order, with the same state at every instant.\<close>

definition tells :: "sample list \<Rightarrow> sample list \<Rightarrow> bool" where
  "tells ks ps \<longleftrightarrow> sorted (map fst ks) \<and> sorted (map fst ps) \<and> (ks = [] \<longleftrightarrow> ps = []) \<and> last_ok ks = last_ok ps
     \<and> (\<forall>x. state_at ks x = state_at ps x) \<and> (\<forall>since now. outages since None (filter (\<lambda>p. fst p \<le> now) ks) = outages since None (filter (\<lambda>p. fst p \<le> now) ps))
     \<and> fst ` set ks \<subseteq> fst ` set ps"

lemma tells_Nil: "tells [] []"
  by (simp add: tells_def)

lemma outages_cut: "sorted (map fst (ps @ [p])) \<Longrightarrow>
  outages since None (filter (\<lambda>q. fst q \<le> now) (ps @ [p])) =
    (if fst p \<le> now then outages since None ps + (if since \<le> fst p \<and> \<not> snd p \<and> last_ok ps \<noteq> Some False then 1 else 0)
     else outages since None (filter (\<lambda>q. fst q \<le> now) ps))"
proof -
  assume s: "sorted (map fst (ps @ [p]))"
  have "filter (\<lambda>q. fst q \<le> now) ps = ps" if "fst p \<le> now"
    using s that by (intro filter_True) (fastforce simp: sorted_append)
  then show ?thesis by (simp add: outages_snoc)
qed

lemma tells_step:
  assumes t: "tells ks ps" and order: "sorted (map fst (ps @ [p]))" and kept: "\<not> keep \<Longrightarrow> last_ok ks = Some (snd p)"
  shows "tells (if keep then ks @ [p] else ks) (ps @ [p])"
proof -
  from t order have ks: "sorted (map fst (ks @ [p]))" by (fastforce simp: tells_def sorted_append)
  have all: "outages since None ks = outages since None ps" for since
  proof -
    let ?m = "Max (insert 0 (fst ` set ps))"
    have "fst q \<le> ?m" if "fst q \<in> fst ` set ps" for q using that by (intro Max_ge) auto
    moreover have "fst ` set ks \<subseteq> fst ` set ps" using t by (simp add: tells_def)
    ultimately have "\<forall>q \<in> set ps. fst q \<le> ?m" "\<forall>q \<in> set ks. fst q \<le> ?m" by blast+
    then have "filter (\<lambda>q. fst q \<le> ?m) ps = ps" "filter (\<lambda>q. fst q \<le> ?m) ks = ks" by (simp_all add: filter_id_conv)
    then show ?thesis using t unfolding tells_def by metis
  qed
  show ?thesis
  proof (cases keep)
    case True
    have "outages since None (filter (\<lambda>q. fst q \<le> now) (ks @ [p])) = outages since None (filter (\<lambda>q. fst q \<le> now) (ps @ [p]))" for since now
      unfolding outages_cut [OF ks] outages_cut [OF order] using t all by (simp add: tells_def)
    then show ?thesis using True t ks order by (auto simp: tells_def state_at_snoc)
  next
    case False
    then have same: "last_ok ps = Some (snd p)" using t kept by (simp add: tells_def)
    have "state_at (ps @ [p]) x = state_at ps x" for x
    proof (cases "fst p \<le> x")
      case True
      then have "\<forall>q \<in> set ps. fst q \<le> x" using order by (fastforce simp: sorted_append)
      then show ?thesis using True order same state_at_last [of ps x] by (simp add: state_at_snoc sorted_append)
    qed (use order in \<open>simp add: state_at_snoc\<close>)
    moreover have "outages since None (filter (\<lambda>q. fst q \<le> now) (ps @ [p])) = outages since None (filter (\<lambda>q. fst q \<le> now) ps)" for since now
    proof (cases "fst p \<le> now")
      case True
      then have "filter (\<lambda>q. fst q \<le> now) ps = ps" using order by (intro filter_True) (fastforce simp: sorted_append)
      then show ?thesis using True order same by (simp add: outages_snoc)
    qed simp
    ultimately show ?thesis using False t order kept same by (auto simp: tells_def last_ok_def split: if_splits)
  qed
qed

text \<open>The window of a summary: the last row before it carries the state.\<close>

lemma newest_last: "sorted (map key rs) \<Longrightarrow> newest key rs = (if rs = [] then None else Some (last rs))"
proof (induction rs)
  case (Cons r rs)
  then show ?case by (cases rs rule: rev_cases) (auto simp: sorted_append)
qed simp

lemma window_rows_sorted:
  assumes "sorted (map lr_at rows)"
  shows "window_rows since rows =
    (case filter (\<lambda>r. lr_at r < since) rows of [] \<Rightarrow> [] | r # rs \<Rightarrow> [last (r # rs)]) @ filter (\<lambda>r. lr_at r \<ge> since) rows"
proof -
  have s: "sorted (map lr_at (filter P rows))" for P using assms by (rule sorted_filter)
  have before: "(case newest lr_at (filter (\<lambda>r. lr_at r < since) rows) of None \<Rightarrow> [] | Some r \<Rightarrow> [r]) =
      (case filter (\<lambda>r. lr_at r < since) rows of [] \<Rightarrow> [] | r # rs \<Rightarrow> [last (r # rs)])"
    using newest_last [OF s] by (simp split: list.split)
  have "sorted (map lr_at ((case filter (\<lambda>r. lr_at r < since) rows of [] \<Rightarrow> [] | r # rs \<Rightarrow> [last (r # rs)]) @ filter (\<lambda>r. lr_at r \<ge> since) rows))"
  proof (cases "filter (\<lambda>r. lr_at r < since) rows")
    case (Cons r rs)
    then have "last (r # rs) \<in> set (filter (\<lambda>r. lr_at r < since) rows)" by (metis last_in_set list.distinct(1))
    then have "lr_at (last (r # rs)) < since" by simp
    then show ?thesis using Cons s by (force simp: sorted_append)
  qed (use s in simp)
  then show ?thesis unfolding window_rows_def before by (rule sort_key_id)
qed


text \<open>Reduced to the window, the rows still tell the state and the outages of the window.\<close>

lemma outages_before: "\<forall>p \<in> set ps. fst p < since \<Longrightarrow> outages since prev ps = 0"
  by (induction ps arbitrary: prev) auto

lemma cut_outages:
  assumes "\<forall>p \<in> set pre. fst p < since" "fst b < since" "\<forall>p \<in> set post. since \<le> fst p"
  shows "outages since None (filter (\<lambda>p. fst p \<le> now) (b # post)) = outages since None (filter (\<lambda>p. fst p \<le> now) (pre @ b # post))"
proof (cases "fst b \<le> now")
  case True
  have "outages since None (filter (\<lambda>p. fst p \<le> now) (pre @ b # post)) =
      outages since None (filter (\<lambda>p. fst p \<le> now) pre @ [b]) + outages since (Some (snd b)) (filter (\<lambda>p. fst p \<le> now) post)"
    using True outages_append [of since None "filter (\<lambda>p. fst p \<le> now) pre @ [b]" "filter (\<lambda>p. fst p \<le> now) post"] by simp
  also have "outages since None (filter (\<lambda>p. fst p \<le> now) pre @ [b]) = 0" using assms by (intro outages_before) auto
  finally show ?thesis using True assms(2) by simp
next
  case False
  then have "filter (\<lambda>p. fst p \<le> now) post = []" using assms(2,3) by (auto simp: filter_empty_conv)
  moreover have "outages since None (filter (\<lambda>p. fst p \<le> now) pre) = 0" using assms(1) by (intro outages_before) auto
  ultimately show ?thesis using False by simp
qed

lemma cut_state: "fst b \<le> x \<Longrightarrow> last_ok (filter (\<lambda>p. fst p \<le> x) (b # post)) = last_ok (filter (\<lambda>p. fst p \<le> x) (pre @ b # post))"
  by (simp add: last_ok_def)

lemma split_rows: "sorted (map key rows) \<Longrightarrow> rows = filter (\<lambda>r. key r < since) rows @ filter (\<lambda>r. since \<le> key r) rows"
  for since :: ms
proof (induction rows)
  case (Cons r rows)
  show ?case
  proof (cases "key r < since")
    case False
    then have "filter (\<lambda>r. key r < since) rows = []" "filter (\<lambda>r. since \<le> key r) rows = rows"
      using Cons.prems by (auto simp: filter_empty_conv filter_id_conv)
    then show ?thesis using False by simp
  qed (use Cons in auto)
qed simp

lemma window_tells:
  fixes since :: ms
  assumes "sorted (map lr_at rows)"
  defines "ws \<equiv> map sample_of (window_rows since rows)" and "ks \<equiv> map sample_of rows"
  shows "sorted (map fst ws)" "ws = [] \<longleftrightarrow> ks = []" "since \<le> x \<Longrightarrow> state_at ws x = state_at ks x"
    "outages since None (filter (\<lambda>p. fst p \<le> now) ws) = outages since None (filter (\<lambda>p. fst p \<le> now) ks)"
proof -
  have fst: "fst \<circ> sample_of = lr_at" by (simp add: fun_eq_iff sample_of_def)
  show sorted: "sorted (map fst ws)" unfolding ws_def window_rows_def by (simp add: fst)
  have ks: "sorted (map fst ks)" using assms(1) by (simp add: ks_def fst)
  let ?I = "filter (\<lambda>r. since \<le> lr_at r) rows"
  have split: "rows = filter (\<lambda>r. lr_at r < since) rows @ ?I" using assms(1) by (rule split_rows)
  have all: "(ws = [] \<longleftrightarrow> ks = []) \<and> (since \<le> x \<longrightarrow> state_at ws x = state_at ks x)
    \<and> outages since None (filter (\<lambda>p. fst p \<le> now) ws) = outages since None (filter (\<lambda>p. fst p \<le> now) ks)"
  proof (cases "filter (\<lambda>r. lr_at r < since) rows" rule: rev_cases)
    case Nil
    then have "window_rows since rows = rows" using split window_rows_sorted [OF assms(1), of since] by simp
    then show ?thesis by (simp add: ws_def ks_def)
  next
    case (snoc pre b)
    then have b: "lr_at b < since" and pre: "\<forall>r \<in> set pre. lr_at r < since"
      using filter_eq_ConsD [of "\<lambda>r. lr_at r < since" rows] set_filter [of "\<lambda>r. lr_at r < since" rows] by auto
    have "window_rows since rows = b # ?I" using snoc window_rows_sorted [OF assms(1), of since] by (cases pre) auto
    then have ws: "ws = sample_of b # map sample_of ?I" by (simp add: ws_def)
    have ks': "ks = map sample_of pre @ sample_of b # map sample_of ?I" 
      using arg_cong [OF split [unfolded snoc], of "map sample_of"] by (simp add: ks_def)
    have "since \<le> x \<longrightarrow> state_at ws x = state_at ks x"
      unfolding state_at_sorted [OF sorted] state_at_sorted [OF ks] unfolding ws ks'
      using b cut_state [of "sample_of b" x] by (auto simp: sample_of_def [of b])
    moreover have "outages since None (filter (\<lambda>p. fst p \<le> now) ws) = outages since None (filter (\<lambda>p. fst p \<le> now) ks)"
      unfolding ws ks' using b pre by (intro cut_outages) (auto simp: sample_of_def)
    ultimately show ?thesis using ws ks' by simp
  qed
  then show "ws = [] \<longleftrightarrow> ks = []" "since \<le> x \<Longrightarrow> state_at ws x = state_at ks x"
    "outages since None (filter (\<lambda>p. fst p \<le> now) ws) = outages since None (filter (\<lambda>p. fst p \<le> now) ks)" by blast+
qed

section \<open>The rows of a service through the passes\<close>

definition history_wf :: "live_db \<Rightarrow> bool" where
  "history_wf d \<longleftrightarrow> distinct (map sr_id (ld_services d)) \<and> distinct (map sr_code (ld_services d))
     \<and> distinct (map ir_id (ld_instances d)) \<and> distinct (map ir_service (ld_instances d))
     \<and> lr_instance ` set (ld_history d) \<subseteq> ir_id ` set (ld_instances d)"

definition inst :: "service_row \<Rightarrow> live_db \<Rightarrow> string option" where
  "inst s d = map_option ir_id (find_key ir_service (sr_id s) (ld_instances d))"

lemma one_instance: "distinct (map ir_service is) \<Longrightarrow>
  i \<in> ir_id ` set (filter (\<lambda>r. ir_service r = sid) is) \<longleftrightarrow> map_option ir_id (find_key ir_service sid is) = Some i"
  by (induction "is") (auto simp: image_iff)

lemma service_rows_inst:
  "history_wf d \<Longrightarrow> service_rows s d = filter (\<lambda>r. inst s d = Some (lr_instance r)) (ld_history d)"
proof -
  assume wf: "history_wf d"
  then have "distinct (map ir_service (ld_instances d))" by (simp add: history_wf_def)
  then have "lr_instance r \<in> ir_id ` set (filter (\<lambda>i. ir_service i = sr_id s) (ld_instances d)) \<longleftrightarrow> inst s d = Some (lr_instance r)" for r
    unfolding inst_def by (rule one_instance)
  then show ?thesis unfolding service_rows_def by (intro filter_cong) simp_all
qed


lemma ids_of_service: "history_wf d \<Longrightarrow> s \<in> set (ld_services d) \<Longrightarrow> service_ids (sr_code s) d = [sr_id s]"
proof -
  have "distinct (map sr_code ss) \<Longrightarrow> s \<in> set ss \<Longrightarrow> filter (\<lambda>t. sr_code t = sr_code s) ss = [s]" for ss
  proof (induction ss)
    case (Cons a ss)
    have "filter (\<lambda>t. sr_code t = sr_code a) ss = []" 
      using Cons.prems(1) by (auto simp: filter_empty_conv) (metis imageI)
    then show ?case using Cons by (cases "a = s") auto
  qed simp
  then show "history_wf d \<Longrightarrow> s \<in> set (ld_services d) \<Longrightarrow> service_ids (sr_code s) d = [sr_id s]"
    by (simp add: history_wf_def service_ids_def)
qed

text \<open>The instances a mark leaves behind: one more if the service had none, and otherwise the same keys.\<close>

definition unused :: "(live_instance list \<Rightarrow> string) \<Rightarrow> bool" where
  "unused new_id \<longleftrightarrow> (\<forall>rows. new_id rows \<notin> ir_id ` set rows)"

definition prepared :: "(live_instance list \<Rightarrow> string) \<Rightarrow> code \<Rightarrow> ms \<Rightarrow> health_result \<Rightarrow> live_db \<Rightarrow> live_db" where
  "prepared new_id c now r d =
     on_instances c (\<lambda>i. (put_state (if hr_ok r then InstanceRunning else InstanceStopped) now i)\<lparr>ir_version := hr_version r\<rparr>)
       (ensure_instances new_id c now d)"

lemma prepared_keys:
  assumes "history_wf d" "s \<in> set (ld_services d)"
  shows "map (\<lambda>i. (ir_id i, ir_service i)) (ld_instances (prepared new_id (sr_code s) now r d)) =
      map (\<lambda>i. (ir_id i, ir_service i)) (ld_instances d) @ (if inst s d = None then [(new_id (ld_instances d), sr_id s)] else [])"
    and "ld_services (prepared new_id (sr_code s) now r d) = ld_services d"
    and "ld_history (prepared new_id (sr_code s) now r d) = ld_history d"
proof -
  have "inst s d = None \<longleftrightarrow> sr_id s \<notin> ir_service ` set (ld_instances d)" by (simp add: inst_def find_key_None)
  then show "map (\<lambda>i. (ir_id i, ir_service i)) (ld_instances (prepared new_id (sr_code s) now r d)) =
      map (\<lambda>i. (ir_id i, ir_service i)) (ld_instances d) @ (if inst s d = None then [(new_id (ld_instances d), sr_id s)] else [])"
    using ids_of_service [OF assms] by (auto simp: prepared_def on_instances_def ensure_instances_def put_state_def comp_def)
qed (simp_all add: prepared_def on_instances_def ensure_instances_def)

lemma keys_find: "map (\<lambda>i. (ir_id i, ir_service i)) is = ks \<Longrightarrow>
  map_option ir_id (find_key ir_service sid is) = map_option fst (find_key snd sid ks)"
  by (induction "is" arbitrary: ks) auto

lemma prepared_inst:
  assumes "history_wf d" "s \<in> set (ld_services d)" "t \<in> set (ld_services d)"
  shows "inst t (prepared new_id (sr_code s) now r d) =
    (if t = s \<and> inst s d = None then Some (new_id (ld_instances d)) else inst t d)"
proof -
  have "sr_id t = sr_id s \<longleftrightarrow> t = s" using assms by (auto simp: history_wf_def distinct_map dest: inj_onD)
  moreover have "inst t (prepared new_id (sr_code s) now r d) =
      (case inst t d of None \<Rightarrow> if inst s d = None \<and> sr_id t = sr_id s then Some (new_id (ld_instances d)) else None | Some i \<Rightarrow> Some i)"
    using prepared_keys(1) [OF assms(1,2), of new_id now r, THEN keys_find, of "sr_id t"] keys_find [OF refl, of "sr_id t" "ld_instances d"]
    by (simp add: inst_def [of t] find_key_append split: option.split)
  ultimately show ?thesis by (cases "t = s") (simp_all split: option.split)
qed

lemma prepared_wf:
  assumes "history_wf d" "s \<in> set (ld_services d)" "unused new_id"
  shows "history_wf (prepared new_id (sr_code s) now r d)"
proof -
  let ?d = "prepared new_id (sr_code s) now r d"
  have "map ir_id (ld_instances ?d) = map ir_id (ld_instances d) @ (if inst s d = None then [new_id (ld_instances d)] else [])"
    "map ir_service (ld_instances ?d) = map ir_service (ld_instances d) @ (if inst s d = None then [sr_id s] else [])"
    using arg_cong [OF prepared_keys(1) [OF assms(1,2), of new_id now r], of "map fst"]
      arg_cong [OF prepared_keys(1) [OF assms(1,2), of new_id now r], of "map snd"] by (simp_all add: comp_def split: if_splits)
  moreover from this(1) have "ir_id ` set (ld_instances d) \<subseteq> ir_id ` set (ld_instances ?d)"
    by (metis Un_upper1 list.set_map set_append)
  moreover have "sr_id s \<notin> ir_service ` set (ld_instances d)" if "inst s d = None"
    using that by (simp add: inst_def find_key_None)
  moreover have "new_id (ld_instances d) \<notin> ir_id ` set (ld_instances d)" using assms(3) by (simp add: unused_def)
  ultimately show ?thesis using assms(1) unfolding history_wf_def prepared_keys(2,3) [OF assms(1,2)]
    by (intro conjI; auto simp del: set_map simp flip: set_map split: if_splits)
qed


text \<open>A mark adds at most a row to its own service, and keeps the rows of the others.\<close>

definition marked_row :: "string \<Rightarrow> ms \<Rightarrow> health_result \<Rightarrow> liveness_row" where
  "marked_row i now r = \<lparr>lr_instance = i, lr_at = now, lr_ok = hr_ok r, lr_reason = hr_reason r, lr_detail = hr_detail r\<rparr>"

definition keeps_row :: "liveness_row list \<Rightarrow> ms \<Rightarrow> ms \<Rightarrow> health_result \<Rightarrow> bool" where
  "keeps_row rows now hb r = shouldRecordLiveness (map_option (\<lambda>r. (lr_ok r, lr_at r)) (newest lr_at rows)) (hr_ok r) now hb"

lemma instance_of_inst: "history_wf d \<Longrightarrow> s \<in> set (ld_services d) \<Longrightarrow> instance_of (sr_code s) d = inst s d"
  by (simp add: instance_of_def inst_def find_key_def ids_of_service)

lemma rows_of_new:
  assumes "history_wf d" "unused new_id"
  shows "filter (\<lambda>r. new_id (ld_instances d) = lr_instance r) (ld_history d) = []"
  using assms by (auto simp: history_wf_def unused_def filter_empty_conv) (metis image_eqI subsetD)

lemma mark_service:
  fixes now hb :: ms and r :: health_result
  assumes wf: "history_wf d" and s: "s \<in> set (ld_services d)" and new: "unused new_id"
  defines "d' \<equiv> fst (markServiceHealth new_id now hb (sr_code s) r d)"
  shows "history_wf d' \<and> ld_services d' = ld_services d
    \<and> (\<exists>i. service_rows s d' = service_rows s d @ (if keeps_row (service_rows s d) now hb r then [marked_row i now r] else []))
    \<and> (\<forall>t \<in> set (ld_services d) - {s}. service_rows t d' = service_rows t d)"
proof -
  let ?p = "prepared new_id (sr_code s) now r d"
  note p = prepared_wf [OF wf s new, of now r] and keys = prepared_keys(2,3) [OF wf s, of new_id now r]
  obtain i where i: "inst s ?p = Some i" "inst s d = None \<Longrightarrow> i = new_id (ld_instances d)" "inst s d \<noteq> None \<Longrightarrow> inst s d = Some i"
    using prepared_inst [OF wf s s, of new_id now r] by (cases "inst s d") auto
  have rows: "filter (\<lambda>r. lr_instance r = i) (ld_history d) = service_rows s d"
  proof (cases "inst s d")
    case None
    then show ?thesis using i(2) rows_of_new [OF wf new] service_rows_inst [OF wf, of s] by (simp add: eq_commute)
  next
    case (Some j)
    then have "inst s d = Some i" using i(3) by simp
    then show ?thesis unfolding service_rows_inst [OF wf] by (intro filter_cong) auto
  qed
  let ?k = "keeps_row (service_rows s d) now hb r"
  have d': "d' = ?p\<lparr>ld_history := ld_history d @ (if ?k then [marked_row i now r] else [])\<rparr>"
    using i(1) instance_of_inst [OF p, of s] s rows keys
    by (auto simp: d'_def markServiceHealth_def prepared_def [symmetric] Let_def readLatestLiveness_def keeps_row_def marked_row_def
        option.map_comp comp_def)
  have "i \<in> ir_id ` set (ld_instances ?p)" using i(1) by (auto simp: inst_def dest: find_key_SomeD)
  then have wf': "history_wf d'" using p keys by (auto simp: d' history_wf_def marked_row_def)
  have other: "inst t d = inst t ?p" if "t \<in> set (ld_services d) - {s}" for t
    using prepared_inst [OF wf s, of t new_id now r] that by simp
  have "inst t ?p \<noteq> Some i" if "t \<in> set (ld_services d) - {s}" for t
    using that i(1) p keys s wf by (auto simp: inst_def history_wf_def distinct_map dest!: find_key_SomeD) (metis inj_onD)
  then have "inst t d \<noteq> Some i" if "t \<in> set (ld_services d) - {s}" for t using that other by simp
  moreover have inst': "inst t d' = inst t d" if "t \<in> set (ld_services d) - {s}" for t
    using other [OF that] by (simp add: d' inst_def)
  moreover have rows': "ld_history d' = ld_history d @ (if ?k then [marked_row i now r] else [])" by (simp add: d')
  ultimately have "service_rows t d' = service_rows t d" if "t \<in> set (ld_services d) - {s}" for t
    using that by (simp add: service_rows_inst [OF wf'] service_rows_inst [OF wf] rows' inst' marked_row_def)
  moreover have inst'': "inst s d' = Some i" using i(1) by (simp add: d' inst_def)
  moreover have "service_rows s d' = service_rows s d @ (if ?k then [marked_row i now r] else [])"
    unfolding service_rows_inst [OF wf'] rows' inst'' filter_append
    by (simp add: rows [symmetric] marked_row_def eq_commute)
  ultimately show ?thesis using wf' keys by (auto simp: d')
qed

lemma mark_unknown:
  assumes "c \<notin> sr_code ` set (ld_services d)"
  shows "fst (markServiceHealth new_id now hb c r d) = d"
proof -
  have "service_ids c d = []" using assms by (auto simp: service_ids_def filter_empty_conv)
  moreover from this have "prepared new_id c now r d = d" by (simp add: prepared_def on_instances_def ensure_instances_def)
  moreover from \<open>service_ids c d = []\<close> have "instance_of c d = None" by (simp add: instance_of_def find_None_iff)
  ultimately show ?thesis unfolding markServiceHealth_def Let_def prepared_def [symmetric] by simp
qed


section \<open>All passes\<close>

text \<open>What a pass finds out about a service, and the probes of several passes.\<close>

definition probe_of :: "code \<Rightarrow> health_pass \<Rightarrow> health_result option" where
  "probe_of c p = (if c \<in> fst ` set (hp_services p)
     then (case hp_results p c of Some r \<Rightarrow> if hr_reason r = NotConfigured then None else Some r | None \<Rightarrow> None) else None)"

definition probes :: "code \<Rightarrow> health_pass list \<Rightarrow> sample list" where
  "probes c ps = concat (map (\<lambda>p. case probe_of c p of None \<Rightarrow> [] | Some r \<Rightarrow> [(hp_now p, hr_ok r)]) ps)"

lemma observations_Cons: "observations_of ((c, name) # services) results =
  (case results c of None \<Rightarrow> [] | Some r \<Rightarrow> if hr_reason r = NotConfigured then []
     else [\<lparr>ob_code = c, ob_name = name, ob_ok = hr_ok r, ob_reason = hr_reason r, ob_detail = hr_detail r\<rparr>]) @ observations_of services results"
  by (simp add: observations_of_def)

lemma observations_Nil [simp]: "observations_of [] results = []"
  by (simp add: observations_of_def)

lemma observed_codes_subset: "ob_code ` set (observations_of services results) \<subseteq>
    {c \<in> fst ` set services. \<exists>r. results c = Some r \<and> hr_reason r \<noteq> NotConfigured}"
proof (induction services)
  case (Cons x services)
  then show ?case by (cases x) (force simp: observations_Cons split: option.splits if_splits)
qed simp

lemma observed: "map_option (\<lambda>ob. the (results (ob_code ob))) (find_key ob_code c (observations_of services results)) =
  (if c \<in> fst ` set services then (case results c of Some r \<Rightarrow> if hr_reason r = NotConfigured then None else Some r | None \<Rightarrow> None) else None)"
proof (induction services)
  case (Cons x services)
  obtain d name where x: "x = (d, name)" by fastforce
  show ?case
  proof (cases "d = c")
    case True
    show ?thesis
    proof (cases "results c")
      case None
      then have "find_key ob_code c (observations_of services results) = None"
        using observed_codes_subset [of services results] by (auto simp: find_key_None)
      then show ?thesis using None x True by (simp add: observations_Cons)
    next
      case (Some r)
      show ?thesis
      proof (cases "hr_reason r = NotConfigured")
        case True
        then have "find_key ob_code c (observations_of services results) = None"
          using observed_codes_subset [of services results] Some by (auto simp: find_key_None)
        then show ?thesis using Some x \<open>d = c\<close> True by (simp add: observations_Cons)
      qed (use Some x True in \<open>simp add: observations_Cons\<close>)
    qed
  next
    case False
    then have "find_key ob_code c (observations_of (x # services) results) = find_key ob_code c (observations_of services results)"
      by (simp add: x observations_Cons split: option.split)
    then show ?thesis using Cons False x by auto
  qed
qed simp

lemma observed_codes: "distinct (map fst services) \<Longrightarrow> distinct (map ob_code (observations_of services results))"
proof (induction services)
  case (Cons x services)
  have "fst x \<notin> ob_code ` set (observations_of services results)"
    using observed_codes_subset [of services results] Cons.prems by auto
  then show ?case using Cons by (cases x) (auto simp: observations_Cons split: option.split)
qed simp

lemma mark_each_rows:
  fixes now hb :: ms and results :: "code \<Rightarrow> health_result option"
  assumes "unused new_id" "history_wf d" "distinct (map ob_code obs)" "s \<in> set (ld_services d)"
  defines "d' \<equiv> mark_each new_id now hb results obs d"
  shows "history_wf d' \<and> ld_services d' = ld_services d \<and> (\<exists>i. service_rows s d' = service_rows s d @
    (case map_option (\<lambda>ob. the (results (ob_code ob))) (find_key ob_code (sr_code s) obs) of None \<Rightarrow> []
     | Some r \<Rightarrow> if keeps_row (service_rows s d) now hb r then [marked_row i now r] else []))"
  using assms(2-4) unfolding d'_def
proof (induction obs arbitrary: d)
  case (Cons ob obs)
  let ?r = "the (results (ob_code ob))"
  let ?d = "fst (markServiceHealth new_id now hb (ob_code ob) ?r d)"
  show ?case
  proof (cases "ob_code ob \<in> sr_code ` set (ld_services d)")
    case False
    then have "?d = d" "ob_code ob \<noteq> sr_code s" using Cons.prems mark_unknown by (metis, auto)
    then show ?thesis using Cons by simp
  next
    case True
    then obtain t where t: "t \<in> set (ld_services d)" "ob_code ob = sr_code t" by auto
    note m = mark_service [OF Cons.prems(1) t(1) assms(1), of now hb ?r, folded t(2)]
    have IH: "history_wf (mark_each new_id now hb results obs ?d) \<and> ld_services (mark_each new_id now hb results obs ?d) = ld_services ?d
      \<and> (\<exists>i. service_rows s (mark_each new_id now hb results obs ?d) = service_rows s ?d @
        (case map_option (\<lambda>ob. the (results (ob_code ob))) (find_key ob_code (sr_code s) obs) of None \<Rightarrow> []
         | Some r \<Rightarrow> if keeps_row (service_rows s ?d) now hb r then [marked_row i now r] else []))"
      using Cons.prems m by (intro Cons.IH) auto
    show ?thesis
    proof (cases "t = s")
      case True
      have "find_key ob_code (sr_code s) obs = None" using Cons.prems(2) t(2) True by (auto simp: find_key_None)
      then show ?thesis using IH m True t(2) by auto
    next
      case False
      then have "sr_code t \<noteq> sr_code s" using Cons.prems t by (auto simp: history_wf_def distinct_map dest: inj_onD)
      then have other: "find_key ob_code (sr_code s) (ob # obs) = find_key ob_code (sr_code s) obs" using t(2) by simp
      have "service_rows s ?d = service_rows s d" "ld_services ?d = ld_services d" using m False Cons.prems(3) by blast+
      from IH [unfolded this] show ?thesis unfolding other mark_each.simps .
    qed
  qed
qed simp

lemma newest_sample: "newest lr_at rows = Some r \<Longrightarrow> sorted (map lr_at rows) \<Longrightarrow> last_ok (map sample_of rows) = Some (lr_ok r)"
  by (auto simp: newest_last last_ok_def last_map sample_of_def split: if_splits)

lemma passes_tell:
  assumes "unused new_id" "history_wf d0" "s \<in> set (ld_services d0)" "ld_history d0 = []"
    "sorted (map hp_now ps)" "\<forall>p \<in> set ps. distinct (map fst (hp_services p))"
  shows "history_wf (run_passes new_id ps d0) \<and> ld_services (run_passes new_id ps d0) = ld_services d0
    \<and> tells (map sample_of (service_rows s (run_passes new_id ps d0))) (probes (sr_code s) ps)
    \<and> fst ` set (probes (sr_code s) ps) \<subseteq> hp_now ` set ps"
  using assms(5,6)
proof (induction ps rule: rev_induct)
  case Nil
  then show ?case using assms by (simp add: run_passes_def probes_def tells_Nil service_rows_def)
next
  case (snoc p ps)
  let ?d = "run_passes new_id ps d0" and ?rows = "service_rows s (run_passes new_id ps d0)"
  have IH: "history_wf ?d" "ld_services ?d = ld_services d0" "tells (map sample_of ?rows) (probes (sr_code s) ps)"
    "fst ` set (probes (sr_code s) ps) \<subseteq> hp_now ` set ps" using snoc by (auto simp: sorted_append)
  let ?obs = "observations_of (hp_services p) (hp_results p)"
  have step: "run_passes new_id (ps @ [p]) d0 = mark_each new_id (hp_now p) (hp_heartbeatMs p) (hp_results p) ?obs ?d"
    by (simp add: run_passes_def syncHealthyServiceStates_def Let_def)
  have "map_option (\<lambda>ob. the (hp_results p (ob_code ob))) (find_key ob_code (sr_code s) ?obs) = probe_of (sr_code s) p"
    unfolding observed probe_of_def ..
  with mark_each_rows [OF assms(1) IH(1), of ?obs s "hp_now p" "hp_heartbeatMs p" "hp_results p"] observed_codes snoc.prems(2) assms(3) IH(2)
  obtain i where d: "history_wf (run_passes new_id (ps @ [p]) d0)" "ld_services (run_passes new_id (ps @ [p]) d0) = ld_services d0"
    "service_rows s (run_passes new_id (ps @ [p]) d0) = ?rows @ (case probe_of (sr_code s) p of None \<Rightarrow> []
       | Some r \<Rightarrow> if keeps_row ?rows (hp_now p) (hp_heartbeatMs p) r then [marked_row i (hp_now p) r] else [])"
    by (auto simp: step)
  have "tells (map sample_of (service_rows s (run_passes new_id (ps @ [p]) d0))) (probes (sr_code s) (ps @ [p]))"
  proof (cases "probe_of (sr_code s) p")
    case None
    then show ?thesis using d(3) IH(3) by (simp add: probes_def)
  next
    case (Some r)
    let ?q = "(hp_now p, hr_ok r)" and ?keep = "keeps_row ?rows (hp_now p) (hp_heartbeatMs p) r"
    have P: "probes (sr_code s) (ps @ [p]) = probes (sr_code s) ps @ [?q]" using Some by (simp add: probes_def)
    have "fst \<circ> sample_of = lr_at" by (simp add: fun_eq_iff sample_of_def)
    then have rows: "sorted (map lr_at ?rows)" using IH(3) by (simp add: tells_def)
    have "sorted (map fst (probes (sr_code s) ps @ [?q]))"
      using IH(3,4) snoc.prems(1) by (fastforce simp: tells_def sorted_append)
    moreover have "last_ok (map sample_of ?rows) = Some (snd ?q)" if "\<not> ?keep"
      using that newest_sample [OF _ rows] by (auto simp: keeps_row_def shouldRecordLiveness_def split: option.splits)
    ultimately have "tells (if ?keep then map sample_of ?rows @ [?q] else map sample_of ?rows) (probes (sr_code s) ps @ [?q])"
      using tells_step [OF IH(3), of ?q ?keep] by blast
    then show ?thesis using d(3) P Some by (simp add: marked_row_def sample_of_def split: if_splits)
  qed
  moreover have "fst ` set (probes (sr_code s) (ps @ [p])) \<subseteq> hp_now ` set (ps @ [p])"
    using IH(4) by (auto simp: probes_def split: option.splits)
  ultimately show ?case using d by blast
qed


text \<open>Every row a service has in the window makes a summary of it.\<close>

lemma summary_found:
  assumes "distinct (map sr_code ss)" "s \<in> set ss"
  shows "find_key fst (sr_code s) (concat (map (\<lambda>t. if P t then [(sr_code t, f t)] else []) ss)) =
    (if P s then Some (sr_code s, f s) else None)"
  using assms
proof (induction ss)
  case (Cons t ss)
  have none: "find_key fst (sr_code t) (concat (map (\<lambda>t. if P t then [(sr_code t, f t)] else []) ss)) = None"
    using Cons.prems(1) by (auto simp: find_key_None split: if_splits)
  show ?case
  proof (cases "t = s")
    case True
    then show ?thesis using none by simp
  next
    case False
    then have "sr_code t \<noteq> sr_code s" using Cons.prems by auto
    then show ?thesis using Cons False by simp
  qed
qed simp

definition empty_history :: "service_row list \<Rightarrow> live_db" where
  "empty_history services = \<lparr>ld_services = services, ld_instances = [], ld_history = []\<rparr>"

text \<open>
  C18. After any health passes of growing time, the queried summary of an active service that was probed
  has the downtime and the incidents of all its probes, although the history keeps a row only for a
  change or after the heartbeat, and the query reads only the window and the row before it.
\<close>
theorem thinned_history_tells_downtime:
  assumes "unused new_id" "distinct (map sr_id services)" "distinct (map sr_code services)"
    "s \<in> set services" "sr_active s" "sorted (map hp_now ps)" "list_all (\<lambda>p. distinct (map fst (hp_services p))) ps"
    "probes (sr_code s) ps \<noteq> []" "since \<le> now"
  shows "\<exists>r. find_key fst (sr_code s) (queryDowntimeSummaries [sr_code s] since now windowMs
        (run_passes new_id ps (empty_history services))) = Some (sr_code s, r)
    \<and> dt_downtime_ms r = min (max 0 windowMs) (time_down (probes (sr_code s) ps) since now)
    \<and> dt_incidents r = outages since None (filter (\<lambda>p. fst p \<le> now) (probes (sr_code s) ps))"
proof -
  let ?d = "run_passes new_id ps (empty_history services)" and ?P = "probes (sr_code s) ps"
  have "history_wf (empty_history services)" using assms(2,3) by (simp add: history_wf_def empty_history_def)
  from passes_tell [OF assms(1) this, of s ps] assms(4,6,7)
  have wf: "history_wf ?d" "ld_services ?d = services" and tells: "tells (map sample_of (service_rows s ?d)) ?P"
    by (auto simp: empty_history_def list_all_iff)
  have fst: "fst \<circ> sample_of = lr_at" by (simp add: fun_eq_iff sample_of_def)
  have rows: "sorted (map lr_at (service_rows s ?d))" using tells by (simp add: tells_def fst)
  let ?ws = "map sample_of (window_rows since (service_rows s ?d))"
  note w = window_tells [OF rows, of since]
  have ne: "window_rows since (service_rows s ?d) \<noteq> []" using w(2) tells assms(8) by (simp add: tells_def)
  have "find_key fst (sr_code s) (queryDowntimeSummaries [sr_code s] since now windowMs ?d) =
      Some (sr_code s, computeDowntimeSummary ?ws since now windowMs)"
    unfolding queryDowntimeSummaries_def Let_def wf(2)
    using summary_found [of "sort_key sr_code services" s "\<lambda>t. sr_active t \<and> sr_code t \<in> set [sr_code s] \<and> window_rows since (service_rows t ?d) \<noteq> []"
      "\<lambda>t. computeDowntimeSummary (map sample_of (window_rows since (service_rows t ?d))) since now windowMs"] assms(3,4,5) ne
    by (simp add: distinct_map)
  moreover have "time_down ?ws since now = time_down ?P since now"
    using w(3) tells by (intro time_down_cong) (simp add: tells_def)
  moreover have "sort_key fst (filter (\<lambda>p. fst p \<le> now) ?ws) = filter (\<lambda>p. fst p \<le> now) ?ws"
    using w(1) by (intro sort_key_id sorted_filter)
  ultimately show ?thesis
    using summary_measures [of ?ws since now windowMs] w(4) [of now] tells assms(9)
    by (simp add: tells_def min_absorb1)
qed


definition long_id :: "live_instance list \<Rightarrow> string" where
  "long_id rows = ''i'' @ concat (map ir_id rows)"

lemma unused_long_id: "unused long_id"
proof -
  have "length (ir_id r) \<le> length (concat (map ir_id rows))" if "r \<in> set rows" for r rows
    using that by (induction rows) auto
  then show ?thesis by (fastforce simp: unused_def long_id_def dest!: arg_cong [of _ _ length])
qed

definition demo_pass :: "ms \<Rightarrow> bool \<Rightarrow> health_pass" where
  "demo_pass t ok = \<lparr>hp_now = t, hp_heartbeatMs = 100, hp_services = [(''a'', ''A'')],
     hp_results = (\<lambda>_. Some \<lparr>hr_ok = ok, hr_reason = ByHttp, hr_detail = None, hr_version = None\<rparr>)\<rparr>"

definition demo_passes :: "health_pass list" where
  "demo_passes = [demo_pass 0 True, demo_pass 10 True, demo_pass 20 False, demo_pass 30 False, demo_pass 40 True]"

definition demo_services :: "service_row list" where
  "demo_services = [\<lparr>sr_id = ''s'', sr_code = ''a'', sr_active = True\<rparr>]"

text \<open>Five probes leave three rows; in the window one outage began.\<close>

lemma thinned_history_tells_downtime_witness:
  "map sample_of (ld_history (run_passes long_id demo_passes (empty_history demo_services))) = [(0, True), (20, False), (40, True)]
   \<and> (\<exists>r. find_key fst ''a'' (queryDowntimeSummaries [''a''] 15 35 20 (run_passes long_id demo_passes (empty_history demo_services))) = Some (''a'', r)
      \<and> dt_downtime_ms r = min 20 (time_down (probes ''a'' demo_passes) 15 35) \<and> dt_incidents r = 1)"
proof -
  have code: "sr_code \<lparr>sr_id = ''s'', sr_code = ''a'', sr_active = True\<rparr> = ''a''" by simp
  have "sorted (map hp_now demo_passes)" "list_all (\<lambda>p. distinct (map fst (hp_services p))) demo_passes"
    "probes ''a'' demo_passes \<noteq> []" "outages 15 None (filter (\<lambda>p. fst p \<le> 35) (probes ''a'' demo_passes)) = 1"
    "map sample_of (ld_history (run_passes long_id demo_passes (empty_history demo_services))) = [(0, True), (20, False), (40, True)]"
    by code_simp+
  with thinned_history_tells_downtime [OF unused_long_id, of demo_services "\<lparr>sr_id = ''s'', sr_code = ''a'', sr_active = True\<rparr>" demo_passes 15 35 20, unfolded code]
  show ?thesis by (simp add: demo_services_def)
qed

end
