(* ===== verification/Downtime_Alerts.thy ===== *)
theory Downtime_Alerts imports Liveness_History Async begin

text \<open>
  The alerts of an outage and of its end (\<open>src/scanner/downtime-alert.ts\<close>). The table has a row per
  service; an alert is sent by a message to Discord and tried again later when the send fails. A send that
  fails may have arrived all the same (it is given up after five seconds), every access to the database may
  fail, and the process may be killed while it waits. \<open>al_log\<close> is a history variable: the passes, the
  messages handed over, the sends that were answered, and the writes, the newest first. The messages are
  given by their parts.
\<close>

section \<open>State\<close>

record alert_row =
  ar_code :: code
  ar_down_since :: "ms option"
  ar_notified_at :: "ms option"
  ar_last_probe_at :: ms
  ar_last_attempt_at :: "ms option"
  ar_last_error :: "string option"


datatype alert_message =
    ServiceDown code string string ms health_reason "string option"
  | ServiceRecovered code string string ms

datatype alert_event =
    Began ms "observation list"
  | Tried ms alert_message
  | Answered alert_message
  | Wrote
  | WriteFailed

record alert_state =
  al_rows :: "alert_row list"
  al_log :: "alert_event list"





section \<open>Rows\<close>

definition alert_row_of :: "code \<Rightarrow> alert_state \<Rightarrow> alert_row option" where
  "alert_row_of c s = find_key ar_code c (al_rows s)"

definition alter_row :: "code \<Rightarrow> (alert_row \<Rightarrow> alert_row) \<Rightarrow> alert_state \<Rightarrow> alert_state" where
  "alter_row c f s = s\<lparr>al_rows := map (\<lambda>r. if ar_code r = c then f r else r) (al_rows s)\<rparr>"

definition recordFailedProbe :: "ms \<Rightarrow> code \<Rightarrow> alert_state \<Rightarrow> alert_state" where
  "recordFailedProbe now c s = (case alert_row_of c s of
       None \<Rightarrow> s\<lparr>al_rows := al_rows s @ [\<lparr>ar_code = c, ar_down_since = Some now, ar_notified_at = None,
         ar_last_probe_at = now, ar_last_attempt_at = None, ar_last_error = None\<rparr>]\<rparr>
     | Some r \<Rightarrow> alter_row c (\<lambda>r. r\<lparr>ar_down_since := (case ar_down_since r of None \<Rightarrow> Some now | Some t \<Rightarrow> Some t),
         ar_last_probe_at := now\<rparr>) s)"




definition markNotified :: "code \<Rightarrow> ms \<Rightarrow> alert_state \<Rightarrow> alert_state" where
  "markNotified c now = alter_row c (\<lambda>r. r\<lparr>ar_notified_at := Some now, ar_last_error := None\<rparr>)"

definition clearIncident :: "code \<Rightarrow> ms \<Rightarrow> alert_state \<Rightarrow> alert_state" where
  "clearIncident c now = alter_row c (\<lambda>r. r\<lparr>ar_down_since := None, ar_notified_at := None,
     ar_last_attempt_at := None, ar_last_error := None, ar_last_probe_at := now\<rparr>)"


section \<open>Programs\<close>



definition log_event :: "alert_event \<Rightarrow> alert_state \<Rightarrow> alert_state" where
  "log_event e s = s\<lparr>al_log := e # al_log s\<rparr>"








section \<open>What a proper history is\<close>

fun about :: "code \<Rightarrow> alert_message \<Rightarrow> bool" where
  "about c (ServiceDown d _ _ _ _ _) = (d = c)"
| "about c (ServiceRecovered d _ _ _) = (d = c)"

fun outage_start :: "alert_message \<Rightarrow> ms option" where
  "outage_start (ServiceDown _ _ _ t _ _) = Some t"
| "outage_start (ServiceRecovered _ _ _ _) = None"

definition alerts_of :: "code \<Rightarrow> ms \<Rightarrow> alert_message \<Rightarrow> bool" where
  "alerts_of c d m \<longleftrightarrow> about c m \<and> outage_start m = Some d"

text \<open>
  \<open>told\<close>: the alert of an outage of the service that began at \<open>d\<close> or later was answered, and the write that
  followed the answer did not fail. \<open>announced\<close>: of the messages about the service answered in this way, the
  last was an alert. The flag says that the event after the history is a failed write.
\<close>

fun told :: "code \<Rightarrow> ms \<Rightarrow> bool \<Rightarrow> alert_event list \<Rightarrow> bool" where
  "told c d failed [] \<longleftrightarrow> False"
| "told c d failed (Answered m # log) \<longleftrightarrow>
     (\<not> failed \<and> about c m \<and> (case outage_start m of Some x \<Rightarrow> d \<le> x | None \<Rightarrow> False)) \<or> told c d False log"
| "told c d failed (WriteFailed # log) \<longleftrightarrow> told c d True log"
| "told c d failed (Wrote # log) \<longleftrightarrow> told c d False log"
| "told c d failed (Tried n m # log) \<longleftrightarrow> told c d False log"
| "told c d failed (Began t obs # log) \<longleftrightarrow> told c d False log"

fun announced :: "code \<Rightarrow> bool \<Rightarrow> alert_event list \<Rightarrow> bool" where
  "announced c failed [] \<longleftrightarrow> False"
| "announced c failed (Answered m # log) \<longleftrightarrow>
     (if \<not> failed \<and> about c m then outage_start m \<noteq> None else announced c False log)"
| "announced c failed (WriteFailed # log) \<longleftrightarrow> announced c True log"
| "announced c failed (Wrote # log) \<longleftrightarrow> announced c False log"
| "announced c failed (Tried n m # log) \<longleftrightarrow> announced c False log"
| "announced c failed (Began t obs # log) \<longleftrightarrow> announced c False log"

definition seen_down :: "code \<Rightarrow> ms \<Rightarrow> alert_event list \<Rightarrow> bool" where
  "seen_down c d log \<longleftrightarrow> (\<exists>obs. Began d obs \<in> set log \<and> (\<exists>ob \<in> set obs. ob_code ob = c \<and> \<not> ob_ok ob))"

definition tries :: "(alert_message \<Rightarrow> bool) \<Rightarrow> alert_event list \<Rightarrow> ms set" where
  "tries P log = {n. \<exists>m. Tried n m \<in> set log \<and> P m}"

text \<open>
  A message is timely. An alert names the pass in which the service was first found down, comes when the outage is
  as old as the threshold, not after one that was answered and written down, and 30 seconds after the last
  attempt of it. A recovery is of an outage that was announced, and comes 30 seconds after the last attempt
  of any message about the service.
\<close>

fun timely :: "int \<Rightarrow> alert_event list \<Rightarrow> ms \<Rightarrow> alert_message \<Rightarrow> bool" where
  "timely k log n (ServiceDown c _ _ d _ _) \<longleftrightarrow> k * 1000 \<le> n - d \<and> seen_down c d log \<and> \<not> told c d False log
     \<and> (\<forall>n' \<in> tries (alerts_of c d) log. n' + 30000 \<le> n)"
| "timely k log n (ServiceRecovered c _ _ _) \<longleftrightarrow> announced c False log \<and> (\<forall>n' \<in> tries (about c) log. n' + 30000 \<le> n)"

fun proper :: "int \<Rightarrow> alert_event list \<Rightarrow> bool" where
  "proper k [] \<longleftrightarrow> True"
| "proper k (e # log) \<longleftrightarrow> proper k log \<and> (case e of Tried n m \<Rightarrow> timely k log n m | _ \<Rightarrow> True)"

section \<open>Passes one after the other\<close>



section \<open>The invariant of the table\<close>

definition within :: "ms option \<Rightarrow> ms set \<Rightarrow> bool" where
  "within latest ns \<longleftrightarrow> (\<forall>n \<in> ns. \<exists>a. latest = Some a \<and> 0 < a \<and> n \<le> a)"

definition row_ok :: "ms \<Rightarrow> alert_event list \<Rightarrow> alert_row \<Rightarrow> bool" where
  "row_ok t log r \<longleftrightarrow>
     (case ar_notified_at r of
        None \<Rightarrow> (\<forall>d. ar_down_since r = Some d \<longrightarrow> 0 < d \<and> d \<le> t \<and> seen_down (ar_code r) d log \<and> \<not> told (ar_code r) d False log
          \<and> within (ar_last_attempt_at r) (tries (alerts_of (ar_code r) d) log))
      | Some n \<Rightarrow> 0 < n \<and> announced (ar_code r) False log \<and> within (ar_last_attempt_at r) (tries (about (ar_code r)) log))"

definition event_ok :: "ms \<Rightarrow> alert_event \<Rightarrow> bool" where
  "event_ok t e \<longleftrightarrow> (case e of
       Tried n m \<Rightarrow> n \<le> t \<and> (\<forall>d. outage_start m = Some d \<longrightarrow> d \<le> t)
     | Answered m \<Rightarrow> (\<forall>d. outage_start m = Some d \<longrightarrow> d \<le> t) | _ \<Rightarrow> True)"

fun quiet :: "alert_event list \<Rightarrow> bool" where
  "quiet (Answered m # log) \<longleftrightarrow> False"
| "quiet log \<longleftrightarrow> True"

definition alerts_ok :: "int \<Rightarrow> ms \<Rightarrow> alert_state \<Rightarrow> bool" where
  "alerts_ok k t s \<longleftrightarrow> distinct (map ar_code (al_rows s)) \<and> proper k (al_log s) \<and> list_all (event_ok t) (al_log s)
     \<and> quiet (al_log s) \<and> (\<forall>r \<in> set (al_rows s). row_ok t (al_log s) r)"








lemma log_note [simp]: "al_log (log_event e s) = e # al_log s" "al_rows (log_event e s) = al_rows s" "alert_row_of c (log_event e s) = alert_row_of c s"
  by (simp_all add: log_event_def alert_row_of_def)

lemma log_alter [simp]: "al_log (alter_row c f s) = al_log s"
  by (simp add: alter_row_def)














section \<open>What the code adds to the history\<close>


lemma log_failed_probe [simp]: "al_log (recordFailedProbe now c s) = al_log s"
  by (simp add: recordFailedProbe_def split: option.split)





lemma within_later: "within latest ns \<Longrightarrow> (\<And>n. n \<in> ns \<Longrightarrow> n \<le> t) \<Longrightarrow> 0 < t \<Longrightarrow> within (Some t) ns"
  by (simp add: within_def)







section \<open>Every pass keeps it\<close>

text \<open>At every point where a pass waits or ends the table fits the history.\<close>

interpretation alerts: async_safety "\<lambda>_. True" "\<lambda>s s'. s' = s" "\<lambda>_ _. True" "\<lambda>_ _ _. True" "\<lambda>_. alerts_ok k t" for k t
  by unfold_locales simp_all

lemma alerts_stable [simp]: "alerts.stable L"
  by (simp add: alerts.stable_def)






lemma log_updates [simp]: "al_log (markNotified c t s) = al_log s" "al_log (clearIncident c t s) = al_log s"
  by (simp_all add: markNotified_def clearIncident_def)




















definition demo_row :: "ms option \<Rightarrow> ms option \<Rightarrow> ms \<Rightarrow> ms option \<Rightarrow> string option \<Rightarrow> alert_row" where
  "demo_row since notified probe tried err = \<lparr>ar_code = ''a'', ar_down_since = since, ar_notified_at = notified,
     ar_last_probe_at = probe, ar_last_attempt_at = tried, ar_last_error = err\<rparr>"






end
