(* ===== verification/Request_Path.thy ===== *)
theory Request_Path imports Text_Tools begin

text \<open>
  The paths the intrusion detector refuses (\<open>src/intrusion/detection.ts\<close>): \<open>decodeURIComponent\<close> on code
  units, the repeated decoding and the pattern of exploits. A path of \<open>detection.ts\<close> arrives in Latin-1 and
  is a list of code units here, since decoding makes larger ones.
\<close>

type_synonym units = "nat list"

definition units_of :: "string \<Rightarrow> units" where
  "units_of s = map of_char s"

section \<open>\<open>decodeURIComponent\<close>\<close>

definition hex_digit :: "nat \<Rightarrow> nat option" where
  "hex_digit n = (if 48 \<le> n \<and> n \<le> 57 then Some (n - 48) else if 97 \<le> n \<and> n \<le> 102 then Some (n - 87)
     else if 65 \<le> n \<and> n \<le> 70 then Some (n - 55) else None)"

text \<open>\<open>%XX\<close> at the beginning.\<close>

fun escape :: "units \<Rightarrow> (nat \<times> units) option" where
  "escape (p # a # b # s) = (if p = 37 then (case (hex_digit a, hex_digit b) of
       (Some h, Some l) \<Rightarrow> Some (16 * h + l, s) | _ \<Rightarrow> None) else None)"
| "escape _ = None"

lemma escape_Some: "escape s = Some (v, r) \<Longrightarrow>
  \<exists>a b. s = 37 # a # b # r \<and> hex_digit a \<noteq> None \<and> hex_digit b \<noteq> None"
  by (induction s rule: escape.induct) (auto split: if_splits option.splits)

fun continuation :: "nat \<Rightarrow> units \<Rightarrow> (nat list \<times> units) option" where
  "continuation 0 s = Some ([], s)"
| "continuation (Suc n) s = (case escape s of
       Some (b, r) \<Rightarrow> if 128 \<le> b \<and> b < 192 then map_option (\<lambda>(bs, r). (b # bs, r)) (continuation n r) else None
     | None \<Rightarrow> None)"

lemma continuation_length: "continuation n s = Some (bs, r) \<Longrightarrow> length r \<le> length s"
  by (induction n arbitrary: s bs) (fastforce split: option.splits if_splits dest: escape_Some)+

text \<open>
  How many bytes follow the first one of a character in UTF-8; the code point of valid bytes (no longer
  form than needed, no surrogate, at most 10FFFF), and its code units in UTF-16.
\<close>

definition utf8_follow :: "nat \<Rightarrow> nat option" where
  "utf8_follow b = (if 192 \<le> b \<and> b < 224 then Some 1 else if 224 \<le> b \<and> b < 240 then Some 2
     else if 240 \<le> b \<and> b < 248 then Some 3 else None)"

definition utf8_point :: "nat \<Rightarrow> nat list \<Rightarrow> nat option" where
  "utf8_point b bs =
     (let v = foldl (\<lambda>v c. v * 64 + (c - 128)) (b mod (2 ^ (6 - length bs))) bs;
          least = (case length bs of Suc 0 \<Rightarrow> 0x80 | Suc (Suc 0) \<Rightarrow> 0x800 | _ \<Rightarrow> 0x10000)
      in if least \<le> v \<and> v \<le> 0x10FFFF \<and> \<not> (0xD800 \<le> v \<and> v < 0xE000) then Some v else None)"

definition utf16 :: "nat \<Rightarrow> units" where
  "utf16 v = (if v < 0x10000 then [v] else [0xD800 + (v - 0x10000) div 0x400, 0xDC00 + (v - 0x10000) mod 0x400])"

function decodeURIComponent :: "units \<Rightarrow> units option" where
  "decodeURIComponent [] = Some []"
| "decodeURIComponent (c # s) =
     (if c \<noteq> 37 then map_option (Cons c) (decodeURIComponent s)
      else case escape (c # s) of
          None \<Rightarrow> None
        | Some (b, r) \<Rightarrow>
            if b < 128 then map_option (Cons b) (decodeURIComponent r)
            else (case utf8_follow b of
                None \<Rightarrow> None
              | Some n \<Rightarrow> (case continuation n r of
                    None \<Rightarrow> None
                  | Some (bs, r') \<Rightarrow> (case utf8_point b bs of
                        None \<Rightarrow> None
                      | Some v \<Rightarrow> map_option (append (utf16 v)) (decodeURIComponent r')))))"
  by pat_completeness auto
termination
  by (relation "measure length") (auto dest!: escape_Some continuation_length)

section \<open>The pattern\<close>

text \<open>A match at some position; a pattern sees the code unit before it, if there is one, and the rest.\<close>

type_synonym pattern = "nat option \<Rightarrow> units \<Rightarrow> bool"

fun search :: "pattern \<Rightarrow> nat option \<Rightarrow> units \<Rightarrow> bool" where
  "search p prev [] = p prev []"
| "search p prev (c # s) = (p prev (c # s) \<or> search p (Some c) s)"

text \<open>
  A literal without regard to case: without the \<open>u\<close> flag no unit from 128 on equals an ASCII letter.
\<close>

definition lower_unit :: "nat \<Rightarrow> nat" where
  "lower_unit n = (if 65 \<le> n \<and> n \<le> 90 then n + 32 else n)"

fun literal :: "string \<Rightarrow> units \<Rightarrow> units option" where
  "literal [] s = Some s"
| "literal (c # l) (u # s) = (if lower_unit u = of_char c then literal l s else None)"
| "literal (c # l) [] = None"

definition starts_in :: "units \<Rightarrow> nat list \<Rightarrow> bool" where
  "starts_in s set1 = (case s of [] \<Rightarrow> True | u # _ \<Rightarrow> u \<in> set set1)"

definition follows :: "string \<Rightarrow> nat list \<Rightarrow> units \<Rightarrow> bool" where
  "follows l set1 s = (case literal l s of None \<Rightarrow> False | Some r \<Rightarrow> starts_in r set1)"

definition dot_dot :: pattern where
  "dot_dot prev s = ((case prev of None \<Rightarrow> True | Some b \<Rightarrow> b \<in> {92, 47}) \<and> follows ''..'' [92, 47] s)"

definition null_unit :: pattern where
  "null_unit prev s = (case s of u # _ \<Rightarrow> u = 0 | [] \<Rightarrow> False)"

definition hidden_file :: pattern where
  "hidden_file prev s = ((case prev of None \<Rightarrow> True | Some b \<Rightarrow> b = 47)
     \<and> (follows ''.env'' [46, 47] s \<or> follows ''.git'' [47] s))"

definition system_file :: pattern where
  "system_file prev s = (follows ''/etc/passwd'' [47] s \<or> follows ''/proc/self/environ'' [47] s)"

definition exploit_pattern :: "units \<Rightarrow> bool" where
  "exploit_pattern s = search (\<lambda>prev s. dot_dot prev s \<or> null_unit prev s \<or> hidden_file prev s \<or> system_file prev s) None s"

definition has_escape :: "units \<Rightarrow> bool" where
  "has_escape s = search (\<lambda>_ s. escape s \<noteq> None) None s"

text \<open>The decoding of \<open>inspect\<close>: once, and then twice more while an escape is left.\<close>

fun decode_again :: "nat \<Rightarrow> units \<Rightarrow> units option" where
  "decode_again 0 s = Some s"
| "decode_again (Suc n) s = (if has_escape s then (case decodeURIComponent s of None \<Rightarrow> None | Some t \<Rightarrow> decode_again n t) else Some s)"

definition exploit_path :: "string \<Rightarrow> bool" where
  "exploit_path path = (case decodeURIComponent (units_of path) of
       None \<Rightarrow> True
     | Some s \<Rightarrow> (case decode_again 2 s of None \<Rightarrow> True | Some t \<Rightarrow> exploit_pattern t))"

section \<open>Segments\<close>

text \<open>The segments of a path between separators, which include the backslash.\<close>

fun segments :: "units \<Rightarrow> units list" where
  "segments [] = [[]]"
| "segments (c # s) = (if c \<in> {92, 47} then [] # segments s
     else case segments s of p # ps \<Rightarrow> (c # p) # ps | [] \<Rightarrow> [[c]])"

definition climbs :: "units \<Rightarrow> bool" where
  "climbs s \<longleftrightarrow> [46, 46] \<in> set (segments s)"

definition decoded :: "nat \<Rightarrow> string \<Rightarrow> units option" where
  "decoded n path = ((\<lambda>d. case d of None \<Rightarrow> None | Some s \<Rightarrow> decodeURIComponent s) ^^ n) (Some (units_of path))"

lemma segments_nonempty [simp]: "segments s \<noteq> []"
  by (induction s) (auto split: list.split)

lemma segments_sep [simp]: "c \<in> {92, 47} \<Longrightarrow> segments (c # s) = [] # segments s"
  by simp

lemma segments_other: "c \<notin> {92, 47} \<Longrightarrow> segments (c # s) = (c # hd (segments s)) # tl (segments s)"
  by (cases "segments s") auto

declare segments.simps(2) [simp del]

lemma lower_dot [simp]: "lower_unit u = 46 \<longleftrightarrow> u = 46"
  by (auto simp: lower_unit_def)

lemma hd_segments_dot: "hd (segments s) = [46] \<longleftrightarrow> (\<exists>t. s = 46 # t \<and> starts_in t [92, 47])"
proof (cases s)
  case (Cons c t)
  have "hd (segments t) = [] \<longleftrightarrow> starts_in t [92, 47]"
  proof (cases t)
    case (Cons d u)
    then show ?thesis by (cases "d \<in> {92, 47}") (simp_all add: segments_other starts_in_def)
  qed (simp add: starts_in_def)
  then show ?thesis using Cons by (cases "c \<in> {92, 47}") (auto simp: segments_other)
qed simp

lemma follows_dots: "follows ''..'' [92, 47] (c # s) \<longleftrightarrow> c = 46 \<and> hd (segments s) = [46]"
proof (cases s)
  case (Cons d t)
  then show ?thesis by (auto simp: follows_def hd_segments_dot)
qed (simp add: follows_def)

definition at_start :: "nat option \<Rightarrow> bool" where
  "at_start prev = (case prev of None \<Rightarrow> True | Some b \<Rightarrow> b \<in> {92, 47})"

lemma search_dot_dot:
  "search dot_dot prev s \<longleftrightarrow> (at_start prev \<and> hd (segments s) = [46, 46]) \<or> [46, 46] \<in> set (tl (segments s))"
proof (induction s arbitrary: prev)
  case Nil
  then show ?case by (simp add: dot_dot_def follows_def)
next
  case (Cons c s)
  show ?case
  proof (cases "c \<in> {92, 47}")
    case True
    then have "\<not> dot_dot prev (c # s)" "at_start (Some c)" by (auto simp: dot_dot_def follows_dots at_start_def)
    then have "search dot_dot prev (c # s) \<longleftrightarrow> hd (segments s) = [46, 46] \<or> [46, 46] \<in> set (tl (segments s))"
      using Cons.IH by simp
    also have "\<dots> \<longleftrightarrow> [46, 46] \<in> set (segments s)" by (cases "segments s") auto
    finally show ?thesis using True by simp
  next
    case False
    then have "\<not> at_start (Some c)" by (simp add: at_start_def)
    moreover have "dot_dot prev (c # s) \<longleftrightarrow> at_start prev \<and> c # hd (segments s) = [46, 46]"
      by (auto simp: dot_dot_def follows_dots at_start_def)
    ultimately show ?thesis using Cons.IH False by (simp add: segments_other)
  qed
qed

lemma climbs_search: "search dot_dot None s \<longleftrightarrow> climbs s"
  by (cases "segments s") (auto simp: search_dot_dot climbs_def at_start_def)

lemma search_mono: "search p prev s \<Longrightarrow> (\<And>prev s. p prev s \<Longrightarrow> q prev s) \<Longrightarrow> search q prev s"
  by (induction s arbitrary: prev) auto

lemma climbs_exploit: "climbs s \<Longrightarrow> exploit_pattern s"
  unfolding climbs_search [symmetric] exploit_pattern_def by (erule search_mono) simp

section \<open>Decoding keeps segments\<close>

lemma climbs_iff: "climbs s \<longleftrightarrow> (\<exists>a b. s = a @ 46 # 46 # b \<and> (a = [] \<or> last a \<in> {92, 47}) \<and> starts_in b [92, 47])"
proof -
  have "search dot_dot prev s \<longleftrightarrow>
    (\<exists>a b. s = a @ 46 # 46 # b \<and> (if a = [] then at_start prev else last a \<in> {92, 47}) \<and> starts_in b [92, 47])" for prev
  proof (induction s arbitrary: prev)
    case Nil
    then show ?case by (simp add: dot_dot_def follows_def)
  next
    case (Cons c s)
    have head: "dot_dot prev (c # s) \<longleftrightarrow> at_start prev \<and> (\<exists>b. c # s = 46 # 46 # b \<and> starts_in b [92, 47])"
      by (auto simp: dot_dot_def at_start_def follows_dots hd_segments_dot)
    show ?case unfolding search.simps head Cons.IH
    proof (intro iffI)
      assume "at_start prev \<and> (\<exists>b. c # s = 46 # 46 # b \<and> starts_in b [92, 47])
        \<or> (\<exists>a b. s = a @ 46 # 46 # b \<and> (if a = [] then at_start (Some c) else last a \<in> {92, 47}) \<and> starts_in b [92, 47])"
      then show "\<exists>a b. c # s = a @ 46 # 46 # b \<and> (if a = [] then at_start prev else last a \<in> {92, 47}) \<and> starts_in b [92, 47]"
      proof (elim disjE conjE exE)
        fix a b assume "s = a @ 46 # 46 # b" "if a = [] then at_start (Some c) else last a \<in> {92, 47}" "starts_in b [92, 47]"
        then show ?thesis by (intro exI [of _ "c # a"] exI [of _ b]) (auto simp: at_start_def split: if_splits)
      qed (metis append_Nil)
    next
      assume "\<exists>a b. c # s = a @ 46 # 46 # b \<and> (if a = [] then at_start prev else last a \<in> {92, 47}) \<and> starts_in b [92, 47]"
      then obtain a b where ab: "c # s = a @ 46 # 46 # b" "if a = [] then at_start prev else last a \<in> {92, 47}" "starts_in b [92, 47]" by blast
      show "at_start prev \<and> (\<exists>b. c # s = 46 # 46 # b \<and> starts_in b [92, 47])
        \<or> (\<exists>a b. s = a @ 46 # 46 # b \<and> (if a = [] then at_start (Some c) else last a \<in> {92, 47}) \<and> starts_in b [92, 47])"
      proof (cases a)
        case Nil
        then show ?thesis using ab by auto
      next
        case (Cons d a')
        then have "s = a' @ 46 # 46 # b" "if a' = [] then at_start (Some c) else last a' \<in> {92, 47}"
          using ab by (auto simp: at_start_def split: if_splits)
        then show ?thesis using ab(3) by blast
      qed
    qed
  qed
  from this [of None] have "climbs s \<longleftrightarrow> (\<exists>a b. s = a @ 46 # 46 # b \<and> (if a = [] then True else last a \<in> {92, 47}) \<and> starts_in b [92, 47])"
    by (simp add: climbs_search at_start_def)
  then show ?thesis by (simp only: if_bool_eq_disj) blast
qed

text \<open>A unit that cannot belong to an escape cuts the decoding in two.\<close>

definition plain :: "nat \<Rightarrow> bool" where
  "plain c \<longleftrightarrow> c \<noteq> 37 \<and> hex_digit c = None"

lemma escape_append: "plain c \<Longrightarrow> escape (a @ c # s) = Some (v, r) \<Longrightarrow> \<exists>a'. escape a = Some (v, a') \<and> r = a' @ c # s"
  by (cases a rule: escape.cases; cases s; cases "tl s") (auto simp: plain_def split: if_splits option.splits)

lemma continuation_append: "plain c \<Longrightarrow> continuation n (a @ c # s) = Some (bs, r) \<Longrightarrow>
  \<exists>a'. continuation n a = Some (bs, a') \<and> r = a' @ c # s"
proof (induction n arbitrary: a bs)
  case (Suc n)
  then obtain b u ds where u: "escape (a @ c # s) = Some (b, u)" "128 \<le> b" "b < 192" "continuation n u = Some (ds, r)" "bs = b # ds"
    by (auto split: option.splits if_splits)
  from escape_append [OF Suc.prems(1) u(1)] obtain a' where a': "escape a = Some (b, a')" "u = a' @ c # s" by blast
  from Suc.IH [OF Suc.prems(1) u(4) [unfolded a'(2)]] show ?case using u a' by auto
qed simp

lemma decode_append:
  "plain c \<Longrightarrow> decodeURIComponent (a @ c # s) = Some t \<Longrightarrow>
    \<exists>u v. decodeURIComponent a = Some u \<and> decodeURIComponent s = Some v \<and> t = u @ c # v"
proof (induction a arbitrary: t rule: length_induct)
  case (1 a)
  show ?case
  proof (cases a)
    case Nil
    then show ?thesis using 1 by (auto simp: plain_def)
  next
    case (Cons d a1)
    show ?thesis
    proof (cases "d = 37")
      case False
      then show ?thesis using 1 Cons by fastforce
    next
      case True
      with 1(3) Cons obtain b r where r: "escape (a @ c # s) = Some (b, r)" by (auto split: option.splits)
      from escape_append [OF 1(2) r] obtain a2 where a2: "escape a = Some (b, a2)" "r = a2 @ c # s" by blast
      have len: "length a2 < length a" using a2(1) by (auto dest: escape_Some)
      show ?thesis
      proof (cases "b < 128")
        case True
        with 1(3) Cons r \<open>d = 37\<close> obtain t' where "decodeURIComponent r = Some t'" "t = b # t'" by auto
        with 1(1) len 1(2) a2 obtain u v where "decodeURIComponent a2 = Some u" "decodeURIComponent s = Some v" "t' = u @ c # v" by blast
        then show ?thesis using Cons \<open>d = 37\<close> a2 True \<open>t = b # t'\<close> by auto
      next
        case False
        with 1(3) Cons r \<open>d = 37\<close> obtain n bs r' w t' where n: "utf8_follow b = Some n" "continuation n r = Some (bs, r')"
          "utf8_point b bs = Some w" "decodeURIComponent r' = Some t'" "t = utf16 w @ t'" by (auto split: option.splits)
        from continuation_append [OF 1(2) n(2) [unfolded a2(2)]] obtain a3 where a3: "continuation n a2 = Some (bs, a3)" "r' = a3 @ c # s" by blast
        then have "length a3 < length a" using len continuation_length by fastforce
        with 1(1,2) n(4) a3 obtain u v where "decodeURIComponent a3 = Some u" "decodeURIComponent s = Some v" "t' = u @ c # v" by blast
        then show ?thesis using Cons \<open>d = 37\<close> a2 a3 False n by auto
      qed
    qed
  qed
qed

lemma plain_units [simp]: "plain 46" "plain 47" "plain 92"
  by (simp_all add: plain_def hex_digit_def)

lemma climbs_decode:
  assumes "climbs s" "decodeURIComponent s = Some t"
  shows "climbs t"
proof -
  obtain a b where s: "s = a @ 46 # 46 # b" "a = [] \<or> last a \<in> {92, 47}" "starts_in b [92, 47]" using assms(1) by (auto simp: climbs_iff)
  from decode_append [OF plain_units(1) assms(2) [unfolded s(1)]] obtain u v where
    u: "decodeURIComponent a = Some u" "decodeURIComponent (46 # b) = Some v" "t = u @ 46 # v" by blast
  then obtain w where w: "decodeURIComponent b = Some w" "v = 46 # w" by auto
  have "u = [] \<or> last u \<in> {92, 47}"
  proof (cases a rule: rev_cases)
    case Nil
    then show ?thesis using u(1) by simp
  next
    case (snoc a' c)
    then have "plain c" using s(2) by auto
    from decode_append [OF this u(1) [unfolded snoc]] show ?thesis using s(2) snoc by auto
  qed
  moreover have "starts_in w [92, 47]" using s(3) w(1) by (cases b) (auto simp: starts_in_def split: if_splits)
  ultimately show ?thesis using u(3) w(2) by (auto simp: climbs_iff)
qed

lemma decode_without_escape: "\<not> has_escape s \<Longrightarrow> decodeURIComponent s = Some t \<Longrightarrow> t = s"
proof -
  have "\<not> search (\<lambda>_ s. escape s \<noteq> None) prev s \<Longrightarrow> decodeURIComponent s = Some t \<Longrightarrow> t = s" for prev
  proof (induction s arbitrary: t prev)
    case (Cons c s)
    then have "escape (c # s) = None" by (cases "escape (c # s)") auto
    then show ?case using Cons by (cases "c = 37") auto
  qed simp
  then show "\<not> has_escape s \<Longrightarrow> decodeURIComponent s = Some t \<Longrightarrow> t = s" by (auto simp: has_escape_def)
qed

lemma decoded_Suc: "decoded (Suc n) path = (case decoded n path of None \<Rightarrow> None | Some s \<Rightarrow> decodeURIComponent s)"
  by (simp add: decoded_def)

lemma decode_again_climbs:
  "decode_again n s = Some t \<Longrightarrow> climbs s \<Longrightarrow> climbs t"
  by (induction n arbitrary: s) (auto split: if_splits option.splits intro: climbs_decode)

text \<open>A path that is not refused does not climb, however often it is decoded up to three times.\<close>

lemma refused_paths:
  assumes "\<not> exploit_path path" "decoded j path = Some q" "j \<le> 3"
  shows "\<not> climbs q"
proof
  assume q: "climbs q"
  obtain s1 t where s1: "decodeURIComponent (units_of path) = Some s1" and t: "decode_again 2 s1 = Some t" "\<not> climbs t"
    using assms(1) climbs_exploit by (auto simp: exploit_path_def split: option.splits)
  have d1: "decoded 0 path = Some (units_of path)" "decoded 1 path = Some s1" using s1 by (simp_all add: decoded_def)
  then have n1: "\<not> climbs s1" "\<not> climbs (units_of path)" using decode_again_climbs [OF t(1)] t(2) climbs_decode [OF _ s1] by blast+
  show False
  proof (cases "has_escape s1")
    case False
    then have "decoded 2 path \<in> {None, Some s1}" using decode_without_escape [OF False] d1(2) decoded_Suc [of 1 path]
      by (cases "decodeURIComponent s1") (auto simp: numeral_2_eq_2)
    moreover from this have "decoded 3 path \<in> {None, Some s1}" using decode_without_escape [OF False] decoded_Suc [of 2 path]
      by (cases "decodeURIComponent s1") (auto simp: numeral_3_eq_3 numeral_2_eq_2)
    moreover have "j \<in> {0, 1, 2, 3}" using assms(3) by auto
    ultimately show False using assms(2) d1 n1 q by auto
  next
    case True
    then obtain s2 where s2: "decodeURIComponent s1 = Some s2" "decode_again 1 s2 = Some t"
      using t(1) by (auto simp: numeral_2_eq_2 split: option.splits)
    then have d2: "decoded 2 path = Some s2" "\<not> climbs s2"
      using decoded_Suc [of 1 path] d1(2) decode_again_climbs [OF s2(2)] t(2) by (auto simp: numeral_2_eq_2)
    have "\<not> climbs r" if "decoded 3 path = Some r" for r
    proof -
      have r: "decodeURIComponent s2 = Some r" using that decoded_Suc [of 2 path] d2 by (simp add: numeral_3_eq_3 numeral_2_eq_2)
      show ?thesis using s2(2) t(2) r decode_without_escape [of s2 r] by (cases "has_escape s2") auto
    qed
    moreover have "j \<in> {0, 1, 2, 3}" using assms(3) by auto
    ultimately show False using assms(2) d1 d2 n1 q by auto
  qed
qed

end
