(* ===== verification/Intrusion_Detector.thy ===== *)
theory Intrusion_Detector imports Request_Path Ip_Range begin

text \<open>
  The intrusion detector in front of the services (\<open>src/intrusion/detection.ts\<close>): checks of the client,
  the country and the path, and counters of a client's requests and failed logins per minute. The \<open>Map\<close> of
  counters is a list in the order of insertion; its keys, \<open>JSON.stringify\<close> of service and address, are pairs.
\<close>

section \<open>The detector\<close>

record access_event =
  ae_service :: string
  ae_hostname :: string
  ae_clientIp :: string
  ae_country :: string
  ae_path :: string
  ae_method :: string
  ae_at :: ms

datatype detection_reason =
    ForeignCountry | UnknownCountry | InvalidIdentity | ExploitPath | RequestBurst
  | AuthenticationBurst | CapacityExceeded | EvidenceFailure

record detector_config =
  dg_allowedCountries :: "string list"
  dg_requestsPerMinute :: nat
  dg_authFailuresPerMinute :: nat

record access_counter =
  ct_start :: ms
  ct_requests :: nat
  ct_failures :: nat

type_synonym client = "string \<times> string"
type_synonym counters = "(client \<times> access_counter) list"

definition window_ms :: ms where "window_ms = 60000"
definition max_clients :: nat where "max_clients = 10000"

definition client_of :: "access_event \<Rightarrow> client" where
  "client_of e = (ae_service e, ae_clientIp e)"

definition counting :: "ms \<Rightarrow> access_counter \<Rightarrow> bool" where
  "counting t c \<longleftrightarrow> t - ct_start c < window_ms"

definition new_counter :: "ms \<Rightarrow> access_counter" where
  "new_counter t = \<lparr>ct_start = t, ct_requests = 0, ct_failures = 0\<rparr>"

definition counter :: "access_event \<Rightarrow> counters \<Rightarrow> access_counter option \<times> counters" where
  "counter e cs =
     (let old = map_option snd (find_key fst (client_of e) cs);
          fresh = (let swept = (if length cs \<ge> max_clients then filter (\<lambda>(_, c). counting (ae_at e) c) cs else cs)
                   in if length cs \<ge> max_clients \<and> old = None \<and> length swept \<ge> max_clients then (None, swept)
                      else (Some (new_counter (ae_at e)), upsert fst (client_of e, new_counter (ae_at e)) swept))
      in case old of Some c \<Rightarrow> if counting (ae_at e) c then (Some c, cs) else fresh | None \<Rightarrow> fresh)"

definition upper_letter :: "char \<Rightarrow> bool" where
  "upper_letter c = (let n = of_char c :: nat in 65 \<le> n \<and> n \<le> 90)"

definition country_code :: "string \<Rightarrow> bool" where
  "country_code s \<longleftrightarrow> length s = 2 \<and> list_all upper_letter s"

definition is_ip :: "string \<Rightarrow> bool" where
  "is_ip s \<longleftrightarrow> is_ipv4 s \<or> is_ipv6 s"

text \<open>The checks that need no counter.\<close>

definition refused :: "detector_config \<Rightarrow> access_event \<Rightarrow> detection_reason option" where
  "refused cfg e =
     (if \<not> is_ip (ae_clientIp e) then Some InvalidIdentity
      else if \<not> country_code (ae_country e) \<or> ae_country e = ''XX''
        then Some (if ae_country e = ''T1'' then ForeignCountry else UnknownCountry)
      else if ae_country e \<notin> set (dg_allowedCountries cfg) then Some ForeignCountry
      else if exploit_path (ae_path e) then Some ExploitPath
      else None)"

definition inspect :: "detector_config \<Rightarrow> access_event \<Rightarrow> bool \<Rightarrow> counters \<Rightarrow> detection_reason option \<times> counters" where
  "inspect cfg e servicePolicy cs =
     (case refused cfg e of
        Some r \<Rightarrow> (Some r, cs)
      | None \<Rightarrow> if servicePolicy then (None, cs)
          else (case counter e cs of
              (None, cs') \<Rightarrow> (Some CapacityExceeded, cs')
            | (Some c, cs') \<Rightarrow>
                let n = ct_requests c + 1
                in (if n \<ge> dg_requestsPerMinute cfg then Some RequestBurst else None,
                    upsert fst (client_of e, c\<lparr>ct_requests := n\<rparr>) cs')))"

definition detect_response :: "detector_config \<Rightarrow> access_event \<Rightarrow> nat \<Rightarrow> counters \<Rightarrow> detection_reason option \<times> counters" where
  "detect_response cfg e status cs =
     (if status \<noteq> 401 \<and> status \<noteq> 403 then (None, cs)
      else (case counter e cs of
          (None, cs') \<Rightarrow> (Some CapacityExceeded, cs')
        | (Some c, cs') \<Rightarrow>
            let n = ct_failures c + 1
            in (if n \<ge> dg_authFailuresPerMinute cfg then Some AuthenticationBurst else None,
                upsert fst (client_of e, c\<lparr>ct_failures := n\<rparr>) cs')))"

text \<open>
  C17. A request the detector accepts comes from an address, from an allowed country, and its path has no
  segment of two dots, not as it was sent and not after decoding it up to three times.
\<close>
theorem accepted_paths_do_not_climb:
  assumes "fst (inspect cfg e policy cs) = None" "j \<le> 3" "decoded j (ae_path e) = Some q"
  shows "is_ip (ae_clientIp e) \<and> ae_country e \<in> set (dg_allowedCountries cfg) \<and> [46, 46] \<notin> set (segments q)"
proof -
  have "refused cfg e = None" using assms(1) by (auto simp: inspect_def split: option.splits)
  then have "is_ip (ae_clientIp e)" "ae_country e \<in> set (dg_allowedCountries cfg)" "\<not> exploit_path (ae_path e)"
    by (auto simp: refused_def split: if_splits)
  with refused_paths [OF this(3) assms(3,2)] show ?thesis by (simp add: climbs_def)
qed

definition jp_config :: detector_config where
  "jp_config = \<lparr>dg_allowedCountries = [''JP''], dg_requestsPerMinute = 3, dg_authFailuresPerMinute = 2\<rparr>"

definition jp_event :: "string \<Rightarrow> string \<Rightarrow> ms \<Rightarrow> access_event" where
  "jp_event ip path t = \<lparr>ae_service = ''s'', ae_hostname = ''h'', ae_clientIp = ip, ae_country = ''JP'',
     ae_path = path, ae_method = ''GET'', ae_at = t\<rparr>"

lemma accepted_paths_do_not_climb_witness:
  "fst (inspect jp_config (jp_event ''1.2.3.4'' ''/a%2520b/..c'' 0) False []) = None
   \<and> fst (inspect jp_config (jp_event ''1.2.3.4'' ''/a/%252e%2e/c'' 0) False []) = Some ExploitPath
   \<and> (\<exists>q. decoded 2 ''/a%2520b/..c'' = Some q \<and> [46, 46] \<notin> set (segments q))"
proof -
  have run: "fst (inspect jp_config (jp_event ''1.2.3.4'' ''/a%2520b/..c'' 0) False []) = None"
    "fst (inspect jp_config (jp_event ''1.2.3.4'' ''/a/%252e%2e/c'' 0) False []) = Some ExploitPath"
    "decoded 2 ''/a%2520b/..c'' = Some (units_of ''/a b/..c'')"
    "ae_path (jp_event ''1.2.3.4'' ''/a%2520b/..c'' 0) = ''/a%2520b/..c''" by code_simp+
  from accepted_paths_do_not_climb [OF run(1), of 2, unfolded run(4), OF _ run(3)] run show ?thesis by simp
qed

end
