(* ===== verification/Detector_Counting.thy ===== *)
theory Detector_Counting imports Intrusion_Detector begin

text \<open>
  The counters of the intrusion detector (\<open>src/intrusion/detection.ts\<close>) over a whole run: clients do not
  disturb each other, the map stays within its capacity, and the rate of accepted requests is bounded.
\<close>

section \<open>Runs\<close>

datatype detector_op = Inspects access_event bool | Responds access_event nat

primrec op_event :: "detector_op \<Rightarrow> access_event" where
  "op_event (Inspects e _) = e"
| "op_event (Responds e _) = e"

primrec detect :: "detector_config \<Rightarrow> detector_op \<Rightarrow> counters \<Rightarrow> detection_reason option \<times> counters" where
  "detect cfg (Inspects e policy) = inspect cfg e policy"
| "detect cfg (Responds e status) = detect_response cfg e status"

definition counters_after :: "detector_config \<Rightarrow> detector_op list \<Rightarrow> counters" where
  "counters_after cfg ops = foldl (\<lambda>cs op. snd (detect cfg op cs)) [] ops"

definition verdict :: "detector_config \<Rightarrow> detector_op list \<Rightarrow> detector_op \<Rightarrow> detection_reason option" where
  "verdict cfg ops op = fst (detect cfg op (counters_after cfg ops))"

definition op_client :: "detector_op \<Rightarrow> client" where
  "op_client op = client_of (op_event op)"

definition op_time :: "detector_op \<Rightarrow> ms" where
  "op_time op = ae_at (op_event op)"

text \<open>Whether an operation gets to the counters, what it does to one, and its verdict from it.\<close>

primrec counts :: "detector_config \<Rightarrow> detector_op \<Rightarrow> bool" where
  "counts cfg (Inspects e policy) = (refused cfg e = None \<and> \<not> policy)"
| "counts cfg (Responds e status) = (status = 401 \<or> status = 403)"

primrec counted :: "detector_op \<Rightarrow> access_counter \<Rightarrow> access_counter" where
  "counted (Inspects e policy) c = c\<lparr>ct_requests := ct_requests c + 1\<rparr>"
| "counted (Responds e status) c = c\<lparr>ct_failures := ct_failures c + 1\<rparr>"

primrec judged :: "detector_config \<Rightarrow> detector_op \<Rightarrow> access_counter \<Rightarrow> detection_reason option" where
  "judged cfg (Inspects e policy) c = (if ct_requests c \<ge> dg_requestsPerMinute cfg then Some RequestBurst else None)"
| "judged cfg (Responds e status) c = (if ct_failures c \<ge> dg_authFailuresPerMinute cfg then Some AuthenticationBurst else None)"

primrec unjudged :: "detector_config \<Rightarrow> detector_op \<Rightarrow> detection_reason option" where
  "unjudged cfg (Inspects e policy) = refused cfg e"
| "unjudged cfg (Responds e status) = None"

lemma detect_cases:
  "detect cfg op cs = (if \<not> counts cfg op then (unjudged cfg op, cs)
    else (case counter (op_event op) cs of (None, cs') \<Rightarrow> (Some CapacityExceeded, cs')
      | (Some c, cs') \<Rightarrow> (judged cfg op (counted op c), upsert fst (op_client op, counted op c) cs')))"
  by (cases op) (auto simp: inspect_def detect_response_def op_client_def Let_def split: option.splits prod.splits)

section \<open>One step\<close>

definition live :: "ms \<Rightarrow> client \<Rightarrow> counters \<Rightarrow> access_counter option" where
  "live t k cs = (case find_key fst k cs of Some (_, c) \<Rightarrow> if counting t c then Some c else None | None \<Rightarrow> None)"

definition counters_wf :: "counters \<Rightarrow> bool" where
  "counters_wf cs \<longleftrightarrow> distinct (map fst cs) \<and> length cs \<le> max_clients"

lemma counting_later: "counting t c \<Longrightarrow> u \<le> t \<Longrightarrow> counting u c"
  by (simp add: counting_def)

lemma live_upsert: "live t k (upsert fst (k', c) cs) = (if k = k' then if counting t c then Some c else None else live t k cs)"
  by (simp add: live_def find_key_upsert)

lemma find_key_sweep:
  "distinct (map fst cs) \<Longrightarrow> find_key fst k (filter (\<lambda>(_, c). counting u c) cs) =
    (case find_key fst k cs of Some (k', c) \<Rightarrow> if counting u c then Some (k', c) else None | None \<Rightarrow> None)"
proof (induction cs)
  case (Cons x cs)
  have "find_key fst (fst x) cs = None" using Cons.prems by (simp add: find_key_None)
  then show ?case using Cons by (cases x) (auto split: option.splits)
qed simp

lemma live_sweep: "distinct (map fst cs) \<Longrightarrow> u \<le> t \<Longrightarrow> live t k (filter (\<lambda>(_, c). counting u c) cs) = live t k cs"
  by (auto simp: live_def find_key_sweep split: option.split dest: counting_later)

lemma sweep_wf: "counters_wf cs \<Longrightarrow> counters_wf (filter P cs)"
  by (auto simp: counters_wf_def distinct_map_filter intro: order_trans [OF length_filter_le])

lemma upsert_wf: "counters_wf cs \<Longrightarrow> fst x \<in> fst ` set cs \<or> length cs < max_clients \<Longrightarrow> counters_wf (upsert fst x cs)"
proof -
  have "length (upsert fst x cs) = (if fst x \<in> fst ` set cs then length cs else Suc (length cs))" by (induction cs) auto
  then show "counters_wf cs \<Longrightarrow> fst x \<in> fst ` set cs \<or> length cs < max_clients \<Longrightarrow> counters_wf (upsert fst x cs)"
    by (auto simp: counters_wf_def distinct_upsert)
qed

lemma counter_known: "live (ae_at e) (client_of e) cs = Some c \<Longrightarrow> counter e cs = (Some c, cs)"
  by (auto simp: counter_def live_def Let_def split: option.splits if_splits)

definition room :: "access_event \<Rightarrow> counters \<Rightarrow> bool" where
  "room e cs \<longleftrightarrow> client_of e \<in> fst ` set cs \<or> length cs < max_clients"

lemma counter_new:
  assumes "live (ae_at e) (client_of e) cs = None" "counters_wf cs"
  defines "swept \<equiv> (if length cs \<ge> max_clients then filter (\<lambda>(_, c). counting (ae_at e) c) cs else cs)"
  shows "counter e cs = (if \<not> room e cs \<and> length swept \<ge> max_clients then (None, swept)
      else (Some (new_counter (ae_at e)), upsert fst (client_of e, new_counter (ae_at e)) swept))"
    and "\<not> (\<not> room e cs \<and> length swept \<ge> max_clients) \<Longrightarrow> client_of e \<in> fst ` set swept \<or> length swept < max_clients"
proof -
  have old: "find_key fst (client_of e) cs = None \<longleftrightarrow> client_of e \<notin> fst ` set cs" by (rule find_key_None)
  show "counter e cs = (if \<not> room e cs \<and> length swept \<ge> max_clients then (None, swept)
      else (Some (new_counter (ae_at e)), upsert fst (client_of e, new_counter (ae_at e)) swept))"
    using assms(1) old by (auto simp: counter_def live_def Let_def room_def swept_def split: option.splits if_splits)
  show "client_of e \<in> fst ` set swept \<or> length swept < max_clients" if "\<not> (\<not> room e cs \<and> length swept \<ge> max_clients)"
  proof (cases "length cs \<ge> max_clients \<and> client_of e \<in> fst ` set cs")
    case True
    then obtain x where x: "x \<in> set cs" "fst x = client_of e" by auto
    then have "find_key fst (client_of e) cs = Some x" using find_key_distinct [of fst cs x] assms(2) by (simp add: counters_wf_def)
    then have "\<not> counting (ae_at e) (snd x)" using assms(1) by (auto simp: live_def split: if_splits prod.splits)
    then have "length (filter (\<lambda>(_, c). counting (ae_at e) c) cs) < length cs" using x(1) by (intro length_filter_less) auto
    then show ?thesis using True assms(2) by (simp add: swept_def counters_wf_def)
  next
    case False
    then show ?thesis using that by (auto simp: swept_def room_def)
  qed
qed

lemma detect_wf: "counters_wf cs \<Longrightarrow> counters_wf (snd (detect cfg op cs))"
proof -
  assume wf: "counters_wf cs"
  have known: "fst x \<in> fst ` set (upsert fst (fst x, c) cs')" for x :: "client \<times> access_counter" and c cs' by simp
  show ?thesis
  proof (cases "live (ae_at (op_event op)) (op_client op) cs")
    case (Some c)
    then have "find_key fst (op_client op) cs \<noteq> None" by (auto simp: live_def split: option.splits)
    then have "op_client op \<in> fst ` set cs" by (simp add: find_key_None)
    then show ?thesis using wf Some counter_known [of "op_event op" cs c]
      by (simp add: detect_cases op_client_def upsert_wf)
  next
    case None
    let ?e = "op_event op"
    let ?swept = "if length cs \<ge> max_clients then filter (\<lambda>(_, c). counting (ae_at ?e) c) cs else cs"
    note n = counter_new [OF None [unfolded op_client_def] wf]
    have swept: "counters_wf ?swept" using wf by (simp add: sweep_wf)
    show ?thesis
    proof (cases "\<not> room ?e cs \<and> length ?swept \<ge> max_clients")
      case True
      then show ?thesis using n(1) wf swept by (simp add: detect_cases)
    next
      case False
      have "counters_wf (upsert fst (client_of ?e, new_counter (ae_at ?e)) ?swept)" by (rule upsert_wf [OF swept]) (use n(2) [OF False] in simp)
      from upsert_wf [OF this, of "(op_client op, counted op (new_counter (ae_at ?e)))"] show ?thesis
        using n(1) False wf by (simp add: detect_cases op_client_def)
    qed
  qed
qed

text \<open>A counting step from a map with room works on the live counter or a new one, and on no other.\<close>

lemma detect_live:
  assumes "counters_wf cs" "room (op_event op) cs" "op_time op \<le> t"
  defines "c \<equiv> (case live (op_time op) (op_client op) cs of None \<Rightarrow> new_counter (op_time op) | Some c \<Rightarrow> c)"
  shows "fst (detect cfg op cs) = (if counts cfg op then judged cfg op (counted op c) else unjudged cfg op)"
    and "live t k (snd (detect cfg op cs)) =
      (if counts cfg op \<and> k = op_client op then if counting t (counted op c) then Some (counted op c) else None else live t k cs)"
    and "fst ` set (snd (detect cfg op cs)) \<subseteq> insert (op_client op) (fst ` set cs)"
proof -
  let ?e = "op_event op"
  let ?swept = "if length cs \<ge> max_clients then filter (\<lambda>(_, c). counting (ae_at ?e) c) cs else cs"
  have d: "distinct (map fst cs)" using assms(1) by (simp add: counters_wf_def)
  have "\<exists>cs'. counter ?e cs = (Some c, cs') \<and> (\<forall>k. k \<noteq> op_client op \<longrightarrow> live t k cs' = live t k cs)
    \<and> fst ` set cs' \<subseteq> insert (op_client op) (fst ` set cs)"
  proof (cases "live (ae_at ?e) (op_client op) cs")
    case (Some b)
    then show ?thesis using counter_known [of ?e cs b] by (simp add: c_def op_time_def op_client_def subset_insertI)
  next
    case None
    have "live t k ?swept = live t k cs" for k using live_sweep [OF d, of "ae_at ?e" t k] assms(3) by (simp add: op_time_def)
    moreover have "fst ` set ?swept \<subseteq> fst ` set cs" by auto
    ultimately show ?thesis using counter_new(1) [OF None [unfolded op_client_def] assms(1)] assms(2) None
      by (auto simp: c_def op_time_def op_client_def live_upsert)
  qed
  then obtain cs' where cs': "counter ?e cs = (Some c, cs')" "\<And>k. k \<noteq> op_client op \<Longrightarrow> live t k cs' = live t k cs"
    "fst ` set cs' \<subseteq> insert (op_client op) (fst ` set cs)" by blast
  show "fst (detect cfg op cs) = (if counts cfg op then judged cfg op (counted op c) else unjudged cfg op)"
    using cs' by (simp add: detect_cases)
  show "live t k (snd (detect cfg op cs)) =
      (if counts cfg op \<and> k = op_client op then if counting t (counted op c) then Some (counted op c) else None else live t k cs)"
    using cs' by (auto simp: detect_cases live_upsert)
  show "fst ` set (snd (detect cfg op cs)) \<subseteq> insert (op_client op) (fst ` set cs)"
    using cs'(1,3) by (auto simp: detect_cases)
qed

section \<open>Clients are counted apart\<close>

lemma counters_after_snoc: "counters_after cfg (ops @ [op]) = snd (detect cfg op (counters_after cfg ops))"
  by (simp add: counters_after_def)

lemma counters_after_wf: "counters_wf (counters_after cfg ops)"
proof (induction ops rule: rev_induct)
  case Nil
  then show ?case by (simp add: counters_after_def counters_wf_def)
qed (simp add: counters_after_snoc detect_wf)

lemma room_if_few:
  assumes "counters_wf cs" "fst ` set cs \<subseteq> K" "finite K" "card K \<le> max_clients" "client_of e \<in> K"
  shows "room e cs"
proof (cases "client_of e \<in> fst ` set cs")
  case False
  then have "fst ` set cs \<subset> K" using assms(2,5) by blast
  then have "card (fst ` set cs) < card K" using assms(3) by (rule psubset_card_mono [rotated])
  moreover have "card (fst ` set cs) = length cs" using assms(1) distinct_card [of "map fst cs"] by (simp add: counters_wf_def)
  ultimately show ?thesis using assms(4) by (simp add: room_def)
qed (simp add: room_def)

lemma counters_keys: "fst ` set (counters_after cfg ops) \<subseteq> op_client ` set ops"
proof (induction ops rule: rev_induct)
  case (snoc p ps)
  have "fst ` set (snd (detect cfg p cs)) \<subseteq> insert (op_client p) (fst ` set cs)" for cs
    by (auto simp: detect_cases counter_def op_client_def Let_def split: option.splits prod.splits if_splits)
  then show ?case using snoc by (force simp: counters_after_snoc)
qed (simp add: counters_after_def)

lemma room_for:
  assumes "finite K" "card K \<le> max_clients" "op_client ` set ops \<subseteq> K" "op_client op \<in> K"
  shows "room (op_event op) (counters_after cfg ops)"
  by (rule room_if_few [OF counters_after_wf subset_trans [OF counters_keys assms(3)] assms(1,2)]) (use assms(4) in \<open>simp add: op_client_def\<close>)

lemma counters_of_few:
  assumes "finite K" "card K \<le> max_clients" "op_client ` set ops \<subseteq> K"
    and "sorted (map op_time ops)" "\<forall>op \<in> set ops. op_time op \<le> t"
  shows "live t k (counters_after cfg ops) = live t k (counters_after cfg (filter (\<lambda>op. op_client op = k) ops))"
  using assms(3-5)
proof (induction ops arbitrary: t rule: rev_induct)
  case Nil
  then show ?case by (simp add: counters_after_def)
next
  case (snoc op ops)
  let ?own = "filter (\<lambda>op. op_client op = k) ops"
  have later: "\<forall>p \<in> set ops. op_time p \<le> op_time op" using snoc.prems(2) by (auto simp: sorted_append)
  have IH: "live u k (counters_after cfg ops) = live u k (counters_after cfg ?own)" if "op_time op \<le> u" for u
    using snoc.prems later that by (intro snoc.IH) (auto simp: sorted_append)
  have K: "op_client ` set ops \<subseteq> K" "op_client ` set ?own \<subseteq> K" "op_client op \<in> K" using snoc.prems(1) by auto
  note room = room_for [OF assms(1,2) K(1,3), of cfg] and room' = room_for [OF assms(1,2) K(2,3), of cfg]
  have t: "op_time op \<le> t" using snoc.prems(3) by simp
  note l = detect_live [OF counters_after_wf room t] and l' = detect_live [OF counters_after_wf room' t]
  show ?case
  proof (cases "op_client op = k")
    case True
    then show ?thesis using l(2) [where cfg = cfg and k = k] l'(2) [where cfg = cfg and k = k] IH [OF t] IH [OF order.refl] by (auto simp: counters_after_snoc)
  next
    case False
    then show ?thesis using l(2) [where cfg = cfg and k = k] IH [OF t] by (auto simp: counters_after_snoc)
  qed
qed

text \<open>
  While no more clients come than the map may hold and the clock goes forward, the verdict on a request
  or a response is the one of a detector that saw only this client: no other visitor can get it refused.
\<close>
theorem clients_are_counted_apart:
  assumes "sorted (map op_time (ops @ [op]))" "card (op_client ` set (ops @ [op])) \<le> max_clients"
  shows "verdict cfg ops op = verdict cfg (filter (\<lambda>o'. op_client o' = op_client op) ops) op"
proof -
  let ?K = "op_client ` set (ops @ [op])" and ?own = "filter (\<lambda>o'. op_client o' = op_client op) ops"
  have ops: "sorted (map op_time ops)" "\<forall>p \<in> set ops. op_time p \<le> op_time op" using assms(1) by (auto simp: sorted_append)
  have K: "op_client ` set ops \<subseteq> ?K" "op_client ` set ?own \<subseteq> ?K" "op_client op \<in> ?K" "finite ?K" by auto
  have l: "live (op_time op) (op_client op) (counters_after cfg ops) = live (op_time op) (op_client op) (counters_after cfg ?own)"
    by (rule counters_of_few [OF K(4) assms(2) K(1) ops])
  have "room (op_event op) (counters_after cfg ops)" "room (op_event op) (counters_after cfg ?own)"
    using room_for [OF K(4) assms(2) K(1,3)] room_for [OF K(4) assms(2) K(2,3)] by blast+
  from detect_live(1) [OF counters_after_wf this(1) order.refl] detect_live(1) [OF counters_after_wf this(2) order.refl] l
  show ?thesis by (simp add: verdict_def)
qed

definition refused_login :: "string \<Rightarrow> ms \<Rightarrow> detector_op" where
  "refused_login ip t = Responds (jp_event ip ''/'' t) 401"

definition two_clients :: "detector_op list" where
  "two_clients = [refused_login ''1.1.1.1'' 0, refused_login ''2.2.2.2'' 5, refused_login ''1.1.1.1'' 10]"

text \<open>The first client has reached its limit of two failed logins; the second one not, a minute after its first.\<close>

lemma clients_are_counted_apart_witness:
  "verdict jp_config two_clients (refused_login ''2.2.2.2'' 60010) = None
   \<and> verdict jp_config (take 2 two_clients) (two_clients ! 2) = Some AuthenticationBurst
   \<and> verdict jp_config [two_clients ! 1] (refused_login ''2.2.2.2'' 60010) = None"
proof -
  let ?op = "refused_login ''2.2.2.2'' 60010"
  have run: "sorted (map op_time (two_clients @ [?op]))"
    "filter (\<lambda>o'. op_client o' = op_client ?op) two_clients = [two_clients ! 1]"
    "verdict jp_config two_clients ?op = None" "verdict jp_config (take 2 two_clients) (two_clients ! 2) = Some AuthenticationBurst"
    by (simp_all add: two_clients_def refused_login_def jp_event_def jp_config_def op_time_def op_client_def client_of_def verdict_def
      counters_after_def detect_response_def counter_def counting_def new_counter_def window_ms_def max_clients_def)
  have "card (op_client ` set (two_clients @ [?op])) \<le> card (set (two_clients @ [?op]))" by (rule card_image_le) simp
  also have "\<dots> \<le> length (two_clients @ [?op])" by (rule card_length)
  finally have "card (op_client ` set (two_clients @ [?op])) \<le> max_clients" by (simp add: two_clients_def max_clients_def)
  from clients_are_counted_apart [OF run(1) this, of jp_config, unfolded run(2)] run show ?thesis by simp
qed

section \<open>The rate of accepted requests\<close>

lemma detect_either:
  assumes "counters_wf cs" "counts cfg op" "op_time op \<le> t"
  defines "c \<equiv> (case live (op_time op) (op_client op) cs of None \<Rightarrow> new_counter (op_time op) | Some c \<Rightarrow> c)"
  shows "fst (detect cfg op cs) = judged cfg op (counted op c) \<and>
      live t k (snd (detect cfg op cs)) = (if k = op_client op then if counting t (counted op c) then Some (counted op c) else None else live t k cs)
    \<or> fst (detect cfg op cs) = Some CapacityExceeded \<and> live t k (snd (detect cfg op cs)) = live t k cs"
proof -
  let ?e = "op_event op"
  let ?swept = "if length cs \<ge> max_clients then filter (\<lambda>(_, c). counting (ae_at ?e) c) cs else cs"
  have d: "distinct (map fst cs)" using assms(1) by (simp add: counters_wf_def)
  have swept: "live t k ?swept = live t k cs" for k
    using live_sweep [OF d, of "ae_at ?e" t k] assms(3) by (simp add: op_time_def)
  show ?thesis
  proof (cases "live (ae_at ?e) (op_client op) cs")
    case (Some b)
    then show ?thesis using counter_known [of ?e cs b] assms(2)
      by (simp add: detect_cases c_def op_time_def op_client_def live_upsert)
  next
    case None
    then have c: "c = new_counter (ae_at ?e)" by (simp add: c_def op_time_def)
    note n = counter_new(1) [OF None [unfolded op_client_def] assms(1)]
    show ?thesis
    proof (cases "\<not> room ?e cs \<and> length ?swept \<ge> max_clients")
      case True
      then have "counter ?e cs = (None, ?swept)" using n by simp
      then show ?thesis using assms(2) swept by (simp add: detect_cases)
    next
      case False
      then have "counter ?e cs = (Some c, upsert fst (client_of ?e, c) ?swept)" using n c by simp
      with swept obtain sw where "counter ?e cs = (Some c, upsert fst (client_of ?e, c) sw)" "\<And>k. live t k sw = live t k cs" by blast
      then show ?thesis using assms(2) by (simp add: detect_cases live_upsert op_client_def)
    qed
  qed
qed

text \<open>The times at which requests of a client passed the detector, those of a service policy apart.\<close>

definition passes :: "client \<Rightarrow> detector_op \<Rightarrow> detection_reason option \<Rightarrow> bool" where
  "passes k op r \<longleftrightarrow> (case op of Inspects e policy \<Rightarrow> \<not> policy \<and> client_of e = k \<and> r = None | Responds _ _ \<Rightarrow> False)"

definition passed :: "detector_config \<Rightarrow> client \<Rightarrow> detector_op list \<Rightarrow> ms list" where
  "passed cfg k ops = map (\<lambda>i. op_time (ops ! i)) (filter (\<lambda>i. passes k (ops ! i) (verdict cfg (take i ops) (ops ! i))) [0..<length ops])"

lemma passed_snoc: "passed cfg k (ops @ [op]) = passed cfg k ops @ (if passes k op (verdict cfg ops op) then [op_time op] else [])"
proof -
  have "filter (\<lambda>i. passes k ((ops @ [op]) ! i) (verdict cfg (take i (ops @ [op])) ((ops @ [op]) ! i))) [0..<length ops]
      = filter (\<lambda>i. passes k (ops ! i) (verdict cfg (take i ops) (ops ! i))) [0..<length ops]"
    by (rule filter_cong) (simp_all add: nth_append)
  then show ?thesis by (simp add: passed_def nth_append cong: map_cong)
qed

text \<open>Every passed request with the start of its window.\<close>

definition windows_ok :: "nat \<Rightarrow> (ms \<times> ms) list \<Rightarrow> bool" where
  "windows_ok n log \<longleftrightarrow>
     (\<forall>(t, s) \<in> set log. s \<le> t \<and> t < s + window_ms)
     \<and> (\<forall>s \<in> snd ` set log. \<forall>s' \<in> snd ` set log. s < s' \<longrightarrow> s + window_ms \<le> s')
     \<and> (\<forall>s. length (filter (\<lambda>x. snd x = s) log) \<le> n)"

definition window_open :: "ms \<Rightarrow> access_counter option \<Rightarrow> (ms \<times> ms) list \<Rightarrow> bool" where
  "window_open t c log \<longleftrightarrow> (case c of
       None \<Rightarrow> \<forall>s \<in> snd ` set log. s + window_ms \<le> t
     | Some c \<Rightarrow> ct_start c \<le> t \<and> (\<forall>s \<in> snd ` set log. s = ct_start c \<or> s + window_ms \<le> ct_start c)
         \<and> length (filter (\<lambda>x. snd x = ct_start c) log) \<le> ct_requests c)"

lemma window_open_later:
  assumes "window_open t (live t k cs) log" "t \<le> u"
  shows "window_open u (live u k cs) log"
proof (cases "live t k cs")
  case None
  then have "live u k cs = None" using assms(2) by (auto simp: live_def split: option.splits if_splits dest: counting_later)
  then show ?thesis using None assms by (auto simp: window_open_def)
next
  case (Some c)
  then have "live u k cs = (if counting u c then Some c else None)" by (auto simp: live_def split: option.splits if_splits)
  then show ?thesis using Some assms by (auto simp: window_open_def counting_def)
qed

lemma window_open_counter:
  assumes "window_open t (live t k cs) log"
  defines "c \<equiv> (case live t k cs of None \<Rightarrow> new_counter t | Some c \<Rightarrow> c)"
  shows "window_open t (Some c) log" "counting t c"
proof -
  show "counting t c" by (auto simp: c_def live_def counting_def new_counter_def window_ms_def split: option.splits if_splits)
  show "window_open t (Some c) log"
  proof (cases "live t k cs")
    case None
    then have old: "\<forall>s \<in> snd ` set log. s + window_ms \<le> t" using assms(1) by (simp add: window_open_def)
    then have "filter (\<lambda>x. snd x = t) log = []" by (force simp: filter_empty_conv window_ms_def)
    then show ?thesis using None old by (simp add: window_open_def c_def new_counter_def)
  qed (use assms in \<open>simp add: c_def\<close>)
qed

lemma windows_ok_snoc:
  assumes "windows_ok n log" "window_open t (Some c) log" "counting t c" "ct_requests c < n"
  shows "windows_ok n (log @ [(t, ct_start c)])"
    and "window_open t (Some (c\<lparr>ct_requests := ct_requests c + 1\<rparr>)) (log @ [(t, ct_start c)])"
  using assms by (auto simp: windows_ok_def window_open_def counting_def window_ms_def)

lemma run_windows:
  assumes "sorted (map op_time ops)" "\<forall>op \<in> set ops. op_time op \<le> t" "0 < dg_requestsPerMinute cfg"
  shows "\<exists>log. map fst log = passed cfg k ops \<and> windows_ok (dg_requestsPerMinute cfg - 1) log
    \<and> window_open t (live t k (counters_after cfg ops)) log"
  using assms(1,2)
proof (induction ops arbitrary: t rule: rev_induct)
  case Nil
  then show ?case by (intro exI [of _ "[]"]) (simp add: passed_def windows_ok_def window_open_def counters_after_def live_def)
next
  case (snoc op ops)
  let ?cs = "counters_after cfg ops" and ?u = "op_time op"
  have "\<exists>log. map fst log = passed cfg k (ops @ [op]) \<and> windows_ok (dg_requestsPerMinute cfg - 1) log
    \<and> window_open ?u (live ?u k (counters_after cfg (ops @ [op]))) log"
  proof -
    obtain log where log: "map fst log = passed cfg k ops" "windows_ok (dg_requestsPerMinute cfg - 1) log" "window_open ?u (live ?u k ?cs) log"
      using snoc.IH [of ?u] snoc.prems by (auto simp: sorted_append)
    let ?c = "case live ?u k ?cs of None \<Rightarrow> new_counter ?u | Some c \<Rightarrow> c"
    have same: ?thesis if "\<not> passes k op (verdict cfg ops op)" "live ?u k (counters_after cfg (ops @ [op])) = live ?u k ?cs"
      using that log by (auto simp: passed_snoc)
    have step: "passed cfg k (ops @ [op]) = passed cfg k ops @ (if passes k op (verdict cfg ops op) then [?u] else [])" by (rule passed_snoc)
    show ?thesis
    proof (cases "counts cfg op \<and> op_client op = k")
      case False
      then have "\<not> passes k op (verdict cfg ops op)"
        by (cases op) (auto simp: passes_def op_client_def verdict_def inspect_def)
      moreover have "live ?u k (counters_after cfg (ops @ [op])) = live ?u k ?cs"
      proof (cases "counts cfg op")
        case True
        then have "k \<noteq> op_client op" using False by blast
        then show ?thesis using detect_either [OF counters_after_wf [of cfg ops] True order.refl, of k]
          unfolding counters_after_snoc by (elim disjE conjE) simp_all
      qed (simp add: counters_after_snoc detect_cases)
      ultimately show ?thesis by (rule same)
    next
      case True
      then have op: "counts cfg op" "op_client op = k" by blast+
      have "verdict cfg ops op = judged cfg op (counted op ?c) \<and>
          live ?u k (counters_after cfg (ops @ [op])) = (if counting ?u (counted op ?c) then Some (counted op ?c) else None)
        \<or> verdict cfg ops op = Some CapacityExceeded \<and> live ?u k (counters_after cfg (ops @ [op])) = live ?u k ?cs"
        using detect_either [OF counters_after_wf [of cfg ops] op(1) order.refl, of k]
        by (simp only: counters_after_snoc verdict_def op(2) refl if_True)
      then consider (judged) "verdict cfg ops op = judged cfg op (counted op ?c)"
          "live ?u k (counters_after cfg (ops @ [op])) = (if counting ?u (counted op ?c) then Some (counted op ?c) else None)"
        | (full) "verdict cfg ops op = Some CapacityExceeded" "live ?u k (counters_after cfg (ops @ [op])) = live ?u k ?cs"
        by blast
      then show ?thesis
      proof cases
        case full
        then show ?thesis by (intro same) (auto simp: passes_def split: detector_op.split)
      next
        case judged
        note o' = window_open_counter [OF log(3)]
        have counting': "counting ?u (counted op ?c)" using o'(2) by (cases op) (simp_all add: counting_def)
        show ?thesis
        proof (cases op)
          case (Responds e status)
          then show ?thesis using judged counting' o'(1) log by (auto simp: passed_snoc passes_def window_open_def)
        next
          case (Inspects e policy)
          show ?thesis
          proof (cases "verdict cfg ops op = None")
            case False
            then show ?thesis using Inspects judged counting' o'(1) log
              by (auto simp: passed_snoc passes_def window_open_def)
          next
            case None: True
            then have few: "ct_requests ?c < dg_requestsPerMinute cfg - 1" using judged(1) Inspects by (auto split: if_splits)
            have pass: "passes k op (verdict cfg ops op)" using None True Inspects by (simp add: passes_def op_client_def)
            have live': "live ?u k (counters_after cfg (ops @ [op])) = Some (?c\<lparr>ct_requests := ct_requests ?c + 1\<rparr>)"
              using judged(2) counting' Inspects by simp
            have "map fst (log @ [(?u, ct_start ?c)]) = passed cfg k (ops @ [op])" using log(1) pass step by simp
            then show ?thesis unfolding live' using windows_ok_snoc [OF log(2) o' few] by blast
          qed
        qed
      qed
    qed
  qed
  moreover have "?u \<le> t" using snoc.prems(2) by simp
  ultimately show ?case using window_open_later by blast
qed

lemma two_windows:
  assumes "windows_ok n log"
  shows "length (filter (\<lambda>x. a \<le> fst x \<and> fst x < a + window_ms) log) \<le> 2 * n"
proof (cases "filter (\<lambda>x. a \<le> fst x \<and> fst x < a + window_ms) log = []")
  case False
  let ?in = "\<lambda>x :: ms \<times> ms. a \<le> fst x \<and> fst x < a + window_ms"
  let ?S = "snd ` set (filter ?in log)"
  have range: "a - window_ms < s \<and> s < a + window_ms" if "s \<in> ?S" for s
    using that assms by (fastforce simp: windows_ok_def)
  have gap: "s < s' \<Longrightarrow> s + window_ms \<le> s'" if "s \<in> ?S" "s' \<in> ?S" for s s'
    using that assms unfolding windows_ok_def by (metis (no_types, lifting) filter_is_subset image_mono subsetD)
  define s1 where "s1 = Min ?S"
  have fin: "finite ?S" by simp
  have ne: "?S \<noteq> {}" unfolding image_is_empty set_empty by (rule False)
  have s1: "s1 \<in> ?S" "\<forall>s \<in> ?S. s1 \<le> s" unfolding s1_def using Min_in [OF fin ne] Min_le [OF fin] by blast+
  have same: "s = s'" if "s \<in> ?S - {s1}" "s' \<in> ?S - {s1}" for s s'
  proof -
    have "s1 + window_ms \<le> s" "s1 + window_ms \<le> s'" using that s1 gap [OF s1(1)] by fastforce+
    then show ?thesis using that range [of s1] range [of s] range [of s'] s1(1) gap [of s s'] gap [of s' s]
      by (cases s s' rule: linorder_cases) auto
  qed
  obtain s2 where s2: "?S \<subseteq> {s1, s2}"
  proof (cases "?S - {s1} = {}")
    case True
    then show ?thesis using that [of s1] by blast
  next
    case False
    then obtain s2 where "s2 \<in> ?S - {s1}" by blast
    then show ?thesis using that [of s2] same by blast
  qed
  have "length (filter ?in log) \<le> length (filter (\<lambda>x. snd x = s1 \<or> snd x = s2) log)"
  proof -
    have mono: "length (filter P xs) \<le> length (filter Q xs)" if "\<And>x. x \<in> set xs \<Longrightarrow> P x \<Longrightarrow> Q x" for P Q and xs :: "(ms \<times> ms) list"
      using that by (induction xs) auto
    have "snd x = s1 \<or> snd x = s2" if "x \<in> set log" "?in x" for x
    proof -
      have "x \<in> set (filter ?in log)" using that by simp
      then show ?thesis using s2 imageI [of x "set (filter ?in log)" snd] by blast
    qed
    then show ?thesis by (rule mono)
  qed
  also have "\<dots> \<le> length (filter (\<lambda>x. snd x = s1) log) + length (filter (\<lambda>x. snd x = s2) log)"
    by (induction log) auto
  also have "\<dots> \<le> n + n" using assms by (intro add_mono) (simp_all add: windows_ok_def)
  also have "\<dots> = 2 * n" by simp
  finally show ?thesis .
qed simp

text \<open>
  C32. In no minute do more requests of a client pass than twice one less than the limit, whatever other
  clients do and although counters are dropped when the map is full.
\<close>
theorem accepted_rate_is_bounded:
  assumes "sorted (map op_time ops)" "0 < dg_requestsPerMinute cfg"
  shows "length (filter (\<lambda>t. a \<le> t \<and> t < a + window_ms) (passed cfg k ops)) \<le> 2 * (dg_requestsPerMinute cfg - 1)"
proof -
  have "\<exists>t. \<forall>op \<in> set ops. op_time op \<le> t" by (rule exI [of _ "Max (op_time ` set ops)"]) simp
  then obtain t where "\<forall>op \<in> set ops. op_time op \<le> t" by blast
  from run_windows [OF assms(1) this assms(2)] obtain log where log: "map fst log = passed cfg k ops" "windows_ok (dg_requestsPerMinute cfg - 1) log" by blast
  have "filter (\<lambda>t. a \<le> t \<and> t < a + window_ms) (passed cfg k ops) = map fst (filter (\<lambda>x. a \<le> fst x \<and> fst x < a + window_ms) log)"
    by (simp add: log(1) [symmetric] filter_map comp_def)
  then show ?thesis using two_windows [OF log(2), of a] by simp
qed


definition page :: "ms \<Rightarrow> detector_op" where
  "page t = Inspects (jp_event ''::1'' ''/'' t) False"

definition page_requests :: "detector_op list" where
  "page_requests = [page 0, page 59000, page 59500, page 60000, page 60001, page 60002]"

text \<open>With a limit of three, two requests at the end of one window and two of the next pass within a minute.\<close>

lemma accepted_rate_is_bounded_witness:
  "passed jp_config (''s'', ''::1'') page_requests = [0, 59000, 60000, 60001]
   \<and> length (filter (\<lambda>t. 59000 \<le> t \<and> t < 59000 + window_ms) (passed jp_config (''s'', ''::1'') page_requests)) \<le> 4"
proof -
  have "is_ip ''::1''" "country_code ''JP''" "\<not> exploit_path ''/''" by code_simp+
  then have accepted: "refused jp_config (jp_event ''::1'' ''/'' t) = None" for t by (simp add: refused_def jp_event_def jp_config_def)
  have "passed jp_config (''s'', ''::1'') page_requests = [0, 59000, 60000, 60001]"
    by (simp add: passed_def page_requests_def page_def passes_def verdict_def counters_after_def upt_rec numeral_eq_Suc)
      (simp add: inspect_def accepted [unfolded jp_event_def jp_config_def] counter_def client_of_def jp_event_def counting_def new_counter_def window_ms_def max_clients_def op_time_def jp_config_def)
  moreover have "sorted (map op_time page_requests)" "0 < dg_requestsPerMinute jp_config" "dg_requestsPerMinute jp_config = 3"
    by (simp_all add: page_requests_def page_def op_time_def jp_event_def jp_config_def)
  ultimately show ?thesis using accepted_rate_is_bounded [of page_requests jp_config 59000 "(''s'', ''::1'')"] by simp
qed

end
