(* ===== verification/Intrusion_Monitor.thy ===== *)
theory Intrusion_Monitor imports Intrusion_Detector Async begin

text \<open>
  The site cutoff (\<open>src/intrusion/monitor.ts\<close>, with the store of \<open>store.ts\<close> and the start and stop of
  \<open>runtime.ts\<close> in the mode \<open>site-cutoff\<close>): the first suspicious request trips a latch that closes the
  gateway; a task contains the tunnels and reports, and the latch survives restarts.

  The world of a stretch says which attempts to save fail, counted by \<open>im_saves\<close>, and whether the access
  log can be written. \<open>im_reported\<close> and \<open>im_contained\<close> are history variables: the reports delivered, and
  whether the tunnels were contained since the incident; \<open>im_tripped\<close> says that there was an incident.
\<close>

section \<open>State\<close>

datatype incident_reason = Detected detection_reason | UncleanRestart
datatype containment_state = ContainPending | Contained | ContainFailed
datatype notice_state = NoticePending | NoticeSent

record incident =
  in_id :: string
  in_site :: string
  in_service :: string
  in_at :: ms
  in_reason :: incident_reason
  in_containment :: containment_state
  in_notification :: notice_state
  in_notifiedContainment :: "containment_state option"
  in_persistenceFailed :: bool

record monitor =
  im_counters :: counters
  im_incident :: "incident option"
  im_work :: bool
  im_timer :: bool
  im_stopping :: bool
  im_saved :: "incident option"
  im_running :: bool
  im_saves :: nat
  im_log :: "(access_event \<times> nat \<times> detection_reason option) list"
  im_tripped :: bool
  im_contained :: bool
  im_reported :: "incident list"

record monitor_world =
  mw_now :: ms
  mw_id :: string
  mw_save_fails :: "nat \<Rightarrow> bool"
  mw_log_fails :: bool

datatype monitor_query = MqNotify incident | MqContain | MqTurn
datatype monitor_answer = MaOk | MaFails

type_synonym monitor_prog = "(monitor, monitor_world, monitor_query, monitor_answer, string, unit) prog"
type_synonym monitoring = "(monitor, monitor_world, monitor_query, monitor_answer, string, unit) async"

section \<open>The workflow of an incident\<close>

definition on_incident :: "(incident \<Rightarrow> incident) \<Rightarrow> monitor \<Rightarrow> monitor" where
  "on_incident f s = s\<lparr>im_incident := map_option f (im_incident s)\<rparr>"

definition persist :: "monitor_world \<Rightarrow> monitor \<Rightarrow> monitor" where
  "persist w s = (case im_incident s of
       None \<Rightarrow> s
     | Some i \<Rightarrow>
         (if mw_save_fails w (im_saves s) then on_incident (\<lambda>i. i\<lparr>in_persistenceFailed := True\<rparr>) s
          else on_incident (\<lambda>i. i\<lparr>in_persistenceFailed := False\<rparr>) (s\<lparr>im_saved := Some (i\<lparr>in_persistenceFailed := False\<rparr>)\<rparr>))
           \<lparr>im_saves := im_saves s + 1\<rparr>)"

definition persisting :: monitoring where
  "persisting = look (\<lambda>w _. modify (persist w))"

definition notify_incident :: monitoring where
  "notify_incident = look (\<lambda>_ s. case im_incident s of
       None \<Rightarrow> ret ()
     | Some i \<Rightarrow>
         if in_notification i = NoticeSent \<and> in_notifiedContainment i = Some (in_containment i) then ret ()
         else bind (await (MqNotify i)) (\<lambda>a. andThen (case a of
               MaOk \<Rightarrow> modify (\<lambda>s. on_incident (\<lambda>i. i\<lparr>in_notification := NoticeSent, in_notifiedContainment := Some (in_containment i)\<rparr>)
                   (s\<lparr>im_reported := im_reported s @ [i]\<rparr>))
             | MaFails \<Rightarrow> modify (on_incident (\<lambda>i. i\<lparr>in_notification := NoticePending\<rparr>)))
           persisting))"

definition contain_incident :: monitoring where
  "contain_incident = andThen (bind (await MqContain) (\<lambda>a. case a of
       MaOk \<Rightarrow> modify (\<lambda>s. on_incident (\<lambda>i. i\<lparr>in_containment := Contained\<rparr>) (s\<lparr>im_contained := True\<rparr>))
     | MaFails \<Rightarrow> modify (on_incident (\<lambda>i. i\<lparr>in_containment := ContainFailed\<rparr>))))
     persisting"

definition reconcile_incident :: monitoring where
  "reconcile_incident = look (\<lambda>_ s. case im_incident s of
       None \<Rightarrow> ret ()
     | Some _ \<Rightarrow> andThen persisting (andThen (call MqTurn notify_incident)
         (look (\<lambda>_ s. andThen
           (if map_option in_containment (im_incident s) = Some Contained then ret () else contain_incident)
           (call MqTurn notify_incident)))))"

text \<open>The monitor and the workflows that run; \<open>schedule\<close> starts one and runs it up to its first \<open>await\<close>.\<close>

type_synonym monitor_sys = "monitor \<times> monitor_prog list"

definition schedule :: "monitor_world \<Rightarrow> monitor_sys \<Rightarrow> monitor_sys" where
  "schedule w m = (case m of (s, ts) \<Rightarrow>
     if im_work s \<or> im_stopping s \<or> im_incident s = None then (s, ts)
     else (case reconcile_incident w (s\<lparr>im_work := True\<rparr>) of (s', p) \<Rightarrow> (s', ts @ [p])))"

definition new_incident :: "string \<Rightarrow> monitor_world \<Rightarrow> string \<Rightarrow> ms \<Rightarrow> incident_reason \<Rightarrow> incident" where
  "new_incident site w service t reason = \<lparr>in_id = mw_id w, in_site = site, in_service = service, in_at = t, in_reason = reason,
     in_containment = ContainPending, in_notification = NoticePending, in_notifiedContainment = None, in_persistenceFailed = False\<rparr>"

definition trip :: "string \<Rightarrow> monitor_world \<Rightarrow> string \<Rightarrow> ms \<Rightarrow> incident_reason \<Rightarrow> monitor_sys \<Rightarrow> monitor_sys" where
  "trip site w service t reason m = (case m of (s, ts) \<Rightarrow>
     if im_incident s \<noteq> None then (s, ts)
     else schedule w (persist w (s\<lparr>im_incident := Some (new_incident site w service t reason), im_tripped := True, im_contained := False\<rparr>), ts))"

section \<open>Requests, the timer, start and stop\<close>

definition write_log :: "monitor_world \<Rightarrow> access_event \<Rightarrow> nat \<Rightarrow> detection_reason option \<Rightarrow> monitor \<Rightarrow> monitor" where
  "write_log w e status reason s = (if mw_log_fails w then s else s\<lparr>im_log := im_log s @ [(e, status, reason)]\<rparr>)"

definition monitor_inspect :: "string \<Rightarrow> detector_config \<Rightarrow> monitor_world \<Rightarrow> access_event \<Rightarrow> monitor_sys \<Rightarrow> monitor_sys \<times> bool" where
  "monitor_inspect site cfg w e m = (case m of (s, ts) \<Rightarrow>
     if im_stopping s \<or> im_incident s \<noteq> None then (m, False)
     else (case inspect cfg e False (im_counters s) of (reason, cs) \<Rightarrow>
       let m' = (case reason of
             None \<Rightarrow> (s\<lparr>im_counters := cs\<rparr>, ts)
           | Some r \<Rightarrow> trip site w (ae_service e) (ae_at e) (Detected r) (write_log w e 403 (Some r) (s\<lparr>im_counters := cs\<rparr>), ts))
       in (m', im_incident (fst m') = None)))"

definition monitor_response :: "string \<Rightarrow> detector_config \<Rightarrow> monitor_world \<Rightarrow> access_event \<Rightarrow> nat \<Rightarrow> monitor_sys \<Rightarrow> monitor_sys" where
  "monitor_response site cfg w e status m = (case m of (s, ts) \<Rightarrow>
     if im_incident s \<noteq> None then m
     else (case detect_response cfg (e\<lparr>ae_at := mw_now w\<rparr>) status (im_counters s) of (reason, cs) \<Rightarrow>
       let m' = (write_log w e status reason (s\<lparr>im_counters := cs\<rparr>), ts)
       in if mw_log_fails w then trip site w (ae_service e) (ae_at e) (Detected EvidenceFailure) m'
          else (case reason of None \<Rightarrow> m' | Some r \<Rightarrow> trip site w (ae_service e) (ae_at e) (Detected r) m')))"

text \<open>
  \<open>boot\<close> is the part of \<open>startIntrusionRuntime\<close> from reading the store to \<open>monitor.start()\<close>, without an
  \<open>await\<close> but that of the listener; no request comes before.
\<close>

definition boot :: "string \<Rightarrow> monitor_world \<Rightarrow> monitor \<Rightarrow> monitor_sys" where
  "boot site w s =
     (let s' = s\<lparr>im_counters := [], im_incident := im_saved s, im_work := False, im_timer := True, im_stopping := False, im_running := True\<rparr>
      in schedule w (if im_running s then trip site w ''excubitor'' (mw_now w) UncleanRestart (s', []) else (s', [])))"

definition stop_monitor :: "monitor \<Rightarrow> monitor" where
  "stop_monitor s = s\<lparr>im_stopping := True, im_timer := False\<rparr>"

text \<open>The end of a clean stop: only without an incident the store records that nothing runs.\<close>

definition stopped :: "monitor \<Rightarrow> monitor" where
  "stopped s = (if im_incident s = None then s\<lparr>im_running := False\<rparr> else s)"

datatype monitor_phase = MonitorDown | MonitorUp

text \<open>
  The machine: the site's process is down, or up with its tasks. It may be killed at any point, which
  leaves the store.
\<close>

inductive monitor_runs :: "string \<Rightarrow> detector_config \<Rightarrow> monitor_phase \<Rightarrow> monitor_sys \<Rightarrow> bool" for site cfg where
  first: "monitor_runs site cfg MonitorDown (\<lparr>im_counters = [], im_incident = None, im_work = False, im_timer = False, im_stopping = False,
      im_saved = None, im_running = False, im_saves = 0, im_log = [], im_tripped = False, im_contained = False, im_reported = []\<rparr>, [])"
| boots: "monitor_runs site cfg MonitorDown (s, ts) \<Longrightarrow> monitor_runs site cfg MonitorUp (boot site w s)"
| inspects: "monitor_runs site cfg MonitorUp m \<Longrightarrow> monitor_runs site cfg MonitorUp (fst (monitor_inspect site cfg w e m))"
| responds: "monitor_runs site cfg MonitorUp m \<Longrightarrow> monitor_runs site cfg MonitorUp (monitor_response site cfg w e status m)"
| ticks: "monitor_runs site cfg MonitorUp (s, ts) \<Longrightarrow> im_timer s \<Longrightarrow> monitor_runs site cfg MonitorUp (schedule w (s, ts))"
| resumes: "monitor_runs site cfg MonitorUp (s, ts) \<Longrightarrow> i < length ts \<Longrightarrow> ts ! i = Await q k \<Longrightarrow> k a w s = (s', p)
    \<Longrightarrow> monitor_runs site cfg MonitorUp (s', ts[i := p])"
| settles: "monitor_runs site cfg MonitorUp (s, ts1 @ Return r # ts2) \<Longrightarrow> monitor_runs site cfg MonitorUp (s\<lparr>im_work := False\<rparr>, ts1 @ ts2)"
| stops: "monitor_runs site cfg MonitorUp (s, ts) \<Longrightarrow> monitor_runs site cfg MonitorUp (stop_monitor s, ts)"
| ends: "monitor_runs site cfg MonitorUp (s, []) \<Longrightarrow> im_stopping s \<Longrightarrow> monitor_runs site cfg MonitorDown (stopped s, [])"
| killed: "monitor_runs site cfg MonitorUp (s, ts) \<Longrightarrow> monitor_runs site cfg MonitorDown (s, [])"

end
