(* ===== verification/Intrusion_Safety.thy ===== *)
theory Intrusion_Safety imports Intrusion_Monitor begin

text \<open>
  What the latch of the intrusion monitor keeps through requests, responses, timers, failing saves, kills
  and restarts: it never opens, one workflow runs at a time, and the stored incident says only what
  happened.
\<close>

section \<open>The workflow\<close>

definition true_record :: "monitor \<Rightarrow> incident \<Rightarrow> bool" where
  "true_record s i \<longleftrightarrow> (in_containment i = Contained \<longrightarrow> im_contained s)
     \<and> (in_notification i = NoticeSent \<longrightarrow>
          (\<exists>r \<in> set (im_reported s). in_id r = in_id i \<and> in_notifiedContainment i = Some (in_containment r)))"

definition latched :: "monitor \<Rightarrow> bool" where
  "latched s \<longleftrightarrow> im_tripped s \<and> im_incident s \<noteq> None \<and> im_running s
     \<and> (\<forall>i. im_incident s = Some i \<or> im_saved s = Some i \<longrightarrow> true_record s i)"

definition others_do :: "monitor \<Rightarrow> monitor \<Rightarrow> bool" where
  "others_do s s' \<longleftrightarrow> im_incident s' = im_incident s"

definition workflow_does :: "monitor \<Rightarrow> monitor \<Rightarrow> bool" where
  "workflow_does s s' \<longleftrightarrow> im_work s' = im_work s \<and> im_stopping s' = im_stopping s \<and> im_timer s' = im_timer s"

interpretation latch: async_safety latched others_do workflow_does "\<lambda>_ _ _. True" "\<lambda>_ _. True"
  by unfold_locales (auto simp: workflow_does_def)

lemma persist_latched: "latched s \<Longrightarrow> latched (persist w s) \<and> workflow_does s (persist w s)"
  by (auto simp: latched_def persist_def on_incident_def true_record_def workflow_does_def split: option.splits)

lemma ok_persisting: "latch.ok persisting"
  unfolding persisting_def by (intro latch.ok_look latch.ok_modify) (simp add: persist_latched)

lemma ok_notify: "latch.ok notify_incident"
  unfolding notify_incident_def latch.ok_def
proof (intro latch.triple_look latch.triple_case_option latch.triple_if)
  fix w :: monitor_world and s :: monitor and i
  assume i: "im_incident s = Some i"
  let ?L = "\<lambda>s. im_incident s = Some i"
  show "latch.triple (\<lambda>t. True \<and> t = s) (bind (await (MqNotify i)) (\<lambda>a. andThen (case a of
      MaOk \<Rightarrow> modify (\<lambda>s. on_incident (\<lambda>i. i\<lparr>in_notification := NoticeSent, in_notifiedContainment := Some (in_containment i)\<rparr>)
                (s\<lparr>im_reported := im_reported s @ [i]\<rparr>))
    | MaFails \<Rightarrow> modify (on_incident (\<lambda>i. i\<lparr>in_notification := NoticePending\<rparr>))) persisting)) (\<lambda>_ _. True)"
  proof (rule latch.triple_bind)
    show "latch.triple (\<lambda>t. True \<and> t = s) (await (MqNotify i)) (\<lambda>_. ?L)"
      by (rule latch.triple_await [where L = ?L]) (auto simp: latch.stable_def others_do_def i)
    show "latch.triple ?L (andThen (case a of
        MaOk \<Rightarrow> modify (\<lambda>s. on_incident (\<lambda>i. i\<lparr>in_notification := NoticeSent, in_notifiedContainment := Some (in_containment i)\<rparr>)
                  (s\<lparr>im_reported := im_reported s @ [i]\<rparr>))
      | MaFails \<Rightarrow> modify (on_incident (\<lambda>i. i\<lparr>in_notification := NoticePending\<rparr>))) persisting) (\<lambda>_ _. True)" for a
    proof (rule latch.triple_andThen [where Q = "\<lambda>_ _. True"])
      show "latch.triple ?L (case a of
          MaOk \<Rightarrow> modify (\<lambda>s. on_incident (\<lambda>i. i\<lparr>in_notification := NoticeSent, in_notifiedContainment := Some (in_containment i)\<rparr>)
                    (s\<lparr>im_reported := im_reported s @ [i]\<rparr>))
        | MaFails \<Rightarrow> modify (on_incident (\<lambda>i. i\<lparr>in_notification := NoticePending\<rparr>))) (\<lambda>_ _. True)"
        by (cases a) (auto intro!: latch.triple_modify simp: latched_def on_incident_def true_record_def workflow_does_def)
    qed (simp_all add: latch.ok_triple [OF ok_persisting])
  qed simp
qed (simp_all add: latch.triple_ret)

lemma ok_contain: "latch.ok contain_incident"
  unfolding contain_incident_def
proof (intro latch.ok_andThen latch.ok_bind ok_persisting)
  show "latch.ok (case a of
       MaOk \<Rightarrow> modify (\<lambda>s. on_incident (\<lambda>i. i\<lparr>in_containment := Contained\<rparr>) (s\<lparr>im_contained := True\<rparr>))
     | MaFails \<Rightarrow> modify (on_incident (\<lambda>i. i\<lparr>in_containment := ContainFailed\<rparr>)))" for a
    by (cases a) (auto intro!: latch.ok_modify simp: latched_def on_incident_def true_record_def workflow_does_def)
qed (simp add: latch.ok_await)

lemma ok_reconcile: "latch.ok reconcile_incident"
  unfolding reconcile_incident_def
  by (intro latch.ok_look latch.ok_case_option latch.ok_ret latch.ok_andThen ok_persisting latch.ok_call ok_notify latch.ok_if ok_contain TrueI)

section \<open>The machine\<close>

definition store_safe :: "monitor \<Rightarrow> bool" where
  "store_safe s \<longleftrightarrow> (im_tripped s \<longrightarrow> im_saved s \<noteq> None \<or> im_running s) \<and> (im_saved s \<noteq> None \<longrightarrow> im_tripped s)
     \<and> (\<forall>i. im_saved s = Some i \<longrightarrow> true_record s i)"

text \<open>Up: latched, or nothing happened; at most one workflow, and that only of a latched monitor.\<close>

definition up_safe :: "monitor_sys \<Rightarrow> bool" where
  "up_safe m \<longleftrightarrow> (case m of (s, ts) \<Rightarrow> im_running s \<and> store_safe s
     \<and> (if im_tripped s then latched s else im_incident s = None)
     \<and> (if im_work s then \<exists>p. ts = [p] \<and> latch.waiting s p else ts = [])
     \<and> (im_work s \<longrightarrow> im_tripped s))"

lemma latched_store: "latched s \<Longrightarrow> store_safe s"
  by (auto simp: latched_def store_safe_def)

lemma schedule_safe: "up_safe m \<Longrightarrow> up_safe (schedule w m)"
proof -
  assume m: "up_safe m"
  obtain s ts where s: "m = (s, ts)" by fastforce
  show ?thesis
  proof (cases "im_work s \<or> im_stopping s \<or> im_incident s = None")
    case True
    then show ?thesis using m by (simp add: s schedule_def)
  next
    case False
    then have l: "latched s" "im_tripped s" "ts = []" using m by (auto simp: s up_safe_def split: if_splits)
    then have l': "latched (s\<lparr>im_work := True\<rparr>)" by (simp add: latched_def true_record_def)
    obtain s' p where r: "reconcile_incident w (s\<lparr>im_work := True\<rparr>) = (s', p)" by fastforce
    from latch.waiting_start [OF ok_reconcile [unfolded latch.ok_def] l' TrueI r]
    have "latched s'" "latch.waiting s' p" "im_work s'" by (auto simp: workflow_does_def)
    then show ?thesis using False l(3) r by (auto simp: s schedule_def up_safe_def latched_store latched_def)
  qed
qed

lemma trip_safe: "up_safe m \<Longrightarrow> up_safe (trip site w service t reason m) \<and> im_incident (fst (trip site w service t reason m)) \<noteq> None"
proof -
  assume m: "up_safe m"
  obtain s ts where s: "m = (s, ts)" by fastforce
  show ?thesis
  proof (cases "im_incident s")
    case (Some i)
    then show ?thesis using m by (simp add: s trip_def)
  next
    case None
    then have n: "\<not> im_tripped s" "\<not> im_work s" "ts = []" "im_running s" "im_saved s = None"
      using m by (auto simp: s up_safe_def latched_def store_safe_def split: if_splits)
    let ?s = "s\<lparr>im_incident := Some (new_incident site w service t reason), im_tripped := True, im_contained := False\<rparr>"
    have l: "latched ?s" using n by (auto simp: latched_def true_record_def new_incident_def)
    then have p: "latched (persist w ?s)" "workflow_does ?s (persist w ?s)" using persist_latched by blast+
    then have "up_safe (persist w ?s, [])" using n by (auto simp: up_safe_def workflow_does_def latched_store latched_def)
    from schedule_safe [OF this] have u: "up_safe (schedule w (persist w ?s, []))" .
    have eq: "trip site w service t reason m = schedule w (persist w ?s, [])" using None n by (simp add: trip_def s)
    have "latched (fst (schedule w (persist w ?s, [])))"
    proof (cases "im_work (persist w ?s) \<or> im_stopping (persist w ?s) \<or> im_incident (persist w ?s) = None")
      case False
      have "latched ((persist w ?s)\<lparr>im_work := True\<rparr>)" using p(1) by (simp add: latched_def true_record_def)
      from latch.waiting_start [OF ok_reconcile [unfolded latch.ok_def] this TrueI, of w] show ?thesis using False
        by (cases "reconcile_incident w ((persist w ?s)\<lparr>im_work := True\<rparr>)") (auto simp: schedule_def)
    qed (use p in \<open>simp add: schedule_def\<close>)
    then show ?thesis using u eq by (simp add: latched_def)
  qed
qed

text \<open>Without an incident nothing runs and nothing is stored.\<close>

lemma up_safe_quiet: "im_incident s = None \<Longrightarrow>
  up_safe (s, ts) \<longleftrightarrow> im_running s \<and> \<not> im_tripped s \<and> im_saved s = None \<and> ts = [] \<and> \<not> im_work s"
  by (auto simp: up_safe_def store_safe_def latched_def)

lemma write_log_fields [simp]: "im_incident (write_log w e st r s) = im_incident s" "im_running (write_log w e st r s) = im_running s"
  "im_tripped (write_log w e st r s) = im_tripped s" "im_saved (write_log w e st r s) = im_saved s" "im_work (write_log w e st r s) = im_work s"
  by (simp_all add: write_log_def)

lemma inspect_safe: "up_safe m \<Longrightarrow> up_safe (fst (monitor_inspect site cfg w e m))"
proof -
  assume m: "up_safe m"
  obtain s ts where s: "m = (s, ts)" by fastforce
  show ?thesis
  proof (cases "im_stopping s \<or> im_incident s \<noteq> None")
    case False
    obtain r cs where i: "inspect cfg e False (im_counters s) = (r, cs)" by fastforce
    have "up_safe (s\<lparr>im_counters := cs\<rparr>, ts)" "up_safe (write_log w e 403 r (s\<lparr>im_counters := cs\<rparr>), ts)"
      using False m by (simp_all add: s up_safe_quiet)
    then show ?thesis using False i trip_safe by (auto simp: s monitor_inspect_def Let_def split: option.split)
  qed (use m in \<open>simp add: s monitor_inspect_def\<close>)
qed

lemma response_safe: "up_safe m \<Longrightarrow> up_safe (monitor_response site cfg w e status m)"
proof -
  assume m: "up_safe m"
  obtain s ts where s: "m = (s, ts)" by fastforce
  show ?thesis
  proof (cases "im_incident s = None")
    case True
    obtain r cs where i: "detect_response cfg (e\<lparr>ae_at := mw_now w\<rparr>) status (im_counters s) = (r, cs)" by fastforce
    have "up_safe (write_log w e status r (s\<lparr>im_counters := cs\<rparr>), ts)" using True m by (simp add: s up_safe_quiet)
    then show ?thesis using True i trip_safe by (auto simp: s monitor_response_def Let_def split: option.split)
  qed (use m in \<open>auto simp: s monitor_response_def\<close>)
qed

lemma boot_safe: "store_safe s \<Longrightarrow> up_safe (boot site w s) \<and> (im_running s \<or> im_saved s \<noteq> None \<longrightarrow> im_incident (fst (boot site w s)) \<noteq> None)"
proof -
  assume st: "store_safe s"
  let ?s = "s\<lparr>im_counters := [], im_incident := im_saved s, im_work := False, im_timer := True, im_stopping := False, im_running := True\<rparr>"
  have schedule: "im_incident (fst (schedule w m)) \<noteq> None" if "up_safe m" "im_incident (fst m) \<noteq> None" for m
  proof -
    have "up_safe (schedule w m)" using that(1) by (rule schedule_safe)
    moreover have "im_tripped (fst (schedule w m))"
    proof (cases m)
      case (Pair t ts)
      then have l: "latched t" using that by (auto simp: up_safe_def split: if_splits)
      then have l': "latched (t\<lparr>im_work := True\<rparr>)" by (simp add: latched_def true_record_def)
      from latch.waiting_start [OF ok_reconcile [unfolded latch.ok_def] l' TrueI, of w] l Pair show ?thesis
        by (cases "reconcile_incident w (t\<lparr>im_work := True\<rparr>)") (auto simp: schedule_def latched_def)
    qed
    ultimately show ?thesis by (cases "schedule w m") (auto simp: up_safe_def latched_def split: if_splits)
  qed
  show ?thesis
  proof (cases "im_saved s")
    case None
    show ?thesis
    proof (cases "im_running s")
      case False
      then have "up_safe (?s, [])" using st None by (simp add: up_safe_quiet store_safe_def)
      then show ?thesis using False None schedule_safe by (simp add: boot_def Let_def)
    next
      case True
      show ?thesis
      proof (cases "im_tripped s")
        case False
        then have "up_safe (?s, [])" using st None by (simp add: up_safe_quiet)
        from trip_safe [OF this] show ?thesis using True schedule schedule_safe by (simp add: boot_def Let_def)
      next
        case tripped: True
        let ?t = "?s\<lparr>im_tripped := False\<rparr>"
        have "up_safe (?t, [])" using st None by (simp add: up_safe_quiet)
        moreover have "trip site w ''excubitor'' (mw_now w) UncleanRestart (?t, []) = trip site w ''excubitor'' (mw_now w) UncleanRestart (?s, [])"
          using None by (simp add: trip_def)
        ultimately have "up_safe (trip site w ''excubitor'' (mw_now w) UncleanRestart (?s, []))
          \<and> im_incident (fst (trip site w ''excubitor'' (mw_now w) UncleanRestart (?s, []))) \<noteq> None" using trip_safe by metis
        then show ?thesis using True schedule schedule_safe by (simp add: boot_def Let_def)
      qed
    qed
  next
    case (Some i)
    then have "latched ?s" using st by (auto simp: latched_def store_safe_def true_record_def)
    then have u: "up_safe (?s, [])" by (auto simp: up_safe_def latched_store latched_def)
    moreover have "trip site w ''excubitor'' (mw_now w) UncleanRestart (?s, []) = (?s, [])" using Some by (simp add: trip_def)
    ultimately show ?thesis using Some schedule [OF u] schedule_safe [OF u] by (auto simp: boot_def Let_def)
  qed
qed

lemma runs_safe: "monitor_runs site cfg ph m \<Longrightarrow> (case ph of MonitorUp \<Rightarrow> up_safe m | MonitorDown \<Rightarrow> store_safe (fst m))"
proof (induction rule: monitor_runs.induct)
  case first
  then show ?case by (simp add: store_safe_def)
next
  case (boots s ts w)
  then show ?case using boot_safe by simp
next
  case (inspects m w e)
  then show ?case using inspect_safe by simp
next
  case (responds m w e status)
  then show ?case using response_safe by simp
next
  case (ticks s ts w)
  then show ?case using schedule_safe by simp
next
  case (resumes s ts i q k a w s' p)
  then have u: "im_work s" "ts = [Await q k]" "latch.waiting s (Await q k)" "latched s" "i = 0" "im_tripped s"
    by (auto simp: up_safe_def split: if_splits)
  from latch.waiting_resume [OF u(3,4) TrueI resumes(4)] u show ?case
    by (auto simp: up_safe_def latched_store latched_def workflow_does_def)
next
  case (settles s ts1 r ts2)
  then have "ts1 = [] \<and> ts2 = []" "im_tripped s" by (auto simp: up_safe_def append_eq_Cons_conv split: if_splits)
  then show ?case using settles.IH by (auto simp: up_safe_def store_safe_def latched_def true_record_def split: if_splits)
next
  case (stops s ts)
  have "latch.waiting (stop_monitor s) p" if "latch.waiting s p" "latched s" for p
    using latch.waiting_rely [OF that] by (simp add: others_do_def stop_monitor_def)
  then show ?case using stops.IH by (auto simp: up_safe_def store_safe_def latched_def true_record_def stop_monitor_def split: if_splits)
next
  case (ends s)
  then show ?case by (auto simp: up_safe_def stopped_def store_safe_def latched_def true_record_def split: if_splits)
next
  case (killed s ts)
  then show ?case by (simp add: up_safe_def)
qed

section \<open>Properties\<close>

text \<open>
  C14. After an incident no request is let through any more, through any number of restarts and kills and
  even if no attempt to save it succeeded.
\<close>
theorem latch_never_opens:
  assumes "monitor_runs site cfg MonitorUp m" "im_tripped (fst m)"
  shows "im_incident (fst m) \<noteq> None \<and> \<not> snd (monitor_inspect site cfg w e m)"
proof -
  have "latched (fst m)" using runs_safe [OF assms(1)] assms(2) by (cases m) (auto simp: up_safe_def split: if_splits)
  then show ?thesis by (cases m) (auto simp: latched_def monitor_inspect_def)
qed

text \<open>
  A start after the process was killed lets no request through: it finds the incident, or makes one of
  the unclean restart.
\<close>
theorem killed_site_stays_closed:
  assumes "monitor_runs site cfg MonitorUp (s, ts)"
  shows "\<not> snd (monitor_inspect site cfg w' e (boot site w s)) \<and> im_tripped (fst (boot site w s))"
proof -
  have u: "up_safe (s, ts)" using runs_safe [OF assms] by simp
  then have "store_safe s" "im_running s" by (simp_all add: up_safe_def)
  from boot_safe [OF this(1), of site w] this(2) have b: "up_safe (boot site w s)" "im_incident (fst (boot site w s)) \<noteq> None" by blast+
  then have "im_tripped (fst (boot site w s))" by (cases "boot site w s") (auto simp: up_safe_def split: if_splits)
  then show ?thesis using b(2) by (cases "boot site w s") (auto simp: monitor_inspect_def)
qed

text \<open>
  What the store says of an incident is true: the tunnels were contained if it says so, and a report
  marked as sent was delivered, with the state of containment that is noted.
\<close>
theorem stored_incident_is_true:
  assumes "monitor_runs site cfg ph (s, ts)" "im_saved s = Some i"
  shows "true_record s i"
  using runs_safe [OF assms(1)] assms(2) by (cases ph) (auto simp: up_safe_def store_safe_def)


text \<open>
  C34. When the tunnels can be contained and the reports delivered, a workflow ends with the incident
  contained and reported as contained.
\<close>
theorem workflow_contains_and_reports:
  assumes "im_incident s = Some i"
  shows "case answering [MaOk, MaOk, MaOk, MaOk, MaOk] w (reconcile_incident w s) of
      (s', p) \<Rightarrow> p = Return (Inr ()) \<and> (\<exists>j. im_incident s' = Some j \<and> in_id j = in_id i \<and> in_containment j = Contained
         \<and> in_notification j = NoticeSent \<and> in_notifiedContainment j = Some Contained)"
proof -
  note defs = reconcile_incident_def notify_incident_def contain_incident_def persisting_def persist_def on_incident_def
    look_def andThen_def bind_def attempt_def modify_def call_def await_def ret_def result_def throw_def Let_def
  show ?thesis using assms
    by (cases "in_containment i"; cases "in_notification i"; cases "in_notifiedContainment i = Some (in_containment i)";
        cases "mw_save_fails w (im_saves s)"; cases "mw_save_fails w (Suc (im_saves s))")
      (simp_all add: defs)
qed


section \<open>Runs\<close>

definition new_site :: monitor where
  "new_site = \<lparr>im_counters = [], im_incident = None, im_work = False, im_timer = False, im_stopping = False,
      im_saved = None, im_running = False, im_saves = 0, im_log = [], im_tripped = False, im_contained = False, im_reported = []\<rparr>"

definition failing_world :: "bool \<Rightarrow> monitor_world" where
  "failing_world fails = \<lparr>mw_now = 1, mw_id = ''i'', mw_save_fails = (\<lambda>_. fails), mw_log_fails = False\<rparr>"

definition foreign_event :: access_event where
  "foreign_event = (jp_event ''1.2.3.4'' ''/'' 0)\<lparr>ae_country := ''US''\<rparr>"

definition tripped_site :: "bool \<Rightarrow> monitor_sys" where
  "tripped_site fails = fst (monitor_inspect ''x'' jp_config (failing_world fails) foreign_event (boot ''x'' (failing_world False) new_site))"

lemma booted_run: "monitor_runs ''x'' jp_config MonitorUp (boot ''x'' w new_site)"
  using monitor_runs.boots [OF monitor_runs.first] unfolding new_site_def .

lemma tripped_run: "monitor_runs ''x'' jp_config MonitorUp (tripped_site fails)"
  unfolding tripped_site_def by (rule monitor_runs.inspects [OF booted_run])

lemma tripped_site_tripped: "im_tripped (fst (tripped_site fails))" "im_saved (fst (tripped_site True)) = None"
proof -
  have "im_tripped (fst (tripped_site True))" "im_tripped (fst (tripped_site False))" by code_simp+
  then show "im_tripped (fst (tripped_site fails))" by (cases fails) simp_all
  show "im_saved (fst (tripped_site True)) = None" by code_simp
qed

text \<open>The incident could not be saved, and the request of an allowed country is refused as well.\<close>

lemma latch_never_opens_witness:
  "\<exists>m. monitor_runs ''x'' jp_config MonitorUp m \<and> im_tripped (fst m) \<and> im_saved (fst m) = None
     \<and> \<not> snd (monitor_inspect ''x'' jp_config (failing_world False) (jp_event ''1.2.3.4'' ''/'' 1) m)"
  using latch_never_opens [OF tripped_run tripped_site_tripped(1), where w = "failing_world False" and e = "jp_event ''1.2.3.4'' ''/'' 1"]
    tripped_run [of True] tripped_site_tripped(1) [of True] tripped_site_tripped(2) by blast

text \<open>A site that had seen no request is killed; the next start has tripped.\<close>

lemma killed_site_stays_closed_witness:
  "im_tripped (fst (boot ''x'' (failing_world False) new_site)) = False
   \<and> im_tripped (fst (boot ''x'' (failing_world False) (fst (boot ''x'' (failing_world False) new_site))))
   \<and> \<not> snd (monitor_inspect ''x'' jp_config (failing_world False) (jp_event ''1.2.3.4'' ''/'' 1)
        (boot ''x'' (failing_world False) (fst (boot ''x'' (failing_world False) new_site))))"
proof -
  have up: "monitor_runs ''x'' jp_config MonitorUp (fst (boot ''x'' (failing_world False) new_site), snd (boot ''x'' (failing_world False) new_site))"
    using booted_run by simp
  have "im_tripped (fst (boot ''x'' (failing_world False) new_site)) = False"
    by (simp add: boot_def new_site_def schedule_def)
  with killed_site_stays_closed [OF up] show ?thesis by simp
qed

lemma stored_incident_is_true_witness:
  "\<exists>s ts i. monitor_runs ''x'' jp_config MonitorUp (s, ts) \<and> im_saved s = Some i \<and> in_service i = ''s'' \<and> true_record s i"
proof -
  have run: "monitor_runs ''x'' jp_config MonitorUp (fst (tripped_site False), snd (tripped_site False))" using tripped_run by simp
  have "map_option in_service (im_saved (fst (tripped_site False))) = Some ''s''" by code_simp
  then obtain i where i: "im_saved (fst (tripped_site False)) = Some i" "in_service i = ''s''" by auto
  from stored_incident_is_true [OF run i(1)] run i show ?thesis by blast
qed

lemma workflow_contains_and_reports_witness:
  "\<exists>s i. im_incident s = Some i \<and> in_containment i = ContainPending
     \<and> (\<exists>j. im_incident (fst (answering [MaOk, MaOk, MaOk, MaOk, MaOk] (failing_world True) (reconcile_incident (failing_world True) s))) = Some j
        \<and> in_containment j = Contained)"
proof -
  let ?i = "new_incident ''x'' (failing_world True) ''s'' 0 UncleanRestart"
  let ?s = "new_site\<lparr>im_incident := Some ?i\<rparr>"
  have i: "im_incident ?s = Some ?i" by simp
  obtain j where "im_incident (fst (answering [MaOk, MaOk, MaOk, MaOk, MaOk] (failing_world True) (reconcile_incident (failing_world True) ?s))) = Some j"
    "in_containment j = Contained"
    using workflow_contains_and_reports [OF i, of "failing_world True"] by (auto split: prod.splits)
  moreover have "in_containment ?i = ContainPending" by (simp add: new_incident_def)
  ultimately show ?thesis using i by blast
qed

end
