(* ===== verification/Request_Policy.thy ===== *)
theory Request_Policy imports Intrusion_Detector begin

text \<open>
  The limits of a service per client (\<open>src/security-defense/request-policy.ts\<close>): requests, missing pages and
  failed logins are counted in windows of a minute, and in the mode \<open>enforce\<close> a burst blocks the client for
  a while. The \<open>Map\<close> of windows is a list in the order of insertion, its keys are pairs.
\<close>

section \<open>The policy\<close>

datatype access_source = FromGateway | FromUpstream
datatype decision_action = Allow | Deny | Observe
datatype decision_reason = Because detection_reason | NoReason | TemporaryLimit | NotFoundBurst

record access_decision =
  ac_source :: access_source
  ac_action :: decision_action
  ac_reason :: decision_reason

record policy_window =
  pw_start :: ms
  pw_requests :: nat
  pw_failures :: nat
  pw_missing :: nat
  pw_until :: ms

record policy_rule =
  pr_service :: string
  pr_authPaths :: "string list"
  pr_requestsPerMinute :: nat
  pr_authFailuresPerMinute :: nat
  pr_notFoundPerMinute :: nat

record policy_config =
  pc_enforce :: bool
  pc_blockSeconds :: int
  pc_services :: "policy_rule list"

type_synonym windows = "(client \<times> policy_window) list"

definition max_keys :: nat where "max_keys = 10000"

definition rule_of :: "policy_config \<Rightarrow> access_event \<Rightarrow> policy_rule option" where
  "rule_of cfg e = find_key pr_service (ae_service e) (pc_services cfg)"

definition handles :: "string set option \<Rightarrow> policy_config \<Rightarrow> string \<Rightarrow> bool" where
  "handles overrides cfg service = (case overrides of
       Some codes \<Rightarrow> service \<in> codes
     | None \<Rightarrow> service \<in> pr_service ` set (pc_services cfg))"

text \<open>An expired block ends with its counts; it is changed in the map, so a full map does not drop it.\<close>

definition unblocked :: "ms \<Rightarrow> policy_window \<Rightarrow> policy_window" where
  "unblocked t w = (if pw_until w > 0 \<and> pw_until w \<le> t then \<lparr>pw_start = t, pw_requests = 0, pw_failures = 0, pw_missing = 0, pw_until = 0\<rparr> else w)"

definition unblock :: "ms \<Rightarrow> client \<Rightarrow> windows \<Rightarrow> windows" where
  "unblock t k ws = map (\<lambda>(k', w). (k', if k' = k then unblocked t w else w)) ws"

definition old_window :: "ms \<Rightarrow> policy_window \<Rightarrow> bool" where
  "old_window t w \<longleftrightarrow> t - pw_start w \<ge> 60000 \<and> pw_until w \<le> t"

definition new_window :: "ms \<Rightarrow> policy_window option \<Rightarrow> policy_window" where
  "new_window t old = \<lparr>pw_start = t, pw_requests = 0, pw_failures = 0, pw_missing = 0,
     pw_until = (case old of Some w \<Rightarrow> pw_until w | None \<Rightarrow> 0)\<rparr>"

definition window_of :: "access_event \<Rightarrow> windows \<Rightarrow> policy_window option \<times> windows" where
  "window_of e ws0 =
     (let k = client_of e; t = ae_at e; ws = unblock t k ws0; old = map_option snd (find_key fst k ws);
          fresh = (let swept = (if length ws \<ge> max_keys then filter (\<lambda>(_, w). \<not> old_window t w) ws else ws)
                   in if length ws \<ge> max_keys \<and> old = None \<and> length swept \<ge> max_keys then (None, swept)
                      else (Some (new_window t old), upsert fst (k, new_window t old) swept))
      in case old of Some w \<Rightarrow> if t \<ge> pw_start w \<and> t - pw_start w < 60000 then (Some w, ws) else fresh | None \<Rightarrow> fresh)"

definition flag :: "policy_config \<Rightarrow> access_event \<Rightarrow> decision_reason \<Rightarrow> access_source \<Rightarrow> policy_window \<Rightarrow> access_decision \<times> policy_window" where
  "flag cfg e reason source w =
     (\<lparr>ac_source = source, ac_action = (if source = FromGateway \<and> pc_enforce cfg then Deny else Observe), ac_reason = reason\<rparr>,
      if pc_enforce cfg \<and> pw_until w \<le> ae_at e then w\<lparr>pw_until := ae_at e + pc_blockSeconds cfg * 1000\<rparr> else w)"

text \<open>\<open>put\<close> is the change of the window in the map.\<close>

definition put :: "access_event \<Rightarrow> windows \<Rightarrow> access_decision option \<times> policy_window \<Rightarrow> access_decision option \<times> windows" where
  "put e ws dw = (fst dw, upsert fst (client_of e, snd dw) ws)"

definition policy_inspect :: "policy_config \<Rightarrow> access_event \<Rightarrow> windows \<Rightarrow> access_decision option \<times> windows" where
  "policy_inspect cfg e ws = (case rule_of cfg e of
       None \<Rightarrow> (None, ws)
     | Some rule \<Rightarrow> (case window_of e ws of
           (None, ws') \<Rightarrow> (Some \<lparr>ac_source = FromGateway, ac_action = Observe, ac_reason = Because CapacityExceeded\<rparr>, ws')
         | (Some w, ws') \<Rightarrow>
             if pw_until w > ae_at e then (Some \<lparr>ac_source = FromGateway, ac_action = Deny, ac_reason = TemporaryLimit\<rparr>, ws')
             else let w' = w\<lparr>pw_requests := pw_requests w + 1\<rparr>
                  in put e ws' (if pw_requests w' \<ge> pr_requestsPerMinute rule
                       then map_prod Some id (flag cfg e (Because RequestBurst) FromGateway w') else (None, w'))))"

definition policy_response :: "policy_config \<Rightarrow> access_event \<Rightarrow> nat \<Rightarrow> windows \<Rightarrow> access_decision option \<times> windows" where
  "policy_response cfg e status ws = (case rule_of cfg e of
       None \<Rightarrow> (None, ws)
     | Some rule \<Rightarrow> (case window_of e ws of
           (None, ws') \<Rightarrow> (Some \<lparr>ac_source = FromUpstream, ac_action = Observe, ac_reason = Because CapacityExceeded\<rparr>, ws')
         | (Some w, ws') \<Rightarrow> put e ws'
             (if status = 404
              then let w' = w\<lparr>pw_missing := pw_missing w + 1\<rparr>
                   in if pw_missing w' \<ge> pr_notFoundPerMinute rule
                      then map_prod Some id (flag cfg e NotFoundBurst FromUpstream w') else (None, w')
              else if ae_path e \<in> set (pr_authPaths rule) \<and> (status = 401 \<or> status = 403)
              then let w' = w\<lparr>pw_failures := pw_failures w + 1\<rparr>
                   in if pw_failures w' \<ge> pr_authFailuresPerMinute rule
                      then map_prod Some id (flag cfg e (Because AuthenticationBurst) FromUpstream w') else (None, w')
              else (None, w))))"

section \<open>Runs\<close>

datatype policy_op = PolicyInspects access_event | PolicyResponds access_event nat

primrec policy_event :: "policy_op \<Rightarrow> access_event" where
  "policy_event (PolicyInspects e) = e"
| "policy_event (PolicyResponds e _) = e"

primrec decide_op :: "policy_config \<Rightarrow> policy_op \<Rightarrow> windows \<Rightarrow> access_decision option \<times> windows" where
  "decide_op cfg (PolicyInspects e) = policy_inspect cfg e"
| "decide_op cfg (PolicyResponds e status) = policy_response cfg e status"

definition windows_after :: "policy_config \<Rightarrow> policy_op list \<Rightarrow> windows \<Rightarrow> windows" where
  "windows_after cfg ops ws = foldl (\<lambda>ws op. snd (decide_op cfg op ws)) ws ops"

definition policy_client :: "policy_op \<Rightarrow> client" where
  "policy_client op = client_of (policy_event op)"

definition policy_time :: "policy_op \<Rightarrow> ms" where
  "policy_time op = ae_at (policy_event op)"

text \<open>The end of the block of a client, 0 without one; and the decisions that begin a block.\<close>

definition blocked_until :: "client \<Rightarrow> windows \<Rightarrow> ms" where
  "blocked_until k ws = (case find_key fst k ws of Some (_, w) \<Rightarrow> pw_until w | None \<Rightarrow> 0)"

fun is_burst :: "access_decision option \<Rightarrow> bool" where
  "is_burst (Some d) = (ac_reason d \<in> {Because RequestBurst, Because AuthenticationBurst, NotFoundBurst})"
| "is_burst None = False"

section \<open>One step\<close>

lemma find_key_unblock: "find_key fst k (unblock t k' ws) =
  map_option (\<lambda>(j, w). (j, if k = k' then unblocked t w else w)) (find_key fst k ws)"
  by (induction ws) (auto simp: unblock_def)

lemma unblock_keys [simp]: "map fst (unblock t k ws) = map fst ws" "length (unblock t k ws) = length ws"
  by (induction ws) (auto simp: unblock_def)

lemma find_key_kept:
  "distinct (map fst ws) \<Longrightarrow> find_key fst k (filter P ws) = (case find_key fst k ws of Some x \<Rightarrow> if P x then Some x else None | None \<Rightarrow> None)"
proof (induction ws)
  case (Cons x ws)
  have "find_key fst (fst x) ws = None" using Cons.prems by (simp add: find_key_None)
  then show ?case using Cons by (auto split: option.splits)
qed simp

lemma blocked_until_upsert [simp]: "blocked_until k (upsert fst (k', w) ws) = (if k = k' then pw_until w else blocked_until k ws)"
  by (simp add: blocked_until_def find_key_upsert)

lemma blocked_until_unblock: "blocked_until k (unblock t k' ws) =
  (if k = k' \<and> blocked_until k ws > 0 \<and> blocked_until k ws \<le> t then 0 else blocked_until k ws)"
  by (auto simp: blocked_until_def find_key_unblock unblocked_def split: option.split)

lemma window_keys_distinct: "distinct (map fst ws) \<Longrightarrow> distinct (map fst (snd (window_of e ws)))"
proof -
  assume "distinct (map fst ws)"
  then have "distinct (map fst (unblock t k ws))" for t k by simp
  from distinct_upsert [OF this] distinct_upsert [OF distinct_map_filter [OF this]] distinct_map_filter [OF this] this
  show ?thesis by (auto simp: window_of_def Let_def split: option.split simp del: unblock_keys)
qed

text \<open>
  The window of an event carries the block of its client unless that is over, and sweeping drops only
  blocks that are over.
\<close>

lemma window_of_blocks:
  assumes d: "distinct (map fst ws)" and w: "window_of e ws = (w, ws')"
  defines "u \<equiv> blocked_until (client_of e) ws"
  shows "\<And>v. w = Some v \<Longrightarrow> pw_until v = (if 0 < u \<and> u \<le> ae_at e then 0 else u)"
    and "w = None \<Longrightarrow> u = 0"
    and "blocked_until k ws' = blocked_until k ws \<or> blocked_until k ws' = 0 \<and> blocked_until k ws \<le> ae_at e"
proof -
  let ?k = "client_of e" and ?t = "ae_at e"
  let ?ws = "unblock ?t ?k ws"
  let ?old = "map_option snd (find_key fst ?k ?ws)"
  let ?swept = "if length ?ws \<ge> max_keys then filter (\<lambda>(_, w). \<not> old_window ?t w) ?ws else ?ws"
  have d': "distinct (map fst ?ws)" using d by simp
  have u': "blocked_until ?k ?ws = (if 0 < u \<and> u \<le> ?t then 0 else u)" by (simp add: blocked_until_unblock u_def)
  have old: "?old = Some v \<Longrightarrow> pw_until v = blocked_until ?k ?ws" for v by (auto simp: blocked_until_def)
  have new: "pw_until (new_window ?t ?old) = blocked_until ?k ?ws"
    by (auto simp: new_window_def blocked_until_def split: option.split)
  show "pw_until v = (if 0 < u \<and> u \<le> ae_at e then 0 else u)" if "w = Some v" for v
    using w that old new u' by (auto simp: window_of_def Let_def split: option.splits if_splits)
  show "u = 0" if "w = None"
  proof -
    have "find_key fst ?k ?ws = None" using w that by (auto simp: window_of_def Let_def split: option.splits if_splits)
    then have "find_key fst ?k ws = None" by (simp add: find_key_unblock)
    then show ?thesis by (simp add: u_def blocked_until_def)
  qed
  have swept: "blocked_until k ?swept = blocked_until k ?ws \<or> blocked_until k ?swept = 0 \<and> blocked_until k ?ws \<le> ?t" for k
    using find_key_kept [OF d', of k "\<lambda>(_, w). \<not> old_window ?t w"]
    by (auto simp: blocked_until_def old_window_def split: option.split)
  have up: "blocked_until k (upsert fst (?k, new_window ?t ?old) ?swept) = (if k = ?k then blocked_until k ?ws else blocked_until k ?swept)"
    using new by simp
  have "ws' = ?ws \<or> ws' = ?swept \<or> ws' = upsert fst (?k, new_window ?t ?old) ?swept"
    using w by (auto simp: window_of_def Let_def split: option.splits if_splits)
  then have "blocked_until k ws' = blocked_until k ?ws \<or> blocked_until k ws' = 0 \<and> blocked_until k ?ws \<le> ?t"
    using swept [of k] up by (elim disjE) presburger+
  then show "blocked_until k ws' = blocked_until k ws \<or> blocked_until k ws' = 0 \<and> blocked_until k ws \<le> ?t"
    by (auto simp: blocked_until_unblock split: if_splits)
qed

lemma put_simps [simp]: "fst (put e ws dw) = fst dw" "blocked_until k (snd (put e ws dw)) = (if k = client_of e then pw_until (snd dw) else blocked_until k ws)"
  "distinct (map fst ws) \<Longrightarrow> distinct (map fst (snd (put e ws dw)))"
  by (simp_all add: put_def distinct_upsert)

lemma decide_distinct: "distinct (map fst ws) \<Longrightarrow> distinct (map fst (snd (decide_op cfg op ws)))"
proof -
  assume d: "distinct (map fst ws)"
  have "window_of e ws = (w, ws') \<Longrightarrow> distinct (map fst ws')" for e w ws' using window_keys_distinct [OF d, of e] by simp
  with d show ?thesis
    by (cases op) (auto simp: policy_inspect_def policy_response_def Let_def simp del: split_paired_Ex split: option.split prod.split)
qed

lemma flag_until: "flag cfg e r source w = (d, w') \<Longrightarrow> ac_reason d = r
  \<and> pw_until w' = (if pc_enforce cfg \<and> pw_until w \<le> ae_at e then ae_at e + pc_blockSeconds cfg * 1000 else pw_until w)"
  by (auto simp: flag_def)

text \<open>A step keeps the block of a client, drops one that is over, or begins one after a burst of the client.\<close>

lemma decide_blocks:
  fixes k :: client and op :: policy_op and cfg :: policy_config
  assumes "distinct (map fst ws)"
  defines "u \<equiv> blocked_until k ws" and "v \<equiv> blocked_until k (snd (decide_op cfg op ws))" and "t \<equiv> policy_time op"
  shows "v = u \<or> v = 0 \<and> u \<le> t \<or>
    policy_client op = k \<and> pc_enforce cfg \<and> is_burst (fst (decide_op cfg op ws)) \<and> u \<le> t \<and> v = t + pc_blockSeconds cfg * 1000"
proof (cases "rule_of cfg (policy_event op)")
  case None
  then show ?thesis by (cases op) (simp_all add: u_def v_def policy_inspect_def policy_response_def)
next
  case (Some rule)
  obtain w ws' where w: "window_of (policy_event op) ws = (w, ws')" by fastforce
  note b = window_of_blocks [OF assms(1) w]
  show ?thesis
  proof (cases w)
    case None
    then show ?thesis using b(3) [of k] Some w by (cases op) (auto simp: u_def v_def t_def policy_time_def policy_inspect_def policy_response_def)
  next
    case w': (Some x)
    note x = b(1) [OF w']
    show ?thesis
    proof (cases "k = policy_client op")
      case False
      then show ?thesis using b(3) [of k] Some w w'
        by (cases op) (auto simp: u_def v_def t_def policy_time_def policy_client_def policy_inspect_def policy_response_def Let_def)
    next
      case True
      then have u: "pw_until x = (if 0 < u \<and> u \<le> t then 0 else u)" using x by (simp add: u_def t_def policy_client_def policy_time_def)
      have "v = pw_until x \<or> pc_enforce cfg \<and> is_burst (fst (decide_op cfg op ws)) \<and> pw_until x \<le> t \<and> v = t + pc_blockSeconds cfg * 1000"
        using Some w w' True b(3) [of k] u
        by (cases op) (auto simp: v_def u_def t_def policy_time_def policy_client_def policy_inspect_def policy_response_def flag_def Let_def)
      then show ?thesis using u True by (auto split: if_splits)
    qed
  qed
qed

section \<open>Blocks\<close>

text \<open>The operation at \<open>i\<close> begins a block: it shows a burst of a client that is not blocked.\<close>

definition begins_block :: "policy_config \<Rightarrow> policy_op list \<Rightarrow> nat \<Rightarrow> bool" where
  "begins_block cfg ops i \<longleftrightarrow> (let ws = windows_after cfg (take i ops) [] in
     is_burst (fst (decide_op cfg (ops ! i) ws)) \<and> blocked_until (policy_client (ops ! i)) ws \<le> policy_time (ops ! i))"

definition limited :: "access_decision option \<Rightarrow> bool" where
  "limited d \<longleftrightarrow> map_option ac_reason d = Some TemporaryLimit"

lemma windows_after_snoc [simp]: "windows_after cfg (ops @ [op]) ws = snd (decide_op cfg op (windows_after cfg ops ws))"
  by (simp add: windows_after_def)

lemma windows_after_Nil [simp]: "windows_after cfg [] ws = ws"
  by (simp add: windows_after_def)

lemma windows_distinct: "distinct (map fst (windows_after cfg ops []))"
  by (induction ops rule: rev_induct) (simp_all add: decide_distinct)

lemma begins_block_snoc: "i < length ops \<Longrightarrow> begins_block cfg (ops @ [op]) i = begins_block cfg ops i"
  by (simp add: begins_block_def nth_append)

lemma block_has_burst:
  "blocked_until k (windows_after cfg ops []) = 0 \<or> pc_enforce cfg \<and> (\<exists>i < length ops. begins_block cfg ops i
     \<and> policy_client (ops ! i) = k \<and> blocked_until k (windows_after cfg ops []) = policy_time (ops ! i) + pc_blockSeconds cfg * 1000)"
proof (induction ops rule: rev_induct)
  case Nil
  then show ?case by (simp add: blocked_until_def)
next
  case (snoc op ops)
  let ?u = "blocked_until k (windows_after cfg ops [])" and ?v = "blocked_until k (windows_after cfg (ops @ [op]) [])"
  from decide_blocks [OF windows_distinct [of cfg ops], of k cfg op] consider "?v = ?u" | "?v = 0"
    | "policy_client op = k" "pc_enforce cfg" "is_burst (fst (decide_op cfg op (windows_after cfg ops [])))" "?u \<le> policy_time op"
      "?v = policy_time op + pc_blockSeconds cfg * 1000" by auto
  then show ?case
  proof cases
    case 1
    then show ?thesis using snoc by (force simp: nth_append begins_block_snoc less_Suc_eq)
  next
    case 3
    then have "begins_block cfg (ops @ [op]) (length ops)" by (simp add: begins_block_def)
    with 3 show ?thesis by (intro disjI2) force
  qed simp
qed

lemma burst_rule: "is_burst (fst (decide_op cfg op ws)) \<Longrightarrow> rule_of cfg (policy_event op) \<noteq> None"
  by (cases op) (auto simp: policy_inspect_def policy_response_def split: option.splits)

lemma burst_blocks:
  assumes "is_burst (fst (decide_op cfg op ws))" "blocked_until (policy_client op) ws \<le> policy_time op" "pc_enforce cfg" "distinct (map fst ws)"
    "0 \<le> policy_time op"
  shows "blocked_until (policy_client op) (snd (decide_op cfg op ws)) = policy_time op + pc_blockSeconds cfg * 1000"
proof -
  obtain rule where rule: "rule_of cfg (policy_event op) = Some rule" using burst_rule [OF assms(1)] by auto
  obtain w ws' where w: "window_of (policy_event op) ws = (w, ws')" by fastforce
  show ?thesis
  proof (cases w)
    case None
    then show ?thesis using assms(1) rule w by (cases op) (auto simp: policy_inspect_def policy_response_def)
  next
    case (Some x)
    from window_of_blocks(1) [OF assms(4) w Some] assms(2,5) have "pw_until x \<le> policy_time op"
      by (simp add: policy_client_def policy_time_def split: if_splits)
    then show ?thesis using assms(1,3) rule w Some
      by (cases op) (auto simp: policy_inspect_def policy_response_def policy_client_def policy_time_def flag_def Let_def split: if_splits)
  qed
qed

lemma limited_iff:
  assumes "distinct (map fst ws)" "0 \<le> ae_at e" "rule_of cfg e \<noteq> None"
  shows "limited (fst (policy_inspect cfg e ws)) \<longleftrightarrow> ae_at e < blocked_until (client_of e) ws"
proof -
  obtain rule where rule: "rule_of cfg e = Some rule" using assms(3) by auto
  obtain w ws' where w: "window_of e ws = (w, ws')" by fastforce
  show ?thesis
  proof (cases w)
    case None
    then show ?thesis using window_of_blocks(2) [OF assms(1) w None] rule w assms(2) by (simp add: policy_inspect_def limited_def)
  next
    case (Some x)
    with window_of_blocks(1) [OF assms(1) w Some] show ?thesis using rule w assms(2)
      by (auto simp: policy_inspect_def limited_def flag_def Let_def)
  qed
qed

text \<open>
  C25. A client is limited exactly when the policy is enforced and a burst of this client, at a time it was
  not limited, is less than the length of a block ago.
\<close>
theorem limited_exactly_after_own_burst:
  assumes "\<forall>op \<in> set ops. 0 \<le> policy_time op \<and> policy_time op \<le> ae_at e" "0 \<le> ae_at e"
  shows "limited (fst (policy_inspect cfg e (windows_after cfg ops []))) \<longleftrightarrow>
    pc_enforce cfg \<and> (\<exists>i < length ops. begins_block cfg ops i \<and> policy_client (ops ! i) = client_of e
      \<and> ae_at e < policy_time (ops ! i) + pc_blockSeconds cfg * 1000)"
proof (cases "rule_of cfg e")
  case None
  have "rule_of cfg (policy_event (ops ! i)) = rule_of cfg e" if "policy_client (ops ! i) = client_of e" for i
    using that by (simp add: policy_client_def client_of_def rule_of_def)
  with None burst_rule have "\<not> begins_block cfg ops i" if "policy_client (ops ! i) = client_of e" for i
    using that unfolding begins_block_def Let_def by fastforce
  with None show ?thesis by (auto simp: policy_inspect_def limited_def)
next
  case (Some rule)
  let ?k = "client_of e" and ?B = "pc_blockSeconds cfg * 1000"
  have "ae_at e < blocked_until ?k (windows_after cfg ops [])" if i: "i < length ops" "begins_block cfg ops i" "policy_client (ops ! i) = ?k"
    "ae_at e < policy_time (ops ! i) + ?B" "pc_enforce cfg" for i
  proof -
    have t: "0 \<le> policy_time (ops ! i)" using assms(1) i(1) by simp
    have "i < n \<Longrightarrow> n \<le> length ops \<Longrightarrow> blocked_until ?k (windows_after cfg (take n ops) []) = policy_time (ops ! i) + ?B" for n
    proof (induction n)
      case (Suc n)
      show ?case
      proof (cases "i = n")
        case True
        then show ?thesis using burst_blocks [of cfg "ops ! i" "windows_after cfg (take i ops) []"] i t Suc.prems windows_distinct
          by (simp add: begins_block_def Let_def take_Suc_conv_app_nth)
      next
        case False
        then have u: "blocked_until ?k (windows_after cfg (take n ops) []) = policy_time (ops ! i) + ?B" using Suc by simp
        have "policy_time (ops ! n) \<le> ae_at e" using assms(1) Suc.prems by simp
        with decide_blocks [OF windows_distinct [of cfg "take n ops"], of ?k cfg "ops ! n"] u i(4) Suc.prems show ?thesis
          by (simp add: take_Suc_conv_app_nth)
      qed
    qed simp
    from this [of "length ops"] i show ?thesis by simp
  qed
  then show ?thesis using block_has_burst [of ?k cfg ops] limited_iff [OF windows_distinct [of cfg ops] assms(2), of cfg] Some assms(2) by fastforce
qed

definition login_policy :: policy_config where
  "login_policy = \<lparr>pc_enforce = True, pc_blockSeconds = 10, pc_services =
     [\<lparr>pr_service = ''s'', pr_authPaths = [''/login''], pr_requestsPerMinute = 3, pr_authFailuresPerMinute = 2, pr_notFoundPerMinute = 5\<rparr>]\<rparr>"

definition failed_login :: "ms \<Rightarrow> policy_op" where
  "failed_login t = PolicyResponds (jp_event ''1.2.3.4'' ''/login'' t) 401"

text \<open>Two failed logins, the second at 2000: limited from then on for ten seconds.\<close>

lemma limited_exactly_after_own_burst_witness:
  "limited (fst (policy_inspect login_policy (jp_event ''1.2.3.4'' ''/'' 2001) (windows_after login_policy [failed_login 1000, failed_login 2000] [])))
   \<and> begins_block login_policy [failed_login 1000, failed_login 2000] 1
   \<and> \<not> limited (fst (policy_inspect login_policy (jp_event ''1.2.3.4'' ''/'' 12000) (windows_after login_policy [failed_login 1000, failed_login 2000] [])))"
proof -
  let ?ops = "[failed_login 1000, failed_login 2000]" and ?e = "jp_event ''1.2.3.4'' ''/''"
  note defs = login_policy_def failed_login_def jp_event_def policy_time_def policy_client_def client_of_def begins_block_def windows_after_def
    policy_inspect_def policy_response_def rule_of_def window_of_def unblock_def unblocked_def max_keys_def new_window_def flag_def put_def blocked_until_def Let_def
  have t: "\<forall>op \<in> set ?ops. 0 \<le> policy_time op \<and> policy_time op \<le> ae_at (?e 2001)" by (simp add: defs)
  have b: "begins_block login_policy ?ops 1" by (simp add: defs)
  have e: "0 \<le> ae_at (?e 2001)" "policy_client (?ops ! 1) = client_of (?e 2001)"
    "ae_at (?e 2001) < policy_time (?ops ! 1) + pc_blockSeconds login_policy * 1000" "pc_enforce login_policy" by (simp_all add: defs)
  then have "\<exists>i < length ?ops. begins_block login_policy ?ops i \<and> policy_client (?ops ! i) = client_of (?e 2001)
      \<and> ae_at (?e 2001) < policy_time (?ops ! i) + pc_blockSeconds login_policy * 1000" using b by (intro exI [of _ 1]) simp
  with limited_exactly_after_own_burst [OF t e(1), of login_policy] e(4)
  have "limited (fst (policy_inspect login_policy (?e 2001) (windows_after login_policy ?ops [])))" by blast
  moreover have "\<not> limited (fst (policy_inspect login_policy (?e 12000) (windows_after login_policy ?ops [])))" by (simp add: defs limited_def)
  ultimately show ?thesis using b by blast
qed

section \<open>Clients apart\<close>

text \<open>Without a full map an operation works on the window of its client and on no other.\<close>

lemma decide_projects:
  assumes "length ws < max_keys" "length ws' < max_keys" "find_key fst (policy_client op) ws = find_key fst (policy_client op) ws'"
  shows "fst (decide_op cfg op ws) = fst (decide_op cfg op ws')
    \<and> find_key fst (policy_client op) (snd (decide_op cfg op ws)) = find_key fst (policy_client op) (snd (decide_op cfg op ws'))"
  using assms
  by (cases op) (auto simp: policy_inspect_def policy_response_def window_of_def put_def find_key_upsert find_key_unblock policy_client_def Let_def
      split: option.splits)

lemma decide_others:
  assumes "length ws < max_keys" "k \<noteq> policy_client op"
  shows "find_key fst k (snd (decide_op cfg op ws)) = find_key fst k ws"
  using assms
  by (cases op) (auto simp: policy_inspect_def policy_response_def window_of_def put_def find_key_upsert find_key_unblock policy_client_def Let_def option.map_comp comp_def
      option.map_id split_beta split: option.splits)

lemma window_of_keys: "fst ` set (snd (window_of e ws)) \<subseteq> insert (client_of e) (fst ` set ws)"
proof -
  let ?ws = "unblock (ae_at e) (client_of e) ws"
  have "fst ` set ?ws = fst ` set ws" using unblock_keys(1) [of "ae_at e" "client_of e" ws] by (metis list.set_map)
  moreover have "fst ` set (snd (window_of e ws)) \<subseteq> insert (client_of e) (fst ` set ?ws)"
    by (auto simp: window_of_def Let_def split: option.split)
  ultimately show ?thesis by simp
qed

lemma decide_keys: "fst ` set (snd (decide_op cfg op ws)) \<subseteq> insert (policy_client op) (fst ` set ws)"
proof -
  have "window_of e ws = (w, ws') \<Longrightarrow> fst ` set ws' \<subseteq> insert (client_of e) (fst ` set ws)" for e w ws'
    using window_of_keys [of e ws] by simp
  moreover have "fst ` set (snd (put e ws' dw)) = insert (client_of e) (fst ` set ws')" for e ws' dw by (simp add: put_def)
  ultimately show ?thesis
    by (cases op) (auto simp: policy_inspect_def policy_response_def policy_client_def Let_def simp del: split_paired_Ex split: option.split prod.split)
qed

lemma windows_few:
  assumes "finite K" "card K < max_keys" "policy_client ` set ops \<subseteq> K"
  shows "length (windows_after cfg ops []) < max_keys"
proof -
  have "fst ` set (windows_after cfg ops []) \<subseteq> policy_client ` set ops"
  proof (induction ops rule: rev_induct)
    case (snoc op ops)
    have "fst ` set (windows_after cfg (ops @ [op]) []) \<subseteq> insert (policy_client op) (fst ` set (windows_after cfg ops []))"
      using decide_keys [of cfg op "windows_after cfg ops []"] by simp
    also have "\<dots> \<subseteq> policy_client ` set (ops @ [op])" using snoc by (simp add: subset_insertI2 insert_mono)
    finally show ?case .
  qed simp
  then have "card (fst ` set (windows_after cfg ops [])) \<le> card K" using assms(1,3) by (meson card_mono subset_trans)
  then show ?thesis using distinct_card [OF windows_distinct, of cfg ops] assms(2) by simp
qed

lemma own_window:
  assumes "finite K" "card K < max_keys" "policy_client ` set ops \<subseteq> K"
  shows "find_key fst k (windows_after cfg ops []) = find_key fst k (windows_after cfg (filter (\<lambda>op. policy_client op = k) ops) [])"
  using assms(3)
proof (induction ops rule: rev_induct)
  case (snoc op ops)
  let ?own = "filter (\<lambda>op. policy_client op = k) ops"
  have few: "length (windows_after cfg ops []) < max_keys" "length (windows_after cfg ?own []) < max_keys"
    using snoc.prems by (simp_all add: windows_few [OF assms(1,2)] windows_few [OF assms(1,2) subset_trans [OF image_mono [OF filter_is_subset]]])
  from decide_projects [OF few, of op cfg] decide_others [OF few(1), of k op cfg] snoc show ?case by auto
qed simp

lemma policy_clients_apart:
  assumes "finite K" "card K < max_keys" "policy_client ` set ops \<subseteq> K" "policy_client op \<in> K"
  shows "fst (decide_op cfg op (windows_after cfg ops [])) =
    fst (decide_op cfg op (windows_after cfg (filter (\<lambda>o'. policy_client o' = policy_client op) ops) []))"
proof -
  have few: "length (windows_after cfg ops []) < max_keys" "length (windows_after cfg (filter (\<lambda>o'. policy_client o' = policy_client op) ops) []) < max_keys"
    by (rule windows_few [OF assms(1-3)], rule windows_few [OF assms(1,2) subset_trans [OF image_mono [OF filter_is_subset] assms(3)]])
  from decide_projects [OF few, of op cfg] own_window [OF assms(1-3), of "policy_client op" cfg] show ?thesis by blast
qed

text \<open>
  The filter gives a response the time of its request. One that is answered after the next window began
  puts a new window into its place, with the older start and no counts: a limit of three requests a minute
  does not see four of them.
\<close>

lemma late_response_forgets_requests:
  assumes "e = jp_event ''1.2.3.4'' ''/''"
  shows "is_burst (fst (policy_inspect login_policy (e 60003) (windows_after login_policy
      [PolicyInspects (e 0), PolicyInspects (e 60001), PolicyInspects (e 60002)] [])))
    \<and> \<not> is_burst (fst (policy_inspect login_policy (e 60004) (windows_after login_policy
      [PolicyInspects (e 0), PolicyInspects (e 60001), PolicyInspects (e 60002), PolicyResponds (e 0) 200, PolicyInspects (e 60003)] [])))"
  using assms
  by (simp add: login_policy_def jp_event_def client_of_def windows_after_def policy_inspect_def policy_response_def rule_of_def window_of_def
    unblock_def unblocked_def max_keys_def new_window_def flag_def put_def Let_def)

end
