(* ===== verification/Request_Filter.thy ===== *)
theory Request_Filter imports Request_Policy Detector_Counting begin

text \<open>
  The mode \<open>request-filter\<close> of the gateway (\<open>src/intrusion/request-filter.ts\<close>): a suspicious request is
  refused, recorded and reported, and no other visitor is affected. Requests have an identity, which is
  that of the event object in the \<open>WeakMap\<close> of observations. \<open>rf_log\<close> is the access log, \<open>rf_reports\<close> a
  history variable with the reports that were started.
\<close>

section \<open>State\<close>

record filter_config =
  fg_detector :: detector_config
  fg_policy :: "(policy_config \<times> string set option) option"

record filter_world =
  fw_now :: ms
  fw_log_fails :: bool

record request_filter =
  rf_counters :: counters
  rf_windows :: windows
  rf_observations :: "(nat \<times> access_decision) list"
  rf_stopping :: bool
  rf_loggingFailed :: bool
  rf_notifying :: bool
  rf_next :: "ms option"
  rf_log :: "(access_event \<times> nat \<times> access_decision) list"
  rf_reports :: "(ms \<times> access_event \<times> detection_reason) list"

definition new_filter :: request_filter where
  "new_filter = \<lparr>rf_counters = [], rf_windows = [], rf_observations = [], rf_stopping = False, rf_loggingFailed = False,
     rf_notifying = False, rf_next = None, rf_log = [], rf_reports = []\<rparr>"

section \<open>Operations\<close>

definition policy_handles :: "filter_config \<Rightarrow> access_event \<Rightarrow> bool" where
  "policy_handles cfg e = (case fg_policy cfg of Some (pol, overrides) \<Rightarrow> handles overrides pol (ae_service e) | None \<Rightarrow> False)"

definition record_access :: "filter_world \<Rightarrow> access_event \<Rightarrow> nat \<Rightarrow> access_decision \<Rightarrow> request_filter \<Rightarrow> request_filter" where
  "record_access w e status d s =
     (if fw_log_fails w then s\<lparr>rf_loggingFailed := True\<rparr>
      else s\<lparr>rf_log := rf_log s @ [(e, status, d)], rf_loggingFailed := False\<rparr>)"

definition report_denial :: "filter_world \<Rightarrow> access_event \<Rightarrow> detection_reason \<Rightarrow> request_filter \<Rightarrow> request_filter" where
  "report_denial w e r s =
     (if rf_notifying s \<or> (case rf_next s of Some t \<Rightarrow> fw_now w < t | None \<Rightarrow> False) then s
      else s\<lparr>rf_next := Some (fw_now w + 60000), rf_notifying := True, rf_reports := rf_reports s @ [(fw_now w, e, r)]\<rparr>)"

definition report_over :: "request_filter \<Rightarrow> request_filter" where
  "report_over s = s\<lparr>rf_notifying := False\<rparr>"

definition on_policy :: "filter_config \<Rightarrow> (policy_config \<Rightarrow> windows \<Rightarrow> access_decision option \<times> windows) \<Rightarrow> request_filter
    \<Rightarrow> access_decision option \<times> request_filter" where
  "on_policy cfg f s = (case fg_policy cfg of
       None \<Rightarrow> (None, s)
     | Some (pol, _) \<Rightarrow> (case f pol (rf_windows s) of (d, ws) \<Rightarrow> (d, s\<lparr>rf_windows := ws\<rparr>)))"

definition filter_inspect :: "filter_config \<Rightarrow> filter_world \<Rightarrow> nat \<Rightarrow> access_event \<Rightarrow> request_filter \<Rightarrow> request_filter \<times> bool" where
  "filter_inspect cfg w req e s =
     (if rf_stopping s then (s, False)
      else (case inspect (fg_detector cfg) e (policy_handles cfg e) (rf_counters s) of
          (Some r, cs) \<Rightarrow>
            (report_denial w e r (record_access w e 403 \<lparr>ac_source = FromGateway, ac_action = Deny, ac_reason = Because r\<rparr> (s\<lparr>rf_counters := cs\<rparr>)), False)
        | (None, cs) \<Rightarrow> (case on_policy cfg (\<lambda>pol. policy_inspect pol e) (s\<lparr>rf_counters := cs\<rparr>) of
              (None, s') \<Rightarrow> (s', True)
            | (Some d, s') \<Rightarrow>
                if ac_action d = Deny then (record_access w e 403 d s', False)
                else (s'\<lparr>rf_observations := upsert fst (req, d) (rf_observations s')\<rparr>, True))))"

definition filter_response :: "filter_config \<Rightarrow> filter_world \<Rightarrow> nat \<Rightarrow> access_event \<Rightarrow> nat \<Rightarrow> request_filter \<Rightarrow> request_filter" where
  "filter_response cfg w req e status s =
     (case (if policy_handles cfg e then (None, rf_counters s)
            else detect_response (fg_detector cfg) (e\<lparr>ae_at := fw_now w\<rparr>) status (rf_counters s)) of
        (r, cs) \<Rightarrow> (case on_policy cfg (\<lambda>pol. policy_response pol e status) (s\<lparr>rf_counters := cs\<rparr>) of
            (d0, s') \<Rightarrow>
              let d = (case d0 of Some d \<Rightarrow> Some d | None \<Rightarrow> map_option snd (find_key fst req (rf_observations s')));
                  s1 = record_access w e status (case d of Some d \<Rightarrow> d | None \<Rightarrow>
                      \<lparr>ac_source = FromUpstream, ac_action = (if r \<noteq> None then Observe else Allow),
                       ac_reason = (case r of Some r \<Rightarrow> Because r | None \<Rightarrow> NoReason)\<rparr>)
                    (s'\<lparr>rf_observations := filter (\<lambda>x. fst x \<noteq> req) (rf_observations s')\<rparr>)
              in (case r of Some r \<Rightarrow> report_denial w e r s1 | None \<Rightarrow> s1)))"

definition stop_filter :: "request_filter \<Rightarrow> request_filter" where
  "stop_filter s = s\<lparr>rf_stopping := True\<rparr>"

section \<open>Runs\<close>

datatype filter_op = FilterInspects filter_world nat access_event | FilterResponds filter_world nat access_event nat | FilterReported | FilterStops

primrec filter_step :: "filter_config \<Rightarrow> filter_op \<Rightarrow> request_filter \<Rightarrow> request_filter" where
  "filter_step cfg (FilterInspects w req e) s = fst (filter_inspect cfg w req e s)"
| "filter_step cfg (FilterResponds w req e status) s = filter_response cfg w req e status s"
| "filter_step cfg FilterReported s = report_over s"
| "filter_step cfg FilterStops s = stop_filter s"

definition filter_after :: "filter_config \<Rightarrow> filter_op list \<Rightarrow> request_filter" where
  "filter_after cfg ops = foldl (\<lambda>s op. filter_step cfg op s) new_filter ops"

primrec filter_client :: "filter_op \<Rightarrow> client option" where
  "filter_client (FilterInspects w req e) = Some (client_of e)"
| "filter_client (FilterResponds w req e status) = Some (client_of e)"
| "filter_client FilterReported = None"
| "filter_client FilterStops = None"

lemma filter_after_snoc [simp]: "filter_after cfg (ops @ [op]) = filter_step cfg op (filter_after cfg ops)"
  by (simp add: filter_after_def)

lemma filter_after_Nil [simp]: "filter_after cfg [] = new_filter"
  by (simp add: filter_after_def)

lemma record_access_fields [simp]: "rf_counters (record_access w e st d s) = rf_counters s" "rf_windows (record_access w e st d s) = rf_windows s"
  "rf_stopping (record_access w e st d s) = rf_stopping s" "rf_next (record_access w e st d s) = rf_next s"
  "rf_reports (record_access w e st d s) = rf_reports s" "rf_observations (record_access w e st d s) = rf_observations s"
  by (simp_all add: record_access_def)

lemma report_denial_fields [simp]: "rf_counters (report_denial w e r s) = rf_counters s" "rf_windows (report_denial w e r s) = rf_windows s"
  "rf_stopping (report_denial w e r s) = rf_stopping s" "rf_log (report_denial w e r s) = rf_log s"
  by (simp_all add: report_denial_def)

lemma on_policy_cases: "on_policy cfg f s = (d, s') \<Longrightarrow>
  (fg_policy cfg = None \<and> d = None \<and> s' = s) \<or> (\<exists>pol ovr. fg_policy cfg = Some (pol, ovr) \<and> s' = s\<lparr>rf_windows := snd (f pol (rf_windows s))\<rparr> \<and> d = fst (f pol (rf_windows s)))"
  by (auto simp: on_policy_def split: option.splits prod.splits)

section \<open>Reports\<close>

definition reports_apart :: "request_filter \<Rightarrow> bool" where
  "reports_apart s \<longleftrightarrow> sorted_wrt (\<lambda>a b. fst a + 60000 \<le> fst b) (rf_reports s)
     \<and> (\<forall>x \<in> set (rf_reports s). \<exists>t. rf_next s = Some t \<and> fst x + 60000 \<le> t)"

lemma reports_apart_report: "reports_apart s \<Longrightarrow> reports_apart (report_denial w e r s)"
  by (fastforce simp: reports_apart_def report_denial_def sorted_wrt_append split: option.splits)

lemma reports_apart_cong: "rf_reports s' = rf_reports s \<Longrightarrow> rf_next s' = rf_next s \<Longrightarrow> reports_apart s' = reports_apart s"
  by (simp add: reports_apart_def)

lemma on_policy_reports: "on_policy cfg f s = (d, s') \<Longrightarrow> rf_reports s' = rf_reports s \<and> rf_next s' = rf_next s \<and> rf_stopping s' = rf_stopping s
  \<and> rf_counters s' = rf_counters s \<and> rf_log s' = rf_log s"
  by (auto dest!: on_policy_cases)

text \<open>An operation changes the reports at most by one new report at its end.\<close>

definition same_reports :: "request_filter \<Rightarrow> request_filter \<Rightarrow> bool" where
  "same_reports s t \<longleftrightarrow> rf_reports t = rf_reports s \<and> rf_next t = rf_next s"

lemma inspect_reports: "\<exists>t. same_reports s t \<and> (fst (filter_inspect cfg w req e s) = t \<or> (\<exists>r. fst (filter_inspect cfg w req e s) = report_denial w e r t))"
proof (cases "rf_stopping s")
  case False
  obtain r cs where i: "inspect (fg_detector cfg) e (policy_handles cfg e) (rf_counters s) = (r, cs)" by fastforce
  show ?thesis
  proof (cases r)
    case None
    obtain d s' where p: "on_policy cfg (\<lambda>pol. policy_inspect pol e) (s\<lparr>rf_counters := cs\<rparr>) = (d, s')" by fastforce
    show ?thesis using on_policy_reports [OF p] i p None False
      by (intro exI [of _ "fst (filter_inspect cfg w req e s)"], cases d) (simp_all add: filter_inspect_def same_reports_def)
  next
    case (Some r)
    then show ?thesis using i False
      by (intro exI [of _ "record_access w e 403 \<lparr>ac_source = FromGateway, ac_action = Deny, ac_reason = Because r\<rparr> (s\<lparr>rf_counters := cs\<rparr>)"])
        (auto simp: filter_inspect_def same_reports_def)
  qed
qed (intro exI [of _ s], simp add: filter_inspect_def same_reports_def)

lemma response_reports: "\<exists>t. same_reports s t \<and> (filter_response cfg w req e status s = t \<or> (\<exists>r. filter_response cfg w req e status s = report_denial w e r t))"
proof -
  obtain r cs where i: "(if policy_handles cfg e then (None, rf_counters s)
      else detect_response (fg_detector cfg) (e\<lparr>ae_at := fw_now w\<rparr>) status (rf_counters s)) = (r, cs)" by fastforce
  obtain d s' where p: "on_policy cfg (\<lambda>pol. policy_response pol e status) (s\<lparr>rf_counters := cs\<rparr>) = (d, s')" by fastforce
  show ?thesis
  proof (cases r)
    case None
    then show ?thesis using on_policy_reports [OF p] i p
      by (intro exI [of _ "filter_response cfg w req e status s"]) (simp add: filter_response_def Let_def same_reports_def)
  next
    case (Some x)
    show ?thesis unfolding filter_response_def i Some using on_policy_reports [OF p]
      by (simp add: p Let_def) (rule exI, rule conjI [rotated], rule disjI2, rule exI, rule refl, simp add: same_reports_def)
  qed
qed

lemma step_reports_apart: "reports_apart s \<Longrightarrow> reports_apart (filter_step cfg op s)"
proof -
  assume s: "reports_apart s"
  have "reports_apart t \<and> reports_apart (report_denial w e r t)" if "same_reports s t" for t w e r
    using s that reports_apart_report [of t w e r] by (simp add: reports_apart_def same_reports_def)
  then show ?thesis using s inspect_reports [of s cfg] response_reports [of s cfg]
    by (cases op) (metis filter_step.simps(1), metis filter_step.simps(2), simp_all add: report_over_def stop_filter_def reports_apart_def)
qed

text \<open>
  Two reports of refused requests are started at least a minute apart, whatever requests, failures
  and clocks there are.
\<close>
theorem reports_are_a_minute_apart:
  "sorted_wrt (\<lambda>a b. fst a + 60000 \<le> fst b) (rf_reports (filter_after cfg ops))"
proof -
  have "reports_apart (filter_after cfg ops)"
    by (induction ops rule: rev_induct) (simp_all add: step_reports_apart, simp add: reports_apart_def new_filter_def)
  then show ?thesis by (simp add: reports_apart_def)
qed

section \<open>What a request depends on\<close>

definition policy_step :: "filter_config \<Rightarrow> (policy_config \<Rightarrow> windows \<Rightarrow> access_decision option \<times> windows) \<Rightarrow> windows \<Rightarrow> access_decision option \<times> windows" where
  "policy_step cfg f ws = (case fg_policy cfg of None \<Rightarrow> (None, ws) | Some (pol, _) \<Rightarrow> f pol ws)"

lemma on_policy_step: "on_policy cfg f s = (fst (policy_step cfg f (rf_windows s)), s\<lparr>rf_windows := snd (policy_step cfg f (rf_windows s))\<rparr>)"
  by (simp add: on_policy_def policy_step_def split: option.split prod.split)

lemma inspect_state:
  fixes cfg :: filter_config and e :: access_event and s :: request_filter
  assumes "\<not> rf_stopping s"
  defines "i \<equiv> inspect (fg_detector cfg) e (policy_handles cfg e) (rf_counters s)"
    and "p \<equiv> policy_step cfg (\<lambda>pol. policy_inspect pol e) (rf_windows s)"
  shows "rf_counters (fst (filter_inspect cfg w req e s)) = snd i"
    and "rf_windows (fst (filter_inspect cfg w req e s)) = (if fst i = None then snd p else rf_windows s)"
    and "snd (filter_inspect cfg w req e s) \<longleftrightarrow> fst i = None \<and> map_option ac_action (fst p) \<noteq> Some Deny"
    and "rf_stopping (fst (filter_inspect cfg w req e s)) = rf_stopping s"
  unfolding i_def p_def using assms(1) by (auto simp: filter_inspect_def on_policy_step split: option.split prod.split)

lemma response_state:
  fixes cfg :: filter_config and e :: access_event and s :: request_filter and w :: filter_world and status :: nat
  defines "i \<equiv> (if policy_handles cfg e then (None, rf_counters s) else detect_response (fg_detector cfg) (e\<lparr>ae_at := fw_now w\<rparr>) status (rf_counters s))"
  shows "rf_counters (filter_response cfg w req e status s) = snd i"
    and "rf_windows (filter_response cfg w req e status s) = snd (policy_step cfg (\<lambda>pol. policy_response pol e status) (rf_windows s))"
    and "rf_stopping (filter_response cfg w req e status s) = rf_stopping s"
  unfolding i_def by (auto simp: filter_response_def on_policy_step Let_def split: option.split prod.split)

section \<open>Visitors apart\<close>

lemma detect_projects:
  assumes "length cs < max_clients" "length cs' < max_clients" "find_key fst (op_client op) cs = find_key fst (op_client op) cs'"
  shows "fst (detect cfg op cs) = fst (detect cfg op cs')"
    and "find_key fst (op_client op) (snd (detect cfg op cs)) = find_key fst (op_client op) (snd (detect cfg op cs'))"
  using assms by (auto simp: detect_cases counter_def find_key_upsert op_client_def Let_def split: option.splits)

lemma detect_others:
  "length cs < max_clients \<Longrightarrow> k \<noteq> op_client op \<Longrightarrow> find_key fst k (snd (detect cfg op cs)) = find_key fst k cs"
  by (auto simp: detect_cases counter_def find_key_upsert op_client_def Let_def split: option.splits)

lemma detect_keys: "fst ` set (snd (detect cfg op cs)) \<subseteq> insert (op_client op) (fst ` set cs)"
  by (auto simp: detect_cases counter_def op_client_def Let_def split: option.splits prod.splits if_splits)

text \<open>The maps of a state with keys of few clients.\<close>

definition few :: "client set \<Rightarrow> request_filter \<Rightarrow> bool" where
  "few K s \<longleftrightarrow> distinct (map fst (rf_counters s)) \<and> distinct (map fst (rf_windows s))
     \<and> fst ` set (rf_counters s) \<subseteq> K \<and> fst ` set (rf_windows s) \<subseteq> K"

lemma few_short: "few K s \<Longrightarrow> finite K \<Longrightarrow> card K < n \<Longrightarrow> length (rf_counters s) < n \<and> length (rf_windows s) < n"
  by (metis (no_types, lifting) few_def card_mono distinct_card length_map list.set_map order_le_less_trans)

lemma policy_step_inspect: "policy_step cfg (\<lambda>pol. policy_inspect pol e) ws = (case fg_policy cfg of None \<Rightarrow> (None, ws) | Some (pol, _) \<Rightarrow> decide_op pol (PolicyInspects e) ws)"
  and policy_step_response: "policy_step cfg (\<lambda>pol. policy_response pol e status) ws = (case fg_policy cfg of None \<Rightarrow> (None, ws) | Some (pol, _) \<Rightarrow> decide_op pol (PolicyResponds e status) ws)"
  by (simp_all add: policy_step_def split: option.split)

definition maps_step :: "filter_config \<Rightarrow> filter_op \<Rightarrow> request_filter \<Rightarrow> counters \<times> windows" where
  "maps_step cfg op s = (case op of
       FilterInspects w req e \<Rightarrow>
         (let i = detect (fg_detector cfg) (Inspects e (policy_handles cfg e)) (rf_counters s)
          in if rf_stopping s then (rf_counters s, rf_windows s)
             else (snd i, if fst i = None then snd (policy_step cfg (\<lambda>pol. policy_inspect pol e) (rf_windows s)) else rf_windows s))
     | FilterResponds w req e status \<Rightarrow>
         (if policy_handles cfg e then rf_counters s else snd (detect (fg_detector cfg) (Responds (e\<lparr>ae_at := fw_now w\<rparr>) status) (rf_counters s)),
          snd (policy_step cfg (\<lambda>pol. policy_response pol e status) (rf_windows s)))
     | _ \<Rightarrow> (rf_counters s, rf_windows s))"

lemma maps_step: "rf_counters (filter_step cfg op s) = fst (maps_step cfg op s) \<and> rf_windows (filter_step cfg op s) = snd (maps_step cfg op s)"
proof (cases op)
  case (FilterInspects w req e)
  show ?thesis
  proof (cases "rf_stopping s")
    case True
    then show ?thesis by (simp add: FilterInspects maps_step_def filter_inspect_def)
  next
    case False
    then show ?thesis using inspect_state [OF False] by (simp add: FilterInspects maps_step_def Let_def)
  qed
qed (simp_all add: response_state maps_step_def report_over_def stop_filter_def)

lemma client_at [simp]: "client_of (e\<lparr>ae_at := t\<rparr>) = client_of e"
  by (simp add: client_of_def)

lemma policy_step_few:
  assumes "distinct (map fst ws)" "fst ` set ws \<subseteq> K" "client_of e \<in> K"
  shows "distinct (map fst (snd (policy_step cfg (\<lambda>pol. policy_inspect pol e) ws))) \<and> fst ` set (snd (policy_step cfg (\<lambda>pol. policy_inspect pol e) ws)) \<subseteq> K"
    and "distinct (map fst (snd (policy_step cfg (\<lambda>pol. policy_response pol e status) ws))) \<and> fst ` set (snd (policy_step cfg (\<lambda>pol. policy_response pol e status) ws)) \<subseteq> K"
proof -
  have "distinct (map fst (snd (decide_op pol op ws))) \<and> fst ` set (snd (decide_op pol op ws)) \<subseteq> K" if "policy_client op = client_of e" for pol op
    using decide_distinct [OF assms(1)] subset_trans [OF decide_keys [of pol op ws]] assms(2,3) that by simp
  from this [of "PolicyInspects e"] this [of "PolicyResponds e status"] show
    "distinct (map fst (snd (policy_step cfg (\<lambda>pol. policy_inspect pol e) ws))) \<and> fst ` set (snd (policy_step cfg (\<lambda>pol. policy_inspect pol e) ws)) \<subseteq> K"
    "distinct (map fst (snd (policy_step cfg (\<lambda>pol. policy_response pol e status) ws))) \<and> fst ` set (snd (policy_step cfg (\<lambda>pol. policy_response pol e status) ws)) \<subseteq> K"
    using assms by (simp_all add: policy_step_inspect policy_step_response policy_client_def split: option.split)
qed

lemma detect_few:
  assumes "distinct (map fst cs)" "length cs < max_clients" "fst ` set cs \<subseteq> K" "op_client op \<in> K"
  shows "distinct (map fst (snd (detect cfg op cs))) \<and> fst ` set (snd (detect cfg op cs)) \<subseteq> K"
  using detect_wf [of cs cfg op] subset_trans [OF detect_keys [of cfg op cs]] assms by (simp add: counters_wf_def)

lemma step_few:
  assumes "few K s" "finite K" "card K < max_clients" "set_option (filter_client op) \<subseteq> K"
  shows "few K (filter_step cfg op s)"
proof -
  have l: "length (rf_counters s) < max_clients" using few_short [OF assms(1-3)] by simp
  note s = assms(1) [unfolded few_def]
  show ?thesis
  proof (cases op)
    case (FilterInspects w req e)
    then have "client_of e \<in> K" using assms(4) by simp
    then show ?thesis using s detect_few [OF _ l, of K "Inspects e (policy_handles cfg e)" "fg_detector cfg"] policy_step_few(1) [of "rf_windows s" K e cfg]
      by (simp add: few_def maps_step) (simp add: maps_step_def FilterInspects op_client_def Let_def)
  next
    case (FilterResponds w req e status)
    then have "client_of e \<in> K" using assms(4) by simp
    then show ?thesis using s detect_few [OF _ l, of K "Responds (e\<lparr>ae_at := fw_now w\<rparr>) status" "fg_detector cfg"] policy_step_few(2) [of "rf_windows s" K e cfg status]
      by (simp add: few_def maps_step) (simp add: maps_step_def FilterResponds op_client_def Let_def)
  qed (use s in \<open>simp_all add: few_def report_over_def stop_filter_def\<close>)
qed

lemma after_few:
  assumes "finite K" "card K < max_clients" "\<forall>op \<in> set ops. set_option (filter_client op) \<subseteq> K"
  shows "few K (filter_after cfg ops)"
  using assms(3) by (induction ops rule: rev_induct) (simp_all add: step_few [OF _ assms(1,2)], simp add: few_def new_filter_def)

definition same_for :: "client \<Rightarrow> request_filter \<Rightarrow> request_filter \<Rightarrow> bool" where
  "same_for k s s' \<longleftrightarrow> find_key fst k (rf_counters s) = find_key fst k (rf_counters s')
     \<and> find_key fst k (rf_windows s) = find_key fst k (rf_windows s') \<and> rf_stopping s = rf_stopping s'"

lemma stopping_step: "rf_stopping (filter_step cfg op s) = (rf_stopping s \<or> op = FilterStops)"
proof (cases op)
  case (FilterInspects w req e)
  then show ?thesis using inspect_state(4) [of s cfg w req e] by (cases "rf_stopping s") (simp_all add: filter_inspect_def)
qed (simp_all add: response_state report_over_def stop_filter_def)

lemma policy_step_projects:
  assumes "length ws < max_keys" "length ws' < max_keys" "find_key fst (client_of e) ws = find_key fst (client_of e) ws'"
  shows "fst (policy_step cfg (\<lambda>pol. policy_inspect pol e) ws) = fst (policy_step cfg (\<lambda>pol. policy_inspect pol e) ws')"
    and "find_key fst (client_of e) (snd (policy_step cfg (\<lambda>pol. policy_inspect pol e) ws)) = find_key fst (client_of e) (snd (policy_step cfg (\<lambda>pol. policy_inspect pol e) ws'))"
    and "find_key fst (client_of e) (snd (policy_step cfg (\<lambda>pol. policy_response pol e status) ws)) = find_key fst (client_of e) (snd (policy_step cfg (\<lambda>pol. policy_response pol e status) ws'))"
  using decide_projects [OF assms(1,2), of "PolicyInspects e"] decide_projects [OF assms(1,2), of "PolicyResponds e status"] assms(3)
  by (simp_all add: policy_step_inspect policy_step_response policy_client_def split: option.split)

lemma policy_step_others:
  assumes "length ws < max_keys" "k \<noteq> client_of e"
  shows "find_key fst k (snd (policy_step cfg (\<lambda>pol. policy_inspect pol e) ws)) = find_key fst k ws"
    and "find_key fst k (snd (policy_step cfg (\<lambda>pol. policy_response pol e status) ws)) = find_key fst k ws"
  using decide_others [OF assms(1), of k "PolicyInspects e"] decide_others [OF assms(1), of k "PolicyResponds e status"] assms(2)
  by (simp_all add: policy_step_inspect policy_step_response policy_client_def split: option.split)

lemma max_same: "max_keys = max_clients"
  by (simp add: max_keys_def max_clients_def)

lemma other_step:
  assumes "few K s" "finite K" "card K < max_clients" "filter_client op = Some k'" "k' \<noteq> k"
  shows "same_for k (filter_step cfg op s) s"
proof -
  have l: "length (rf_counters s) < max_clients" "length (rf_windows s) < max_keys" using few_short [OF assms(1-3)] by (simp_all add: max_same)
  show ?thesis
  proof (cases op)
    case (FilterInspects w req e)
    then show ?thesis using assms(4,5) detect_others [OF l(1), of k "Inspects e (policy_handles cfg e)" "fg_detector cfg"] policy_step_others(1) [OF l(2), of k e cfg]
      by (simp add: same_for_def stopping_step maps_step del: filter_step.simps) (simp add: maps_step_def op_client_def Let_def)
  next
    case (FilterResponds w req e status)
    then show ?thesis using assms(4,5) detect_others [OF l(1), of k "Responds (e\<lparr>ae_at := fw_now w\<rparr>) status" "fg_detector cfg"] policy_step_others(2) [OF l(2), of k e cfg status]
      by (simp add: same_for_def stopping_step maps_step del: filter_step.simps) (simp add: maps_step_def op_client_def Let_def)
  qed (use assms(4) in simp_all)
qed

lemma own_step:
  assumes "few K s" "few K s'" "finite K" "card K < max_clients" "filter_client op \<in> {Some k, None}" "same_for k s s'"
  shows "same_for k (filter_step cfg op s) (filter_step cfg op s')"
proof -
  have l: "length (rf_counters s) < max_clients" "length (rf_windows s) < max_keys" "length (rf_counters s') < max_clients" "length (rf_windows s') < max_keys"
    using few_short [OF assms(1,3,4)] few_short [OF assms(2-4)] by (simp_all add: max_same)
  note p = detect_projects [OF l(1,3)] policy_step_projects [OF l(2,4)]
  show ?thesis
  proof (cases op)
    case (FilterInspects w req e)
    then have k: "k = client_of e" using assms(5) by simp
    show ?thesis using assms(6) p(1) [of "Inspects e (policy_handles cfg e)" "fg_detector cfg"] p(2) [of "Inspects e (policy_handles cfg e)" "fg_detector cfg"] p(4) [of e cfg]
      by (simp add: same_for_def stopping_step maps_step del: filter_step.simps) (simp add: maps_step_def FilterInspects k op_client_def Let_def)
  next
    case (FilterResponds w req e status)
    then have k: "k = client_of e" using assms(5) by simp
    show ?thesis using assms(6) p(2) [of "Responds (e\<lparr>ae_at := fw_now w\<rparr>) status" "fg_detector cfg"] p(5) [of e cfg status]
      by (simp add: same_for_def stopping_step maps_step del: filter_step.simps) (simp add: maps_step_def FilterResponds k op_client_def Let_def)
  qed (use assms(6) in \<open>simp_all add: same_for_def report_over_def stop_filter_def\<close>)
qed

text \<open>
  C21. While fewer clients come than the maps may hold, whether a request passes depends only on what this
  client sent before: no visitor can get the requests of another one refused.
\<close>
theorem visitors_do_not_affect_each_other:
  assumes "card (\<Union> (set_option ` filter_client ` set (ops @ [FilterInspects w req e]))) < max_clients"
  shows "snd (filter_inspect cfg w req e (filter_after cfg ops)) =
    snd (filter_inspect cfg w req e (filter_after cfg (filter (\<lambda>op. filter_client op \<in> {Some (client_of e), None}) ops)))"
proof -
  let ?k = "client_of e"
  have "finite (set_option c)" for c :: "client option" by (cases c) simp_all
  then obtain K where K: "finite K" and c: "card K < max_clients" and ops: "\<forall>op \<in> set ops. set_option (filter_client op) \<subseteq> K"
    using assms by (intro that [of "\<Union> (set_option ` filter_client ` set (ops @ [FilterInspects w req e]))"]) auto
  have few: "few K (filter_after cfg os)" if "set os \<subseteq> set ops" for os
    using that ops by (intro after_few [OF K c]) auto
  have "set os \<subseteq> set ops \<Longrightarrow> same_for ?k (filter_after cfg os) (filter_after cfg (filter (\<lambda>op. filter_client op \<in> {Some ?k, None}) os))" for os
  proof (induction os rule: rev_induct)
    case (snoc op os)
    let ?s = "filter_after cfg os" and ?t = "filter_after cfg (filter (\<lambda>op. filter_client op \<in> {Some ?k, None}) os)"
    have IH: "same_for ?k ?s ?t" and f: "few K ?s" "few K ?t" using snoc by (auto intro!: few)
    show ?case
    proof (cases "filter_client op \<in> {Some ?k, None}")
      case True
      then show ?thesis using own_step [OF f K c True IH] by simp
    next
      case False
      then obtain k' where "filter_client op = Some k'" "k' \<noteq> ?k" by auto
      from other_step [OF f(1) K c this, of cfg] IH have "same_for ?k (filter_step cfg op ?s) ?t" unfolding same_for_def by metis
      then show ?thesis using False by auto
    qed
  qed (simp add: same_for_def)
  from this [of ops] have same: "same_for ?k (filter_after cfg ops) (filter_after cfg (filter (\<lambda>op. filter_client op \<in> {Some ?k, None}) ops))" (is "same_for _ ?s ?t") by simp
  have l: "length (rf_counters ?s) < max_clients" "length (rf_counters ?t) < max_clients" "length (rf_windows ?s) < max_keys" "length (rf_windows ?t) < max_keys"
    using few_short [OF few K c, of ops] few_short [OF few K c, of "filter (\<lambda>op. filter_client op \<in> {Some ?k, None}) ops"] by (auto simp: max_same)
  show ?thesis
  proof (cases "rf_stopping ?s")
    case True
    then show ?thesis using same by (simp add: filter_inspect_def same_for_def)
  next
    case False
    then have "\<not> rf_stopping ?t" using same by (simp add: same_for_def)
    then show ?thesis using same inspect_state(3) [OF False, of cfg w req e] inspect_state(3) [of ?t cfg w req e]
      detect_projects(1) [OF l(1,2), of "Inspects e (policy_handles cfg e)" "fg_detector cfg"] policy_step_projects(1) [OF l(3,4), of e cfg]
      by (simp add: same_for_def op_client_def)
  qed
qed

definition demo_filter :: filter_config where
  "demo_filter = \<lparr>fg_detector = jp_config, fg_policy = Some (login_policy, None)\<rparr>"

definition demo_request :: "string \<Rightarrow> ms \<Rightarrow> filter_op" where
  "demo_request ip t = FilterInspects \<lparr>fw_now = t, fw_log_fails = False\<rparr> 0 (jp_event ip ''/'' t)"

definition crowd :: "filter_op list" where
  "crowd = [demo_request ''1.1.1.1'' 0, demo_request ''1.1.1.1'' 1, demo_request ''1.1.1.1'' 2]"

lemma demo_accepted: "ip \<in> {''1.1.1.1'', ''2.2.2.2''} \<Longrightarrow> inspect jp_config (jp_event ip ''/'' t) True cs = (None, cs)"
proof -
  assume ip: "ip \<in> {''1.1.1.1'', ''2.2.2.2''}"
  have "is_ip ''1.1.1.1''" "is_ip ''2.2.2.2''" "country_code ''JP''" "\<not> exploit_path ''/''" by code_simp+
  then have "refused jp_config (jp_event ip ''/'' t) = None" using ip by (auto simp: refused_def jp_event_def jp_config_def)
  then show ?thesis by (simp add: inspect_def)
qed

text \<open>Every request of the demo is left to the policy of its service.\<close>

lemma demo_inspect:
  assumes "\<not> rf_stopping s" "ip \<in> {''1.1.1.1'', ''2.2.2.2''}"
  shows "rf_windows (fst (filter_inspect demo_filter w req (jp_event ip ''/'' t) s)) = snd (policy_inspect login_policy (jp_event ip ''/'' t) (rf_windows s))"
    and "snd (filter_inspect demo_filter w req (jp_event ip ''/'' t) s) \<longleftrightarrow> map_option ac_action (fst (policy_inspect login_policy (jp_event ip ''/'' t) (rf_windows s))) \<noteq> Some Deny"
proof -
  have h: "policy_handles demo_filter (jp_event ip ''/'' t)" by (simp add: policy_handles_def demo_filter_def handles_def login_policy_def jp_event_def)
  have p: "policy_step demo_filter (\<lambda>pol. policy_inspect pol (jp_event ip ''/'' t)) ws = policy_inspect login_policy (jp_event ip ''/'' t) ws" for ws
    by (simp add: policy_step_def demo_filter_def)
  have d: "fg_detector demo_filter = jp_config" by (simp add: demo_filter_def)
  note i = inspect_state [OF assms(1), of demo_filter w req "jp_event ip ''/'' t", unfolded p d, simplified h demo_accepted [OF assms(2)]]
  show "rf_windows (fst (filter_inspect demo_filter w req (jp_event ip ''/'' t) s)) = snd (policy_inspect login_policy (jp_event ip ''/'' t) (rf_windows s))"
    "snd (filter_inspect demo_filter w req (jp_event ip ''/'' t) s) \<longleftrightarrow> map_option ac_action (fst (policy_inspect login_policy (jp_event ip ''/'' t) (rf_windows s))) \<noteq> Some Deny"
    using i by simp_all
qed

text \<open>The third request of the first client is refused, that of a second client passes.\<close>

lemma visitors_do_not_affect_each_other_witness:
  "\<not> snd (filter_inspect demo_filter \<lparr>fw_now = 3, fw_log_fails = False\<rparr> 0 (jp_event ''1.1.1.1'' ''/'' 3) (filter_after demo_filter crowd))
   \<and> snd (filter_inspect demo_filter \<lparr>fw_now = 3, fw_log_fails = False\<rparr> 0 (jp_event ''2.2.2.2'' ''/'' 3) (filter_after demo_filter crowd))"
proof -
  let ?w = "\<lparr>fw_now = 3, fw_log_fails = False\<rparr>" and ?a = "jp_event ''1.1.1.1'' ''/''" and ?b = "jp_event ''2.2.2.2'' ''/''"
  note defs = login_policy_def policy_inspect_def rule_of_def window_of_def unblock_def unblocked_def max_keys_def new_window_def flag_def put_def Let_def
    client_of_def jp_event_def windows_after_def
  have own: "filter (\<lambda>op. filter_client op \<in> {Some (client_of (?b 3)), None}) crowd = []"
    by (simp add: crowd_def demo_request_def client_of_def jp_event_def)
  have "card (\<Union> (set_option ` filter_client ` set (crowd @ [FilterInspects ?w 0 (?b 3)]))) < max_clients"
    by (simp add: crowd_def demo_request_def client_of_def jp_event_def max_clients_def)
  from visitors_do_not_affect_each_other [OF this, of demo_filter, unfolded own]
  have second: "snd (filter_inspect demo_filter ?w 0 (?b 3) (filter_after demo_filter crowd))"
    by (simp add: demo_inspect(2) new_filter_def) (simp add: defs)
  have stop: "\<not> rf_stopping (filter_after demo_filter crowd)" "\<not> rf_stopping (filter_after demo_filter (take n crowd))" for n
    by (simp_all add: filter_after_def crowd_def demo_request_def stopping_step new_filter_def take_Cons' del: filter_step.simps)
  have "rf_windows (filter_after demo_filter crowd) = windows_after login_policy (map PolicyInspects [?a 0, ?a 1, ?a 2]) []"
    using stop(2) [of 1] stop(2) [of 2]
    by (simp add: filter_after_def crowd_def demo_request_def demo_inspect(1) new_filter_def windows_after_def)
  then have "\<not> snd (filter_inspect demo_filter ?w 0 (?a 3) (filter_after demo_filter crowd))"
    using stop(1) by (simp add: demo_inspect(2)) (simp add: defs)
  with second show ?thesis by blast
qed

text \<open>
  A request that is refused is in the access log with its refusal, unless the log cannot be written,
  and then the failure is shown.
\<close>
theorem refusals_are_logged:
  assumes "\<not> rf_stopping s" "filter_inspect cfg w req e s = (s', False)"
  shows "if fw_log_fails w then rf_loggingFailed s' else
    \<exists>d. rf_log s' = rf_log s @ [(e, 403, d)] \<and> ac_action d = Deny"
proof -
  have log: "rf_log (record_access w e 403 d t) = (if fw_log_fails w then rf_log t else rf_log t @ [(e, 403, d)])"
    "rf_loggingFailed (record_access w e 403 d t) = fw_log_fails w" for d t by (simp_all add: record_access_def)
  have failed: "rf_loggingFailed (report_denial w e r t) = rf_loggingFailed t" for r t by (simp add: report_denial_def)
  obtain r cs where i: "inspect (fg_detector cfg) e (policy_handles cfg e) (rf_counters s) = (r, cs)" by fastforce
  obtain d t where p: "on_policy cfg (\<lambda>pol. policy_inspect pol e) (s\<lparr>rf_counters := cs\<rparr>) = (d, t)" by fastforce
  have t: "rf_log t = rf_log s" using on_policy_reports [OF p] by simp
  show ?thesis
  proof (cases r)
    case None
    then show ?thesis using assms i p t
      by (cases d) (simp_all add: filter_inspect_def split: if_splits, auto simp: log)
  next
    case (Some x)
    then show ?thesis using assms i by (simp add: filter_inspect_def) (auto simp: log failed)
  qed
qed

lemma refusals_are_logged_witness:
  "\<exists>s' d. filter_inspect demo_filter \<lparr>fw_now = 0, fw_log_fails = False\<rparr> 0 (jp_event ''1.1.1.1'' ''/.env'' 0) new_filter = (s', False)
     \<and> rf_log s' = [(jp_event ''1.1.1.1'' ''/.env'' 0, 403, d)] \<and> ac_action d = Deny"
proof -
  let ?w = "\<lparr>fw_now = 0, fw_log_fails = False\<rparr>" and ?e = "jp_event ''1.1.1.1'' ''/.env'' 0"
  have "refused jp_config ?e \<noteq> None" by code_simp
  then have "\<not> snd (filter_inspect demo_filter ?w 0 ?e new_filter)"
    using inspect_state(3) [of new_filter demo_filter ?w 0 ?e] by (auto simp: new_filter_def demo_filter_def inspect_def)
  then obtain s' where run: "filter_inspect demo_filter ?w 0 ?e new_filter = (s', False)"
    by (cases "filter_inspect demo_filter ?w 0 ?e new_filter") simp
  moreover have "\<not> rf_stopping new_filter" "rf_log new_filter = []" by (simp_all add: new_filter_def)
  ultimately show ?thesis using refusals_are_logged [OF _ run] by simp
qed

end
