(* ===== verification/Tunnel_Containment.thy ===== *)
theory Tunnel_Containment imports Text_Tools Async begin

text \<open>
  The containment of the public tunnels (\<open>src/intrusion/containment.ts\<close>): every rule of a configured host is
  pointed to \<open>http_status:503\<close>, after a snapshot of the rules before, and the result is read back. Cloudflare
  answers queries. A rule has the fields the code looks at and the text of all others; \<open>tc_reads\<close> is a
  history variable with the configurations that were read.
\<close>

section \<open>Rules\<close>

record ingress_rule =
  ig_hostname :: "string option"
  ig_path :: "string option"
  ig_service :: string
  ig_rest :: string

record tunnel_config =
  tn_ingress :: "ingress_rule list option"
  tn_rest :: string

record tunnel_target =
  tt_id :: string
  tt_hostnames :: "string list"

definition blocked_service :: string where
  "blocked_service = ''http_status:503''"

definition named :: "ingress_rule \<Rightarrow> bool" where
  "named r = (case ig_hostname r of Some h \<Rightarrow> h \<noteq> [] | None \<Rightarrow> False)"

definition targets :: "string list \<Rightarrow> ingress_rule \<Rightarrow> bool" where
  "targets hosts r = (case ig_hostname r of Some h \<Rightarrow> h \<noteq> [] \<and> js_lower h \<in> set hosts | None \<Rightarrow> False)"

definition block_rule :: "string list \<Rightarrow> ingress_rule \<Rightarrow> ingress_rule" where
  "block_rule hosts r = (if targets hosts r then r\<lparr>ig_service := blocked_service\<rparr> else r)"

definition blockedIngress :: "ingress_rule list \<Rightarrow> string list \<Rightarrow> string + ingress_rule list" where
  "blockedIngress ingress hosts =
     (if ingress = [] \<or> named (last ingress) then Inl ''missing terminal catch-all''
      else if \<not> list_all (\<lambda>host. list_ex (\<lambda>r. map_option js_lower (ig_hostname r) = Some host) ingress) hosts
        then Inl ''configured hostname missing''
      else Inr (map (block_rule hosts) ingress))"

definition rules_of :: "tunnel_config \<Rightarrow> ingress_rule list" where
  "rules_of c = (case tn_ingress c of Some rs \<Rightarrow> rs | None \<Rightarrow> [])"

section \<open>Programs\<close>

record containment =
  tc_snapshots :: "(string \<times> tunnel_config) list"
  tc_reads :: "(string \<times> tunnel_config) list"

datatype tunnel_query = TqGet string | TqPut string tunnel_config
datatype tunnel_answer = TaConfig tunnel_config | TaDone | TaFailed string

type_synonym 'r containing = "(containment, bool, tunnel_query, tunnel_answer, string, 'r) async"

text \<open>The store keeps the first snapshot of a tunnel; the world says whether saving fails.\<close>

definition saveTunnelSnapshot :: "string \<Rightarrow> tunnel_config \<Rightarrow> unit containing" where
  "saveTunnelSnapshot i c = look (\<lambda>fails _. if fails then throw ''snapshot'' else modify (\<lambda>s.
     if find_key fst i (tc_snapshots s) = None then s\<lparr>tc_snapshots := tc_snapshots s @ [(i, c)]\<rparr> else s))"

definition getConfiguration :: "string \<Rightarrow> tunnel_config containing" where
  "getConfiguration i = bind (await (TqGet i)) (\<lambda>a. case a of
       TaConfig c \<Rightarrow> andThen (modify (\<lambda>s. s\<lparr>tc_reads := tc_reads s @ [(i, c)]\<rparr>)) (ret c)
     | TaDone \<Rightarrow> throw ''no configuration''
     | TaFailed e \<Rightarrow> throw e)"

definition putConfiguration :: "string \<Rightarrow> tunnel_config \<Rightarrow> unit containing" where
  "putConfiguration i c = bind (await (TqPut i c)) (\<lambda>a. case a of TaFailed e \<Rightarrow> throw e | _ \<Rightarrow> ret ())"

definition blocking :: "tunnel_config \<Rightarrow> string list \<Rightarrow> ingress_rule list containing" where
  "blocking c hosts = (case blockedIngress (rules_of c) hosts of Inl e \<Rightarrow> throw e | Inr rs \<Rightarrow> ret rs)"

definition block_tunnel :: "tunnel_target \<Rightarrow> tunnel_config \<Rightarrow> unit containing" where
  "block_tunnel t before = bind (blocking before (tt_hostnames t)) (\<lambda>ingress.
     if Some ingress \<noteq> tn_ingress before
     then andThen (saveTunnelSnapshot (tt_id t) before) (putConfiguration (tt_id t) (before\<lparr>tn_ingress := Some ingress\<rparr>))
     else ret ())"

definition read_back :: "tunnel_target \<Rightarrow> unit containing" where
  "read_back t = bind (getConfiguration (tt_id t)) (\<lambda>c. bind (blocking c (tt_hostnames t)) (\<lambda>expected.
     if Some expected \<noteq> tn_ingress c then throw ''containment readback mismatch'' else ret ()))"

definition contain_tunnel :: "string list \<Rightarrow> tunnel_target \<Rightarrow> unit containing" where
  "contain_tunnel allowed t =
     (if list_ex (\<lambda>h. h \<notin> set allowed) (tt_hostnames t) then throw ''hostname not authorized''
      else andThen (bind (getConfiguration (tt_id t)) (block_tunnel t)) (read_back t))"

fun contain_each :: "string list \<Rightarrow> bool \<Rightarrow> tunnel_target list \<Rightarrow> unit containing" where
  "contain_each allowed failed [] = (if failed then throw ''one or more configured tunnels could not be confirmed blocked'' else ret ())"
| "contain_each allowed failed (t # ts) = attempt (contain_tunnel allowed t) (\<lambda>r. contain_each allowed (failed \<or> isl r) ts)"

definition containTunnels :: "tunnel_target list \<Rightarrow> string list \<Rightarrow> unit containing" where
  "containTunnels tunnels allowed = contain_each allowed False tunnels"

section \<open>What it guarantees\<close>

definition last_read :: "string \<Rightarrow> containment \<Rightarrow> tunnel_config option" where
  "last_read i s = map_option snd (find_key fst i (rev (tc_reads s)))"

text \<open>The hosts are shut: each has a rule, all its rules refuse, and the last rule is the catch-all.\<close>

definition shut :: "string list \<Rightarrow> tunnel_config \<Rightarrow> bool" where
  "shut hosts c \<longleftrightarrow> list_all (\<lambda>h. list_ex (\<lambda>r. map_option js_lower (ig_hostname r) = Some h) (rules_of c)) hosts
     \<and> list_all (\<lambda>r. targets hosts r \<longrightarrow> ig_service r = blocked_service) (rules_of c)
     \<and> rules_of c \<noteq> [] \<and> \<not> named (last (rules_of c))"

text \<open>A write changes nothing but the service of the rules of its hosts, relative to what was read, and it has a snapshot.\<close>

definition only_shuts :: "string list \<Rightarrow> tunnel_config \<Rightarrow> tunnel_config \<Rightarrow> bool" where
  "only_shuts hosts c c' \<longleftrightarrow> tn_rest c' = tn_rest c \<and> rules_of c' = map (block_rule hosts) (rules_of c)"

fun may_ask :: "tunnel_target list \<Rightarrow> tunnel_query \<Rightarrow> containment \<Rightarrow> bool" where
  "may_ask ts (TqGet i) s \<longleftrightarrow> True"
| "may_ask ts (TqPut i c) s \<longleftrightarrow> (\<exists>t \<in> set ts. tt_id t = i \<and> find_key fst i (tc_snapshots s) \<noteq> None
     \<and> (\<exists>b. last_read i s = Some b \<and> only_shuts (tt_hostnames t) b c))"

text \<open>A snapshot has a rule that was open, so it is from before the containment.\<close>

definition snapshot_open :: "tunnel_config \<Rightarrow> bool" where
  "snapshot_open c \<longleftrightarrow> list_ex (\<lambda>r. named r \<and> ig_service r \<noteq> blocked_service) (rules_of c)"

definition snapshots_open :: "containment \<Rightarrow> bool" where
  "snapshots_open s \<longleftrightarrow> list_all (\<lambda>(i, c). snapshot_open c) (tc_snapshots s)"

interpretation contain: async_safety snapshots_open "\<lambda>s s'. s' = s" "\<lambda>_ _. True" "\<lambda>_ _ _. True" "may_ask ts" for ts
  by unfold_locales simp_all

lemma contain_stable [simp]: "contain.stable L"
  by (simp add: contain.stable_def)

lemma blocked_Inr: "blockedIngress rs hosts = Inr rs' \<Longrightarrow> rs' = map (block_rule hosts) rs \<and> rs \<noteq> [] \<and> \<not> named (last rs)
    \<and> list_all (\<lambda>h. list_ex (\<lambda>r. map_option js_lower (ig_hostname r) = Some h) rs) hosts"
  by (auto simp: blockedIngress_def split: if_splits)

lemma blocked_shut: "blockedIngress (rules_of c) hosts = Inr rs \<Longrightarrow> Some rs = tn_ingress c \<Longrightarrow> shut hosts c"
proof -
  assume b: "blockedIngress (rules_of c) hosts = Inr rs" "Some rs = tn_ingress c"
  then have rs: "rules_of c = rs" by (metis rules_of_def option.simps(5))
  from blocked_Inr [OF b(1)] have "rs = map (block_rule hosts) rs" by (simp add: rs)
  then have fixed: "\<forall>r \<in> set rs. block_rule hosts r = r" by (metis map_eq_conv map_ident)
  have "targets hosts r \<longrightarrow> ig_service r = blocked_service" if "r \<in> set rs" for r
  proof
    assume "targets hosts r"
    then have "ig_service (block_rule hosts r) = blocked_service" by (simp add: block_rule_def)
    then show "ig_service r = blocked_service" using fixed that by simp
  qed
  with blocked_Inr [OF b(1)] show ?thesis by (auto simp: shut_def rs list_all_iff)
qed

lemma blocked_open:
  assumes "blockedIngress (rules_of c) hosts = Inr rs" "Some rs \<noteq> tn_ingress c"
  shows "snapshot_open c"
proof -
  from blocked_Inr [OF assms(1)] have rs: "rs = map (block_rule hosts) (rules_of c)" "rules_of c \<noteq> []" by auto
  then have "tn_ingress c = Some (rules_of c)" by (auto simp: rules_of_def split: option.splits)
  with assms(2) rs have "map (block_rule hosts) (rules_of c) \<noteq> rules_of c" by simp
  then obtain r where "r \<in> set (rules_of c)" "block_rule hosts r \<noteq> r" by (metis map_idI)
  then show ?thesis
    by (auto simp: snapshot_open_def list_ex_iff block_rule_def targets_def named_def split: if_splits option.splits intro!: bexI [of _ r])
qed

lemma get_rule:
  "(\<And>s c. P s \<Longrightarrow> Q c (s\<lparr>tc_reads := tc_reads s @ [(i, c)]\<rparr>)) \<Longrightarrow> (\<And>s. P s \<Longrightarrow> E s) \<Longrightarrow>
   contain.triple ts P (getConfiguration i) (on_result Q E)"
  unfolding getConfiguration_def
proof (rule contain.seq_bind)
  assume q: "\<And>s c. P s \<Longrightarrow> Q c (s\<lparr>tc_reads := tc_reads s @ [(i, c)]\<rparr>)" and e: "\<And>s. P s \<Longrightarrow> E s"
  show "contain.triple ts P (await (TqGet i)) (on_result (\<lambda>_. P) E)"
    by (rule contain.triple_await [where L = P]) simp_all
  show "contain.triple ts P (case a of TaConfig c \<Rightarrow> andThen (modify (\<lambda>s. s\<lparr>tc_reads := tc_reads s @ [(i, c)]\<rparr>)) (ret c)
      | TaDone \<Rightarrow> throw ''no configuration'' | TaFailed e \<Rightarrow> throw e) (on_result Q E)" for a
  proof (cases a)
    case (TaConfig c)
    show ?thesis unfolding TaConfig tunnel_answer.case
      by (rule contain.seq_andThen [where Q = "Q c"]; (rule contain.seq_modify | rule contain.seq_ret)) (simp_all add: q snapshots_open_def)
  qed (auto intro!: contain.seq_throw e)
qed

lemma blocking_rule: "(\<And>s rs. P s \<Longrightarrow> blockedIngress (rules_of c) hosts = Inr rs \<Longrightarrow> Q rs s) \<Longrightarrow> (\<And>s. P s \<Longrightarrow> E s)
    \<Longrightarrow> contain.triple ts P (blocking c hosts) (on_result Q E)"
  unfolding blocking_def by (cases "blockedIngress (rules_of c) hosts") (auto intro: contain.seq_throw contain.seq_ret)

text \<open>An assertion on the reads, which neither snapshots nor a read of this tunnel disturb.\<close>

definition beyond :: "string \<Rightarrow> (containment \<Rightarrow> bool) \<Rightarrow> bool" where
  "beyond i J \<longleftrightarrow> (\<forall>s c. J s \<longrightarrow> J (s\<lparr>tc_reads := tc_reads s @ [(i, c)]\<rparr>)) \<and> (\<forall>s x. J s \<longrightarrow> J (s\<lparr>tc_snapshots := x\<rparr>))"

lemma last_read_snoc [simp]: "last_read j (s\<lparr>tc_reads := tc_reads s @ [(i, c)]\<rparr>) = (if j = i then Some c else last_read j s)"
  "last_read j (s\<lparr>tc_snapshots := x\<rparr>) = last_read j s"
  by (auto simp: last_read_def)

lemma snapshot_rule:
  assumes "beyond i J" "snapshot_open c"
  shows "contain.triple ts (\<lambda>s. J s \<and> last_read i s = Some c) (saveTunnelSnapshot i c)
    (on_result (\<lambda>_ s. J s \<and> last_read i s = Some c \<and> find_key fst i (tc_snapshots s) \<noteq> None) J)"
  unfolding saveTunnelSnapshot_def
proof (rule contain.triple_look, rule contain.triple_if)
  fix fails s0
  show "contain.triple ts (\<lambda>t. (J t \<and> last_read i t = Some c) \<and> t = s0) (modify (\<lambda>s.
      if find_key fst i (tc_snapshots s) = None then s\<lparr>tc_snapshots := tc_snapshots s @ [(i, c)]\<rparr> else s))
    (on_result (\<lambda>_ s. J s \<and> last_read i s = Some c \<and> find_key fst i (tc_snapshots s) \<noteq> None) J)"
    using assms by (intro contain.seq_modify) (auto simp: beyond_def snapshots_open_def find_key_append)
qed (auto intro: contain.seq_throw)

lemma put_rule:
  assumes "t \<in> set ts" "only_shuts (tt_hostnames t) c c'"
  shows "contain.triple ts (\<lambda>s. J s \<and> last_read (tt_id t) s = Some c \<and> find_key fst (tt_id t) (tc_snapshots s) \<noteq> None)
    (putConfiguration (tt_id t) c') (on_result (\<lambda>_. J) J)"
  unfolding putConfiguration_def
proof (rule contain.seq_bind [where Q = "\<lambda>_. J"])
  show "contain.triple ts (\<lambda>s. J s \<and> last_read (tt_id t) s = Some c \<and> find_key fst (tt_id t) (tc_snapshots s) \<noteq> None)
    (await (TqPut (tt_id t) c')) (on_result (\<lambda>_. J) J)"
    by (rule contain.triple_await [where L = "\<lambda>s. J s \<and> last_read (tt_id t) s = Some c \<and> find_key fst (tt_id t) (tc_snapshots s) \<noteq> None"])
      (use assms in auto)
  show "contain.triple ts J (case a of TaFailed e \<Rightarrow> throw e | _ \<Rightarrow> ret ()) (on_result (\<lambda>_. J) J)" for a
    by (cases a) (auto intro: contain.seq_throw contain.seq_ret)
qed

lemma block_rule_triple:
  assumes "t \<in> set ts" "beyond (tt_id t) J"
  shows "contain.triple ts (\<lambda>s. J s \<and> last_read (tt_id t) s = Some c) (block_tunnel t c) (on_result (\<lambda>_. J) J)"
  unfolding block_tunnel_def
proof (rule contain.seq_bind)
  let ?P = "\<lambda>s. J s \<and> last_read (tt_id t) s = Some c"
  show "contain.triple ts ?P (blocking c (tt_hostnames t))
    (on_result (\<lambda>rs s. ?P s \<and> blockedIngress (rules_of c) (tt_hostnames t) = Inr rs) J)" by (rule blocking_rule) auto
  show "contain.triple ts (\<lambda>s. ?P s \<and> blockedIngress (rules_of c) (tt_hostnames t) = Inr rs)
      (if Some rs \<noteq> tn_ingress c then andThen (saveTunnelSnapshot (tt_id t) c) (putConfiguration (tt_id t) (c\<lparr>tn_ingress := Some rs\<rparr>)) else ret ())
      (on_result (\<lambda>_. J) J)" for rs
  proof (cases "blockedIngress (rules_of c) (tt_hostnames t) = Inr rs")
    case True
    show ?thesis
    proof (rule contain.triple_if)
      assume ne: "Some rs \<noteq> tn_ingress c"
      have o: "only_shuts (tt_hostnames t) c (c\<lparr>tn_ingress := Some rs\<rparr>)" using blocked_Inr [OF True] by (simp add: only_shuts_def rules_of_def)
      have "contain.triple ts ?P (andThen (saveTunnelSnapshot (tt_id t) c) (putConfiguration (tt_id t) (c\<lparr>tn_ingress := Some rs\<rparr>))) (on_result (\<lambda>_. J) J)"
        by (rule contain.seq_andThen [OF snapshot_rule [OF assms(2) blocked_open [OF True ne]] put_rule [OF assms(1) o]])
      then show "contain.triple ts (\<lambda>s. ?P s \<and> blockedIngress (rules_of c) (tt_hostnames t) = Inr rs)
        (andThen (saveTunnelSnapshot (tt_id t) c) (putConfiguration (tt_id t) (c\<lparr>tn_ingress := Some rs\<rparr>))) (on_result (\<lambda>_. J) J)"
        by (rule contain.triple_pre) simp
    qed (auto intro: contain.seq_ret)
  qed (simp add: contain.triple_def)
qed

lemma contain_tunnel_rule:
  assumes "t \<in> set ts" "beyond (tt_id t) J"
  shows "contain.triple ts J (contain_tunnel allowed t)
    (on_result (\<lambda>_ s. J s \<and> set (tt_hostnames t) \<subseteq> set allowed \<and> (\<exists>c. last_read (tt_id t) s = Some c \<and> shut (tt_hostnames t) c)) J)"
  (is "contain.triple ts J _ (on_result ?Q J)")
  unfolding contain_tunnel_def
proof (rule contain.triple_if)
  assume "\<not> list_ex (\<lambda>h. h \<notin> set allowed) (tt_hostnames t)"
  then have a: "set (tt_hostnames t) \<subseteq> set allowed" by (auto simp: list_ex_iff)
  have j: "J (s\<lparr>tc_reads := tc_reads s @ [(tt_id t, c)]\<rparr>)" if "J s" for s c using assms(2) that by (simp add: beyond_def)
  show "contain.triple ts J (andThen (bind (getConfiguration (tt_id t)) (block_tunnel t)) (read_back t)) (on_result ?Q J)"
  proof (rule contain.seq_andThen [OF contain.seq_bind])
    show "contain.triple ts J (getConfiguration (tt_id t)) (on_result (\<lambda>c s. J s \<and> last_read (tt_id t) s = Some c) J)" by (rule get_rule) (simp_all add: j)
    show "contain.triple ts (\<lambda>s. J s \<and> last_read (tt_id t) s = Some c) (block_tunnel t c) (on_result (\<lambda>_. J) J)" for c by (rule block_rule_triple [OF assms])
    show "contain.triple ts J (read_back t) (on_result ?Q J)" unfolding read_back_def
    proof (rule contain.seq_bind)
      show "contain.triple ts J (getConfiguration (tt_id t)) (on_result (\<lambda>c s. J s \<and> last_read (tt_id t) s = Some c) J)" by (rule get_rule) (simp_all add: j)
      show "contain.triple ts (\<lambda>s. J s \<and> last_read (tt_id t) s = Some c) (bind (blocking c (tt_hostnames t)) (\<lambda>expected.
          if Some expected \<noteq> tn_ingress c then throw ''containment readback mismatch'' else ret ())) (on_result ?Q J)" for c
      proof (rule contain.seq_bind)
        show "contain.triple ts (\<lambda>s. J s \<and> last_read (tt_id t) s = Some c) (blocking c (tt_hostnames t))
          (on_result (\<lambda>rs s. (J s \<and> last_read (tt_id t) s = Some c) \<and> blockedIngress (rules_of c) (tt_hostnames t) = Inr rs) J)" by (rule blocking_rule) auto
        show "contain.triple ts (\<lambda>s. (J s \<and> last_read (tt_id t) s = Some c) \<and> blockedIngress (rules_of c) (tt_hostnames t) = Inr rs)
          (if Some rs \<noteq> tn_ingress c then throw ''containment readback mismatch'' else ret ()) (on_result ?Q J)" for rs
          by (rule contain.triple_if) (auto intro!: contain.seq_throw contain.seq_ret simp: a blocked_shut)
      qed
    qed
  qed
qed (auto intro: contain.seq_throw)

text \<open>What is known of the tunnels that succeeded.\<close>

definition tunnels_shut :: "string list \<Rightarrow> tunnel_target list \<Rightarrow> containment \<Rightarrow> bool" where
  "tunnels_shut allowed ts s \<longleftrightarrow> (\<forall>t \<in> set ts. set (tt_hostnames t) \<subseteq> set allowed
     \<and> (\<exists>c. last_read (tt_id t) s = Some c \<and> shut (tt_hostnames t) c))"

lemma tunnels_shut_beyond: "tt_id t \<notin> tt_id ` set us \<Longrightarrow> beyond (tt_id t) (\<lambda>s. failed \<or> tunnels_shut allowed us s)"
proof -
  assume "tt_id t \<notin> tt_id ` set us"
  then have "\<forall>u \<in> set us. tt_id u \<noteq> tt_id t" by force
  then show ?thesis by (auto simp: beyond_def tunnels_shut_def)
qed

lemma each_rule:
  assumes "set vs \<subseteq> set ts" "distinct (map tt_id (us @ vs))"
  shows "contain.triple ts (\<lambda>s. failed \<or> tunnels_shut allowed us s) (contain_each allowed failed vs)
    (on_result (\<lambda>_ s. tunnels_shut allowed (us @ vs) s) (\<lambda>_. True))"
  using assms
proof (induction vs arbitrary: us failed)
  case Nil
  then show ?case by (cases failed) (auto intro!: contain.seq_throw contain.seq_ret)
next
  case (Cons t vs)
  let ?J = "\<lambda>s. failed \<or> tunnels_shut allowed us s"
  have t: "t \<in> set ts" "beyond (tt_id t) ?J" using Cons.prems by (auto intro!: tunnels_shut_beyond)
  show ?case unfolding contain_each.simps
  proof (rule contain.seq_attempt [OF contain_tunnel_rule [OF t]])
    fix x :: unit
    have "contain.triple ts (\<lambda>s. (failed \<or> isl (Inr x :: string + unit)) \<or> tunnels_shut allowed (us @ [t]) s)
        (contain_each allowed (failed \<or> isl (Inr x :: string + unit)) vs) (on_result (\<lambda>_ s. tunnels_shut allowed (us @ t # vs) s) (\<lambda>_. True))"
      using Cons.prems Cons.IH [of "us @ [t]"] by simp
    then show "contain.triple ts (\<lambda>s. ?J s \<and> set (tt_hostnames t) \<subseteq> set allowed \<and> (\<exists>c. last_read (tt_id t) s = Some c \<and> shut (tt_hostnames t) c))
        (contain_each allowed (failed \<or> isl (Inr x :: string + unit)) vs) (on_result (\<lambda>_ s. tunnels_shut allowed (us @ t # vs) s) (\<lambda>_. True))"
      by (rule contain.triple_pre) (auto simp: tunnels_shut_def)
  next
    fix e :: string
    have "contain.triple ts (\<lambda>s. (failed \<or> isl (Inl e :: string + unit)) \<or> tunnels_shut allowed (us @ [t]) s)
        (contain_each allowed (failed \<or> isl (Inl e :: string + unit)) vs) (on_result (\<lambda>_ s. tunnels_shut allowed (us @ t # vs) s) (\<lambda>_. True))"
      using Cons.prems Cons.IH [of "us @ [t]" True] by simp
    then show "contain.triple ts ?J (contain_each allowed (failed \<or> isl (Inl e :: string + unit)) vs)
        (on_result (\<lambda>_ s. tunnels_shut allowed (us @ t # vs) s) (\<lambda>_. True))"
      by (rule contain.triple_pre) auto
  qed
qed

text \<open>
  C15. When the containment returns, every tunnel has hosts that were authorized, and the configuration last
  read from Cloudflare shuts them all. While it runs, a write is only issued for a configured tunnel, changes
  nothing but the services of the rules of its hosts in what was read just before, and the store has a
  snapshot of this tunnel; all snapshots have an open rule, so none was taken of a contained tunnel.
\<close>
theorem containment_is_confirmed:
  assumes "reaches (\<lambda>_ _. False) (\<lambda>_ _ _. True) snapshots_open (containTunnels ts allowed) s p" "distinct (map tt_id ts)"
  shows "snapshots_open s \<and> (case p of Return r \<Rightarrow> r = Inr () \<longrightarrow> tunnels_shut allowed ts s | Await q k \<Rightarrow> may_ask ts q s)"
proof -
  have m: "contain.triple ts (\<lambda>_. True) (containTunnels ts allowed) (on_result (\<lambda>_ s. tunnels_shut allowed ts s) (\<lambda>_. True))"
    unfolding containTunnels_def using each_rule [of ts ts "[]" False allowed] assms(2)
    by (intro contain.triple_pre [where P = "\<lambda>_. True" and P' = "\<lambda>s. False \<or> tunnels_shut allowed [] s"]) (simp_all add: tunnels_shut_def)
  note run = assms(1)
  have inv: "snapshots_open s" using contain.reaches_safe [OF run m] by simp
  show ?thesis
  proof (cases p)
    case (Return r)
    from contain.reaches_result [OF run [unfolded Return] m] inv Return show ?thesis by (cases r) simp_all
  next
    case (Await q k)
    from contain.reaches_allowed [OF run [unfolded Await] m] inv Await show ?thesis by simp
  qed
qed

definition demo_tunnel :: tunnel_target where
  "demo_tunnel = \<lparr>tt_id = ''t'', tt_hostnames = [''h.jp'']\<rparr>"

definition demo_rules :: "string \<Rightarrow> tunnel_config" where
  "demo_rules service = \<lparr>tn_ingress = Some [\<lparr>ig_hostname = Some ''H.jp'', ig_path = None, ig_service = service, ig_rest = ''a''\<rparr>,
     \<lparr>ig_hostname = Some ''other.jp'', ig_path = None, ig_service = ''http://x'', ig_rest = ''b''\<rparr>,
     \<lparr>ig_hostname = None, ig_path = None, ig_service = ''http_status:404'', ig_rest = ''c''\<rparr>], tn_rest = ''d''\<rparr>"

definition contained_demo :: "containment \<times> (containment, bool, tunnel_query, tunnel_answer, string, unit) prog" where
  "contained_demo = answering [TaConfig (demo_rules ''http://y''), TaDone, TaConfig (demo_rules blocked_service)] False
     (containTunnels [demo_tunnel] [''h.jp''] False \<lparr>tc_snapshots = [], tc_reads = []\<rparr>)"

definition returned :: "('s, 'o, 'q, 'a, 'e, unit) prog \<Rightarrow> bool" where
  "returned p = (case p of Return (Inr _) \<Rightarrow> True | _ \<Rightarrow> False)"

lemma containment_is_confirmed_witness:
  "\<exists>s. reaches (\<lambda>_ _. False) (\<lambda>_ _ _. True) snapshots_open (containTunnels [demo_tunnel] [''h.jp'']) s (Return (Inr ()))
     \<and> tunnels_shut [''h.jp''] [demo_tunnel] s \<and> tc_snapshots s = [(''t'', demo_rules ''http://y'')]"
proof -
  have run: "returned (snd contained_demo)" "tc_snapshots (fst contained_demo) = [(''t'', demo_rules ''http://y'')]" by code_simp+
  then have p: "snd contained_demo = Return (Inr ())"
    by (cases "snd contained_demo") (auto simp: returned_def split: sum.splits)
  have "snapshots_open \<lparr>tc_snapshots = [], tc_reads = []\<rparr>" by (simp add: snapshots_open_def)
  from reaches_run [of snapshots_open, OF this] have
    r: "reaches (\<lambda>_ _. False) (\<lambda>_ _ _. True) snapshots_open (containTunnels [demo_tunnel] [''h.jp'']) (fst contained_demo) (Return (Inr ()))"
    unfolding p [symmetric] contained_demo_def .
  have "distinct (map tt_id [demo_tunnel])" by simp
  from containment_is_confirmed [OF r this] r run(2) show ?thesis by auto
qed

end
