(* ===== verification/Tunnel_Routes.thy ===== *)
theory Tunnel_Routes imports Tunnel_Containment begin

text \<open>
  Edits of the public routes by the broker (\<open>src/cf-tunnel/route-service.ts\<close>): only allowed hosts, and
  always before the catch-all. A rejected edit is the left side of the result. The options of a rule the
  code does not look at are text; whether they require Access is a parameter of \<open>describeRoutes\<close>.
\<close>

section \<open>Edits\<close>

record route_input =
  ri_hostname :: string
  ri_path :: "string option"
  ri_service :: string
  ri_options :: string

definition host_key :: "string \<Rightarrow> string" where
  "host_key h = js_lower (js_trim h)"

definition allowlist :: "string list \<Rightarrow> string list" where
  "allowlist hs = filter (\<lambda>h. h \<noteq> []) (map host_key hs)"

definition readAllowedHostnames :: "string option \<Rightarrow> string list \<Rightarrow> string list" where
  "readAllowedHostnames env stored =
     (let fromEnv = allowlist (split_on (CHR '','') (case env of Some e \<Rightarrow> e | None \<Rightarrow> []))
      in if fromEnv \<noteq> [] then fromEnv else allowlist stored)"

definition isHostnameAllowed :: "string \<Rightarrow> string list \<Rightarrow> bool" where
  "isHostnameAllowed h allowed \<longleftrightarrow> host_key h \<in> set allowed"

definition path_key :: "string option \<Rightarrow> string" where
  "path_key p = js_trim (case p of Some x \<Rightarrow> x | None \<Rightarrow> [])"

definition sameKey :: "ingress_rule \<Rightarrow> string \<Rightarrow> string option \<Rightarrow> bool" where
  "sameKey r h p \<longleftrightarrow> host_key (case ig_hostname r of Some x \<Rightarrow> x | None \<Rightarrow> []) = host_key h \<and> path_key (ig_path r) = path_key p"

definition catchAllIndexOf :: "ingress_rule list \<Rightarrow> nat option" where
  "catchAllIndexOf ingress = (if ingress \<noteq> [] \<and> \<not> named (last ingress) then Some (length ingress - 1) else None)"

definition new_rule :: "route_input \<Rightarrow> ingress_rule" where
  "new_rule input = \<lparr>ig_hostname = Some (js_trim (ri_hostname input)),
     ig_path = (case ri_path input of Some p \<Rightarrow> if p = [] then None else Some p | None \<Rightarrow> None),
     ig_service = js_trim (ri_service input), ig_rest = ri_options input\<rparr>"

definition addRoute :: "ingress_rule list \<Rightarrow> route_input \<Rightarrow> string list \<Rightarrow> string + ingress_rule list" where
  "addRoute ingress input allowed =
     (if \<not> isHostnameAllowed (ri_hostname input) allowed then Inl ''not in the allowlist''
      else if js_trim (ri_service input) = [] then Inl ''empty service''
      else if list_ex (\<lambda>r. named r \<and> sameKey r (ri_hostname input) (ri_path input)) ingress then Inl ''rule exists''
      else (case catchAllIndexOf ingress of
          None \<Rightarrow> Inl ''no catch-all''
        | Some i \<Rightarrow> Inr (take i ingress @ [new_rule input] @ drop i ingress)))"

definition removable :: "ingress_rule list \<Rightarrow> string \<Rightarrow> string option \<Rightarrow> nat \<Rightarrow> bool" where
  "removable ingress h p i \<longleftrightarrow> named (ingress ! i) \<and> Some i \<noteq> catchAllIndexOf ingress \<and> sameKey (ingress ! i) h p"

definition removeRoute :: "ingress_rule list \<Rightarrow> string \<Rightarrow> string option \<Rightarrow> string list \<Rightarrow> string + ingress_rule list" where
  "removeRoute ingress h p allowed =
     (if \<not> isHostnameAllowed h allowed then Inl ''not in the allowlist''
      else (case find (removable ingress h p) [0..<length ingress] of
          None \<Rightarrow> Inl ''no matching rule''
        | Some i \<Rightarrow> Inr (take i ingress @ drop (Suc i) ingress)))"

record route_view =
  rv_hostname :: "string option"
  rv_path :: "string option"
  rv_service :: string
  rv_mutable :: bool
  rv_access :: bool

definition describeRoutes :: "(string \<Rightarrow> bool) \<Rightarrow> ingress_rule list \<Rightarrow> string list \<Rightarrow> route_view list" where
  "describeRoutes isAccessRequired ingress allowed = map (\<lambda>(i, r). \<lparr>rv_hostname = ig_hostname r, rv_path = ig_path r, rv_service = ig_service r,
     rv_mutable = (named r \<and> Some i \<noteq> catchAllIndexOf ingress \<and> isHostnameAllowed (case ig_hostname r of Some h \<Rightarrow> h | None \<Rightarrow> []) allowed),
     rv_access = isAccessRequired (ig_rest r)\<rparr>) (enumerate 0 ingress)"

section \<open>Keys\<close>

lemma dropWhile_hd: "dropWhile P xs = xs \<longleftrightarrow> xs = [] \<or> \<not> P (hd xs)"
proof (cases xs)
  case (Cons x ys)
  have "length (dropWhile P ys) \<le> length ys" by (rule length_dropWhile_le)
  then have "dropWhile P ys \<noteq> x # ys" by (metis Suc_n_not_le_n length_Cons)
  then show ?thesis using Cons by simp
qed simp

lemma dropWhile_again [simp]: "dropWhile P (dropWhile P xs) = dropWhile P xs"
  by (induction xs) auto

lemma js_trim_again [simp]: "js_trim (js_trim s) = js_trim s"
proof -
  let ?t = "dropWhile is_space s"
  let ?u = "rev (dropWhile is_space (rev ?t))"
  have "dropWhile is_space ?u = ?u"
  proof (cases "?u = []")
    case False
    have "?t = ?u @ rev (takeWhile is_space (rev ?t))" by (metis rev_append rev_rev_ident takeWhile_dropWhile_id)
    then have "hd ?t = hd ?u" "?t \<noteq> []" using False by (metis hd_append2, metis append_is_Nil_conv)
    moreover have "\<not> is_space (hd ?t)" using calculation(2) by (metis hd_dropWhile)
    ultimately show ?thesis by (simp add: dropWhile_hd)
  next
    case True
    then show ?thesis by (metis dropWhile.simps(1))
  qed
  then show ?thesis by (simp add: js_trim_def)
qed

lemma host_key_trim [simp]: "host_key (js_trim h) = host_key h"
  by (simp add: host_key_def)

lemma readAllowed_nonempty: "[] \<notin> set (readAllowedHostnames env stored)"
  by (simp add: readAllowedHostnames_def allowlist_def Let_def)

lemma new_rule_key: "sameKey (new_rule input) (ri_hostname input) (ri_path input)"
  by (simp add: sameKey_def new_rule_def path_key_def split: option.split)

lemma new_rule_named: "isHostnameAllowed (ri_hostname input) allowed \<Longrightarrow> [] \<notin> set allowed \<Longrightarrow> named (new_rule input)"
  by (auto simp: isHostnameAllowed_def named_def new_rule_def host_key_def js_lower_def)

section \<open>Properties\<close>

lemma addRoute_Inr:
  assumes "addRoute ingress input allowed = Inr ingress'"
  shows "isHostnameAllowed (ri_hostname input) allowed" "\<not> list_ex (\<lambda>r. named r \<and> sameKey r (ri_hostname input) (ri_path input)) ingress"
    "ingress \<noteq> []" "\<not> named (last ingress)" "ingress' = butlast ingress @ [new_rule input, last ingress]"
proof -
  show "isHostnameAllowed (ri_hostname input) allowed" "\<not> list_ex (\<lambda>r. named r \<and> sameKey r (ri_hostname input) (ri_path input)) ingress"
    "ingress \<noteq> []" "\<not> named (last ingress)"
    using assms by (auto simp: addRoute_def catchAllIndexOf_def split: if_splits)
  then show "ingress' = butlast ingress @ [new_rule input, last ingress]" using assms
    by (cases ingress rule: rev_cases) (auto simp: addRoute_def catchAllIndexOf_def split: if_splits)
qed

text \<open>
  C20. A route that was added is removed again without a trace, with the allowlist of the environment and the
  settings; and adding it sends only requests elsewhere that no rule but the catch-all matched before.
\<close>
theorem added_route_is_removed:
  assumes "addRoute ingress input (readAllowedHostnames env stored) = Inr ingress'"
  shows "removeRoute ingress' (ri_hostname input) (ri_path input) (readAllowedHostnames env stored) = Inr ingress
    \<and> (\<forall>m. find m ingress' = (if m (new_rule input) \<and> \<not> list_ex m (butlast ingress) then Some (new_rule input) else find m ingress))"
proof
  note a = addRoute_Inr [OF assms]
  let ?n = "length ingress - 1"
  from a(3) obtain rs c where rs: "ingress = rs @ [c]" by (cases ingress rule: rev_cases) auto
  then have i': "ingress' = rs @ [new_rule input, c]" using a(5) by simp
  have "\<not> named c" using a(4) rs by simp
  then have ca: "catchAllIndexOf ingress' = Some (Suc (length rs))" by (simp add: catchAllIndexOf_def i')
  have none: "\<not> removable ingress' (ri_hostname input) (ri_path input) i" if "i < length rs" for i
    using a(2) that by (auto simp: removable_def i' rs nth_append list_ex_iff)
  have found: "removable ingress' (ri_hostname input) (ri_path input) (length rs)"
    using ca new_rule_named [OF a(1) readAllowed_nonempty] by (simp add: removable_def i' new_rule_key)
  have "find (removable ingress' (ri_hostname input) (ri_path input)) [0..<length ingress'] = Some (length rs)"
    unfolding find_Some_iff using none found by (intro exI [of _ "length rs"]) (simp add: i' nth_append)
  then show "removeRoute ingress' (ri_hostname input) (ri_path input) (readAllowedHostnames env stored) = Inr ingress"
    using a(1) by (simp add: removeRoute_def) (simp add: i' rs)
  have "find m (ys @ zs) = (case find m ys of Some r \<Rightarrow> Some r | None \<Rightarrow> find m zs)" for m and ys zs :: "ingress_rule list"
    by (induction ys) auto
  then show "\<forall>m. find m ingress' = (if m (new_rule input) \<and> \<not> list_ex m (butlast ingress) then Some (new_rule input) else find m ingress)"
    by (auto simp: i' rs list_ex_iff find_None_iff split: option.splits dest!: find_Some_iff [THEN iffD1])
qed

text \<open>A route that is shown as one that can be changed is one that can be removed.\<close>

lemma mutable_routes_are_removable:
  assumes "i < length ingress"
  shows "rv_mutable (describeRoutes acc ingress allowed ! i) \<longleftrightarrow>
    named (ingress ! i) \<and> Some i \<noteq> catchAllIndexOf ingress
    \<and> (\<exists>rs. removeRoute ingress (case ig_hostname (ingress ! i) of Some h \<Rightarrow> h | None \<Rightarrow> []) (ig_path (ingress ! i)) allowed = Inr rs)"
  (is "_ \<longleftrightarrow> ?m \<and> ?c \<and> (\<exists>rs. removeRoute ingress ?h ?p allowed = Inr rs)")
proof (cases "?m \<and> ?c")
  case True
  then have "removable ingress ?h ?p i" by (simp add: removable_def sameKey_def)
  then have "find (removable ingress ?h ?p) [0..<length ingress] \<noteq> None" using assms by (auto simp: find_None_iff)
  then obtain j where "find (removable ingress ?h ?p) [0..<length ingress] = Some j" by blast
  then show ?thesis using assms True by (simp add: describeRoutes_def removeRoute_def nth_enumerate_eq del: option.case_eq_if)
next
  case False
  then show ?thesis using assms by (auto simp: describeRoutes_def nth_enumerate_eq)
qed

definition two_routes :: "ingress_rule list" where
  "two_routes = [\<lparr>ig_hostname = Some ''a.jp'', ig_path = None, ig_service = ''http://x'', ig_rest = []\<rparr>,
     \<lparr>ig_hostname = None, ig_path = None, ig_service = ''http_status:404'', ig_rest = []\<rparr>]"

definition b_route :: route_input where
  "b_route = \<lparr>ri_hostname = '' B.jp '', ri_path = Some ''/p'', ri_service = ''http://y'', ri_options = []\<rparr>"

lemma added_route_is_removed_witness:
  "\<exists>rs. addRoute two_routes b_route (readAllowedHostnames (Some ''a.jp, B.JP'') []) = Inr rs \<and> map ig_service rs = [''http://x'', ''http://y'', ''http_status:404'']
     \<and> removeRoute rs (ri_hostname b_route) (ri_path b_route) (readAllowedHostnames (Some ''a.jp, B.JP'') []) = Inr two_routes"
proof -
  have "map_sum id (map ig_service) (addRoute two_routes b_route (readAllowedHostnames (Some ''a.jp, B.JP'') [])) = Inr [''http://x'', ''http://y'', ''http_status:404'']"
    by code_simp
  then obtain rs where rs: "addRoute two_routes b_route (readAllowedHostnames (Some ''a.jp, B.JP'') []) = Inr rs"
      "map ig_service rs = [''http://x'', ''http://y'', ''http_status:404'']"
    by (cases "addRoute two_routes b_route (readAllowedHostnames (Some ''a.jp, B.JP'') [])") auto
  show ?thesis by (rule exI [of _ rs]) (intro conjI rs added_route_is_removed [OF rs(1), THEN conjunct1])
qed

end
