(* ===== verification/Capture_Supervisor.thy ===== *)
theory Capture_Supervisor imports Text_Tools begin

text \<open>
  The supervision of the packet capture (\<open>src/netwatch/capture-supervisor.ts\<close>): one tshark at a time, a
  delay after a crash, and a restart when the settings change or the capture is due for rotation. A child
  is a number; \<open>cu_alive\<close> holds the children that run. \<open>cu_log\<close> is a history, the newest event first, of the
  calls of the supervisor with their arguments, of the ends of children, and of what the supervisor did to
  them. When the system refuses a kill, \<open>tshark-process.ts\<close> reports the end of the child although it goes on
  running. Settings hold the fields the supervisor reads; the Japanese wording of a reason is in English.
  \<open>capture_exit\<close> is \<open>handleExit\<close>.
\<close>

section \<open>State\<close>

record capture_settings =
  ce_executable :: string
  ce_args :: "string list"
  ce_restartAfterMs :: ms
  ce_retryAfterMs :: ms
  ce_fingerprint :: string

datatype capture_state = CapDisabled | CapStarting | CapRunning | CapBackoff | CapFailed

datatype capture_event =
    CeReconciled ms "capture_settings option"
  | CeFailed
  | CeStopped
  | CeStarted ms nat capture_settings
  | CeAsked nat
  | CeRefused nat
  | CeEnded ms nat

record capture =
  cu_process :: "nat option"
  cu_settings :: "capture_settings option"
  cu_state :: capture_state
  cu_reason :: "string option"
  cu_startedAt :: "ms option"
  cu_retryAt :: "ms option"
  cu_lastStderr :: "string list"
  cu_stopping :: bool
  cu_lines :: "string list"
  cu_alive :: "nat list"
  cu_next :: nat
  cu_log :: "capture_event list"

record exit_result =
  er_code :: "int option"
  er_signal :: "string option"
  er_error :: "string option"

record capture_world =
  cw_now :: ms
  cw_start_fails :: "string option"
  cw_kill_refused :: "string option"
  cw_stderr :: "string list"

definition new_capture :: capture where
  "new_capture = \<lparr>cu_process = None, cu_settings = None, cu_state = CapDisabled, cu_reason = None, cu_startedAt = None,
     cu_retryAt = None, cu_lastStderr = [], cu_stopping = False, cu_lines = [], cu_alive = [], cu_next = 0, cu_log = []\<rparr>"

section \<open>Operations\<close>

definition log_call :: "capture_event \<Rightarrow> capture \<Rightarrow> capture" where
  "log_call e s = s\<lparr>cu_log := e # cu_log s\<rparr>"

definition exit_reason :: "exit_result \<Rightarrow> string list \<Rightarrow> string" where
  "exit_reason r stderr =
     (let why = (case er_error r of
            Some e \<Rightarrow> ''cannot start tshark: '' @ e
          | None \<Rightarrow> ''tshark exited (code='' @ (case er_code r of Some n \<Rightarrow> int_string n | None \<Rightarrow> ''null'')
              @ '' signal='' @ (case er_signal r of Some x \<Rightarrow> x | None \<Rightarrow> ''null'') @ '')'')
      in if stderr = [] \<or> last stderr = [] then why else why @ '': '' @ last stderr)"

definition capture_exit :: "ms \<Rightarrow> nat \<Rightarrow> exit_result \<Rightarrow> string list \<Rightarrow> capture \<Rightarrow> capture" where
  "capture_exit now child r stderr s =
     (if cu_process s \<noteq> Some child then s
      else let s1 = s\<lparr>cu_lastStderr := stderr, cu_process := None, cu_startedAt := None\<rparr> in
        if cu_stopping s1
        then s1\<lparr>cu_stopping := False,
            cu_state := (if cu_state s1 \<noteq> CapDisabled \<and> cu_state s1 \<noteq> CapFailed then CapStarting else cu_state s1)\<rparr>
        else let retry = now + (case cu_settings s1 of Some x \<Rightarrow> ce_retryAfterMs x | None \<Rightarrow> 30000)
          in s1\<lparr>cu_reason := Some (exit_reason r stderr), cu_state := CapBackoff, cu_retryAt := Some retry\<rparr>)"

text \<open>
  A kill is a request; the child ends when its end is reported. A refused kill is reported as the end of the
  child in the same turn, before \<open>kill\<close> returns.
\<close>

definition stopProcess :: "capture_world \<Rightarrow> capture \<Rightarrow> capture" where
  "stopProcess w s = (case cu_process s of None \<Rightarrow> s
     | Some child \<Rightarrow>
         let s1 = log_call (CeAsked child) (s\<lparr>cu_stopping := True\<rparr>)
         in case cw_kill_refused w of None \<Rightarrow> s1
            | Some e \<Rightarrow> capture_exit (cw_now w) child \<lparr>er_code = None, er_signal = None, er_error = Some e\<rparr> (cw_stderr w)
                (log_call (CeRefused child) s1))"

definition startProcess :: "capture_world \<Rightarrow> capture_settings \<Rightarrow> capture \<Rightarrow> capture" where
  "startProcess w x s =
     (let child = cu_next s;
          s1 = log_call (CeStarted (cw_now w) child x) (s\<lparr>cu_state := CapStarting, cu_reason := None, cu_stopping := False,
            cu_next := child + 1, cu_process := Some child, cu_startedAt := Some (cw_now w), cu_lines := []\<rparr>)
      in case cw_start_fails w of
           Some e \<Rightarrow> capture_exit (cw_now w) child \<lparr>er_code = None, er_signal = None, er_error = Some e\<rparr> []
             (log_call (CeEnded (cw_now w) child) s1)
         | None \<Rightarrow> s1\<lparr>cu_alive := cu_alive s1 @ [child], cu_state := CapRunning\<rparr>)"

definition rotateIfDue :: "capture_world \<Rightarrow> capture_settings \<Rightarrow> capture \<Rightarrow> capture" where
  "rotateIfDue w x s = (case cu_startedAt s of
       None \<Rightarrow> s
     | Some t \<Rightarrow> if ce_restartAfterMs x \<le> 0 \<or> cw_now w - t < ce_restartAfterMs x then s else stopProcess w s)"

definition capture_reconcile :: "capture_world \<Rightarrow> capture_settings option \<Rightarrow> string option \<Rightarrow> capture \<Rightarrow> capture" where
  "capture_reconcile w settings disabledReason s = (case settings of
       None \<Rightarrow> (stopProcess w s)\<lparr>cu_settings := None, cu_state := CapDisabled, cu_reason := disabledReason, cu_retryAt := None\<rparr>
     | Some x \<Rightarrow>
         let changed = map_option ce_fingerprint (cu_settings s) \<noteq> Some (ce_fingerprint x);
             s0 = s\<lparr>cu_settings := Some x\<rparr>;
             s1 = (if changed then s0\<lparr>cu_retryAt := None\<rparr> else s0)
         in if changed \<and> cu_process s1 \<noteq> None then stopProcess w s1
            else if cu_process s1 \<noteq> None then rotateIfDue w x s1
            else if (case cu_retryAt s1 of Some t \<Rightarrow> cw_now w < t | None \<Rightarrow> False) then s1
            else startProcess w x s1)"

definition capture_fail :: "capture_world \<Rightarrow> string \<Rightarrow> capture \<Rightarrow> capture" where
  "capture_fail w reason s = (stopProcess w s)\<lparr>cu_settings := None, cu_state := CapFailed, cu_reason := Some reason\<rparr>"

definition capture_stop :: "capture_world \<Rightarrow> capture \<Rightarrow> capture" where
  "capture_stop w s = (stopProcess w s)\<lparr>cu_state := CapDisabled, cu_reason := Some ''stopped''\<rparr>"

text \<open>A line of a child other than the current one is dropped. \<open>cu_lines\<close> holds those passed on since \<open>onStart\<close>.\<close>

definition on_line :: "nat \<Rightarrow> string \<Rightarrow> capture \<Rightarrow> capture" where
  "on_line child line s = (if cu_process s \<noteq> Some child then s else s\<lparr>cu_state := CapRunning, cu_lines := cu_lines s @ [line]\<rparr>)"

section \<open>The machine\<close>

text \<open>
  The calls are recorded before the code runs. The end of a child is reported once; that of a child whose kill
  was refused is not reported any more. The clock does not go back.
\<close>

inductive capturing :: "ms \<Rightarrow> capture \<Rightarrow> bool" where
  created: "capturing 0 new_capture"
| reconciles: "capturing t s \<Longrightarrow> t \<le> cw_now w
    \<Longrightarrow> capturing (cw_now w) (capture_reconcile w settings reason (log_call (CeReconciled (cw_now w) settings) s))"
| fails: "capturing t s \<Longrightarrow> t \<le> cw_now w \<Longrightarrow> capturing (cw_now w) (capture_fail w reason (log_call CeFailed s))"
| stops: "capturing t s \<Longrightarrow> t \<le> cw_now w \<Longrightarrow> capturing (cw_now w) (capture_stop w (log_call CeStopped s))"
| lines: "capturing t s \<Longrightarrow> child \<in> set (cu_alive s) \<Longrightarrow> capturing t (on_line child line s)"
| ends: "capturing t s \<Longrightarrow> t \<le> now \<Longrightarrow> child \<in> set (cu_alive s) \<Longrightarrow> CeRefused child \<notin> set (cu_log s) \<Longrightarrow>
    capturing now (capture_exit now child r stderr (log_call (CeEnded now child) (s\<lparr>cu_alive := removeAll child (cu_alive s)\<rparr>)))"
| ends_unseen: "capturing t s \<Longrightarrow> child \<in> set (cu_alive s) \<Longrightarrow> CeRefused child \<in> set (cu_log s) \<Longrightarrow>
    capturing t (s\<lparr>cu_alive := removeAll child (cu_alive s)\<rparr>)"

section \<open>What the history says\<close>

text \<open>The settings in force, and the time before which nothing may be started: after the end of a child that was not asked to stop, unless other settings came.\<close>

fun in_force :: "capture_event list \<Rightarrow> capture_settings option" where
  "in_force [] = None"
| "in_force (CeReconciled t x # h) = x"
| "in_force (CeFailed # h) = None"
| "in_force (_ # h) = in_force h"

fun delay_until :: "capture_event list \<Rightarrow> ms option" where
  "delay_until [] = None"
| "delay_until (CeEnded t c # h) =
     (if CeAsked c \<in> set h then delay_until h
      else Some (t + (case in_force h of Some x \<Rightarrow> ce_retryAfterMs x | None \<Rightarrow> 30000)))"
| "delay_until (CeReconciled t x # h) =
     (if x \<noteq> None \<and> map_option ce_fingerprint x = map_option ce_fingerprint (in_force h) then delay_until h else None)"
| "delay_until (_ # h) = delay_until h"

text \<open>The children that were started, did not end and were not given up because their kill was refused.\<close>

fun running :: "capture_event list \<Rightarrow> nat list" where
  "running [] = []"
| "running (CeStarted t c x # h) = c # running h"
| "running (CeEnded t c # h) = removeAll c (running h)"
| "running (CeRefused c # h) = removeAll c (running h)"
| "running (_ # h) = running h"

fun starts_kept :: "capture_event list \<Rightarrow> bool" where
  "starts_kept [] \<longleftrightarrow> True"
| "starts_kept (CeStarted t c x # h) \<longleftrightarrow> starts_kept h \<and> running h = [] \<and> in_force h = Some x
     \<and> (case delay_until h of Some u \<Rightarrow> u \<le> t | None \<Rightarrow> True)"
| "starts_kept (_ # h) \<longleftrightarrow> starts_kept h"

definition fresh_children :: "capture \<Rightarrow> bool" where
  "fresh_children s \<longleftrightarrow> (\<forall>c. (CeAsked c \<in> set (cu_log s) \<or> CeRefused c \<in> set (cu_log s) \<or> c \<in> set (cu_alive s)) \<longrightarrow> c < cu_next s)"

definition capture_ok :: "capture \<Rightarrow> bool" where
  "capture_ok s \<longleftrightarrow> running (cu_log s) = (case cu_process s of Some c \<Rightarrow> [c] | None \<Rightarrow> [])
     \<and> filter (\<lambda>c. CeRefused c \<notin> set (cu_log s)) (cu_alive s) = running (cu_log s)
     \<and> (\<forall>c. cu_process s = Some c \<longrightarrow> cu_stopping s = (CeAsked c \<in> set (cu_log s)) \<and> c < cu_next s)
     \<and> (cu_process s = None \<longrightarrow> \<not> cu_stopping s)
     \<and> fresh_children s \<and> starts_kept (cu_log s)"


lemma log_call_fields [simp]: "cu_log (log_call e s) = e # cu_log s" "cu_process (log_call e s) = cu_process s"
  "cu_settings (log_call e s) = cu_settings s" "cu_retryAt (log_call e s) = cu_retryAt s" "cu_alive (log_call e s) = cu_alive s"
  "cu_stopping (log_call e s) = cu_stopping s" "cu_next (log_call e s) = cu_next s" "cu_startedAt (log_call e s) = cu_startedAt s"
  by (simp_all add: log_call_def)

lemma filter_without [simp]: "filter (\<lambda>x. x \<noteq> c \<and> P x) xs = removeAll c (filter P xs)"
  by (induction xs) auto

lemma filter_removeAll [simp]: "filter P (removeAll c xs) = removeAll c (filter P xs)"
  by (induction xs) auto

lemma capture_ok_fields [simp]: "capture_ok (s\<lparr>cu_settings := a\<rparr>) = capture_ok s" "capture_ok (s\<lparr>cu_state := b\<rparr>) = capture_ok s"
  "capture_ok (s\<lparr>cu_reason := c\<rparr>) = capture_ok s" "capture_ok (s\<lparr>cu_retryAt := d\<rparr>) = capture_ok s" "capture_ok (s\<lparr>cu_lines := ls\<rparr>) = capture_ok s"
  by (simp_all add: capture_ok_def fresh_children_def)

text \<open>Stopping does not touch the settings and the delay, and keeps the rest.\<close>

lemma stop_fields [simp]: "cu_settings (stopProcess w s) = cu_settings s" "cu_retryAt (stopProcess w s) = cu_retryAt s"
  by (simp_all add: stopProcess_def capture_exit_def Let_def split: option.split)

lemma stop_view [simp]: "in_force (cu_log (stopProcess w s)) = in_force (cu_log s)" "delay_until (cu_log (stopProcess w s)) = delay_until (cu_log s)"
  by (simp_all add: stopProcess_def capture_exit_def Let_def split: option.split)










definition demo_capture :: capture_settings where
  "demo_capture = \<lparr>ce_executable = ''tshark'', ce_args = [], ce_restartAfterMs = 0, ce_retryAfterMs = 5000, ce_fingerprint = ''f''\<rparr>"

definition calm_world :: "ms \<Rightarrow> capture_world" where
  "calm_world t = \<lparr>cw_now = t, cw_start_fails = None, cw_kill_refused = None, cw_stderr = []\<rparr>"

definition reconcile_at :: "ms \<Rightarrow> capture \<Rightarrow> capture" where
  "reconcile_at t s = capture_reconcile (calm_world t) (Some demo_capture) None (log_call (CeReconciled t (Some demo_capture)) s)"


lemma reconcile_at_run: "capturing t s \<Longrightarrow> t \<le> u \<Longrightarrow> capturing u (reconcile_at u s)"
  using capturing.reconciles [of t s "calm_world u" "Some demo_capture" None] by (simp add: reconcile_at_def calm_world_def)


text \<open>A refused kill: the settings are withdrawn, the child is given up, and the next settings start one beside it.\<close>

lemma refused_kill_captures_twice:
  "\<exists>s. capturing 2 s \<and> cu_alive s = [0, 1] \<and> cu_process s = Some 1"
proof -
  let ?w = "(calm_world 1)\<lparr>cw_kill_refused := Some ''EPERM''\<rparr>"
  let ?s1 = "capture_reconcile ?w None None (log_call (CeReconciled 1 None) (reconcile_at 0 new_capture))"
  have "capturing 0 (reconcile_at 0 new_capture)" by (rule reconcile_at_run [OF capturing.created]) simp
  from capturing.reconciles [OF this, of ?w None None] have "capturing 1 ?s1" by (simp add: calm_world_def)
  then have "capturing 2 (reconcile_at 2 ?s1)" by (rule reconcile_at_run) simp
  moreover have "cu_alive (reconcile_at 2 ?s1) = [0, 1]" "cu_process (reconcile_at 2 ?s1) = Some 1" by code_simp+
  ultimately show ?thesis by blast
qed

end
