(* ===== verification/File_Tail.thy ===== *)
theory File_Tail imports Text_Tools "HOL-Library.Sublist" begin

text \<open>
  The tail of the log files of services (\<open>src/log/file-tail.ts\<close>): each poll reads what a file got since the
  last one, publishes the lines that are complete and keeps the rest. A file is its bytes; decoding them and
  parsing a line as JSON are parameters. A line is published with the time of the poll unless it has its own.
\<close>

section \<open>State\<close>

record tail_state =
  ft_dir :: string
  ft_ymd :: string
  ft_offset :: nat
  ft_buf :: string

type_synonym tails = "(code \<times> tail_state) list"

text \<open>The file of a day in a directory, if there is one; \<open>fl_now\<close> and \<open>fl_today\<close> come from one clock.\<close>

record tail_world =
  fl_now :: ms
  fl_today :: string
  fl_file :: "string \<Rightarrow> string \<Rightarrow> string option"

datatype log_channel = Stdout | Stderr

record json_line =
  jl_ts :: "ms option"
  jl_channel :: "string option"
  jl_msg :: "string option"

record published =
  pb_code :: code
  pb_channel :: log_channel
  pb_ts :: ms
  pb_line :: string

record tail_codec =
  tk_utf8 :: "string \<Rightarrow> string"
  tk_json :: "string \<Rightarrow> json_line option"

section \<open>Reading\<close>

definition handleLine :: "tail_codec \<Rightarrow> ms \<Rightarrow> code \<Rightarrow> string \<Rightarrow> published list" where
  "handleLine k now c raw =
     (if js_trim raw = [] then []
      else (case tk_json k raw of
          Some o1 \<Rightarrow> [\<lparr>pb_code = c, pb_channel = (if jl_channel o1 = Some ''stderr'' then Stderr else Stdout),
              pb_ts = (case jl_ts o1 of Some t \<Rightarrow> t | None \<Rightarrow> now), pb_line = (case jl_msg o1 of Some m \<Rightarrow> m | None \<Rightarrow> raw)\<rparr>]
        | None \<Rightarrow> [\<lparr>pb_code = c, pb_channel = Stdout, pb_ts = now, pb_line = raw\<rparr>]))"

text \<open>The loop that cuts lines off the buffer.\<close>

function cut_lines :: "string \<Rightarrow> string list \<times> string" where
  "cut_lines buf = (if CHR 0x0A \<in> set buf
     then (case cut_lines (tl (dropWhile (\<lambda>c. c \<noteq> CHR 0x0A) buf)) of (ls, rest) \<Rightarrow> (takeWhile (\<lambda>c. c \<noteq> CHR 0x0A) buf # ls, rest))
     else ([], buf))"
  by pat_completeness auto
termination
proof (relation "measure length")
  fix buf :: string assume "CHR 0x0A \<in> set buf"
  then have "dropWhile (\<lambda>c. c \<noteq> CHR 0x0A) buf \<noteq> []" by auto
  then have "length (tl (dropWhile (\<lambda>c. c \<noteq> CHR 0x0A) buf)) < length (dropWhile (\<lambda>c. c \<noteq> CHR 0x0A) buf)" by simp
  also have "\<dots> \<le> length buf" by (rule length_dropWhile_le)
  finally show "(tl (dropWhile (\<lambda>c. c \<noteq> CHR 0x0A) buf), buf) \<in> measure length" by simp
qed simp

declare cut_lines.simps [simp del]

definition readMore :: "tail_codec \<Rightarrow> tail_world \<Rightarrow> code \<Rightarrow> tail_state \<Rightarrow> tail_state \<times> published list" where
  "readMore k w c s = (case fl_file w (ft_dir s) (ft_ymd s) of
       None \<Rightarrow> (s, [])
     | Some bytes \<Rightarrow>
         let s1 = (if length bytes < ft_offset s then s\<lparr>ft_offset := 0, ft_buf := []\<rparr> else s)
         in if length bytes = ft_offset s1 then (s1, [])
            else (case cut_lines (ft_buf s1 @ tk_utf8 k (drop (ft_offset s1) bytes)) of
                (ls, rest) \<Rightarrow> (s1\<lparr>ft_offset := length bytes, ft_buf := rest\<rparr>, concat (map (handleLine k (fl_now w) c) ls))))"

definition drainOne :: "tail_codec \<Rightarrow> tail_world \<Rightarrow> code \<Rightarrow> tail_state \<Rightarrow> tail_state \<times> published list" where
  "drainOne k w c s =
     (if fl_today w \<noteq> ft_ymd s
      then (case readMore k w c s of (s1, ps) \<Rightarrow>
        (case readMore k w c (s1\<lparr>ft_ymd := fl_today w, ft_offset := 0, ft_buf := []\<rparr>) of (s2, qs) \<Rightarrow> (s2, ps @ qs)))
      else readMore k w c s)"

section \<open>Which services are tailed\<close>

definition startTailing :: "tail_world \<Rightarrow> code \<times> string \<Rightarrow> tails \<Rightarrow> tails" where
  "startTailing w cd ts =
     (if fst cd \<in> fst ` set ts then ts
      else ts @ [(fst cd, \<lparr>ft_dir = snd cd, ft_ymd = fl_today w,
        ft_offset = (case fl_file w (snd cd) (fl_today w) of Some bytes \<Rightarrow> length bytes | None \<Rightarrow> 0), ft_buf = []\<rparr>)])"

text \<open>\<open>wanted\<close>: the services of the catalog with a log directory, then those found under the root.\<close>

definition wanted_tails :: "(code \<times> string) list \<Rightarrow> (code \<times> string) list \<Rightarrow> (code \<times> string) list" where
  "wanted_tails configured found = foldl (\<lambda>m cd. if fst cd \<in> fst ` set m then m else m @ [cd])
     (foldl (\<lambda>m cd. upsert fst cd m) [] configured) found"

definition refresh_tails :: "tail_world \<Rightarrow> (code \<times> string) list \<Rightarrow> (code \<times> string) list \<Rightarrow> tails \<Rightarrow> tails" where
  "refresh_tails w configured found ts =
     (let wanted = wanted_tails configured found
      in filter (\<lambda>t. fst t \<in> fst ` set wanted) (foldl (\<lambda>ts cd. startTailing w cd ts) ts wanted))"

definition discoverFromRoot :: "tail_world \<Rightarrow> (code \<times> string) list \<Rightarrow> tails \<Rightarrow> tails" where
  "discoverFromRoot w found ts = foldl (\<lambda>ts cd. startTailing w cd ts) ts found"

fun drain_all :: "tail_codec \<Rightarrow> tail_world \<Rightarrow> tails \<Rightarrow> tails \<times> published list" where
  "drain_all k w [] = ([], [])"
| "drain_all k w ((c, s) # ts) = (case drainOne k w c s of (s', ps) \<Rightarrow> (case drain_all k w ts of (ts', qs) \<Rightarrow> ((c, s') # ts', ps @ qs)))"

text \<open>A tick of the timer; every tenth one looks for new directories first.\<close>

definition tail_tick :: "tail_codec \<Rightarrow> tail_world \<Rightarrow> (code \<times> string) list \<Rightarrow> nat \<times> tails \<Rightarrow> (nat \<times> tails) \<times> published list" where
  "tail_tick k w found st = (case st of (n, ts) \<Rightarrow>
     (case drain_all k w (if n mod 10 = 0 then discoverFromRoot w found ts else ts) of (ts', ps) \<Rightarrow> ((n + 1, ts'), ps)))"

section \<open>Lines are complete and come once\<close>

lemma cut_lines_none: "CHR 0x0A \<notin> set buf \<Longrightarrow> cut_lines buf = ([], buf)"
  by (simp add: cut_lines.simps)

lemma cut_lines_line: "CHR 0x0A \<notin> set l \<Longrightarrow> cut_lines (l @ CHR 0x0A # rest) = (l # fst (cut_lines rest), snd (cut_lines rest))"
proof -
  assume "CHR 0x0A \<notin> set l"
  then have "takeWhile (\<lambda>c. c \<noteq> CHR 0x0A) (l @ CHR 0x0A # rest) = l" "dropWhile (\<lambda>c. c \<noteq> CHR 0x0A) (l @ CHR 0x0A # rest) = CHR 0x0A # rest"
    by (auto simp: takeWhile_append dropWhile_append)
  then show ?thesis by (subst cut_lines.simps) (simp add: split_beta)
qed

lemma cut_lines_char:
  "cut_lines [] = ([], [])"
  "cut_lines (c # cs) = (if c = CHR 0x0A then ([] # fst (cut_lines cs), snd (cut_lines cs))
    else (case fst (cut_lines cs) of [] \<Rightarrow> ([], c # snd (cut_lines cs)) | l # ls \<Rightarrow> ((c # l) # ls, snd (cut_lines cs))))"
proof -
  show "cut_lines [] = ([], [])" by (simp add: cut_lines_none)
  show "cut_lines (c # cs) = (if c = CHR 0x0A then ([] # fst (cut_lines cs), snd (cut_lines cs))
    else (case fst (cut_lines cs) of [] \<Rightarrow> ([], c # snd (cut_lines cs)) | l # ls \<Rightarrow> ((c # l) # ls, snd (cut_lines cs))))"
  proof (cases "CHR 0x0A \<in> set cs")
    case True
    then obtain l r where "cs = l @ CHR 0x0A # r" "CHR 0x0A \<notin> set l" by (metis split_list_first)
    then show ?thesis using cut_lines_line [of l r] cut_lines_line [of "c # l" r] cut_lines_line [of "[]" "l @ CHR 0x0A # r"] by auto
  next
    case False
    then show ?thesis using cut_lines_line [of "[]" cs] by (auto simp: cut_lines_none)
  qed
qed

text \<open>Cutting a text in two pieces cuts the same lines.\<close>

lemma cut_lines_append:
  "cut_lines (a @ b) = (fst (cut_lines a) @ fst (cut_lines (snd (cut_lines a) @ b)), snd (cut_lines (snd (cut_lines a) @ b)))"
proof (induction a rule: cut_lines.induct)
  case (1 a)
  show ?case
  proof (cases "CHR 0x0A \<in> set a")
    case True
    then obtain l r where a: "a = l @ CHR 0x0A # r" "CHR 0x0A \<notin> set l" by (metis split_list_first)
    then have d: "tl (dropWhile (\<lambda>c. c \<noteq> CHR 0x0A) a) = r" by (auto simp: dropWhile_append)
    have ih: "cut_lines (r @ b) = (fst (cut_lines r) @ fst (cut_lines (snd (cut_lines r) @ b)), snd (cut_lines (snd (cut_lines r) @ b)))"
      using 1 [OF True] unfolding d .
    show ?thesis unfolding a(1) by (simp only: append_assoc append_Cons cut_lines_line [OF a(2)] ih fst_conv snd_conv)
  qed (simp add: cut_lines_none)
qed

definition lines_of :: "string \<Rightarrow> string list" where
  "lines_of text = fst (cut_lines text)"

text \<open>The polls of one file with growing contents.\<close>

fun poll_file :: "tail_codec \<Rightarrow> code \<Rightarrow> tail_world list \<Rightarrow> tail_state \<Rightarrow> tail_state \<times> published list" where
  "poll_file k c [] s = (s, [])"
| "poll_file k c (w # ws) s = (case drainOne k w c s of (s', ps) \<Rightarrow> (case poll_file k c ws s' of (s'', qs) \<Rightarrow> (s'', ps @ qs)))"

definition content_at :: "tail_state \<Rightarrow> tail_world \<Rightarrow> string" where
  "content_at s w = (case fl_file w (ft_dir s) (ft_ymd s) of Some b \<Rightarrow> b | None \<Rightarrow> [])"

lemma readMore_grown:
  assumes "length (content_at s w) \<ge> ft_offset s" "tk_utf8 k [] = []" "CHR 0x0A \<notin> set (ft_buf s)"
  shows "readMore k w c s =
    (let r = cut_lines (ft_buf s @ tk_utf8 k (drop (ft_offset s) (content_at s w)))
     in (s\<lparr>ft_offset := length (content_at s w), ft_buf := snd r\<rparr>, concat (map (handleLine k (fl_now w) c) (fst r))))"
  using assms by (auto simp: readMore_def content_at_def cut_lines_none Let_def split: option.splits prod.splits)

lemma cut_rest: "CHR 0x0A \<notin> set (snd (cut_lines b))"
proof (induction b rule: cut_lines.induct)
  case (1 b)
  then show ?case by (subst cut_lines.simps) (auto simp: split_beta)
qed

text \<open>What a subscriber sees of a line, its time apart.\<close>

definition shown :: "published \<Rightarrow> log_channel \<times> string" where
  "shown p = (pb_channel p, pb_line p)"

definition shown_line :: "tail_codec \<Rightarrow> code \<Rightarrow> string \<Rightarrow> (log_channel \<times> string) list" where
  "shown_line k c l = map shown (handleLine k 0 c l)"

lemma shown_lines: "map shown (concat (map (handleLine k t c) ls)) = concat (map (shown_line k c) ls)"
  by (induction ls) (auto simp: shown_line_def shown_def handleLine_def split: option.splits)

lemma cut_pieces:
  assumes "tk_utf8 k (u @ v) = tk_utf8 k u @ tk_utf8 k v"
  shows "lines_of (b @ tk_utf8 k (u @ v)) = fst (cut_lines (b @ tk_utf8 k u)) @ lines_of (snd (cut_lines (b @ tk_utf8 k u)) @ tk_utf8 k v)"
  by (simp only: assms append_assoc [symmetric] cut_lines_append [of "b @ tk_utf8 k u"] lines_of_def fst_conv)

definition content :: "string \<Rightarrow> string \<Rightarrow> tail_world \<Rightarrow> string" where
  "content dir day w = content_at \<lparr>ft_dir = dir, ft_ymd = day, ft_offset = 0, ft_buf = []\<rparr> w"

lemma content_at [simp]: "content_at \<lparr>ft_dir = dir, ft_ymd = day, ft_offset = n, ft_buf = b\<rparr> w = content dir day w"
  by (simp add: content_def content_at_def)

lemma drain_grown:
  assumes "fl_today w = day" "n \<le> length (content dir day w)" "tk_utf8 k [] = []" "CHR 0x0A \<notin> set b"
    and r: "r = cut_lines (b @ tk_utf8 k (drop n (content dir day w)))"
  shows "drainOne k w c \<lparr>ft_dir = dir, ft_ymd = day, ft_offset = n, ft_buf = b\<rparr> =
    (\<lparr>ft_dir = dir, ft_ymd = day, ft_offset = length (content dir day w), ft_buf = snd r\<rparr>, concat (map (handleLine k (fl_now w) c) (fst r)))"
proof -
  have "drainOne k w c \<lparr>ft_dir = dir, ft_ymd = day, ft_offset = n, ft_buf = b\<rparr> = readMore k w c \<lparr>ft_dir = dir, ft_ymd = day, ft_offset = n, ft_buf = b\<rparr>"
    by (simp only: drainOne_def assms(1) tail_state.simps simp_thms if_False)
  then show ?thesis using assms readMore_grown [of "\<lparr>ft_dir = dir, ft_ymd = day, ft_offset = n, ft_buf = b\<rparr>" w k c] by (simp add: Let_def)
qed

lemma polls_show_lines:
  assumes "tk_utf8 k [] = []"
    and "list_all (\<lambda>w. fl_today w = day) ws"
    and "\<forall>w \<in> set ws. \<forall>n b. tk_utf8 k (drop n (content dir day w) @ b) = tk_utf8 k (drop n (content dir day w)) @ tk_utf8 k b"
    and "sorted_wrt prefix (x # map (content dir day) ws)" "CHR 0x0A \<notin> set b"
  shows "map shown (snd (poll_file k c ws \<lparr>ft_dir = dir, ft_ymd = day, ft_offset = length x, ft_buf = b\<rparr>)) =
    concat (map (shown_line k c) (lines_of (b @ tk_utf8 k (drop (length x) (last (x # map (content dir day) ws))))))"
  using assms(2-)
proof (induction ws arbitrary: x b)
  case Nil
  then show ?case by (simp add: assms(1) lines_of_def cut_lines_none)
next
  case (Cons w ws)
  let ?y = "content dir day w" and ?last = "last (content dir day w # map (content dir day) ws)"
  let ?r = "cut_lines (b @ tk_utf8 k (drop (length x) ?y))"
  have xy: "prefix x ?y" and yl: "prefix ?y ?last" using Cons.prems(3) by (auto simp: last_map)
  obtain u where u: "?y = x @ u" using xy by (auto elim: prefixE)
  obtain v where v: "?last = ?y @ v" using yl by (auto elim: prefixE)
  have pieces: "drop (length x) ?last = u @ v" "drop (length ?y) ?last = v" "drop (length x) ?y = u" unfolding v by (simp_all add: u)
  have "tk_utf8 k (u @ v) = tk_utf8 k u @ tk_utf8 k v" using Cons.prems(2) pieces(3) by (metis list.set_intros(1))
  then have "lines_of (b @ tk_utf8 k (drop (length x) ?last)) = fst ?r @ lines_of (snd ?r @ tk_utf8 k (drop (length ?y) ?last))"
    unfolding pieces by (rule cut_pieces)
  moreover have "map shown (snd (poll_file k c ws \<lparr>ft_dir = dir, ft_ymd = day, ft_offset = length ?y, ft_buf = snd ?r\<rparr>)) =
      concat (map (shown_line k c) (lines_of (snd ?r @ tk_utf8 k (drop (length ?y) ?last))))"
    using Cons.prems by (intro Cons.IH) (simp_all add: cut_rest)
  ultimately show ?case
    using drain_grown [of w day "length x" dir k b ?r c] Cons.prems prefix_length_le [OF xy] assms(1) by (simp add: split_beta shown_lines)
qed

text \<open>
  C24. While the file of a day only grows and no poll sees a part of a character, the polls publish every line that
  is complete, once and in order, whatever pieces the polls see; they begin where the file ended at the start.
\<close>
theorem complete_lines_come_once:
  assumes "tk_utf8 k [] = []"
    and "list_all (\<lambda>w. fl_today w = day) ws"
    and "\<forall>w \<in> set ws. \<forall>n b. tk_utf8 k (drop n (content dir day w) @ b) = tk_utf8 k (drop n (content dir day w)) @ tk_utf8 k b"
    and "sorted_wrt prefix (content dir day start # map (content dir day) ws)" "fl_today start = day"
  shows "map shown (snd (poll_file k c ws (snd (hd (startTailing start (c, dir) []))))) =
    concat (map (shown_line k c) (lines_of (tk_utf8 k (drop (length (content dir day start)) (last (content dir day start # map (content dir day) ws))))))"
proof -
  have "snd (hd (startTailing start (c, dir) [])) = \<lparr>ft_dir = dir, ft_ymd = day, ft_offset = length (content dir day start), ft_buf = []\<rparr>"
    using assms(5) by (simp add: startTailing_def content_def content_at_def split: option.splits)
  then show ?thesis using polls_show_lines [OF assms(1-4), of "[]" c] by simp
qed

definition seen_at :: "string \<Rightarrow> tail_world" where
  "seen_at bytes = \<lparr>fl_now = 1, fl_today = ''2026-08-01'', fl_file = (\<lambda>_ _. Some bytes)\<rparr>"

definition plain_codec :: tail_codec where
  "plain_codec = \<lparr>tk_utf8 = (\<lambda>s. s), tk_json = (\<lambda>_. None)\<rparr>"

lemma complete_lines_come_once_witness:
  "map shown (snd (poll_file plain_codec ''api'' [seen_at ''old'', seen_at (''old'' @ [CHR 0x0A] @ ''up''), seen_at (''old'' @ [CHR 0x0A] @ ''up!'' @ [CHR 0x0A])]
      (snd (hd (startTailing (seen_at ''o'') (''api'', ''logs'') []))))) = [(Stdout, ''ld''), (Stdout, ''up!'')]"
proof -
  let ?ws = "[seen_at ''old'', seen_at (''old'' @ [CHR 0x0A] @ ''up''), seen_at (''old'' @ [CHR 0x0A] @ ''up!'' @ [CHR 0x0A])]"
  have at: "content ''logs'' ''2026-08-01'' (seen_at b) = b" for b by (simp add: content_def content_at_def seen_at_def)
  have "map shown (snd (poll_file plain_codec ''api'' ?ws (snd (hd (startTailing (seen_at ''o'') (''api'', ''logs'') []))))) =
    concat (map (shown_line plain_codec ''api'') (lines_of (tk_utf8 plain_codec (drop (length (content ''logs'' ''2026-08-01'' (seen_at ''o'')))
      (last (content ''logs'' ''2026-08-01'' (seen_at ''o'') # map (content ''logs'' ''2026-08-01'') ?ws))))))"
    by (rule complete_lines_come_once) (simp_all only: at list.map, simp_all add: plain_codec_def, simp_all add: seen_at_def)
  also have "\<dots> = concat (map (shown_line plain_codec ''api'') (lines_of (''ld'' @ [CHR 0x0A] @ ''up!'' @ [CHR 0x0A])))"
    by (simp only: at list.map) (simp add: plain_codec_def)
  also have "lines_of (''ld'' @ [CHR 0x0A] @ ''up!'' @ [CHR 0x0A]) = [''ld'', ''up!'']" by (simp add: lines_of_def cut_lines_char)
  also have "concat (map (shown_line plain_codec ''api'') [''ld'', ''up!'']) = [(Stdout, ''ld''), (Stdout, ''up!'')]"
    by (simp add: shown_line_def handleLine_def shown_def plain_codec_def js_trim_def is_space_def)
  finally show ?thesis .
qed

end
