(* ===== verification/Spec2Isabelle.thy ===== *)
theory Spec2Isabelle imports Supervisor_Properties Line_Framer Backend_Readiness Backend_Properties
  Rule_Service Log_Ring Ip_Properties
  Process_Properties Launch_Prefs Process_Reconcile Mesh_Safety Block_Service Adopted_Reaper Operation_Properties
  Execution_Safety Daily_Safety Downtime_Exact Downtime_Alerts Detector_Counting Intrusion_Safety
  Request_Filter Tunnel_Containment Tunnel_Routes Capture_Supervisor File_Tail
begin

text \<open>
  Excubitor watches and controls the services of a developer's machine. A \<^bold>\<open>supervisor\<close> process
  (\<open>src/local-control/\<close>) answers command lines over a local socket, keeps every operation in a file and
  runs the \<^bold>\<open>backend\<close>. The backend starts, adopts and stops the services of its catalog
  (\<open>src/process/\<close>, \<open>src/launch/\<close>), updates their repositories (\<open>src/update/\<close>), takes requests from
  other sites (\<open>src/federation/\<close>), edits public routes (\<open>src/cf-tunnel/\<close>), filters DNS (\<open>src/dnsfilter/\<close>), blocks network destinations
  (\<open>src/netwatch/\<close>), watches whether services are up (\<open>src/scanner/\<close>), guards the public gateway
  (\<open>src/intrusion/\<close>) and keeps recent log lines (\<open>src/log/\<close>). Paths here and in the theories leave out
  the leading \<open>src/\<close> of the repository.

  \<^bold>\<open>Shared theories.\<close> \<open>Prelude\<close> has the untyped JavaScript values, the array and map operations of
  the standard library and the collections \<open>state_defs\<close> and \<open>inv_intros\<close>. \<open>Text_Tools\<close> has the string
  operations. \<open>Async\<close> models asynchronous functions: a program runs synchronously on the state of its
  object until an \<open>await\<close>, and each continuation starts later on the state the object has then. Its locale
  \<open>async_safety\<close> has the rules by which a task that relies on what other tasks may do keeps an invariant and
  makes only allowed requests; it is interpreted for the backend (\<open>lc\<close>, \<open>mon\<close>), the process manager
  (\<open>pt\<close>, \<open>fixed_wishes\<close>), the launcher (\<open>launch\<close>), the reconciliation (\<open>rcx\<close>), the site authentication
  (\<open>mesh\<close>), the reaper (\<open>reaper\<close>), the execution of operations (\<open>steps\<close>), the daily update (\<open>daily\<close>),
  the downtime alerts (\<open>alerts\<close>), the intrusion monitor (\<open>latch\<close>) and the containment of
  tunnels (\<open>contain\<close>).
  \<open>File_Backed\<close> has the locale of services over a registry with a file (\<open>rules\<close>, \<open>blocks\<close>), and
  \<open>Bounded_History\<close> the locales of buffers that keep their newest entries (\<open>ring\<close>, \<open>circ\<close>).

  \<^bold>\<open>Supervisor\<close> (\<open>local-control/\<close>). \<open>Line_Framer\<close>: \<open>line-framer.ts\<close>; framing does not depend on the
  chunks and undoes itself. \<open>Protocol\<close>: \<open>protocol.ts\<close>, requests with their schema and the responses, whose
  encoded line stays within the protocol's bound (in \<open>Execution\<close> with \<open>truncateControlOutput\<close>).
  \<open>State_Store\<close>: \<open>state-store.ts\<close>, the durable log as a memory image and a file; a restart settles what it
  finds. Its promise to the supervisor is the locale \<open>operation_log\<close>, interpreted as \<open>oplog\<close>.
  \<open>Target_Queue\<close>: \<open>target-queue.ts\<close>. \<open>Supervisor\<close>: the dispatch of \<open>supervisor.ts\<close> as the step relation
  \<open>sv_step\<close> over requests in flight. \<open>Supervisor_Once\<close> and \<open>Supervisor_Properties\<close>: an operation id
  executes at most once, its effects start after it is on disk, operations on one target exclude
  each other, a retry is answered from the record. \<open>Backend\<close>, \<open>Backend_Lifecycle\<close>: the controller
  \<open>excubitor-backend.ts\<close> with its health monitor; \<open>Backend_Safety\<close>, \<open>Backend_Properties\<close>: one live backend,
  termination only of verified processes, restarts only while wanted. \<open>Backend_Readiness\<close>: the wait
  for a healthy backend (\<open>backend-readiness*.ts\<close>), its verdict and its end.

  \<^bold>\<open>Processes\<close> (\<open>process/\<close>, \<open>launch/\<close>). \<open>Process_Identity\<close>: \<open>identity.ts\<close>. \<open>Process_Manager\<close>,
  \<open>Process_Programs\<close>, \<open>Process_Machine\<close>: \<open>manager.ts\<close> with its maps, its asynchronous functions and the event
  loop around them (\<open>pm_step\<close>). \<open>Process_Safety\<close> has the invariant, \<open>Process_Invariant\<close> that every function
  keeps it, \<open>Process_Properties\<close> what follows: one live child per service, current restart timers, no
  child nobody wants. \<open>Catalog_Service\<close>, \<open>Process_Reconcile\<close>: the boot reconciliation (\<open>reconcile.ts\<close>).
  \<open>Adopted_Reaper\<close>: \<open>local-control/adopted-process-reaper.ts\<close>. \<open>Launch_Order\<close>, \<open>Launch_Start\<close>,
  \<open>Launch_Prefs\<close>: \<open>order.ts\<close>, \<open>orchestrator.ts\<close> with the preflight, and the stored overrides.

  \<^bold>\<open>Sites and operations\<close> (\<open>federation/\<close>, \<open>update/\<close>). \<open>Request_Signature\<close>, \<open>Mesh_Auth\<close>, \<open>Mesh_Safety\<close>:
  signed requests, the nonce cache and the stored nonces (both interpret \<open>replay_guard\<close>), and that
  replays are refused under every interleaving. \<open>Operation_Store\<close>: the tables of operations, daily runs and
  their leases. \<open>Operation_Runner\<close>: \<open>operations/runner.ts\<close> as \<open>rn_step\<close>, with kills of the backend between
  any two steps; \<open>Operation_Safety\<close>, \<open>Operation_Properties\<close>: the life of an operation, one at a time and
  none beside a daily update, in the order of acceptance. \<open>Repository_Steps\<close>, \<open>Operation_Execution\<close>,
  \<open>Execution_Safety\<close>: the git, build and restart steps of an operation and that a failure stops it.
  \<open>Daily_Update\<close>, \<open>Daily_Safety\<close>: the daily transaction (\<open>update/daily/transaction.ts\<close>, \<open>scheduler.ts\<close>): it
  changes a repository only under a saved checkpoint, leaves it updated or restored, and closes its run.

  \<^bold>\<open>Network\<close> (\<open>dnsfilter/\<close>, \<open>netwatch/\<close>, \<open>log/\<close>). \<open>Domain_Rules\<close>, \<open>Rule_Service\<close>, \<open>Query_Log\<close>,
  \<open>Dns_Message\<close>, \<open>Dns_Resolver\<close>: the rules of the filter and their decision, their registry and
  file, the recent queries, the wire format and the handling of one query. \<open>Ip_Range\<close>, \<open>Ip_Properties\<close>:
  \<open>netwatch/cidr.ts\<close>, \<open>dnsfilter/endpoint.ts\<close> and the scopes of addresses. \<open>Block_Target\<close>,
  \<open>Block_Service\<close>: what may be blocked and the registry of blocks. \<open>Log_Ring\<close>: \<open>log/ring-buffer.ts\<close>.
  \<open>File_Tail\<close>: \<open>log/file-tail.ts\<close>, complete lines come once whatever pieces the polls see.
  \<open>Capture_Supervisor\<close>: \<open>netwatch/capture-supervisor.ts\<close> as the runs \<open>capturing\<close>: one capture at a time, with
  a delay after a crash. \<open>Tunnel_Routes\<close>: \<open>cf-tunnel/route-service.ts\<close>; an added route is removed without a trace.

  \<^bold>\<open>Watching services\<close> (\<open>scanner/\<close>). \<open>Liveness_History\<close>: a pass of \<open>health-state.ts\<close> over the tables of
  instances and history. \<open>Downtime\<close>: \<open>downtime.ts\<close>, whose scan measures the time spent down;
  \<open>Downtime_Exact\<close>: the thinned history tells the same downtime as all probes. \<open>Downtime_Alerts\<close>:
  \<open>downtime-alert.ts\<close>, one alert per outage.

  \<^bold>\<open>Public gateway\<close> (\<open>intrusion/\<close>). \<open>Request_Path\<close>, \<open>Intrusion_Detector\<close>: the checks of \<open>detection.ts\<close>;
  \<open>Detector_Counting\<close>: its counters keep clients apart and bound their rate. \<open>Intrusion_Monitor\<close>,
  \<open>Intrusion_Safety\<close>: the site cutoff of \<open>monitor.ts\<close> with its store and its start, as \<open>monitor_runs\<close>: the
  latch stays closed through kills and restarts, and its workflow contains and reports.
  \<open>Tunnel_Containment\<close>: \<open>containment.ts\<close>, writes after a snapshot and a confirmed result.
  \<open>Request_Policy\<close>: \<open>security-defense/request-policy.ts\<close>, the limits of a client and its blocks.
  \<open>Request_Filter\<close>: \<open>request-filter.ts\<close>, the mode without a cutoff, in which visitors do not affect each
  other.

  \<^bold>\<open>Conventions.\<close> Exceptions and rejected promises are the left side of a sum. Numbers are \<open>int\<close> or
  \<open>nat\<close> where JavaScript's doubles hold them exactly, bytes of messages \<open>8 word\<close>. The clock, the process
  table, random ids, git, npm, the operating system and the digest functions are snapshots, answers or
  parameters; every theorem holds for all of them, or names what it needs of them as a hypothesis.
  A synchronous stretch of code takes no time. Messages the source writes in Japanese are given by
  their English meaning. Kills of the process happen between steps.

  \<^bold>\<open>Bounds.\<close> Loops that count have their own recursion. \<open>wait_released\<close> runs 41 rounds, the deadline of
  \<open>waitForPortFree\<close> divided by its pause. The search of \<open>Launch_Order\<close> is measured by the services it has not
  visited. The search for a git root goes two directories deep, as the code's does. The readiness wait
  is measured by the time left to its hard limit.

  \<^bold>\<open>Not modelled.\<close> The web page, HTTP routes and their schemas, the MCP server, files, sockets, platform
  specific process spawning, docker, and the parts whose work is another program's. The manifest lists each with its
  reason. YAML and zod parsing of the catalog is outside, its result an argument. Logging is left out.
\<close>

end
